(* ===== verification/K1s_Prelude.thy ===== *)
theory K1s_Prelude
  imports Main "HOL-Library.AList" "HOL-Library.List_Lexorder" "HOL-Library.Char_ord"
begin

text \<open>
  The shared vocabulary of the development: the Python values the controller code passes around
  (JSON values, truthiness, \<^verbatim>\<open>str\<close>, \<^verbatim>\<open>int\<close>, \<^verbatim>\<open>strip\<close>, \<^verbatim>\<open>lower\<close>), decimal numerals with the facts
  that make composed identifiers injective, and SQL tables as lists of rows in rowid order with
  the statements the stores issue on them.

  Strings are lists of code points below 256. JSON numbers are integers: the protocol fields the
  modelled code reads (epochs, attempts, sequence numbers, counts) are integers. Times are
  integers, microseconds since the epoch; every \<^verbatim>\<open>datetime.now()\<close> of the source is an argument.
\<close>

named_theorems py_defs \<open>definitions of the Python value operations\<close>
named_theorems sql_simps \<open>facts about SQL statements on tables\<close>

type_synonym time = int

section \<open>Python strings\<close>

definition is_ws :: "char \<Rightarrow> bool" where
  "is_ws c = (let n = (of_char c :: nat) in
     (9 \<le> n \<and> n \<le> 13) \<or> (28 \<le> n \<and> n \<le> 32) \<or> n = 133 \<or> n = 160)"

definition lstrip :: "string \<Rightarrow> string" where
  "lstrip s = dropWhile is_ws s"

definition rstrip :: "string \<Rightarrow> string" where
  "rstrip s = rev (dropWhile is_ws (rev s))"

definition strip :: "string \<Rightarrow> string" where
  "strip s = rstrip (lstrip s)"

definition strip_chars :: "char list \<Rightarrow> string \<Rightarrow> string" where
  "strip_chars cs s =
     rev (dropWhile (\<lambda>c. c \<in> set cs) (rev (dropWhile (\<lambda>c. c \<in> set cs) s)))"

definition lower_char :: "char \<Rightarrow> char" where
  "lower_char c = (let n = (of_char c :: nat) in
     if (65 \<le> n \<and> n \<le> 90) \<or> (192 \<le> n \<and> n \<le> 222 \<and> n \<noteq> 215) then char_of (n + 32) else c)"

definition lower :: "string \<Rightarrow> string" where
  "lower s = map lower_char s"

fun join :: "string \<Rightarrow> string list \<Rightarrow> string" where
  "join sep [] = []"
| "join sep [x] = x"
| "join sep (x # y # zs) = x @ sep @ join sep (y # zs)"

lemma dropWhile_idem [simp]: "dropWhile P (dropWhile P xs) = dropWhile P xs"
  by (induction xs) auto

lemma rev_dropWhile_prefix: "\<exists>zs. xs = rev (dropWhile P (rev xs)) @ zs"
proof -
  have "rev xs = takeWhile P (rev xs) @ dropWhile P (rev xs)" by simp
  then have "xs = rev (dropWhile P (rev xs)) @ rev (takeWhile P (rev xs))"
    by (metis rev_append rev_rev_ident)
  then show ?thesis by blast
qed

lemma lstrip_rstrip_lstrip: "lstrip (rstrip (lstrip s)) = rstrip (lstrip s)"
proof (cases "rstrip (lstrip s)")
  case Nil
  then show ?thesis by (simp add: lstrip_def)
next
  case (Cons c cs)
  obtain zs where "lstrip s = rstrip (lstrip s) @ zs"
    using rev_dropWhile_prefix [of "lstrip s" is_ws] by (auto simp: rstrip_def)
  with Cons have "lstrip s = c # cs @ zs" by simp
  then have "\<not> is_ws c"
    using hd_dropWhile [of is_ws s] by (simp add: lstrip_def)
  with Cons show ?thesis by (simp add: lstrip_def)
qed

lemma strip_idem [simp]: "strip (strip s) = strip s"
  by (simp add: strip_def lstrip_rstrip_lstrip) (simp add: rstrip_def)

lemma strip_not_Nil: "c \<in> set s \<Longrightarrow> \<not> is_ws c \<Longrightarrow> strip s \<noteq> []"
proof
  assume c: "c \<in> set s" "\<not> is_ws c" and "strip s = []"
  then have "dropWhile is_ws (rev (dropWhile is_ws s)) = []"
    by (simp add: strip_def lstrip_def rstrip_def)
  then have "\<forall>x \<in> set (dropWhile is_ws s). is_ws x" by (simp add: dropWhile_eq_Nil_conv)
  moreover have "set s \<subseteq> set (takeWhile is_ws s) \<union> set (dropWhile is_ws s)"
    by (metis set_append takeWhile_dropWhile_id order_refl)
  ultimately show False using c by (auto dest: set_takeWhileD)
qed

section \<open>Decimal numerals\<close>

definition digit_char :: "nat \<Rightarrow> char" where
  "digit_char d = char_of (48 + d)"

fun show_nat :: "nat \<Rightarrow> string" where
  "show_nat n = (if n < 10 then [digit_char n] else show_nat (n div 10) @ [digit_char (n mod 10)])"

declare show_nat.simps [simp del]

definition show_int :: "int \<Rightarrow> string" where
  "show_int i = (if i < 0 then ''-'' @ show_nat (nat (- i)) else show_nat (nat i))"

definition is_digit :: "char \<Rightarrow> bool" where
  "is_digit c = (let n = (of_char c :: nat) in 48 \<le> n \<and> n \<le> 57)"

definition digit_value :: "char \<Rightarrow> nat" where
  "digit_value c = of_char c - 48"

definition nat_of_digits :: "string \<Rightarrow> nat" where
  "nat_of_digits s = foldl (\<lambda>a c. 10 * a + digit_value c) 0 s"

lemma of_char_digit_char [simp]: "d < 10 \<Longrightarrow> (of_char (digit_char d) :: nat) = 48 + d"
  by (simp add: digit_char_def)

lemma is_digit_digit_char [simp]: "d < 10 \<Longrightarrow> is_digit (digit_char d)"
  by (simp add: is_digit_def)

lemma digit_value_digit_char [simp]: "d < 10 \<Longrightarrow> digit_value (digit_char d) = d"
  by (simp add: digit_value_def)

lemma show_nat_not_Nil [simp]: "show_nat n \<noteq> []"
  by (subst show_nat.simps) simp

lemma show_nat_digits: "c \<in> set (show_nat n) \<Longrightarrow> is_digit c"
proof (induction n rule: show_nat.induct)
  case (1 n)
  show ?case
  proof (cases "n < 10")
    case True
    with "1.prems" show ?thesis by (simp add: show_nat.simps [of n])
  next
    case False
    with "1.prems" "1.IH" show ?thesis by (auto simp: show_nat.simps [of n])
  qed
qed

lemma nat_of_digits_snoc [simp]: "nat_of_digits (s @ [c]) = 10 * nat_of_digits s + digit_value c"
  by (simp add: nat_of_digits_def)

lemma nat_of_digits_show_nat [simp]: "nat_of_digits (show_nat n) = n"
proof (induction n rule: show_nat.induct)
  case (1 n)
  show ?case
  proof (cases "n < 10")
    case True
    then show ?thesis by (simp add: show_nat.simps [of n] nat_of_digits_def)
  next
    case False
    with "1.IH" show ?thesis by (simp add: show_nat.simps [of n])
  qed
qed

lemma show_nat_inj [simp]: "show_nat m = show_nat n \<longleftrightarrow> m = n"
  by (metis nat_of_digits_show_nat)

lemma minus_not_digit: "\<not> is_digit (CHR ''-'')"
  by (simp add: is_digit_def)

lemma show_nat_neq_minus: "show_nat m \<noteq> CHR ''-'' # s"
  using show_nat_digits [of "CHR ''-''" m] minus_not_digit by auto

lemma show_int_inj [simp]: "show_int i = show_int j \<longleftrightarrow> i = j"
proof
  assume "show_int i = show_int j"
  then show "i = j"
    using show_nat_neq_minus [of "nat i"] show_nat_neq_minus [of "nat j"]
      not_sym [OF show_nat_neq_minus [of "nat i"]] not_sym [OF show_nat_neq_minus [of "nat j"]]
    by (auto simp: show_int_def split: if_splits)
qed simp

lemma show_int_no_colon: "CHR '':'' \<notin> set (show_int i)"
  using show_nat_digits [of "CHR '':''" "nat i"] show_nat_digits [of "CHR '':''" "nat (- i)"]
  by (auto simp: show_int_def is_digit_def)

lemma prefix_sep_inj:
  assumes "x \<notin> set a" and "x \<notin> set a'" and "a @ x # b = a' @ x # b'"
  shows "a = a' \<and> b = b'"
  using assms
proof (induction a arbitrary: a')
  case Nil
  then show ?case by (cases a') auto
next
  case (Cons y ys)
  then show ?case by (cases a') auto
qed

lemma append_sep_inj:
  assumes "x \<notin> set b" and "x \<notin> set b'" and "a @ x # b = a' @ x # b'"
  shows "a = a' \<and> b = b'"
proof -
  have "rev b @ x # rev a = rev b' @ x # rev a'"
    using arg_cong [OF assms(3), of rev] by simp
  then have "rev b = rev b' \<and> rev a = rev a'"
    using assms(1,2) prefix_sep_inj [of x "rev b" "rev b'" "rev a" "rev a'"] by simp
  then show ?thesis by simp
qed

section \<open>JSON values\<close>

datatype json =
    JNull
  | JBool bool
  | JInt int
  | JStr string
  | JArr "json list"
  | JObj "(string \<times> json) list"

type_synonym dict = "(string \<times> json) list"

definition dict_get :: "dict \<Rightarrow> string \<Rightarrow> json" where
  "dict_get d k = (case map_of d k of None \<Rightarrow> JNull | Some v \<Rightarrow> v)"

definition dict_put :: "string \<Rightarrow> json \<Rightarrow> dict \<Rightarrow> dict" where
  "dict_put k v d = AList.update k v d"

definition dict_setdefault :: "string \<Rightarrow> json \<Rightarrow> dict \<Rightarrow> dict" where
  "dict_setdefault k v d = (if k \<in> fst ` set d then d else d @ [(k, v)])"

definition dict_update :: "dict \<Rightarrow> dict \<Rightarrow> dict" where
  "dict_update d kvs = foldl (\<lambda>acc (k, v). dict_put k v acc) d kvs"

lemma dict_get_Nil [simp]: "dict_get [] k = JNull"
  by (simp add: dict_get_def)

lemma dict_get_put [simp]:
  "dict_get (dict_put k v d) k' = (if k' = k then v else dict_get d k')"
  by (simp add: dict_get_def dict_put_def update_conv')

lemma dict_get_setdefault [simp]:
  "dict_get (dict_setdefault k v d) k' =
     (if k' = k \<and> k \<notin> fst ` set d then v else dict_get d k')"
  by (auto simp: dict_get_def dict_setdefault_def map_add_def
      split: option.splits dest: map_of_SomeD)
    (metis fst_conv image_eqI map_of_SomeD)

fun truthy :: "json \<Rightarrow> bool" where
  "truthy JNull = False"
| "truthy (JBool b) = b"
| "truthy (JInt i) = (i \<noteq> 0)"
| "truthy (JStr s) = (s \<noteq> [])"
| "truthy (JArr xs) = (xs \<noteq> [])"
| "truthy (JObj kvs) = (kvs \<noteq> [])"

definition py_or :: "json \<Rightarrow> json \<Rightarrow> json" where
  "py_or a b = (if truthy a then a else b)"

text \<open>\<^verbatim>\<open>isinstance(v, dict)\<close> followed by the use of \<^verbatim>\<open>v\<close> as a dictionary.\<close>

fun as_dict :: "json \<Rightarrow> dict option" where
  "as_dict (JObj d) = Some d"
| "as_dict _ = None"

definition hex_digit :: "nat \<Rightarrow> char" where
  "hex_digit n = (if n < 10 then char_of (48 + n) else char_of (87 + n))"

definition repr_char :: "char \<Rightarrow> char \<Rightarrow> string" where
  "repr_char q c = (let n = (of_char c :: nat) in
     if c = q \<or> c = CHR 0x5C then [CHR 0x5C, c]
     else if n = 10 then [CHR 0x5C, CHR ''n'']
     else if n = 13 then [CHR 0x5C, CHR ''r'']
     else if n = 9 then [CHR 0x5C, CHR ''t'']
     else if n < 32 \<or> n = 127 \<or> (128 \<le> n \<and> n \<le> 160) \<or> n = 173
       then [CHR 0x5C, CHR ''x'', hex_digit (n div 16), hex_digit (n mod 16)]
     else [c])"

definition repr_str :: "string \<Rightarrow> string" where
  "repr_str s =
     (let q = (if CHR 0x27 \<in> set s \<and> CHR 0x22 \<notin> set s then CHR 0x22 else CHR 0x27)
      in q # concat (map (repr_char q) s) @ [q])"

fun py_repr :: "json \<Rightarrow> string" where
  "py_repr JNull = ''None''"
| "py_repr (JBool b) = (if b then ''True'' else ''False'')"
| "py_repr (JInt i) = show_int i"
| "py_repr (JStr s) = repr_str s"
| "py_repr (JArr xs) = ''['' @ join '', '' (map py_repr xs) @ '']''"
| "py_repr (JObj kvs) =
     ''{'' @ join '', '' (map (\<lambda>kv. repr_str (fst kv) @ '': '' @ py_repr (snd kv)) kvs) @ ''}''"

text \<open>\<^verbatim>\<open>str(v)\<close>: a string is itself, anything else its \<^verbatim>\<open>repr\<close>.\<close>

fun py_str :: "json \<Rightarrow> string" where
  "py_str (JStr s) = s"
| "py_str v = py_repr v"

text \<open>
  \<^verbatim>\<open>int(s)\<close> on a string: surrounding blanks, an optional sign, then digits with single
  underscores between them.
\<close>

fun digits_ok :: "string \<Rightarrow> bool" where
  "digits_ok [] = False"
| "digits_ok [c] = is_digit c"
| "digits_ok (c # d # cs) =
     (is_digit c \<and> (if d = CHR ''_'' then digits_ok cs else digits_ok (d # cs)))"

definition parse_int :: "string \<Rightarrow> int option" where
  "parse_int s =
     (let t = strip s;
          neg = (case t of c # _ \<Rightarrow> c = CHR ''-'' | [] \<Rightarrow> False);
          u = (case t of c # cs \<Rightarrow> if c = CHR ''-'' \<or> c = CHR ''+'' then cs else t | [] \<Rightarrow> []);
          n = int (nat_of_digits (filter is_digit u))
      in if digits_ok u then Some (if neg then - n else n) else None)"

text \<open>\<^verbatim>\<open>int(v)\<close>: \<open>None\<close> where Python raises.\<close>

fun py_int :: "json \<Rightarrow> int option" where
  "py_int (JInt i) = Some i"
| "py_int (JBool b) = Some (if b then 1 else 0)"
| "py_int (JStr s) = parse_int s"
| "py_int _ = None"

lemmas py_value_defs [py_defs] = dict_get_def dict_put_def dict_setdefault_def py_or_def

section \<open>Errors\<close>

datatype py_error =
    ValueError string
  | RuntimeError string
  | IntegrityError
  | TypeError
  | InterfaceError
  | RegistryConflictError string int int
  | NotLeaderError
  | OverflowError
  | AttributeError
  | KeyError
  | IndexError

type_synonym 'a result = "py_error + 'a"

text \<open>Sequencing of computations that may raise, and a loop that stops at the first error.\<close>

definition rbind :: "'a result \<Rightarrow> ('a \<Rightarrow> 'b result) \<Rightarrow> 'b result" where
  "rbind m f = (case m of Inl e \<Rightarrow> Inl e | Inr x \<Rightarrow> f x)"

fun rmap :: "('a \<Rightarrow> 'b result) \<Rightarrow> 'a list \<Rightarrow> 'b list result" where
  "rmap f [] = Inr []"
| "rmap f (x # xs) = rbind (f x) (\<lambda>y. rbind (rmap f xs) (\<lambda>ys. Inr (y # ys)))"

lemma rbind_simps [simp]: "rbind (Inl e) f = Inl e" "rbind (Inr x) f = f x"
  by (simp_all add: rbind_def)

lemma rbind_Inr_iff: "rbind m f = Inr y \<longleftrightarrow> (\<exists>x. m = Inr x \<and> f x = Inr y)"
  by (auto simp: rbind_def split: sum.splits)

lemma rmap_member: "rmap f xs = Inr ys \<Longrightarrow> y \<in> set ys \<Longrightarrow> \<exists>x \<in> set xs. f x = Inr y"
  by (induction xs arbitrary: ys) (auto simp: rbind_Inr_iff)

lemma rmap_Inr_iff: "rmap f xs = Inr ys \<longleftrightarrow> list_all2 (\<lambda>x y. f x = Inr y) xs ys"
  by (induction xs arbitrary: ys) (auto simp: rbind_Inr_iff list_all2_Cons1)

text \<open>
  Stateful computations that may raise keep the state reached so far. \<open>sfor\<close> is a \<^verbatim>\<open>for\<close> loop whose
  body may raise: the first error ends it.
\<close>

type_synonym ('s, 'a) eff = "'s \<Rightarrow> 'a result \<times> 's"

definition ebind :: "('s, 'a) eff \<Rightarrow> ('a \<Rightarrow> ('s, 'b) eff) \<Rightarrow> ('s, 'b) eff" where
  "ebind m f s = (case m s of (Inl e, s') \<Rightarrow> (Inl e, s') | (Inr x, s') \<Rightarrow> f x s')"

fun sfor :: "('x \<Rightarrow> ('s, unit) eff) \<Rightarrow> 'x list \<Rightarrow> ('s, unit) eff" where
  "sfor body [] s = (Inr (), s)"
| "sfor body (x # xs) s = ebind (body x) (\<lambda>_. sfor body xs) s"

lemma sfor_inv:
  assumes "\<And>x s. x \<in> set xs \<Longrightarrow> R s \<Longrightarrow> R (snd (body x s))" and "R s"
  shows "R (snd (sfor body xs s))"
  using assms
proof (induction xs arbitrary: s)
  case (Cons x xs)
  have "R (snd (body x s))" using Cons.prems by simp
  then show ?case
    using Cons.IH [OF Cons.prems(1)] by (auto simp: ebind_def split: prod.splits sum.splits)
qed simp

lemma ebind_inv:
  assumes "R (snd (m s))" and "\<And>x s'. R s' \<Longrightarrow> R (snd (f x s'))"
  shows "R (snd (ebind m f s))"
  using assms by (auto simp: ebind_def split: prod.splits sum.splits)

text \<open>\<^verbatim>\<open>int(v)\<close> that raises, and the values a \<^verbatim>\<open>for\<close> loop over \<^verbatim>\<open>v\<close> binds.\<close>

fun py_int_raise :: "json \<Rightarrow> int result" where
  "py_int_raise (JInt i) = Inr i"
| "py_int_raise (JBool b) = Inr (if b then 1 else 0)"
| "py_int_raise (JStr s) = (case parse_int s of None \<Rightarrow> Inl (ValueError ''int'') | Some i \<Rightarrow> Inr i)"
| "py_int_raise _ = Inl TypeError"

fun py_iter :: "json \<Rightarrow> json list result" where
  "py_iter (JArr xs) = Inr xs"
| "py_iter (JObj kvs) = Inr (map (\<lambda>kv. JStr (fst kv)) kvs)"
| "py_iter (JStr s) = Inr (map (\<lambda>c. JStr [c]) s)"
| "py_iter _ = Inl TypeError"

section \<open>JSON columns\<close>

text \<open>
  A TEXT column the code fills with \<^verbatim>\<open>json.dumps\<close>: empty or NULL, the dump of a value, or a text
  that \<^verbatim>\<open>json.loads\<close> rejects. \<^verbatim>\<open>json.loads(json.dumps(v))\<close> is \<open>v\<close>.
\<close>

datatype json_col = JEmpty | JDump json | JBad

text \<open>\<^verbatim>\<open>json.loads(col) if col else {}\<close>, and the same inside a \<^verbatim>\<open>try\<close> that falls back to \<^verbatim>\<open>{}\<close>.\<close>

definition loads_or_raise :: "json_col \<Rightarrow> json result" where
  "loads_or_raise c = (case c of JEmpty \<Rightarrow> Inr (JObj []) | JDump v \<Rightarrow> Inr v
     | JBad \<Rightarrow> Inl (ValueError ''json''))"

definition loads_or_empty :: "json_col \<Rightarrow> json" where
  "loads_or_empty c = (case c of JEmpty \<Rightarrow> JObj [] | JDump v \<Rightarrow> v | JBad \<Rightarrow> JObj [])"

text \<open>
  Binding a Python value to a TEXT or an INTEGER column: SQLite's column affinity turns numbers
  into text and integer-looking text into numbers; containers are not supported.
\<close>

fun bind_text :: "json \<Rightarrow> json result" where
  "bind_text JNull = Inr JNull"
| "bind_text (JStr s) = Inr (JStr s)"
| "bind_text (JInt i) = Inr (JStr (show_int i))"
| "bind_text (JBool b) = Inr (JStr (if b then ''1'' else ''0''))"
| "bind_text _ = Inl InterfaceError"

fun bind_int :: "json \<Rightarrow> json result" where
  "bind_int JNull = Inr JNull"
| "bind_int (JInt i) = Inr (JInt i)"
| "bind_int (JBool b) = Inr (JInt (if b then 1 else 0))"
| "bind_int (JStr s) = Inr (case parse_int s of Some i \<Rightarrow>
     (if CHR ''_'' \<in> set s then JStr s else JInt i) | None \<Rightarrow> JStr s)"
| "bind_int _ = Inl InterfaceError"

definition json_opt_str :: "string option \<Rightarrow> json" where
  "json_opt_str x = (case x of None \<Rightarrow> JNull | Some s \<Rightarrow> JStr s)"

definition json_opt_int :: "int option \<Rightarrow> json" where
  "json_opt_int x = (case x of None \<Rightarrow> JNull | Some i \<Rightarrow> JInt i)"

text \<open>\<^verbatim>\<open>str(col) if col else None\<close> and \<^verbatim>\<open>int(col) if col is not None else None\<close>.\<close>

definition str_or_none :: "json \<Rightarrow> string option" where
  "str_or_none v = (if truthy v then Some (py_str v) else None)"

definition int_or_none :: "json \<Rightarrow> int option result" where
  "int_or_none v = (if v = JNull then Inr None
     else case py_int v of None \<Rightarrow> Inl (ValueError ''int'') | Some i \<Rightarrow> Inr (Some i))"

text \<open>\<^verbatim>\<open>COALESCE(a, b)\<close>, and \<^verbatim>\<open>str(col) if col else None\<close> on a text column.\<close>

definition coalesce :: "'a option \<Rightarrow> 'a option \<Rightarrow> 'a option" where
  "coalesce a b = (case a of None \<Rightarrow> b | Some x \<Rightarrow> Some x)"

definition nonempty :: "string option \<Rightarrow> string option" where
  "nonempty x = (case x of Some (c # cs) \<Rightarrow> Some (c # cs) | _ \<Rightarrow> None)"

section \<open>SQL tables\<close>

text \<open>
  A table is the list of its rows in rowid order. \<^verbatim>\<open>UPDATE ... WHERE\<close>, \<^verbatim>\<open>DELETE ... WHERE\<close>,
  \<^verbatim>\<open>SELECT\<close> and the row counts the cursor reports are the functions below; \<^verbatim>\<open>ORDER BY\<close> is a stable
  sort, so rows that tie keep rowid order.
\<close>

definition update_where :: "('r \<Rightarrow> bool) \<Rightarrow> ('r \<Rightarrow> 'r) \<Rightarrow> 'r list \<Rightarrow> 'r list" where
  "update_where p f t = map (\<lambda>r. if p r then f r else r) t"

definition delete_where :: "('r \<Rightarrow> bool) \<Rightarrow> 'r list \<Rightarrow> 'r list" where
  "delete_where p t = filter (\<lambda>r. \<not> p r) t"

definition rowcount :: "('r \<Rightarrow> bool) \<Rightarrow> 'r list \<Rightarrow> nat" where
  "rowcount p t = length (filter p t)"

definition exists_row :: "('r \<Rightarrow> bool) \<Rightarrow> 'r list \<Rightarrow> bool" where
  "exists_row p t = list_ex p t"

text \<open>\<^verbatim>\<open>INSERT ... ON CONFLICT(key) DO UPDATE SET\<close>: \<open>f\<close> is the update of the conflicting row.\<close>

definition upsert :: "('r \<Rightarrow> 'k) \<Rightarrow> ('r \<Rightarrow> 'r) \<Rightarrow> 'r \<Rightarrow> 'r list \<Rightarrow> 'r list" where
  "upsert key f r t =
     (if exists_row (\<lambda>x. key x = key r) t
      then update_where (\<lambda>x. key x = key r) f t else t @ [r])"

text \<open>\<^verbatim>\<open>LIMIT n\<close>: SQLite takes a negative limit as no limit.\<close>

definition sql_limit :: "int \<Rightarrow> 'r list \<Rightarrow> 'r list" where
  "sql_limit n t = (if n < 0 then t else take (nat n) t)"

definition primary_key :: "('r \<Rightarrow> 'k) \<Rightarrow> 'r list \<Rightarrow> bool" where
  "primary_key key t = distinct (map key t)"

lemma exists_row_iff: "exists_row p t \<longleftrightarrow> (\<exists>r \<in> set t. p r)"
  by (simp add: exists_row_def list_ex_iff)

lemma exists_row_Nil [simp]: "exists_row p [] = False"
  by (simp add: exists_row_def)

lemma exists_row_find: "exists_row p t \<longleftrightarrow> find p t \<noteq> None"
  by (auto simp: exists_row_iff find_None_iff)

lemma set_update_where: "set (update_where p f t) = (\<lambda>r. if p r then f r else r) ` set t"
  by (simp add: update_where_def)

lemma length_update_where [simp]: "length (update_where p f t) = length t"
  by (simp add: update_where_def)

lemma set_delete_where [simp]: "set (delete_where p t) = {r \<in> set t. \<not> p r}"
  by (auto simp: delete_where_def)

lemma map_key_update_where:
  "(\<And>r. p r \<Longrightarrow> key (f r) = key r) \<Longrightarrow> map key (update_where p f t) = map key t"
  by (simp add: update_where_def)

lemma primary_key_delete_where: "primary_key key t \<Longrightarrow> primary_key key (delete_where p t)"
  by (auto simp: primary_key_def delete_where_def distinct_map inj_on_def)

lemma primary_key_insert:
  "primary_key key t \<Longrightarrow> \<not> exists_row (\<lambda>x. key x = key r) t \<Longrightarrow> primary_key key (t @ [r])"
  by (auto simp: primary_key_def exists_row_iff)

lemma primary_key_unique:
  assumes "primary_key key t" and "r \<in> set t" and "s \<in> set t" and "key r = key s"
  shows "r = s"
  using assms by (auto simp: primary_key_def distinct_map inj_on_def)

lemma find_key_Some:
  "find (\<lambda>x. key x = k) t = Some r \<Longrightarrow> r \<in> set t \<and> key r = k"
  by (auto simp: find_Some_iff)

lemma find_key_member:
  assumes "primary_key key t" and "r \<in> set t"
  shows "find (\<lambda>x. key x = key r) t = Some r"
proof (cases "find (\<lambda>x. key x = key r) t")
  case None
  with assms(2) show ?thesis by (auto simp: find_None_iff)
next
  case (Some s)
  with find_key_Some [OF this] primary_key_unique [OF assms(1) _ assms(2)] show ?thesis by auto
qed

lemma find_update_where:
  "(\<And>x. p x \<Longrightarrow> key (f x) = key x) \<Longrightarrow>
   find (\<lambda>x. key x = k) (update_where p f t) =
     map_option (\<lambda>r. if p r then f r else r) (find (\<lambda>x. key x = k) t)"
  by (induction t) (auto simp: update_where_def)

lemma find_delete_where:
  assumes "\<And>x. key x = k \<Longrightarrow> \<not> p x"
  shows "find (\<lambda>x. key x = k) (delete_where p t) = find (\<lambda>x. key x = k) t"
  using assms by (induction t) (auto simp: delete_where_def)

lemma find_append: "find p (xs @ ys) = (case find p xs of None \<Rightarrow> find p ys | Some r \<Rightarrow> Some r)"
  by (induction xs) auto

lemma find_update_where_key:
  assumes "\<And>x. key (f x) = key x"
  shows "find (\<lambda>x. key x = k) (update_where (\<lambda>x. key x = k') f t) =
     (if k = k' then map_option f (find (\<lambda>x. key x = k) t) else find (\<lambda>x. key x = k) t)"
  using assms by (induction t) (auto simp: update_where_def)

lemma find_upsert:
  assumes "\<And>x. key (f x) = key x"
  shows "find (\<lambda>x. key x = k) (upsert key f r t) =
     (if k = key r
      then Some (case find (\<lambda>x. key x = k) t of None \<Rightarrow> r | Some x \<Rightarrow> f x)
      else find (\<lambda>x. key x = k) t)"
  by (auto simp: upsert_def find_update_where_key [of key f, OF assms] find_append exists_row_find
      split: option.splits)

lemma primary_key_upsert:
  assumes "\<And>x. key (f x) = key x" and "primary_key key t"
  shows "primary_key key (upsert key f r t)"
  using assms primary_key_insert [OF assms(2), of r]
  by (auto simp: upsert_def primary_key_def map_key_update_where)

lemma rowcount_pos_iff: "0 < rowcount p t \<longleftrightarrow> exists_row p t"
  by (auto simp: rowcount_def exists_row_iff filter_empty_conv)

lemmas table_defs [sql_simps] = update_where_def delete_where_def exists_row_def

text \<open>
  An \<^verbatim>\<open>UPDATE\<close> that leaves the key columns alone: the contract under which a statement keeps the
  primary key and reaches a row through its key. Every \<^verbatim>\<open>UPDATE\<close> of the stores interprets it.
\<close>

locale keyed_update =
  fixes key :: "'r \<Rightarrow> 'k"
    and upd :: "'a \<Rightarrow> 'r \<Rightarrow> 'r"
  assumes key_kept: "key (upd a r) = key r"
begin

lemma keys_update: "map key (update_where p (upd a) t) = map key t"
  by (simp add: map_key_update_where key_kept)

lemma pk_update: "primary_key key (update_where p (upd a) t) = primary_key key t"
  by (simp add: primary_key_def keys_update)

lemma lookup_update:
  "find (\<lambda>x. key x = k) (update_where p (upd a) t) =
     map_option (\<lambda>r. if p r then upd a r else r) (find (\<lambda>x. key x = k) t)"
  by (rule find_update_where) (simp add: key_kept)

lemma lookup_update_key:
  "find (\<lambda>x. key x = k) (update_where (\<lambda>x. key x = k') (upd a) t) =
     (if k = k' then map_option (upd a) (find (\<lambda>x. key x = k) t) else find (\<lambda>x. key x = k) t)"
  by (rule find_update_where_key) (rule key_kept)

lemma lookup_upsert:
  "find (\<lambda>x. key x = k) (upsert key (upd a) r t) =
     (if k = key r
      then Some (case find (\<lambda>x. key x = k) t of None \<Rightarrow> r | Some x \<Rightarrow> upd a x)
      else find (\<lambda>x. key x = k) t)"
  by (rule find_upsert) (rule key_kept)

lemma pk_upsert: "primary_key key t \<Longrightarrow> primary_key key (upsert key (upd a) r t)"
  by (rule primary_key_upsert) (rule key_kept)

end

end
