(* ===== verification/Fencing.thy ===== *)
theory Fencing
  imports K1s_Prelude "HOL-Library.Option_ord"
begin

text \<open>
  Mutation fencing (\<^verbatim>\<open>ae/ha/fencing.py\<close>): envelopes, the SQLite fence store with its two tables, the
  resolution of the mutating identity and the operation identifiers; and the wrapper of it the
  node agent puts around every mutation (\<^verbatim>\<open>_begin_mutation\<close> and \<^verbatim>\<open>_commit_mutation\<close> of
  \<^verbatim>\<open>ae/node/server.py\<close>). The contract clients rely on is the locale \<open>mutation_fence\<close>; handlers that
  run side by side are the step relation \<open>fence_step\<close>.
\<close>

section \<open>Envelopes\<close>

record MutationEnvelope =
  me_controller_id :: string
  me_controller_epoch :: int
  me_operation_id :: string

record ControllerMutationIdentity =
  cmi_controller_id :: string
  cmi_controller_epoch :: int

definition envelope :: "ControllerMutationIdentity \<Rightarrow> string \<Rightarrow> MutationEnvelope" where
  "envelope i operation_id =
     \<lparr>me_controller_id = cmi_controller_id i, me_controller_epoch = cmi_controller_epoch i,
      me_operation_id = operation_id\<rparr>"

definition as_dict_envelope :: "MutationEnvelope \<Rightarrow> dict" where
  "as_dict_envelope e =
     [(''controller_id'', JStr (me_controller_id e)),
      (''controller_epoch'', JInt (me_controller_epoch e)),
      (''operation_id'', JStr (me_operation_id e))]"

definition merge_envelope :: "dict \<Rightarrow> MutationEnvelope \<Rightarrow> dict" where
  "merge_envelope payload e = dict_update payload (as_dict_envelope e)"

definition parse_envelope :: "json \<Rightarrow> MutationEnvelope option" where
  "parse_envelope payload =
     (case as_dict payload of
        None \<Rightarrow> None
      | Some d \<Rightarrow>
          let controller_id = strip (py_str (py_or (dict_get d ''controller_id'') (JStr [])));
              operation_id = strip (py_str (py_or (dict_get d ''operation_id'') (JStr [])));
              controller_epoch =
                (case py_int (py_or (dict_get d ''controller_epoch'') (JInt 0)) of
                   None \<Rightarrow> 0 | Some i \<Rightarrow> i)
          in if controller_id = [] \<or> operation_id = [] \<or> controller_epoch \<le> 0 then None
             else Some \<lparr>me_controller_id = controller_id,
                        me_controller_epoch = controller_epoch,
                        me_operation_id = operation_id\<rparr>)"

section \<open>The fence store\<close>

record FenceScopeState =
  fs_scope :: string
  fs_controller_id :: string
  fs_controller_epoch :: int
  fs_updated_at :: time

record FenceOperationRow =
  fo_scope :: string
  fo_operation_id :: string
  fo_controller_id :: string
  fo_controller_epoch :: int
  fo_committed_at :: time

record SQLiteFenceStore =
  fence_scopes :: "FenceScopeState list"
  fence_operations :: "FenceOperationRow list"

datatype fence_status = Accept | Duplicate | Stale

record FenceDecision =
  fd_status :: fence_status
  fd_current :: "FenceScopeState option"
  fd_epoch_advanced :: bool

definition fence_init :: "SQLiteFenceStore option \<Rightarrow> SQLiteFenceStore" where
  "fence_init f = (case f of None \<Rightarrow> \<lparr>fence_scopes = [], fence_operations = []\<rparr> | Some db \<Rightarrow> db)"

definition fence_current :: "SQLiteFenceStore \<Rightarrow> string \<Rightarrow> FenceScopeState option" where
  "fence_current db scope = find (\<lambda>r. fs_scope r = scope) (fence_scopes db)"

abbreviation fo_key :: "FenceOperationRow \<Rightarrow> string \<times> string" where
  "fo_key r \<equiv> (fo_scope r, fo_operation_id r)"

definition fs_advance :: "string \<times> int \<times> time \<Rightarrow> FenceScopeState \<Rightarrow> FenceScopeState" where
  "fs_advance a r = (case a of (cid, epoch, now) \<Rightarrow>
     r\<lparr>fs_controller_id := cid, fs_controller_epoch := epoch, fs_updated_at := now\<rparr>)"

definition fs_touch :: "time \<Rightarrow> FenceScopeState \<Rightarrow> FenceScopeState" where
  "fs_touch now r = r\<lparr>fs_updated_at := now\<rparr>"

definition fence_begin ::
  "time \<Rightarrow> string \<Rightarrow> MutationEnvelope \<Rightarrow> SQLiteFenceStore \<Rightarrow> FenceDecision \<times> SQLiteFenceStore" where
  "fence_begin now scope e db =
     (let current = fence_current db scope;
          stale = (case current of None \<Rightarrow> False
                   | Some c \<Rightarrow> me_controller_epoch e < fs_controller_epoch c
                       \<or> (me_controller_epoch e = fs_controller_epoch c
                          \<and> me_controller_id e \<noteq> fs_controller_id c))
      in if stale then (\<lparr>fd_status = Stale, fd_current = current, fd_epoch_advanced = False\<rparr>, db)
         else if exists_row (\<lambda>r. fo_key r = (scope, me_operation_id e)) (fence_operations db)
         then (\<lparr>fd_status = Duplicate, fd_current = current, fd_epoch_advanced = False\<rparr>, db)
         else
           let epoch_advanced =
                 (case current of None \<Rightarrow> True
                  | Some c \<Rightarrow> me_controller_epoch e > fs_controller_epoch c);
               scopes =
                 (if current = None
                  then fence_scopes db @
                    [\<lparr>fs_scope = scope, fs_controller_id = me_controller_id e,
                      fs_controller_epoch = me_controller_epoch e, fs_updated_at = now\<rparr>]
                  else if epoch_advanced
                  then update_where (\<lambda>r. fs_scope r = scope)
                    (fs_advance (me_controller_id e, me_controller_epoch e, now)) (fence_scopes db)
                  else update_where (\<lambda>r. fs_scope r = scope) (fs_touch now) (fence_scopes db));
               db' = db\<lparr>fence_scopes := scopes\<rparr>
           in (\<lparr>fd_status = Accept, fd_current = fence_current db' scope,
                fd_epoch_advanced = epoch_advanced\<rparr>, db'))"

text \<open>\<^verbatim>\<open>INSERT OR REPLACE\<close> deletes the conflicting row and inserts the new one.\<close>

definition fence_commit :: "time \<Rightarrow> string \<Rightarrow> MutationEnvelope \<Rightarrow> SQLiteFenceStore \<Rightarrow> SQLiteFenceStore"
where
  "fence_commit now scope e db =
     db\<lparr>fence_operations :=
          delete_where (\<lambda>r. fo_key r = (scope, me_operation_id e)) (fence_operations db) @
          [\<lparr>fo_scope = scope, fo_operation_id = me_operation_id e,
            fo_controller_id = me_controller_id e,
            fo_controller_epoch = me_controller_epoch e, fo_committed_at = now\<rparr>],
        fence_scopes :=
          upsert fs_scope (fs_advance (me_controller_id e, me_controller_epoch e, now))
            \<lparr>fs_scope = scope, fs_controller_id = me_controller_id e,
             fs_controller_epoch = me_controller_epoch e, fs_updated_at = now\<rparr> (fence_scopes db)\<rparr>"

definition fence_committed :: "SQLiteFenceStore \<Rightarrow> string \<Rightarrow> string \<Rightarrow> bool" where
  "fence_committed db scope oid = exists_row (\<lambda>r. fo_key r = (scope, oid)) (fence_operations db)"

definition fence_epoch :: "SQLiteFenceStore \<Rightarrow> string \<Rightarrow> int option" where
  "fence_epoch db scope = map_option fs_controller_epoch (fence_current db scope)"

section \<open>Who mutates\<close>

text \<open>
  \<^verbatim>\<open>authority.snapshot()\<close> as the pair of its leadership flag and leader record; \<open>None\<close> stands for no
  authority and for a snapshot that raised. The environment variables and the host name are
  arguments; \<^verbatim>\<open>int\<close> on a malformed \<^verbatim>\<open>AE_CONTROLLER_EPOCH\<close> falls back to 1.
\<close>

definition resolve_controller_identity ::
  "(bool \<times> (string \<times> int) option) option \<Rightarrow> string option \<Rightarrow> int option
   \<Rightarrow> string option \<Rightarrow> string option \<Rightarrow> string \<Rightarrow> ControllerMutationIdentity" where
  "resolve_controller_identity snapshot controller_id controller_epoch env_id env_epoch hostname =
     (let from_leader =
        (case snapshot of
           Some (True, Some (lid, lepoch)) \<Rightarrow>
             if strip lid \<noteq> [] \<and> lepoch > 0
             then Some \<lparr>cmi_controller_id = strip lid, cmi_controller_epoch = lepoch\<rparr> else None
         | _ \<Rightarrow> None)
      in case from_leader of
           Some i \<Rightarrow> i
         | None \<Rightarrow>
             let resolved_id =
                   (case controller_id of Some (c # cs) \<Rightarrow> c # cs
                    | _ \<Rightarrow> (case env_id of Some (c # cs) \<Rightarrow> c # cs | _ \<Rightarrow> hostname));
                 resolved_epoch =
                   (case controller_epoch of
                      Some e \<Rightarrow> if e \<noteq> 0 then e else (case env_epoch of None \<Rightarrow> 1
                        | Some t \<Rightarrow> if t = [] then 1 else (case parse_int t of None \<Rightarrow> 1 | Some i \<Rightarrow> i))
                    | None \<Rightarrow> (case env_epoch of None \<Rightarrow> 1
                        | Some t \<Rightarrow> if t = [] then 1 else (case parse_int t of None \<Rightarrow> 1 | Some i \<Rightarrow> i)))
             in \<lparr>cmi_controller_id = resolved_id, cmi_controller_epoch = max 1 resolved_epoch\<rparr>)"

section \<open>Operation identifiers\<close>

definition lease_operation :: "string \<Rightarrow> string" where
  "lease_operation request_id = strip request_id"

definition work_operation :: "string \<Rightarrow> int \<Rightarrow> string" where
  "work_operation work_id attempt = ''work:'' @ work_id @ '':'' @ show_int attempt"

definition route_operation :: "string \<Rightarrow> int \<Rightarrow> int \<Rightarrow> string" where
  "route_operation site_id bundle_rev controller_epoch =
     ''route:'' @ site_id @ '':'' @ show_int bundle_rev @ '':'' @ show_int controller_epoch"

definition ensure_operation :: "string \<Rightarrow> int \<Rightarrow> string \<Rightarrow> int \<Rightarrow> string" where
  "ensure_operation app_name revision node_id controller_epoch =
     ''ensure:'' @ app_name @ '':'' @ show_int revision @ '':'' @ show_int controller_epoch
       @ '':'' @ node_id"

definition gc_operation :: "string \<Rightarrow> int \<Rightarrow> string \<Rightarrow> string" where
  "gc_operation app_name keep_revision node_id =
     ''gc:'' @ app_name @ '':'' @ show_int keep_revision @ '':'' @ node_id"

definition delete_operation :: "string \<Rightarrow> string \<Rightarrow> int \<Rightarrow> string" where
  "delete_operation app_name node_id controller_epoch =
     ''delete:'' @ app_name @ '':'' @ show_int controller_epoch @ '':'' @ node_id"

definition fabric_ensure_operation :: "string \<Rightarrow> string \<Rightarrow> string" where
  "fabric_ensure_operation session_id node_id = ''fabric.ensure:'' @ session_id @ '':'' @ node_id"

definition fabric_teardown_operation :: "string \<Rightarrow> string \<Rightarrow> string" where
  "fabric_teardown_operation session_id node_id = ''fabric.teardown:'' @ session_id @ '':'' @ node_id"

section \<open>The node agent's mutation wrapper\<close>

datatype mutation_status = MReject | MAccept | MDuplicate

text \<open>
  The fence events \<^verbatim>\<open>record_ha_fence_event\<close> counts, and the body of a 409 answer.
\<close>

datatype fence_event = EvStale | EvDuplicate | EvEpochAdvanced

definition stale_response :: "FenceDecision \<Rightarrow> dict" where
  "stale_response d =
     [(''error'', JStr ''stale_epoch'')] @
     (case fd_current d of None \<Rightarrow> []
      | Some c \<Rightarrow> [(''controller_id'', JStr (fs_controller_id c)),
                   (''controller_epoch'', JInt (fs_controller_epoch c))])"

definition begin_mutation ::
  "bool \<Rightarrow> time \<Rightarrow> json \<Rightarrow> string \<Rightarrow> SQLiteFenceStore
   \<Rightarrow> mutation_status \<times> MutationEnvelope option \<times> fence_event list \<times> dict option \<times> SQLiteFenceStore"
where
  "begin_mutation ha_mode now payload scope db =
     (if \<not> ha_mode then (MAccept, None, [], None, db)
      else case parse_envelope payload of
        None \<Rightarrow> (MReject, None, [], Some [(''error'', JStr ''missing_fencing_envelope'')], db)
      | Some e \<Rightarrow>
          let (d, db') = fence_begin now scope e db;
              current_epoch = (case fd_current d of None \<Rightarrow> 0 | Some c \<Rightarrow> fs_controller_epoch c)
          in case fd_status d of
               Stale \<Rightarrow> (MReject, Some e, [EvStale], Some (stale_response d), db')
             | Duplicate \<Rightarrow> (MDuplicate, Some e, [EvDuplicate], None, db')
             | Accept \<Rightarrow> (MAccept, Some e,
                 if me_controller_epoch e > current_epoch then [EvEpochAdvanced] else [], None, db'))"

definition commit_mutation ::
  "time \<Rightarrow> string \<Rightarrow> MutationEnvelope option \<Rightarrow> SQLiteFenceStore \<Rightarrow> SQLiteFenceStore" where
  "commit_mutation now scope e db = (case e of None \<Rightarrow> db | Some e \<Rightarrow> fence_commit now scope e db)"

section \<open>Handlers side by side\<close>

text \<open>
  The node agent serves each request in its own thread, so begins and commits of different
  handlers interleave. A handler is pending from its accepted begin to its commit, or until it
  gives up because the mutation failed.
\<close>

record fence_sys =
  fsys_db :: SQLiteFenceStore
  fsys_pending :: "(string \<times> MutationEnvelope) list"

inductive fence_step :: "fence_sys \<Rightarrow> fence_sys \<Rightarrow> bool" where
  start_accepted: "fence_begin now sc e (fsys_db s) = (d, db') \<Longrightarrow> fd_status d = Accept \<Longrightarrow>
     fence_step s (s\<lparr>fsys_db := db', fsys_pending := (sc, e) # fsys_pending s\<rparr>)"
| start_refused: "fence_begin now sc e (fsys_db s) = (d, db') \<Longrightarrow> fd_status d \<noteq> Accept \<Longrightarrow>
     fence_step s (s\<lparr>fsys_db := db'\<rparr>)"
| finish: "fsys_pending s = ps @ (sc, e) # qs \<Longrightarrow>
     fence_step s (s\<lparr>fsys_db := fence_commit now sc e (fsys_db s), fsys_pending := ps @ qs\<rparr>)"
| abandon: "fsys_pending s = ps @ (sc, e) # qs \<Longrightarrow>
     fence_step s (s\<lparr>fsys_pending := ps @ qs\<rparr>)"

text \<open>At most one handler per scope between its begin and its commit.\<close>

definition fence_serial_step :: "fence_sys \<Rightarrow> fence_sys \<Rightarrow> bool" where
  "fence_serial_step s t \<longleftrightarrow> fence_step s t \<and> distinct (map fst (fsys_pending t))"

definition fence_sys_init :: fence_sys where
  "fence_sys_init = \<lparr>fsys_db = fence_init None, fsys_pending = []\<rparr>"

text \<open>
  Under that discipline a pending handler's epoch is the epoch of its scope. Well-formed envelopes
  and a shorthand for example envelopes.
\<close>

definition fence_serial_inv :: "fence_sys \<Rightarrow> bool" where
  "fence_serial_inv s \<longleftrightarrow> distinct (map fst (fsys_pending s)) \<and>
     (\<forall>(sc, e) \<in> set (fsys_pending s). fence_epoch (fsys_db s) sc = Some (me_controller_epoch e))"

definition demo_envelope :: "string \<Rightarrow> int \<Rightarrow> string \<Rightarrow> MutationEnvelope" where
  "demo_envelope c ep oid =
     \<lparr>me_controller_id = c, me_controller_epoch = ep, me_operation_id = oid\<rparr>"

definition envelope_ok :: "MutationEnvelope \<Rightarrow> bool" where
  "envelope_ok e \<longleftrightarrow> strip (me_controller_id e) = me_controller_id e \<and> me_controller_id e \<noteq> [] \<and>
     strip (me_operation_id e) = me_operation_id e \<and> me_operation_id e \<noteq> [] \<and> 0 < me_controller_epoch e"

inductive_cases fence_stepE: "fence_step s t"

section \<open>Facts about the store\<close>

interpretation fs_adv: keyed_update fs_scope fs_advance
  by unfold_locales (simp add: fs_advance_def split: prod.splits)

interpretation fs_tch: keyed_update fs_scope fs_touch
  by unfold_locales (simp add: fs_touch_def)

lemma fs_advance_sel [simp]:
  "fs_controller_epoch (fs_advance (c, ep, now) r) = ep"
  "fs_controller_id (fs_advance (c, ep, now) r) = c"
  "fs_controller_epoch (fs_touch now r) = fs_controller_epoch r"
  "fs_controller_id (fs_touch now r) = fs_controller_id r"
  by (simp_all add: fs_advance_def fs_touch_def)

lemma fence_begin_not_accept:
  "fence_begin now sc e db = (d, db') \<Longrightarrow> fd_status d \<noteq> Accept \<Longrightarrow> db' = db"
  by (auto simp: fence_begin_def Let_def split: if_splits)

lemma fence_begin_accept:
  assumes "fence_begin now sc e db = (d, db')" and "fd_status d = Accept"
  shows "\<not> fence_committed db sc (me_operation_id e)"
    and "fence_operations db' = fence_operations db"
    and "fence_epoch db' sc = Some (me_controller_epoch e)"
    and "fence_epoch db sc \<le> Some (me_controller_epoch e)"
    and "sc' \<noteq> sc \<Longrightarrow> fence_current db' sc' = fence_current db sc'"
    and "fd_current d = fence_current db' sc"
    and "map_option fs_controller_id (fence_current db' sc) = Some (me_controller_id e)"
    and "fd_epoch_advanced d = (fence_epoch db sc < Some (me_controller_epoch e))"
  using assms
  by (auto simp: fence_begin_def fence_committed_def fence_epoch_def fence_current_def Let_def
      find_append fs_adv.lookup_update_key fs_tch.lookup_update_key option.map_comp
      split: if_splits option.splits)

lemma fence_current_commit:
  "fence_current (fence_commit now sc e db) sc' =
     (if sc' = sc
      then Some \<lparr>fs_scope = sc, fs_controller_id = me_controller_id e,
                 fs_controller_epoch = me_controller_epoch e, fs_updated_at = now\<rparr>
      else fence_current db sc')"
proof -
  have "fs_advance (a, b, c) r = \<lparr>fs_scope = sc, fs_controller_id = a, fs_controller_epoch = b,
      fs_updated_at = c\<rparr>" if "fs_scope r = sc" for a b c and r :: FenceScopeState
    using that by (cases r) (simp add: fs_advance_def)
  then show ?thesis
    by (auto simp: fence_current_def fence_commit_def fs_adv.lookup_upsert
        split: option.splits dest!: find_key_Some)
qed

lemma fence_epoch_commit:
  "fence_epoch (fence_commit now sc e db) sc' =
     (if sc' = sc then Some (me_controller_epoch e) else fence_epoch db sc')"
  by (simp add: fence_epoch_def fence_current_commit)

lemma fence_committed_commit:
  "fence_committed (fence_commit now sc e db) sc' oid \<longleftrightarrow>
     fence_committed db sc' oid \<or> (sc' = sc \<and> oid = me_operation_id e)"
  by (auto simp: fence_committed_def fence_commit_def exists_row_iff)

lemma fence_committed_begin:
  assumes "fence_begin now sc e db = (d, db')"
  shows "fence_committed db' = fence_committed db"
  using fence_begin_not_accept [OF assms] fence_begin_accept(2) [OF assms]
  by (cases "fd_status d") (auto simp: fence_committed_def fun_eq_iff)

section \<open>The contract of the fence\<close>

text \<open>
  What an executor relies on: an accepted begin has not been committed before, a begin never
  forgets or invents a commit, a commit is remembered, and epochs only move up on a begin.
\<close>

locale mutation_fence =
  fixes fbegin :: "time \<Rightarrow> string \<Rightarrow> MutationEnvelope \<Rightarrow> 'db \<Rightarrow> FenceDecision \<times> 'db"
    and fcommit :: "time \<Rightarrow> string \<Rightarrow> MutationEnvelope \<Rightarrow> 'db \<Rightarrow> 'db"
    and committed :: "'db \<Rightarrow> string \<Rightarrow> string \<Rightarrow> bool"
    and epoch_of :: "'db \<Rightarrow> string \<Rightarrow> int option"
  assumes accept_fresh: "fbegin now sc e db = (d, db') \<Longrightarrow> fd_status d = Accept \<Longrightarrow>
      \<not> committed db sc (me_operation_id e)"
    and begin_committed: "fbegin now sc e db = (d, db') \<Longrightarrow> committed db' = committed db"
    and begin_refused: "fbegin now sc e db = (d, db') \<Longrightarrow> fd_status d \<noteq> Accept \<Longrightarrow> db' = db"
    and accept_epoch: "fbegin now sc e db = (d, db') \<Longrightarrow> fd_status d = Accept \<Longrightarrow>
      epoch_of db' sc = Some (me_controller_epoch e) \<and>
      epoch_of db sc \<le> Some (me_controller_epoch e)"
    and accept_frame: "fbegin now sc e db = (d, db') \<Longrightarrow> sc' \<noteq> sc \<Longrightarrow>
      epoch_of db' sc' = epoch_of db sc'"
    and commit_committed: "committed (fcommit now sc e db) sc' oid \<longleftrightarrow>
      committed db sc' oid \<or> (sc' = sc \<and> oid = me_operation_id e)"
    and commit_epoch: "epoch_of (fcommit now sc e db) sc' =
      (if sc' = sc then Some (me_controller_epoch e) else epoch_of db sc')"
begin

lemma begin_epoch_mono:
  assumes "fbegin now sc e db = (d, db')"
  shows "epoch_of db sc' \<le> epoch_of db' sc'"
proof (cases "fd_status d = Accept")
  case True
  with accept_epoch [OF assms True] accept_frame [OF assms] show ?thesis
    by (cases "sc' = sc") auto
next
  case False
  with begin_refused [OF assms] show ?thesis by simp
qed

lemma committed_refused:
  assumes "committed db sc (me_operation_id e)" and "fbegin now sc e db = (d, db')"
  shows "fd_status d \<noteq> Accept \<and> db' = db"
  using accept_fresh [OF assms(2)] begin_refused [OF assms(2)] assms(1) by blast

text \<open>
  A sequential executor: begin, run the mutation when accepted, commit when it succeeded.
  The mutation answers whether it succeeded; the result lists the operations that ops.
\<close>

fun run_fenced ::
  "(MutationEnvelope \<Rightarrow> bool) \<Rightarrow> string \<Rightarrow> (time \<times> MutationEnvelope) list \<Rightarrow> 'db \<Rightarrow> string list \<times> 'db"
where
  "run_fenced act sc [] db = ([], db)"
| "run_fenced act sc ((now, e) # es) db =
     (let (d, db') = fbegin now sc e db
      in if fd_status d = Accept \<and> act e
         then let (ops, db'') = run_fenced act sc es (fcommit now sc e db')
              in (me_operation_id e # ops, db'')
         else run_fenced act sc es db')"

lemma run_fenced_committed:
  "run_fenced act sc es db = (ops, db') \<Longrightarrow>
     committed db' sc oid \<longleftrightarrow> committed db sc oid \<or> oid \<in> set ops"
proof (induction act sc es db arbitrary: ops db' rule: run_fenced.induct)
  case (1 act sc db)
  then show ?case by simp
next
  case (2 act sc now e es db)
  obtain d db1 where b: "fbegin now sc e db = (d, db1)" by fastforce
  show ?case
  proof (cases "fd_status d = Accept \<and> act e")
    case True
    obtain ops1 db2 where r: "run_fenced act sc es (fcommit now sc e db1) = (ops1, db2)" by fastforce
    from 2 b True r have "ops = me_operation_id e # ops1" "db' = db2" by auto
    with "2.IH"(1) [OF b [symmetric] refl True r] begin_committed [OF b] show ?thesis
      by (auto simp: commit_committed)
  next
    case False
    with 2 b begin_committed [OF b] show ?thesis by auto
  qed
qed

lemma run_fenced_once:
  "run_fenced act sc es db = (ops, db') \<Longrightarrow>
     distinct ops \<and> (\<forall>oid \<in> set ops. \<not> committed db sc oid)"
proof (induction act sc es db arbitrary: ops db' rule: run_fenced.induct)
  case (1 act sc db)
  then show ?case by simp
next
  case (2 act sc now e es db)
  obtain d db1 where b: "fbegin now sc e db = (d, db1)" by fastforce
  show ?case
  proof (cases "fd_status d = Accept \<and> act e")
    case True
    obtain ops1 db2 where r: "run_fenced act sc es (fcommit now sc e db1) = (ops1, db2)" by fastforce
    from 2 b True r have "ops = me_operation_id e # ops1" by auto
    with "2.IH"(1) [OF b [symmetric] refl True r] begin_committed [OF b] accept_fresh [OF b] True
    show ?thesis by (auto simp: commit_committed)
  next
    case False
    with 2 b begin_committed [OF b] show ?thesis by auto
  qed
qed

lemma run_fenced_epoch_mono:
  "run_fenced act sc es db = (ops, db') \<Longrightarrow> epoch_of db sc \<le> epoch_of db' sc"
proof (induction act sc es db arbitrary: ops db' rule: run_fenced.induct)
  case (1 act sc db)
  then show ?case by simp
next
  case (2 act sc now e es db)
  obtain d db1 where b: "fbegin now sc e db = (d, db1)" by fastforce
  show ?case
  proof (cases "fd_status d = Accept \<and> act e")
    case True
    obtain ops1 db2 where r: "run_fenced act sc es (fcommit now sc e db1) = (ops1, db2)" by fastforce
    from 2 b True r have "db' = db2" by auto
    with "2.IH"(1) [OF b [symmetric] refl True r] accept_epoch [OF b] True show ?thesis
      by (auto simp: commit_epoch)
  next
    case False
    with 2 b begin_epoch_mono [OF b, of sc] show ?thesis by (auto intro: order_trans)
  qed
qed

end

interpretation sqlite_fence: mutation_fence fence_begin fence_commit fence_committed fence_epoch
proof unfold_locales
  fix now sc e db d db' sc'
  assume b: "fence_begin now sc e db = (d, db')" and "sc' \<noteq> sc"
  then show "fence_epoch db' sc' = fence_epoch db sc'"
    using fence_begin_not_accept [OF b] fence_begin_accept(5) [OF b]
    by (cases "fd_status d = Accept") (auto simp: fence_epoch_def)
next
  fix now sc e db d db'
  assume b: "fence_begin now sc e db = (d, db')" and "fd_status d = Accept"
  with fence_begin_accept(3,4) [OF this]
  show "fence_epoch db' sc = Some (me_controller_epoch e) \<and>
      fence_epoch db sc \<le> Some (me_controller_epoch e)" by simp
qed (simp_all add: fence_begin_accept(1) fence_committed_begin fence_begin_not_accept
      fence_committed_commit fence_epoch_commit)

section \<open>Interleaved handlers\<close>

lemma fence_step_committed_mono:
  "fence_step s t \<Longrightarrow> fence_committed (fsys_db s) sc oid \<Longrightarrow> fence_committed (fsys_db t) sc oid"
  by (erule fence_stepE) (auto simp: fence_committed_commit dest: fence_committed_begin)

lemma fence_steps_committed_mono:
  "fence_step\<^sup>*\<^sup>* s t \<Longrightarrow> fence_committed (fsys_db s) sc oid \<Longrightarrow> fence_committed (fsys_db t) sc oid"
  by (induction rule: rtranclp_induct) (auto intro: fence_step_committed_mono)

lemma fence_serial_step_inv:
  assumes "fence_serial_step s t" and "fence_serial_inv s"
  shows "fence_serial_inv t"
  using assms unfolding fence_serial_step_def
proof (elim conjE fence_stepE)
  fix now sc e d db'
  assume b: "fence_begin now sc e (fsys_db s) = (d, db')" and "fd_status d = Accept"
    and t: "t = s\<lparr>fsys_db := db', fsys_pending := (sc, e) # fsys_pending s\<rparr>"
    and dis: "distinct (map fst (fsys_pending t))" and inv: "fence_serial_inv s"
  have ep: "fence_epoch db' sc = Some (me_controller_epoch e)"
    using sqlite_fence.accept_epoch [OF b] \<open>fd_status d = Accept\<close> by simp
  have "fence_epoch db' sc' = fence_epoch (fsys_db s) sc'" if "(sc', e') \<in> set (fsys_pending s)" for sc' e'
    using that dis t sqlite_fence.accept_frame [OF b, of sc'] by force
  with ep dis inv show ?thesis by (fastforce simp: fence_serial_inv_def t)
next
  fix ps sc e qs now
  assume p: "fsys_pending s = ps @ (sc, e) # qs"
    and t: "t = s\<lparr>fsys_db := fence_commit now sc e (fsys_db s), fsys_pending := ps @ qs\<rparr>"
    and inv: "fence_serial_inv s"
  have "sc \<notin> fst ` set (ps @ qs)"
    using inv p by (auto simp: fence_serial_inv_def)
  then have "sc' \<noteq> sc" if "(sc', e') \<in> set (ps @ qs)" for sc' e'
    using that image_eqI [of sc' fst "(sc', e')" "set (ps @ qs)"] by auto
  with inv p show ?thesis
    by (force simp: fence_serial_inv_def t fence_epoch_commit)
qed (auto simp: fence_serial_inv_def dest: fence_begin_not_accept)

lemma fence_serial_step_epoch:
  assumes "fence_serial_step s t" and "fence_serial_inv s"
  shows "fence_epoch (fsys_db s) sc \<le> fence_epoch (fsys_db t) sc"
  using assms unfolding fence_serial_step_def
proof (elim conjE fence_stepE)
  fix ps sc' e qs now
  assume p: "fsys_pending s = ps @ (sc', e) # qs"
    and t: "t = s\<lparr>fsys_db := fence_commit now sc' e (fsys_db s), fsys_pending := ps @ qs\<rparr>"
    and inv: "fence_serial_inv s"
  then have "fence_epoch (fsys_db s) sc' = Some (me_controller_epoch e)"
    by (auto simp: fence_serial_inv_def)
  then show ?thesis by (simp add: t fence_epoch_commit)
qed (auto intro: sqlite_fence.begin_epoch_mono)

lemma fence_sys_init_inv: "fence_serial_inv fence_sys_init"
  by (simp add: fence_serial_inv_def fence_sys_init_def)

lemma fence_serial_reach_inv:
  "fence_serial_step\<^sup>*\<^sup>* s t \<Longrightarrow> fence_serial_inv s \<Longrightarrow> fence_serial_inv t"
  by (induction rule: rtranclp_induct) (auto intro: fence_serial_step_inv)

section \<open>Properties\<close>

text \<open>
  (C1) While at most one handler per scope is between its begin and its commit, the epoch a scope
  has accepted never goes back, from any reachable state to any state reached later.
\<close>

theorem fence_serial_epoch_monotone:
  assumes "fence_serial_step\<^sup>*\<^sup>* fence_sys_init s" and "fence_serial_step\<^sup>*\<^sup>* s t"
  shows "fence_epoch (fsys_db s) sc \<le> fence_epoch (fsys_db t) sc"
proof -
  have "fence_serial_inv s" using fence_serial_reach_inv [OF assms(1)] fence_sys_init_inv by blast
  with assms(2) show ?thesis
  proof (induction rule: rtranclp_induct)
    case (step u v)
    then show ?case
      using fence_serial_step_epoch [OF step(2)] fence_serial_reach_inv [OF step(1)]
      by (blast intro: order_trans)
  qed simp
qed

lemma demo_first_begin:
  "fence_begin 1 ''s'' (demo_envelope ''a'' 1 ''o1'') (fsys_db fence_sys_init) =
     (\<lparr>fd_status = Accept,
       fd_current = Some \<lparr>fs_scope = ''s'', fs_controller_id = ''a'', fs_controller_epoch = 1,
         fs_updated_at = 1\<rparr>, fd_epoch_advanced = True\<rparr>,
      \<lparr>fence_scopes = [\<lparr>fs_scope = ''s'', fs_controller_id = ''a'', fs_controller_epoch = 1,
         fs_updated_at = 1\<rparr>], fence_operations = []\<rparr>)"
  by code_simp

theorem fence_serial_epoch_monotone_witness:
  "\<exists>t. fence_serial_step\<^sup>*\<^sup>* fence_sys_init t \<and> fence_epoch (fsys_db t) ''s'' = Some 1 \<and>
     fence_epoch (fsys_db fence_sys_init) ''s'' \<le> fence_epoch (fsys_db t) ''s''"
proof -
  let ?e = "demo_envelope ''a'' 1 ''o1''"
  let ?t = "fence_sys_init\<lparr>fsys_db := snd (fence_begin 1 ''s'' ?e (fsys_db fence_sys_init)),
      fsys_pending := [(''s'', ?e)]\<rparr>"
  have "fence_step fence_sys_init ?t"
    using start_accepted [OF demo_first_begin] by (simp add: demo_first_begin) (simp add: fence_sys_init_def)
  then have r: "fence_serial_step\<^sup>*\<^sup>* fence_sys_init ?t"
    by (auto simp: fence_serial_step_def)
  have "fence_epoch (fsys_db ?t) ''s'' = Some 1"
    by (simp add: demo_first_begin fence_epoch_def fence_current_def)
  then show ?thesis
    using r fence_serial_epoch_monotone [OF rtranclp.rtrancl_refl r, of "''s''"] by blast
qed

text \<open>
  (C2) Exactly once after commit: in any interleaving of handlers, once an operation id is
  committed in a scope, no later begin with that id in that scope is accepted, and the refused
  begin leaves the store as it was.
\<close>

theorem fence_committed_never_reaccepted:
  assumes "fence_step\<^sup>*\<^sup>* s t" and "fence_committed (fsys_db s) sc (me_operation_id e)"
    and "fence_begin now sc e (fsys_db t) = (d, db')"
  shows "(fd_status d = Duplicate \<or> fd_status d = Stale) \<and> db' = fsys_db t"
proof -
  have "fence_committed (fsys_db t) sc (me_operation_id e)"
    using fence_steps_committed_mono [OF assms(1,2)] .
  from sqlite_fence.committed_refused [OF this assms(3)] show ?thesis
    by (cases "fd_status d") auto
qed

theorem fence_committed_never_reaccepted_witness:
  "fd_status (fst (fence_begin 9 ''s'' (demo_envelope ''a'' 1 ''o1'')
      (fence_commit 2 ''s'' (demo_envelope ''a'' 1 ''o1'') (fence_init None)))) \<noteq> Accept"
proof -
  let ?e = "demo_envelope ''a'' 1 ''o1''"
  let ?s = "\<lparr>fsys_db = fence_commit 2 ''s'' ?e (fence_init None), fsys_pending = []\<rparr>"
  have "fence_committed (fsys_db ?s) ''s'' (me_operation_id ?e)"
    by (simp add: fence_committed_commit)
  from fence_committed_never_reaccepted [OF rtranclp.rtrancl_refl this prod.collapse [symmetric], of 9]
  show ?thesis by auto
qed

text \<open>
  The begin decision on every branch: stale when the scope has accepted a later epoch or the
  same epoch from another controller, else duplicate when the operation is committed, else
  accepted; only acceptance writes, it moves the scope to the envelope's controller and epoch,
  and \<open>epoch_advanced\<close> says whether the epoch grew.
\<close>

theorem fence_begin_decision:
  "case fence_begin now sc e db of (d, db') \<Rightarrow>
     (fd_status d = Stale \<longleftrightarrow>
        (\<exists>c. fence_current db sc = Some c \<and>
           (me_controller_epoch e < fs_controller_epoch c \<or>
            me_controller_epoch e = fs_controller_epoch c \<and> me_controller_id e \<noteq> fs_controller_id c))) \<and>
     (fd_status d = Duplicate \<longleftrightarrow>
        fd_status d \<noteq> Stale \<and> fence_committed db sc (me_operation_id e)) \<and>
     (if fd_status d = Accept
      then fence_epoch db' sc = Some (me_controller_epoch e) \<and>
        map_option fs_controller_id (fence_current db' sc) = Some (me_controller_id e) \<and>
        fence_operations db' = fence_operations db \<and>
        fd_epoch_advanced d = (fence_epoch db sc < Some (me_controller_epoch e))
      else db' = db \<and> fd_current d = fence_current db sc)"
proof -
  obtain d db' where b: "fence_begin now sc e db = (d, db')" by fastforce
  have "fd_status d = Stale \<longleftrightarrow>
        (\<exists>c. fence_current db sc = Some c \<and>
           (me_controller_epoch e < fs_controller_epoch c \<or>
            me_controller_epoch e = fs_controller_epoch c \<and> me_controller_id e \<noteq> fs_controller_id c))"
    using b by (auto simp: fence_begin_def Let_def split: if_splits option.splits)
  moreover have "fd_status d = Duplicate \<longleftrightarrow>
        fd_status d \<noteq> Stale \<and> fence_committed db sc (me_operation_id e)"
    using b by (auto simp: fence_begin_def fence_committed_def Let_def split: if_splits)
  moreover have "fd_status d \<noteq> Accept \<Longrightarrow> fd_current d = fence_current db sc"
    using b by (auto simp: fence_begin_def Let_def split: if_splits)
  ultimately show ?thesis
    using fence_begin_accept(2,3,7,8) [OF b] fence_begin_not_accept [OF b] by (simp add: b)
qed

text \<open>
  Without the one-handler-per-scope discipline the fence can move back: a handler of epoch 1
  that was accepted before epoch 2 took the scope over writes epoch 1 again when it commits,
  and the deposed controller is then accepted with a new operation.
\<close>

theorem fence_commit_can_regress_epoch:
  "\<exists>s t. fence_step\<^sup>*\<^sup>* fence_sys_init s \<and> fence_step s t \<and>
     fence_epoch (fsys_db s) ''agent'' = Some 2 \<and> fence_epoch (fsys_db t) ''agent'' = Some 1 \<and>
     fd_status (fst (fence_begin 4 ''agent'' (demo_envelope ''old'' 1 ''op3'') (fsys_db t))) = Accept"
proof -
  define e1 e2 where "e1 = demo_envelope ''old'' 1 ''op1''" and "e2 = demo_envelope ''new'' 2 ''op2''"
  define db1 where "db1 = snd (fence_begin 1 ''agent'' e1 (fence_init None))"
  define db2 where "db2 = snd (fence_begin 2 ''agent'' e2 db1)"
  define db3 where "db3 = fence_commit 3 ''agent'' e1 db2"
  have a1: "fd_status (fst (fence_begin 1 ''agent'' e1 (fence_init None))) = Accept"
    unfolding e1_def by code_simp
  have a2: "fd_status (fst (fence_begin 2 ''agent'' e2 db1)) = Accept"
    unfolding e1_def e2_def db1_def by code_simp
  have a3: "fd_status (fst (fence_begin 4 ''agent'' (demo_envelope ''old'' 1 ''op3'') db3)) = Accept"
    unfolding e1_def e2_def db1_def db2_def db3_def by code_simp
  have b1: "fence_begin 1 ''agent'' e1 (fence_init None) =
      (fst (fence_begin 1 ''agent'' e1 (fence_init None)), db1)"
    by (simp add: db1_def)
  have b2: "fence_begin 2 ''agent'' e2 db1 = (fst (fence_begin 2 ''agent'' e2 db1), db2)"
    by (simp add: db2_def)
  define s1 s2 s3 where "s1 = \<lparr>fsys_db = db1, fsys_pending = [(''agent'', e1)]\<rparr>"
    and "s2 = \<lparr>fsys_db = db2, fsys_pending = [(''agent'', e2), (''agent'', e1)]\<rparr>"
    and "s3 = \<lparr>fsys_db = db3, fsys_pending = [(''agent'', e2)]\<rparr>"
  have "fence_step fence_sys_init s1"
    using start_accepted [of 1 "''agent''" e1 fence_sys_init, OF _ a1] b1
    by (simp add: fence_sys_init_def s1_def)
  moreover have "fence_step s1 s2"
    using start_accepted [of 2 "''agent''" e2 s1, OF _ a2] b2 by (simp add: s1_def s2_def)
  ultimately have reach: "fence_step\<^sup>*\<^sup>* fence_sys_init s2"
    by (meson converse_rtranclp_into_rtranclp rtranclp.rtrancl_refl)
  have fin: "fence_step s2 s3"
    using finish [of s2 "[(''agent'', e2)]" "''agent''" e1 "[]" 3] by (simp add: s2_def s3_def db3_def)
  have "fence_epoch (fsys_db s2) ''agent'' = Some 2"
    using fence_begin_accept(3) [OF b2 a2] by (simp add: s2_def e2_def demo_envelope_def)
  moreover have "fence_epoch (fsys_db s3) ''agent'' = Some 1"
    by (simp add: s3_def db3_def fence_epoch_commit e1_def demo_envelope_def)
  moreover have "fsys_db s3 = db3" by (simp add: s3_def)
  ultimately show ?thesis using reach fin a3 by metis
qed

text \<open>
  The node agent never reports an epoch advance: the decision of an accepted begin carries the
  scope as begin left it, already at the envelope's epoch, so the test that should emit the event
  is false on every input.
\<close>

theorem node_agent_epoch_advance_event_unreachable:
  "EvEpochAdvanced \<notin> set (fst (snd (snd (begin_mutation ha now payload scope db))))"
proof (cases "parse_envelope payload")
  case None
  then show ?thesis by (simp add: begin_mutation_def)
next
  case (Some e)
  obtain d db' where b: "fence_begin now scope e db = (d, db')" by fastforce
  have "fd_status d = Accept \<Longrightarrow>
      (case fd_current d of None \<Rightarrow> 0 | Some c \<Rightarrow> fs_controller_epoch c) = me_controller_epoch e"
    using fence_begin_accept(3,6) [OF b] by (auto simp: fence_epoch_def)
  with Some b show ?thesis by (auto simp: begin_mutation_def split: fence_status.splits)
qed

lemma merge_envelope_get:
  "dict_get (merge_envelope payload e) ''controller_id'' = JStr (me_controller_id e)"
  "dict_get (merge_envelope payload e) ''controller_epoch'' = JInt (me_controller_epoch e)"
  "dict_get (merge_envelope payload e) ''operation_id'' = JStr (me_operation_id e)"
  by (simp_all add: merge_envelope_def dict_update_def as_dict_envelope_def)

text \<open>
  Round trip: an envelope merged into any payload is read back unchanged, whatever the payload
  held under its keys, when its identifiers are stripped and non-empty and its epoch positive.
\<close>

theorem parse_merge_envelope:
  assumes "envelope_ok e"
  shows "parse_envelope (JObj (merge_envelope payload e)) = Some e"
  using assms by (cases e) (simp add: parse_envelope_def merge_envelope_get py_or_def envelope_ok_def)

theorem parse_merge_envelope_witness:
  "parse_envelope (JObj (merge_envelope [(''controller_id'', JInt 7)] (demo_envelope ''c'' 3 ''work:w:1'')))
     = Some (demo_envelope ''c'' 3 ''work:w:1'')"
proof -
  have "envelope_ok (demo_envelope ''c'' 3 ''work:w:1'')" by code_simp
  then show ?thesis by (rule parse_merge_envelope)
qed

text \<open>
  What the fence accepts as an envelope: parsing yields only envelopes with stripped,
  non-empty identifiers and a positive epoch, so epoch 0 and blank ids never reach the store.
\<close>

theorem parse_envelope_ok:
  "pred_option envelope_ok (parse_envelope payload)"
  by (auto simp: parse_envelope_def envelope_ok_def Let_def split: option.splits)

text \<open>
  Work operation ids identify the work item and the attempt, and never collide with the
  operation ids of a route bundle or of a garbage collection.
\<close>

theorem work_operation_injective:
  "(work_operation w a = work_operation w' a' \<longleftrightarrow> w = w' \<and> a = a') \<and>
   work_operation w a \<noteq> route_operation site brev ep \<and>
   work_operation w a \<noteq> gc_operation app keep node"
proof -
  have "w = w' \<and> a = a'" if "work_operation w a = work_operation w' a'"
    using that append_sep_inj [OF show_int_no_colon show_int_no_colon, of w a w' a']
    by (auto simp: work_operation_def)
  then show ?thesis by (auto simp: work_operation_def route_operation_def gc_operation_def)
qed

end
