(* ===== verification/Work_Store.thy ===== *)
theory Work_Store
  imports Fencing
begin

text \<open>
  The work tables of the controller's state store (\<^verbatim>\<open>SQLiteStateStore\<close> in
  \<^verbatim>\<open>ae/controller/state.py\<close>): node leases, the pull queue, the transactional outbox and the work
  ledger, with every operation the transport and the watchdog call on them.

  A method that raises inside its \<^verbatim>\<open>with self._connect()\<close> block rolls its transaction back, so such
  a branch returns the error and the store as it was. Timestamps are stored as ISO texts in UTC,
  whose order as text is the order of the times; the model keeps the times.
\<close>

section \<open>Rows and records\<close>

record NodeLease =
  nl_node_id :: string
  nl_site_id :: string
  nl_session_id :: string
  nl_lease_id :: string
  nl_controller_epoch :: int
  nl_lease_ttl_ms :: int
  nl_renew_after_ms :: int
  nl_last_renew_at :: time
  nl_expires_at :: time

datatype queue_state = QPending | QLeased | QAcked | QDone

record WorkQueueRow =
  wq_work_id :: string
  wq_attempt :: int
  wq_site_id :: string
  wq_payload :: json_col
  wq_state :: queue_state
  wq_lease_id :: "string option"
  wq_leased_at :: "time option"
  wq_lease_expires_at :: "time option"
  wq_acked_at :: "time option"
  wq_created_at :: time
  wq_updated_at :: time

record WorkQueueLease =
  wl_work_id :: string
  wl_attempt :: int
  wl_site_id :: string
  wl_payload :: json
  wl_lease_id :: string
  wl_lease_expires_at :: time

datatype outbox_state = Unpublished | Published

record WorkOutboxRow =
  ob_work_id :: string
  ob_attempt :: int
  ob_site_id :: string
  ob_payload :: json_col
  ob_publish_subject :: "string option"
  ob_publish_msg_id :: "string option"
  ob_state :: outbox_state
  ob_publish_attempts :: int
  ob_last_publish_at :: "time option"
  ob_last_publish_error :: "string option"
  ob_created_at :: time
  ob_updated_at :: time

record WorkOutboxEntry =
  oe_work_id :: string
  oe_attempt :: int
  oe_site_id :: string
  oe_payload :: json
  oe_publish_subject :: string
  oe_publish_msg_id :: string
  oe_publish_attempts :: int
  oe_last_publish_at :: "time option"
  oe_last_publish_error :: "string option"

record WorkLedgerRow =
  lg_work_id :: string
  lg_attempt :: int
  lg_site_id :: string
  lg_state :: string
  lg_controller_id :: json
  lg_controller_epoch :: json
  lg_operation_id :: json
  lg_desired_generation :: "int option"
  lg_assigned_node_id :: "string option"
  lg_observed_generation :: "int option"
  lg_result :: json_col
  lg_created_at :: time
  lg_updated_at :: time
  lg_state_updated_at :: time

record WorkLedgerEntry =
  le_work_id :: string
  le_attempt :: int
  le_site_id :: string
  le_state :: string
  le_controller_id :: "string option"
  le_controller_epoch :: "int option"
  le_operation_id :: "string option"
  le_desired_generation :: "int option"
  le_assigned_node_id :: "string option"
  le_observed_generation :: "int option"
  le_result :: "json option"
  le_created_at :: time
  le_updated_at :: time
  le_state_updated_at :: time

record WorkStore =
  node_leases :: "NodeLease list"
  work_queue :: "WorkQueueRow list"
  work_outbox :: "WorkOutboxRow list"
  work_ledger :: "WorkLedgerRow list"

datatype store_backend = Sqlite | Postgres

definition wq_key :: "WorkQueueRow \<Rightarrow> string \<times> int" where
  "wq_key r = (wq_work_id r, wq_attempt r)"

definition ob_key :: "WorkOutboxRow \<Rightarrow> string \<times> int" where
  "ob_key r = (ob_work_id r, ob_attempt r)"

definition empty_work_store :: WorkStore where
  "empty_work_store = \<lparr>node_leases = [], work_queue = [], work_outbox = [], work_ledger = []\<rparr>"

section \<open>Node leases\<close>

definition acquire_lease ::
  "time \<Rightarrow> string \<Rightarrow> string \<Rightarrow> string \<Rightarrow> string \<Rightarrow> int \<Rightarrow> int \<Rightarrow> int \<Rightarrow> WorkStore \<Rightarrow> NodeLease \<times> WorkStore"
where
  "acquire_lease now uuid site_id node_id session_id lease_ttl_ms renew_after_ms controller_epoch st =
     (let lease = \<lparr>nl_node_id = node_id, nl_site_id = site_id, nl_session_id = session_id,
            nl_lease_id = uuid, nl_controller_epoch = controller_epoch,
            nl_lease_ttl_ms = lease_ttl_ms, nl_renew_after_ms = renew_after_ms,
            nl_last_renew_at = now, nl_expires_at = now + lease_ttl_ms * 1000\<rparr>
      in (lease, st\<lparr>node_leases :=
            delete_where (\<lambda>l. nl_node_id l = node_id) (node_leases st) @ [lease]\<rparr>))"

datatype renew_error = UnknownLease | InvalidSession | Expired

definition nl_renew :: "time \<Rightarrow> NodeLease \<Rightarrow> NodeLease" where
  "nl_renew now l = l\<lparr>nl_last_renew_at := now, nl_expires_at := now + nl_lease_ttl_ms l * 1000\<rparr>"

definition renew_lease ::
  "time \<Rightarrow> string \<Rightarrow> string \<Rightarrow> string \<Rightarrow> WorkStore \<Rightarrow> (renew_error + NodeLease) \<times> WorkStore" where
  "renew_lease now node_id session_id lease_id st =
     (case find (\<lambda>l. nl_node_id l = node_id) (node_leases st) of
        None \<Rightarrow> (Inl UnknownLease, st)
      | Some row \<Rightarrow>
          if nl_session_id row \<noteq> session_id then (Inl InvalidSession, st)
          else if nl_lease_id row \<noteq> lease_id then (Inl UnknownLease, st)
          else if nl_expires_at row \<le> now
          then (Inl Expired,
                st\<lparr>node_leases := delete_where (\<lambda>l. nl_node_id l = node_id) (node_leases st)\<rparr>)
          else (Inr (nl_renew now row),
                st\<lparr>node_leases :=
                     update_where (\<lambda>l. nl_node_id l = node_id) (nl_renew now) (node_leases st)\<rparr>))"

section \<open>The ledger\<close>

definition lg_upsert ::
  "int \<times> string \<times> string \<times> json \<times> json \<times> json \<times> int option \<times> time \<Rightarrow> WorkLedgerRow \<Rightarrow> WorkLedgerRow"
where
  "lg_upsert a r = (case a of (attempt, site_id, state, cid, cepoch, oid, gen, now) \<Rightarrow>
     r\<lparr>lg_attempt := attempt, lg_site_id := site_id, lg_state := state, lg_controller_id := cid,
       lg_controller_epoch := cepoch, lg_operation_id := oid, lg_desired_generation := gen,
       lg_updated_at := now, lg_state_updated_at := now\<rparr>)"

definition upsert_work_ledger ::
  "time \<Rightarrow> string \<Rightarrow> int \<Rightarrow> string \<Rightarrow> string \<Rightarrow> string option \<Rightarrow> int option \<Rightarrow> string option
   \<Rightarrow> int option \<Rightarrow> WorkStore \<Rightarrow> WorkStore" where
  "upsert_work_ledger now work_id attempt site_id state controller_id controller_epoch operation_id
      desired_generation st =
     (if exists_row (\<lambda>r. lg_work_id r = work_id) (work_ledger st)
      then st\<lparr>work_ledger := update_where (\<lambda>r. lg_work_id r = work_id)
             (lg_upsert (attempt, site_id, state, json_opt_str controller_id,
                json_opt_int controller_epoch, json_opt_str operation_id, desired_generation, now))
             (work_ledger st)\<rparr>
      else st\<lparr>work_ledger := work_ledger st @
             [\<lparr>lg_work_id = work_id, lg_attempt = attempt, lg_site_id = site_id, lg_state = state,
               lg_controller_id = json_opt_str controller_id,
               lg_controller_epoch = json_opt_int controller_epoch,
               lg_operation_id = json_opt_str operation_id,
               lg_desired_generation = desired_generation, lg_assigned_node_id = None,
               lg_observed_generation = None, lg_result = JEmpty,
               lg_created_at = now, lg_updated_at = now, lg_state_updated_at = now\<rparr>]\<rparr>)"

definition ledger_entry_of_row :: "WorkLedgerRow \<Rightarrow> WorkLedgerEntry result" where
  "ledger_entry_of_row r =
     rbind (int_or_none (lg_controller_epoch r)) (\<lambda>cepoch.
       Inr \<lparr>le_work_id = lg_work_id r, le_attempt = lg_attempt r, le_site_id = lg_site_id r,
            le_state = lg_state r, le_controller_id = str_or_none (lg_controller_id r),
            le_controller_epoch = cepoch, le_operation_id = str_or_none (lg_operation_id r),
            le_desired_generation = lg_desired_generation r,
            le_assigned_node_id = nonempty (lg_assigned_node_id r),
            le_observed_generation = lg_observed_generation r,
            le_result = (case lg_result r of JDump v \<Rightarrow> Some v | _ \<Rightarrow> None),
            le_created_at = lg_created_at r, le_updated_at = lg_updated_at r,
            le_state_updated_at = lg_state_updated_at r\<rparr>)"

definition get_work_ledger :: "string \<Rightarrow> WorkStore \<Rightarrow> WorkLedgerEntry option result" where
  "get_work_ledger work_id st =
     (case find (\<lambda>r. lg_work_id r = work_id) (work_ledger st) of
        None \<Rightarrow> Inr None
      | Some r \<Rightarrow> rbind (ledger_entry_of_row r) (\<lambda>e. Inr (Some e)))"

definition lg_set_state ::
  "string \<times> string option \<times> int option \<times> dict option \<times> time \<Rightarrow> WorkLedgerRow \<Rightarrow> WorkLedgerRow" where
  "lg_set_state a r = (case a of (state, node, gen, res, now) \<Rightarrow>
     r\<lparr>lg_state := state, lg_assigned_node_id := coalesce node (lg_assigned_node_id r),
       lg_observed_generation := coalesce gen (lg_observed_generation r),
       lg_result := (case res of None \<Rightarrow> lg_result r | Some d \<Rightarrow> JDump (JObj d)),
       lg_updated_at := now, lg_state_updated_at := now\<rparr>)"

definition update_work_state ::
  "time \<Rightarrow> string \<Rightarrow> int \<Rightarrow> string \<Rightarrow> string option \<Rightarrow> int option \<Rightarrow> dict option \<Rightarrow> WorkStore
   \<Rightarrow> bool \<times> WorkStore" where
  "update_work_state now work_id attempt state assigned_node_id observed_generation res st =
     (let p = (\<lambda>r. lg_work_id r = work_id \<and> lg_attempt r = attempt)
      in (rowcount p (work_ledger st) > 0,
          st\<lparr>work_ledger := update_where p
               (lg_set_state (state, assigned_node_id, observed_generation, res, now))
               (work_ledger st)\<rparr>))"

definition list_work_state_before :: "string \<Rightarrow> time \<Rightarrow> WorkStore \<Rightarrow> WorkLedgerEntry list result" where
  "list_work_state_before state cutoff st =
     rmap ledger_entry_of_row
       (sort_key lg_state_updated_at
          (filter (\<lambda>r. lg_state r = state \<and> lg_state_updated_at r \<le> cutoff) (work_ledger st)))"

section \<open>The pull queue\<close>

definition enqueue_work :: "time \<Rightarrow> string \<Rightarrow> int \<Rightarrow> string \<Rightarrow> dict \<Rightarrow> WorkStore \<Rightarrow> WorkStore" where
  "enqueue_work now work_id attempt site_id payload st =
     st\<lparr>work_queue :=
          delete_where (\<lambda>r. wq_key r = (work_id, attempt)) (work_queue st) @
          [\<lparr>wq_work_id = work_id, wq_attempt = attempt, wq_site_id = site_id,
            wq_payload = JDump (JObj payload), wq_state = QPending, wq_lease_id = None,
            wq_leased_at = None, wq_lease_expires_at = None, wq_acked_at = None,
            wq_created_at = now, wq_updated_at = now\<rparr>]\<rparr>"

definition wq_release :: "time \<Rightarrow> WorkQueueRow \<Rightarrow> WorkQueueRow" where
  "wq_release now r = r\<lparr>wq_state := QPending, wq_lease_id := None, wq_leased_at := None,
     wq_lease_expires_at := None, wq_acked_at := None, wq_updated_at := now\<rparr>"

definition lease_lapsed :: "time \<Rightarrow> WorkQueueRow \<Rightarrow> bool" where
  "lease_lapsed now r \<longleftrightarrow> (wq_state r = QLeased \<or> wq_state r = QAcked) \<and>
     (case wq_lease_expires_at r of None \<Rightarrow> False | Some t \<Rightarrow> t < now)"

definition wq_take :: "string \<times> time \<times> time \<Rightarrow> WorkQueueRow \<Rightarrow> WorkQueueRow" where
  "wq_take a r = (case a of (lease_id, now, expires) \<Rightarrow>
     r\<lparr>wq_state := QLeased, wq_lease_id := Some lease_id, wq_leased_at := Some now,
       wq_lease_expires_at := Some expires, wq_updated_at := now\<rparr>)"

text \<open>
  The loop of \<^verbatim>\<open>pull_work\<close> over the selected rows. Inside it \<^verbatim>\<open>update_work_state\<close> opens a second
  connection: SQLite refuses it, because the first connection holds the write lock, and the
  error is swallowed; Postgres commits it at once. A payload that does not parse raises out of the
  loop: the queue rolls back, what the second connection committed stays. \<open>uuids n\<close> is what the
  \<open>n\<close>-th \<^verbatim>\<open>uuid4()\<close> of the call returns.
\<close>

definition still_pending :: "WorkQueueRow \<Rightarrow> WorkQueueRow \<Rightarrow> bool" where
  "still_pending row r \<longleftrightarrow> wq_key r = wq_key row \<and> wq_state r = QPending"

definition pull_take :: "string \<times> time \<times> time \<Rightarrow> WorkQueueRow \<Rightarrow> WorkStore \<Rightarrow> WorkStore" where
  "pull_take a row st =
     st\<lparr>work_queue := update_where (still_pending row) (wq_take a) (work_queue st)\<rparr>"

definition pull_dispatched :: "store_backend \<Rightarrow> time \<Rightarrow> WorkQueueRow \<Rightarrow> WorkStore \<Rightarrow> WorkStore" where
  "pull_dispatched be now row st =
     (case be of Sqlite \<Rightarrow> st
      | Postgres \<Rightarrow> snd (update_work_state now (wq_work_id row) (wq_attempt row)
          ''Dispatched'' None None None st))"

fun pull_rows ::
  "store_backend \<Rightarrow> time \<Rightarrow> time \<Rightarrow> string \<Rightarrow> WorkQueueRow list \<Rightarrow> (nat \<Rightarrow> string) \<Rightarrow> WorkStore
   \<Rightarrow> WorkQueueLease list result \<times> WorkStore" where
  "pull_rows be now expires site_id [] uuids st = (Inr [], st)"
| "pull_rows be now expires site_id (row # rows) uuids st =
     (let u = uuids 0;
          us = (\<lambda>n. uuids (Suc n))
      in if rowcount (still_pending row) (work_queue st) = 0
         then pull_rows be now expires site_id rows us st
         else
           let st1 = pull_take (u, now, expires) row st
           in case loads_or_raise (wq_payload row) of
                Inl err \<Rightarrow> (Inl err, st1)
              | Inr payload \<Rightarrow>
                  (case pull_rows be now expires site_id rows us (pull_dispatched be now row st1) of
                     (Inl err, st3) \<Rightarrow> (Inl err, st3)
                   | (Inr leases, st3) \<Rightarrow>
                       (Inr (\<lparr>wl_work_id = wq_work_id row, wl_attempt = wq_attempt row,
                             wl_site_id = site_id, wl_payload = payload, wl_lease_id = u,
                             wl_lease_expires_at = expires\<rparr> # leases), st3)))"

definition pull_select :: "string \<Rightarrow> int \<Rightarrow> WorkQueueRow list \<Rightarrow> WorkQueueRow list" where
  "pull_select site_id limit q =
     sql_limit limit (sort_key wq_created_at
       (filter (\<lambda>r. wq_site_id r = site_id \<and> wq_state r = QPending) q))"

definition pull_work ::
  "store_backend \<Rightarrow> time \<Rightarrow> (nat \<Rightarrow> string) \<Rightarrow> string \<Rightarrow> int \<Rightarrow> int \<Rightarrow> WorkStore
   \<Rightarrow> WorkQueueLease list result \<times> WorkStore" where
  "pull_work be now uuids site_id limit visibility_timeout_ms st =
     (let expires = now + max 0 visibility_timeout_ms * 1000;
          st1 = st\<lparr>work_queue := update_where (lease_lapsed now) (wq_release now) (work_queue st)\<rparr>;
          rows = pull_select site_id limit (work_queue st1)
      in case pull_rows be now expires site_id rows uuids st1 of
           (Inr leases, st2) \<Rightarrow> (Inr leases, st2)
         | (Inl err, st2) \<Rightarrow> (Inl err, st2\<lparr>work_queue := work_queue st\<rparr>))"

definition wq_ack :: "time \<Rightarrow> WorkQueueRow \<Rightarrow> WorkQueueRow" where
  "wq_ack now r = r\<lparr>wq_state := QAcked, wq_acked_at := Some now, wq_updated_at := now\<rparr>"

fun ack_work :: "time \<Rightarrow> string list \<Rightarrow> WorkStore \<Rightarrow> int \<times> WorkStore" where
  "ack_work now [] st = (0, st)"
| "ack_work now (lease_id # ls) st =
     (let p = (\<lambda>r. wq_lease_id r = Some lease_id);
          (n, st') = ack_work now ls
             (st\<lparr>work_queue := update_where p (wq_ack now) (work_queue st)\<rparr>)
      in (int (rowcount p (work_queue st)) + n, st'))"

text \<open>\<^verbatim>\<open>item.get("work_id") not in {None, "", work_id}\<close>: hashing a list or a dict raises.\<close>

fun work_id_matches :: "json \<Rightarrow> string \<Rightarrow> bool result" where
  "work_id_matches JNull w = Inr True"
| "work_id_matches (JStr s) w = Inr (s = [] \<or> s = w)"
| "work_id_matches (JInt i) w = Inr False"
| "work_id_matches (JBool b) w = Inr False"
| "work_id_matches _ w = Inl TypeError"

definition ack_work_item :: "time \<Rightarrow> json \<Rightarrow> WorkStore \<Rightarrow> (int \<times> WorkStore) result" where
  "ack_work_item now item st =
     (case as_dict item of
        None \<Rightarrow> Inr (0, st)
      | Some d \<Rightarrow>
          let lease_id = strip (py_str (py_or (dict_get d ''lease_id'') (JStr [])))
          in if lease_id = [] then Inr (0, st)
             else case parse_envelope item of
               None \<Rightarrow> Inr (0, st)
             | Some e \<Rightarrow>
                 (case find (\<lambda>r. wq_lease_id r = Some lease_id) (work_queue st) of
                    None \<Rightarrow> Inr (0, st)
                  | Some row \<Rightarrow>
                      if parse_envelope (loads_or_empty (wq_payload row)) \<noteq> Some e then Inr (0, st)
                      else rbind (work_id_matches (dict_get d ''work_id'') (wq_work_id row)) (\<lambda>ok.
                        if \<not> ok then Inr (0, st)
                        else
                          let ack_attempt = (case py_int (py_or (dict_get d ''attempt'') (JInt 0)) of
                                None \<Rightarrow> 0 | Some i \<Rightarrow> i)
                          in if ack_attempt \<noteq> 0 \<and> ack_attempt \<noteq> wq_attempt row then Inr (0, st)
                             else let p = (\<lambda>r. wq_lease_id r = Some lease_id)
                               in Inr (int (rowcount p (work_queue st)),
                                   st\<lparr>work_queue := update_where p (wq_ack now) (work_queue st)\<rparr>))))"

fun ack_items_loop :: "time \<Rightarrow> json list \<Rightarrow> WorkStore \<Rightarrow> (int \<times> WorkStore) result" where
  "ack_items_loop now [] st = Inr (0, st)"
| "ack_items_loop now (i # is) st =
     rbind (ack_work_item now i st) (\<lambda>(n, st1).
       rbind (ack_items_loop now is st1) (\<lambda>(m, st2). Inr (n + m, st2)))"

definition ack_work_items :: "time \<Rightarrow> json list \<Rightarrow> WorkStore \<Rightarrow> int result \<times> WorkStore" where
  "ack_work_items now items st =
     (case ack_items_loop now items st of
        Inl err \<Rightarrow> (Inl err, st)
      | Inr (n, st') \<Rightarrow> (Inr n, st'))"

definition wq_done :: "time \<Rightarrow> WorkQueueRow \<Rightarrow> WorkQueueRow" where
  "wq_done now r = r\<lparr>wq_state := QDone, wq_updated_at := now, wq_lease_id := None,
     wq_lease_expires_at := None\<rparr>"

definition mark_work_done :: "time \<Rightarrow> string \<Rightarrow> int \<Rightarrow> WorkStore \<Rightarrow> WorkStore" where
  "mark_work_done now work_id attempt st =
     st\<lparr>work_queue := update_where (\<lambda>r. wq_key r = (work_id, attempt)) (wq_done now) (work_queue st)\<rparr>"

section \<open>The outbox\<close>

definition outbox_publish_subject :: "string \<Rightarrow> string" where
  "outbox_publish_subject site_id = ''k1s.v1.work.site.'' @ site_id"

definition outbox_publish_msg_id :: "string \<Rightarrow> int \<Rightarrow> dict \<Rightarrow> string" where
  "outbox_publish_msg_id work_id attempt payload =
     py_str (py_or (dict_get payload ''operation_id'') (JStr (work_id @ '':'' @ show_int attempt)))"

definition new_outbox_row :: "time \<Rightarrow> string \<Rightarrow> int \<Rightarrow> string \<Rightarrow> dict \<Rightarrow> WorkOutboxRow" where
  "new_outbox_row now work_id attempt site_id payload =
     \<lparr>ob_work_id = work_id, ob_attempt = attempt, ob_site_id = site_id,
      ob_payload = JDump (JObj payload),
      ob_publish_subject = Some (outbox_publish_subject site_id),
      ob_publish_msg_id = Some (outbox_publish_msg_id work_id attempt payload),
      ob_state = Unpublished, ob_publish_attempts = 0, ob_last_publish_at = None,
      ob_last_publish_error = None, ob_created_at = now, ob_updated_at = now\<rparr>"

definition enqueue_work_outbox :: "time \<Rightarrow> string \<Rightarrow> int \<Rightarrow> string \<Rightarrow> dict \<Rightarrow> WorkStore \<Rightarrow> WorkStore" where
  "enqueue_work_outbox now work_id attempt site_id payload st =
     st\<lparr>work_outbox :=
          delete_where (\<lambda>r. ob_key r = (work_id, attempt)) (work_outbox st) @
          [new_outbox_row now work_id attempt site_id payload]\<rparr>"

definition outbox_entry_of_row :: "WorkOutboxRow \<Rightarrow> WorkOutboxEntry result" where
  "outbox_entry_of_row r =
     rbind (loads_or_raise (ob_payload r)) (\<lambda>payload.
       let subject = (case ob_publish_subject r of Some (c # cs) \<Rightarrow> c # cs
             | _ \<Rightarrow> outbox_publish_subject (ob_site_id r));
           msg_id = (case ob_publish_msg_id r of Some (c # cs) \<Rightarrow> Inr (c # cs)
             | _ \<Rightarrow> (case as_dict payload of None \<Rightarrow> Inl TypeError
                 | Some d \<Rightarrow> Inr (outbox_publish_msg_id (ob_work_id r) (ob_attempt r) d)))
       in rbind msg_id (\<lambda>mid.
            Inr \<lparr>oe_work_id = ob_work_id r, oe_attempt = ob_attempt r, oe_site_id = ob_site_id r,
                 oe_payload = payload, oe_publish_subject = subject, oe_publish_msg_id = mid,
                 oe_publish_attempts = ob_publish_attempts r,
                 oe_last_publish_at = ob_last_publish_at r,
                 oe_last_publish_error = nonempty (ob_last_publish_error r)\<rparr>))"

definition list_outbox_unpublished :: "int \<Rightarrow> WorkStore \<Rightarrow> WorkOutboxEntry list result" where
  "list_outbox_unpublished limit st =
     rmap outbox_entry_of_row
       (sql_limit limit (sort_key ob_created_at
          (filter (\<lambda>r. ob_state r = Unpublished) (work_outbox st))))"

definition get_outbox_payload :: "string \<Rightarrow> int \<Rightarrow> WorkStore \<Rightarrow> json option" where
  "get_outbox_payload work_id attempt st =
     map_option (\<lambda>r. loads_or_empty (ob_payload r))
       (find (\<lambda>r. ob_key r = (work_id, attempt)) (work_outbox st))"

definition ob_published :: "time \<Rightarrow> WorkOutboxRow \<Rightarrow> WorkOutboxRow" where
  "ob_published now r = r\<lparr>ob_state := Published, ob_publish_attempts := ob_publish_attempts r + 1,
     ob_last_publish_at := Some now, ob_last_publish_error := None, ob_updated_at := now\<rparr>"

definition mark_outbox_published :: "time \<Rightarrow> string \<Rightarrow> int \<Rightarrow> WorkStore \<Rightarrow> WorkStore" where
  "mark_outbox_published now work_id attempt st =
     st\<lparr>work_outbox := update_where (\<lambda>r. ob_key r = (work_id, attempt)) (ob_published now)
          (work_outbox st)\<rparr>"

definition ob_attempted :: "string option \<times> time \<Rightarrow> WorkOutboxRow \<Rightarrow> WorkOutboxRow" where
  "ob_attempted a r = (case a of (err, now) \<Rightarrow>
     r\<lparr>ob_publish_attempts := ob_publish_attempts r + 1, ob_last_publish_at := Some now,
       ob_last_publish_error := err, ob_updated_at := now\<rparr>)"

definition record_outbox_publish_attempt ::
  "time \<Rightarrow> string \<Rightarrow> int \<Rightarrow> string option \<Rightarrow> WorkStore \<Rightarrow> WorkStore" where
  "record_outbox_publish_attempt now work_id attempt err st =
     st\<lparr>work_outbox := update_where (\<lambda>r. ob_key r = (work_id, attempt)) (ob_attempted (err, now))
          (work_outbox st)\<rparr>"

section \<open>Rescheduling\<close>

definition lg_reschedule :: "int \<times> json \<times> json \<times> json \<times> time \<Rightarrow> WorkLedgerRow \<Rightarrow> WorkLedgerRow" where
  "lg_reschedule a r = (case a of (attempt, cid, cepoch, oid, now) \<Rightarrow>
     r\<lparr>lg_attempt := attempt, lg_state := ''Pending'', lg_controller_id := cid,
       lg_controller_epoch := cepoch, lg_operation_id := oid,
       lg_updated_at := now, lg_state_updated_at := now\<rparr>)"

definition reschedule_payload ::
  "string \<Rightarrow> string \<Rightarrow> int \<Rightarrow> string option \<Rightarrow> int option \<Rightarrow> string \<Rightarrow> dict \<Rightarrow> dict" where
  "reschedule_payload work_id site_id new_attempt controller_id controller_epoch now_iso payload =
     (let p1 = dict_put ''attempt'' (JInt new_attempt) payload;
          p2 = dict_setdefault ''work_id'' (JStr work_id) p1;
          p3 = dict_setdefault ''site_id'' (JStr site_id) p2;
          p4 = dict_put ''created_at'' (JStr now_iso) p3;
          p5 = (case controller_id of Some (c # cs) \<Rightarrow> dict_put ''controller_id'' (JStr (c # cs)) p4
                | _ \<Rightarrow> p4);
          p6 = (case controller_epoch of Some e \<Rightarrow> dict_put ''controller_epoch'' (JInt e) p5
                | None \<Rightarrow> p5)
      in if truthy (dict_get p6 ''controller_id'') \<and> dict_get p6 ''controller_epoch'' \<noteq> JNull
         then dict_put ''operation_id'' (JStr (work_operation work_id new_attempt)) p6 else p6)"

text \<open>
  \<open>isofmt\<close> renders a time as \<^verbatim>\<open>isoformat\<close> does; the rescheduled payload carries the rendered text.
\<close>

definition reschedule_work ::
  "(time \<Rightarrow> string) \<Rightarrow> time \<Rightarrow> string \<Rightarrow> int \<Rightarrow> string option \<Rightarrow> int option \<Rightarrow> WorkStore
   \<Rightarrow> int option result \<times> WorkStore" where
  "reschedule_work isofmt now work_id attempt controller_id controller_epoch st =
     (case find (\<lambda>r. ob_key r = (work_id, attempt)) (work_outbox st) of
        None \<Rightarrow> (Inr None, st)
      | Some row \<Rightarrow>
          (case as_dict (loads_or_empty (ob_payload row)) of
             None \<Rightarrow> (Inl TypeError, st)
           | Some old \<Rightarrow>
               let new_attempt = attempt + 1;
                   payload = reschedule_payload work_id (ob_site_id row) new_attempt controller_id
                     controller_epoch (isofmt now) old;
                   p = (\<lambda>r. lg_work_id r = work_id \<and> lg_attempt r = attempt);
                   binds = rbind (bind_text (dict_get payload ''controller_id'')) (\<lambda>cid.
                     rbind (bind_int (dict_get payload ''controller_epoch'')) (\<lambda>cepoch.
                     rbind (bind_text (dict_get payload ''operation_id'')) (\<lambda>oid. Inr (cid, cepoch, oid))))
               in (case binds of
                     Inl err \<Rightarrow> (Inl err, st)
                   | Inr (cid, cepoch, oid) \<Rightarrow>
                       if rowcount p (work_ledger st) = 0 then (Inr None, st)
                       else if exists_row (\<lambda>r. ob_key r = (work_id, new_attempt)) (work_outbox st)
                       then (Inl IntegrityError, st)
                       else (Inr (Some new_attempt),
                             st\<lparr>work_ledger := update_where p
                                  (lg_reschedule (new_attempt, cid, cepoch, oid, now)) (work_ledger st),
                                work_outbox := work_outbox st @
                                  [new_outbox_row now work_id new_attempt (ob_site_id row) payload]\<rparr>))))"

section \<open>Runs of queue operations\<close>

datatype work_op =
    OpEnqueue time string int string dict
  | OpPull store_backend time "nat \<Rightarrow> string" string int int
  | OpAck time "string list"
  | OpAckItems time "json list"
  | OpDone time string int

fun run_work_op :: "work_op \<Rightarrow> WorkStore \<Rightarrow> WorkQueueLease list \<times> WorkStore" where
  "run_work_op (OpEnqueue now w a s p) st = ([], enqueue_work now w a s p st)"
| "run_work_op (OpPull be now us s l v) st =
     (case pull_work be now us s l v st of (Inr ls, st') \<Rightarrow> (ls, st') | (Inl _, st') \<Rightarrow> ([], st'))"
| "run_work_op (OpAck now ids) st = ([], snd (ack_work now ids st))"
| "run_work_op (OpAckItems now items) st = ([], snd (ack_work_items now items st))"
| "run_work_op (OpDone now w a) st = ([], mark_work_done now w a st)"

fun run_work_ops :: "work_op list \<Rightarrow> WorkStore \<Rightarrow> WorkQueueLease list \<times> WorkStore" where
  "run_work_ops [] st = ([], st)"
| "run_work_ops (op # ops) st =
     (let (ls, st1) = run_work_op op st; (ls', st2) = run_work_ops ops st1 in (ls @ ls', st2))"

fun op_time :: "work_op \<Rightarrow> time" where
  "op_time (OpEnqueue now w a s p) = now"
| "op_time (OpPull be now us s l v) = now"
| "op_time (OpAck now ids) = now"
| "op_time (OpAckItems now items) = now"
| "op_time (OpDone now w a) = now"

fun enqueues :: "string \<times> int \<Rightarrow> work_op \<Rightarrow> bool" where
  "enqueues k (OpEnqueue now w a s p) = ((w, a) = k)"
| "enqueues k _ = False"

definition wl_key :: "WorkQueueLease \<Rightarrow> string \<times> int" where
  "wl_key l = (wl_work_id l, wl_attempt l)"

section \<open>The queue invariant\<close>

definition wq_row_ok :: "WorkQueueRow \<Rightarrow> bool" where
  "wq_row_ok r \<longleftrightarrow>
     (wq_lease_id r \<noteq> None \<longleftrightarrow> wq_state r = QLeased \<or> wq_state r = QAcked) \<and>
     (wq_lease_expires_at r = None \<longleftrightarrow> wq_lease_id r = None) \<and>
     (wq_state r = QPending \<longrightarrow> wq_leased_at r = None \<and> wq_acked_at r = None) \<and>
     wq_payload r \<noteq> JBad"

definition work_queue_ok :: "WorkQueueRow list \<Rightarrow> bool" where
  "work_queue_ok q \<longleftrightarrow> primary_key wq_key q \<and> list_all wq_row_ok q"

definition parked :: "time \<Rightarrow> WorkQueueRow \<Rightarrow> bool" where
  "parked e r \<longleftrightarrow> (wq_state r = QDone \<and> wq_lease_id r = None) \<or>
     ((wq_state r = QLeased \<or> wq_state r = QAcked) \<and> wq_lease_expires_at r = Some e)"

lemmas wq_upd_defs = wq_take_def wq_release_def wq_ack_def wq_done_def

interpretation q_take: keyed_update wq_key wq_take
  by unfold_locales (simp add: wq_take_def wq_key_def split: prod.splits)

interpretation q_release: keyed_update wq_key wq_release
  by unfold_locales (simp add: wq_release_def wq_key_def)

interpretation q_ack: keyed_update wq_key wq_ack
  by unfold_locales (simp add: wq_ack_def wq_key_def)

interpretation q_done: keyed_update wq_key wq_done
  by unfold_locales (simp add: wq_done_def wq_key_def)

lemmas wq_key_kept [simp] = q_take.key_kept q_release.key_kept q_ack.key_kept q_done.key_kept

lemma work_queue_ok_update:
  assumes "work_queue_ok q" and "\<And>r. wq_key (f r) = wq_key r"
    and "\<And>r. r \<in> set q \<Longrightarrow> p r \<Longrightarrow> wq_row_ok r \<Longrightarrow> wq_row_ok (f r)"
  shows "work_queue_ok (update_where p f q)"
  using assms by (auto simp: work_queue_ok_def primary_key_def map_key_update_where list_all_iff
      set_update_where)

lemma wq_row_ok_take [simp]: "wq_row_ok r \<Longrightarrow> wq_state r = QPending \<Longrightarrow> wq_row_ok (wq_take a r)"
  by (auto simp: wq_row_ok_def wq_take_def split: prod.splits)

lemma wq_row_ok_release [simp]: "wq_row_ok r \<Longrightarrow> wq_row_ok (wq_release now r)"
  by (auto simp: wq_row_ok_def wq_release_def)

lemma wq_row_ok_ack [simp]: "wq_row_ok r \<Longrightarrow> wq_lease_id r = Some l \<Longrightarrow> wq_row_ok (wq_ack now r)"
  by (auto simp: wq_row_ok_def wq_ack_def)

lemma wq_row_ok_done [simp]: "wq_row_ok r \<Longrightarrow> wq_row_ok (wq_done now r)"
  by (auto simp: wq_row_ok_def wq_done_def)

lemma enqueue_work_ok:
  "work_queue_ok (work_queue st) \<Longrightarrow> work_queue_ok (work_queue (enqueue_work now w a s p st))"
  by (auto simp: enqueue_work_def work_queue_ok_def list_all_iff wq_row_ok_def exists_row_iff wq_key_def
      intro!: primary_key_insert primary_key_delete_where)

lemma update_work_state_tables [simp]:
  "work_queue (snd (update_work_state now w a s n g r st)) = work_queue st"
  "work_outbox (snd (update_work_state now w a s n g r st)) = work_outbox st"
  "node_leases (snd (update_work_state now w a s n g r st)) = node_leases st"
  by (simp_all add: update_work_state_def Let_def)

text \<open>What the loop of \<^verbatim>\<open>pull_work\<close> keeps, whichever way it ends.\<close>

lemma pull_rows_inv:
  assumes take_step: "\<And>row u st. row \<in> set rows \<Longrightarrow> Q st \<Longrightarrow> Q (pull_take (u, now, e) row st)"
    and ledger_step: "\<And>row st. Q st \<Longrightarrow> Q (pull_dispatched be now row st)"
    and start: "Q st" and run: "pull_rows be now e s rows us st = (res, st')"
  shows "Q st'"
  using take_step start run
proof (induction rows arbitrary: us st res st')
  case Nil
  then show ?case by simp
next
  case (Cons row rows)
  let ?st1 = "pull_take (us 0, now, e) row st"
  have IH: "Q t \<Longrightarrow> pull_rows be now e s rows us' t = (r, t') \<Longrightarrow> Q t'" for t us' r t'
    using Cons.IH Cons.prems(1) by (meson list.set_intros(2))
  have Q1: "Q ?st1" using Cons.prems by simp
  obtain r3 st3 where rest:
    "pull_rows be now e s rows (\<lambda>n. us (Suc n)) (pull_dispatched be now row ?st1) = (r3, st3)"
    by (metis surj_pair)
  have Q3: "Q st3" using IH [OF ledger_step [OF Q1] rest] .
  show ?case
  proof (cases "rowcount (still_pending row) (work_queue st) = 0")
    case True
    with Cons.prems(3) have "pull_rows be now e s rows (\<lambda>n. us (Suc n)) st = (res, st')" by simp
    with Cons.prems(2) show ?thesis by (rule IH)
  next
    case False
    with Cons.prems(3) rest have "st' = ?st1 \<or> st' = st3"
      by (cases "loads_or_raise (wq_payload row)"; cases r3) (auto simp: Let_def)
    with Q1 Q3 show ?thesis by blast
  qed
qed

lemma pull_dispatched_tables [simp]:
  "work_queue (pull_dispatched be now row st) = work_queue st"
  "work_outbox (pull_dispatched be now row st) = work_outbox st"
  "node_leases (pull_dispatched be now row st) = node_leases st"
  by (simp_all add: pull_dispatched_def split: store_backend.splits)

lemma pull_take_ok:
  "work_queue_ok (work_queue st) \<Longrightarrow> work_queue_ok (work_queue (pull_take a row st))"
  by (simp add: pull_take_def) (intro work_queue_ok_update, auto simp: still_pending_def)

lemma pull_rows_ok:
  assumes "work_queue_ok (work_queue st)" and "pull_rows be now e s rows us st = (res, st')"
  shows "work_queue_ok (work_queue st')"
  by (rule pull_rows_inv [where Q = "\<lambda>st. work_queue_ok (work_queue st)", OF _ _ assms])
    (auto intro: pull_take_ok)

lemma pull_work_ok:
  assumes "work_queue_ok (work_queue st)"
  shows "work_queue_ok (work_queue (snd (pull_work be now us s l v st)))"
proof -
  have rel: "work_queue_ok (update_where (lease_lapsed now) (wq_release now) (work_queue st))"
    using assms by (intro work_queue_ok_update) (auto simp: q_release.key_kept)
  obtain res st2 where pr: "pull_rows be now (now + max 0 v * 1000) s
      (pull_select s l (update_where (lease_lapsed now) (wq_release now) (work_queue st))) us
      (st\<lparr>work_queue := update_where (lease_lapsed now) (wq_release now) (work_queue st)\<rparr>) = (res, st2)"
    by (metis surj_pair)
  from pull_rows_ok [OF _ pr] rel have "work_queue_ok (work_queue st2)" by simp
  with pr assms show ?thesis by (auto simp: pull_work_def Let_def split: sum.splits)
qed

lemma ack_row_ok:
  "work_queue_ok q \<Longrightarrow> work_queue_ok (update_where (\<lambda>r. wq_lease_id r = Some l) (wq_ack now) q)"
  by (intro work_queue_ok_update) (auto simp: q_ack.key_kept)

lemma ack_work_ok:
  "work_queue_ok (work_queue st) \<Longrightarrow> work_queue_ok (work_queue (snd (ack_work now ids st)))"
  by (induction now ids st rule: ack_work.induct) (auto simp: Let_def ack_row_ok split: prod.splits)

text \<open>
  An accepted item acknowledges by its lease id; a refused one writes nothing.
\<close>

lemma ack_work_item_cases:
  assumes "ack_work_item now item st = Inr (n, st')"
  shows "(n = 0 \<and> st' = st) \<or>
    (\<exists>lid. st' = st\<lparr>work_queue := update_where (\<lambda>r. wq_lease_id r = Some lid) (wq_ack now) (work_queue st)\<rparr>)"
  using assms
  by (auto simp: ack_work_item_def Let_def rbind_Inr_iff split: option.splits if_splits)

lemma ack_items_loop_inv:
  assumes ack_step: "\<And>l st. Q st \<Longrightarrow>
      Q (st\<lparr>work_queue := update_where (\<lambda>r. wq_lease_id r = Some l) (wq_ack now) (work_queue st)\<rparr>)"
    and "Q st" and "ack_items_loop now items st = Inr (n, st')"
  shows "Q st'"
  using assms(2,3)
proof (induction items arbitrary: st n)
  case Nil
  then show ?case by simp
next
  case (Cons i items)
  then obtain m st1 k where i: "ack_work_item now i st = Inr (m, st1)"
    and rest: "ack_items_loop now items st1 = Inr (k, st')"
    by (auto simp: rbind_Inr_iff)
  have "Q st1" using ack_work_item_cases [OF i] Cons.prems(1) ack_step by auto
  then show ?case using rest by (rule Cons.IH)
qed

lemma ack_work_items_inv:
  assumes "\<And>l st. Q st \<Longrightarrow>
      Q (st\<lparr>work_queue := update_where (\<lambda>r. wq_lease_id r = Some l) (wq_ack now) (work_queue st)\<rparr>)"
    and "Q st"
  shows "Q (snd (ack_work_items now items st))"
proof (cases "ack_items_loop now items st")
  case (Inl e)
  with assms(2) show ?thesis by (simp add: ack_work_items_def)
next
  case (Inr p)
  then obtain n st' where p: "ack_items_loop now items st = Inr (n, st')" by (cases p) auto
  have "Q st'" by (rule ack_items_loop_inv [OF assms p])
  with p show ?thesis by (simp add: ack_work_items_def)
qed

lemma ack_work_inv:
  assumes "\<And>l st. Q st \<Longrightarrow>
      Q (st\<lparr>work_queue := update_where (\<lambda>r. wq_lease_id r = Some l) (wq_ack now) (work_queue st)\<rparr>)"
    and "Q st"
  shows "Q (snd (ack_work now ids st))"
  using assms(2)
proof (induction ids arbitrary: st)
  case (Cons l ls)
  from Cons.IH [OF assms(1) [OF Cons.prems]] show ?case by (simp add: Let_def case_prod_unfold)
qed simp

lemma mark_work_done_ok:
  "work_queue_ok (work_queue st) \<Longrightarrow> work_queue_ok (work_queue (mark_work_done now w a st))"
  by (simp add: mark_work_done_def) (intro work_queue_ok_update, auto)

lemma run_work_op_ok:
  assumes "work_queue_ok (work_queue st)"
  shows "work_queue_ok (work_queue (snd (run_work_op op st)))"
proof (cases op)
  case (OpPull be now us s l v)
  then show ?thesis
    using pull_work_ok [OF assms, of be now us s l v] by (auto split: sum.splits prod.splits)
next
  case (OpAckItems now items)
  then show ?thesis
    using ack_work_items_inv [where Q = "\<lambda>st. work_queue_ok (work_queue st)", of now st items]
      assms ack_row_ok by simp
qed (simp_all add: assms enqueue_work_ok ack_work_ok mark_work_done_ok)

lemma run_work_ops_ok:
  "work_queue_ok (work_queue st) \<Longrightarrow> work_queue_ok (work_queue (snd (run_work_ops ops st)))"
proof (induction ops arbitrary: st)
  case (Cons op ops)
  then have "work_queue_ok (work_queue (snd (run_work_op op st)))" by (simp add: run_work_op_ok)
  from Cons.IH [OF this] show ?case by (auto simp: Let_def split: prod.splits)
qed simp

section \<open>What a pull delivers\<close>

lemma lookup_take_self:
  assumes "primary_key wq_key q" and "row \<in> set q" and "wq_state row = QPending"
  shows "find (\<lambda>r. wq_key r = wq_key row) (update_where (still_pending row) (wq_take a) q)
    = Some (wq_take a row)"
  using assms find_key_member [OF assms(1,2)]
  by (simp add: q_take.lookup_update still_pending_def)

lemma lookup_take_other:
  assumes "k \<noteq> wq_key row"
  shows "find (\<lambda>r. wq_key r = k) (update_where (still_pending row) (wq_take a) q)
    = find (\<lambda>r. wq_key r = k) q"
proof -
  have "find (\<lambda>r. wq_key r = k) q = Some r \<Longrightarrow> \<not> still_pending row r" for r
    using assms find_key_Some [of wq_key k q r] by (auto simp: still_pending_def)
  then show ?thesis
    by (cases "find (\<lambda>r. wq_key r = k) q") (simp_all add: q_take.lookup_update)
qed

lemma rows_stay_pending:
  assumes "r \<in> set q" and "wq_key r \<noteq> wq_key row"
  shows "r \<in> set (update_where (still_pending row) (wq_take a) q)"
  using assms by (force simp: set_update_where still_pending_def)

definition lease_of_row :: "string \<Rightarrow> time \<Rightarrow> string \<Rightarrow> WorkQueueRow \<Rightarrow> WorkQueueLease" where
  "lease_of_row site_id expires u row =
     \<lparr>wl_work_id = wq_work_id row, wl_attempt = wq_attempt row, wl_site_id = site_id,
      wl_payload = loads_or_empty (wq_payload row), wl_lease_id = u,
      wl_lease_expires_at = expires\<rparr>"

lemma loads_or_raise_ok: "c \<noteq> JBad \<Longrightarrow> loads_or_raise c = Inr (loads_or_empty c)"
  by (cases c) (simp_all add: loads_or_raise_def loads_or_empty_def)

lemma pull_rows_delivers:
  assumes "primary_key wq_key (work_queue st)" and "distinct (map wq_key rows)"
    and "\<forall>r \<in> set rows. r \<in> set (work_queue st) \<and> wq_state r = QPending \<and> wq_payload r \<noteq> JBad"
  shows "\<exists>st'. pull_rows be now e s rows us st =
        (Inr (map (\<lambda>i. lease_of_row s e (us i) (rows ! i)) [0..<length rows]), st') \<and>
      (\<forall>i < length rows. find (\<lambda>r. wq_key r = wq_key (rows ! i)) (work_queue st')
         = Some (wq_take (us i, now, e) (rows ! i))) \<and>
      (\<forall>k. k \<notin> wq_key ` set rows \<longrightarrow>
         find (\<lambda>r. wq_key r = k) (work_queue st') = find (\<lambda>r. wq_key r = k) (work_queue st))"
  using assms
proof (induction rows arbitrary: us st)
  case Nil
  then show ?case by simp
next
  case (Cons row rows)
  let ?st1 = "pull_take (us 0, now, e) row st"
  have row: "row \<in> set (work_queue st)" "wq_state row = QPending" "wq_payload row \<noteq> JBad"
    using Cons.prems(3) by auto
  have q1: "work_queue (pull_dispatched be now row ?st1)
      = update_where (still_pending row) (wq_take (us 0, now, e)) (work_queue st)"
    by (simp add: pull_take_def)
  have notin: "wq_key row \<notin> wq_key ` set rows" using Cons.prems(2) by simp
  have pk1: "primary_key wq_key (work_queue (pull_dispatched be now row ?st1))"
    unfolding q1 q_take.pk_update by (rule Cons.prems(1))
  have rows1: "\<forall>r \<in> set rows. r \<in> set (work_queue (pull_dispatched be now row ?st1)) \<and>
      wq_state r = QPending \<and> wq_payload r \<noteq> JBad"
    unfolding q1 using Cons.prems(3) notin rows_stay_pending by (metis image_eqI list.set_intros(2))
  have drows: "distinct (map wq_key rows)" using Cons.prems(2) by simp
  obtain st' where run: "pull_rows be now e s rows (\<lambda>n. us (Suc n)) (pull_dispatched be now row ?st1) =
        (Inr (map (\<lambda>i. lease_of_row s e (us (Suc i)) (rows ! i)) [0..<length rows]), st')"
    and own: "\<forall>i < length rows. find (\<lambda>r. wq_key r = wq_key (rows ! i)) (work_queue st')
         = Some (wq_take (us (Suc i), now, e) (rows ! i))"
    and others: "\<forall>k. k \<notin> wq_key ` set rows \<longrightarrow> find (\<lambda>r. wq_key r = k) (work_queue st')
         = find (\<lambda>r. wq_key r = k) (update_where (still_pending row) (wq_take (us 0, now, e)) (work_queue st))"
    using Cons.IH [OF pk1 drows rows1, of "\<lambda>n. us (Suc n)"] unfolding q1 by blast
  have "rowcount (still_pending row) (work_queue st) > 0"
    using row by (auto simp: rowcount_pos_iff exists_row_iff still_pending_def)
  then have eq: "pull_rows be now e s (row # rows) us st =
      (Inr (lease_of_row s e (us 0) row #
        map (\<lambda>i. lease_of_row s e (us (Suc i)) (rows ! i)) [0..<length rows]), st')"
    using run row(3) by (simp add: Let_def loads_or_raise_ok lease_of_row_def)
  have head: "find (\<lambda>r. wq_key r = wq_key row) (work_queue st') = Some (wq_take (us 0, now, e) row)"
    using others [rule_format, OF notin] lookup_take_self [OF Cons.prems(1) row(1,2)] by simp
  have tail: "k \<notin> wq_key ` set (row # rows) \<Longrightarrow>
      find (\<lambda>r. wq_key r = k) (work_queue st') = find (\<lambda>r. wq_key r = k) (work_queue st)" for k
    using others [rule_format, of k] lookup_take_other [of k row] by simp
  have leases: "map (\<lambda>i. lease_of_row s e (us i) ((row # rows) ! i)) [0..<length (row # rows)] =
      lease_of_row s e (us 0) row # map (\<lambda>i. lease_of_row s e (us (Suc i)) (rows ! i)) [0..<length rows]"
    by (simp add: map_upt_Suc del: upt_Suc)
  have taken: "\<forall>i < length (row # rows). find (\<lambda>r. wq_key r = wq_key ((row # rows) ! i)) (work_queue st')
         = Some (wq_take (us i, now, e) ((row # rows) ! i))"
    using own head by (auto simp: less_Suc_eq_0_disj)
  show ?case unfolding leases using eq taken tail by (intro exI [of _ st'] conjI allI impI) simp_all
qed

lemma pull_select_pending:
  assumes "r \<in> set (pull_select s l q)"
  shows "r \<in> set q \<and> wq_site_id r = s \<and> wq_state r = QPending"
  using assms by (auto simp: pull_select_def sql_limit_def split: if_splits dest: in_set_takeD)

lemma pull_select_distinct:
  assumes "primary_key wq_key q"
  shows "distinct (map wq_key (pull_select s l q))"
proof -
  let ?f = "filter (\<lambda>r. wq_site_id r = s \<and> wq_state r = QPending) q"
  have "distinct (map wq_key ?f)" using assms by (simp add: primary_key_def distinct_map_filter)
  then have "distinct (map wq_key (sort_key wq_created_at ?f))"
    by (simp add: distinct_map)
  then show ?thesis by (simp add: pull_select_def sql_limit_def take_map flip: take_map)
qed

text \<open>The queue after the release of lapsed leases, from which a pull selects.\<close>

abbreviation released :: "time \<Rightarrow> WorkStore \<Rightarrow> WorkQueueRow list" where
  "released now st \<equiv> update_where (lease_lapsed now) (wq_release now) (work_queue st)"

lemma released_ok: "work_queue_ok (work_queue st) \<Longrightarrow> work_queue_ok (released now st)"
  by (intro work_queue_ok_update) auto

lemma pull_work_spec:
  assumes "work_queue_ok (work_queue st)"
  shows "\<exists>st'. let rows = pull_select s l (released now st); e = now + max 0 v * 1000 in
      pull_work be now us s l v st =
        (Inr (map (\<lambda>i. lease_of_row s e (us i) (rows ! i)) [0..<length rows]), st') \<and>
      (\<forall>i < length rows. find (\<lambda>r. wq_key r = wq_key (rows ! i)) (work_queue st')
         = Some (wq_take (us i, now, e) (rows ! i))) \<and>
      (\<forall>k. k \<notin> wq_key ` set rows \<longrightarrow>
         find (\<lambda>r. wq_key r = k) (work_queue st') = find (\<lambda>r. wq_key r = k) (released now st))"
proof -
  define rows where "rows = pull_select s l (released now st)"
  define st1 where "st1 = st\<lparr>work_queue := released now st\<rparr>"
  have ok: "work_queue_ok (released now st)" using assms by (rule released_ok)
  have "\<forall>r \<in> set rows. r \<in> set (released now st) \<and> wq_state r = QPending \<and> wq_payload r \<noteq> JBad"
    using pull_select_pending [of _ s l "released now st"] ok
    unfolding rows_def work_queue_ok_def list_all_iff wq_row_ok_def by blast
  then obtain st' where "pull_rows be now (now + max 0 v * 1000) s rows us st1 =
        (Inr (map (\<lambda>i. lease_of_row s (now + max 0 v * 1000) (us i) (rows ! i)) [0..<length rows]), st') \<and>
      (\<forall>i < length rows. find (\<lambda>r. wq_key r = wq_key (rows ! i)) (work_queue st')
         = Some (wq_take (us i, now, now + max 0 v * 1000) (rows ! i))) \<and>
      (\<forall>k. k \<notin> wq_key ` set rows \<longrightarrow>
         find (\<lambda>r. wq_key r = k) (work_queue st') = find (\<lambda>r. wq_key r = k) (released now st))"
    using pull_rows_delivers [of st1 rows be now "now + max 0 v * 1000" s us] ok
      pull_select_distinct [of "released now st" s l]
    unfolding work_queue_ok_def rows_def st1_def by auto
  then show ?thesis unfolding rows_def st1_def Let_def by (intro exI [of _ st']) (simp add: pull_work_def)
qed

text \<open>
  What a pull promises, written over the rows the queue holds beforehand. A row is \<open>overdue\<close> when its lease has expired, \<open>deliverable\<close> to a site
  when it is of that site and pending or overdue, and \<open>oldest_first\<close> says which of these a limit leaves, and in which order.
\<close>

definition overdue :: "time \<Rightarrow> WorkQueueRow \<Rightarrow> bool" where
  "overdue now r \<longleftrightarrow> wq_state r \<in> {QLeased, QAcked} \<and> wq_lease_expires_at r \<noteq> None \<and> the (wq_lease_expires_at r) < now"

definition deliverable :: "string \<Rightarrow> time \<Rightarrow> WorkQueueRow \<Rightarrow> bool" where
  "deliverable site_id now r \<longleftrightarrow> wq_site_id r = site_id \<and> (wq_state r = QPending \<or> overdue now r)"

definition oldest_first :: "int \<Rightarrow> ('r \<Rightarrow> time) \<Rightarrow> 'r list \<Rightarrow> 'r list \<Rightarrow> bool" where
  "oldest_first limit created candidates rows \<longleftrightarrow> distinct rows \<and> set rows \<subseteq> set candidates \<and>
     length rows = (if limit < 0 then length candidates else min (nat limit) (length candidates)) \<and>
     sorted (map created rows) \<and> (\<forall>r \<in> set rows. \<forall>r' \<in> set candidates - set rows. created r \<le> created r')"

lemma find_Some_member: "find p xs = Some x \<Longrightarrow> x \<in> set xs"
  by (auto simp: find_Some_iff)

lemma overdue_lapsed: "overdue now r = lease_lapsed now r"
  by (auto simp: overdue_def lease_lapsed_def split: option.splits)

lemma sort_key_map: "sort_key k (map f xs) = map f (sort_key (\<lambda>x. k (f x)) xs)"
proof -
  have "insort_key k (f x) (map f ys) = map f (insort_key (\<lambda>x. k (f x)) x ys)" for x ys by (induction ys) simp_all
  then show ?thesis by (induction xs) simp_all
qed

lemma oldest_first_limit:
  assumes "distinct xs"
  shows "oldest_first l k xs (sql_limit l (sort_key k xs))"
proof (cases "l < 0")
  case False
  define ys where "ys = sort_key k xs"
  have ys: "set ys = set xs" "distinct ys" "length ys = length xs" "sorted (map k ys)"
    using assms by (simp_all add: ys_def)
  have "sorted (map k (take (nat l) ys) @ map k (drop (nat l) ys))" using ys(4) by (simp flip: map_append)
  then have order: "\<forall>r \<in> set (take (nat l) ys). \<forall>r' \<in> set (drop (nat l) ys). k r \<le> k r'" and "sorted (map k (take (nat l) ys))"
    unfolding sorted_append by simp_all
  moreover have "set xs - set (take (nat l) ys) \<subseteq> set (drop (nat l) ys)"
    using set_append [of "take (nat l) ys" "drop (nat l) ys"] ys(1) by auto
  moreover have "set (take (nat l) ys) \<subseteq> set xs" using set_take_subset [of "nat l" ys] ys(1) by simp
  ultimately show ?thesis using False ys(2,3) unfolding oldest_first_def sql_limit_def ys_def [symmetric]
    by (simp add: min.commute) blast
qed (use assms in \<open>simp add: oldest_first_def sql_limit_def\<close>)

lemma pull_select_released:
  "pull_select s l (released now st) = map (\<lambda>r. if lease_lapsed now r then wq_release now r else r)
     (sql_limit l (sort_key wq_created_at (filter (deliverable s now) (work_queue st))))"
proof -
  let ?rel = "\<lambda>r. if lease_lapsed now r then wq_release now r else r"
  have "(\<lambda>r. wq_site_id r = s \<and> wq_state r = QPending) \<circ> ?rel = deliverable s now"
    by (rule ext) (simp add: deliverable_def overdue_lapsed wq_release_def)
  moreover have "(\<lambda>r. wq_created_at (?rel r)) = wq_created_at" by (rule ext) (simp add: wq_release_def)
  ultimately show ?thesis
    unfolding pull_select_def update_where_def filter_map sort_key_map by (simp add: sql_limit_def take_map)
qed

definition dispatched_at :: "time \<Rightarrow> WorkLedgerRow \<Rightarrow> WorkLedgerRow" where
  "dispatched_at now g = g\<lparr>lg_state := ''Dispatched'', lg_updated_at := now, lg_state_updated_at := now\<rparr>"

lemma dispatched_at_set_state: "lg_set_state (''Dispatched'', None, None, None, now) = dispatched_at now"
  by (rule ext) (simp add: lg_set_state_def dispatched_at_def coalesce_def)

lemma pull_rows_rest:
  "pull_rows be now e s rows us st = (Inr ls, st') \<Longrightarrow>
     node_leases st' = node_leases st \<and> work_outbox st' = work_outbox st \<and>
     map wq_key (work_queue st') = map wq_key (work_queue st) \<and>
     work_ledger st' = (case be of Sqlite \<Rightarrow> work_ledger st | Postgres \<Rightarrow>
       map (\<lambda>g. if (lg_work_id g, lg_attempt g) \<in> wl_key ` set ls then dispatched_at now g else g) (work_ledger st))"
proof (induction rows arbitrary: us st ls)
  case (Cons row rows)
  show ?case
  proof (cases "rowcount (still_pending row) (work_queue st) = 0")
    case False
    define st1 where "st1 = pull_dispatched be now row (pull_take (us 0, now, e) row st)"
    obtain ls1 where run: "pull_rows be now e s rows (\<lambda>n. us (Suc n)) st1 = (Inr ls1, st')"
      and ls: "wl_key ` set ls = insert (wq_key row) (wl_key ` set ls1)"
      using Cons.prems False
      by (auto simp: Let_def st1_def wl_key_def wq_key_def split: sum.splits prod.splits)
    have "map wq_key (work_queue (pull_take (us 0, now, e) row st)) = map wq_key (work_queue st)"
      by (simp add: pull_take_def map_key_update_where)
    then have "node_leases st1 = node_leases st \<and> work_outbox st1 = work_outbox st \<and>
        map wq_key (work_queue st1) = map wq_key (work_queue st) \<and>
        work_ledger st1 = (case be of Sqlite \<Rightarrow> work_ledger st | Postgres \<Rightarrow>
          map (\<lambda>g. if (lg_work_id g, lg_attempt g) = wq_key row then dispatched_at now g else g) (work_ledger st))"
      unfolding st1_def
      by (cases be) (auto simp: pull_dispatched_def pull_take_def update_work_state_def update_where_def
          dispatched_at_set_state wq_key_def)
    with Cons.IH [OF run] show ?thesis unfolding ls
      by (cases be) (auto simp: dispatched_at_def)
  qed (use Cons in \<open>auto simp: Let_def\<close>)
qed (auto split: store_backend.splits)

lemma pull_work_rest:
  assumes "pull_work be now us s l v st = (Inr ls, st')"
  shows "node_leases st' = node_leases st \<and> work_outbox st' = work_outbox st \<and>
     map wq_key (work_queue st') = map wq_key (work_queue st) \<and>
     work_ledger st' = (case be of Sqlite \<Rightarrow> work_ledger st | Postgres \<Rightarrow>
       map (\<lambda>g. if (lg_work_id g, lg_attempt g) \<in> wl_key ` set ls then dispatched_at now g else g) (work_ledger st))"
proof -
  have "pull_rows be now (now + max 0 v * 1000) s (pull_select s l (released now st)) us
      (st\<lparr>work_queue := released now st\<rparr>) = (Inr ls, st')"
    using assms by (auto simp: pull_work_def Let_def split: sum.splits prod.splits)
  from pull_rows_rest [OF this] show ?thesis by (cases be) (simp_all add: map_key_update_where)
qed

text \<open>
  (C4) A pull on a well-formed queue always returns. Among the rows of the site that are pending or whose lease has expired it delivers the oldest,
  in the order of their creation and as many as the limit allows (a negative limit, for SQLite no limit at all, is refused by PostgreSQL
  and excluded there), each with the payload of its row under the next fresh lease id and the same expiry, and stores it as leased with these.
  Of the other rows, those whose lease has expired, of any site, become pending without a lease, the rest stay as they are, and none is
  added or dropped. The ledger is unchanged on SQLite and shows the delivered attempts as Dispatched on PostgreSQL; node leases and outbox are unchanged.
\<close>

theorem pull_work_delivers:
  assumes "work_queue_ok (work_queue st)" and "be = Sqlite \<or> 0 \<le> l"
  shows "\<exists>rows st'. pull_work be now us s l v st = (Inr (map (\<lambda>i. \<lparr>wl_work_id = wq_work_id (rows ! i),
        wl_attempt = wq_attempt (rows ! i), wl_site_id = s, wl_payload = loads_or_empty (wq_payload (rows ! i)),
        wl_lease_id = us i, wl_lease_expires_at = now + max 0 v * 1000\<rparr>) [0..<length rows]), st') \<and>
    oldest_first l wq_created_at (filter (deliverable s now) (work_queue st)) rows \<and>
    map wq_key (work_queue st') = map wq_key (work_queue st) \<and>
    (\<forall>i < length rows. (rows ! i)\<lparr>wq_state := QLeased, wq_lease_id := Some (us i), wq_leased_at := Some now,
        wq_lease_expires_at := Some (now + max 0 v * 1000), wq_acked_at := None, wq_updated_at := now\<rparr> \<in> set (work_queue st')) \<and>
    (\<forall>r \<in> set (work_queue st) - set rows. (if overdue now r then r\<lparr>wq_state := QPending, wq_lease_id := None,
        wq_leased_at := None, wq_lease_expires_at := None, wq_acked_at := None, wq_updated_at := now\<rparr> else r) \<in> set (work_queue st')) \<and>
    work_ledger st' = (case be of Sqlite \<Rightarrow> work_ledger st | Postgres \<Rightarrow>
      map (\<lambda>g. if (lg_work_id g, lg_attempt g) \<in> wq_key ` set rows
        then g\<lparr>lg_state := ''Dispatched'', lg_updated_at := now, lg_state_updated_at := now\<rparr> else g) (work_ledger st)) \<and>
    node_leases st' = node_leases st \<and> work_outbox st' = work_outbox st"
proof -
  let ?rel = "\<lambda>r. if lease_lapsed now r then wq_release now r else r"
  define rows where "rows = sql_limit l (sort_key wq_created_at (filter (deliverable s now) (work_queue st)))"
  define e where "e = now + max 0 v * 1000"
  have pk: "primary_key wq_key (work_queue st)" and row_ok: "\<forall>r \<in> set (work_queue st). wq_row_ok r"
    using assms(1) by (simp_all add: work_queue_ok_def list_all_iff)
  have distinct: "distinct (work_queue st)" using pk unfolding primary_key_def by (simp add: distinct_map)
  then have oldest: "oldest_first l wq_created_at (filter (deliverable s now) (work_queue st)) rows"
    unfolding rows_def by (intro oldest_first_limit) simp
  then have sub: "set rows \<subseteq> set (filter (deliverable s now) (work_queue st))" unfolding oldest_first_def by blast
  obtain st' where run: "pull_work be now us s l v st = (Inr (map (\<lambda>i. lease_of_row s e (us i) (?rel (rows ! i))) [0..<length rows]), st')"
    and taken: "\<forall>i < length rows. find (\<lambda>r. wq_key r = wq_key (?rel (rows ! i))) (work_queue st') = Some (wq_take (us i, now, e) (?rel (rows ! i)))"
    and other: "\<forall>k. k \<notin> wq_key ` set (map ?rel rows) \<longrightarrow> find (\<lambda>r. wq_key r = k) (work_queue st') = find (\<lambda>r. wq_key r = k) (released now st)"
    using pull_work_spec [OF assms(1), of s l now v be us]
    unfolding pull_select_released rows_def [symmetric] e_def [symmetric] Let_def by (auto cong: map_cong)
  have keys: "wq_key ` set (map ?rel rows) = wq_key ` set rows" 
  proof -
    have "wq_key (?rel r) = wq_key r" for r by simp
    then show ?thesis unfolding set_map image_image by presburger
  qed
  have leases: "lease_of_row s e u (?rel r) = \<lparr>wl_work_id = wq_work_id r, wl_attempt = wq_attempt r, wl_site_id = s,
      wl_payload = loads_or_empty (wq_payload r), wl_lease_id = u, wl_lease_expires_at = e\<rparr>" for u r
    by (simp add: lease_of_row_def wq_release_def)
  have "wq_take (u, now, e) (?rel r) = r\<lparr>wq_state := QLeased, wq_lease_id := Some u, wq_leased_at := Some now,
      wq_lease_expires_at := Some e, wq_acked_at := None, wq_updated_at := now\<rparr>" if "r \<in> set rows" for u r
  proof (cases "lease_lapsed now r")
    case True
    then show ?thesis by (simp add: wq_take_def wq_release_def)
  next
    case False
    then have "wq_state r = QPending" "wq_row_ok r" using that sub row_ok by (auto simp: deliverable_def overdue_lapsed)
    then have "wq_acked_at r = None" by (simp add: wq_row_ok_def)
    with False show ?thesis by (cases r) (simp add: wq_take_def)
  qed
  then have stored: "\<forall>i < length rows. (rows ! i)\<lparr>wq_state := QLeased, wq_lease_id := Some (us i), wq_leased_at := Some now,
      wq_lease_expires_at := Some e, wq_acked_at := None, wq_updated_at := now\<rparr> \<in> set (work_queue st')"
    using taken find_Some_member by (metis nth_mem)
  have rest: "(if overdue now r then r\<lparr>wq_state := QPending, wq_lease_id := None, wq_leased_at := None,
      wq_lease_expires_at := None, wq_acked_at := None, wq_updated_at := now\<rparr> else r) \<in> set (work_queue st')"
    if r: "r \<in> set (work_queue st) - set rows" for r
  proof -
    have "wq_key r \<notin> wq_key ` set rows" using r sub pk by (auto simp: primary_key_def distinct_map dest: inj_onD)
    then have "find (\<lambda>x. wq_key x = wq_key r) (work_queue st') = Some (?rel r)"
      using other [unfolded keys, rule_format, of "wq_key r"] r find_key_member [OF pk, of r]
      by (simp add: q_release.lookup_update)
    then have "?rel r \<in> set (work_queue st')" by (rule find_Some_member)
    then show ?thesis unfolding overdue_lapsed wq_release_def by simp
  qed
  have delivered: "wl_key ` set (map (\<lambda>i. lease_of_row s e (us i) (?rel (rows ! i))) [0..<length rows]) = wq_key ` set rows"
    unfolding leases by (force simp: wl_key_def wq_key_def in_set_conv_nth image_iff)
  from pull_work_rest [OF run, unfolded delivered] show ?thesis
    using run [unfolded leases] oldest stored rest unfolding e_def dispatched_at_def by (intro exI [of _ rows] exI [of _ st']) simp
qed

section \<open>Delivered and finished work stays parked\<close>

text \<open>
  The contract of a row no pull may deliver: it is not pending, acknowledging or finishing it keeps
  it so, and while \<open>in_time\<close> holds no pull releases it. Proved once here, it gives exclusive delivery
  for rows leased until a given time and for finished rows.
\<close>

locale parked_row =
  fixes P :: "WorkQueueRow \<Rightarrow> bool"
    and in_time :: "time \<Rightarrow> bool"
  assumes not_pending: "P r \<Longrightarrow> wq_state r \<noteq> QPending"
    and ack_parked: "P r \<Longrightarrow> wq_lease_id r = Some l \<Longrightarrow> P (wq_ack t r)"
    and done_parked: "P r \<Longrightarrow> P (wq_done t r)"
    and not_lapsed: "P r \<Longrightarrow> in_time t \<Longrightarrow> \<not> lease_lapsed t r"
begin

definition at_key :: "string \<times> int \<Rightarrow> WorkQueueRow list \<Rightarrow> bool" where
  "at_key k q \<longleftrightarrow> (\<exists>r. find (\<lambda>r. wq_key r = k) q = Some r \<and> P r)"

lemma at_key_update:
  assumes "at_key k q" and "\<And>r. wq_key (f r) = wq_key r" and "\<And>r. P r \<Longrightarrow> p r \<Longrightarrow> P (f r)"
  shows "at_key k (update_where p f q)"
proof -
  obtain r where "find (\<lambda>r. wq_key r = k) q = Some r" "P r" using assms(1) by (auto simp: at_key_def)
  then have "find (\<lambda>r. wq_key r = k) (update_where p f q) = Some (if p r then f r else r)"
    using find_update_where [of p wq_key f k q] assms(2) by simp
  with \<open>P r\<close> assms(3) show ?thesis by (simp add: at_key_def)
qed

lemma ack_at_key:
  "at_key k q \<Longrightarrow> at_key k (update_where (\<lambda>r. wq_lease_id r = Some l) (wq_ack t) q)"
  by (rule at_key_update) (auto intro: ack_parked)

lemma released_at_key:
  "at_key k (work_queue st) \<Longrightarrow> in_time now \<Longrightarrow> at_key k (released now st)"
  by (rule at_key_update) (auto dest: not_lapsed)

lemma pull_parked:
  assumes ok: "work_queue_ok (work_queue st)" and at: "at_key k (work_queue st)" and "in_time now"
  shows "\<exists>ls st'. pull_work be now us s l v st = (Inr ls, st') \<and>
    at_key k (work_queue st') \<and> (\<forall>x \<in> set ls. wl_key x \<noteq> k)"
proof -
  define rows where "rows = pull_select s l (released now st)"
  obtain r where r: "find (\<lambda>r. wq_key r = k) (released now st) = Some r" "P r"
    using released_at_key [OF at assms(3)] by (auto simp: at_key_def)
  have pk: "primary_key wq_key (released now st)"
    using released_ok [OF ok] by (simp add: work_queue_ok_def)
  have notin: "k \<notin> wq_key ` set rows"
  proof
    assume "k \<in> wq_key ` set rows"
    then obtain x where "x \<in> set (released now st)" "wq_key x = k" "wq_state x = QPending"
      using pull_select_pending [of _ s l "released now st"] unfolding rows_def by blast
    then have "find (\<lambda>r. wq_key r = k) (released now st) = Some x"
      using find_key_member [OF pk] by blast
    with r \<open>wq_state x = QPending\<close> not_pending show False by simp
  qed
  obtain st' where run: "pull_work be now us s l v st = (Inr (map (\<lambda>i. lease_of_row s
        (now + max 0 v * 1000) (us i) (rows ! i)) [0..<length rows]), st')"
    and rest: "find (\<lambda>r. wq_key r = k) (work_queue st') = find (\<lambda>r. wq_key r = k) (released now st)"
    using pull_work_spec [OF ok, of s l now v be us] notin unfolding rows_def Let_def by blast
  have "wl_key (lease_of_row s e u x) = wq_key x" for e u x
    by (simp add: wl_key_def lease_of_row_def wq_key_def)
  then have "\<forall>x \<in> set (map (\<lambda>i. lease_of_row s (now + max 0 v * 1000) (us i) (rows ! i))
      [0..<length rows]). wl_key x \<noteq> k"
    using notin by (auto simp: image_iff)
  with run rest r show ?thesis unfolding at_key_def by auto
qed

lemma op_parked:
  assumes ok: "work_queue_ok (work_queue st)" and at: "at_key k (work_queue st)"
    and t: "in_time (op_time op)" and "\<not> enqueues k op"
  shows "at_key k (work_queue (snd (run_work_op op st))) \<and>
    (\<forall>x \<in> set (fst (run_work_op op st)). wl_key x \<noteq> k)"
proof (cases op)
  case (OpEnqueue now w a s p)
  with assms(4) have "(w, a) \<noteq> k" by simp
  with at OpEnqueue show ?thesis
    by (auto simp: at_key_def enqueue_work_def find_append find_delete_where split: option.splits)
next
  case (OpPull be now us s l v)
  with pull_parked [OF ok at, of now be us s l v] t show ?thesis by auto
next
  case (OpAck now ids)
  then show ?thesis
    using ack_work_inv [where Q = "\<lambda>st. at_key k (work_queue st)", of now st ids] at ack_at_key by simp
next
  case (OpAckItems now items)
  then show ?thesis
    using ack_work_items_inv [where Q = "\<lambda>st. at_key k (work_queue st)", of now st items] at ack_at_key
    by simp
next
  case (OpDone now w a)
  have "at_key k (update_where (\<lambda>r. wq_key r = (w, a)) (wq_done now) (work_queue st))"
    using at by (rule at_key_update) (auto intro: done_parked)
  with OpDone show ?thesis by (simp add: mark_work_done_def)
qed

lemma run_parked:
  assumes "work_queue_ok (work_queue st)" and "at_key k (work_queue st)"
    and "\<forall>op \<in> set ops. in_time (op_time op) \<and> \<not> enqueues k op"
  shows "\<forall>x \<in> set (fst (run_work_ops ops st)). wl_key x \<noteq> k"
  using assms
proof (induction ops arbitrary: st)
  case (Cons op ops)
  have "in_time (op_time op)" "\<not> enqueues k op" using Cons.prems(3) by auto
  note step = op_parked [OF Cons.prems(1,2) this]
  have "\<forall>x \<in> set (fst (run_work_ops ops (snd (run_work_op op st)))). wl_key x \<noteq> k"
    using Cons.IH [OF run_work_op_ok [OF Cons.prems(1)]] step Cons.prems(3) by auto
  with step show ?case by (auto simp: Let_def case_prod_unfold)
qed simp

end

interpretation park: parked_row "parked e" "\<lambda>t. t \<le> e" for e
  by unfold_locales (auto simp: parked_def wq_ack_def wq_done_def lease_lapsed_def)

interpretation finished: parked_row "\<lambda>r. wq_state r = QDone \<and> wq_lease_id r = None" "\<lambda>t. True"
  by unfold_locales (auto simp: wq_done_def lease_lapsed_def)

lemma pulled_row_parked:
  assumes ok: "work_queue_ok (work_queue st)" and run: "pull_work be now us s l v st = (Inr ls, st1)"
    and x: "x \<in> set ls"
  shows "park.at_key (wl_lease_expires_at x) (wl_key x) (work_queue st1)"
proof -
  define rows where "rows = pull_select s l (released now st)"
  define e where "e = now + max 0 v * 1000"
  obtain st' where run': "pull_work be now us s l v st =
      (Inr (map (\<lambda>i. lease_of_row s e (us i) (rows ! i)) [0..<length rows]), st')"
    and own: "\<forall>i < length rows. find (\<lambda>r. wq_key r = wq_key (rows ! i)) (work_queue st')
         = Some (wq_take (us i, now, e) (rows ! i))"
    using pull_work_spec [OF ok, of s l now v be us] unfolding rows_def e_def Let_def by blast
  from run' run x obtain i where "i < length rows" "x = lease_of_row s e (us i) (rows ! i)" "st' = st1"
    by auto
  with own show ?thesis
    by (auto simp: park.at_key_def wl_key_def lease_of_row_def wq_key_def parked_def wq_take_def)
qed

text \<open>
  (C3) Exclusive delivery: once a pull has delivered an item, no pull of any later run delivers the
  same work id and attempt again before the visibility timeout of that delivery has passed,
  whatever is enqueued, pulled, acknowledged or finished in between, short of the item itself being
  enqueued anew.
\<close>

theorem pull_work_exclusive:
  assumes "work_queue_ok (work_queue st)" and "pull_work be now us s l v st = (Inr ls, st1)"
    and "x \<in> set ls"
    and "\<forall>op \<in> set ops. op_time op \<le> wl_lease_expires_at x \<and> \<not> enqueues (wl_key x) op"
  shows "\<forall>y \<in> set (fst (run_work_ops ops st1)). wl_key y \<noteq> wl_key x"
proof -
  have "work_queue_ok (work_queue st1)"
    using pull_work_ok [OF assms(1), of be now us s l v] assms(2) by simp
  then show ?thesis
    using park.run_parked [OF _ pulled_row_parked [OF assms(1,2,3)] assms(4)] by blast
qed

definition demo_work_store :: WorkStore where
  "demo_work_store = enqueue_work 5 ''w'' 1 ''s'' [(''a'', JInt 1)] empty_work_store"

definition demo_uuids :: "nat \<Rightarrow> string" where
  "demo_uuids n = show_nat n"

lemma demo_work_store_ok: "work_queue_ok (work_queue demo_work_store)"
  by code_simp

theorem pull_work_delivers_witness:
  "\<exists>row st'. pull_work Sqlite 10 demo_uuids ''s'' 4 1 demo_work_store =
      (Inr [\<lparr>wl_work_id = wq_work_id row, wl_attempt = wq_attempt row, wl_site_id = ''s'',
        wl_payload = loads_or_empty (wq_payload row), wl_lease_id = ''0'', wl_lease_expires_at = 1010\<rparr>], st') \<and>
     row \<in> set (work_queue demo_work_store) \<and> work_ledger st' = []"
proof -
  have demo: "length (filter (deliverable ''s'' 10) (work_queue demo_work_store)) = 1 \<and> work_ledger demo_work_store = [] \<and>
      demo_uuids 0 = ''0''" by code_simp
  obtain rows st' where run: "pull_work Sqlite 10 demo_uuids ''s'' 4 1 demo_work_store =
      (Inr (map (\<lambda>i. \<lparr>wl_work_id = wq_work_id (rows ! i), wl_attempt = wq_attempt (rows ! i), wl_site_id = ''s'',
        wl_payload = loads_or_empty (wq_payload (rows ! i)), wl_lease_id = demo_uuids i, wl_lease_expires_at = 10 + max 0 1 * 1000\<rparr>)
        [0..<length rows]), st')"
    and rows: "oldest_first 4 wq_created_at (filter (deliverable ''s'' 10) (work_queue demo_work_store)) rows"
    and ledger: "work_ledger st' = work_ledger demo_work_store"
    using pull_work_delivers [OF demo_work_store_ok, of Sqlite 4 10 demo_uuids "''s''" 1] by auto
  have "length rows = 1" "set rows \<subseteq> set (work_queue demo_work_store)"
    using rows demo unfolding oldest_first_def by auto
  then have "rows ! 0 \<in> set (work_queue demo_work_store)" by (metis nth_mem subsetD zero_less_one)
  with run ledger demo \<open>length rows = 1\<close> show ?thesis by (intro exI [of _ "rows ! 0"] exI [of _ st']) simp
qed

theorem pull_work_exclusive_witness:
  "\<exists>x st1. pull_work Sqlite 10 demo_uuids ''s'' 4 1 demo_work_store = (Inr [x], st1) \<and>
     wl_key x = (''w'', 1) \<and>
     wl_key x \<notin> wl_key ` set (fst (run_work_ops
        [OpAck 20 [''0''], OpPull Sqlite 900 demo_uuids ''s'' 4 1] st1))"
proof -
  define x where "x = \<lparr>wl_work_id = ''w'', wl_attempt = 1, wl_site_id = ''s'',
      wl_payload = JObj [(''a'', JInt 1)], wl_lease_id = ''0'', wl_lease_expires_at = 1010\<rparr>"
  define ops where "ops = [OpAck 20 [''0''], OpPull Sqlite 900 demo_uuids ''s'' 4 1]"
  obtain st1 where run: "pull_work Sqlite 10 demo_uuids ''s'' 4 1 demo_work_store = (Inr [x], st1)"
  proof -
    have "fst (pull_work Sqlite 10 demo_uuids ''s'' 4 1 demo_work_store) = Inr [x]"
      unfolding x_def by code_simp
    then show ?thesis using that by (metis prod.collapse)
  qed
  have "\<forall>op \<in> set ops. op_time op \<le> wl_lease_expires_at x \<and> \<not> enqueues (wl_key x) op"
    by (simp add: ops_def x_def)
  from pull_work_exclusive [OF demo_work_store_ok run _ this]
  have "wl_key x \<notin> wl_key ` set (fst (run_work_ops ops st1))" by auto
  moreover have "wl_key x = (''w'', 1)" by (simp add: x_def wl_key_def)
  ultimately show ?thesis using run unfolding ops_def by blast
qed

text \<open>
  (C6) Finished work is never delivered again: after \<^verbatim>\<open>mark_work_done\<close> on a queued item no run of
  queue operations, however long, delivers it unless it is enqueued anew.
\<close>

theorem done_work_never_delivered:
  assumes "work_queue_ok (work_queue st)" and "exists_row (\<lambda>r. wq_key r = (w, a)) (work_queue st)"
    and "\<forall>op \<in> set ops. \<not> enqueues (w, a) op"
  shows "\<forall>y \<in> set (fst (run_work_ops ops (mark_work_done now w a st))). wl_key y \<noteq> (w, a)"
proof -
  have "finished.at_key (w, a) (work_queue (mark_work_done now w a st))"
    using assms(2) unfolding exists_row_find
    by (auto simp: finished.at_key_def mark_work_done_def q_done.lookup_update_key wq_done_def)
  then show ?thesis
    using finished.run_parked [OF mark_work_done_ok [OF assms(1)]] assms(3) by blast
qed

theorem done_work_never_delivered_witness:
  "(''w'', 1) \<notin> wl_key ` set (fst (run_work_ops [OpPull Postgres 99 demo_uuids ''s'' 4 1]
     (mark_work_done 20 ''w'' 1 demo_work_store)))"
proof -
  have "exists_row (\<lambda>r. wq_key r = (''w'', 1)) (work_queue demo_work_store)" by code_simp
  from done_work_never_delivered [OF demo_work_store_ok this,
      of "[OpPull Postgres 99 demo_uuids ''s'' 4 1]" 20]
  show ?thesis by auto
qed

text \<open>
  Every run of queue operations from the empty store keeps the queue well formed: work id and
  attempt stay a primary key, a row carries a lease id and an expiry exactly while it is leased or
  acknowledged, and pending rows carry no trace of an earlier delivery.
\<close>

theorem work_queue_reachable_ok: "work_queue_ok (work_queue (snd (run_work_ops ops empty_work_store)))"
  by (rule run_work_ops_ok) (simp add: empty_work_store_def work_queue_ok_def primary_key_def)

section \<open>Acknowledgements\<close>

definition item_lease_id :: "json \<Rightarrow> string" where
  "item_lease_id item = (case as_dict item of None \<Rightarrow> []
     | Some d \<Rightarrow> strip (py_str (py_or (dict_get d ''lease_id'') (JStr []))))"

definition unique_leases :: "WorkQueueRow list \<Rightarrow> bool" where
  "unique_leases q \<longleftrightarrow> (\<forall>r \<in> set q. \<forall>r' \<in> set q.
     wq_lease_id r \<noteq> None \<longrightarrow> wq_lease_id r = wq_lease_id r' \<longrightarrow> wq_key r = wq_key r')"

definition may_ack :: "json list \<Rightarrow> WorkQueueRow \<Rightarrow> bool" where
  "may_ack items r \<longleftrightarrow> (\<exists>item \<in> set items. \<exists>e. parse_envelope item = Some e \<and>
     parse_envelope (loads_or_empty (wq_payload r)) = Some e \<and>
     wq_lease_id r = Some (item_lease_id item))"

lemma wq_ack_fields [simp]:
  "wq_lease_id (wq_ack t r) = wq_lease_id r" "wq_payload (wq_ack t r) = wq_payload r"
  "wq_ack t (wq_ack t r) = wq_ack t r"
  by (simp_all add: wq_ack_def)

lemma may_ack_ack [simp]: "may_ack items (wq_ack t r) = may_ack items r"
  by (simp add: may_ack_def)

lemma unique_leases_ack:
  assumes "unique_leases q"
  shows "unique_leases (update_where p (wq_ack t) q)"
proof -
  have same: "wq_lease_id (if p r then wq_ack t r else r) = wq_lease_id r"
    "wq_key (if p r then wq_ack t r else r) = wq_key r" for r by simp_all
  show ?thesis
    using assms unfolding unique_leases_def set_update_where ball_simps same .
qed

lemma ack_work_item_accepted:
  assumes run: "ack_work_item now item st = Inr (n, st')" and "st' \<noteq> st"
  shows "\<exists>row e. find (\<lambda>r. wq_lease_id r = Some (item_lease_id item)) (work_queue st) = Some row \<and>
    parse_envelope item = Some e \<and> parse_envelope (loads_or_empty (wq_payload row)) = Some e \<and>
    st' = st\<lparr>work_queue := update_where (\<lambda>r. wq_lease_id r = Some (item_lease_id item)) (wq_ack now)
      (work_queue st)\<rparr>"
proof -
  obtain d where d: "as_dict item = Some d"
    using assms by (cases "as_dict item") (simp_all add: ack_work_item_def)
  have lid: "strip (py_str (py_or (dict_get d ''lease_id'') (JStr []))) = item_lease_id item"
    using d by (simp add: item_lease_id_def)
  note body = run [unfolded ack_work_item_def d option.case Let_def lid]
  have ne: "item_lease_id item \<noteq> []" using body assms(2) by auto
  obtain e where e: "parse_envelope item = Some e" using body ne assms(2) by (cases "parse_envelope item") auto
  obtain row where row: "find (\<lambda>r. wq_lease_id r = Some (item_lease_id item)) (work_queue st) = Some row"
    using body ne e assms(2)
    by (cases "find (\<lambda>r. wq_lease_id r = Some (item_lease_id item)) (work_queue st)") auto
  have env: "parse_envelope (loads_or_empty (wq_payload row)) = Some e"
    using body ne e row assms(2) by (simp split: if_splits)
  have "st' = st\<lparr>work_queue := update_where (\<lambda>r. wq_lease_id r = Some (item_lease_id item)) (wq_ack now)
      (work_queue st)\<rparr>"
    using body ne e row env assms(2) by (simp add: rbind_Inr_iff split: if_splits)
  with row e env show ?thesis by blast
qed

lemma ack_work_item_row:
  assumes u: "unique_leases (work_queue st)" and pk: "primary_key wq_key (work_queue st)"
    and run: "ack_work_item now item st = Inr (n, st')" and r: "r \<in> set (work_queue st)"
  shows "find (\<lambda>x. wq_key x = wq_key r) (work_queue st') = Some r \<or>
    (find (\<lambda>x. wq_key x = wq_key r) (work_queue st') = Some (wq_ack now r) \<and> may_ack [item] r)"
proof (cases "st' = st")
  case True
  with find_key_member [OF pk r] show ?thesis by simp
next
  case False
  let ?lid = "item_lease_id item"
  obtain row e where row: "find (\<lambda>r. wq_lease_id r = Some ?lid) (work_queue st) = Some row"
    and env: "parse_envelope item = Some e" "parse_envelope (loads_or_empty (wq_payload row)) = Some e"
    and st': "st' = st\<lparr>work_queue :=
      update_where (\<lambda>r. wq_lease_id r = Some ?lid) (wq_ack now) (work_queue st)\<rparr>"
    using ack_work_item_accepted [OF run False] by blast
  have found: "find (\<lambda>x. wq_key x = wq_key r) (work_queue st')
      = Some (if wq_lease_id r = Some ?lid then wq_ack now r else r)"
    using find_key_member [OF pk r] by (simp add: st' q_ack.lookup_update)
  show ?thesis
  proof (cases "wq_lease_id r = Some ?lid")
    case True
    have "row \<in> set (work_queue st)" "wq_lease_id row = Some ?lid"
      using row by (auto simp: find_Some_iff)
    with u [unfolded unique_leases_def, rule_format, OF r, of row] True
    have "wq_key r = wq_key row" by simp
    with primary_key_unique [OF pk r \<open>row \<in> set (work_queue st)\<close>] have "r = row" by simp
    with found True env show ?thesis by (simp add: may_ack_def)
  qed (use found in simp)
qed

lemma ack_items_row:
  assumes "unique_leases (work_queue st)" and "primary_key wq_key (work_queue st)"
    and "ack_items_loop now items st = Inr (n, st')" and "r \<in> set (work_queue st)"
  shows "find (\<lambda>x. wq_key x = wq_key r) (work_queue st') = Some r \<or>
    (find (\<lambda>x. wq_key x = wq_key r) (work_queue st') = Some (wq_ack now r) \<and> may_ack items r)"
  using assms
proof (induction items arbitrary: st n r)
  case Nil
  then show ?case using find_key_member [OF Nil.prems(2,4)] by simp
next
  case (Cons i items)
  obtain m st1 k where i: "ack_work_item now i st = Inr (m, st1)"
    and rest: "ack_items_loop now items st1 = Inr (k, st')"
    using Cons.prems(3) by (auto simp: rbind_Inr_iff)
  have u1: "unique_leases (work_queue st1)" and pk1: "primary_key wq_key (work_queue st1)"
    using ack_work_item_cases [OF i] Cons.prems(1,2) by (auto simp: unique_leases_ack q_ack.pk_update)
  have mono: "may_ack items x \<Longrightarrow> may_ack (i # items) x" "may_ack [i] x \<Longrightarrow> may_ack (i # items) x" for x
    by (auto simp: may_ack_def)
  obtain r1 where r1: "find (\<lambda>x. wq_key x = wq_key r) (work_queue st1) = Some r1"
    and c: "r1 = r \<or> (r1 = wq_ack now r \<and> may_ack [i] r)"
    using ack_work_item_row [OF Cons.prems(1,2) i Cons.prems(4)] by auto
  have mem: "r1 \<in> set (work_queue st1)" and key: "wq_key r1 = wq_key r" using find_key_Some [OF r1] by auto
  show ?case using Cons.IH [OF u1 pk1 rest mem, unfolded key] c mono [of r] by auto
qed

text \<open>
  Acknowledging checks the envelope: with lease ids unique in the queue, the only rows
  \<^verbatim>\<open>ack_work_items\<close> changes are those whose queued payload carries the very mutation envelope of an
  item that also names their lease, and it changes them by marking them acknowledged.
\<close>

theorem ack_work_items_authorised:
  assumes "unique_leases (work_queue st)" and "primary_key wq_key (work_queue st)"
    and "r \<in> set (work_queue st)"
  shows "find (\<lambda>x. wq_key x = wq_key r) (work_queue (snd (ack_work_items now items st))) = Some r \<or>
    (find (\<lambda>x. wq_key x = wq_key r) (work_queue (snd (ack_work_items now items st)))
       = Some (wq_ack now r) \<and> may_ack items r)"
proof (cases "ack_items_loop now items st")
  case (Inl e)
  with find_key_member [OF assms(2,3)] show ?thesis by (simp add: ack_work_items_def)
next
  case (Inr p)
  then obtain n st' where p: "ack_items_loop now items st = Inr (n, st')" by (cases p) auto
  from ack_items_row [OF assms(1,2) p assms(3)] p show ?thesis by (simp add: ack_work_items_def)
qed

theorem ack_work_items_authorised_witness:
  "let st = snd (pull_work Sqlite 10 demo_uuids ''s'' 4 1 demo_work_store); r = hd (work_queue st) in
    find (\<lambda>x. wq_key x = wq_key r) (work_queue (snd (ack_work_items 12 [JInt 3] st))) = Some r \<or>
    (find (\<lambda>x. wq_key x = wq_key r) (work_queue (snd (ack_work_items 12 [JInt 3] st)))
       = Some (wq_ack 12 r) \<and> may_ack [JInt 3] r)"
proof -
  define st where "st = snd (pull_work Sqlite 10 demo_uuids ''s'' 4 1 demo_work_store)"
  have "unique_leases (work_queue st)" unfolding st_def by code_simp
  moreover have "primary_key wq_key (work_queue st)" unfolding st_def by code_simp
  moreover have "work_queue st \<noteq> []" unfolding st_def by code_simp
  ultimately show ?thesis
    using ack_work_items_authorised [of st "hd (work_queue st)" 12 "[JInt 3]"]
    unfolding st_def [symmetric] Let_def by simp
qed

section \<open>Rescheduling supersedes the old attempt\<close>

interpretation lg_state: keyed_update lg_work_id lg_set_state
  by unfold_locales (simp add: lg_set_state_def split: prod.splits)

interpretation lg_res: keyed_update lg_work_id lg_reschedule
  by unfold_locales (simp add: lg_reschedule_def split: prod.splits)

interpretation lg_ups: keyed_update lg_work_id lg_upsert
  by unfold_locales (simp add: lg_upsert_def split: prod.splits)

interpretation o_pub: keyed_update ob_key ob_published
  by unfold_locales (simp add: ob_published_def ob_key_def)

interpretation o_att: keyed_update ob_key ob_attempted
  by unfold_locales (simp add: ob_attempted_def ob_key_def split: prod.splits)

lemma ob_key_new [simp]: "ob_key (new_outbox_row now w a s p) = (w, a)"
  by (simp add: new_outbox_row_def ob_key_def)

text \<open>How a call of \<^verbatim>\<open>reschedule_work\<close> can succeed.\<close>

lemma reschedule_work_success:
  assumes "reschedule_work isofmt now w a cid ce st = (Inr (Some n), st')"
  shows "n = a + 1 \<and> (\<exists>row old ids.
      find (\<lambda>r. ob_key r = (w, a)) (work_outbox st) = Some row \<and>
      as_dict (loads_or_empty (ob_payload row)) = Some old \<and>
      \<not> exists_row (\<lambda>r. ob_key r = (w, a + 1)) (work_outbox st) \<and>
      exists_row (\<lambda>r. lg_work_id r = w \<and> lg_attempt r = a) (work_ledger st) \<and>
      st' = st\<lparr>work_ledger := update_where (\<lambda>r. lg_work_id r = w \<and> lg_attempt r = a)
                 (lg_reschedule (a + 1, ids)) (work_ledger st),
               work_outbox := work_outbox st @ [new_outbox_row now w (a + 1) (ob_site_id row)
                 (reschedule_payload w (ob_site_id row) (a + 1) cid ce (isofmt now) old)]\<rparr>)"
proof -
  obtain row where row: "find (\<lambda>r. ob_key r = (w, a)) (work_outbox st) = Some row"
    using assms by (cases "find (\<lambda>r. ob_key r = (w, a)) (work_outbox st)")
      (simp_all add: reschedule_work_def)
  obtain old where old: "as_dict (loads_or_empty (ob_payload row)) = Some old"
    using assms row by (cases "as_dict (loads_or_empty (ob_payload row))")
      (simp_all add: reschedule_work_def)
  define payload where "payload = reschedule_payload w (ob_site_id row) (a + 1) cid ce (isofmt now) old"
  define binds where "binds = rbind (bind_text (dict_get payload ''controller_id'')) (\<lambda>c.
      rbind (bind_int (dict_get payload ''controller_epoch'')) (\<lambda>e.
      rbind (bind_text (dict_get payload ''operation_id'')) (\<lambda>oid. Inr (c, e, oid))))"
  note body = assms [unfolded reschedule_work_def row option.case old Let_def
      payload_def [symmetric] binds_def [symmetric]]
  obtain c e oid where ids: "binds = Inr (c, e, oid)" using body by (cases binds) auto
  have led: "exists_row (\<lambda>r. lg_work_id r = w \<and> lg_attempt r = a) (work_ledger st)"
    using body ids by (auto simp flip: rowcount_pos_iff split: if_splits)
  then have cnt: "rowcount (\<lambda>r. lg_work_id r = w \<and> lg_attempt r = a) (work_ledger st) \<noteq> 0"
    by (simp flip: rowcount_pos_iff)
  have fresh: "\<not> exists_row (\<lambda>r. ob_key r = (w, a + 1)) (work_outbox st)"
    using body ids cnt by (auto split: if_splits)
  from body ids cnt fresh have "n = a + 1" "st' = st\<lparr>work_ledger :=
      update_where (\<lambda>r. lg_work_id r = w \<and> lg_attempt r = a)
                 (lg_reschedule (a + 1, c, e, oid, now)) (work_ledger st),
      work_outbox := work_outbox st @ [new_outbox_row now w (a + 1) (ob_site_id row) payload]\<rparr>"
    by auto
  with row old fresh led show ?thesis unfolding payload_def by blast
qed

lemma reschedule_work_no_ledger:
  assumes "\<not> exists_row (\<lambda>r. lg_work_id r = w \<and> lg_attempt r = a) (work_ledger st)"
  shows "\<exists>res. reschedule_work isofmt now w a cid ce st = (res, st) \<and> (\<forall>n. res \<noteq> Inr (Some n))"
proof -
  have "rowcount (\<lambda>r. lg_work_id r = w \<and> lg_attempt r = a) (work_ledger st) = 0"
    using assms by (simp flip: rowcount_pos_iff)
  then show ?thesis by (auto simp: reschedule_work_def Let_def split: option.splits sum.splits)
qed

lemma lg_reschedule_attempt [simp]: "lg_attempt (lg_reschedule (n, ids) r) = n"
  by (simp add: lg_reschedule_def split: prod.splits)

text \<open>
  (C5) A successful reschedule supersedes the old attempt for good: the number it returns is the old
  attempt plus one, the outbox gains exactly one unpublished row for it and keeps its key, and from
  then on a result reported for the old attempt changes nothing in the ledger and a second
  reschedule of the old attempt, by any controller, fails and writes nothing.
\<close>

theorem reschedule_supersedes:
  assumes "reschedule_work isofmt now w a cid ce st = (Inr (Some n), st')"
    and "primary_key ob_key (work_outbox st)"
  shows "n = a + 1 \<and> primary_key ob_key (work_outbox st') \<and>
    (\<exists>row. work_outbox st' = work_outbox st @ [row] \<and> ob_key row = (w, n) \<and>
       ob_state row = Unpublished \<and> dict_get (case ob_payload row of JDump (JObj d) \<Rightarrow> d | _ \<Rightarrow> [])
         ''attempt'' = JInt n) \<and>
    update_work_state t w a s node gen res st' = (False, st') \<and>
    (\<exists>out. reschedule_work isofmt t' w a cid' ce' st' = (out, st') \<and> (\<forall>m. out \<noteq> Inr (Some m)))"
proof -
  obtain row :: WorkOutboxRow and old ids where n: "n = a + 1"
    and fresh: "\<not> exists_row (\<lambda>r. ob_key r = (w, a + 1)) (work_outbox st)"
    and st': "st' = st\<lparr>work_ledger := update_where (\<lambda>r. lg_work_id r = w \<and> lg_attempt r = a)
                 (lg_reschedule (a + 1, ids)) (work_ledger st),
               work_outbox := work_outbox st @ [new_outbox_row now w (a + 1) (ob_site_id row)
                 (reschedule_payload w (ob_site_id row) (a + 1) cid ce (isofmt now) old)]\<rparr>"
    using reschedule_work_success [OF assms(1)] by blast
  have gone: "\<not> exists_row (\<lambda>r. lg_work_id r = w \<and> lg_attempt r = a) (work_ledger st')"
    unfolding st' exists_row_iff
    by (auto simp: set_update_where split: if_splits dest!: arg_cong [where f = lg_attempt])
  then have "update_where (\<lambda>r. lg_work_id r = w \<and> lg_attempt r = a) f (work_ledger st') = work_ledger st'" for f
    by (auto simp: update_where_def exists_row_iff intro!: map_idI)
  then have "update_work_state t w a s node gen res st' = (False, st')"
    using gone by (simp add: update_work_state_def Let_def flip: rowcount_pos_iff)
  moreover have "dict_get (reschedule_payload w (ob_site_id row) (a + 1) cid ce (isofmt now) old) ''attempt''
      = JInt (a + 1)"
    by (simp add: reschedule_payload_def Let_def split: option.splits list.splits)
  moreover have "primary_key ob_key (work_outbox st')"
    using primary_key_insert [OF assms(2)] fresh by (simp add: st')
  ultimately show ?thesis
    using reschedule_work_no_ledger [OF gone, of isofmt t' cid' ce'] n
    by (simp add: st' new_outbox_row_def ob_key_def)
qed

definition demo_sched_store :: WorkStore where
  "demo_sched_store = enqueue_work_outbox 1 ''w'' 3 ''s'' [(''k'', JInt 7)]
     (upsert_work_ledger 1 ''w'' 3 ''s'' ''Pending'' (Some ''c'') (Some 2) None None empty_work_store)"

theorem reschedule_supersedes_witness:
  "\<exists>st'. reschedule_work show_int 9 ''w'' 3 (Some ''c'') (Some 4) demo_sched_store = (Inr (Some 4), st') \<and>
    primary_key ob_key (work_outbox st') \<and>
    update_work_state 10 ''w'' 3 ''Completed'' None None None st' = (False, st')"
proof -
  have "fst (reschedule_work show_int 9 ''w'' 3 (Some ''c'') (Some 4) demo_sched_store) = Inr (Some 4)"
    by code_simp
  then obtain st' where run: "reschedule_work show_int 9 ''w'' 3 (Some ''c'') (Some 4) demo_sched_store
      = (Inr (Some 4), st')"
    by (metis prod.collapse)
  have "primary_key ob_key (work_outbox demo_sched_store)" by code_simp
  from reschedule_supersedes [OF run this, of 10 "''Completed''" None None None] run show ?thesis by blast
qed

section \<open>Node leases\<close>

datatype lease_op =
    LAcquire time string string string string int int int
  | LRenew time string string string

fun run_lease_op :: "lease_op \<Rightarrow> WorkStore \<Rightarrow> WorkStore" where
  "run_lease_op (LAcquire now u s n sess ttl ra ep) st = snd (acquire_lease now u s n sess ttl ra ep st)"
| "run_lease_op (LRenew now n sess lid) st = snd (renew_lease now n sess lid st)"

text \<open>The operations that may end a lease: acquiring for its node, or renewing with its credentials.\<close>

fun touches_lease :: "NodeLease \<Rightarrow> lease_op \<Rightarrow> bool" where
  "touches_lease l (LAcquire now u s n sess ttl ra ep) = (n = nl_node_id l)"
| "touches_lease l (LRenew now n sess lid) =
     (n = nl_node_id l \<and> sess = nl_session_id l \<and> lid = nl_lease_id l)"

interpretation nl_ren: keyed_update nl_node_id nl_renew
  by unfold_locales (simp add: nl_renew_def)

lemma lease_op_keeps:
  assumes "find (\<lambda>x. nl_node_id x = nl_node_id l) (node_leases st) = Some l" and "\<not> touches_lease l op"
  shows "find (\<lambda>x. nl_node_id x = nl_node_id l) (node_leases (run_lease_op op st)) = Some l"
proof (cases op)
  case (LAcquire now u s n sess ttl ra ep)
  with assms show ?thesis
    by (simp add: acquire_lease_def Let_def find_append find_delete_where)
next
  case (LRenew now n sess lid)
  show ?thesis
  proof (cases "n = nl_node_id l")
    case True
    with assms LRenew show ?thesis by (auto simp: renew_lease_def)
  next
    case False
    with assms LRenew show ?thesis
      by (auto simp: renew_lease_def nl_ren.lookup_update_key find_delete_where split: option.splits)
  qed
qed

text \<open>
  A node lease belongs to its session: after \<^verbatim>\<open>acquire_lease\<close>, whatever other nodes do and whatever
  other sessions try to renew, the holder's renewal before the expiry succeeds, returns the same
  lease id and epoch with the expiry moved to a full TTL from now, and the store holds exactly what
  was returned; at the expiry or later it answers \<^verbatim>\<open>expired\<close> and the lease is gone.
\<close>

theorem lease_holder_renews:
  assumes "acquire_lease now u s n sess ttl ra ep st = (l, st1)"
    and "\<forall>op \<in> set ops. \<not> touches_lease l op"
  shows "let st2 = fold run_lease_op ops st1; (res, st3) = renew_lease t n sess u st2 in
    (if t < now + ttl * 1000
     then res = Inr (l\<lparr>nl_last_renew_at := t, nl_expires_at := t + ttl * 1000\<rparr>) \<and>
       find (\<lambda>x. nl_node_id x = n) (node_leases st3) =
         Some (l\<lparr>nl_last_renew_at := t, nl_expires_at := t + ttl * 1000\<rparr>)
     else res = Inl Expired \<and> find (\<lambda>x. nl_node_id x = n) (node_leases st3) = None)"
proof -
  have l: "nl_node_id l = n" "nl_session_id l = sess" "nl_lease_id l = u"
    "nl_expires_at l = now + ttl * 1000" "nl_lease_ttl_ms l = ttl"
    using assms(1) by (auto simp: acquire_lease_def Let_def)
  have "find (\<lambda>x. nl_node_id x = n) (node_leases st1) = Some l"
    using assms(1) l by (auto simp: acquire_lease_def Let_def find_append find_None_iff
        split: option.splits dest!: find_key_Some)
  then have "find (\<lambda>x. nl_node_id x = n) (node_leases (fold run_lease_op ops st1)) = Some l"
    using assms(2) lease_op_keeps [of l, unfolded l(1)] by (induction ops arbitrary: st1) auto
  then show ?thesis
    using l by (auto simp: renew_lease_def nl_ren.lookup_update_key nl_renew_def Let_def find_None_iff)
qed

theorem lease_holder_renews_witness:
  "let st1 = snd (acquire_lease 0 ''u'' ''s'' ''n'' ''x'' 5 2 1 empty_work_store);
       st2 = fold run_lease_op [LRenew 3 ''n'' ''y'' ''u'', LRenew 9999 ''n'' ''x'' ''other''] st1
   in fst (renew_lease 4999 ''n'' ''x'' ''u'' st2) =
      Inr ((fst (acquire_lease 0 ''u'' ''s'' ''n'' ''x'' 5 2 1 empty_work_store))
             \<lparr>nl_last_renew_at := 4999, nl_expires_at := 9999\<rparr>)"
proof -
  obtain l st1 where a: "acquire_lease 0 ''u'' ''s'' ''n'' ''x'' 5 2 1 empty_work_store = (l, st1)"
    by (metis surj_pair)
  define ops where "ops = [LRenew 3 ''n'' ''y'' ''u'', LRenew 9999 ''n'' ''x'' ''other'']"
  have "\<forall>op \<in> set ops. \<not> touches_lease l op"
    using a by (auto simp: ops_def acquire_lease_def Let_def)
  from lease_holder_renews [OF a this, of 4999] show ?thesis
    unfolding a ops_def [symmetric] by (auto simp: Let_def case_prod_unfold)
qed

end
