(* ===== verification/Work_Control.thy ===== *)
theory Work_Control
  imports Work_Store
begin

text \<open>
  The two control loops over the work tables: the outbox publisher (\<^verbatim>\<open>OutboxPublisher.run_once\<close> in
  \<^verbatim>\<open>ae/transport/outbox_publisher.py\<close>), which moves rows of the outbox to JetStream under the leader's
  authority, and the watchdog (\<^verbatim>\<open>WorkWatchdog.run_once\<close> in \<^verbatim>\<open>ae/controller/work_watchdog.py\<close>), which
  reschedules work that stays dispatched or running for too long.

  What the authority answers at the \<open>n\<close>-th question of a run, and whether the \<open>n\<close>-th publication raises,
  are functions in the environment argument; the run records what it published.
\<close>

section \<open>The outbox publisher\<close>

text \<open>An authority query: no authority configured, a snapshot that raised, or its leadership flag.\<close>

datatype authority_answer = NoAuthority | SnapshotRaises | IsLeader bool

definition outbox_is_leader :: "authority_answer \<Rightarrow> bool" where
  "outbox_is_leader a = (case a of NoAuthority \<Rightarrow> True | SnapshotRaises \<Rightarrow> False | IsLeader b \<Rightarrow> b)"

record outbox_env =
  oc_authority :: "nat \<Rightarrow> authority_answer"
  oc_err :: "nat \<Rightarrow> string option"
  oc_now :: time

record js_publication =
  jp_subject :: string
  jp_payload :: json
  jp_msg_id :: string
  jp_ok :: bool

record OutboxRun =
  or_store :: WorkStore
  or_queries :: nat
  or_published :: "js_publication list"

definition ask_leader :: "outbox_env \<Rightarrow> OutboxRun \<Rightarrow> bool \<times> OutboxRun" where
  "ask_leader env r = (outbox_is_leader (oc_authority env (or_queries r)), r\<lparr>or_queries := or_queries r + 1\<rparr>)"

definition entry_msg_id :: "WorkOutboxEntry \<Rightarrow> string result" where
  "entry_msg_id e =
     (if oe_publish_msg_id e \<noteq> [] then Inr (oe_publish_msg_id e)
      else case as_dict (oe_payload e) of
        None \<Rightarrow> Inl AttributeError
      | Some d \<Rightarrow> Inr (py_str (py_or (dict_get d ''operation_id'')
          (JStr (oe_work_id e @ '':'' @ show_int (oe_attempt e))))))"

definition entry_subject :: "WorkOutboxEntry \<Rightarrow> string" where
  "entry_subject e =
     (if oe_publish_subject e \<noteq> [] then oe_publish_subject e else ''k1s.v1.work.site.'' @ oe_site_id e)"

definition publish_entry :: "outbox_env \<Rightarrow> WorkOutboxEntry \<Rightarrow> string \<Rightarrow> OutboxRun \<Rightarrow> string option \<times> OutboxRun" where
  "publish_entry env e mid r =
     (let err = oc_err env (length (or_published r))
      in (err, r\<lparr>or_published := or_published r @
            [\<lparr>jp_subject = entry_subject e, jp_payload = oe_payload e, jp_msg_id = mid, jp_ok = (err = None)\<rparr>]\<rparr>))"

definition settle_published :: "outbox_env \<Rightarrow> WorkOutboxEntry \<Rightarrow> OutboxRun \<Rightarrow> OutboxRun" where
  "settle_published env e r =
     r\<lparr>or_store := snd (update_work_state (oc_now env) (oe_work_id e) (oe_attempt e) ''Dispatched'' None None None
          (mark_outbox_published (oc_now env) (oe_work_id e) (oe_attempt e) (or_store r)))\<rparr>"

definition settle_failed :: "outbox_env \<Rightarrow> WorkOutboxEntry \<Rightarrow> string \<Rightarrow> OutboxRun \<Rightarrow> OutboxRun" where
  "settle_failed env e err r =
     r\<lparr>or_store := record_outbox_publish_attempt (oc_now env) (oe_work_id e) (oe_attempt e) (Some err)
          (or_store r)\<rparr>"

fun publish_entries :: "outbox_env \<Rightarrow> WorkOutboxEntry list \<Rightarrow> (OutboxRun, unit) eff" where
  "publish_entries env [] r = (Inr (), r)"
| "publish_entries env (e # es) r =
     (case ask_leader env r of
        (False, r1) \<Rightarrow> (Inr (), r1)
      | (True, r1) \<Rightarrow>
          (case entry_msg_id e of
             Inl err \<Rightarrow> (Inl err, r1)
           | Inr mid \<Rightarrow>
               (case publish_entry env e mid r1 of
                  (Some err, r2) \<Rightarrow> publish_entries env es (settle_failed env e err r2)
                | (None, r2) \<Rightarrow>
                    (case ask_leader env r2 of
                       (False, r3) \<Rightarrow> (Inr (), r3)
                     | (True, r3) \<Rightarrow> publish_entries env es (settle_published env e r3)))))"

definition outbox_run_once :: "outbox_env \<Rightarrow> int \<Rightarrow> (OutboxRun, unit) eff" where
  "outbox_run_once env batch_size r =
     (case ask_leader env r of
        (False, r1) \<Rightarrow> (Inr (), r1)
      | (True, r1) \<Rightarrow>
          (case list_outbox_unpublished batch_size (or_store r1) of
             Inl err \<Rightarrow> (Inl err, r1)
           | Inr es \<Rightarrow> publish_entries env es r1))"

section \<open>The watchdog\<close>

record WorkWatchdogConfig =
  wd_dispatched_max :: time
  wd_running_max :: time

definition watchdog_reschedule ::
  "(time \<Rightarrow> string) \<Rightarrow> time \<Rightarrow> ControllerMutationIdentity \<Rightarrow> WorkLedgerEntry \<Rightarrow> (WorkStore, unit) eff" where
  "watchdog_reschedule isofmt now identity entry st =
     (case reschedule_work isofmt now (le_work_id entry) (le_attempt entry)
             (Some (cmi_controller_id identity)) (Some (cmi_controller_epoch identity)) st of
        (Inl err, st') \<Rightarrow> (Inl err, st') | (Inr _, st') \<Rightarrow> (Inr (), st'))"

definition watchdog_pass ::
  "(time \<Rightarrow> string) \<Rightarrow> time \<Rightarrow> ControllerMutationIdentity \<Rightarrow> string \<Rightarrow> time \<Rightarrow> (WorkStore, unit) eff" where
  "watchdog_pass isofmt now identity state max_age st =
     (if max_age > 0
      then case list_work_state_before state (now - max_age) st of
          Inl err \<Rightarrow> (Inl err, st)
        | Inr es \<Rightarrow> sfor (watchdog_reschedule isofmt now identity) es st
      else (Inr (), st))"

definition watchdog_run_once ::
  "(time \<Rightarrow> string) \<Rightarrow> time \<Rightarrow> ControllerMutationIdentity \<Rightarrow> WorkWatchdogConfig \<Rightarrow> (WorkStore, unit) eff" where
  "watchdog_run_once isofmt now identity cfg =
     ebind (watchdog_pass isofmt now identity ''Dispatched'' (wd_dispatched_max cfg))
       (\<lambda>_. watchdog_pass isofmt now identity ''Running'' (wd_running_max cfg))"

section \<open>What a publisher run leaves behind\<close>

definition sent_payload :: "js_publication list \<Rightarrow> json_col \<Rightarrow> bool" where
  "sent_payload ps c \<longleftrightarrow> (\<exists>p \<in> set ps. jp_ok p \<and> loads_or_raise c = Inr (jp_payload p))"

text \<open>
  The relation a run keeps to the outbox it started from: rows keep their key and payload, and one that
  has become published was sent.
\<close>

definition outbox_progress :: "WorkOutboxRow list \<Rightarrow> OutboxRun \<Rightarrow> bool" where
  "outbox_progress t r \<longleftrightarrow> (\<forall>k row. find (\<lambda>x. ob_key x = k) t = Some row \<longrightarrow>
     (\<exists>row'. find (\<lambda>x. ob_key x = k) (work_outbox (or_store r)) = Some row' \<and>
        ob_payload row' = ob_payload row \<and>
        (ob_state row' = Published \<longrightarrow> ob_state row = Published \<or> sent_payload (or_published r) (ob_payload row))))"

definition listed_entry :: "WorkOutboxRow list \<Rightarrow> WorkOutboxEntry \<Rightarrow> bool" where
  "listed_entry t e \<longleftrightarrow> (\<exists>row. find (\<lambda>x. ob_key x = (oe_work_id e, oe_attempt e)) t = Some row \<and>
     loads_or_raise (ob_payload row) = Inr (oe_payload e))"

lemma sent_payload_mono: "sent_payload ps c \<Longrightarrow> set ps \<subseteq> set ps' \<Longrightarrow> sent_payload ps' c"
  by (auto simp: sent_payload_def)

lemma ask_leader_fields:
  "ask_leader env r = (b, r') \<Longrightarrow> or_store r' = or_store r \<and> or_published r' = or_published r"
  by (auto simp: ask_leader_def)

lemma outbox_progress_ask: "ask_leader env r = (b, r') \<Longrightarrow> outbox_progress t r' = outbox_progress t r"
  by (simp add: outbox_progress_def ask_leader_fields)

lemma outbox_progress_publish:
  assumes "outbox_progress t r" and "publish_entry env e mid r = (err, r')"
  shows "outbox_progress t r'"
  using assms unfolding outbox_progress_def publish_entry_def Let_def
  by (fastforce intro: sent_payload_mono)

lemma publish_entry_sent:
  assumes "publish_entry env e mid r = (None, r')" and "loads_or_raise c = Inr (oe_payload e)"
  shows "sent_payload (or_published r') c"
  using assms by (auto simp: publish_entry_def sent_payload_def Let_def)

lemma settle_failed_lookup:
  "find (\<lambda>x. ob_key x = k) (work_outbox (or_store (settle_failed env e err r))) =
     (if k = (oe_work_id e, oe_attempt e)
      then map_option (ob_attempted (Some err, oc_now env)) (find (\<lambda>x. ob_key x = k) (work_outbox (or_store r)))
      else find (\<lambda>x. ob_key x = k) (work_outbox (or_store r)))"
  by (simp add: settle_failed_def record_outbox_publish_attempt_def o_att.lookup_update_key)

lemma settle_published_lookup:
  "find (\<lambda>x. ob_key x = k) (work_outbox (or_store (settle_published env e r))) =
     (if k = (oe_work_id e, oe_attempt e)
      then map_option (ob_published (oc_now env)) (find (\<lambda>x. ob_key x = k) (work_outbox (or_store r)))
      else find (\<lambda>x. ob_key x = k) (work_outbox (or_store r)))"
  by (simp add: settle_published_def mark_outbox_published_def o_pub.lookup_update_key)

lemma outbox_progress_failed: "outbox_progress t r \<Longrightarrow> outbox_progress t (settle_failed env e err r)"
  unfolding outbox_progress_def settle_failed_lookup
  by (fastforce simp: ob_attempted_def settle_failed_def)

lemma outbox_progress_published:
  assumes "outbox_progress t r" and "listed_entry t e"
    and "\<And>c. loads_or_raise c = Inr (oe_payload e) \<Longrightarrow> sent_payload (or_published r) c"
  shows "outbox_progress t (settle_published env e r)"
  unfolding outbox_progress_def settle_published_lookup
proof (intro allI impI)
  fix k row
  assume row: "find (\<lambda>x. ob_key x = k) t = Some row"
  obtain row' where row': "find (\<lambda>x. ob_key x = k) (work_outbox (or_store r)) = Some row'"
    "ob_payload row' = ob_payload row"
    "ob_state row' = Published \<longrightarrow> ob_state row = Published \<or> sent_payload (or_published r) (ob_payload row)"
    using assms(1) row unfolding outbox_progress_def by blast
  have pub: "or_published (settle_published env e r) = or_published r" by (simp add: settle_published_def)
  show "\<exists>row'. (if k = (oe_work_id e, oe_attempt e)
      then map_option (ob_published (oc_now env)) (find (\<lambda>x. ob_key x = k) (work_outbox (or_store r)))
      else find (\<lambda>x. ob_key x = k) (work_outbox (or_store r))) = Some row' \<and>
    ob_payload row' = ob_payload row \<and> (ob_state row' = Published \<longrightarrow> ob_state row = Published \<or>
      sent_payload (or_published (settle_published env e r)) (ob_payload row))"
  proof (cases "k = (oe_work_id e, oe_attempt e)")
    case True
    have "sent_payload (or_published r) (ob_payload row)"
      using assms(2,3) row True by (auto simp: listed_entry_def)
    with row' True pub show ?thesis by (auto simp: ob_published_def)
  next
    case False
    with row' pub show ?thesis by auto
  qed
qed

lemma publish_entries_progress:
  assumes "outbox_progress t r" and "\<forall>e \<in> set es. listed_entry t e"
  shows "outbox_progress t (snd (publish_entries env es r))"
  using assms
proof (induction es arbitrary: r)
  case (Cons e es)
  obtain b r1 where q1: "ask_leader env r = (b, r1)" by (metis surj_pair)
  have p1: "outbox_progress t r1" using outbox_progress_ask [OF q1] Cons.prems(1) by simp
  show ?case
  proof (cases "b \<and> (\<exists>mid. entry_msg_id e = Inr mid)")
    case False
    with p1 q1 show ?thesis by (auto split: sum.splits bool.splits)
  next
    case True
    then obtain mid where b: "b" and mid: "entry_msg_id e = Inr mid" by auto
    obtain err r2 where pe: "publish_entry env e mid r1 = (err, r2)" by (metis surj_pair)
    have p2: "outbox_progress t r2" by (rule outbox_progress_publish [OF p1 pe])
    have rest: "\<forall>e \<in> set es. listed_entry t e" and le: "listed_entry t e" using Cons.prems(2) by auto
    show ?thesis
    proof (cases err)
      case (Some x)
      have "outbox_progress t (snd (publish_entries env es (settle_failed env e x r2)))"
        by (rule Cons.IH [OF outbox_progress_failed [OF p2] rest])
      with q1 b mid pe Some show ?thesis by simp
    next
      case None
      obtain c r3 where q3: "ask_leader env r2 = (c, r3)" by (metis surj_pair)
      have p3: "outbox_progress t r3" using outbox_progress_ask [OF q3] p2 by simp
      have sent: "\<And>c. loads_or_raise c = Inr (oe_payload e) \<Longrightarrow> sent_payload (or_published r3) c"
        using publish_entry_sent [OF pe [unfolded None]] ask_leader_fields [OF q3] by simp
      have "c \<Longrightarrow> outbox_progress t (snd (publish_entries env es (settle_published env e r3)))"
        by (rule Cons.IH [OF outbox_progress_published [OF p3 le sent] rest])
      with q1 b mid pe None q3 p3 show ?thesis by (cases c) simp_all
    qed
  qed
qed simp

lemma listed_unpublished:
  assumes "primary_key ob_key (work_outbox st)" and "list_outbox_unpublished n st = Inr es" and "e \<in> set es"
  shows "listed_entry (work_outbox st) e"
proof -
  let ?rows = "sql_limit n (sort_key ob_created_at (filter (\<lambda>r. ob_state r = Unpublished) (work_outbox st)))"
  obtain row where row: "row \<in> set ?rows" "outbox_entry_of_row row = Inr e"
    using rmap_member [OF assms(2) [unfolded list_outbox_unpublished_def] assms(3)] by blast
  have "row \<in> set (work_outbox st)"
    using row(1) by (auto simp: sql_limit_def split: if_splits dest!: in_set_takeD)
  moreover have "ob_key row = (oe_work_id e, oe_attempt e)" "loads_or_raise (ob_payload row) = Inr (oe_payload e)"
    using row(2) by (auto simp: outbox_entry_of_row_def rbind_Inr_iff Let_def ob_key_def)
  ultimately show ?thesis
    using find_key_member [OF assms(1)] unfolding listed_entry_def by metis
qed

lemma outbox_run_progress:
  assumes "primary_key ob_key (work_outbox (or_store r))"
  shows "outbox_progress (work_outbox (or_store r)) (snd (outbox_run_once env n r))"
proof -
  obtain b r1 where q: "ask_leader env r = (b, r1)" by (metis surj_pair)
  note f = ask_leader_fields [OF q]
  have p1: "outbox_progress (work_outbox (or_store r)) r1"
    using f by (auto simp: outbox_progress_def)
  have "outbox_progress (work_outbox (or_store r)) (snd (publish_entries env es r1))"
    if "list_outbox_unpublished n (or_store r1) = Inr es" for es
    by (rule publish_entries_progress [OF p1]) (use listed_unpublished [OF assms] that f in auto)
  with p1 q show ?thesis by (simp add: outbox_run_once_def split: sum.splits bool.splits)
qed

text \<open>
  The outbox is at least once: in a run of the publisher, whatever the authority answers and
  whichever publications fail, a row that was unpublished before and published after has had its own
  payload published to JetStream without an error; every row keeps its payload.
\<close>

theorem outbox_published_was_sent:
  assumes "primary_key ob_key (work_outbox (or_store r))"
    and "find (\<lambda>x. ob_key x = k) (work_outbox (or_store r)) = Some row" and "ob_state row = Unpublished"
  shows "\<exists>row'. find (\<lambda>x. ob_key x = k) (work_outbox (or_store (snd (outbox_run_once env n r)))) = Some row' \<and>
    ob_payload row' = ob_payload row \<and>
    (ob_state row' = Unpublished \<or>
     (\<exists>p \<in> set (or_published (snd (outbox_run_once env n r))). jp_ok p \<and>
        loads_or_raise (ob_payload row) = Inr (jp_payload p)))"
proof -
  obtain row' where "find (\<lambda>x. ob_key x = k) (work_outbox (or_store (snd (outbox_run_once env n r)))) = Some row'"
    "ob_payload row' = ob_payload row" "ob_state row' = Published \<longrightarrow> ob_state row = Published \<or>
      sent_payload (or_published (snd (outbox_run_once env n r))) (ob_payload row)"
    using outbox_run_progress [OF assms(1), of env n] assms(2) unfolding outbox_progress_def by blast
  with assms(3) show ?thesis by (cases "ob_state row'") (auto simp: sent_payload_def)
qed

definition demo_outbox_run :: OutboxRun where
  "demo_outbox_run = \<lparr>or_store = demo_sched_store, or_queries = 0, or_published = []\<rparr>"

definition demo_outbox_env :: outbox_env where
  "demo_outbox_env = \<lparr>oc_authority = (\<lambda>n. IsLeader True), oc_err = (\<lambda>n. None), oc_now = 8\<rparr>"

theorem outbox_published_was_sent_witness:
  "\<exists>row'. find (\<lambda>x. ob_key x = (''w'', 3))
      (work_outbox (or_store (snd (outbox_run_once demo_outbox_env 10 demo_outbox_run)))) = Some row' \<and>
    ob_state row' = Published \<and>
    (\<exists>p \<in> set (or_published (snd (outbox_run_once demo_outbox_env 10 demo_outbox_run))).
       jp_payload p = JObj [(''k'', JInt 7)])"
proof -
  define row where "row = hd (work_outbox (or_store demo_outbox_run))"
  have pk: "primary_key ob_key (work_outbox (or_store demo_outbox_run))" by code_simp
  have row: "find (\<lambda>x. ob_key x = (''w'', 3)) (work_outbox (or_store demo_outbox_run)) = Some row"
    unfolding row_def by code_simp
  have un: "ob_state row = Unpublished" unfolding row_def by code_simp
  have pay: "loads_or_raise (ob_payload row) = Inr (JObj [(''k'', JInt 7)])" unfolding row_def by code_simp
  have "map_option ob_state (find (\<lambda>x. ob_key x = (''w'', 3))
      (work_outbox (or_store (snd (outbox_run_once demo_outbox_env 10 demo_outbox_run))))) = Some Published"
    by code_simp
  with outbox_published_was_sent [OF pk row un, of demo_outbox_env 10] pay show ?thesis by auto
qed

text \<open>
  The publisher acts only as leader: while the authority never answers that this controller leads, a
  run publishes nothing and leaves every table as it was.
\<close>

theorem outbox_follower_inert:
  assumes "\<And>n. \<not> outbox_is_leader (oc_authority env n)"
  shows "\<exists>r'. outbox_run_once env b r = (Inr (), r') \<and> or_store r' = or_store r \<and> or_published r' = or_published r"
  using assms by (simp add: outbox_run_once_def ask_leader_def)

theorem outbox_follower_inert_witness:
  "\<exists>r'. outbox_run_once (demo_outbox_env\<lparr>oc_authority := (\<lambda>n. SnapshotRaises)\<rparr>) 5 demo_outbox_run = (Inr (), r') \<and>
    or_published r' = []"
  using outbox_follower_inert [of "demo_outbox_env\<lparr>oc_authority := (\<lambda>n. SnapshotRaises)\<rparr>" 5 demo_outbox_run]
  by (auto simp: outbox_is_leader_def demo_outbox_run_def)

section \<open>The watchdog and leadership\<close>

lemma reschedule_payload_envelope:
  assumes "strip cid \<noteq> []" and "0 < epoch"
  shows "parse_envelope (JObj (reschedule_payload w s n (Some cid) (Some epoch) iso_now d)) =
    Some \<lparr>me_controller_id = strip cid, me_controller_epoch = epoch,
      me_operation_id = strip (work_operation w n)\<rparr>"
proof -
  have cid: "cid \<noteq> []" using assms(1) by (auto simp: strip_def lstrip_def rstrip_def)
  then obtain c cs where "cid = c # cs" by (cases cid) auto
  moreover have "strip (work_operation w n) \<noteq> []"
    by (rule strip_not_Nil [of "CHR ''w''"]) (simp_all add: work_operation_def is_ws_def)
  ultimately show ?thesis
    using assms by (simp add: parse_envelope_def reschedule_payload_def Let_def py_or_def work_operation_def)
qed

text \<open>
  The watchdog is not bound to leadership: a follower reschedules stuck work too, and stamps it with
  its fall-back identity, epoch 1 unless configured; wherever a fence has seen a later epoch the
  rescheduled work is refused as stale. (The publisher, in contrast, asks the authority first.)
\<close>

theorem follower_watchdog_work_is_stale:
  assumes "i = resolve_controller_identity (Some (False, info)) None None env_id None host"
    and "strip (cmi_controller_id i) \<noteq> []"
    and "reschedule_work isofmt now w a (Some (cmi_controller_id i)) (Some (cmi_controller_epoch i)) st
      = (Inr (Some n), st')"
    and "fence_epoch db scope = Some ep" and "1 < ep"
  shows "\<exists>payload e. ob_payload (last (work_outbox st')) = JDump (JObj payload) \<and>
    parse_envelope (JObj payload) = Some e \<and> me_controller_epoch e = 1 \<and>
    fd_status (fst (fence_begin t scope e db)) = Stale"
proof -
  have one: "cmi_controller_epoch i = 1"
    using assms(1) by (simp add: resolve_controller_identity_def Let_def)
  obtain row :: WorkOutboxRow and old ids where "st' = st\<lparr>work_ledger :=
        update_where (\<lambda>r. lg_work_id r = w \<and> lg_attempt r = a) (lg_reschedule (a + 1, ids)) (work_ledger st),
      work_outbox := work_outbox st @ [new_outbox_row now w (a + 1) (ob_site_id row)
        (reschedule_payload w (ob_site_id row) (a + 1) (Some (cmi_controller_id i)) (Some 1) (isofmt now) old)]\<rparr>"
    using reschedule_work_success [OF assms(3)] one by auto
  then have last: "ob_payload (last (work_outbox st')) = JDump (JObj (reschedule_payload w (ob_site_id row) (a + 1)
      (Some (cmi_controller_id i)) (Some 1) (isofmt now) old))"
    by (simp add: new_outbox_row_def)
  define e where "e = \<lparr>me_controller_id = strip (cmi_controller_id i), me_controller_epoch = 1,
      me_operation_id = strip (work_operation w (a + 1))\<rparr>"
  have "fd_status (fst (fence_begin t scope e db)) = Stale"
    using assms(4,5) by (auto simp: fence_begin_def fence_epoch_def e_def Let_def)
  with last reschedule_payload_envelope [OF assms(2), of 1] show ?thesis
    unfolding e_def by fastforce
qed

definition demo_fence_epoch5 :: SQLiteFenceStore where
  "demo_fence_epoch5 = fence_commit 1 ''site:s''
     \<lparr>me_controller_id = ''lead'', me_controller_epoch = 5, me_operation_id = ''op''\<rparr> (fence_init None)"

theorem follower_watchdog_work_is_stale_witness:
  "\<exists>payload e. ob_payload (last (work_outbox (snd (reschedule_work show_int 9 ''w'' 3 (Some ''host-b'') (Some 1)
      demo_sched_store)))) = JDump (JObj payload) \<and> parse_envelope (JObj payload) = Some e \<and>
    fd_status (fst (fence_begin 10 ''site:s'' e demo_fence_epoch5)) = Stale"
proof -
  define i where "i = resolve_controller_identity (Some (False, None)) None None None None ''host-b''"
  have i: "cmi_controller_id i = ''host-b''" "cmi_controller_epoch i = 1"
    by (simp_all add: i_def resolve_controller_identity_def)
  have "strip (cmi_controller_id i) \<noteq> []" unfolding i by code_simp
  moreover have "fst (reschedule_work show_int 9 ''w'' 3 (Some ''host-b'') (Some 1) demo_sched_store) = Inr (Some 4)"
    by code_simp
  then obtain st' where run: "reschedule_work show_int 9 ''w'' 3 (Some ''host-b'') (Some 1) demo_sched_store
      = (Inr (Some 4), st')" by (metis prod.collapse)
  moreover have "fence_epoch demo_fence_epoch5 ''site:s'' = Some 5" by code_simp
  ultimately show ?thesis
    using follower_watchdog_work_is_stale [OF i_def, of show_int 9 "''w''" 3 demo_sched_store 4 st'
        demo_fence_epoch5 "''site:s''" 5 10]
    unfolding i run by auto
qed

end
