(* ===== verification/Gateway_Spool.thy ===== *)
theory Gateway_Spool
  imports Fencing
begin

text \<open>
  The gateway's durable spool (\<^verbatim>\<open>GatewaySpool\<close> in \<^verbatim>\<open>ae/gateway/spool.py\<close>): the \<^verbatim>\<open>inflight\<close> and
  \<^verbatim>\<open>results\<close> tables, both keyed by work id and attempt, and every operation on them. A result is
  recorded before it is published and stays listed for replay until it is marked delivered; the
  contract the gateway relies on is the locale \<open>result_spool\<close>.
\<close>

section \<open>Tables\<close>

record InflightRecord =
  if_work_id :: string
  if_attempt :: int
  if_js_stream :: string
  if_js_consumer :: string
  if_js_seq :: int
  if_received_at :: time
  if_node_id :: "string option"
  if_state :: string
  if_last_progress_at :: "time option"
  if_controller_id :: "string option"
  if_controller_epoch :: "int option"
  if_operation_id :: "string option"

record ResultRow =
  rs_work_id :: string
  rs_attempt :: int
  rs_status :: string
  rs_payload :: json_col
  rs_committed_at :: time
  rs_delivered_at :: "time option"
  rs_replay_attempts :: int
  rs_last_replay_at :: "time option"
  rs_next_retry_at :: "time option"
  rs_last_replay_error :: "string option"
  rs_controller_id :: "string option"
  rs_controller_epoch :: "int option"
  rs_operation_id :: "string option"

record ResultRecord =
  rr_work_id :: string
  rr_attempt :: int
  rr_status :: string
  rr_payload :: json
  rr_committed_at :: time
  rr_delivered_at :: "time option"
  rr_replay_attempts :: int
  rr_last_replay_at :: "time option"
  rr_next_retry_at :: "time option"
  rr_last_replay_error :: "string option"
  rr_controller_id :: "string option"
  rr_controller_epoch :: "int option"
  rr_operation_id :: "string option"

record GatewaySpool =
  sp_inflight :: "InflightRecord list"
  sp_results :: "ResultRow list"

definition if_key :: "InflightRecord \<Rightarrow> string \<times> int" where
  "if_key r = (if_work_id r, if_attempt r)"

definition rs_key :: "ResultRow \<Rightarrow> string \<times> int" where
  "rs_key r = (rs_work_id r, rs_attempt r)"

definition spool_init :: GatewaySpool where
  "spool_init = \<lparr>sp_inflight = [], sp_results = []\<rparr>"

section \<open>Inflight work\<close>

definition if_replace :: "InflightRecord \<Rightarrow> InflightRecord \<Rightarrow> InflightRecord" where
  "if_replace n r = r\<lparr>if_js_stream := if_js_stream n, if_js_consumer := if_js_consumer n,
     if_js_seq := if_js_seq n, if_node_id := if_node_id n, if_state := if_state n,
     if_last_progress_at := if_last_progress_at n, if_controller_id := if_controller_id n,
     if_controller_epoch := if_controller_epoch n, if_operation_id := if_operation_id n\<rparr>"

definition record_inflight ::
  "time \<Rightarrow> string \<Rightarrow> int \<Rightarrow> string \<Rightarrow> string \<Rightarrow> int \<Rightarrow> string option \<Rightarrow> string \<Rightarrow> dict
   \<Rightarrow> GatewaySpool \<Rightarrow> GatewaySpool" where
  "record_inflight now work_id attempt js_stream js_consumer js_seq node_id state payload sp =
     (let env = parse_envelope (JObj payload);
          n = \<lparr>if_work_id = work_id, if_attempt = attempt, if_js_stream = js_stream,
               if_js_consumer = js_consumer, if_js_seq = js_seq, if_received_at = now,
               if_node_id = node_id, if_state = state, if_last_progress_at = Some now,
               if_controller_id = map_option me_controller_id env,
               if_controller_epoch = map_option me_controller_epoch env,
               if_operation_id = map_option me_operation_id env\<rparr>
      in sp\<lparr>sp_inflight := upsert if_key (if_replace n) n (sp_inflight sp)\<rparr>)"

definition if_progress :: "string \<times> string option \<times> time \<Rightarrow> InflightRecord \<Rightarrow> InflightRecord" where
  "if_progress a r = (case a of (state, node_id, now) \<Rightarrow>
     r\<lparr>if_state := state, if_node_id := coalesce node_id (if_node_id r),
       if_last_progress_at := Some now\<rparr>)"

definition update_inflight_state ::
  "time \<Rightarrow> string \<Rightarrow> int \<Rightarrow> string \<Rightarrow> string option \<Rightarrow> GatewaySpool \<Rightarrow> GatewaySpool" where
  "update_inflight_state now work_id attempt state node_id sp =
     sp\<lparr>sp_inflight := update_where (\<lambda>r. if_key r = (work_id, attempt)) (if_progress (state, node_id, now))
          (sp_inflight sp)\<rparr>"

definition get_inflight_state :: "string \<Rightarrow> int \<Rightarrow> GatewaySpool \<Rightarrow> string option" where
  "get_inflight_state work_id attempt sp =
     map_option if_state (find (\<lambda>r. if_key r = (work_id, attempt)) (sp_inflight sp))"

definition get_inflight_record :: "string \<Rightarrow> int \<Rightarrow> GatewaySpool \<Rightarrow> InflightRecord option" where
  "get_inflight_record work_id attempt sp =
     map_option (\<lambda>r. r\<lparr>if_node_id := nonempty (if_node_id r),
         if_controller_id := nonempty (if_controller_id r),
         if_operation_id := nonempty (if_operation_id r)\<rparr>)
       (find (\<lambda>r. if_key r = (work_id, attempt)) (sp_inflight sp))"

section \<open>Results\<close>

definition rs_replace :: "ResultRow \<Rightarrow> ResultRow \<Rightarrow> ResultRow" where
  "rs_replace n r = n\<lparr>rs_work_id := rs_work_id r, rs_attempt := rs_attempt r\<rparr>"

definition new_result_row :: "time \<Rightarrow> string \<Rightarrow> int \<Rightarrow> string \<Rightarrow> dict \<Rightarrow> ResultRow" where
  "new_result_row now work_id attempt status payload =
     (let env = parse_envelope (JObj payload)
      in \<lparr>rs_work_id = work_id, rs_attempt = attempt, rs_status = status,
          rs_payload = JDump (JObj payload), rs_committed_at = now, rs_delivered_at = None,
          rs_replay_attempts = 0, rs_last_replay_at = None, rs_next_retry_at = None,
          rs_last_replay_error = None,
          rs_controller_id = map_option me_controller_id env,
          rs_controller_epoch = map_option me_controller_epoch env,
          rs_operation_id = map_option me_operation_id env\<rparr>)"

definition record_result ::
  "time \<Rightarrow> string \<Rightarrow> int \<Rightarrow> string \<Rightarrow> dict \<Rightarrow> GatewaySpool \<Rightarrow> GatewaySpool" where
  "record_result now work_id attempt status payload sp =
     (let n = new_result_row now work_id attempt status payload
      in sp\<lparr>sp_results := upsert rs_key (rs_replace n) n (sp_results sp)\<rparr>)"

definition result_record_of_row :: "ResultRow \<Rightarrow> ResultRecord" where
  "result_record_of_row r =
     \<lparr>rr_work_id = rs_work_id r, rr_attempt = rs_attempt r, rr_status = rs_status r,
      rr_payload = loads_or_empty (rs_payload r), rr_committed_at = rs_committed_at r,
      rr_delivered_at = rs_delivered_at r, rr_replay_attempts = rs_replay_attempts r,
      rr_last_replay_at = rs_last_replay_at r, rr_next_retry_at = rs_next_retry_at r,
      rr_last_replay_error = nonempty (rs_last_replay_error r),
      rr_controller_id = nonempty (rs_controller_id r),
      rr_controller_epoch = rs_controller_epoch r,
      rr_operation_id = nonempty (rs_operation_id r)\<rparr>"

definition get_result :: "string \<Rightarrow> int \<Rightarrow> GatewaySpool \<Rightarrow> ResultRecord option" where
  "get_result work_id attempt sp =
     map_option result_record_of_row (find (\<lambda>r. rs_key r = (work_id, attempt)) (sp_results sp))"

definition list_undelivered_results :: "int \<Rightarrow> GatewaySpool \<Rightarrow> ResultRecord list" where
  "list_undelivered_results limit sp =
     map result_record_of_row
       (sql_limit limit (sort_key rs_committed_at
          (filter (\<lambda>r. rs_delivered_at r = None) (sp_results sp))))"

text \<open>
  \<^verbatim>\<open>ORDER BY COALESCE(next_retry_at, committed_at), committed_at\<close>: two stable sorts, the later key first.
\<close>

definition replay_ready :: "time \<Rightarrow> ResultRow \<Rightarrow> bool" where
  "replay_ready now r \<longleftrightarrow> rs_delivered_at r = None \<and>
     (case rs_next_retry_at r of None \<Rightarrow> True | Some t \<Rightarrow> t \<le> now)"

definition replay_order :: "ResultRow \<Rightarrow> time" where
  "replay_order r = (case rs_next_retry_at r of None \<Rightarrow> rs_committed_at r | Some t \<Rightarrow> t)"

definition list_replay_ready_results :: "int \<Rightarrow> time \<Rightarrow> GatewaySpool \<Rightarrow> ResultRecord list" where
  "list_replay_ready_results limit now sp =
     map result_record_of_row
       (sql_limit limit (sort_key replay_order (sort_key rs_committed_at
          (filter (replay_ready now) (sp_results sp)))))"

definition count_undelivered_results :: "GatewaySpool \<Rightarrow> int" where
  "count_undelivered_results sp = int (rowcount (\<lambda>r. rs_delivered_at r = None) (sp_results sp))"

definition rs_delivered :: "time \<Rightarrow> ResultRow \<Rightarrow> ResultRow" where
  "rs_delivered now r =
     r\<lparr>rs_delivered_at := Some now, rs_next_retry_at := None, rs_last_replay_error := None\<rparr>"

definition mark_result_delivered :: "time \<Rightarrow> string \<Rightarrow> int \<Rightarrow> GatewaySpool \<Rightarrow> GatewaySpool" where
  "mark_result_delivered now work_id attempt sp =
     sp\<lparr>sp_results := update_where (\<lambda>r. rs_key r = (work_id, attempt)) (rs_delivered now) (sp_results sp)\<rparr>"

definition rs_attempted :: "time \<times> string option \<times> time option \<Rightarrow> ResultRow \<Rightarrow> ResultRow" where
  "rs_attempted a r = (case a of (now, err, retry_at) \<Rightarrow>
     r\<lparr>rs_replay_attempts := rs_replay_attempts r + 1, rs_last_replay_at := Some now,
       rs_next_retry_at := retry_at, rs_last_replay_error := err\<rparr>)"

definition record_result_delivery_attempt ::
  "time \<Rightarrow> string \<Rightarrow> int \<Rightarrow> string option \<Rightarrow> time option \<Rightarrow> GatewaySpool \<Rightarrow> GatewaySpool" where
  "record_result_delivery_attempt now work_id attempt err retry_at sp =
     sp\<lparr>sp_results := update_where (\<lambda>r. rs_key r = (work_id, attempt)) (rs_attempted (now, err, retry_at))
          (sp_results sp)\<rparr>"

definition reset_replay_schedule :: "GatewaySpool \<Rightarrow> GatewaySpool" where
  "reset_replay_schedule sp =
     sp\<lparr>sp_results := update_where (\<lambda>r. rs_delivered_at r = None) (\<lambda>r. r\<lparr>rs_next_retry_at := None\<rparr>)
          (sp_results sp)\<rparr>"

text \<open>\<^verbatim>\<open>cleanup\<close> removes the database files: the next \<^verbatim>\<open>init\<close> finds empty tables.\<close>

definition spool_cleanup :: "GatewaySpool \<Rightarrow> GatewaySpool" where
  "spool_cleanup sp = spool_init"

section \<open>The contract of the result spool\<close>

text \<open>
  What a client of the spool may rely on: \<open>view\<close> maps a key to the recorded payload and whether it
  has been delivered. Recording overwrites the key as undelivered, marking flips it, and the retry
  bookkeeping never touches it. \<open>settles k\<close> are the operations after which the key may no longer be undelivered: recording or marking
  it, and the clean-up that the gateway runs when it shuts down and does not keep its spool.
\<close>

datatype spool_op =
    SpRecord time string int string dict
  | SpMark time string int
  | SpAttempt time string int "string option" "time option"
  | SpReset
  | SpCleanup

fun run_spool_op :: "spool_op \<Rightarrow> GatewaySpool \<Rightarrow> GatewaySpool" where
  "run_spool_op (SpRecord t w a st p) sp = record_result t w a st p sp"
| "run_spool_op (SpMark t w a) sp = mark_result_delivered t w a sp"
| "run_spool_op (SpAttempt t w a e r) sp = record_result_delivery_attempt t w a e r sp"
| "run_spool_op SpReset sp = reset_replay_schedule sp"
| "run_spool_op SpCleanup sp = spool_cleanup sp"

fun settles :: "string \<times> int \<Rightarrow> spool_op \<Rightarrow> bool" where
  "settles k (SpRecord t w a st p) = ((w, a) = k)"
| "settles k (SpMark t w a) = ((w, a) = k)"
| "settles k SpCleanup = True"
| "settles k _ = False"

locale result_spool =
  fixes view :: "'s \<Rightarrow> string \<times> int \<Rightarrow> (json \<times> bool) option"
    and rec_op :: "time \<Rightarrow> string \<Rightarrow> int \<Rightarrow> string \<Rightarrow> dict \<Rightarrow> 's \<Rightarrow> 's"
    and mark_op :: "time \<Rightarrow> string \<Rightarrow> int \<Rightarrow> 's \<Rightarrow> 's"
    and attempt_op :: "time \<Rightarrow> string \<Rightarrow> int \<Rightarrow> string option \<Rightarrow> time option \<Rightarrow> 's \<Rightarrow> 's"
    and reset_op :: "'s \<Rightarrow> 's"
    and cleanup_op :: "'s \<Rightarrow> 's"
  assumes view_record: "view (rec_op t w a st p s) = (view s)((w, a) \<mapsto> (JObj p, False))"
    and view_mark: "view (mark_op t w a s) k =
      (if k = (w, a) then map_option (\<lambda>v. (fst v, True)) (view s k) else view s k)"
    and view_attempt: "view (attempt_op t w a e r s) = view s"
    and view_reset: "view (reset_op s) = view s"
    and view_cleanup: "view (cleanup_op s) = Map.empty"
begin

fun run_op :: "spool_op \<Rightarrow> 's \<Rightarrow> 's" where
  "run_op (SpRecord t w a st p) s = rec_op t w a st p s"
| "run_op (SpMark t w a) s = mark_op t w a s"
| "run_op (SpAttempt t w a e r) s = attempt_op t w a e r s"
| "run_op SpReset s = reset_op s"
| "run_op SpCleanup s = cleanup_op s"

lemma run_op_view: "\<not> settles k op \<Longrightarrow> view (run_op op s) k = view s k"
  by (cases op) (auto simp: view_record view_mark view_attempt view_reset)

lemma run_ops_view: "\<forall>op \<in> set ops. \<not> settles k op \<Longrightarrow> view (fold run_op ops s) k = view s k"
  by (induction ops arbitrary: s) (simp_all add: run_op_view)

lemma marked_delivered: "view s k = Some (p, d) \<Longrightarrow> view (mark_op t (fst k) (snd k) s) k = Some (p, True)"
  by (simp add: view_mark)

end

definition result_view :: "GatewaySpool \<Rightarrow> string \<times> int \<Rightarrow> (json \<times> bool) option" where
  "result_view sp k = map_option (\<lambda>r. (loads_or_empty (rs_payload r), rs_delivered_at r \<noteq> None))
     (find (\<lambda>r. rs_key r = k) (sp_results sp))"

interpretation rs_rep: keyed_update rs_key rs_replace
  by unfold_locales (simp add: rs_replace_def rs_key_def)

interpretation rs_del: keyed_update rs_key rs_delivered
  by unfold_locales (simp add: rs_delivered_def rs_key_def)

interpretation rs_att: keyed_update rs_key rs_attempted
  by unfold_locales (simp add: rs_attempted_def rs_key_def split: prod.splits)

interpretation if_rep: keyed_update if_key if_replace
  by unfold_locales (simp add: if_replace_def if_key_def)

interpretation if_prog: keyed_update if_key if_progress
  by unfold_locales (simp add: if_progress_def if_key_def split: prod.splits)

lemma new_result_row_simps [simp]:
  "rs_key (new_result_row t w a st p) = (w, a)"
  "rs_payload (new_result_row t w a st p) = JDump (JObj p)"
  "rs_delivered_at (new_result_row t w a st p) = None"
  "rs_payload (rs_replace n r) = rs_payload n" "rs_delivered_at (rs_replace n r) = rs_delivered_at n"
  by (simp_all add: new_result_row_def rs_key_def rs_replace_def Let_def)

lemma result_view_record:
  "result_view (record_result t w a st p sp) = (result_view sp)((w, a) \<mapsto> (JObj p, False))"
proof (rule ext)
  fix k
  show "result_view (record_result t w a st p sp) k = ((result_view sp)((w, a) \<mapsto> (JObj p, False))) k"
    unfolding result_view_def record_result_def Let_def
    by (cases "k = (w, a)"; cases "find (\<lambda>r. rs_key r = k) (sp_results sp)")
      (simp_all add: rs_rep.lookup_upsert loads_or_empty_def)
qed

lemma result_view_mark:
  "result_view (mark_result_delivered t w a sp) k =
     (if k = (w, a) then map_option (\<lambda>v. (fst v, True)) (result_view sp k) else result_view sp k)"
  by (auto simp: result_view_def mark_result_delivered_def rs_del.lookup_update_key rs_delivered_def
      option.map_comp comp_def)

lemma result_view_attempt:
  "result_view (record_result_delivery_attempt t w a e r sp) = result_view sp"
proof (rule ext)
  fix k
  show "result_view (record_result_delivery_attempt t w a e r sp) k = result_view sp k"
    unfolding result_view_def record_result_delivery_attempt_def
    by (cases "k = (w, a)"; cases "find (\<lambda>r. rs_key r = k) (sp_results sp)")
      (simp_all add: rs_att.lookup_update_key rs_attempted_def)
qed

lemma result_view_reset: "result_view (reset_replay_schedule sp) = result_view sp"
proof (rule ext)
  fix k
  have "find (\<lambda>r. rs_key r = k) (sp_results (reset_replay_schedule sp)) =
      map_option (\<lambda>r. if rs_delivered_at r = None then r\<lparr>rs_next_retry_at := None\<rparr> else r)
        (find (\<lambda>r. rs_key r = k) (sp_results sp))"
    unfolding reset_replay_schedule_def by (simp add: find_update_where rs_key_def)
  then show "result_view (reset_replay_schedule sp) k = result_view sp k"
    unfolding result_view_def by (cases "find (\<lambda>r. rs_key r = k) (sp_results sp)") simp_all
qed

lemma result_view_cleanup: "result_view (spool_cleanup sp) = Map.empty"
  by (rule ext) (simp add: result_view_def spool_cleanup_def spool_init_def)

interpretation spool: result_spool result_view record_result mark_result_delivered
  record_result_delivery_attempt reset_replay_schedule spool_cleanup
  by unfold_locales
    (simp_all add: result_view_record result_view_mark result_view_attempt result_view_reset result_view_cleanup)

lemma spool_run_op: "spool.run_op = run_spool_op"
proof (intro ext)
  fix op sp
  show "spool.run_op op sp = run_spool_op op sp" by (cases op) simp_all
qed

lemma result_view_inflight [simp]:
  "result_view (record_inflight n w a s c q d t p sp) = result_view sp"
  "result_view (update_inflight_state n w a t d sp) = result_view sp"
  by (rule ext, simp add: result_view_def record_inflight_def update_inflight_state_def Let_def)+

section \<open>Results survive until delivered\<close>

lemma listed_when_ready:
  assumes "r \<in> set (sp_results sp)" and "replay_ready now r"
    and "limit < 0 \<or> count_undelivered_results sp \<le> limit"
  shows "result_record_of_row r \<in> set (list_replay_ready_results limit now sp)"
proof -
  let ?rows = "sort_key replay_order (sort_key rs_committed_at (filter (replay_ready now) (sp_results sp)))"
  have "length (filter (replay_ready now) xs) \<le> length (filter (\<lambda>r. rs_delivered_at r = None) xs)" for xs
    by (induction xs) (simp_all add: replay_ready_def)
  then have "length ?rows \<le> rowcount (\<lambda>r. rs_delivered_at r = None) (sp_results sp)"
    by (simp add: rowcount_def)
  then have "sql_limit limit ?rows = ?rows"
    using assms(3) by (auto simp: sql_limit_def count_undelivered_results_def)
  with assms(1,2) show ?thesis by (simp add: list_replay_ready_results_def)
qed

text \<open>
  (C9) A recorded result is kept with its exact payload, undelivered, through any
  sequence of recordings and deliveries of other results, failed delivery attempts and schedule resets, and after
  a reset of the schedule the next replay listing contains it when its limit (100 in the gateway) is negative or not below the number of
  undelivered results. Excluded is the clean-up of the spool, which the gateway runs at shutdown unless it keeps the spool: it removes all results.
\<close>

theorem spool_result_survives:
  assumes "\<forall>op \<in> set ops. \<not> settles (w, a) op"
    and "limit < 0 \<or> count_undelivered_results
      (reset_replay_schedule (fold run_spool_op ops (record_result t w a st p sp))) \<le> limit"
  shows "\<exists>rec \<in> set (list_replay_ready_results limit now
      (reset_replay_schedule (fold run_spool_op ops (record_result t w a st p sp)))).
      (rr_work_id rec, rr_attempt rec) = (w, a) \<and> rr_payload rec = JObj p \<and> rr_delivered_at rec = None"
proof -
  define sp' where "sp' = reset_replay_schedule (fold run_spool_op ops (record_result t w a st p sp))"
  have "result_view sp' (w, a) = Some (JObj p, False)"
    using spool.run_ops_view [OF assms(1), unfolded spool_run_op]
    by (simp add: sp'_def result_view_reset result_view_record)
  then obtain r where r: "find (\<lambda>r. rs_key r = (w, a)) (sp_results sp') = Some r"
    "loads_or_empty (rs_payload r) = JObj p" "rs_delivered_at r = None"
    by (auto simp: result_view_def)
  have mem: "r \<in> set (sp_results sp')" and key: "rs_key r = (w, a)"
    using find_key_Some [OF r(1)] by auto
  have "rs_next_retry_at r = None"
    using mem r(3) by (auto simp: sp'_def reset_replay_schedule_def set_update_where split: if_splits)
  then have "replay_ready now r" using r(3) by (simp add: replay_ready_def)
  from listed_when_ready [OF mem this assms(2) [folded sp'_def]] r key
  show ?thesis unfolding sp'_def [symmetric]
    by (intro bexI [of _ "result_record_of_row r"]) (auto simp: result_record_of_row_def rs_key_def)
qed

theorem spool_result_survives_witness:
  "(''w'', 1, JObj [(''k'', JInt 2)]) \<in> (\<lambda>rec. (rr_work_id rec, rr_attempt rec, rr_payload rec)) `
     set (list_replay_ready_results 100 9
       (reset_replay_schedule (fold run_spool_op
          [SpAttempt 3 ''w'' 1 (Some ''down'') (Some 90), SpMark 4 ''v'' 1]
          (record_result 2 ''w'' 1 ''ok'' [(''k'', JInt 2)] spool_init))))"
proof -
  define ops where "ops = [SpAttempt 3 ''w'' 1 (Some ''down'') (Some 90), SpMark 4 ''v'' 1]"
  have "\<forall>op \<in> set ops. \<not> settles (''w'', 1) op" by (simp add: ops_def)
  moreover have "count_undelivered_results (reset_replay_schedule (fold run_spool_op ops
      (record_result 2 ''w'' 1 ''ok'' [(''k'', JInt 2)] spool_init))) \<le> 100"
    unfolding ops_def by code_simp
  ultimately show ?thesis
    unfolding ops_def [symmetric]
    using spool_result_survives [of ops "''w''" 1 100 2 "''ok''" "[(''k'', JInt 2)]" spool_init 9] by force
qed

end
