(* ===== verification/Gateway.thy ===== *)
theory Gateway
  imports Gateway_Spool
begin

text \<open>
  The site gateway (\<^verbatim>\<open>SiteGateway\<close> in \<^verbatim>\<open>ae/gateway/service.py\<close>): the state of the service object and its
  handlers for local results and progress, route bundles, pulled and JetStream work, lease
  acquisition and renewal, result replay and the transport connection.

  Everything the gateway asks of its NATS client goes through \<open>gw_act\<close> and is kept in \<open>gw_log\<close> with whether the call
  returned without raising. That is not whether the message was sent: \<^verbatim>\<open>NatsClient.publish\<close> only schedules a task when it
  is called on the client's own thread, where the subscribed handlers run (\<open>Post\<close>), and elsewhere (\<open>Publish\<close>) it may raise on its timeout while the
  coroutine goes on. Nothing the gateway does depends on it; \<open>reached\<close> gives all the ways the calls of a log can have come
  out on the network. Whether the \<open>n\<close>-th call raises, and what the \<open>n\<close>-th request answers, are functions in the
  environment argument, as are the clocks, the random jitter, the generated request id and the
  edge renderer. Seconds held as floats are integers of microseconds. The spool and the fence are
  local SQLite files whose operations succeed.
\<close>

section \<open>State\<close>

record JetStreamMessage =
  jm_data :: json
  jm_stream :: "string option"
  jm_consumer :: "string option"
  jm_seq :: "int option"

datatype gw_action =
    Publish string json
  | Post string json
  | Request string json
  | JsAck JetStreamMessage
  | JsNak JetStreamMessage
  | JsProgress JetStreamMessage
  | Connect

record GatewayStats =
  st_inflight :: int
  st_accepted :: int
  st_completed :: int
  st_failed :: int
  st_stale :: int
  st_nacked :: int
  st_lease_retry_total :: int
  st_result_replay_total :: int
  st_result_replay_fail_total :: int

record SiteGateway =
  gw_site_id :: string
  gw_node_id :: string
  gw_session_id :: string
  gw_gateway_backend :: string
  gw_node_labels :: dict
  gw_js_stream :: string
  gw_backend_js :: bool
  gw_has_client :: bool
  gw_has_renderer :: bool
  gw_spool_enabled :: bool
  gw_js_enabled :: bool
  gw_spool :: GatewaySpool
  gw_fence :: SQLiteFenceStore
  gw_inflight :: "(string \<times> JetStreamMessage) list"
  gw_inflight_progress :: "(string \<times> time) list"
  gw_inflight_heartbeat :: "(string \<times> time) list"
  gw_inflight_envelopes :: "(string \<times> MutationEnvelope) list"
  gw_completed :: "(string \<times> time) list"
  gw_running_sent :: "(string \<times> time) list"
  gw_max_ack_pending :: int
  gw_last_pull_at :: time
  gw_pull_interval :: time
  gw_progress_interval :: time
  gw_ack_wait :: time
  gw_heartbeat_timeout :: time
  gw_lease_id :: "string option"
  gw_lease_acquire_request_id :: "string option"
  gw_lease_renew_request_id :: "string option"
  gw_lease_ttl_ms :: int
  gw_renew_after_ms :: int
  gw_next_renew_at :: time
  gw_lease_retry_min :: time
  gw_lease_retry_max :: time
  gw_lease_next_attempt_at :: time
  gw_lease_backoff :: time
  gw_result_retry_min :: time
  gw_result_retry_max :: time
  gw_route_bundle_rev :: int
  gw_route_bundle_hash :: json
  gw_transport_ready :: bool
  gw_transport_retry_min :: time
  gw_transport_retry_max :: time
  gw_transport_backoff :: time
  gw_transport_next_connect_at :: time
  gw_subscriptions :: "string list"
  gw_stats :: GatewayStats
  gw_log :: "(gw_action \<times> bool) list"

record gateway_env =
  ge_err :: "nat \<Rightarrow> string option"
  ge_resp :: "nat \<Rightarrow> json"
  ge_now :: time
  ge_mono :: time
  ge_started_at :: string
  ge_request_id :: string
  ge_jitter :: "time \<Rightarrow> time"
  ge_render :: "dict \<Rightarrow> bool \<times> json"
  ge_fetch :: "JetStreamMessage list option"
  ge_connected :: bool

type_synonym gw_eff = "(SiteGateway, unit) eff"

text \<open>One call of the client: an error, or the call returns.\<close>

definition gw_act :: "gateway_env \<Rightarrow> gw_action \<Rightarrow> SiteGateway \<Rightarrow> string option \<times> SiteGateway" where
  "gw_act env a gw =
     (let err = ge_err env (length (gw_log gw))
      in (err, gw\<lparr>gw_log := gw_log gw @ [(a, err = None)]\<rparr>))"

definition gw_request ::
  "gateway_env \<Rightarrow> string \<Rightarrow> json \<Rightarrow> SiteGateway \<Rightarrow> (string + json) \<times> SiteGateway" where
  "gw_request env subject payload gw =
     (let resp = ge_resp env (length (gw_log gw))
      in case gw_act env (Request subject payload) gw of
           (None, gw') \<Rightarrow> (Inr resp, gw') | (Some err, gw') \<Rightarrow> (Inl err, gw'))"

definition gw_bump :: "(GatewayStats \<Rightarrow> GatewayStats) \<Rightarrow> SiteGateway \<Rightarrow> SiteGateway" where
  "gw_bump f gw = gw\<lparr>gw_stats := f (gw_stats gw)\<rparr>"

definition fence_scope :: "SiteGateway \<Rightarrow> string" where
  "fence_scope gw = ''site:'' @ gw_site_id gw"

section \<open>Subjects\<close>

definition local_work_subject :: "string \<Rightarrow> string" where
  "local_work_subject node_id = ''k1s.v1.local.work.'' @ node_id"

definition local_result_subject :: string where
  "local_result_subject = ''k1s.v1.local.result''"

definition local_work_progress_subject :: string where
  "local_work_progress_subject = ''k1s.v1.local.work.progress''"

definition hub_lease_acquire_subject :: "string \<Rightarrow> string" where
  "hub_lease_acquire_subject site_id = ''k1s.v1.site.'' @ site_id @ ''.lease.acquire''"

definition hub_lease_renew_subject :: "string \<Rightarrow> string" where
  "hub_lease_renew_subject site_id = ''k1s.v1.site.'' @ site_id @ ''.lease.renew''"

definition hub_result_subject :: "string \<Rightarrow> string" where
  "hub_result_subject site_id = ''k1s.v1.site.'' @ site_id @ ''.result''"

definition hub_work_pull_subject :: "string \<Rightarrow> string" where
  "hub_work_pull_subject site_id = ''k1s.v1.site.'' @ site_id @ ''.work.pull''"

definition hub_work_ack_subject :: "string \<Rightarrow> string" where
  "hub_work_ack_subject site_id = ''k1s.v1.site.'' @ site_id @ ''.work.ack''"

definition hub_route_bundle_subject :: "string \<Rightarrow> string" where
  "hub_route_bundle_subject site_id = ''k1s.v1.site.'' @ site_id @ ''.routes.bundle''"

definition hub_route_ack_subject :: "string \<Rightarrow> string" where
  "hub_route_ack_subject site_id = ''k1s.v1.site.'' @ site_id @ ''.routes.ack''"

section \<open>Keys and delays\<close>

definition work_key :: "dict \<Rightarrow> string option" where
  "work_key d =
     (if dict_get d ''work_id'' = JNull \<or> dict_get d ''attempt'' = JNull then None
      else Some (py_str (dict_get d ''work_id'') @ '':'' @ py_str (dict_get d ''attempt'')))"

text \<open>
  \<^verbatim>\<open>min_delay_s * (2 ** (attempt_number - 1))\<close> converts the integer power to a float first, which raises
  from \<^verbatim>\<open>2 ** 1024\<close> on.
\<close>

definition next_result_retry_delay :: "int \<Rightarrow> time \<Rightarrow> time \<Rightarrow> time result" where
  "next_result_retry_delay attempt_number min_delay max_delay =
     (if attempt_number \<le> 1 then Inr min_delay
      else if attempt_number - 1 \<ge> 1024 then Inl OverflowError
      else Inr (min (min_delay * 2 ^ nat (attempt_number - 1)) max_delay))"

definition int_or_zero :: "dict \<Rightarrow> string \<Rightarrow> int result" where
  "int_or_zero d k = py_int_raise (py_or (dict_get d k) (JInt 0))"

section \<open>Local results and progress\<close>

definition resolve_result_envelope ::
  "dict \<Rightarrow> string option \<Rightarrow> SiteGateway \<Rightarrow> MutationEnvelope option result" where
  "resolve_result_envelope d wk gw =
     (case parse_envelope (JObj d) of
        Some e \<Rightarrow> Inr (Some e)
      | None \<Rightarrow>
          (case Option.bind wk (map_of (gw_inflight_envelopes gw)) of
             Some e \<Rightarrow> Inr (Some e)
           | None \<Rightarrow>
               let work_id = py_str (py_or (dict_get d ''work_id'') (JStr []))
               in rbind (int_or_zero d ''attempt'') (\<lambda>attempt.
                    if work_id = [] \<or> attempt \<le> 0 \<or> \<not> gw_spool_enabled gw then Inr None
                    else case get_inflight_record work_id attempt (gw_spool gw) of
                      None \<Rightarrow> Inr None
                    | Some r \<Rightarrow>
                        (case (if_operation_id r, if_controller_id r, if_controller_epoch r) of
                           (Some oid, Some cid, Some epoch) \<Rightarrow>
                             if epoch \<le> 0 then Inr None
                             else Inr (Some \<lparr>me_controller_id = cid, me_controller_epoch = epoch,
                                             me_operation_id = oid\<rparr>)
                         | _ \<Rightarrow> Inr None))))"

definition forget_inflight :: "string \<Rightarrow> SiteGateway \<Rightarrow> SiteGateway" where
  "forget_inflight wk gw =
     gw\<lparr>gw_inflight := AList.delete wk (gw_inflight gw),
        gw_inflight_progress := AList.delete wk (gw_inflight_progress gw),
        gw_inflight_heartbeat := AList.delete wk (gw_inflight_heartbeat gw),
        gw_inflight_envelopes := AList.delete wk (gw_inflight_envelopes gw),
        gw_running_sent := AList.delete wk (gw_running_sent gw)\<rparr>"

definition local_result_publish ::
  "gateway_env \<Rightarrow> dict \<Rightarrow> bool \<Rightarrow> string \<Rightarrow> int \<Rightarrow> SiteGateway \<Rightarrow> SiteGateway" where
  "local_result_publish env d spooled work_id attempt gw =
     (if \<not> gw_has_client gw then gw
      else case gw_act env (Post (hub_result_subject (gw_site_id gw)) (JObj d)) gw of
        (Some err, gw1) \<Rightarrow> gw1
      | (None, gw1) \<Rightarrow>
          if spooled
          then gw1\<lparr>gw_spool := mark_result_delivered (ge_now env) work_id attempt (gw_spool gw1)\<rparr>
          else gw1)"

definition local_result_finish :: "gateway_env \<Rightarrow> string option \<Rightarrow> SiteGateway \<Rightarrow> SiteGateway" where
  "local_result_finish env wk gw =
     (case wk of
        None \<Rightarrow> gw
      | Some k \<Rightarrow>
          (case map_of (gw_inflight gw) k of
             None \<Rightarrow> gw
           | Some m \<Rightarrow>
               let gw1 = forget_inflight k gw;
                   gw2 = gw1\<lparr>gw_completed := AList.update k (ge_mono env) (gw_completed gw1)\<rparr>
               in snd (gw_act env (JsAck m) gw2)))"

definition local_result_count :: "dict \<Rightarrow> gw_eff" where
  "local_result_count d gw =
     (case dict_get d ''status'' of
        JArr xs \<Rightarrow> (Inl TypeError, gw)
      | JObj kvs \<Rightarrow> (Inl TypeError, gw)
      | v \<Rightarrow> (Inr (), if v = JStr ''failed'' \<or> v = JStr ''Failed''
                then gw_bump (\<lambda>s. s\<lparr>st_failed := st_failed s + 1\<rparr>) gw
                else gw_bump (\<lambda>s. s\<lparr>st_completed := st_completed s + 1\<rparr>) gw))"

definition on_local_result :: "gateway_env \<Rightarrow> json \<Rightarrow> gw_eff" where
  "on_local_result env data gw =
     (case as_dict data of
        None \<Rightarrow> (Inr (), gw)
      | Some d0 \<Rightarrow>
          let d1 = dict_setdefault ''node_id'' (JStr (gw_node_id gw))
                     (dict_setdefault ''site_id'' (JStr (gw_site_id gw)) d0);
              wk = work_key d1
          in case resolve_result_envelope d1 wk gw of
               Inl err \<Rightarrow> (Inl err, gw)
             | Inr None \<Rightarrow> (Inr (), gw)
             | Inr (Some e) \<Rightarrow>
                 let d = merge_envelope d1 e;
                     spooled = (gw_spool_enabled gw \<and> wk \<noteq> None);
                     work_id = py_str (dict_get d ''work_id'')
                 in if \<not> spooled
                    then local_result_count d
                           (local_result_finish env wk (local_result_publish env d False work_id 0 gw))
                    else case int_or_zero d ''attempt'' of
                      Inl err \<Rightarrow> (Inr (), gw)
                    | Inr attempt \<Rightarrow>
                        let sp = record_result (ge_now env) work_id attempt
                              (py_str (py_or (dict_get d ''status'') (JStr []))) d (gw_spool gw);
                            sp1 = update_inflight_state (ge_now env) work_id attempt ''terminal'' None sp;
                            gw1 = gw\<lparr>gw_spool := sp1\<rparr>
                        in local_result_count d
                             (local_result_finish env wk
                                (local_result_publish env d True work_id attempt gw1)))"

definition on_local_progress :: "gateway_env \<Rightarrow> json \<Rightarrow> SiteGateway \<Rightarrow> SiteGateway" where
  "on_local_progress env data gw =
     (case Option.bind (as_dict data) work_key of
        None \<Rightarrow> gw
      | Some k \<Rightarrow> gw\<lparr>gw_inflight_heartbeat := AList.update k (ge_mono env) (gw_inflight_heartbeat gw)\<rparr>)"

section \<open>Route bundles\<close>

text \<open>
  The decision on a bundle: whether it is answered as applied, with which error, and the gateway
  with the revision and hash it now holds.
\<close>

definition route_render ::
  "gateway_env \<Rightarrow> dict \<Rightarrow> int \<Rightarrow> json \<Rightarrow> SiteGateway \<Rightarrow> bool \<times> json \<times> SiteGateway" where
  "route_render env d rev_no h gw =
     (let (ok, err) = (if gw_has_renderer gw then ge_render env d else (True, JNull))
      in (ok, err, if ok then gw\<lparr>gw_route_bundle_rev := rev_no, gw_route_bundle_hash := h\<rparr> else gw))"

definition route_apply ::
  "gateway_env \<Rightarrow> bool \<Rightarrow> dict \<Rightarrow> int \<Rightarrow> json \<Rightarrow> SiteGateway \<Rightarrow> bool \<times> json \<times> SiteGateway" where
  "route_apply env duplicate d rev_no h gw =
     (if duplicate then
        (if rev_no > gw_route_bundle_rev gw \<or>
            (rev_no = gw_route_bundle_rev gw \<and> gw_route_bundle_hash gw \<noteq> h)
         then route_render env d rev_no h gw else (True, JNull, gw))
      else if rev_no < gw_route_bundle_rev gw then (True, JNull, gw)
      else if rev_no = gw_route_bundle_rev gw then
        (if truthy (gw_route_bundle_hash gw) \<and> h \<noteq> gw_route_bundle_hash gw
         then (False, JStr ''hash_mismatch'', gw) else (True, JNull, gw))
      else route_render env d rev_no h gw)"

definition on_route_bundle :: "gateway_env \<Rightarrow> json \<Rightarrow> gw_eff" where
  "on_route_bundle env data gw =
     (case as_dict data of
        None \<Rightarrow> (Inr (), gw)
      | Some d \<Rightarrow>
          (case parse_envelope data of
             None \<Rightarrow> (Inr (), gw)
           | Some e \<Rightarrow>
               let (dec, fence') = fence_begin (ge_now env) (fence_scope gw) e (gw_fence gw);
                   gw1 = gw\<lparr>gw_fence := fence'\<rparr>;
                   duplicate = (fd_status dec = Duplicate)
               in if fd_status dec = Stale then (Inr (), gw1)
                  else if py_str (py_or (dict_get d ''site_id'') (JStr (gw_site_id gw))) \<noteq> gw_site_id gw
                  then (Inr (), gw1)
                  else case int_or_zero d ''bundle_rev'' of
                    Inl err \<Rightarrow> (Inl err, gw1)
                  | Inr rev_no \<Rightarrow>
                      let h = dict_get d ''hash'';
                          gw2 = (if fd_epoch_advanced dec
                                 then gw1\<lparr>gw_route_bundle_rev := 0, gw_route_bundle_hash := JNull\<rparr>
                                 else gw1);
                          (ok, err, gw3) = route_apply env duplicate d rev_no h gw2;
                          gw4 = (if ok \<and> \<not> duplicate
                                 then gw3\<lparr>gw_fence := fence_commit (ge_now env) (fence_scope gw3) e (gw_fence gw3)\<rparr>
                                 else gw3);
                          ack = merge_envelope
                            [(''site_id'', JStr (gw_site_id gw)), (''bundle_rev'', JInt rev_no),
                             (''hash'', h), (''applied_at'', JInt (ge_now env)), (''ok'', JBool ok),
                             (''error'', err), (''duplicate'', JBool duplicate)] e
                      in (Inr (),
                          if gw_has_client gw4
                          then snd (gw_act env (Post (hub_route_ack_subject (gw_site_id gw)) (JObj ack)) gw4)
                          else gw4)))"

section \<open>Result replay\<close>

definition replay_result :: "gateway_env \<Rightarrow> ResultRecord \<Rightarrow> gw_eff" where
  "replay_result env rec gw =
     (if rr_operation_id rec = None then (Inr (), gw)
      else case gw_act env (Publish (hub_result_subject (gw_site_id gw)) (rr_payload rec)) gw of
        (None, gw1) \<Rightarrow>
          (Inr (), gw_bump (\<lambda>s. s\<lparr>st_result_replay_total := st_result_replay_total s + 1\<rparr>)
             (gw1\<lparr>gw_spool := mark_result_delivered (ge_now env) (rr_work_id rec) (rr_attempt rec)
                    (gw_spool gw1)\<rparr>))
      | (Some err, gw1) \<Rightarrow>
          (case next_result_retry_delay (rr_replay_attempts rec + 1) (gw_result_retry_min gw1)
                  (gw_result_retry_max gw1) of
             Inl e \<Rightarrow> (Inl e, gw1)
           | Inr delay \<Rightarrow>
               (Inr (), gw_bump (\<lambda>s. s\<lparr>st_result_replay_fail_total := st_result_replay_fail_total s + 1\<rparr>)
                  (gw1\<lparr>gw_spool := record_result_delivery_attempt (ge_now env) (rr_work_id rec)
                         (rr_attempt rec) (Some err) (Some (ge_now env + delay)) (gw_spool gw1)\<rparr>))))"

definition replay_spool_results :: "gateway_env \<Rightarrow> gw_eff" where
  "replay_spool_results env gw =
     (if \<not> gw_spool_enabled gw \<or> \<not> gw_has_client gw then (Inr (), gw)
      else sfor (replay_result env) (list_replay_ready_results 100 (ge_now env) (gw_spool gw)) gw)"

section \<open>Dispatching work\<close>

definition running_report :: "gateway_env \<Rightarrow> dict \<Rightarrow> string \<Rightarrow> SiteGateway \<Rightarrow> dict" where
  "running_report env d node_id gw =
     [(''work_id'', dict_get d ''work_id''), (''attempt'', dict_get d ''attempt''),
      (''site_id'', JStr (gw_site_id gw)), (''node_id'', JStr node_id),
      (''status'', JStr ''running''), (''observed_generation'', dict_get d ''desired_generation''),
      (''started_at'', JStr (ge_started_at env))]"

definition emit_running ::
  "gateway_env \<Rightarrow> dict \<Rightarrow> string \<Rightarrow> MutationEnvelope \<Rightarrow> SiteGateway \<Rightarrow> SiteGateway" where
  "emit_running env d node_id e gw =
     (if \<not> gw_has_client gw then gw
      else case work_key d of
        None \<Rightarrow> gw
      | Some k \<Rightarrow>
          if map_of (gw_running_sent gw) k \<noteq> None then gw
          else
            let gw1 = (if gw_spool_enabled gw \<and> gw_js_enabled gw
                  then case int_or_zero d ''attempt'' of
                      Inl _ \<Rightarrow> gw
                    | Inr attempt \<Rightarrow> gw\<lparr>gw_spool := update_inflight_state (ge_now env)
                        (py_str (dict_get d ''work_id'')) attempt ''running'' (Some node_id) (gw_spool gw)\<rparr>
                  else gw)
            in case gw_act env (Publish (hub_result_subject (gw_site_id gw))
                      (JObj (merge_envelope (running_report env d node_id gw) e))) gw1 of
                 (None, gw2) \<Rightarrow> gw2\<lparr>gw_running_sent := AList.update k (ge_mono env) (gw_running_sent gw2)\<rparr>
               | (Some _, gw2) \<Rightarrow> gw2)"

definition dispatch_work ::
  "gateway_env \<Rightarrow> dict \<Rightarrow> MutationEnvelope \<Rightarrow> SiteGateway \<Rightarrow> bool \<times> SiteGateway" where
  "dispatch_work env d e gw =
     (if \<not> gw_has_client gw then (False, gw)
      else
        let node_id = py_str (py_or (py_or (dict_get d ''preferred_node'') (dict_get d ''node_id''))
              (JStr (gw_node_id gw)))
        in case gw_act env (Publish (local_work_subject node_id) (JObj d)) gw of
             (Some _, gw1) \<Rightarrow> (False, gw1)
           | (None, gw1) \<Rightarrow>
               let gw2 = (if gw_spool_enabled gw1 \<and> \<not> gw_js_enabled gw1
                     then case int_or_zero d ''attempt'' of
                         Inl _ \<Rightarrow> gw1
                       | Inr attempt \<Rightarrow> gw1\<lparr>gw_spool := record_inflight (ge_now env)
                           (py_str (dict_get d ''work_id'')) attempt ''WORK_PULL''
                           (''WORK_PULL_'' @ gw_site_id gw1) 0 (Some node_id) ''accepted'' d (gw_spool gw1)\<rparr>
                     else gw1);
                   gw3 = (case work_key d of None \<Rightarrow> gw2
                     | Some k \<Rightarrow> gw2\<lparr>gw_inflight_envelopes := AList.update k e (gw_inflight_envelopes gw2)\<rparr>)
               in (True, emit_running env d node_id e gw3))"

section \<open>Pulled work\<close>

text \<open>\<^verbatim>\<open>lease_ids[idx] if idx < len(lease_ids) else ""\<close> on whatever JSON value the reply carried.\<close>

fun lease_at :: "json \<Rightarrow> nat \<Rightarrow> json result" where
  "lease_at (JArr xs) i = Inr (if i < length xs then xs ! i else JNull)"
| "lease_at (JStr s) i = Inr (if i < length s then JStr [s ! i] else JNull)"
| "lease_at (JObj kvs) i = (if i < length kvs then Inl KeyError else Inr JNull)"
| "lease_at _ i = Inl TypeError"

definition pull_ack_item :: "string \<Rightarrow> dict \<Rightarrow> MutationEnvelope \<Rightarrow> json" where
  "pull_ack_item lease_id d e =
     JObj (dict_update [(''lease_id'', JStr lease_id), (''work_id'', dict_get d ''work_id''),
       (''attempt'', dict_get d ''attempt'')] (as_dict_envelope e))"

definition pull_item ::
  "gateway_env \<Rightarrow> json \<Rightarrow> nat \<times> json \<Rightarrow> (json list \<times> SiteGateway, unit) eff" where
  "pull_item env lease_ids ii s =
     (case (ii, s) of ((idx, item), (acks, gw)) \<Rightarrow>
       (case as_dict item of
          None \<Rightarrow> (Inr (), (acks, gw))
        | Some d \<Rightarrow>
            (case parse_envelope item of
               None \<Rightarrow> (Inr (), (acks, gw))
             | Some e \<Rightarrow>
                 let (dec, fence') = fence_begin (ge_now env) (fence_scope gw) e (gw_fence gw);
                     gw1 = gw\<lparr>gw_fence := fence'\<rparr>
                 in case lease_at lease_ids idx of
                      Inl err \<Rightarrow> (Inl err, (acks, gw1))
                    | Inr v \<Rightarrow>
                        let lease_id = (if truthy v then py_str v else []);
                            acks' = (if lease_id = [] then acks else acks @ [pull_ack_item lease_id d e])
                        in if fd_status dec = Accept then
                             (case dispatch_work env d e gw1 of
                                (False, gw2) \<Rightarrow> (Inr (), (acks, gw2))
                              | (True, gw2) \<Rightarrow> (Inr (), (acks', gw2\<lparr>gw_fence :=
                                  fence_commit (ge_now env) (fence_scope gw2) e (gw_fence gw2)\<rparr>)))
                           else (Inr (), (acks', gw1)))))"

definition pull_ack_request :: "gateway_env \<Rightarrow> json list \<Rightarrow> SiteGateway \<Rightarrow> dict" where
  "pull_ack_request env acks gw =
     [(''site_id'', JStr (gw_site_id gw)), (''gateway_id'', JStr (gw_node_id gw)),
      (''lease_ids'', JArr (map (\<lambda>a. case as_dict a of
         Some d \<Rightarrow> dict_get d ''lease_id'' | None \<Rightarrow> JNull) acks)),
      (''ack_items'', JArr acks), (''accepted_at'', JInt (ge_now env)),
      (''timestamp'', JInt (ge_now env))]"

definition pull_items :: "gateway_env \<Rightarrow> json \<Rightarrow> json list \<Rightarrow> gw_eff" where
  "pull_items env lease_ids items gw =
     (case sfor (pull_item env lease_ids) (enumerate 0 items) ([], gw) of
        (Inl err, (acks, gw2)) \<Rightarrow> (Inl err, gw2)
      | (Inr _, (acks, gw2)) \<Rightarrow>
          if acks = [] then (Inr (), gw2)
          else (Inr (), snd (gw_request env (hub_work_ack_subject (gw_site_id gw2))
                 (JObj (pull_ack_request env acks gw2)) gw2)))"

definition pull_reply :: "gateway_env \<Rightarrow> json \<Rightarrow> gw_eff" where
  "pull_reply env resp gw =
     (if \<not> truthy resp then (Inr (), gw)
      else case as_dict resp of
        None \<Rightarrow> (Inl AttributeError, gw)
      | Some r \<Rightarrow>
          if \<not> truthy (dict_get r ''accepted'') then (Inr (), gw)
          else case py_iter (py_or (dict_get r ''work'') (JArr [])) of
            Inl err \<Rightarrow> (Inl err, gw)
          | Inr items \<Rightarrow> pull_items env (py_or (dict_get r ''lease_ids'') (JArr [])) items gw)"

definition pull_request :: "gateway_env \<Rightarrow> SiteGateway \<Rightarrow> dict" where
  "pull_request env gw =
     [(''site_id'', JStr (gw_site_id gw)), (''gateway_id'', JStr (gw_node_id gw)),
      (''limit'', JInt (max 1 (if gw_max_ack_pending gw = 0 then 1 else gw_max_ack_pending gw))),
      (''visibility_timeout_ms'', JInt (gw_ack_wait gw div 1000)),
      (''timestamp'', JInt (ge_now env))]"

definition poll_work_pull :: "gateway_env \<Rightarrow> time \<Rightarrow> gw_eff" where
  "poll_work_pull env now gw =
     (if now - gw_last_pull_at gw < gw_pull_interval gw then (Inr (), gw)
      else
        let gw0 = gw\<lparr>gw_last_pull_at := now\<rparr>
        in if \<not> gw_has_client gw0 then (Inr (), gw0)
           else case gw_request env (hub_work_pull_subject (gw_site_id gw0)) (JObj (pull_request env gw0)) gw0 of
             (Inl _, gw1) \<Rightarrow> (Inr (), gw1)
           | (Inr resp, gw1) \<Rightarrow> pull_reply env resp gw1)"

section \<open>JetStream work\<close>

definition js_nak :: "gateway_env \<Rightarrow> JetStreamMessage \<Rightarrow> SiteGateway \<Rightarrow> SiteGateway" where
  "js_nak env m gw =
     (case gw_act env (JsNak m) gw of
        (None, gw1) \<Rightarrow> gw_bump (\<lambda>s. s\<lparr>st_nacked := st_nacked s + 1\<rparr>) gw1
      | (Some _, gw1) \<Rightarrow> gw1)"

definition count_inflight :: "SiteGateway \<Rightarrow> SiteGateway" where
  "count_inflight gw = gw_bump (\<lambda>s. s\<lparr>st_inflight := int (length (gw_inflight gw))\<rparr>) gw"

definition setdefault_time :: "string \<Rightarrow> time \<Rightarrow> (string \<times> time) list \<Rightarrow> (string \<times> time) list" where
  "setdefault_time k t al = (case map_of al k of None \<Rightarrow> AList.update k t al | Some _ \<Rightarrow> al)"

text \<open>The spool's answer for a redelivered message: already finished, still in flight, or unknown.\<close>

datatype js_spool = JsFinished | JsStillInflight | JsUnknown

definition js_spool_state :: "dict \<Rightarrow> SiteGateway \<Rightarrow> js_spool" where
  "js_spool_state d gw =
     (if gw_spool_enabled gw \<and> gw_js_enabled gw \<and> dict_get d ''work_id'' \<noteq> JNull \<and>
         dict_get d ''attempt'' \<noteq> JNull
      then case py_int_raise (dict_get d ''attempt'') of
          Inl _ \<Rightarrow> JsUnknown
        | Inr attempt \<Rightarrow>
            let work_id = py_str (dict_get d ''work_id'')
            in if get_result work_id attempt (gw_spool gw) \<noteq> None then JsFinished
               else (case get_inflight_state work_id attempt (gw_spool gw) of
                       Some st \<Rightarrow> if st \<noteq> [] \<and> st \<noteq> ''abandoned'' then JsStillInflight else JsUnknown
                     | None \<Rightarrow> JsUnknown)
      else JsUnknown)"

definition abandon_inflight :: "gateway_env \<Rightarrow> string \<Rightarrow> int result \<Rightarrow> SiteGateway \<Rightarrow> SiteGateway" where
  "abandon_inflight env work_id attempt gw =
     (if gw_spool_enabled gw
      then case attempt of Inl _ \<Rightarrow> gw
        | Inr a \<Rightarrow> gw\<lparr>gw_spool := update_inflight_state (ge_now env) work_id a ''abandoned'' None (gw_spool gw)\<rparr>
      else gw)"

definition js_known_inflight :: "gateway_env \<Rightarrow> time \<Rightarrow> JetStreamMessage \<Rightarrow> dict \<Rightarrow> string \<Rightarrow> SiteGateway \<Rightarrow> SiteGateway"
where
  "js_known_inflight env now m d k gw =
     (let heartbeat_at = (case map_of (gw_inflight_heartbeat gw) k of Some t \<Rightarrow> t
            | None \<Rightarrow> (case map_of (gw_inflight_progress gw) k of Some t \<Rightarrow> t | None \<Rightarrow> now))
      in if now - heartbeat_at > gw_heartbeat_timeout gw then
           count_inflight (forget_inflight k
             (abandon_inflight env (py_str (dict_get d ''work_id'')) (py_int_raise (dict_get d ''attempt''))
                (js_nak env m (gw_bump (\<lambda>s. s\<lparr>st_stale := st_stale s + 1\<rparr>) gw))))
         else snd (gw_act env (JsProgress m) gw))"

definition js_record_accepted :: "gateway_env \<Rightarrow> JetStreamMessage \<Rightarrow> dict \<Rightarrow> SiteGateway \<Rightarrow> SiteGateway" where
  "js_record_accepted env m d gw =
     (if gw_spool_enabled gw \<and> gw_js_enabled gw \<and> dict_get d ''work_id'' \<noteq> JNull \<and>
         dict_get d ''attempt'' \<noteq> JNull
      then case py_int_raise (dict_get d ''attempt'') of
          Inl _ \<Rightarrow> gw
        | Inr attempt \<Rightarrow> gw\<lparr>gw_spool := record_inflight (ge_now env) (py_str (dict_get d ''work_id''))
            attempt (case jm_stream m of Some (c # cs) \<Rightarrow> c # cs | _ \<Rightarrow> gw_js_stream gw)
            (case jm_consumer m of Some (c # cs) \<Rightarrow> c # cs | _ \<Rightarrow> ''WORK_SITE_'' @ gw_site_id gw)
            (case jm_seq m of None \<Rightarrow> 0 | Some n \<Rightarrow> n) None ''accepted'' d (gw_spool gw)\<rparr>
      else gw)"

definition js_track :: "time \<Rightarrow> JetStreamMessage \<Rightarrow> dict \<Rightarrow> MutationEnvelope \<Rightarrow> SiteGateway \<Rightarrow> SiteGateway" where
  "js_track now m d e gw =
     (case work_key d of
        None \<Rightarrow> gw
      | Some k \<Rightarrow>
          gw_bump (\<lambda>s. s\<lparr>st_accepted := st_accepted s + 1\<rparr>)
            (count_inflight (gw\<lparr>gw_inflight := AList.update k m (gw_inflight gw),
               gw_inflight_progress := AList.update k now (gw_inflight_progress gw),
               gw_inflight_heartbeat := AList.update k now (gw_inflight_heartbeat gw),
               gw_inflight_envelopes := AList.update k e (gw_inflight_envelopes gw)\<rparr>)))"

definition js_accept :: "gateway_env \<Rightarrow> time \<Rightarrow> JetStreamMessage \<Rightarrow> dict \<Rightarrow> MutationEnvelope \<Rightarrow> SiteGateway \<Rightarrow> SiteGateway"
where
  "js_accept env now m d e gw =
     (case dispatch_work env d e (js_record_accepted env m d gw) of
        (False, gw2) \<Rightarrow> js_nak env m gw2
      | (True, gw2) \<Rightarrow>
          js_track now m d e
            (gw2\<lparr>gw_fence := fence_commit (ge_now env) (fence_scope gw2) e (gw_fence gw2)\<rparr>))"

definition poll_js_message :: "gateway_env \<Rightarrow> time \<Rightarrow> JetStreamMessage \<Rightarrow> SiteGateway \<Rightarrow> SiteGateway" where
  "poll_js_message env now m gw =
     (case as_dict (jm_data m) of
        None \<Rightarrow> gw
      | Some d \<Rightarrow>
          (case parse_envelope (jm_data m) of
             None \<Rightarrow> snd (gw_act env (JsAck m) gw)
           | Some e \<Rightarrow>
               let (dec, fence') = fence_begin (ge_now env) (fence_scope gw) e (gw_fence gw);
                   gw1 = gw\<lparr>gw_fence := fence'\<rparr>;
                   wk = work_key d
               in if fd_status dec \<noteq> Accept then snd (gw_act env (JsAck m) gw1)
                  else case js_spool_state d gw1 of
                    JsFinished \<Rightarrow>
                      let gw2 = snd (gw_act env (JsAck m) gw1)
                      in (case wk of None \<Rightarrow> gw2
                          | Some k \<Rightarrow> gw2\<lparr>gw_completed := AList.update k now (gw_completed gw2)\<rparr>)
                  | JsStillInflight \<Rightarrow>
                      (case wk of None \<Rightarrow> gw1
                       | Some k \<Rightarrow> count_inflight (gw1\<lparr>gw_inflight := AList.update k m (gw_inflight gw1),
                           gw_inflight_progress := setdefault_time k now (gw_inflight_progress gw1),
                           gw_inflight_heartbeat := setdefault_time k now (gw_inflight_heartbeat gw1)\<rparr>))
                  | JsUnknown \<Rightarrow>
                      (case wk of
                         Some k \<Rightarrow>
                           if map_of (gw_inflight gw1) k \<noteq> None then js_known_inflight env now m d k gw1
                           else if map_of (gw_completed gw1) k \<noteq> None then snd (gw_act env (JsAck m) gw1)
                           else js_accept env now m d e gw1
                       | None \<Rightarrow> js_accept env now m d e gw1)))"

definition poll_js :: "gateway_env \<Rightarrow> time \<Rightarrow> SiteGateway \<Rightarrow> SiteGateway" where
  "poll_js env now gw =
     (if \<not> gw_has_client gw then gw
      else case ge_fetch env of None \<Rightarrow> gw | Some ms \<Rightarrow> fold (poll_js_message env now) ms gw)"

section \<open>Progress of inflight work\<close>

text \<open>\<^verbatim>\<open>work_key.split(":", 1)\<close> cuts at the first colon.\<close>

definition split_work_key :: "string \<Rightarrow> string \<times> int result" where
  "split_work_key k =
     (let rest = dropWhile (\<lambda>c. c \<noteq> CHR '':'') k
      in (takeWhile (\<lambda>c. c \<noteq> CHR '':'') k,
          case rest of [] \<Rightarrow> Inl (ValueError ''unpack'') | _ # a \<Rightarrow> py_int_raise (JStr a)))"

definition progress_one :: "gateway_env \<Rightarrow> time \<Rightarrow> string \<times> JetStreamMessage \<Rightarrow> SiteGateway \<Rightarrow> SiteGateway" where
  "progress_one env now km gw =
     (let (k, m) = km;
          last_at = (case map_of (gw_inflight_progress gw) k of Some t \<Rightarrow> t | None \<Rightarrow> 0);
          heartbeat_at = (case map_of (gw_inflight_heartbeat gw) k of Some t \<Rightarrow> t
            | None \<Rightarrow> if last_at \<noteq> 0 then last_at else now)
      in if now - heartbeat_at > gw_heartbeat_timeout gw then
           count_inflight (forget_inflight k
             (abandon_inflight env (fst (split_work_key k)) (snd (split_work_key k))
                (js_nak env m (gw_bump (\<lambda>s. s\<lparr>st_stale := st_stale s + 1\<rparr>) gw))))
         else if now - last_at \<ge> gw_progress_interval gw then
           (case gw_act env (JsProgress m) gw of
              (None, gw1) \<Rightarrow> gw1\<lparr>gw_inflight_progress := AList.update k now (gw_inflight_progress gw1)\<rparr>
            | (Some _, gw1) \<Rightarrow> gw1)
         else gw)"

definition prune_older :: "time \<Rightarrow> time \<Rightarrow> (string \<times> time) list \<Rightarrow> (string \<times> time) list" where
  "prune_older ttl now al = filter (\<lambda>kt. \<not> now - snd kt > ttl) al"

definition run_progress :: "gateway_env \<Rightarrow> time \<Rightarrow> SiteGateway \<Rightarrow> SiteGateway" where
  "run_progress env now gw =
     (if gw_inflight gw = [] then gw
      else
        let gw1 = fold (progress_one env now) (gw_inflight gw) gw;
            ttl = max 30000000 (gw_ack_wait gw1 * 3)
        in gw1\<lparr>gw_completed := prune_older ttl now (gw_completed gw1),
               gw_running_sent := prune_older ttl now (gw_running_sent gw1)\<rparr>)"

section \<open>Node lease\<close>

definition schedule_lease_retry :: "gateway_env \<Rightarrow> time \<Rightarrow> SiteGateway \<Rightarrow> SiteGateway" where
  "schedule_lease_retry env now gw =
     (let delay = max 0 (gw_lease_backoff gw + ge_jitter env (gw_lease_backoff gw))
      in gw_bump (\<lambda>s. s\<lparr>st_lease_retry_total := st_lease_retry_total s + 1\<rparr>)
           (gw\<lparr>gw_lease_next_attempt_at := now + delay,
               gw_lease_backoff := min (gw_lease_backoff gw * 2) (gw_lease_retry_max gw)\<rparr>))"

definition reset_lease_retry :: "SiteGateway \<Rightarrow> SiteGateway" where
  "reset_lease_retry gw = gw\<lparr>gw_lease_backoff := gw_lease_retry_min gw, gw_lease_next_attempt_at := 0\<rparr>"

text \<open>
  The part of a lease reply both operations share: the reply is accepted, carries an envelope for
  the request, and the fence admits it.
\<close>

datatype lease_reply =
    LrFailed
  | LrRejected
  | LrRaises py_error
  | LrNoEnvelope
  | LrStale
  | LrDuplicate
  | LrGranted dict MutationEnvelope

definition lease_exchange ::
  "gateway_env \<Rightarrow> string \<Rightarrow> dict \<Rightarrow> string \<Rightarrow> SiteGateway \<Rightarrow> lease_reply \<times> SiteGateway" where
  "lease_exchange env subject req request_id gw =
     (case gw_request env subject (JObj req) gw of
        (Inl _, gw1) \<Rightarrow> (LrFailed, gw1)
      | (Inr resp, gw1) \<Rightarrow>
          (case as_dict resp of
             None \<Rightarrow> (LrRaises AttributeError, gw1)
           | Some r \<Rightarrow>
               if \<not> truthy (dict_get r ''accepted'') then (LrRejected, gw1)
               else case parse_envelope resp of
                 None \<Rightarrow> (LrNoEnvelope, gw1)
               | Some e \<Rightarrow>
                   if me_operation_id e \<noteq> request_id then (LrNoEnvelope, gw1)
                   else
                     let (dec, fence') = fence_begin (ge_now env) (fence_scope gw1) e (gw_fence gw1);
                         gw2 = gw1\<lparr>gw_fence := fence'\<rparr>
                     in (case fd_status dec of Stale \<Rightarrow> LrStale | Duplicate \<Rightarrow> LrDuplicate
                           | Accept \<Rightarrow> LrGranted r e, gw2)))"

definition lease_acquire_request :: "gateway_env \<Rightarrow> string \<Rightarrow> SiteGateway \<Rightarrow> dict" where
  "lease_acquire_request env request_id gw =
     [(''site_id'', JStr (gw_site_id gw)), (''node_id'', JStr (gw_node_id gw)),
      (''session_id'', JStr (gw_session_id gw)), (''timestamp'', JInt (ge_now env)),
      (''backend'', JStr (gw_gateway_backend gw)), (''labels'', JObj (gw_node_labels gw)),
      (''request_id'', JStr request_id)]"

definition gw_acquire_lease :: "gateway_env \<Rightarrow> time \<Rightarrow> SiteGateway \<Rightarrow> bool result \<times> SiteGateway" where
  "gw_acquire_lease env now gw =
     (if \<not> gw_has_client gw then (Inr False, gw)
      else
        let request_id = (case gw_lease_acquire_request_id gw of Some (c # cs) \<Rightarrow> c # cs
              | _ \<Rightarrow> ''lease.acquire:'' @ ge_request_id env);
            gw0 = gw\<lparr>gw_lease_acquire_request_id := Some request_id\<rparr>
        in case lease_exchange env (hub_lease_acquire_subject (gw_site_id gw0))
                  (lease_acquire_request env request_id gw0) request_id gw0 of
             (LrFailed, gw1) \<Rightarrow> (Inr False, schedule_lease_retry env now gw1)
           | (LrRejected, gw1) \<Rightarrow>
               (Inr False, schedule_lease_retry env now (gw1\<lparr>gw_lease_acquire_request_id := None\<rparr>))
           | (LrRaises err, gw1) \<Rightarrow> (Inl err, gw1)
           | (LrNoEnvelope, gw1) \<Rightarrow> (Inr False, schedule_lease_retry env now gw1)
           | (LrStale, gw1) \<Rightarrow>
               (Inr False, schedule_lease_retry env now (gw1\<lparr>gw_lease_acquire_request_id := None\<rparr>))
           | (LrDuplicate, gw1) \<Rightarrow> (Inr True, gw1\<lparr>gw_lease_acquire_request_id := None\<rparr>)
           | (LrGranted r e, gw1) \<Rightarrow>
               let gw2 = gw1\<lparr>gw_lease_id := Some (py_str (py_or (dict_get r ''lease_id'') (JStr [])))\<rparr>
               in (case int_or_zero r ''lease_ttl_ms'' of
                     Inl err \<Rightarrow> (Inl err, gw2)
                   | Inr ttl \<Rightarrow>
                       let gw3 = gw2\<lparr>gw_lease_ttl_ms := ttl\<rparr>
                       in (case int_or_zero r ''renew_after_ms'' of
                             Inl err \<Rightarrow> (Inl err, gw3)
                           | Inr renew \<Rightarrow>
                               let gw4 = gw3\<lparr>gw_renew_after_ms := renew,
                                     gw_next_renew_at := ge_mono env + max 1000000 (renew * 1000),
                                     gw_fence := fence_commit (ge_now env) (fence_scope gw3) e (gw_fence gw3),
                                     gw_lease_acquire_request_id := None\<rparr>
                               in (Inr True, reset_lease_retry gw4))))"

definition lease_renew_request :: "gateway_env \<Rightarrow> string \<Rightarrow> SiteGateway \<Rightarrow> dict" where
  "lease_renew_request env request_id gw =
     [(''site_id'', JStr (gw_site_id gw)), (''node_id'', JStr (gw_node_id gw)),
      (''session_id'', JStr (gw_session_id gw)), (''lease_id'', json_opt_str (gw_lease_id gw)),
      (''timestamp'', JInt (ge_now env)), (''request_id'', JStr request_id)]"

definition int_or_keep :: "dict \<Rightarrow> string \<Rightarrow> int \<Rightarrow> int result" where
  "int_or_keep d k old = py_int_raise (py_or (dict_get d k) (JInt old))"

definition lose_gateway_lease :: "gateway_env \<Rightarrow> time \<Rightarrow> SiteGateway \<Rightarrow> SiteGateway" where
  "lose_gateway_lease env now gw =
     schedule_lease_retry env now (gw\<lparr>gw_lease_renew_request_id := None, gw_lease_id := None,
       gw_next_renew_at := now + 1000000\<rparr>)"

definition maybe_renew :: "gateway_env \<Rightarrow> time \<Rightarrow> gw_eff" where
  "maybe_renew env now gw =
     (if \<not> gw_has_client gw \<or> gw_lease_id gw = None \<or> gw_lease_id gw = Some [] \<or>
         now < gw_next_renew_at gw
      then (Inr (), gw)
      else
        let request_id = (case gw_lease_renew_request_id gw of Some (c # cs) \<Rightarrow> c # cs
              | _ \<Rightarrow> ''lease.renew:'' @ ge_request_id env);
            gw0 = gw\<lparr>gw_lease_renew_request_id := Some request_id\<rparr>
        in case lease_exchange env (hub_lease_renew_subject (gw_site_id gw0))
                  (lease_renew_request env request_id gw0) request_id gw0 of
             (LrFailed, gw1) \<Rightarrow> (Inr (), gw1\<lparr>gw_next_renew_at := now + 2000000\<rparr>)
           | (LrRejected, gw1) \<Rightarrow> (Inr (), lose_gateway_lease env now gw1)
           | (LrRaises err, gw1) \<Rightarrow> (Inl err, gw1)
           | (LrNoEnvelope, gw1) \<Rightarrow> (Inr (), gw1\<lparr>gw_next_renew_at := now + 1000000\<rparr>)
           | (LrStale, gw1) \<Rightarrow> (Inr (), lose_gateway_lease env now gw1)
           | (LrDuplicate, gw1) \<Rightarrow> (Inr (), gw1\<lparr>gw_lease_renew_request_id := None\<rparr>)
           | (LrGranted r e, gw1) \<Rightarrow>
               (case int_or_keep r ''lease_ttl_ms'' (gw_lease_ttl_ms gw1) of
                  Inl err \<Rightarrow> (Inl err, gw1)
                | Inr ttl \<Rightarrow>
                    let gw2 = gw1\<lparr>gw_lease_ttl_ms := ttl\<rparr>
                    in (case int_or_keep r ''renew_after_ms'' (gw_renew_after_ms gw2) of
                          Inl err \<Rightarrow> (Inl err, gw2)
                        | Inr renew \<Rightarrow>
                            (Inr (), gw2\<lparr>gw_renew_after_ms := renew,
                               gw_next_renew_at := now + max 1000000 (renew * 1000),
                               gw_fence := fence_commit (ge_now env) (fence_scope gw2) e (gw_fence gw2),
                               gw_lease_renew_request_id := None\<rparr>))))"

definition maybe_acquire :: "gateway_env \<Rightarrow> time \<Rightarrow> gw_eff" where
  "maybe_acquire env now gw =
     (if (gw_lease_id gw \<noteq> None \<and> gw_lease_id gw \<noteq> Some []) \<or> now < gw_lease_next_attempt_at gw
      then (Inr (), gw)
      else case gw_acquire_lease env now gw of
        (Inl err, gw1) \<Rightarrow> (Inl err, gw1) | (Inr _, gw1) \<Rightarrow> (Inr (), gw1))"

section \<open>Transport\<close>

definition schedule_transport_retry :: "time \<Rightarrow> SiteGateway \<Rightarrow> SiteGateway" where
  "schedule_transport_retry now gw =
     gw\<lparr>gw_transport_next_connect_at := now + gw_transport_backoff gw,
        gw_transport_backoff := min (gw_transport_backoff gw * 2) (gw_transport_retry_max gw)\<rparr>"

text \<open>\<open>ge_connected\<close> is the client's connection flag; the connect action covers connecting and subscribing.\<close>

definition ensure_transport_connected :: "gateway_env \<Rightarrow> time \<Rightarrow> SiteGateway \<Rightarrow> bool \<times> SiteGateway" where
  "ensure_transport_connected env now gw =
     (if \<not> gw_has_client gw then (False, gw)
      else if gw_transport_ready gw \<and> ge_connected env then (True, gw)
      else
        let gw0 = gw\<lparr>gw_transport_ready := False\<rparr>
        in if now < gw_transport_next_connect_at gw0 then (False, gw0)
           else case gw_act env Connect gw0 of
             (Some _, gw1) \<Rightarrow> (False, schedule_transport_retry now gw1)
           | (None, gw1) \<Rightarrow>
               (True, gw1\<lparr>gw_js_enabled := gw_backend_js gw1,
                  gw_subscriptions := gw_subscriptions gw1 @ [local_result_subject,
                    local_work_progress_subject, hub_route_bundle_subject (gw_site_id gw1)],
                  gw_transport_ready := True, gw_transport_backoff := gw_transport_retry_min gw1,
                  gw_transport_next_connect_at := 0\<rparr>))"

definition on_transport_reconnect :: "SiteGateway \<Rightarrow> SiteGateway" where
  "on_transport_reconnect gw =
     (if gw_spool_enabled gw then gw\<lparr>gw_spool := reset_replay_schedule (gw_spool gw)\<rparr> else gw)"

text \<open>One turn of the service loop, without the telemetry it publishes at the end.\<close>

definition gateway_tick :: "gateway_env \<Rightarrow> time \<Rightarrow> gw_eff" where
  "gateway_tick env now gw =
     (let (ready, gw1) = ensure_transport_connected env now gw;
          gw2 = run_progress env now gw1
      in if \<not> ready then (Inr (), gw2)
         else ebind (ebind (maybe_acquire env now) (\<lambda>_. maybe_renew env now)) (\<lambda>_.
                ebind (\<lambda>g. if gw_js_enabled g then (Inr (), poll_js env now g)
                           else poll_work_pull env now g)
                  (\<lambda>_. replay_spool_results env)) gw2)"

section \<open>Events\<close>

datatype gw_event =
    EvLocalResult gateway_env json
  | EvLocalProgress gateway_env json
  | EvRouteBundle gateway_env json
  | EvReconnect
  | EvTick gateway_env time

fun gw_step :: "gw_event \<Rightarrow> SiteGateway \<Rightarrow> SiteGateway" where
  "gw_step (EvLocalResult env data) gw = snd (on_local_result env data gw)"
| "gw_step (EvLocalProgress env data) gw = on_local_progress env data gw"
| "gw_step (EvRouteBundle env data) gw = snd (on_route_bundle env data gw)"
| "gw_step EvReconnect gw = on_transport_reconnect gw"
| "gw_step (EvTick env now) gw = snd (gateway_tick env now gw)"

text \<open>A call that published work with the given operation id to a node of the site, and returned.\<close>

definition is_dispatch :: "string \<Rightarrow> gw_action \<times> bool \<Rightarrow> bool" where
  "is_dispatch oid ab =
     (case ab of
        (Publish s (JObj d), True) \<Rightarrow>
          take 18 s = ''k1s.v1.local.work.'' \<and>
          map_option me_operation_id (parse_envelope (JObj d)) = Some oid
      | _ \<Rightarrow> False)"

definition dispatches :: "string \<Rightarrow> (gw_action \<times> bool) list \<Rightarrow> nat" where
  "dispatches oid l = length (filter (is_dispatch oid) l)"

text \<open>
  Steps that neither dispatch work nor forget a commit, and steps that leave the spooled results
  alone; most handlers are compositions of both.
\<close>

definition gw_quiet :: "SiteGateway \<Rightarrow> SiteGateway \<Rightarrow> bool" where
  "gw_quiet gw gw' \<longleftrightarrow> gw_site_id gw' = gw_site_id gw \<and>
     (\<forall>oid. fence_committed (gw_fence gw) (fence_scope gw) oid \<longrightarrow>
        fence_committed (gw_fence gw') (fence_scope gw) oid) \<and>
     (\<exists>l. gw_log gw' = gw_log gw @ l \<and> (\<forall>oid. dispatches oid l = 0))"

definition gw_results_kept :: "SiteGateway \<Rightarrow> SiteGateway \<Rightarrow> bool" where
  "gw_results_kept gw gw' \<longleftrightarrow> gw_site_id gw' = gw_site_id gw \<and>
     set (gw_log gw) \<subseteq> set (gw_log gw') \<and> sp_results (gw_spool gw') = sp_results (gw_spool gw)"

lemma dispatches_simps [simp]:
  "dispatches oid [] = 0" "dispatches oid (x # l) = (if is_dispatch oid x then 1 else 0) + dispatches oid l"
  "dispatches oid (l @ l') = dispatches oid l + dispatches oid l'"
  by (simp_all add: dispatches_def)

lemma is_dispatch_simps [simp]:
  "\<not> is_dispatch oid (a, False)" "\<not> is_dispatch oid (Request sub p, b)" "\<not> is_dispatch oid (JsAck m, b)"
  "\<not> is_dispatch oid (JsNak m, b)" "\<not> is_dispatch oid (JsProgress m, b)" "\<not> is_dispatch oid (Connect, b)"
  "\<not> is_dispatch oid (Publish (hub_result_subject x) j, b)"
  "\<not> is_dispatch oid (Post s j, b)"
  by (auto simp: is_dispatch_def hub_result_subject_def
      split: gw_action.splits json.splits bool.splits)

lemma gw_quiet_refl [simp]: "gw_quiet gw gw"
  by (auto simp: gw_quiet_def)

lemma gw_quiet_trans [trans]: "gw_quiet a b \<Longrightarrow> gw_quiet b c \<Longrightarrow> gw_quiet a c"
  by (auto simp: gw_quiet_def fence_scope_def)

lemma gw_results_kept_refl [simp]: "gw_results_kept gw gw"
  by (simp add: gw_results_kept_def)

lemma gw_results_kept_trans [trans]:
  "gw_results_kept a b \<Longrightarrow> gw_results_kept b c \<Longrightarrow> gw_results_kept a c"
  by (auto simp: gw_results_kept_def)

text \<open>Updates of fields other than the site, the log, the fence and the spool.\<close>

lemma gw_quietI:
  assumes "gw_site_id gw' = gw_site_id gw" and "gw_fence gw' = gw_fence gw" and "gw_log gw' = gw_log gw"
  shows "gw_quiet gw gw'"
  using assms by (auto simp: gw_quiet_def fence_scope_def)

lemma gw_results_keptI:
  assumes "gw_site_id gw' = gw_site_id gw" and "gw_log gw' = gw_log gw"
    and "sp_results (gw_spool gw') = sp_results (gw_spool gw)"
  shows "gw_results_kept gw gw'"
  using assms by (simp add: gw_results_kept_def)

lemma sp_results_inflight [simp]:
  "sp_results (record_inflight n w a s c q d t p sp) = sp_results sp"
  "sp_results (update_inflight_state n w a t d sp) = sp_results sp"
  by (simp_all add: record_inflight_def update_inflight_state_def Let_def)

lemma gw_bump_fields [simp]:
  "gw_site_id (gw_bump f gw) = gw_site_id gw" "gw_fence (gw_bump f gw) = gw_fence gw"
  "gw_log (gw_bump f gw) = gw_log gw" "gw_spool (gw_bump f gw) = gw_spool gw"
  by (simp_all add: gw_bump_def)

definition no_dispatch :: "gw_action \<Rightarrow> bool" where
  "no_dispatch a \<longleftrightarrow> (\<forall>oid b. \<not> is_dispatch oid (a, b))"

lemma no_dispatch_simps [simp]:
  "no_dispatch (Request sub p)" "no_dispatch (JsAck m)" "no_dispatch (JsNak m)" "no_dispatch (JsProgress m)"
  "no_dispatch Connect" "no_dispatch (Publish (hub_result_subject x) j)"
  "no_dispatch (Post s j)"
  by (simp_all add: no_dispatch_def)

lemma gw_act_fields:
  assumes "gw_act env a gw = (err, gw')"
  shows "gw' = gw\<lparr>gw_log := gw_log gw @ [(a, err = None)]\<rparr>"
  using assms by (auto simp: gw_act_def Let_def)

lemma gw_act_quiet:
  assumes "no_dispatch a" and "gw_act env a gw = (err, gw')"
  shows "gw_quiet gw gw'"
  using assms(1) gw_act_fields [OF assms(2)]
  by (auto simp: gw_quiet_def fence_scope_def no_dispatch_def intro!: exI [of _ "[(a, err = None)]"])

lemma gw_act_results:
  assumes "gw_act env a gw = (err, gw')"
  shows "gw_results_kept gw gw'"
  using gw_act_fields [OF assms] by (auto simp: gw_results_kept_def)

lemma snd_gw_act [simp]:
  "no_dispatch a \<Longrightarrow> gw_quiet gw (snd (gw_act env a gw))"
  "gw_results_kept gw (snd (gw_act env a gw))"
  using gw_act_quiet gw_act_results by (metis surjective_pairing)+

lemma gw_begin_quiet:
  assumes "fence_begin now (fence_scope gw) e (gw_fence gw) = (dec, f)"
  shows "gw_quiet gw (gw\<lparr>gw_fence := f\<rparr>)" and "gw_results_kept gw (gw\<lparr>gw_fence := f\<rparr>)"
  using fence_committed_begin [OF assms] by (auto simp: gw_quiet_def gw_results_kept_def fence_scope_def)

lemma gw_commit_quiet:
  "gw_quiet gw (gw\<lparr>gw_fence := fence_commit now (fence_scope gw) e (gw_fence gw)\<rparr>)"
  "gw_results_kept gw (gw\<lparr>gw_fence := fence_commit now (fence_scope gw) e (gw_fence gw)\<rparr>)"
  by (auto simp: gw_quiet_def gw_results_kept_def fence_scope_def fence_committed_commit)

definition gw_calm :: "SiteGateway \<Rightarrow> SiteGateway \<Rightarrow> bool" where
  "gw_calm gw gw' \<longleftrightarrow> gw_quiet gw gw' \<and> gw_results_kept gw gw'"

lemma gw_calm_refl [simp]: "gw_calm gw gw"
  by (simp add: gw_calm_def)

lemma gw_calm_trans [trans]: "gw_calm a b \<Longrightarrow> gw_calm b c \<Longrightarrow> gw_calm a c"
  using gw_quiet_trans gw_results_kept_trans unfolding gw_calm_def by blast

lemma gw_calm_upd [simp]:
  "gw_calm g (x\<lparr>gw_inflight := v_gw_inflight\<rparr>) = gw_calm g x"
  "gw_calm g (x\<lparr>gw_inflight_progress := v_gw_inflight_progress\<rparr>) = gw_calm g x"
  "gw_calm g (x\<lparr>gw_inflight_heartbeat := v_gw_inflight_heartbeat\<rparr>) = gw_calm g x"
  "gw_calm g (x\<lparr>gw_inflight_envelopes := v_gw_inflight_envelopes\<rparr>) = gw_calm g x"
  "gw_calm g (x\<lparr>gw_completed := v_gw_completed\<rparr>) = gw_calm g x"
  "gw_calm g (x\<lparr>gw_running_sent := v_gw_running_sent\<rparr>) = gw_calm g x"
  "gw_calm g (x\<lparr>gw_last_pull_at := v_gw_last_pull_at\<rparr>) = gw_calm g x"
  "gw_calm g (x\<lparr>gw_lease_id := v_gw_lease_id\<rparr>) = gw_calm g x"
  "gw_calm g (x\<lparr>gw_lease_acquire_request_id := v_gw_lease_acquire_request_id\<rparr>) = gw_calm g x"
  "gw_calm g (x\<lparr>gw_lease_renew_request_id := v_gw_lease_renew_request_id\<rparr>) = gw_calm g x"
  "gw_calm g (x\<lparr>gw_lease_ttl_ms := v_gw_lease_ttl_ms\<rparr>) = gw_calm g x"
  "gw_calm g (x\<lparr>gw_renew_after_ms := v_gw_renew_after_ms\<rparr>) = gw_calm g x"
  "gw_calm g (x\<lparr>gw_next_renew_at := v_gw_next_renew_at\<rparr>) = gw_calm g x"
  "gw_calm g (x\<lparr>gw_lease_next_attempt_at := v_gw_lease_next_attempt_at\<rparr>) = gw_calm g x"
  "gw_calm g (x\<lparr>gw_lease_backoff := v_gw_lease_backoff\<rparr>) = gw_calm g x"
  "gw_calm g (x\<lparr>gw_route_bundle_rev := v_gw_route_bundle_rev\<rparr>) = gw_calm g x"
  "gw_calm g (x\<lparr>gw_route_bundle_hash := v_gw_route_bundle_hash\<rparr>) = gw_calm g x"
  "gw_calm g (x\<lparr>gw_js_enabled := v_gw_js_enabled\<rparr>) = gw_calm g x"
  "gw_calm g (x\<lparr>gw_transport_ready := v_gw_transport_ready\<rparr>) = gw_calm g x"
  "gw_calm g (x\<lparr>gw_transport_backoff := v_gw_transport_backoff\<rparr>) = gw_calm g x"
  "gw_calm g (x\<lparr>gw_transport_next_connect_at := v_gw_transport_next_connect_at\<rparr>) = gw_calm g x"
  "gw_calm g (x\<lparr>gw_subscriptions := v_gw_subscriptions\<rparr>) = gw_calm g x"
  "gw_calm g (gw_bump f x) = gw_calm g x"
  by (simp_all add: gw_calm_def gw_quiet_def gw_results_kept_def)

lemma gw_calm_spool [simp]:
  "sp_results sp = sp_results (gw_spool x) \<Longrightarrow> gw_calm g (x\<lparr>gw_spool := sp\<rparr>) = gw_calm g x"
  by (simp add: gw_calm_def gw_quiet_def gw_results_kept_def)

lemma gw_calm_act: "gw_act env a x = (err, y) \<Longrightarrow> no_dispatch a \<Longrightarrow> gw_calm g x \<Longrightarrow> gw_calm g y"
  using gw_act_quiet gw_act_results gw_calm_trans unfolding gw_calm_def by blast

lemma gw_calm_snd_act: "no_dispatch a \<Longrightarrow> gw_calm g x \<Longrightarrow> gw_calm g (snd (gw_act env a x))"
  using gw_calm_act by (metis surjective_pairing)

lemma gw_calm_begin:
  "fence_begin now (fence_scope x) e (gw_fence x) = (dec, f) \<Longrightarrow> gw_calm g x \<Longrightarrow> gw_calm g (x\<lparr>gw_fence := f\<rparr>)"
  using gw_begin_quiet gw_calm_trans unfolding gw_calm_def by blast

lemma gw_calm_commit:
  "gw_calm g x \<Longrightarrow> gw_calm g (x\<lparr>gw_fence := fence_commit now (fence_scope x) e (gw_fence x)\<rparr>)"
  using gw_commit_quiet gw_calm_trans unfolding gw_calm_def by blast

lemma gw_request_calm: "gw_request env sub p x = (r, y) \<Longrightarrow> gw_calm g x \<Longrightarrow> gw_calm g y"
  by (auto simp: gw_request_def Let_def split: prod.splits option.splits intro: gw_calm_act)

lemmas calm_intros = gw_calm_act gw_calm_snd_act gw_calm_begin gw_calm_commit gw_request_calm

section \<open>Which handlers are calm\<close>

lemma on_local_progress_calm: "gw_calm gw (on_local_progress env data gw)"
  by (simp add: on_local_progress_def split: option.splits)

lemma route_apply_calm: "route_apply env dup d n h x = (ok, err, y) \<Longrightarrow> gw_calm g x \<Longrightarrow> gw_calm g y"
  by (auto simp: route_apply_def route_render_def Let_def split: if_splits prod.splits)

lemma on_route_bundle_calm: "gw_calm gw (snd (on_route_bundle env data gw))"
proof (cases "as_dict data = None \<or> parse_envelope data = None")
  case True
  then show ?thesis by (auto simp: on_route_bundle_def split: option.splits)
next
  case False
  then obtain d e where de: "as_dict data = Some d" "parse_envelope data = Some e" by auto
  obtain dec f where beg: "fence_begin (ge_now env) (fence_scope gw) e (gw_fence gw) = (dec, f)"
    by (metis surj_pair)
  have c1: "gw_calm gw (gw\<lparr>gw_fence := f\<rparr>)" by (rule gw_calm_begin [OF beg gw_calm_refl])
  show ?thesis
    using c1 by (auto simp: on_route_bundle_def de beg Let_def split: sum.splits prod.splits
        intro!: gw_calm_snd_act gw_calm_commit elim!: route_apply_calm)
qed

lemma emit_running_calm: "gw_calm g gw \<Longrightarrow> gw_calm g (emit_running env d node e gw)"
  by (auto simp: emit_running_def Let_def split: option.splits prod.splits sum.splits intro: gw_calm_act)

lemma js_nak_calm: "gw_calm g gw \<Longrightarrow> gw_calm g (js_nak env m gw)"
  by (auto simp: js_nak_def split: option.splits prod.splits intro: gw_calm_act)

lemma inflight_calm [simp]:
  "gw_calm g (count_inflight x) = gw_calm g x" "gw_calm g (forget_inflight k x) = gw_calm g x"
  "gw_calm g (abandon_inflight env w a x) = gw_calm g x"
  by (simp_all add: count_inflight_def forget_inflight_def abandon_inflight_def split: sum.splits)

lemma js_known_inflight_calm: "gw_calm g gw \<Longrightarrow> gw_calm g (js_known_inflight env now m d k gw)"
  by (simp add: js_known_inflight_def Let_def js_nak_calm gw_calm_snd_act)

lemma progress_one_calm: "gw_calm g gw \<Longrightarrow> gw_calm g (progress_one env now km gw)"
  by (auto simp: progress_one_def Let_def js_nak_calm split: prod.splits option.splits intro: gw_calm_act)

lemma run_progress_calm: "gw_calm gw (run_progress env now gw)"
proof -
  have "gw_calm g x \<Longrightarrow> gw_calm g (fold (progress_one env now) kms x)" for g x kms
    by (induction kms arbitrary: x) (simp_all add: progress_one_calm)
  then show ?thesis by (simp add: run_progress_def Let_def)
qed

lemma schedule_lease_retry_calm [simp]: "gw_calm g (schedule_lease_retry env now x) = gw_calm g x"
  by (simp add: schedule_lease_retry_def Let_def)

lemma lease_ops_calm [simp]:
  "gw_calm g (reset_lease_retry x) = gw_calm g x" "gw_calm g (lose_gateway_lease env now x) = gw_calm g x"
  by (simp_all add: reset_lease_retry_def lose_gateway_lease_def)

lemma lease_exchange_calm: "lease_exchange env sub req rid x = (r, y) \<Longrightarrow> gw_calm g x \<Longrightarrow> gw_calm g y"
  by (auto simp: lease_exchange_def Let_def split: prod.splits sum.splits option.splits if_splits
      intro: gw_request_calm gw_calm_begin)

lemma gw_calm_commit_upd:
  assumes "gw_calm g x" and "gw_site_id y = gw_site_id x" and "gw_fence x = f"
  shows "gw_calm g (x\<lparr>gw_fence := fence_commit now (fence_scope y) e f\<rparr>)"
  using gw_calm_commit [OF assms(1), of now e] assms(2,3) by (simp add: fence_scope_def)

lemma gw_acquire_lease_calm: "gw_calm gw (snd (gw_acquire_lease env now gw))"
  by (auto simp: gw_acquire_lease_def Let_def
      split: prod.splits lease_reply.splits sum.splits dest!: lease_exchange_calm [of _ _ _ _ _ _ _ gw]
      intro!: gw_calm_commit_upd)

lemma maybe_acquire_calm: "gw_calm gw (snd (maybe_acquire env now gw))"
  using gw_acquire_lease_calm [of gw env now]
  by (auto simp: maybe_acquire_def split: prod.splits sum.splits)

lemma maybe_renew_calm: "gw_calm gw (snd (maybe_renew env now gw))"
  by (auto simp: maybe_renew_def Let_def
      split: prod.splits lease_reply.splits sum.splits dest!: lease_exchange_calm [of _ _ _ _ _ _ _ gw]
      intro!: gw_calm_commit_upd)

lemma ensure_transport_calm: "gw_calm gw (snd (ensure_transport_connected env now gw))"
  by (auto simp: ensure_transport_connected_def schedule_transport_retry_def Let_def
      split: prod.splits option.splits intro: gw_calm_act)

section \<open>What reaches the network\<close>

text \<open>
  A message may be missing when its call raised or only scheduled it; all others were sent. \<open>reached l tr\<close>: with the calls of the log \<open>l\<close>,
  the messages \<open>tr\<close> may be what was sent, in whatever order.
\<close>

fun may_be_lost :: "gw_action \<times> bool \<Rightarrow> bool" where
  "may_be_lost (Post s j, ok) = True"
| "may_be_lost (a, ok) = (\<not> ok)"

definition reached :: "(gw_action \<times> bool) list \<Rightarrow> gw_action list \<Rightarrow> bool" where
  "reached l tr \<longleftrightarrow> list_all (\<lambda>a. count_list (map fst (filter (\<lambda>x. \<not> may_be_lost x) l)) a \<le> count_list tr a \<and>
     count_list tr a \<le> count_list (map fst l) a) (map fst l @ tr)"

text \<open>Copies of the work of an operation among the messages, and the calls for it that raised.\<close>

definition copies :: "string \<Rightarrow> gw_action list \<Rightarrow> nat" where
  "copies oid tr = length (filter (\<lambda>a. is_dispatch oid (a, True)) tr)"

definition raised_dispatches :: "string \<Rightarrow> (gw_action \<times> bool) list \<Rightarrow> nat" where
  "raised_dispatches oid l = length (filter (\<lambda>(a, ok). \<not> ok \<and> is_dispatch oid (a, True)) l)"

lemma copies_calls: "copies oid (map fst l) = dispatches oid l + raised_dispatches oid l"
proof (induction l)
  case (Cons x l)
  then show ?case by (cases x; cases "snd x") (auto simp: copies_def dispatches_def raised_dispatches_def)
qed (simp add: copies_def dispatches_def raised_dispatches_def)

lemma count_remove1: "count_list (remove1 x ys) a = count_list ys a - (if a = x then 1 else 0)"
  by (induction ys) (auto simp: Suc_diff_le count_notin)

lemma filter_remove1: "x \<in> set ys \<Longrightarrow> length (filter P ys) = length (filter P (remove1 x ys)) + (if P x then 1 else 0)"
  by (induction ys) auto

lemma count_le_filter: "(\<And>a. count_list xs a \<le> count_list ys a) \<Longrightarrow> length (filter P xs) \<le> length (filter P ys)"
proof (induction xs arbitrary: ys)
  case (Cons x xs)
  have x: "x \<in> set ys" using Cons.prems [of x] by (metis count_list.simps(2) count_notin not_less_eq_eq zero_le Suc_eq_plus1)
  have "length (filter P xs) \<le> length (filter P (remove1 x ys))"
  proof (rule Cons.IH)
    fix a show "count_list xs a \<le> count_list (remove1 x ys) a"
      using Cons.prems [of a] by (auto simp: count_remove1 split: if_splits)
  qed
  then show ?case using filter_remove1 [OF x, of P] by simp
qed simp

lemma reached_count:
  "reached l tr \<Longrightarrow> count_list (map fst (filter (\<lambda>x. \<not> may_be_lost x) l)) a \<le> count_list tr a \<and> count_list tr a \<le> count_list (map fst l) a"
proof (cases "a \<in> set (map fst l @ tr)")
  case False
  then have "a \<notin> set (map fst (filter (\<lambda>x. \<not> may_be_lost x) l))" by auto
  with False show ?thesis by (simp only: count_notin set_append Un_iff de_Morgan_disj) simp
qed (auto simp: reached_def list_all_iff)

lemma reached_copies: "reached l tr \<Longrightarrow> copies oid tr \<le> dispatches oid l + raised_dispatches oid l"
  unfolding copies_calls [symmetric] unfolding copies_def using reached_count by (intro count_le_filter) blast


section \<open>Every operation is dispatched at most once\<close>

definition disp_ok :: "SiteGateway \<Rightarrow> bool" where
  "disp_ok gw \<longleftrightarrow> (\<forall>oid. dispatches oid (gw_log gw) \<le>
     (if fence_committed (gw_fence gw) (fence_scope gw) oid then 1 else 0))"

lemma quiet_disp_ok: "disp_ok gw \<Longrightarrow> gw_quiet gw gw' \<Longrightarrow> disp_ok gw'"
proof -
  assume ok: "disp_ok gw" and q: "gw_quiet gw gw'"
  obtain l where l: "gw_log gw' = gw_log gw @ l" "\<forall>oid. dispatches oid l = 0"
    using q by (auto simp: gw_quiet_def)
  have "dispatches oid (gw_log gw') \<le> (if fence_committed (gw_fence gw') (fence_scope gw') oid then 1 else 0)"
    for oid
    using ok [unfolded disp_ok_def, rule_format, of oid] q l
    by (auto simp: gw_quiet_def fence_scope_def split: if_splits)
  then show ?thesis by (simp add: disp_ok_def)
qed

lemma calm_disp_ok: "disp_ok gw \<Longrightarrow> gw_calm gw gw' \<Longrightarrow> disp_ok gw'"
  unfolding gw_calm_def by (blast intro: quiet_disp_ok)

lemma calm_dispatches: "gw_calm gw gw' \<Longrightarrow> dispatches oid (gw_log gw') = dispatches oid (gw_log gw)"
  by (auto simp: gw_calm_def gw_quiet_def)

lemma emit_running_fence [simp]: "gw_fence (emit_running env d node e gw) = gw_fence gw"
  by (auto simp: emit_running_def Let_def split: option.splits prod.splits sum.splits
      dest!: gw_act_fields)

lemma dispatch_work_effect:
  assumes "dispatch_work env d e gw = (b, gw')"
  shows "gw_site_id gw' = gw_site_id gw" and "gw_fence gw' = gw_fence gw" and "gw_results_kept gw gw'"
    and "dispatches oid (gw_log gw') \<le> dispatches oid (gw_log gw) +
      (if b \<and> map_option me_operation_id (parse_envelope (JObj d)) = Some oid then 1 else 0)"
proof -
  define node where "node = py_str (py_or (py_or (dict_get d ''preferred_node'') (dict_get d ''node_id''))
      (JStr (gw_node_id gw)))"
  obtain err gw1 where act: "gw_act env (Publish (local_work_subject node) (JObj d)) gw = (err, gw1)"
    by (metis surj_pair)
  have gw1: "gw1 = gw\<lparr>gw_log := gw_log gw @ [(Publish (local_work_subject node) (JObj d), err = None)]\<rparr>"
    by (rule gw_act_fields [OF act])
  have one: "dispatches oid (gw_log gw1) \<le> dispatches oid (gw_log gw) +
      (if err = None \<and> map_option me_operation_id (parse_envelope (JObj d)) = Some oid then 1 else 0)"
    by (simp add: gw1 is_dispatch_def split: bool.splits)
  have "gw_site_id gw' = gw_site_id gw \<and> gw_fence gw' = gw_fence gw \<and> gw_results_kept gw gw' \<and>
    dispatches oid (gw_log gw') \<le> dispatches oid (gw_log gw) +
      (if b \<and> map_option me_operation_id (parse_envelope (JObj d)) = Some oid then 1 else 0)"
  proof (cases "gw_has_client gw")
    case False
    with assms show ?thesis by (simp add: dispatch_work_def)
  next
    case client: True
    show ?thesis
    proof (cases err)
      case (Some x)
      with assms client act one gw1 show ?thesis
        by (auto simp: dispatch_work_def node_def [symmetric] gw_results_kept_def)
    next
      case None
      obtain gw3 where gw3: "gw' = emit_running env d node e gw3" "gw_calm gw1 gw3" "gw_fence gw3 = gw_fence gw1" "b"
        using assms client act None
        by (auto simp: dispatch_work_def node_def [symmetric] Let_def split: option.splits sum.splits if_splits)
      have calm: "gw_calm gw1 gw'" using gw3 emit_running_calm by blast
      have "gw_results_kept gw gw1" by (rule gw_act_results [OF act])
      with calm have "gw_results_kept gw gw'" "gw_site_id gw' = gw_site_id gw"
        using gw_results_kept_trans unfolding gw_calm_def gw_results_kept_def by blast+
      with one None gw3 calm_dispatches [OF calm, of oid] gw1 show ?thesis by simp
    qed
  qed
  then show "gw_site_id gw' = gw_site_id gw" "gw_fence gw' = gw_fence gw" "gw_results_kept gw gw'"
    "dispatches oid (gw_log gw') \<le> dispatches oid (gw_log gw) +
      (if b \<and> map_option me_operation_id (parse_envelope (JObj d)) = Some oid then 1 else 0)" by auto
qed

lemma dispatch_commit_ok:
  assumes ok: "disp_ok x" and new: "\<not> fence_committed (gw_fence x) (fence_scope x) (me_operation_id e)"
    and e: "parse_envelope (JObj d) = Some e" and run: "dispatch_work env d e x = (b, y)"
  shows "\<not> b \<Longrightarrow> disp_ok y"
    and "disp_ok (y\<lparr>gw_fence := fence_commit now (fence_scope y) e (gw_fence y)\<rparr>)"
proof -
  note eff = dispatch_work_effect [OF run]
  have sc: "fence_scope y = fence_scope x" using eff(1) by (simp add: fence_scope_def)
  have cnt: "dispatches oid (gw_log y) \<le> dispatches oid (gw_log x) +
      (if b \<and> me_operation_id e = oid then 1 else 0)" for oid
    using eff(4) [of oid] e by simp
  show "disp_ok y" if "\<not> b"
    unfolding disp_ok_def sc eff(2)
  proof
    fix oid
    have "dispatches oid (gw_log y) \<le> dispatches oid (gw_log x)" using cnt [of oid] that by simp
    with ok [unfolded disp_ok_def, rule_format, of oid]
    show "dispatches oid (gw_log y) \<le> (if fence_committed (gw_fence x) (fence_scope x) oid then 1 else 0)"
      by (rule order.trans [rotated])
  qed
  have zero: "dispatches (me_operation_id e) (gw_log x) = 0"
    using ok new unfolding disp_ok_def by (metis le_zero_eq)
  have "dispatches oid (gw_log y) \<le> (if fence_committed (gw_fence x) (fence_scope x) oid \<or>
      oid = me_operation_id e then 1 else 0)" for oid
    using cnt [of oid] zero ok [unfolded disp_ok_def, rule_format, of oid] by (auto split: if_splits)
  then show "disp_ok (y\<lparr>gw_fence := fence_commit now (fence_scope y) e (gw_fence y)\<rparr>)"
    by (simp add: disp_ok_def fence_scope_def eff(1,2) fence_committed_commit)
qed

text \<open>What the fence says about a work item, in the form both intake loops use it.\<close>

lemma gw_begin_ok:
  assumes "fence_begin now (fence_scope gw) e (gw_fence gw) = (dec, f)" and "disp_ok gw"
  shows "disp_ok (gw\<lparr>gw_fence := f\<rparr>)"
    and "fd_status dec = Accept \<Longrightarrow>
      \<not> fence_committed f (fence_scope (gw\<lparr>gw_fence := f\<rparr>)) (me_operation_id e)"
  using quiet_disp_ok [OF assms(2) gw_begin_quiet(1) [OF assms(1)]] fence_begin_accept(1) [OF assms(1)]
    fence_committed_begin [OF assms(1)] by (auto simp: fence_scope_def)

lemma as_dict_Some: "as_dict j = Some d \<longleftrightarrow> j = JObj d"
  by (cases j) auto

lemma js_accept_ok:
  assumes "disp_ok gw" and "\<not> fence_committed (gw_fence gw) (fence_scope gw) (me_operation_id e)"
    and "parse_envelope (JObj d) = Some e"
  shows "disp_ok (js_accept env now m d e gw)" and "gw_results_kept gw (js_accept env now m d e gw)"
proof -
  define x where "x = js_record_accepted env m d gw"
  have x: "gw_calm gw x" "gw_fence x = gw_fence gw"
    by (simp_all add: x_def js_record_accepted_def split: sum.splits)
  have sc: "fence_scope x = fence_scope gw"
    using x(1) by (simp add: gw_calm_def gw_quiet_def fence_scope_def)
  obtain b y where run: "dispatch_work env d e x = (b, y)" by (metis surj_pair)
  define z where "z = y\<lparr>gw_fence := fence_commit (ge_now env) (fence_scope y) e (gw_fence y)\<rparr>"
  have okx: "disp_ok x" using calm_disp_ok [OF assms(1) x(1)] .
  note ok = dispatch_commit_ok [OF okx _ assms(3) run] 
  have new: "\<not> fence_committed (gw_fence x) (fence_scope x) (me_operation_id e)"
    using assms(2) by (simp add: sc x(2))
  have kept: "gw_results_kept gw y"
    using gw_results_kept_trans x(1) dispatch_work_effect(3) [OF run] unfolding gw_calm_def by blast
  have zk: "gw_results_kept gw z" using kept by (simp add: z_def gw_results_kept_def)
  have zok: "disp_ok z" using ok(2) [OF new] by (simp add: z_def)
  have eq: "js_accept env now m d e gw = (if b then js_track now m d e z else js_nak env m y)"
    using run by (simp add: js_accept_def x_def z_def)
  have track: "gw_calm z (js_track now m d e z)" by (simp add: js_track_def split: option.splits)
  have nak: "gw_calm y (js_nak env m y)" by (simp add: js_nak_calm)
  show "disp_ok (js_accept env now m d e gw)"
    using calm_disp_ok [OF zok track] calm_disp_ok [OF ok(1) [OF new] nak] by (simp add: eq)
  show "gw_results_kept gw (js_accept env now m d e gw)"
    using gw_results_kept_trans [OF zk] gw_results_kept_trans [OF kept] track nak
    by (simp add: eq gw_calm_def)
qed

lemma poll_js_message_ok:
  assumes "disp_ok gw"
  shows "disp_ok (poll_js_message env now m gw)" and "gw_results_kept gw (poll_js_message env now m gw)"
proof -
  have "disp_ok (poll_js_message env now m gw) \<and> gw_results_kept gw (poll_js_message env now m gw)"
  proof (cases "as_dict (jm_data m) = None \<or> parse_envelope (jm_data m) = None")
    case True
    have "gw_calm gw (poll_js_message env now m gw)"
      using True by (auto simp: poll_js_message_def gw_calm_snd_act split: option.splits)
    with calm_disp_ok [OF assms] show ?thesis by (auto simp: gw_calm_def)
  next
    case False
    then obtain d e where d: "jm_data m = JObj d" and e: "parse_envelope (JObj d) = Some e"
      by (auto simp: as_dict_Some)
    obtain dec f where beg: "fence_begin (ge_now env) (fence_scope gw) e (gw_fence gw) = (dec, f)"
      by (metis surj_pair)
    define x where "x = gw\<lparr>gw_fence := f\<rparr>"
    have c: "gw_calm gw x" unfolding x_def by (rule gw_calm_begin [OF beg gw_calm_refl])
    have okx: "disp_ok x" by (rule calm_disp_ok [OF assms c])
    have f: "gw_fence x = f" by (simp add: x_def)
    let ?r = "poll_js_message env now m gw"
    have "(fd_status dec = Accept \<and> ?r = js_accept env now m d e x) \<or> gw_calm x ?r"
      by (auto simp: poll_js_message_def d e beg Let_def x_def [symmetric]
          js_known_inflight_calm gw_calm_snd_act split: js_spool.splits option.splits)
    then show ?thesis
    proof
      assume acc: "fd_status dec = Accept \<and> ?r = js_accept env now m d e x"
      have new: "\<not> fence_committed (gw_fence x) (fence_scope x) (me_operation_id e)"
        using gw_begin_ok(2) [OF beg assms] acc by (simp add: x_def)
      show ?thesis
        using js_accept_ok [OF okx new e, of env now m] acc c gw_results_kept_trans
        unfolding gw_calm_def by metis
    next
      assume q: "gw_calm x ?r"
      show ?thesis using calm_disp_ok [OF okx q] gw_calm_trans [OF c q] by (simp add: gw_calm_def)
    qed
  qed
  then show "disp_ok (poll_js_message env now m gw)" "gw_results_kept gw (poll_js_message env now m gw)"
    by auto
qed

lemma poll_js_ok:
  assumes "disp_ok gw"
  shows "disp_ok (poll_js env now gw)" and "gw_results_kept gw (poll_js env now gw)"
proof -
  have "disp_ok x \<Longrightarrow> disp_ok (fold (poll_js_message env now) ms x) \<and>
      gw_results_kept x (fold (poll_js_message env now) ms x)" for ms x
  proof (induction ms arbitrary: x)
    case (Cons m ms)
    note step = poll_js_message_ok [OF Cons.prems, of env now m]
    from Cons.IH [OF step(1)] gw_results_kept_trans [OF step(2)] show ?case by simp
  qed simp
  with assms show "disp_ok (poll_js env now gw)" "gw_results_kept gw (poll_js env now gw)"
    by (simp_all add: poll_js_def split: option.splits)
qed

lemma pull_item_ok:
  assumes "disp_ok gw"
  shows "disp_ok (snd (snd (pull_item env lids ii (acks, gw))))"
    and "gw_results_kept gw (snd (snd (pull_item env lids ii (acks, gw))))"
proof -
  obtain idx item where ii: "ii = (idx, item)" by (cases ii)
  have "disp_ok (snd (snd (pull_item env lids ii (acks, gw)))) \<and>
      gw_results_kept gw (snd (snd (pull_item env lids ii (acks, gw))))"
  proof (cases "as_dict item = None \<or> parse_envelope item = None")
    case True
    with assms show ?thesis by (auto simp: pull_item_def ii split: option.splits)
  next
    case False
    then obtain d e where d: "item = JObj d" and e: "parse_envelope (JObj d) = Some e"
      by (auto simp: as_dict_Some)
    obtain dec f where beg: "fence_begin (ge_now env) (fence_scope gw) e (gw_fence gw) = (dec, f)"
      by (metis surj_pair)
    define x where "x = gw\<lparr>gw_fence := f\<rparr>"
    have c: "gw_calm gw x" unfolding x_def by (rule gw_calm_begin [OF beg gw_calm_refl])
    have okx: "disp_ok x" by (rule calm_disp_ok [OF assms c])
    obtain b y where run: "dispatch_work env d e x = (b, y)" by (metis surj_pair)
    define z where "z = y\<lparr>gw_fence := fence_commit (ge_now env) (fence_scope y) e (gw_fence y)\<rparr>"
    have ky: "gw_results_kept gw y"
      using gw_results_kept_trans c dispatch_work_effect(3) [OF run] unfolding gw_calm_def by blast
    have kz: "gw_results_kept gw z" using ky by (simp add: z_def gw_results_kept_def)
    have res: "snd (snd (pull_item env lids ii (acks, gw))) = x \<or>
        (fd_status dec = Accept \<and> snd (snd (pull_item env lids ii (acks, gw))) = (if b then z else y))"
      by (auto simp: pull_item_def ii d e beg Let_def x_def [symmetric] run z_def split: sum.splits)
    show ?thesis
    proof (cases "fd_status dec = Accept")
      case True
      have new: "\<not> fence_committed (gw_fence x) (fence_scope x) (me_operation_id e)"
        using gw_begin_ok(2) [OF beg assms True] by (simp add: x_def)
      note ok = dispatch_commit_ok [OF okx new e run]
      have "disp_ok (if b then z else y)" using ok(1) ok(2) [of "ge_now env"] by (simp add: z_def)
      with res okx c ky kz show ?thesis by (auto simp: gw_calm_def)
    next
      case False
      with res okx c show ?thesis by (simp add: gw_calm_def)
    qed
  qed
  then show "disp_ok (snd (snd (pull_item env lids ii (acks, gw))))"
    "gw_results_kept gw (snd (snd (pull_item env lids ii (acks, gw))))" by auto
qed

lemma intake_calm:
  assumes "disp_ok x \<and> gw_results_kept gw x" and "gw_calm x y"
  shows "disp_ok y \<and> gw_results_kept gw y"
  using assms calm_disp_ok gw_results_kept_trans unfolding gw_calm_def by blast

lemma pull_items_ok:
  assumes "disp_ok gw"
  shows "disp_ok (snd (pull_items env lids items gw)) \<and> gw_results_kept gw (snd (pull_items env lids items gw))"
proof -
  obtain r acks y where run: "sfor (pull_item env lids) (enumerate 0 items) ([], gw) = (r, (acks, y))"
    by (metis surj_pair)
  have "(\<lambda>s. disp_ok (snd s) \<and> gw_results_kept gw (snd s))
      (snd (sfor (pull_item env lids) (enumerate 0 items) ([], gw)))"
  proof (rule sfor_inv)
    fix ii and s :: "json list \<times> SiteGateway"
    assume "disp_ok (snd s) \<and> gw_results_kept gw (snd s)"
    then show "disp_ok (snd (snd (pull_item env lids ii s))) \<and>
        gw_results_kept gw (snd (snd (pull_item env lids ii s)))"
      using pull_item_ok [of "snd s" env lids ii "fst s"] gw_results_kept_trans by (metis prod.collapse)
  qed (simp add: assms)
  then have y: "disp_ok y \<and> gw_results_kept gw y" using run by simp
  have "gw_calm y (snd (gw_request env sub p y))" for sub p
    using gw_request_calm [OF _ gw_calm_refl] by (metis surjective_pairing)
  from intake_calm [OF y this] y run show ?thesis
    by (cases r) (simp_all add: pull_items_def)
qed

lemma pull_reply_ok:
  assumes "disp_ok gw"
  shows "disp_ok (snd (pull_reply env resp gw)) \<and> gw_results_kept gw (snd (pull_reply env resp gw))"
  using assms pull_items_ok [OF assms, of env]
  by (simp add: pull_reply_def split: option.splits sum.splits)

lemma poll_work_pull_ok:
  assumes "disp_ok gw"
  shows "disp_ok (snd (poll_work_pull env now gw)) \<and> gw_results_kept gw (snd (poll_work_pull env now gw))"
proof -
  let ?x = "gw\<lparr>gw_last_pull_at := now\<rparr>"
  obtain r y where req: "gw_request env (hub_work_pull_subject (gw_site_id ?x)) (JObj (pull_request env ?x)) ?x
      = (r, y)" by (metis surj_pair)
  have x: "disp_ok ?x \<and> gw_results_kept gw ?x" by (rule intake_calm [of gw]) (simp_all add: assms)
  have y: "disp_ok y \<and> gw_results_kept gw y"
    by (rule intake_calm [OF x]) (rule gw_request_calm [OF req gw_calm_refl])
  have "disp_ok (snd (pull_reply env p y)) \<and> gw_results_kept gw (snd (pull_reply env p y))" for p
    using pull_reply_ok [of y env p] y gw_results_kept_trans by blast
  with x y req assms show ?thesis
    by (cases r) (simp_all add: poll_work_pull_def Let_def)
qed

text \<open>The handlers that settle results do not dispatch.\<close>

lemma replay_result_quiet: "gw_quiet gw (snd (replay_result env rec gw))"
proof (cases "rr_operation_id rec = None")
  case False
  obtain err x where act: "gw_act env (Publish (hub_result_subject (gw_site_id gw)) (rr_payload rec)) gw = (err, x)"
    by (metis surj_pair)
  have q: "gw_quiet gw x" by (rule gw_act_quiet [OF _ act]) simp
  show ?thesis
    using False act gw_quiet_trans [OF q gw_quietI]
    by (auto simp: replay_result_def q split: option.splits sum.splits)
qed (simp add: replay_result_def)

lemma replay_quiet: "gw_quiet gw (snd (replay_spool_results env gw))"
proof -
  have "gw_quiet gw (snd (sfor (replay_result env) rs gw))" for rs
    by (rule sfor_inv [where R = "gw_quiet gw"]) (auto intro: gw_quiet_trans replay_result_quiet)
  then show ?thesis by (simp add: replay_spool_results_def)
qed

lemma local_result_publish_quiet: "gw_quiet gw (local_result_publish env d sp w a gw)"
proof -
  obtain err x where act: "gw_act env (Post (hub_result_subject (gw_site_id gw)) (JObj d)) gw = (err, x)"
    by (metis surj_pair)
  have q: "gw_quiet gw x" by (rule gw_act_quiet [OF _ act]) simp
  show ?thesis
    using act gw_quiet_trans [OF q gw_quietI]
    by (auto simp: local_result_publish_def q split: option.splits)
qed

lemma local_result_finish_calm: "gw_calm gw (local_result_finish env wk gw)"
  by (simp add: local_result_finish_def Let_def gw_calm_snd_act split: option.splits)

lemma local_result_count_calm: "gw_calm gw (snd (local_result_count d gw))"
  by (simp add: local_result_count_def split: json.splits)

lemma local_result_tail_quiet:
  "gw_quiet gw (snd (local_result_count d (local_result_finish env wk (local_result_publish env d sp w a gw))))"
proof (rule gw_quiet_trans [OF local_result_publish_quiet], rule gw_quiet_trans)
  show "gw_quiet (local_result_publish env d sp w a gw)
      (local_result_finish env wk (local_result_publish env d sp w a gw))"
    using local_result_finish_calm by (simp add: gw_calm_def)
qed (use local_result_count_calm in \<open>simp add: gw_calm_def\<close>)

lemma on_local_result_quiet: "gw_quiet gw (snd (on_local_result env data gw))"
proof -
  have "gw_quiet gw (snd (local_result_count d (local_result_finish env wk
      (local_result_publish env d sp w a (gw\<lparr>gw_spool := s\<rparr>)))))" for d wk sp w a s
    by (rule gw_quiet_trans [OF gw_quietI local_result_tail_quiet]) simp_all
  then show ?thesis
    using local_result_tail_quiet
    by (simp add: on_local_result_def Let_def split: option.splits sum.splits)
qed

lemma gateway_tick_disp_ok:
  assumes "disp_ok gw"
  shows "disp_ok (snd (gateway_tick env now gw))"
proof -
  obtain ready x where t: "ensure_transport_connected env now gw = (ready, x)" by (metis surj_pair)
  have x: "disp_ok (run_progress env now x)"
    using ensure_transport_calm [of gw env now] t calm_disp_ok [OF assms]
      calm_disp_ok [OF _ run_progress_calm] by simp
  have "disp_ok (snd (ebind (ebind (maybe_acquire env now) (\<lambda>_. maybe_renew env now)) (\<lambda>_.
      ebind (\<lambda>g. if gw_js_enabled g then (Inr (), poll_js env now g) else poll_work_pull env now g)
        (\<lambda>_. replay_spool_results env)) (run_progress env now x)))"
    by (intro ebind_inv [where R = disp_ok])
      (auto intro: x calm_disp_ok [OF _ maybe_acquire_calm] calm_disp_ok [OF _ maybe_renew_calm]
        quiet_disp_ok [OF _ replay_quiet] simp: poll_js_ok poll_work_pull_ok)
  with x t show ?thesis by (simp add: gateway_tick_def Let_def)
qed

lemma gw_step_disp_ok: "disp_ok gw \<Longrightarrow> disp_ok (gw_step ev gw)"
  by (cases ev) (auto intro: quiet_disp_ok [OF _ on_local_result_quiet] calm_disp_ok [OF _ on_local_progress_calm]
      calm_disp_ok [OF _ on_route_bundle_calm] gateway_tick_disp_ok
      quiet_disp_ok [OF _ gw_quietI] simp: on_transport_reconnect_def)

text \<open>
  (C7) Dispatch of an operation: in any run of the gateway from a start with nothing dispatched yet,
  through results, progress reports, route bundles, reconnects and loop turns in any order and with any
  calls failing, at most one call that publishes work of an operation to a node returns, and at most as many copies are sent as one more than
  there were calls that raised. So with no such call raising, a node gets the work at most once; a call that raises on its timeout
  may have sent it all the same, and the work is published again (\<open>ambiguous_dispatch_sent_twice\<close>).
\<close>

theorem gateway_dispatches_once:
  assumes "gw_log gw = []" and "reached (gw_log (fold gw_step evs gw)) tr"
  shows "dispatches oid (gw_log (fold gw_step evs gw)) \<le> 1 \<and>
    copies oid tr \<le> 1 + raised_dispatches oid (gw_log (fold gw_step evs gw))"
proof -
  have "disp_ok gw" using assms(1) by (simp add: disp_ok_def)
  then have "disp_ok (fold gw_step evs gw)" by (induction evs arbitrary: gw) (simp_all add: gw_step_disp_ok)
  then have "dispatches oid (gw_log (fold gw_step evs gw)) \<le> (if fence_committed
      (gw_fence (fold gw_step evs gw)) (fence_scope (fold gw_step evs gw)) oid then 1 else 0)"
    unfolding disp_ok_def by blast
  then have "dispatches oid (gw_log (fold gw_step evs gw)) \<le> 1" by (auto split: if_splits)
  with reached_copies [OF assms(2), of oid] show ?thesis by simp
qed

section \<open>A delivered result was handed over\<close>

text \<open>A call for the payload returned: on the loop of the gateway, or in the handler of the result.\<close>

definition handed_over :: "SiteGateway \<Rightarrow> json \<Rightarrow> bool" where
  "handed_over gw p \<longleftrightarrow> (Publish (hub_result_subject (gw_site_id gw)) p, True) \<in> set (gw_log gw) \<or>
     (Post (hub_result_subject (gw_site_id gw)) p, True) \<in> set (gw_log gw)"




lemma handed_over_spool [simp]: "handed_over (gw\<lparr>gw_spool := sp\<rparr>) p = handed_over gw p" "handed_over (gw_bump f gw) p = handed_over gw p"
  by (simp_all add: handed_over_def)


lemma spool_pk [simp]:
  "primary_key rs_key (sp_results (mark_result_delivered t w a sp)) = primary_key rs_key (sp_results sp)"
  "primary_key rs_key (sp_results (record_result_delivery_attempt t w a e r sp))
     = primary_key rs_key (sp_results sp)"
  by (simp_all add: mark_result_delivered_def record_result_delivery_attempt_def rs_del.pk_update
      rs_att.pk_update)














section \<open>A concrete gateway\<close>

definition demo_gateway :: SiteGateway where
  "demo_gateway = \<lparr>gw_site_id = ''s1'', gw_node_id = ''n1'', gw_session_id = ''sess'',
     gw_gateway_backend = ''gateway'', gw_node_labels = [], gw_js_stream = ''K1S_WORK'',
     gw_backend_js = True, gw_has_client = True, gw_has_renderer = False, gw_spool_enabled = True,
     gw_js_enabled = True, gw_spool = spool_init, gw_fence = fence_init None, gw_inflight = [],
     gw_inflight_progress = [], gw_inflight_heartbeat = [], gw_inflight_envelopes = [],
     gw_completed = [], gw_running_sent = [], gw_max_ack_pending = 1, gw_last_pull_at = 0,
     gw_pull_interval = 1000000, gw_progress_interval = 10000000, gw_ack_wait = 30000000,
     gw_heartbeat_timeout = 24000000, gw_lease_id = Some ''L'', gw_lease_acquire_request_id = None,
     gw_lease_renew_request_id = None, gw_lease_ttl_ms = 15000, gw_renew_after_ms = 5000,
     gw_next_renew_at = 100, gw_lease_retry_min = 1000000, gw_lease_retry_max = 30000000,
     gw_lease_next_attempt_at = 0, gw_lease_backoff = 1000000, gw_result_retry_min = 2000000,
     gw_result_retry_max = 30000000, gw_route_bundle_rev = 0, gw_route_bundle_hash = JNull,
     gw_transport_ready = True, gw_transport_retry_min = 1000000, gw_transport_retry_max = 30000000,
     gw_transport_backoff = 1000000, gw_transport_next_connect_at = 0, gw_subscriptions = [],
     gw_stats = \<lparr>st_inflight = 0, st_accepted = 0, st_completed = 0, st_failed = 0, st_stale = 0,
       st_nacked = 0, st_lease_retry_total = 0, st_result_replay_total = 0,
       st_result_replay_fail_total = 0\<rparr>, gw_log = []\<rparr>"

definition demo_work :: dict where
  "demo_work = [(''work_id'', JStr ''w''), (''attempt'', JInt 1), (''controller_id'', JStr ''c''),
     (''controller_epoch'', JInt 1), (''operation_id'', JStr ''work:w:1'')]"

definition demo_message :: JetStreamMessage where
  "demo_message = \<lparr>jm_data = JObj demo_work, jm_stream = None, jm_consumer = None, jm_seq = Some 7\<rparr>"

definition demo_env :: "JetStreamMessage list \<Rightarrow> gateway_env" where
  "demo_env ms = \<lparr>ge_err = (\<lambda>n. None), ge_resp = (\<lambda>n. JObj []), ge_now = 50, ge_mono = 60,
     ge_started_at = ''t'', ge_request_id = ''r'', ge_jitter = (\<lambda>t. 0), ge_render = (\<lambda>d. (True, JNull)),
     ge_fetch = Some ms, ge_connected = True\<rparr>"

definition calls_sent :: "SiteGateway \<Rightarrow> gw_action list" where
  "calls_sent gw = map fst (gw_log gw)"

lemma count_filter_le: "count_list (map f (filter P xs)) a \<le> count_list (map f xs) a"
  by (induction xs) auto

lemma reached_calls: "reached (gw_log gw) (calls_sent gw)"
  by (simp add: reached_def calls_sent_def list_all_iff count_filter_le)

definition demo_events :: "gw_event list" where
  "demo_events = [EvTick (demo_env [demo_message, demo_message]) 70, EvTick (demo_env [demo_message]) 80]"

theorem gateway_dispatches_once_witness:
  "dispatches ''work:w:1'' (gw_log (fold gw_step demo_events demo_gateway)) = 1 \<and>
   copies ''work:w:1'' (calls_sent (fold gw_step demo_events demo_gateway)) \<le> 1"
proof -
  have "gw_log demo_gateway = []" by (simp add: demo_gateway_def)
  note * = gateway_dispatches_once [OF this reached_calls, where oid = "''work:w:1''"]
  have "dispatches ''work:w:1'' (gw_log (fold gw_step demo_events demo_gateway)) = 1 \<and>
      raised_dispatches ''work:w:1'' (gw_log (fold gw_step demo_events demo_gateway)) = 0" by code_simp
  with * [of demo_events] show ?thesis by simp
qed

definition demo_result_end :: SiteGateway where
  "demo_result_end = fold gw_step [EvLocalResult (demo_env []) (JObj demo_work)] demo_gateway"


text \<open>
  The handler of a result runs on the client's thread, where a publication is only scheduled: the result is marked delivered
  and never replayed, although nothing need have been sent.
\<close>

theorem local_result_may_be_lost:
  "map_option snd (result_view (gw_spool demo_result_end) (''w'', 1)) = Some True \<and>
   list_replay_ready_results 100 t (gw_spool demo_result_end) = [] \<and> reached (gw_log demo_result_end) []"
proof -
  have "list_all (\<lambda>r. rs_delivered_at r \<noteq> None) (sp_results (gw_spool demo_result_end))" by code_simp
  then have "filter (replay_ready t) (sp_results (gw_spool demo_result_end)) = []"
    by (auto simp: list_all_iff filter_empty_conv replay_ready_def)
  then have "list_replay_ready_results 100 t (gw_spool demo_result_end) = []"
    by (simp add: list_replay_ready_results_def sql_limit_def)
  moreover have "map_option snd (result_view (gw_spool demo_result_end) (''w'', 1)) = Some True" by code_simp
  moreover have "list_all may_be_lost (gw_log demo_result_end)" by code_simp
  then have "filter (\<lambda>x. \<not> may_be_lost x) (gw_log demo_result_end) = []" by (auto simp: list_all_iff filter_empty_conv)
  then have "reached (gw_log demo_result_end) []" by (simp add: reached_def list_all_iff)
  ultimately show ?thesis by simp
qed

text \<open>
  The first publication of the work raises on its timeout and is sent nevertheless. The message is returned to the stream, comes again, is
  taken for inflight until the heartbeat times out, is returned once more and then published again: the node gets the work twice.
\<close>

definition timeout_end :: SiteGateway where
  "timeout_end = fold gw_step [EvTick ((demo_env [demo_message])\<lparr>ge_err := (\<lambda>n. if n = 0 then Some ''timeout'' else None)\<rparr>) 70,
     EvTick (demo_env [demo_message]) 80, EvTick (demo_env []) 24000100, EvTick (demo_env [demo_message]) 24000110] demo_gateway"

theorem ambiguous_dispatch_sent_twice:
  "reached (gw_log timeout_end) (calls_sent timeout_end) \<and> copies ''work:w:1'' (calls_sent timeout_end) = 2"
proof -
  have "dispatches ''work:w:1'' (gw_log timeout_end) = 1 \<and> raised_dispatches ''work:w:1'' (gw_log timeout_end) = 1" by code_simp
  then have "copies ''work:w:1'' (calls_sent timeout_end) = 2" unfolding calls_sent_def copies_calls by simp
  then show ?thesis using reached_calls by blast
qed

section \<open>Redelivery, retries and route revisions\<close>

text \<open>
  A redelivered message whose operation has been committed is acknowledged and nothing else
  happens, whatever the spool says of it: a message the gateway has given up on and returned to the
  stream with a negative acknowledgement is not dispatched again, the work waits for the controller to
  reschedule it under a new attempt.
\<close>

theorem redelivered_committed_only_acked:
  assumes "parse_envelope (jm_data m) = Some e"
    and "fence_committed (gw_fence gw) (fence_scope gw) (me_operation_id e)"
  shows "poll_js_message env now m gw =
    gw\<lparr>gw_log := gw_log gw @ [(JsAck m, ge_err env (length (gw_log gw)) = None)]\<rparr>"
proof -
  obtain d where d: "jm_data m = JObj d" using assms(1) by (cases "jm_data m") (auto simp: parse_envelope_def)
  obtain dec f where beg: "fence_begin (ge_now env) (fence_scope gw) e (gw_fence gw) = (dec, f)"
    by (metis surj_pair)
  have "fd_status dec \<noteq> Accept" using fence_begin_accept(1) [OF beg] assms(2) by blast
  moreover from this have "f = gw_fence gw" using fence_begin_not_accept [OF beg] by blast
  ultimately show ?thesis
    using assms(1) beg by (simp add: poll_js_message_def d Let_def gw_act_def)
qed

theorem redelivered_committed_only_acked_witness:
  "poll_js_message (demo_env []) 90 demo_message (gw_step (EvTick (demo_env [demo_message]) 70) demo_gateway) =
    (let gw = gw_step (EvTick (demo_env [demo_message]) 70) demo_gateway
     in gw\<lparr>gw_log := gw_log gw @ [(JsAck demo_message, True)]\<rparr>)"
proof -
  define gw where "gw = gw_step (EvTick (demo_env [demo_message]) 70) demo_gateway"
  obtain e where e: "parse_envelope (jm_data demo_message) = Some e" "me_operation_id e = ''work:w:1''"
  proof -
    have "map_option me_operation_id (parse_envelope (jm_data demo_message)) = Some ''work:w:1''" by code_simp
    then show ?thesis using that by auto
  qed
  have "fence_committed (gw_fence gw) (fence_scope gw) ''work:w:1''" unfolding gw_def by code_simp
  with redelivered_committed_only_acked [OF e(1), of gw "demo_env []" 90] e(2)
  show ?thesis unfolding gw_def [symmetric] Let_def by (simp add: demo_env_def)
qed

text \<open>
  A result that has failed to replay 1024 times stops the gateway: the back-off of the next failed
  publication overflows inside the error handler, the error leaves the replay loop, and nothing is
  recorded, so the next turn fails the same way.
\<close>

theorem replay_overflow_raises:
  assumes "gw_spool_enabled gw" and "gw_has_client gw"
    and "list_replay_ready_results 100 (ge_now env) (gw_spool gw) = rec # rs"
    and "rr_operation_id rec \<noteq> None" and "1024 \<le> rr_replay_attempts rec"
    and "ge_err env (length (gw_log gw)) \<noteq> None"
  shows "fst (replay_spool_results env gw) = Inl OverflowError \<and>
    gw_spool (snd (replay_spool_results env gw)) = gw_spool gw"
  using assms
  by (auto simp: replay_spool_results_def replay_result_def ebind_def gw_act_def next_result_retry_delay_def)

definition demo_stuck_gateway :: SiteGateway where
  "demo_stuck_gateway = demo_gateway\<lparr>gw_spool :=
     spool_init\<lparr>sp_results := [(new_result_row 1 ''w'' 1 ''ok'' demo_work)\<lparr>rs_replay_attempts := 1024\<rparr>]\<rparr>\<rparr>"

theorem replay_overflow_raises_witness:
  "fst (replay_spool_results ((demo_env [])\<lparr>ge_err := (\<lambda>n. Some ''down'')\<rparr>) demo_stuck_gateway)
     = Inl OverflowError"
proof -
  define env where "env = (demo_env [])\<lparr>ge_err := (\<lambda>n. Some ''down'')\<rparr>"
  define rec where "rec = hd (list_replay_ready_results 100 (ge_now env) (gw_spool demo_stuck_gateway))"
  have ne: "list_replay_ready_results 100 (ge_now env) (gw_spool demo_stuck_gateway) \<noteq> []"
    unfolding env_def by code_simp
  have "list_replay_ready_results 100 (ge_now env) (gw_spool demo_stuck_gateway) =
      rec # tl (list_replay_ready_results 100 (ge_now env) (gw_spool demo_stuck_gateway))"
    using ne by (simp add: rec_def)
  moreover have "rr_operation_id rec \<noteq> None" unfolding rec_def env_def by code_simp
  moreover have "1024 \<le> rr_replay_attempts rec" unfolding rec_def env_def by code_simp
  moreover have "gw_spool_enabled demo_stuck_gateway" "gw_has_client demo_stuck_gateway"
    "ge_err env (length (gw_log demo_stuck_gateway)) \<noteq> None"
    by (simp_all add: demo_stuck_gateway_def demo_gateway_def env_def)
  ultimately show ?thesis using replay_overflow_raises [of demo_stuck_gateway env] unfolding env_def by blast
qed

text \<open>
  Below that point the back-off stays within its bounds: for up to 1024 attempts the delay lies between
  the configured minimum and maximum and never decreases from one attempt to the next.
\<close>

theorem result_retry_delay_bounded:
  assumes "0 \<le> lo" and "lo \<le> hi" and "n \<le> 1024"
  shows "\<exists>t. next_result_retry_delay n lo hi = Inr t \<and> lo \<le> t \<and> t \<le> hi \<and>
    (\<forall>t'. next_result_retry_delay (n + 1) lo hi = Inr t' \<longrightarrow> t \<le> t')"
proof -
  have pow: "lo \<le> lo * 2 ^ k" for k :: nat
    using assms(1) mult_left_mono [of 1 "2 ^ k" lo] by simp
  have step: "lo * 2 ^ nat (n - 1) \<le> lo * 2 ^ nat n" if "1 < n"
  proof -
    have "(2 :: int) ^ nat (n - 1) \<le> 2 ^ nat n" by (rule power_increasing) simp_all
    then show ?thesis using assms(1) by (rule mult_left_mono)
  qed
  show ?thesis
    using assms pow step by (auto simp: next_result_retry_delay_def min_le_iff_disj intro: min.mono)
qed

theorem result_retry_delay_bounded_witness:
  "\<exists>t. next_result_retry_delay 3 (2000000 :: int) 30000000 = Inr t \<and> 2000000 \<le> t \<and> t \<le> 30000000"
  using result_retry_delay_bounded [of 2000000 30000000 3] by auto

text \<open>
  A route bundle as the controller \<open>c\<close> of epoch \<open>ep\<close> sends it, and a granted renewal of the lease.
\<close>

definition demo_bundle :: "string \<Rightarrow> int \<Rightarrow> int \<Rightarrow> json" where
  "demo_bundle c ep n = JObj [(''site_id'', JStr ''s1''), (''bundle_rev'', JInt n),
     (''hash'', JStr (''h'' @ c @ show_int n)), (''controller_id'', JStr c), (''controller_epoch'', JInt ep),
     (''operation_id'', JStr (route_operation ''s1'' n ep))]"

definition demo_renewal :: "string \<Rightarrow> int \<Rightarrow> gateway_env" where
  "demo_renewal c ep = (demo_env [])\<lparr>ge_resp := (\<lambda>n. JObj [(''accepted'', JBool True),
     (''controller_id'', JStr c), (''controller_epoch'', JInt ep),
     (''operation_id'', JStr ''lease.renew:r'')])\<rparr>"

text \<open>
  The reset of the route revision on a new epoch is lost when another message brings the epoch: a
  gateway at revision 5 of controller a that first renews its lease with the new leader b then takes
  b's bundle of revision 1 for an old one, does not apply it, commits it and answers that it was applied;
  had the bundle come first it would have been applied. (The lease, the work and the routes share one
  fence scope, and only the message that advances it sees \<^verbatim>\<open>epoch_advanced\<close>.)
\<close>

theorem route_reset_lost_after_renewal:
  "let gw0 = snd (on_route_bundle (demo_env []) (demo_bundle ''a'' 1 5) demo_gateway);
       first = snd (on_route_bundle (demo_env []) (demo_bundle ''b'' 2 1) gw0);
       renewed = snd (maybe_renew (demo_renewal ''b'' 2) 200 gw0);
       late = snd (on_route_bundle (demo_env []) (demo_bundle ''b'' 2 1) renewed)
   in gw_route_bundle_rev gw0 = 5 \<and> gw_route_bundle_rev first = 1 \<and>
      fence_epoch (gw_fence renewed) ''site:s1'' = Some 2 \<and>
      gw_route_bundle_rev late = 5 \<and> gw_route_bundle_hash late = JStr ''ha5'' \<and>
      fence_committed (gw_fence late) ''site:s1'' ''route:s1:1:2'' \<and>
      (case last (gw_log late) of
         (Post subject (JObj ack), True) \<Rightarrow> subject = ''k1s.v1.site.s1.routes.ack'' \<and>
           dict_get ack ''bundle_rev'' = JInt 1 \<and> dict_get ack ''ok'' = JBool True
       | _ \<Rightarrow> False)"
  by code_simp

text \<open>
  Every reconnect after a lost connection subscribes the three handlers again on top of the ones
  already there: after the first connection and one drop, the result handler is subscribed twice.
\<close>

theorem reconnect_subscribes_again:
  "let gw1 = snd (ensure_transport_connected (demo_env []) 10 (demo_gateway\<lparr>gw_transport_ready := False\<rparr>));
       gw2 = snd (ensure_transport_connected ((demo_env [])\<lparr>ge_connected := False\<rparr>) 20 gw1)
   in length (filter (\<lambda>s. s = local_result_subject) (gw_subscriptions gw1)) = 1 \<and>
      length (filter (\<lambda>s. s = local_result_subject) (gw_subscriptions gw2)) = 2"
  by code_simp

end
