(* ===== verification/Registry.thy ===== *)
theory Registry
  imports K1s_Prelude
begin

text \<open>
  The desired-state registry of the state store (\<^verbatim>\<open>SQLiteStateStore\<close> in \<^verbatim>\<open>ae/controller/state.py\<close>):
  registered apps, their revisions and events, the shared authority objects and the workload metrics
  snapshots; and the keys under which apps are stored (\<^verbatim>\<open>app_key\<close> and friends in
  \<^verbatim>\<open>ae/controller/spec.py\<close>).

  A write with an expected resource version is a SELECT followed by an INSERT in its own transaction:
  the two halves are separate definitions, and the method is one after the other on the same store.
  The locale \<open>cas_registry\<close> is the contract callers rely on; what two interleaved callers can do to
  it is proved below from the halves.

  A manifest is the name, namespace and image of the pydantic object together with the document
  it dumps to; its hash and its validation are arguments. Float metrics are integers.
\<close>

section \<open>App keys\<close>

definition default_namespace :: string where
  "default_namespace = ''default''"

definition normalize_namespace :: "string option \<Rightarrow> string option" where
  "normalize_namespace ns = (case ns of None \<Rightarrow> None
     | Some s \<Rightarrow> (let t = strip s in if t = [] then None else Some t))"

definition app_key :: "string \<Rightarrow> string option \<Rightarrow> string" where
  "app_key name ns = (case normalize_namespace ns of
     None \<Rightarrow> name
   | Some n \<Rightarrow> if n = default_namespace then name else n @ ''--'' @ name)"

text \<open>\<^verbatim>\<open>raw.split("--", 1)\<close>: the parts before and after the first separator, if there is one.\<close>

fun split_dashes :: "string \<Rightarrow> (string \<times> string) option" where
  "split_dashes (a # b # s) =
     (if a = CHR ''-'' \<and> b = CHR ''-'' then Some ([], s)
      else map_option (\<lambda>(x, y). (a # x, y)) (split_dashes (b # s)))"
| "split_dashes _ = None"

definition split_app_key :: "string \<Rightarrow> string \<times> string" where
  "split_app_key app_name = (case split_dashes app_name of
     Some (ns, name) \<Rightarrow> if ns \<noteq> [] then (ns, name) else (default_namespace, app_name)
   | None \<Rightarrow> (default_namespace, app_name))"

definition format_app_ref :: "string \<Rightarrow> string" where
  "format_app_ref app_name = (let (ns, name) = split_app_key app_name in ns @ ''/'' @ name)"

definition parse_app_ref :: "string \<Rightarrow> string option \<times> string" where
  "parse_app_ref ref =
     (let raw = strip ref
      in if CHR ''/'' \<in> set raw
         then (normalize_namespace (Some (takeWhile (\<lambda>c. c \<noteq> CHR ''/'') raw)),
               tl (dropWhile (\<lambda>c. c \<noteq> CHR ''/'') raw))
         else case split_dashes raw of
           Some (ns, name) \<Rightarrow> (normalize_namespace (Some ns), name)
         | None \<Rightarrow> (None, raw))"

section \<open>Tables\<close>

record AppManifest =
  mf_name :: string
  mf_namespace :: "string option"
  mf_image :: string
  mf_doc :: json

definition app_key_for_manifest :: "AppManifest \<Rightarrow> string" where
  "app_key_for_manifest m = app_key (mf_name m) (mf_namespace m)"

record AppRegistryRow =
  ar_app_name :: string
  ar_spec_hash :: string
  ar_spec_json :: json_col
  ar_source :: string
  ar_labels :: json_col
  ar_updated_at :: time
  ar_resource_version :: int

record RegistryEntry =
  re_app_name :: string
  re_manifest :: AppManifest
  re_spec_hash :: string
  re_source :: string
  re_labels :: dict
  re_updated_at :: time
  re_resource_version :: int

record AppRevisionRow =
  rv_app_name :: string
  rv_revision :: int
  rv_spec_hash :: string
  rv_spec_json :: json_col
  rv_image :: string
  rv_created_at :: time
  rv_status :: string

record AppEvent =
  ev_app_name :: string
  ev_revision :: int
  ev_event_type :: string
  ev_message :: string
  ev_created_at :: time

type_synonym obj_key = "string \<times> string \<times> string \<times> string \<times> string"

record AuthorityObjectRow =
  ao_key :: obj_key
  ao_kind :: string
  ao_metadata :: json_col
  ao_spec :: json_col
  ao_status :: json_col
  ao_updated_at :: time
  ao_resource_version :: int

record AuthorityObjectEntry =
  ae_group :: string
  ae_version :: string
  ae_resource :: string
  ae_namespace :: "string option"
  ae_name :: string
  ae_kind :: string
  ae_metadata :: dict
  ae_spec :: dict
  ae_status :: dict
  ae_updated_at :: time
  ae_resource_version :: int

record WorkloadMetricsSnapshot =
  ms_app_name :: string
  ms_controller_id :: string
  ms_controller_epoch :: int
  ms_collected_at :: time
  ms_cpu_utilization :: "int option"
  ms_memory_utilization :: "int option"
  ms_memory_bytes :: int
  ms_pod_count :: int
  ms_node_count :: int
  ms_updated_at :: time

record RegistryStore =
  app_registry :: "AppRegistryRow list"
  app_revisions :: "AppRevisionRow list"
  app_events :: "AppEvent list"
  authority_objects :: "AuthorityObjectRow list"
  workload_metrics :: "WorkloadMetricsSnapshot list"

definition empty_registry :: RegistryStore where
  "empty_registry = \<lparr>app_registry = [], app_revisions = [], app_events = [], authority_objects = [],
     workload_metrics = []\<rparr>"

text \<open>\<^verbatim>\<open>json.loads(col or "{}")\<close> that must be a dictionary, with \<^verbatim>\<open>{}\<close> for everything else.\<close>

definition loads_dict :: "json_col \<Rightarrow> dict" where
  "loads_dict c = (case as_dict (loads_or_empty c) of Some d \<Rightarrow> d | None \<Rightarrow> [])"

section \<open>Registered apps\<close>

definition app_row :: "string \<Rightarrow> RegistryStore \<Rightarrow> AppRegistryRow option" where
  "app_row app_name st = find (\<lambda>r. ar_app_name r = app_name) (app_registry st)"

definition ar_replace :: "AppRegistryRow \<Rightarrow> AppRegistryRow \<Rightarrow> AppRegistryRow" where
  "ar_replace n r = n\<lparr>ar_app_name := ar_app_name r\<rparr>"

text \<open>
  The second half of \<^verbatim>\<open>register_app\<close>: \<open>row\<close> is what the SELECT found. A \<^verbatim>\<open>source\<close> argument of \<^verbatim>\<open>""\<close> counts
  as absent.
\<close>

definition register_app_write ::
  "(AppManifest \<Rightarrow> string) \<Rightarrow> time \<Rightarrow> AppManifest \<Rightarrow> string option \<Rightarrow> dict option \<Rightarrow> int option
   \<Rightarrow> AppRegistryRow option \<Rightarrow> RegistryStore \<Rightarrow> int result \<times> RegistryStore" where
  "register_app_write mhash now m source labels expected row st =
     (let app_name = app_key_for_manifest m;
          current_rv = (case row of None \<Rightarrow> 0 | Some r \<Rightarrow> ar_resource_version r);
          existing_labels = (case row of None \<Rightarrow> [] | Some r \<Rightarrow> loads_dict (ar_labels r));
          existing_source = map_option ar_source row
      in if expected \<noteq> None \<and> expected \<noteq> Some current_rv
         then (Inl (RegistryConflictError app_name (the expected) current_rv), st)
         else
           let source_val = (case nonempty source of Some s \<Rightarrow> s
                 | None \<Rightarrow> (case nonempty existing_source of Some s \<Rightarrow> s | None \<Rightarrow> ''unknown''));
               next_rv = max 1 (current_rv + 1);
               n = \<lparr>ar_app_name = app_name, ar_spec_hash = mhash m, ar_spec_json = JDump (mf_doc m),
                    ar_source = source_val,
                    ar_labels = JDump (JObj (case labels of Some l \<Rightarrow> l | None \<Rightarrow> existing_labels)),
                    ar_updated_at = now, ar_resource_version = next_rv\<rparr>
           in (Inr next_rv, st\<lparr>app_registry := upsert ar_app_name (ar_replace n) n (app_registry st)\<rparr>))"

definition register_app ::
  "(AppManifest \<Rightarrow> string) \<Rightarrow> time \<Rightarrow> AppManifest \<Rightarrow> string option \<Rightarrow> dict option \<Rightarrow> int option
   \<Rightarrow> RegistryStore \<Rightarrow> int result \<times> RegistryStore" where
  "register_app mhash now m source labels expected st =
     register_app_write mhash now m source labels expected (app_row (app_key_for_manifest m) st) st"

definition registry_entry_from_row :: "(json_col \<Rightarrow> AppManifest option) \<Rightarrow> AppRegistryRow \<Rightarrow> RegistryEntry option"
where
  "registry_entry_from_row validate r =
     map_option (\<lambda>m. \<lparr>re_app_name = ar_app_name r, re_manifest = m, re_spec_hash = ar_spec_hash r,
         re_source = ar_source r, re_labels = loads_dict (ar_labels r),
         re_updated_at = ar_updated_at r, re_resource_version = ar_resource_version r\<rparr>)
       (validate (ar_spec_json r))"

definition list_registered_apps :: "(json_col \<Rightarrow> AppManifest option) \<Rightarrow> RegistryStore \<Rightarrow> RegistryEntry list" where
  "list_registered_apps validate st =
     List.map_filter (registry_entry_from_row validate) (sort_key ar_app_name (app_registry st))"

definition list_registered_app_names :: "RegistryStore \<Rightarrow> string list" where
  "list_registered_app_names st = map ar_app_name (sort_key ar_app_name (app_registry st))"

definition get_registered_entry ::
  "(json_col \<Rightarrow> AppManifest option) \<Rightarrow> string \<Rightarrow> RegistryStore \<Rightarrow> RegistryEntry option" where
  "get_registered_entry validate app_name st =
     Option.bind (app_row app_name st) (registry_entry_from_row validate)"

definition get_registered_manifest ::
  "(json_col \<Rightarrow> AppManifest option) \<Rightarrow> string \<Rightarrow> RegistryStore \<Rightarrow> AppManifest option" where
  "get_registered_manifest validate app_name st =
     Option.bind (app_row app_name st) (\<lambda>r. validate (ar_spec_json r))"

text \<open>
  \<^verbatim>\<open>bool(getattr(conn, "total_changes", 0))\<close>: the Postgres wrapper has no such attribute.
\<close>

datatype sql_backend = SqliteConn | PgConn

definition changes_seen :: "sql_backend \<Rightarrow> nat \<Rightarrow> bool" where
  "changes_seen be n = (case be of SqliteConn \<Rightarrow> n > 0 | PgConn \<Rightarrow> False)"

definition delete_registered_app ::
  "sql_backend \<Rightarrow> string \<Rightarrow> int option \<Rightarrow> RegistryStore \<Rightarrow> bool result \<times> RegistryStore" where
  "delete_registered_app be app_name expected st =
     (let current_rv = (case app_row app_name st of None \<Rightarrow> 0 | Some r \<Rightarrow> ar_resource_version r);
          p = (\<lambda>r. ar_app_name r = app_name)
      in if expected \<noteq> None \<and> expected \<noteq> Some current_rv
         then (Inl (RegistryConflictError app_name (the expected) current_rv), st)
         else (Inr (changes_seen be (rowcount p (app_registry st))),
               st\<lparr>app_registry := delete_where p (app_registry st)\<rparr>))"

section \<open>Authority objects\<close>

definition obj_key_of :: "string \<Rightarrow> string \<Rightarrow> string \<Rightarrow> string option \<Rightarrow> string \<Rightarrow> obj_key" where
  "obj_key_of grp version resource namespace name =
     (grp, version, resource, (case namespace of None \<Rightarrow> [] | Some n \<Rightarrow> n), name)"

definition authority_object_conflict_key :: "obj_key \<Rightarrow> string" where
  "authority_object_conflict_key k = (case k of (grp, version, resource, ns, name) \<Rightarrow>
     join ''/'' [if grp = [] then ''core'' else grp, version, resource,
       if ns = [] then ''_cluster'' else ns, name])"

definition authority_row :: "obj_key \<Rightarrow> RegistryStore \<Rightarrow> AuthorityObjectRow option" where
  "authority_row k st = find (\<lambda>r. ao_key r = k) (authority_objects st)"

definition ao_replace :: "AuthorityObjectRow \<Rightarrow> AuthorityObjectRow \<Rightarrow> AuthorityObjectRow" where
  "ao_replace n r = n\<lparr>ao_key := ao_key r\<rparr>"

definition register_authority_write ::
  "time \<Rightarrow> obj_key \<Rightarrow> string \<Rightarrow> dict \<Rightarrow> dict \<Rightarrow> dict \<Rightarrow> int option \<Rightarrow> AuthorityObjectRow option
   \<Rightarrow> RegistryStore \<Rightarrow> int result \<times> RegistryStore" where
  "register_authority_write now k kind metadata spec status expected row st =
     (let current_rv = (case row of None \<Rightarrow> 0 | Some r \<Rightarrow> ao_resource_version r)
      in if expected \<noteq> None \<and> expected \<noteq> Some current_rv
         then (Inl (RegistryConflictError (authority_object_conflict_key k) (the expected) current_rv), st)
         else
           let next_rv = max 1 (current_rv + 1);
               n = \<lparr>ao_key = k, ao_kind = kind, ao_metadata = JDump (JObj metadata),
                    ao_spec = JDump (JObj spec), ao_status = JDump (JObj status),
                    ao_updated_at = now, ao_resource_version = next_rv\<rparr>
           in (Inr next_rv,
               st\<lparr>authority_objects := upsert ao_key (ao_replace n) n (authority_objects st)\<rparr>))"

definition register_authority_object ::
  "time \<Rightarrow> obj_key \<Rightarrow> string \<Rightarrow> dict \<Rightarrow> dict \<Rightarrow> dict \<Rightarrow> int option \<Rightarrow> RegistryStore \<Rightarrow> int result \<times> RegistryStore"
where
  "register_authority_object now k kind metadata spec status expected st =
     register_authority_write now k kind metadata spec status expected (authority_row k st) st"

definition authority_object_from_row :: "AuthorityObjectRow \<Rightarrow> AuthorityObjectEntry" where
  "authority_object_from_row r = (case ao_key r of (grp, version, resource, ns, name) \<Rightarrow>
     \<lparr>ae_group = grp, ae_version = version, ae_resource = resource,
      ae_namespace = (if ns = [] then None else Some ns), ae_name = name, ae_kind = ao_kind r,
      ae_metadata = loads_dict (ao_metadata r), ae_spec = loads_dict (ao_spec r),
      ae_status = loads_dict (ao_status r), ae_updated_at = ao_updated_at r,
      ae_resource_version = ao_resource_version r\<rparr>)"

definition list_authority_objects ::
  "string \<Rightarrow> string \<Rightarrow> string \<Rightarrow> string option \<Rightarrow> RegistryStore \<Rightarrow> AuthorityObjectEntry list" where
  "list_authority_objects grp version resource namespace st =
     map authority_object_from_row
       (sort_key (\<lambda>r. fst (snd (snd (snd (ao_key r))))) (sort_key (\<lambda>r. snd (snd (snd (snd (ao_key r)))))
         (filter (\<lambda>r. case ao_key r of (g, v, rs, ns, n) \<Rightarrow> g = grp \<and> v = version \<and> rs = resource \<and>
            (case namespace of None \<Rightarrow> True | Some x \<Rightarrow> ns = x)) (authority_objects st))))"

definition get_authority_object :: "obj_key \<Rightarrow> RegistryStore \<Rightarrow> AuthorityObjectEntry option" where
  "get_authority_object k st = map_option authority_object_from_row (authority_row k st)"

definition delete_authority_object ::
  "sql_backend \<Rightarrow> obj_key \<Rightarrow> int option \<Rightarrow> RegistryStore \<Rightarrow> bool result \<times> RegistryStore" where
  "delete_authority_object be k expected st =
     (let current_rv = (case authority_row k st of None \<Rightarrow> 0 | Some r \<Rightarrow> ao_resource_version r);
          p = (\<lambda>r. ao_key r = k)
      in if expected \<noteq> None \<and> expected \<noteq> Some current_rv
         then (Inl (RegistryConflictError (authority_object_conflict_key k) (the expected) current_rv), st)
         else (Inr (changes_seen be (rowcount p (authority_objects st))),
               st\<lparr>authority_objects := delete_where p (authority_objects st)\<rparr>))"

section \<open>Revisions and events\<close>

definition revisions_of :: "string \<Rightarrow> RegistryStore \<Rightarrow> AppRevisionRow list" where
  "revisions_of app_name st =
     sort_key (\<lambda>r. - rv_revision r) (filter (\<lambda>r. rv_app_name r = app_name) (app_revisions st))"

definition get_latest_revision :: "string \<Rightarrow> RegistryStore \<Rightarrow> AppRevisionRow option" where
  "get_latest_revision app_name st = (case revisions_of app_name st of [] \<Rightarrow> None | r # _ \<Rightarrow> Some r)"

definition list_revisions :: "string \<Rightarrow> int \<Rightarrow> RegistryStore \<Rightarrow> AppRevisionRow list" where
  "list_revisions app_name limit st = sql_limit limit (revisions_of app_name st)"

definition rv_key :: "AppRevisionRow \<Rightarrow> string \<times> int" where
  "rv_key r = (rv_app_name r, rv_revision r)"

text \<open>
  \<^verbatim>\<open>INSERT ... ON CONFLICT DO NOTHING\<close>, and \<^verbatim>\<open>prepare_revision\<close>. The look-up uses its own connection, so the call is two steps: it
  reads the latest revision, and \<open>prepare_revision_write\<close> is the rest with what was read. \<open>prepare_revision\<close> is the call with nothing in between.
\<close>

definition insert_revision :: "AppRevisionRow \<Rightarrow> RegistryStore \<Rightarrow> RegistryStore" where
  "insert_revision n st =
     (if exists_row (\<lambda>r. rv_key r = rv_key n) (app_revisions st) then st
      else st\<lparr>app_revisions := app_revisions st @ [n]\<rparr>)"

definition revision_row :: "time \<Rightarrow> AppManifest \<Rightarrow> string \<Rightarrow> int \<Rightarrow> AppRevisionRow" where
  "revision_row now m spec_hash revision =
     \<lparr>rv_app_name = app_key_for_manifest m, rv_revision = revision, rv_spec_hash = spec_hash,
      rv_spec_json = JDump (mf_doc m), rv_image = mf_image m, rv_created_at = now, rv_status = ''pending''\<rparr>"

definition prepare_revision_write ::
  "time \<Rightarrow> AppManifest \<Rightarrow> string \<Rightarrow> AppRevisionRow option \<Rightarrow> RegistryStore \<Rightarrow> (int \<times> bool) \<times> RegistryStore" where
  "prepare_revision_write now m spec_hash latest st =
     (case latest of
        Some r \<Rightarrow>
          if rv_spec_hash r = spec_hash then ((rv_revision r, False), st)
          else ((rv_revision r + 1, True), insert_revision (revision_row now m spec_hash (rv_revision r + 1)) st)
      | None \<Rightarrow> ((1, True), insert_revision (revision_row now m spec_hash 1) st))"

definition prepare_revision ::
  "time \<Rightarrow> AppManifest \<Rightarrow> string \<Rightarrow> RegistryStore \<Rightarrow> (int \<times> bool) \<times> RegistryStore" where
  "prepare_revision now m spec_hash st =
     prepare_revision_write now m spec_hash (get_latest_revision (app_key_for_manifest m) st) st"

text \<open>
  The two other writes to the table: the status update at the end of \<^verbatim>\<open>record\<close> and the purge of
  \<^verbatim>\<open>delete_app_state\<close>.
\<close>

definition set_revision_status :: "string \<Rightarrow> string \<Rightarrow> string \<Rightarrow> int \<Rightarrow> RegistryStore \<Rightarrow> RegistryStore" where
  "set_revision_status status img app_name revision st =
     st\<lparr>app_revisions := update_where (\<lambda>r. rv_key r = (app_name, revision))
        (\<lambda>r. r\<lparr>rv_status := status, rv_image := img\<rparr>) (app_revisions st)\<rparr>"

definition purge_history :: "string \<Rightarrow> RegistryStore \<Rightarrow> RegistryStore" where
  "purge_history app_name st =
     st\<lparr>app_events := delete_where (\<lambda>e. ev_app_name e = app_name) (app_events st),
        app_revisions := delete_where (\<lambda>r. rv_app_name r = app_name) (app_revisions st)\<rparr>"

text \<open>
  \<^verbatim>\<open>get_revision_manifest\<close>: a missing revision raises, and so does a stored document that no longer
  validates.
\<close>

definition get_revision_manifest ::
  "(json_col \<Rightarrow> AppManifest option) \<Rightarrow> string \<Rightarrow> int \<Rightarrow> RegistryStore \<Rightarrow> AppManifest result" where
  "get_revision_manifest validate app_name revision st =
     (case find (\<lambda>r. rv_key r = (app_name, revision)) (app_revisions st) of
        None \<Rightarrow> Inl (ValueError (''No revision '' @ show_int revision @ '' recorded for '' @ app_name))
      | Some r \<Rightarrow> (case validate (rv_spec_json r) of
          None \<Rightarrow> Inl (ValueError ''validation'') | Some m \<Rightarrow> Inr m))"

definition record_event :: "time \<Rightarrow> string \<Rightarrow> int \<Rightarrow> string \<Rightarrow> string \<Rightarrow> RegistryStore \<Rightarrow> RegistryStore" where
  "record_event now app_name revision event_type message st =
     st\<lparr>app_events := app_events st @ [\<lparr>ev_app_name = app_name, ev_revision = revision,
        ev_event_type = event_type, ev_message = message, ev_created_at = now\<rparr>]\<rparr>"

definition events_of :: "string \<Rightarrow> RegistryStore \<Rightarrow> AppEvent list" where
  "events_of app_name st = rev (filter (\<lambda>e. ev_app_name e = app_name) (app_events st))"

definition list_events :: "string \<Rightarrow> int \<Rightarrow> RegistryStore \<Rightarrow> AppEvent list" where
  "list_events app_name limit st = sql_limit limit (events_of app_name st)"

definition list_events_paginated :: "string \<Rightarrow> int \<Rightarrow> int \<Rightarrow> RegistryStore \<Rightarrow> AppEvent list \<times> int" where
  "list_events_paginated app_name limit offset st =
     (sql_limit limit (drop (nat offset) (events_of app_name st)), int (length (events_of app_name st)))"

section \<open>Workload metrics\<close>

definition ms_replace :: "WorkloadMetricsSnapshot \<Rightarrow> WorkloadMetricsSnapshot \<Rightarrow> WorkloadMetricsSnapshot" where
  "ms_replace n r = n\<lparr>ms_app_name := ms_app_name r\<rparr>"

definition upsert_workload_metrics_snapshot :: "WorkloadMetricsSnapshot \<Rightarrow> RegistryStore \<Rightarrow> RegistryStore" where
  "upsert_workload_metrics_snapshot n st =
     st\<lparr>workload_metrics := upsert ms_app_name (ms_replace n) n (workload_metrics st)\<rparr>"

definition get_workload_metrics_snapshot :: "string \<Rightarrow> RegistryStore \<Rightarrow> WorkloadMetricsSnapshot option" where
  "get_workload_metrics_snapshot app_name st = find (\<lambda>r. ms_app_name r = app_name) (workload_metrics st)"

definition list_workload_metrics_snapshots :: "RegistryStore \<Rightarrow> WorkloadMetricsSnapshot list" where
  "list_workload_metrics_snapshots st = sort_key ms_app_name (workload_metrics st)"

definition delete_workload_metrics_snapshot ::
  "sql_backend \<Rightarrow> string \<Rightarrow> RegistryStore \<Rightarrow> bool \<times> RegistryStore" where
  "delete_workload_metrics_snapshot be app_name st =
     (let p = (\<lambda>r. ms_app_name r = app_name)
      in (changes_seen be (rowcount p (workload_metrics st)),
          st\<lparr>workload_metrics := delete_where p (workload_metrics st)\<rparr>))"

section \<open>The compare-and-swap contract\<close>

text \<open>
  A registry maps keys to a document and its version; version 0 stands for no entry. A write or delete
  that names another version than the current one raises and changes nothing; any other write
  stores the document under the next version.
\<close>

definition ver_of :: "('d \<times> int) option \<Rightarrow> int" where
  "ver_of x = (case x of None \<Rightarrow> 0 | Some (d, v) \<Rightarrow> v)"

definition next_ver :: "int \<Rightarrow> int" where
  "next_ver v = max 1 (v + 1)"

lemma next_ver_greater [simp]: "v < next_ver v" "next_ver v \<noteq> v" "v \<noteq> next_ver v"
  by (auto simp: next_ver_def)

locale cas_registry =
  fixes look :: "'s \<Rightarrow> 'k \<Rightarrow> ('d \<times> int) option"
    and key :: "'v \<Rightarrow> 'k"
    and doc :: "'v \<Rightarrow> 'd"
    and cname :: "'k \<Rightarrow> string"
    and put :: "'v \<Rightarrow> int option \<Rightarrow> 's \<Rightarrow> int result \<times> 's"
    and del :: "'k \<Rightarrow> int option \<Rightarrow> 's \<Rightarrow> bool result \<times> 's"
  assumes put_stale: "x \<noteq> ver_of (look s (key v)) \<Longrightarrow>
      put v (Some x) s = (Inl (RegistryConflictError (cname (key v)) x (ver_of (look s (key v)))), s)"
    and put_fresh: "e = None \<or> e = Some (ver_of (look s (key v))) \<Longrightarrow>
      \<exists>s'. put v e s = (Inr (next_ver (ver_of (look s (key v)))), s') \<and>
        look s' = (look s)(key v \<mapsto> (doc v, next_ver (ver_of (look s (key v)))))"
    and del_stale: "x \<noteq> ver_of (look s k) \<Longrightarrow>
      del k (Some x) s = (Inl (RegistryConflictError (cname k) x (ver_of (look s k))), s)"
    and del_fresh: "e = None \<or> e = Some (ver_of (look s k)) \<Longrightarrow>
      \<exists>b s'. del k e s = (Inr b, s') \<and> look s' = (look s)(k := None)"
begin

lemma put_cases:
  assumes "put v e s = (r, s')"
  shows "(r = Inr (next_ver (ver_of (look s (key v)))) \<and> (e = None \<or> e = Some (ver_of (look s (key v)))) \<and>
      look s' = (look s)(key v \<mapsto> (doc v, next_ver (ver_of (look s (key v))))))
    \<or> (\<exists>x. e = Some x \<and> x \<noteq> ver_of (look s (key v)) \<and> s' = s \<and>
      r = Inl (RegistryConflictError (cname (key v)) x (ver_of (look s (key v)))))"
proof (cases "e = None \<or> e = Some (ver_of (look s (key v)))")
  case True
  from put_fresh [OF this] assms True show ?thesis by auto
next
  case False
  then obtain x where "e = Some x" "x \<noteq> ver_of (look s (key v))" by (cases e) auto
  with put_stale [of x s v] assms show ?thesis by auto
qed

text \<open>Of two writers that read the same version, the second is told.\<close>

lemma second_writer_conflicts:
  assumes "put v (Some x) s = (Inr n, s')" and "key w = key v"
  shows "put w (Some x) s' = (Inl (RegistryConflictError (cname (key v)) x n), s')"
proof -
  from put_cases [OF assms(1)] have x: "x = ver_of (look s (key v))" "n = next_ver x"
    "look s' = (look s)(key v \<mapsto> (doc v, n))" by auto
  then have "ver_of (look s' (key w)) = n" by (simp add: assms(2) ver_of_def)
  with put_stale [of x s' w] x(2) show ?thesis by (simp add: assms(2))
qed

lemma recreate_reuses:
  assumes "look s (key v) = None" and "key w = key v" and "key x = key v"
  shows "\<exists>s1 b s2 s3 s4. put v None s = (Inr 1, s1) \<and> del (key v) None s1 = (Inr b, s2) \<and>
    put w None s2 = (Inr 1, s3) \<and> put x (Some 1) s3 = (Inr 2, s4)"
proof -
  obtain s1 where s1: "put v None s = (Inr 1, s1)" "look s1 = (look s)(key v \<mapsto> (doc v, 1))"
    using put_fresh [of None s v] assms(1) by (auto simp: ver_of_def next_ver_def)
  obtain b s2 where s2: "del (key v) None s1 = (Inr b, s2)" "look s2 (key v) = None"
    using del_fresh [of None s1 "key v"] by auto
  obtain s3 where s3: "put w None s2 = (Inr 1, s3)" "look s3 (key v) = Some (doc w, 1)"
    using put_fresh [of None s2 w] s2(2) assms(2) by (auto simp: ver_of_def next_ver_def)
  obtain s4 where "put x (Some 1) s3 = (Inr 2, s4)"
    using put_fresh [of "Some 1" s3 x] s3(2) assms(3) by (auto simp: ver_of_def next_ver_def)
  with s1 s2 s3 show ?thesis by blast
qed

end

definition app_look :: "RegistryStore \<Rightarrow> string \<Rightarrow> (json_col \<times> int) option" where
  "app_look st k = map_option (\<lambda>r. (ar_spec_json r, ar_resource_version r)) (app_row k st)"

definition authority_look :: "RegistryStore \<Rightarrow> obj_key \<Rightarrow> ((string \<times> json_col \<times> json_col \<times> json_col) \<times> int) option" where
  "authority_look st k =
     map_option (\<lambda>r. ((ao_kind r, ao_metadata r, ao_spec r, ao_status r), ao_resource_version r)) (authority_row k st)"

type_synonym app_write = "time \<times> AppManifest \<times> string option \<times> dict option"
type_synonym object_write = "time \<times> obj_key \<times> string \<times> dict \<times> dict \<times> dict"

fun put_app :: "(AppManifest \<Rightarrow> string) \<Rightarrow> app_write \<Rightarrow> int option \<Rightarrow> RegistryStore \<Rightarrow> int result \<times> RegistryStore" where
  "put_app mhash (now, m, source, labels) e st = register_app mhash now m source labels e st"

fun put_object :: "object_write \<Rightarrow> int option \<Rightarrow> RegistryStore \<Rightarrow> int result \<times> RegistryStore" where
  "put_object (now, k, kind, md, sp, stt) e st = register_authority_object now k kind md sp stt e st"

fun app_write_key :: "app_write \<Rightarrow> string" where
  "app_write_key (now, m, source, labels) = app_key_for_manifest m"

fun app_write_doc :: "app_write \<Rightarrow> json_col" where
  "app_write_doc (now, m, source, labels) = JDump (mf_doc m)"

fun object_write_key :: "object_write \<Rightarrow> obj_key" where
  "object_write_key (now, k, kind, md, sp, stt) = k"

fun object_write_doc :: "object_write \<Rightarrow> string \<times> json_col \<times> json_col \<times> json_col" where
  "object_write_doc (now, k, kind, md, sp, stt) = (kind, JDump (JObj md), JDump (JObj sp), JDump (JObj stt))"

interpretation ar_upd: keyed_update ar_app_name ar_replace
  by unfold_locales (simp add: ar_replace_def)

interpretation ao_upd: keyed_update ao_key ao_replace
  by unfold_locales (simp add: ao_replace_def)

interpretation ms_upd: keyed_update ms_app_name ms_replace
  by unfold_locales (simp add: ms_replace_def)

lemma ver_of_app_look: "ver_of (app_look st k) = (case app_row k st of None \<Rightarrow> 0 | Some r \<Rightarrow> ar_resource_version r)"
  by (simp add: ver_of_def app_look_def split: option.splits)

lemma ver_of_authority_look:
  "ver_of (authority_look st k) = (case authority_row k st of None \<Rightarrow> 0 | Some r \<Rightarrow> ao_resource_version r)"
  by (simp add: ver_of_def authority_look_def split: option.splits)

text \<open>What each half of a write does, whatever the first half saw.\<close>

lemma app_look_upsert:
  assumes "ar_app_name n = k"
  shows "app_look (st\<lparr>app_registry := upsert ar_app_name (ar_replace n) n (app_registry st)\<rparr>) =
    (app_look st)(k \<mapsto> (ar_spec_json n, ar_resource_version n))"
proof (rule ext)
  fix x
  show "app_look (st\<lparr>app_registry := upsert ar_app_name (ar_replace n) n (app_registry st)\<rparr>) x =
      ((app_look st)(k \<mapsto> (ar_spec_json n, ar_resource_version n))) x"
    unfolding app_look_def app_row_def
    by (cases "x = k"; cases "find (\<lambda>r. ar_app_name r = x) (app_registry st)")
      (simp_all add: ar_upd.lookup_upsert assms ar_replace_def)
qed

lemma authority_look_upsert:
  assumes "ao_key n = k"
  shows "authority_look (st\<lparr>authority_objects := upsert ao_key (ao_replace n) n (authority_objects st)\<rparr>) =
    (authority_look st)(k \<mapsto> ((ao_kind n, ao_metadata n, ao_spec n, ao_status n), ao_resource_version n))"
proof (rule ext)
  fix x
  show "authority_look (st\<lparr>authority_objects := upsert ao_key (ao_replace n) n (authority_objects st)\<rparr>) x =
      ((authority_look st)(k \<mapsto> ((ao_kind n, ao_metadata n, ao_spec n, ao_status n), ao_resource_version n))) x"
    unfolding authority_look_def authority_row_def
    by (cases "x = k"; cases "find (\<lambda>r. ao_key r = x) (authority_objects st)")
      (simp_all add: ao_upd.lookup_upsert assms ao_replace_def)
qed

lemma register_app_write_fresh:
  assumes "v = (case row of None \<Rightarrow> 0 | Some r \<Rightarrow> ar_resource_version r)" and "e = None \<or> e = Some v"
  shows "\<exists>st'. register_app_write mhash now m source labels e row st = (Inr (next_ver v), st') \<and>
    app_look st' = (app_look st)(app_key_for_manifest m \<mapsto> (JDump (mf_doc m), next_ver v))"
proof -
  have "\<not> (e \<noteq> None \<and> e \<noteq> Some v)" using assms(2) by auto
  then show ?thesis
    by (simp add: register_app_write_def Let_def assms(1) [symmetric] next_ver_def app_look_upsert)
qed

lemma register_authority_write_fresh:
  assumes "v = (case row of None \<Rightarrow> 0 | Some r \<Rightarrow> ao_resource_version r)" and "e = None \<or> e = Some v"
  shows "\<exists>st'. register_authority_write now k kind md sp stt e row st = (Inr (next_ver v), st') \<and>
    authority_look st' =
      (authority_look st)(k \<mapsto> ((kind, JDump (JObj md), JDump (JObj sp), JDump (JObj stt)), next_ver v))"
proof -
  have "\<not> (e \<noteq> None \<and> e \<noteq> Some v)" using assms(2) by auto
  then show ?thesis
    by (simp add: register_authority_write_def Let_def assms(1) [symmetric] next_ver_def authority_look_upsert)
qed

lemma find_delete_key:
  "find (\<lambda>r. key r = x) (delete_where (\<lambda>r. key r = k) t) = (if x = k then None else find (\<lambda>r. key r = x) t)"
proof (cases "x = k")
  case True
  then show ?thesis by (auto simp: find_None_iff)
next
  case False
  then show ?thesis by (simp add: find_delete_where)
qed

interpretation apps: cas_registry app_look app_write_key app_write_doc "\<lambda>k. k" "put_app mhash" "delete_registered_app be"
  for mhash be
proof
  fix e :: int and s :: RegistryStore and v :: app_write
  assume "e \<noteq> ver_of (app_look s (app_write_key v))"
  then show "put_app mhash v (Some e) s = (Inl (RegistryConflictError (app_write_key v) e
      (ver_of (app_look s (app_write_key v)))), s)"
    by (cases v) (simp add: register_app_def register_app_write_def ver_of_app_look Let_def)
next
  fix e :: "int option" and s :: RegistryStore and v :: app_write
  assume "e = None \<or> e = Some (ver_of (app_look s (app_write_key v)))"
  then show "\<exists>s'. put_app mhash v e s = (Inr (next_ver (ver_of (app_look s (app_write_key v)))), s') \<and>
      app_look s' = (app_look s)(app_write_key v \<mapsto> (app_write_doc v, next_ver (ver_of (app_look s (app_write_key v)))))"
    by (cases v) (simp add: register_app_def register_app_write_fresh ver_of_app_look)
next
  fix e :: int and s :: RegistryStore and k
  assume "e \<noteq> ver_of (app_look s k)"
  then show "delete_registered_app be k (Some e) s = (Inl (RegistryConflictError k e (ver_of (app_look s k))), s)"
    by (simp add: delete_registered_app_def ver_of_app_look Let_def)
next
  fix e :: "int option" and s :: RegistryStore and k
  assume "e = None \<or> e = Some (ver_of (app_look s k))"
  then show "\<exists>b s'. delete_registered_app be k e s = (Inr b, s') \<and> app_look s' = (app_look s)(k := None)"
    by (auto simp: delete_registered_app_def ver_of_def Let_def app_look_def app_row_def find_delete_key
        fun_eq_iff split: option.splits)
qed

interpretation objects: cas_registry authority_look object_write_key object_write_doc authority_object_conflict_key
  put_object "delete_authority_object be" for be
proof
  fix e :: int and s :: RegistryStore and v :: object_write
  assume "e \<noteq> ver_of (authority_look s (object_write_key v))"
  then show "put_object v (Some e) s = (Inl (RegistryConflictError (authority_object_conflict_key (object_write_key v)) e
      (ver_of (authority_look s (object_write_key v)))), s)"
    by (cases v) (simp add: register_authority_object_def register_authority_write_def ver_of_authority_look Let_def)
next
  fix e :: "int option" and s :: RegistryStore and v :: object_write
  assume "e = None \<or> e = Some (ver_of (authority_look s (object_write_key v)))"
  then show "\<exists>s'. put_object v e s = (Inr (next_ver (ver_of (authority_look s (object_write_key v)))), s') \<and>
      authority_look s' = (authority_look s)(object_write_key v \<mapsto>
        (object_write_doc v, next_ver (ver_of (authority_look s (object_write_key v)))))"
    by (cases v) (simp add: register_authority_object_def register_authority_write_fresh ver_of_authority_look)
next
  fix e :: int and s :: RegistryStore and k
  assume "e \<noteq> ver_of (authority_look s k)"
  then show "delete_authority_object be k (Some e) s =
      (Inl (RegistryConflictError (authority_object_conflict_key k) e (ver_of (authority_look s k))), s)"
    by (simp add: delete_authority_object_def ver_of_authority_look Let_def)
next
  fix e :: "int option" and s :: RegistryStore and k
  assume "e = None \<or> e = Some (ver_of (authority_look s k))"
  then show "\<exists>b s'. delete_authority_object be k e s = (Inr b, s') \<and> authority_look s' = (authority_look s)(k := None)"
    by (auto simp: delete_authority_object_def ver_of_def Let_def authority_look_def authority_row_def
        find_delete_key fun_eq_iff split: option.splits)
qed

section \<open>Concurrent writers\<close>

text \<open>The contract as a map: what a write does to the entries, whichever backend table holds them.\<close>

definition cas_put ::
  "('k \<Rightarrow> string) \<Rightarrow> 'k \<Rightarrow> 'd \<Rightarrow> int option \<Rightarrow> ('k \<rightharpoonup> 'd \<times> int) \<Rightarrow> int result \<times> ('k \<rightharpoonup> 'd \<times> int)" where
  "cas_put cname k d e m =
     (let v = ver_of (m k)
      in if e = None \<or> e = Some v then (Inr (next_ver v), m(k \<mapsto> (d, next_ver v)))
         else (Inl (RegistryConflictError (cname k) (the e) v), m))"

context cas_registry
begin

lemma put_refines: "map_prod id look (put v e s) = cas_put cname (key v) (doc v) e (look s)"
proof -
  obtain r s' where p: "put v e s = (r, s')" by fastforce
  from put_cases [OF p] show ?thesis by (auto simp: p cas_put_def Let_def)
qed

end

text \<open>
  (C10) Registering an app and writing an authority object refine one abstract operation, the
  compare-and-swap on a map of versioned documents: same result or conflict, and the entries of the
  table afterwards are the entries of the map, for every store and every expected version.
\<close>

theorem registry_refines_cas:
  "map_prod id app_look (register_app mhash now m source labels e st) =
     cas_put (\<lambda>k. k) (app_key_for_manifest m) (JDump (mf_doc m)) e (app_look st) \<and>
   map_prod id authority_look (register_authority_object now k kind md sp stt e st) =
     cas_put authority_object_conflict_key k (kind, JDump (JObj md), JDump (JObj sp), JDump (JObj stt)) e
       (authority_look st)"
  using apps.put_refines [of mhash "(now, m, source, labels)" e st]
    objects.put_refines [of "(now, k, kind, md, sp, stt)" e st] by simp

text \<open>
  Two writers that both read version \<open>v\<close> of an app and write one after the other: once the first
  write has returned, the second raises a conflict that names the version the first one wrote, and
  changes nothing.
\<close>

theorem second_registration_conflicts:
  assumes "register_app mhash now m source labels (Some v) st = (Inr n, st')"
    and "app_key_for_manifest m' = app_key_for_manifest m"
  shows "register_app mhash now' m' source' labels' (Some v) st' =
    (Inl (RegistryConflictError (app_key_for_manifest m) v n), st')"
  using apps.second_writer_conflicts [of mhash "(now, m, source, labels)" v st n st' "(now', m', source', labels')"]
    assms by simp

definition demo_app :: "string \<Rightarrow> AppManifest" where
  "demo_app img = \<lparr>mf_name = ''web'', mf_namespace = None, mf_image = img, mf_doc = JStr img\<rparr>"

lemma demo_app_key [simp]: "app_key_for_manifest (demo_app i) = ''web''"
  by (simp add: demo_app_def app_key_for_manifest_def app_key_def normalize_namespace_def)

theorem second_registration_conflicts_witness:
  "register_app mf_image 6 (demo_app ''b'') None None (Some 0)
     (snd (register_app mf_image 5 (demo_app ''a'') None None (Some 0) empty_registry)) =
   (Inl (RegistryConflictError ''web'' 0 1),
     snd (register_app mf_image 5 (demo_app ''a'') None None (Some 0) empty_registry))"
proof -
  have "register_app mf_image 5 (demo_app ''a'') None None (Some 0) empty_registry =
      (Inr 1, snd (register_app mf_image 5 (demo_app ''a'') None None (Some 0) empty_registry))"
    by (simp add: register_app_def register_app_write_def app_row_def empty_registry_def Let_def)
  from second_registration_conflicts [OF this, of "demo_app ''b''" 6 None None] show ?thesis by simp
qed

text \<open>
  The two halves of a registration are not one transaction. If both writers run their SELECT
  before either INSERT, both succeed with the same new version and the first document is gone.
\<close>

theorem interleaved_registration_lost:
  assumes "app_key_for_manifest m1 = k" and "app_key_for_manifest m2 = k" and "v = ver_of (app_look st k)"
  shows "\<exists>st1 st2.
    register_app_write mhash t1 m1 source1 labels1 (Some v) (app_row k st) st = (Inr (next_ver v), st1) \<and>
    register_app_write mhash t2 m2 source2 labels2 (Some v) (app_row k st) st1 = (Inr (next_ver v), st2) \<and>
    app_look st2 k = Some (JDump (mf_doc m2), next_ver v)"
proof -
  have v: "v = (case app_row k st of None \<Rightarrow> 0 | Some r \<Rightarrow> ar_resource_version r)"
    by (simp add: assms(3) ver_of_app_look)
  obtain st1 where
    "register_app_write mhash t1 m1 source1 labels1 (Some v) (app_row k st) st = (Inr (next_ver v), st1)"
    using register_app_write_fresh [OF v, of "Some v"] by blast
  moreover obtain st2 where
    "register_app_write mhash t2 m2 source2 labels2 (Some v) (app_row k st) st1 = (Inr (next_ver v), st2)"
    "app_look st2 = (app_look st1)(app_key_for_manifest m2 \<mapsto> (JDump (mf_doc m2), next_ver v))"
    using register_app_write_fresh [OF v, of "Some v"] by blast
  ultimately show ?thesis by (auto simp: assms(2))
qed

theorem interleaved_registration_lost_witness:
  "\<exists>st1 st2.
    register_app_write mf_image 5 (demo_app ''a'') None None (Some 0) (app_row ''web'' empty_registry) empty_registry
      = (Inr 1, st1) \<and>
    register_app_write mf_image 6 (demo_app ''b'') None None (Some 0) (app_row ''web'' empty_registry) st1
      = (Inr 1, st2) \<and>
    app_look st2 ''web'' = Some (JDump (JStr ''b''), 1)"
proof -
  have "(0::int) = ver_of (app_look empty_registry ''web'')"
    by (simp add: ver_of_app_look app_row_def empty_registry_def)
  from interleaved_registration_lost [OF demo_app_key [of "''a''"] demo_app_key [of "''b''"] this,
      of mf_image 5 None None 6 None None]
  show ?thesis by (simp add: next_ver_def demo_app_def)
qed

text \<open>
  Versions restart when an object is deleted: a client that read version 1 of the first
  incarnation may overwrite the second one, which it has never seen.
\<close>

theorem recreated_object_accepts_old_version:
  assumes "authority_look st k = None"
  shows "\<exists>s1 b s2 s3 s4.
    register_authority_object t1 k kind md1 sp1 st1 None st = (Inr 1, s1) \<and>
    delete_authority_object be k None s1 = (Inr b, s2) \<and>
    register_authority_object t2 k kind md2 sp2 st2 None s2 = (Inr 1, s3) \<and>
    register_authority_object t3 k kind md3 sp3 st3 (Some 1) s3 = (Inr 2, s4)"
  using objects.recreate_reuses [of st "(t1, k, kind, md1, sp1, st1)" "(t2, k, kind, md2, sp2, st2)"
      "(t3, k, kind, md3, sp3, st3)" be] assms by simp

theorem recreated_object_accepts_old_version_witness:
  "\<exists>s1 b s2 s3 s4.
    register_authority_object 1 (''apps'', ''v1'', ''hpas'', [], ''x'') ''HPA'' [] [] [] None empty_registry = (Inr 1, s1) \<and>
    delete_authority_object SqliteConn (''apps'', ''v1'', ''hpas'', [], ''x'') None s1 = (Inr b, s2) \<and>
    register_authority_object 2 (''apps'', ''v1'', ''hpas'', [], ''x'') ''HPA'' [] [] [] None s2 = (Inr 1, s3) \<and>
    register_authority_object 3 (''apps'', ''v1'', ''hpas'', [], ''x'') ''HPA'' [] [] [] (Some 1) s3 = (Inr 2, s4)"
  by (rule recreated_object_accepts_old_version)
    (simp add: authority_look_def authority_row_def empty_registry_def)

section \<open>Revision histories\<close>

definition history :: "string \<Rightarrow> RegistryStore \<Rightarrow> AppRevisionRow list" where
  "history a st = filter (\<lambda>r. rv_app_name r = a) (app_revisions st)"

definition history_ok :: "RegistryStore \<Rightarrow> bool" where
  "history_ok st = (\<forall>a. map rv_revision (history a st) = [1..int (length (history a st))])"

lemma insort_key_end: "\<forall>y \<in> set ys. f y < f x \<Longrightarrow> insort_key f x ys = ys @ [x]"
  for f :: "'a \<Rightarrow> int"
  by (induction ys) (simp_all add: leD)

lemma sort_key_decreasing:
  fixes f :: "'a \<Rightarrow> int"
  assumes "sorted_wrt (\<lambda>x y. f y < f x) xs"
  shows "sort_key f xs = rev xs"
  using assms
proof (induction xs)
  case (Cons x xs)
  then show ?case by (simp add: insort_key_end)
qed simp

lemma history_ok_sorted:
  assumes "history_ok st"
  shows "revisions_of a st = rev (history a st)"
proof -
  have "map rv_revision (history a st) = [1..int (length (history a st))]" using assms by (simp add: history_ok_def)
  then have "sorted_wrt (<) (map rv_revision (history a st))" by simp
  then have "sorted_wrt (\<lambda>x y. - rv_revision y < - rv_revision x) (history a st)" by (simp add: sorted_wrt_map)
  then show ?thesis by (simp add: revisions_of_def history_def [symmetric] sort_key_decreasing)
qed

lemma history_revision_bounds:
  assumes "history_ok st" and "r \<in> set (history a st)"
  shows "1 \<le> rv_revision r" "rv_revision r \<le> int (length (history a st))"
proof -
  have "rv_revision r \<in> set (map rv_revision (history a st))" using assms(2) by simp
  then have "rv_revision r \<in> {1..int (length (history a st))}"
    using assms(1) by (metis history_ok_def set_upto)
  then show "1 \<le> rv_revision r" "rv_revision r \<le> int (length (history a st))" by auto
qed

lemma history_last_revision:
  assumes "history_ok st" and "history a st \<noteq> []"
  shows "rv_revision (last (history a st)) = int (length (history a st))"
proof -
  let ?n = "int (length (history a st))"
  from assms(2) have "1 \<le> ?n" by (cases "history a st") simp_all
  from assms(1) have "map rv_revision (history a st) = [1..?n]" by (simp add: history_ok_def)
  then have "last (map rv_revision (history a st)) = last [1..?n]" by simp
  with \<open>1 \<le> ?n\<close> show ?thesis using assms(2) by (simp add: last_map upto_rec2)
qed

lemma latest_revision_cases:
  assumes "history_ok st"
  obtains "history a st = []" "get_latest_revision a st = None"
  | r where "history a st \<noteq> []" "last (history a st) = r" "get_latest_revision a st = Some r"
      "rv_revision r = int (length (history a st))"
proof (cases "history a st = []")
  case True
  with that(1) show thesis by (simp add: get_latest_revision_def history_ok_sorted [OF assms])
next
  case False
  then obtain h r where h: "history a st = h @ [r]" by (meson rev_exhaust)
  with history_last_revision [OF assms False] that(2) [OF False, of r] show thesis
    by (simp add: get_latest_revision_def history_ok_sorted [OF assms])
qed

lemma insert_revision_history:
  assumes "history_ok st" and "rv_revision n = int (length (history (rv_app_name n) st)) + 1"
  shows "history (rv_app_name n) (insert_revision n st) = history (rv_app_name n) st @ [n]"
    "history_ok (insert_revision n st)"
proof -
  have fresh: "\<not> exists_row (\<lambda>r. rv_key r = rv_key n) (app_revisions st)"
  proof
    assume "exists_row (\<lambda>r. rv_key r = rv_key n) (app_revisions st)"
    then obtain r where "r \<in> set (history (rv_app_name n) st)" "rv_revision r = rv_revision n"
      by (auto simp: exists_row_iff rv_key_def history_def)
    with history_revision_bounds(2) [OF assms(1), of r "rv_app_name n"] assms(2) show False by simp
  qed
  then have h: "history a (insert_revision n st) = history a st @ (if a = rv_app_name n then [n] else [])" for a
    by (simp add: insert_revision_def history_def)
  then show "history (rv_app_name n) (insert_revision n st) = history (rv_app_name n) st @ [n]" by simp
  have "map rv_revision (history a st) = [1..int (length (history a st))]" for a
    using assms(1) by (simp add: history_ok_def)
  then show "history_ok (insert_revision n st)"
    unfolding history_ok_def by (simp add: h assms(2) upto_rec2)
qed

lemma prepare_revision_cases:
  assumes "history_ok st" and "prepare_revision now m spec_hash st = ((n, created), st')"
  obtains r where "\<not> created" "st' = st" "get_latest_revision (app_key_for_manifest m) st = Some r"
      "rv_spec_hash r = spec_hash" "n = rv_revision r"
  | r where "created" "n = int (length (history (app_key_for_manifest m) st)) + 1" "st' = insert_revision r st"
      "rv_app_name r = app_key_for_manifest m" "rv_revision r = n" "rv_spec_hash r = spec_hash"
proof (rule latest_revision_cases [OF assms(1), of "app_key_for_manifest m"])
  assume "history (app_key_for_manifest m) st = []" "get_latest_revision (app_key_for_manifest m) st = None"
  with assms(2) that(2) [of "revision_row now m spec_hash 1"] show thesis
    by (auto simp: prepare_revision_def prepare_revision_write_def revision_row_def)
next
  fix r assume r: "get_latest_revision (app_key_for_manifest m) st = Some r"
    "rv_revision r = int (length (history (app_key_for_manifest m) st))"
  show thesis
  proof (cases "rv_spec_hash r = spec_hash")
    case True
    with assms(2) r(1) that(1) [OF _ _ r(1) True] show thesis by (simp add: prepare_revision_def prepare_revision_write_def)
  next
    case False
    with assms(2) r that(2) [of "revision_row now m spec_hash n"] show thesis
      by (auto simp: prepare_revision_def prepare_revision_write_def revision_row_def)
  qed
qed

lemma insert_revision_present:
  assumes "history_ok st" and "1 \<le> rv_revision n" and "rv_revision n \<le> int (length (history (rv_app_name n) st))"
  shows "insert_revision n st = st"
proof -
  have "rv_revision n \<in> set [1..int (length (history (rv_app_name n) st))]" using assms(2,3) by simp
  then have "rv_revision n \<in> set (map rv_revision (history (rv_app_name n) st))" using assms(1) by (metis history_ok_def)
  then show ?thesis by (auto simp: insert_revision_def exists_row_iff rv_key_def history_def)
qed

text \<open>The number a caller of \<^verbatim>\<open>prepare_revision\<close> has read, 0 when there was no revision.\<close>

definition read_revision :: "AppRevisionRow option \<Rightarrow> int" where
  "read_revision l = (case l of None \<Rightarrow> 0 | Some r \<Rightarrow> rv_revision r)"

lemma latest_read_revision:
  "history_ok st \<Longrightarrow> read_revision (get_latest_revision a st) = int (length (history a st))"
  by (rule latest_revision_cases [of st a]) (simp_all add: read_revision_def)

lemma prepare_write_history:
  assumes "history_ok st" and "0 \<le> read_revision l" and "read_revision l \<le> int (length (history (app_key_for_manifest m) st))"
  shows "history_ok (snd (prepare_revision_write now m h l st)) \<and>
    length (history a st) \<le> length (history a (snd (prepare_revision_write now m h l st)))"
proof -
  define row where "row = revision_row now m h (read_revision l + 1)"
  have row: "rv_revision row = read_revision l + 1" "rv_app_name row = app_key_for_manifest m"
    by (simp_all add: row_def revision_row_def)
  have "history_ok (insert_revision row st) \<and> length (history a st) \<le> length (history a (insert_revision row st))"
  proof (cases "read_revision l = int (length (history (app_key_for_manifest m) st))")
    case True
    then have "rv_revision row = int (length (history (rv_app_name row) st)) + 1" by (simp add: row)
    from insert_revision_history(2) [OF assms(1) this] show ?thesis by (simp add: insert_revision_def history_def)
  next
    case False
    with assms(2,3) have "insert_revision row st = st" by (intro insert_revision_present [OF assms(1)]) (simp_all add: row)
    with assms(1) show ?thesis by simp
  qed
  moreover have "snd (prepare_revision_write now m h l st) = st \<or> snd (prepare_revision_write now m h l st) = insert_revision row st"
    by (auto simp: prepare_revision_write_def row_def read_revision_def split: option.splits)
  ultimately show ?thesis using assms(1) by auto
qed

lemma set_revision_status_numbers:
  "map rv_revision (history x (set_revision_status status img a n st)) = map rv_revision (history x st)"
  by (simp add: history_def set_revision_status_def update_where_def filter_map o_def if_distrib cong: if_cong)

lemma set_revision_status_history_ok:
  assumes "history_ok st"
  shows "history_ok (set_revision_status status img a n st)"
proof -
  have "length (history x (set_revision_status status img a n st)) = length (history x st)" for x
    using arg_cong [OF set_revision_status_numbers, of length] by simp
  then show ?thesis using assms by (simp add: history_ok_def set_revision_status_numbers)
qed

lemma purge_history_history_ok:
  assumes "history_ok st"
  shows "history_ok (purge_history a st)"
proof -
  have "history x (purge_history a st) = (if x = a then [] else history x st)" for x
    by (auto simp: history_def purge_history_def delete_where_def intro: filter_cong)
  then show ?thesis using assms by (simp add: history_ok_def)
qed

text \<open>
  The runs of the writers of the table. \<open>reads c\<close> is what the call of \<^verbatim>\<open>prepare_revision\<close> by caller \<open>c\<close> has read when it is between its
  two connections: any number of callers may be there at once. A purge finds no call for its app between the two.
\<close>

type_synonym revision_reads = "nat \<Rightarrow> (AppManifest \<times> string \<times> AppRevisionRow option) option"

inductive revisions_reachable :: "revision_reads \<Rightarrow> RegistryStore \<Rightarrow> bool" where
  start: "revisions_reachable (\<lambda>c. None) empty_registry"
| latest_read: "revisions_reachable reads st \<Longrightarrow>
    revisions_reachable (reads(c \<mapsto> (m, spec_hash, get_latest_revision (app_key_for_manifest m) st))) st"
| revision_written: "revisions_reachable reads st \<Longrightarrow> reads c = Some (m, spec_hash, latest) \<Longrightarrow>
    revisions_reachable (reads(c := None)) (snd (prepare_revision_write now m spec_hash latest st))"
| status_set: "revisions_reachable reads st \<Longrightarrow> revisions_reachable reads (set_revision_status status img a n st)"
| purged: "revisions_reachable reads st \<Longrightarrow> (\<And>c m h l. reads c = Some (m, h, l) \<Longrightarrow> app_key_for_manifest m \<noteq> a) \<Longrightarrow>
    revisions_reachable reads (purge_history a st)"

definition reads_ok :: "revision_reads \<Rightarrow> RegistryStore \<Rightarrow> bool" where
  "reads_ok reads st \<longleftrightarrow> (\<forall>c m h l. reads c = Some (m, h, l) \<longrightarrow>
     0 \<le> read_revision l \<and> read_revision l \<le> int (length (history (app_key_for_manifest m) st)))"

lemma reads_okD: "reads_ok reads st \<Longrightarrow> reads c = Some (m, h, l) \<Longrightarrow>
    0 \<le> read_revision l \<and> read_revision l \<le> int (length (history (app_key_for_manifest m) st))"
  by (simp add: reads_ok_def)

lemma revisions_reachable_inv: "revisions_reachable reads st \<Longrightarrow> history_ok st \<and> reads_ok reads st"
proof (induction rule: revisions_reachable.induct)
  case start
  show ?case by (simp add: history_ok_def history_def empty_registry_def reads_ok_def)
next
  case (latest_read reads st c m spec_hash)
  then show ?case by (simp add: reads_ok_def latest_read_revision)
next
  case (revision_written reads st c m spec_hash latest now)
  then have w: "history_ok (snd (prepare_revision_write now m spec_hash latest st)) \<and>
      length (history a st) \<le> length (history a (snd (prepare_revision_write now m spec_hash latest st)))" for a
    using prepare_write_history reads_okD by blast
  have "reads_ok (reads(c := None)) (snd (prepare_revision_write now m spec_hash latest st))"
    unfolding reads_ok_def
  proof (intro allI impI)
    fix c' m' h l assume "(reads(c := None)) c' = Some (m', h, l)"
    then have "reads c' = Some (m', h, l)" by (simp split: if_splits)
    from reads_okD [of reads st, OF _ this] revision_written.IH w [of "app_key_for_manifest m'"]
    show "0 \<le> read_revision l \<and> read_revision l \<le>
        int (length (history (app_key_for_manifest m') (snd (prepare_revision_write now m spec_hash latest st))))" by simp
  qed
  with w show ?case by blast
next
  case (status_set reads st status img a n)
  have "map rv_revision (history x (set_revision_status status img a n st)) = map rv_revision (history x st)" for x
    by (rule set_revision_status_numbers)
  from arg_cong [OF this, of length] have "length (history x (set_revision_status status img a n st)) = length (history x st)" for x
    by simp
  with status_set show ?case by (simp add: set_revision_status_history_ok reads_ok_def)
next
  case (purged reads st a)
  have "history x (purge_history a st) = history x st" if "x \<noteq> a" for x
    using that by (auto simp: history_def purge_history_def delete_where_def intro: filter_cong)
  with purged.hyps(2) purged.IH have "reads_ok reads (purge_history a st)" unfolding reads_ok_def by metis
  with purged.IH show ?case by (simp add: purge_history_history_ok)
qed

lemma prepared_reachable:
  assumes "revisions_reachable (\<lambda>c. None) st"
  shows "revisions_reachable (\<lambda>c. None) (snd (prepare_revision now m h st))"
proof -
  have "revisions_reachable ((\<lambda>c. None)(0 := Some (m, h, get_latest_revision (app_key_for_manifest m) st), 0 := None))
      (snd (prepare_revision now m h st))"
    unfolding prepare_revision_def
    by (rule revision_written [OF latest_read [OF assms, where c = 0]]) simp
  moreover have "(\<lambda>c. None)(0 := x, 0 := None) = (\<lambda>c. None)" for x :: "(AppManifest \<times> string \<times> AppRevisionRow option) option"
    by (rule ext) simp
  ultimately show ?thesis by simp
qed

text \<open>
  (C11) In every run in which any number of calls of \<^verbatim>\<open>prepare_revision\<close>, each reading on one connection and inserting on another, status
  updates and purges interleave, no purge coming between the read and the insert of a call for the same app, the revisions of an app are exactly
  \<open>1, \<dots>, n\<close> without gap or repetition: listed newest first they count down from \<open>n\<close> to 1. The condition is needed (\<open>purge_leaves_gap\<close>).
\<close>

theorem revision_history_contiguous:
  assumes "revisions_reachable reads st"
  shows "map rv_revision (revisions_of a st) = rev [1..int (length (revisions_of a st))]"
proof -
  have ok: "history_ok st" using revisions_reachable_inv [OF assms] by simp
  then have "map rv_revision (history a st) = [1..int (length (history a st))]" by (simp add: history_ok_def)
  then show ?thesis by (simp add: history_ok_sorted [OF ok] rev_map [symmetric])
qed

definition demo_revisions :: RegistryStore where
  "demo_revisions =
     snd (prepare_revision 2 (demo_app ''b'') ''h2'' (snd (prepare_revision 1 (demo_app ''a'') ''h1'' empty_registry)))"

text \<open>Two callers read before either inserts; the second insert meets the first and does nothing.\<close>

definition demo_race :: RegistryStore where
  "demo_race = (let l = get_latest_revision ''web'' demo_revisions;
       st = snd (prepare_revision_write 3 (demo_app ''c'') ''h3'' l demo_revisions)
     in snd (prepare_revision_write 4 (demo_app ''d'') ''h4'' l st))"

lemma demo_race_reachable: "revisions_reachable (\<lambda>c. None) demo_race"
proof -
  let ?l = "get_latest_revision ''web'' demo_revisions"
  let ?reads = "(\<lambda>c :: nat. None)(0 := Some (demo_app ''c'', ''h3'', ?l), 1 := Some (demo_app ''d'', ''h4'', ?l))"
  have "revisions_reachable (\<lambda>c. None) demo_revisions"
    unfolding demo_revisions_def by (intro prepared_reachable start)
  then have "revisions_reachable ?reads demo_revisions"
    using latest_read [where m = "demo_app ''c''" and c = 0 and spec_hash = "''h3''"]
      latest_read [where m = "demo_app ''d''" and c = 1 and spec_hash = "''h4''"] by (metis demo_app_key)
  then have "revisions_reachable (?reads(0 := None)) (snd (prepare_revision_write 3 (demo_app ''c'') ''h3'' ?l demo_revisions))"
    by (rule revision_written) simp
  then have "revisions_reachable (?reads(0 := None, 1 := None)) demo_race"
    unfolding demo_race_def Let_def by (rule revision_written) simp
  moreover have "?reads(0 := None, 1 := None) = (\<lambda>c. None)" by (rule ext) simp
  ultimately show ?thesis by simp
qed

theorem revision_history_contiguous_witness:
  "map rv_revision (revisions_of ''web'' demo_race) = [3, 2, 1]"
proof -
  note h = revision_history_contiguous [OF demo_race_reachable, of "''web''"]
  have "length (revisions_of ''web'' demo_race) = 3" by code_simp
  with h have "map rv_revision (revisions_of ''web'' demo_race) = rev [1..3]" by simp
  also have "rev [1..3] = [3, 2, 1::int]" by code_simp
  finally show ?thesis .
qed

text \<open>
  Both callers of the race are told that they made revision 3, but only the manifest of the first is recorded. And a purge between the read and
  the insert of a call leaves a history that begins above 1.
\<close>

theorem raced_revision_lost:
  "let l = get_latest_revision ''web'' demo_revisions in
     fst (prepare_revision_write 4 (demo_app ''d'') ''h4'' l (snd (prepare_revision_write 3 (demo_app ''c'') ''h3'' l demo_revisions))) =
       (3, True) \<and> \<not> exists_row (\<lambda>r. rv_spec_hash r = ''h4'') (app_revisions demo_race)"
  by code_simp

theorem purge_leaves_gap:
  "let l = get_latest_revision ''web'' demo_revisions in
     map rv_revision (revisions_of ''web''
       (snd (prepare_revision_write 3 (demo_app ''c'') ''h3'' l (purge_history ''web'' demo_revisions)))) = [3]"
  by code_simp

text \<open>
  A serial call that prepares a revision makes it the app's latest one with the hash of the manifest, and preparing
  the same manifest again changes nothing: it answers the same revision, not created.
\<close>

theorem prepare_revision_idempotent:
  assumes "revisions_reachable (\<lambda>c. None) st" and "prepare_revision now m spec_hash st = ((n, created), st')"
  shows "prepare_revision now' m spec_hash st' = ((n, False), st') \<and>
    map_option (\<lambda>r. (rv_revision r, rv_spec_hash r)) (get_latest_revision (app_key_for_manifest m) st') =
      Some (n, spec_hash)"
proof -
  have ok: "history_ok st" using revisions_reachable_inv [OF assms(1)] by simp
  have "\<exists>r. get_latest_revision (app_key_for_manifest m) st' = Some r \<and> rv_revision r = n \<and> rv_spec_hash r = spec_hash"
    using ok assms(2)
  proof (rule prepare_revision_cases)
    fix r assume "st' = insert_revision r st" "rv_app_name r = app_key_for_manifest m" "rv_revision r = n"
      "rv_spec_hash r = spec_hash" "n = int (length (history (app_key_for_manifest m) st)) + 1"
    with insert_revision_history [OF ok, of r] show ?thesis
      by (simp add: get_latest_revision_def history_ok_sorted)
  qed simp
  then show ?thesis by (auto simp: prepare_revision_def prepare_revision_write_def)
qed

theorem prepare_revision_idempotent_witness:
  "prepare_revision 9 (demo_app ''b'') ''h2'' demo_revisions = ((2, False), demo_revisions)"
proof -
  have r: "revisions_reachable (\<lambda>c. None) (snd (prepare_revision 1 (demo_app ''a'') ''h1'' empty_registry))"
    by (intro prepared_reachable start)
  have "fst (prepare_revision 2 (demo_app ''b'') ''h2'' (snd (prepare_revision 1 (demo_app ''a'') ''h1'' empty_registry))) =
      (2, True)" by code_simp
  then have "prepare_revision 2 (demo_app ''b'') ''h2'' (snd (prepare_revision 1 (demo_app ''a'') ''h1'' empty_registry)) =
      ((2, True), demo_revisions)" by (simp add: demo_revisions_def prod_eq_iff)
  from prepare_revision_idempotent [OF r this, of 9] show ?thesis by simp
qed

section \<open>App keys, again\<close>

lemma split_dashes_append:
  "split_dashes (ns @ ''-'') = None \<Longrightarrow> split_dashes (ns @ ''--'' @ name) = Some (ns, name)"
  by (induction ns rule: split_dashes.induct) (auto split: if_splits)

text \<open>
  A name in a namespace is recovered from its key, provided the namespace is trimmed, non-empty, not
  the default one and neither contains the separator nor ends in a dash.
\<close>

theorem split_app_key_round_trip:
  assumes "normalize_namespace (Some ns) = Some ns" and "ns \<noteq> default_namespace"
    and "split_dashes (ns @ ''-'') = None"
  shows "split_app_key (app_key name (Some ns)) = (ns, name)"
proof -
  have "ns \<noteq> []" using assms(1) by (auto simp: normalize_namespace_def Let_def split: if_splits)
  with split_dashes_append [OF assms(3), of name] assms(1,2) show ?thesis
    by (simp add: split_app_key_def app_key_def)
qed

theorem split_app_key_round_trip_witness:
  "split_app_key (app_key ''web--v2'' (Some ''prod'')) = (''prod'', ''web--v2'')"
  by (rule split_app_key_round_trip) code_simp+

text \<open>
  Keys are not unique: the app of the default namespace whose name is the key of an app \<open>m\<close> in
  another namespace shares its registry entry. Registering it replaces the document stored for \<open>m\<close>, as
  the next version of the same entry.
\<close>

theorem app_key_collision_overwrites:
  "app_look (snd (register_app mhash now
       (m\<lparr>mf_name := app_key_for_manifest m, mf_namespace := None, mf_doc := d\<rparr>) source labels None st))
     (app_key_for_manifest m) =
   Some (JDump d, next_ver (ver_of (app_look st (app_key_for_manifest m))))"
proof -
  let ?m = "m\<lparr>mf_name := app_key_for_manifest m, mf_namespace := None, mf_doc := d\<rparr>"
  have k: "app_key_for_manifest ?m = app_key_for_manifest m"
    by (simp add: app_key_for_manifest_def app_key_def normalize_namespace_def)
  from apps.put_refines [of mhash "(now, ?m, source, labels)" None st]
  have "app_look (snd (register_app mhash now ?m source labels None st)) =
      snd (cas_put (\<lambda>k. k) (app_key_for_manifest m) (JDump d) None (app_look st))"
    by (simp add: k prod_eq_iff)
  then show ?thesis by (simp add: cas_put_def Let_def)
qed

end
