(* ===== verification/Leases.thy ===== *)
theory Leases
  imports K1s_Prelude
begin

text \<open>
  Exclusive resources of the state store (\<^verbatim>\<open>ae/controller/state.py\<close>): the GPU, port and node leases of
  inference cells and the core-proxy ports of sites; and \<^verbatim>\<open>InferenceLeaseManager\<close> of
  \<^verbatim>\<open>ae/controller/inference_cell.py\<close>, which takes all a cell needs or nothing.

  The three lease tables have the same columns apart from their key. The locale \<open>exclusive_leases\<close> is
  what the manager relies on: a request is granted exactly when every key it wants is free, and then
  belongs to the lease until the lease is released. The database is taken to answer: the branches
  that catch an exception of the connection are outside the model.
\<close>

section \<open>Tables\<close>

record 'k LeaseRow =
  ls_key :: 'k
  ls_lease_id :: string
  ls_cell_key :: string
  ls_expires_at :: time
  ls_created_at :: time

record InferenceTables =
  gpu_leases :: "(string \<times> int) LeaseRow list"
  port_leases :: "(string \<times> int) LeaseRow list"
  node_locks :: "string LeaseRow list"

definition empty_leases :: InferenceTables where
  "empty_leases = \<lparr>gpu_leases = [], port_leases = [], node_locks = []\<rparr>"

definition lease_row :: "time \<Rightarrow> string \<Rightarrow> string \<Rightarrow> int \<Rightarrow> 'k \<Rightarrow> 'k LeaseRow" where
  "lease_row now lease_id cell_key ttl k =
     \<lparr>ls_key = k, ls_lease_id = lease_id, ls_cell_key = cell_key,
      ls_expires_at = now + max 1 ttl * 1000000, ls_created_at = now\<rparr>"

text \<open>\<^verbatim>\<open>INSERT ... ON CONFLICT DO NOTHING\<close> and its \<^verbatim>\<open>rowcount\<close>.\<close>

definition insert_lease :: "'k LeaseRow \<Rightarrow> 'k LeaseRow list \<Rightarrow> bool \<times> 'k LeaseRow list" where
  "insert_lease r t = (if exists_row (\<lambda>x. ls_key x = ls_key r) t then (False, t) else (True, t @ [r]))"

text \<open>The loop over the rows of one request; a conflict rolls the transaction back to \<open>t0\<close>.\<close>

fun insert_leases :: "'k LeaseRow list \<Rightarrow> 'k LeaseRow list \<Rightarrow> 'k LeaseRow list \<Rightarrow> bool \<times> 'k LeaseRow list" where
  "insert_leases t0 [] t = (True, t)"
| "insert_leases t0 (r # rs) t = (case insert_lease r t of
     (False, _) \<Rightarrow> (False, t0)
   | (True, t') \<Rightarrow> insert_leases t0 rs t')"

section \<open>The operations of the store\<close>

definition acquire_inference_gpu_leases ::
  "time \<Rightarrow> string \<Rightarrow> string \<Rightarrow> (string \<times> int) list \<Rightarrow> int \<Rightarrow> InferenceTables \<Rightarrow> bool \<times> InferenceTables" where
  "acquire_inference_gpu_leases now lease_id cell_key slots ttl st =
     (case insert_leases (gpu_leases st) (map (lease_row now lease_id cell_key ttl) slots) (gpu_leases st) of
        (ok, t) \<Rightarrow> (ok, st\<lparr>gpu_leases := t\<rparr>))"

definition release_inference_gpu_leases :: "string \<Rightarrow> InferenceTables \<Rightarrow> InferenceTables" where
  "release_inference_gpu_leases lease_id st =
     st\<lparr>gpu_leases := delete_where (\<lambda>r. ls_lease_id r = lease_id) (gpu_leases st)\<rparr>"

definition reserve_inference_port ::
  "time \<Rightarrow> string \<Rightarrow> string \<Rightarrow> string \<Rightarrow> int \<Rightarrow> int \<Rightarrow> InferenceTables \<Rightarrow> bool \<times> InferenceTables" where
  "reserve_inference_port now lease_id cell_key node_id port ttl st =
     (case insert_lease (lease_row now lease_id cell_key ttl (node_id, port)) (port_leases st) of
        (ok, t) \<Rightarrow> (ok, st\<lparr>port_leases := t\<rparr>))"

fun reserve_first_port ::
  "time \<Rightarrow> string \<Rightarrow> string \<Rightarrow> string \<Rightarrow> int list \<Rightarrow> int \<Rightarrow> InferenceTables \<Rightarrow> int option \<times> InferenceTables" where
  "reserve_first_port now lease_id cell_key node_id [] ttl st = (None, st)"
| "reserve_first_port now lease_id cell_key node_id (p # ps) ttl st =
     (case reserve_inference_port now lease_id cell_key node_id p ttl st of
        (True, st') \<Rightarrow> (Some p, st')
      | (False, st') \<Rightarrow> reserve_first_port now lease_id cell_key node_id ps ttl st')"

definition reserve_inference_port_from_range ::
  "time \<Rightarrow> string \<Rightarrow> string \<Rightarrow> string \<Rightarrow> int \<Rightarrow> int \<Rightarrow> int \<Rightarrow> InferenceTables \<Rightarrow> int option \<times> InferenceTables" where
  "reserve_inference_port_from_range now lease_id cell_key node_id lo hi ttl st =
     reserve_first_port now lease_id cell_key node_id [min lo hi..max lo hi] ttl st"

definition release_inference_port_leases :: "string \<Rightarrow> InferenceTables \<Rightarrow> InferenceTables" where
  "release_inference_port_leases lease_id st =
     st\<lparr>port_leases := delete_where (\<lambda>r. ls_lease_id r = lease_id) (port_leases st)\<rparr>"

definition acquire_inference_node_locks ::
  "time \<Rightarrow> string \<Rightarrow> string \<Rightarrow> string list \<Rightarrow> int \<Rightarrow> InferenceTables \<Rightarrow> bool \<times> InferenceTables" where
  "acquire_inference_node_locks now lease_id cell_key node_ids ttl st =
     (case insert_leases (node_locks st) (map (lease_row now lease_id cell_key ttl) node_ids) (node_locks st) of
        (ok, t) \<Rightarrow> (ok, st\<lparr>node_locks := t\<rparr>))"

definition release_inference_node_locks :: "string \<Rightarrow> InferenceTables \<Rightarrow> InferenceTables" where
  "release_inference_node_locks lease_id st =
     st\<lparr>node_locks := delete_where (\<lambda>r. ls_lease_id r = lease_id) (node_locks st)\<rparr>"

text \<open>The part of \<^verbatim>\<open>delete_inference_cell\<close> that reaches the lease tables.\<close>

definition delete_cell_leases :: "string \<Rightarrow> InferenceTables \<Rightarrow> InferenceTables" where
  "delete_cell_leases cell_key st =
     \<lparr>gpu_leases = delete_where (\<lambda>r. ls_cell_key r = cell_key) (gpu_leases st),
      port_leases = delete_where (\<lambda>r. ls_cell_key r = cell_key) (port_leases st),
      node_locks = delete_where (\<lambda>r. ls_cell_key r = cell_key) (node_locks st)\<rparr>"

section \<open>The lease manager\<close>

record StagePlacement =
  sp_stage :: int
  sp_site_id :: string
  sp_node_id :: string
  sp_gpu_indices :: "int list"

definition gpu_slots :: "StagePlacement list \<Rightarrow> (string \<times> int) list" where
  "gpu_slots placements = concat (map (\<lambda>p. map (Pair (sp_node_id p)) (sp_gpu_indices p)) placements)"

text \<open>The fields of \<^verbatim>\<open>InferenceCellSpec\<close> that the manager reads.\<close>

record CellSpec =
  cs_ttl_seconds :: int
  cs_master_stage :: int
  cs_master_port_min :: int
  cs_master_port_max :: int
  cs_api_port_min :: int
  cs_api_port_max :: int
  cs_executor_type :: string
  cs_fallback_mode :: string
  cs_policy_mode :: string

record LeaseBundle =
  lb_lease_id :: string
  lb_slots :: "(string \<times> int) list"
  lb_master_port :: "int option"
  lb_api_port :: int
  lb_locked_nodes :: "string list"

definition release_bundle :: "LeaseBundle \<Rightarrow> InferenceTables \<Rightarrow> InferenceTables" where
  "release_bundle b st =
     (if lb_lease_id b = [] then st
      else release_inference_node_locks (lb_lease_id b) (release_inference_gpu_leases (lb_lease_id b)
             (release_inference_port_leases (lb_lease_id b) st)))"

definition mk_bundle :: "string \<Rightarrow> (string \<times> int) list \<Rightarrow> int option \<Rightarrow> int \<Rightarrow> string list \<Rightarrow> LeaseBundle" where
  "mk_bundle lease_id slots mp ap nodes =
     \<lparr>lb_lease_id = lease_id, lb_slots = slots, lb_master_port = mp, lb_api_port = ap, lb_locked_nodes = nodes\<rparr>"

definition wants_mp_port :: "CellSpec \<Rightarrow> bool" where
  "wants_mp_port spec = (cs_executor_type spec = ''mp'' \<or> cs_fallback_mode spec = ''mp_on_failure'')"

definition reserve_locks ::
  "time \<Rightarrow> string \<Rightarrow> string \<Rightarrow> CellSpec \<Rightarrow> StagePlacement list \<Rightarrow> int option \<Rightarrow> int
   \<Rightarrow> InferenceTables \<Rightarrow> LeaseBundle option \<times> InferenceTables" where
  "reserve_locks now lease_id cell_key spec placements master_port api_port st =
     (let slots = gpu_slots placements; ttl = max 60 (cs_ttl_seconds spec)
      in if cs_policy_mode spec = ''strict_ports''
         then let node_ids = sort (remdups (map sp_node_id placements))
              in case acquire_inference_node_locks now lease_id cell_key node_ids ttl st of
                   (False, st1) \<Rightarrow> (None, release_bundle (mk_bundle lease_id slots master_port api_port []) st1)
                 | (True, st1) \<Rightarrow> (Some (mk_bundle lease_id slots master_port api_port node_ids), st1)
         else (Some (mk_bundle lease_id slots master_port api_port []), st))"

definition reserve_api ::
  "time \<Rightarrow> string \<Rightarrow> string \<Rightarrow> CellSpec \<Rightarrow> StagePlacement list \<Rightarrow> string \<Rightarrow> int option
   \<Rightarrow> InferenceTables \<Rightarrow> LeaseBundle option \<times> InferenceTables" where
  "reserve_api now lease_id cell_key spec placements node_id master_port st =
     (case reserve_inference_port_from_range now lease_id cell_key node_id (cs_api_port_min spec)
             (cs_api_port_max spec) (max 60 (cs_ttl_seconds spec)) st of
        (None, st1) \<Rightarrow> (None, release_bundle (mk_bundle lease_id (gpu_slots placements) master_port 0 []) st1)
      | (Some api_port, st1) \<Rightarrow> reserve_locks now lease_id cell_key spec placements master_port api_port st1)"

definition reserve_ports ::
  "time \<Rightarrow> string \<Rightarrow> string \<Rightarrow> CellSpec \<Rightarrow> StagePlacement list \<Rightarrow> string
   \<Rightarrow> InferenceTables \<Rightarrow> LeaseBundle option \<times> InferenceTables" where
  "reserve_ports now lease_id cell_key spec placements node_id st =
     (if wants_mp_port spec
      then case reserve_inference_port_from_range now lease_id cell_key node_id (cs_master_port_min spec)
                  (cs_master_port_max spec) (max 60 (cs_ttl_seconds spec)) st of
             (None, st1) \<Rightarrow> (None, release_bundle (mk_bundle lease_id (gpu_slots placements) None 0 []) st1)
           | (Some p, st1) \<Rightarrow> reserve_api now lease_id cell_key spec placements node_id (Some p) st1
      else reserve_api now lease_id cell_key spec placements node_id None st)"

definition stage0_node :: "CellSpec \<Rightarrow> StagePlacement list \<Rightarrow> string" where
  "stage0_node spec pl = sp_node_id (case find (\<lambda>p. sp_stage p = cs_master_stage spec) pl of Some p \<Rightarrow> p | None \<Rightarrow> hd pl)"

text \<open>
  \<^verbatim>\<open>reserve\<close>; \<open>lease_id\<close> is \<^verbatim>\<open>f"l-{uuid4().hex[:12]}"\<close>. The default of \<^verbatim>\<open>next\<close> is evaluated first, so an empty
  placement raises whatever the stages are.
\<close>

definition reserve ::
  "time \<Rightarrow> string \<Rightarrow> string \<Rightarrow> CellSpec \<Rightarrow> StagePlacement list \<Rightarrow> (InferenceTables, LeaseBundle option) eff" where
  "reserve now lease_id cell_key spec placements st =
     (case acquire_inference_gpu_leases now lease_id cell_key (gpu_slots placements)
             (max 60 (cs_ttl_seconds spec)) st of
        (False, st1) \<Rightarrow> (Inr None, st1)
      | (True, st1) \<Rightarrow>
          if placements = [] then (Inl IndexError, st1)
          else map_prod Inr id (reserve_ports now lease_id cell_key spec placements (stage0_node spec placements) st1))"

section \<open>The contract of a lease table\<close>

text \<open>\<open>wants q\<close> are the keys a request asks for; \<open>holders\<close> are the leases a key belongs to.\<close>

locale exclusive_leases =
  fixes holders :: "'s \<Rightarrow> 'k \<Rightarrow> string set"
    and wants :: "'q \<Rightarrow> 'k list"
    and acquire :: "string \<Rightarrow> 'q \<Rightarrow> 's \<Rightarrow> bool \<times> 's"
    and release :: "string \<Rightarrow> 's \<Rightarrow> 's"
  assumes granted: "distinct (wants q) \<Longrightarrow> \<forall>k \<in> set (wants q). holders s k = {} \<Longrightarrow>
      \<exists>s'. acquire i q s = (True, s') \<and> holders s' = (\<lambda>k. if k \<in> set (wants q) then {i} else holders s k)"
    and refused: "\<not> (distinct (wants q) \<and> (\<forall>k \<in> set (wants q). holders s k = {})) \<Longrightarrow>
      acquire i q s = (False, s)"
    and released: "holders (release i s) k = holders s k - {i}"
begin

lemma acquire_True:
  assumes "acquire i q s = (True, s')"
  shows "distinct (wants q)" "\<forall>k \<in> set (wants q). holders s k = {}"
    "holders s' = (\<lambda>k. if k \<in> set (wants q) then {i} else holders s k)"
proof -
  from refused [of q s i] assms show q: "distinct (wants q)" "\<forall>k \<in> set (wants q). holders s k = {}" by auto
  from granted [OF q, of i] assms show "holders s' = (\<lambda>k. if k \<in> set (wants q) then {i} else holders s k)" by auto
qed

lemma acquire_False:
  assumes "acquire i q s = (False, s')"
  shows "s' = s" "\<not> (distinct (wants q) \<and> (\<forall>k \<in> set (wants q). holders s k = {}))"
proof -
  from granted [of q s i] assms show n: "\<not> (distinct (wants q) \<and> (\<forall>k \<in> set (wants q). holders s k = {}))" by auto
  from refused [OF n, of i] assms show "s' = s" by simp
qed

text \<open>No two leases hold a key, and while one does, every request for it is refused.\<close>

lemma acquire_excludes:
  assumes "acquire i q s = (True, s')" and "k \<in> set (wants q)" and "k \<in> set (wants q')"
  shows "acquire j q' s' = (False, s')"
  by (rule refused) (use acquire_True(3) [OF assms(1)] assms(2,3) in auto)

lemma acquire_single_holder:
  assumes "acquire i q s = (b, s')" and "\<And>k. \<exists>j. holders s k \<subseteq> {j}"
  shows "\<exists>j. holders s' k \<subseteq> {j}"
proof (cases b)
  case True
  then have "acquire i q s = (True, s')" using assms(1) by simp
  from acquire_True(3) [OF this] assms(2) [of k] show ?thesis by (cases "k \<in> set (wants q)") auto
next
  case False
  then have "s' = s" using acquire_False(1) [of i q s s'] assms(1) by simp
  then show ?thesis using assms(2) by simp
qed

lemma release_single_holder:
  assumes "\<And>k. \<exists>j. holders s k \<subseteq> {j}"
  shows "\<exists>j. holders (release i s) k \<subseteq> {j}"
  using assms [of k] by (auto simp: released)

text \<open>A released lease leaves every key it held free for the next request.\<close>

lemma release_frees:
  assumes "distinct (wants q)" and "\<And>k. k \<in> set (wants q) \<Longrightarrow> holders s k \<subseteq> {i}"
  shows "fst (acquire j q (release i s))"
proof -
  have "\<forall>k \<in> set (wants q). holders (release i s) k = {}" using assms(2) by (auto simp: released)
  from granted [OF assms(1) this, of j] show ?thesis by auto
qed

end

definition table_holders :: "'k LeaseRow list \<Rightarrow> 'k \<Rightarrow> string set" where
  "table_holders t k = ls_lease_id ` {r \<in> set t. ls_key r = k}"

lemma exists_row_holders: "exists_row (\<lambda>x. ls_key x = k) t \<longleftrightarrow> table_holders t k \<noteq> {}"
  by (auto simp: exists_row_iff table_holders_def)

lemma table_holders_append [simp]: "table_holders (t @ u) k = table_holders t k \<union> table_holders u k"
  by (auto simp: table_holders_def)

lemma table_holders_lease_rows [simp]:
  "table_holders (map (lease_row now i c ttl) ks) k = (if k \<in> set ks then {i} else {})"
proof -
  have "{r \<in> set (map (lease_row now i c ttl) ks). ls_key r = k} = (if k \<in> set ks then {lease_row now i c ttl k} else {})"
    by (auto simp: lease_row_def)
  then show ?thesis by (simp add: table_holders_def lease_row_def)
qed

lemma table_holders_released [simp]:
  "table_holders (delete_where (\<lambda>r. ls_lease_id r = i) t) k = table_holders t k - {i}"
  by (auto simp: table_holders_def)

lemma insert_lease_row:
  "insert_lease (lease_row now i c ttl k) t =
     (if table_holders t k = {} then (True, t @ [lease_row now i c ttl k]) else (False, t))"
  by (simp add: insert_lease_def exists_row_holders lease_row_def)

lemma insert_leases_cases:
  "insert_leases t0 (map (lease_row now i c ttl) ks) t =
     (if distinct ks \<and> (\<forall>k \<in> set ks. table_holders t k = {})
      then (True, t @ map (lease_row now i c ttl) ks) else (False, t0))"
proof (induction ks arbitrary: t)
  case (Cons k ks)
  show ?case
  proof (cases "table_holders t k = {}")
    case True
    then have "insert_leases t0 (map (lease_row now i c ttl) (k # ks)) t =
        insert_leases t0 (map (lease_row now i c ttl) ks) (t @ [lease_row now i c ttl k])"
      by (simp add: insert_lease_row)
    also have "\<dots> = (if distinct ks \<and> (\<forall>x \<in> set ks. table_holders (t @ [lease_row now i c ttl k]) x = {})
        then (True, (t @ [lease_row now i c ttl k]) @ map (lease_row now i c ttl) ks) else (False, t0))" by (rule Cons.IH)
    also have "(\<forall>x \<in> set ks. table_holders (t @ [lease_row now i c ttl k]) x = {}) \<longleftrightarrow>
        k \<notin> set ks \<and> (\<forall>x \<in> set ks. table_holders t x = {})"
      using table_holders_lease_rows [of now i c ttl "[k]"] by auto
    finally show ?thesis using True by auto
  next
    case False
    then show ?thesis by (auto simp: insert_lease_row)
  qed
qed simp

interpretation gpu: exclusive_leases "\<lambda>st. table_holders (gpu_leases st)" "\<lambda>q. q"
  "\<lambda>i q. acquire_inference_gpu_leases now i cell q ttl" release_inference_gpu_leases for now cell ttl
  by unfold_locales
    (auto simp: acquire_inference_gpu_leases_def release_inference_gpu_leases_def insert_leases_cases fun_eq_iff)

interpretation node: exclusive_leases "\<lambda>st. table_holders (node_locks st)" "\<lambda>q. q"
  "\<lambda>i q. acquire_inference_node_locks now i cell q ttl" release_inference_node_locks for now cell ttl
  by unfold_locales
    (auto simp: acquire_inference_node_locks_def release_inference_node_locks_def insert_leases_cases fun_eq_iff)

interpretation port: exclusive_leases "\<lambda>st. table_holders (port_leases st)" "\<lambda>q. [q]"
  "\<lambda>i (n, p). reserve_inference_port now i cell n p ttl" release_inference_port_leases for now cell ttl
proof
  fix i and s :: InferenceTables and q :: "string \<times> int"
  assume "\<forall>k \<in> set [q]. table_holders (port_leases s) k = {}"
  then show "\<exists>s'. (case q of (n, p) \<Rightarrow> reserve_inference_port now i cell n p ttl) s = (True, s') \<and>
      table_holders (port_leases s') = (\<lambda>k. if k \<in> set [q] then {i} else table_holders (port_leases s) k)"
    using table_holders_lease_rows [of now i cell ttl "[q]"]
    by (cases q) (auto simp: reserve_inference_port_def insert_lease_row fun_eq_iff)
next
  fix i and s :: InferenceTables and q :: "string \<times> int"
  assume "\<not> (distinct [q] \<and> (\<forall>k \<in> set [q]. table_holders (port_leases s) k = {}))"
  then show "(case q of (n, p) \<Rightarrow> reserve_inference_port now i cell n p ttl) s = (False, s)"
    by (cases q) (simp add: reserve_inference_port_def insert_lease_row)
qed (simp add: release_inference_port_leases_def)

section \<open>All or nothing\<close>

definition lease_free :: "string \<Rightarrow> InferenceTables \<Rightarrow> bool" where
  "lease_free i st = (i \<notin> ls_lease_id ` set (gpu_leases st) \<and> i \<notin> ls_lease_id ` set (port_leases st) \<and>
     i \<notin> ls_lease_id ` set (node_locks st))"

text \<open>\<open>st'\<close> is \<open>st\<close> with rows of lease \<open>i\<close> added.\<close>

definition added :: "string \<Rightarrow> 'k LeaseRow list \<Rightarrow> 'k LeaseRow list \<Rightarrow> bool" where
  "added i t t' = (\<exists>u. t' = t @ u \<and> ls_lease_id ` set u \<subseteq> {i})"

definition grown :: "string \<Rightarrow> InferenceTables \<Rightarrow> InferenceTables \<Rightarrow> bool" where
  "grown i st st' = (added i (gpu_leases st) (gpu_leases st') \<and> added i (port_leases st) (port_leases st') \<and>
     added i (node_locks st) (node_locks st'))"

lemma added_refl [simp]: "added i t t"
  by (simp add: added_def)

lemma added_trans:
  assumes "added i t u" and "added i u v"
  shows "added i t v"
proof -
  from assms obtain x y where "u = t @ x" "v = u @ y" "ls_lease_id ` set x \<subseteq> {i}" "ls_lease_id ` set y \<subseteq> {i}"
    unfolding added_def by blast
  then show ?thesis unfolding added_def by (intro exI [of _ "x @ y"]) (simp add: image_Un)
qed

lemma added_rows [simp]: "added i t (t @ map (lease_row now i c ttl) ks)" "added i t (t @ [lease_row now i c ttl k])"
  by (auto simp: added_def lease_row_def)

lemma added_holders:
  assumes "added i t u" and "table_holders t k = {i}"
  shows "table_holders u k = {i}"
proof -
  from assms(1) obtain x where x: "u = t @ x" "ls_lease_id ` set x \<subseteq> {i}" unfolding added_def by blast
  have "table_holders x k \<subseteq> ls_lease_id ` set x" unfolding table_holders_def by blast
  with x assms(2) show ?thesis by auto
qed

lemma grown_refl [simp]: "grown i st st"
  by (simp add: grown_def)

lemma grown_trans: "grown i a b \<Longrightarrow> grown i b c \<Longrightarrow> grown i a c"
  by (auto simp: grown_def intro: added_trans)

lemma delete_lease_append:
  assumes "i \<notin> ls_lease_id ` set t" and "ls_lease_id ` set u \<subseteq> {i}"
  shows "delete_where (\<lambda>r. ls_lease_id r = i) (t @ u) = t"
proof -
  have "filter (\<lambda>r. ls_lease_id r \<noteq> i) t = t" by (rule filter_True) (use assms(1) in auto)
  moreover have "filter (\<lambda>r. ls_lease_id r \<noteq> i) u = []" by (rule filter_False) (use assms(2) in auto)
  ultimately show ?thesis by (simp add: delete_where_def)
qed

lemma delete_added:
  assumes "i \<notin> ls_lease_id ` set t" and "added i t u"
  shows "delete_where (\<lambda>r. ls_lease_id r = i) u = t"
  using assms by (auto simp: added_def delete_lease_append)

lemma release_grown:
  assumes "lease_free i st" and "grown i st st'" and "lb_lease_id b = i" and "i \<noteq> []"
  shows "release_bundle b st' = st"
proof -
  have "delete_where (\<lambda>r. ls_lease_id r = i) (gpu_leases st') = gpu_leases st"
    "delete_where (\<lambda>r. ls_lease_id r = i) (port_leases st') = port_leases st"
    "delete_where (\<lambda>r. ls_lease_id r = i) (node_locks st') = node_locks st"
    using assms(1,2) by (simp_all add: grown_def lease_free_def delete_added)
  with assms(3,4) show ?thesis
    by (simp add: release_bundle_def release_inference_node_locks_def release_inference_gpu_leases_def
        release_inference_port_leases_def)
qed

lemma acquire_gpu_grown: "acquire_inference_gpu_leases now i c q ttl st = (b, st') \<Longrightarrow> grown i st st'"
  by (auto simp: acquire_inference_gpu_leases_def insert_leases_cases grown_def split: if_splits)

lemma acquire_node_grown: "acquire_inference_node_locks now i c q ttl st = (b, st') \<Longrightarrow> grown i st st'"
  by (auto simp: acquire_inference_node_locks_def insert_leases_cases grown_def split: if_splits)

lemma reserve_port_grown: "reserve_inference_port now i c n p ttl st = (b, st') \<Longrightarrow> grown i st st'"
  by (auto simp: reserve_inference_port_def insert_lease_row grown_def split: if_splits)

lemma reserve_first_port_result:
  assumes "reserve_first_port now i c n ps ttl st = (r, st')"
  shows "grown i st st' \<and> (case r of
      None \<Rightarrow> st' = st \<and> (\<forall>p \<in> set ps. table_holders (port_leases st) (n, p) \<noteq> {})
    | Some p \<Rightarrow> p \<in> set ps \<and> table_holders (port_leases st) (n, p) = {} \<and>
        table_holders (port_leases st') (n, p) = {i})"
  using assms
proof (induction ps)
  case (Cons p ps)
  obtain b st1 where a: "reserve_inference_port now i c n p ttl st = (b, st1)" by fastforce
  show ?case
  proof (cases b)
    case True
    then have "r = Some p" "st' = st1" using Cons.prems a by simp_all
    with port.acquire_True [where i = i and q = "(n, p)" and s = st and s' = st1] reserve_port_grown [OF a] a True show ?thesis by simp
  next
    case False
    from port.acquire_False [where i = i and q = "(n, p)" and s = st and s' = st1] a False
    have "st1 = st" "table_holders (port_leases st) (n, p) \<noteq> {}" by simp_all
    with Cons.IH Cons.prems a False show ?thesis by (auto split: option.splits)
  qed
qed simp

text \<open>What a reservation has to leave behind.\<close>

definition reserved_ok ::
  "string \<Rightarrow> CellSpec \<Rightarrow> StagePlacement list \<Rightarrow> string \<Rightarrow> LeaseBundle \<Rightarrow> InferenceTables \<Rightarrow> bool" where
  "reserved_ok i spec placements node b st =
     (lb_lease_id b = i \<and> lb_slots b = gpu_slots placements \<and>
      lb_api_port b \<in> {min (cs_api_port_min spec) (cs_api_port_max spec)..max (cs_api_port_min spec) (cs_api_port_max spec)} \<and>
      table_holders (port_leases st) (node, lb_api_port b) = {i} \<and>
      (case lb_master_port b of None \<Rightarrow> \<not> wants_mp_port spec
       | Some p \<Rightarrow> wants_mp_port spec \<and> p \<noteq> lb_api_port b \<and> table_holders (port_leases st) (node, p) = {i}) \<and>
      (if cs_policy_mode spec = ''strict_ports''
       then set (lb_locked_nodes b) = sp_node_id ` set placements \<and>
         (\<forall>k \<in> set (lb_locked_nodes b). table_holders (node_locks st) k = {i})
       else lb_locked_nodes b = []))"

definition mp_ok :: "string \<Rightarrow> CellSpec \<Rightarrow> string \<Rightarrow> int option \<Rightarrow> InferenceTables \<Rightarrow> bool" where
  "mp_ok i spec node mp st = (case mp of None \<Rightarrow> \<not> wants_mp_port spec
     | Some p \<Rightarrow> wants_mp_port spec \<and> table_holders (port_leases st) (node, p) = {i})"

lemma reserve_locks_result:
  assumes "reserve_locks now i c spec pl mp ap st = (r, st')" and "lease_free i st0" and "grown i st0 st" and "i \<noteq> []"
    and "mp_ok i spec node mp st" and "mp \<noteq> Some ap" and "table_holders (port_leases st) (node, ap) = {i}"
    and "ap \<in> {min (cs_api_port_min spec) (cs_api_port_max spec)..max (cs_api_port_min spec) (cs_api_port_max spec)}"
  shows "case r of None \<Rightarrow> st' = st0 | Some b \<Rightarrow> grown i st st' \<and> reserved_ok i spec pl node b st'"
proof (cases "cs_policy_mode spec = ''strict_ports''")
  case False
  then have "r = Some (mk_bundle i (gpu_slots pl) mp ap [])" "st' = st"
    using assms(1) by (simp_all add: reserve_locks_def Let_def)
  moreover have "reserved_ok i spec pl node (mk_bundle i (gpu_slots pl) mp ap []) st"
    using False assms(5-8) unfolding reserved_ok_def mp_ok_def mk_bundle_def by (simp split: option.splits)
  ultimately show ?thesis by simp
next
  case True
  let ?q = "sort (remdups (map sp_node_id pl))" and ?ttl = "max 60 (cs_ttl_seconds spec)"
  obtain ok st1 where a: "acquire_inference_node_locks now i c ?q ?ttl st = (ok, st1)" by fastforce
  note g = acquire_node_grown [OF a]
  have ports: "port_leases st1 = port_leases st" using a by (auto simp: acquire_inference_node_locks_def split: prod.splits)
  show ?thesis
  proof (cases ok)
    case False
    then have "r = None" "st' = release_bundle (mk_bundle i (gpu_slots pl) mp ap []) st1"
      using assms(1) True a by (simp_all add: reserve_locks_def Let_def)
    with release_grown [OF assms(2) grown_trans [OF assms(3) g]] assms(4) show ?thesis by (simp add: mk_bundle_def)
  next
    case ok: True
    then have r: "r = Some (mk_bundle i (gpu_slots pl) mp ap ?q)" "st' = st1"
      using assms(1) True a by (simp_all add: reserve_locks_def Let_def)
    have "acquire_inference_node_locks now i c ?q ?ttl st = (True, st1)" using a ok by simp
    from node.acquire_True(3) [OF this] have "\<forall>k \<in> set ?q. table_holders (node_locks st1) k = {i}" by simp
    moreover have "set ?q = sp_node_id ` set pl" by simp
    ultimately have "reserved_ok i spec pl node (mk_bundle i (gpu_slots pl) mp ap ?q) st1"
      using True assms(5-8) unfolding reserved_ok_def mp_ok_def mk_bundle_def by (simp add: ports split: option.splits)
    with r g show ?thesis by simp
  qed
qed

lemma port_range_result:
  assumes "reserve_inference_port_from_range now i c n lo hi ttl st = (r, st')"
  shows "grown i st st'"
    and "r = None \<Longrightarrow> st' = st \<and> (\<forall>p \<in> {min lo hi..max lo hi}. table_holders (port_leases st) (n, p) \<noteq> {})"
    and "r = Some p \<Longrightarrow> p \<in> {min lo hi..max lo hi} \<and> table_holders (port_leases st) (n, p) = {} \<and>
      table_holders (port_leases st') (n, p) = {i}"
  using reserve_first_port_result [of now i c n "[min lo hi..max lo hi]" ttl st r st'] assms
  by (simp_all add: reserve_inference_port_from_range_def)

lemma reserve_api_result:
  assumes "reserve_api now i c spec pl node mp st = (r, st')" and "lease_free i st0" and "grown i st0 st" and "i \<noteq> []"
    and "mp_ok i spec node mp st"
  shows "case r of None \<Rightarrow> st' = st0 | Some b \<Rightarrow> grown i st st' \<and> reserved_ok i spec pl node b st'"
proof -
  obtain ap st1 where a: "reserve_inference_port_from_range now i c node (cs_api_port_min spec)
      (cs_api_port_max spec) (max 60 (cs_ttl_seconds spec)) st = (ap, st1)" by fastforce
  note g = port_range_result [OF a]
  show ?thesis
  proof (cases ap)
    case None
    then have "r = None" "st' = release_bundle (mk_bundle i (gpu_slots pl) mp 0 []) st1"
      using assms(1) a by (simp_all add: reserve_api_def)
    with release_grown [OF assms(2) grown_trans [OF assms(3) g(1)]] assms(4) show ?thesis by (simp add: mk_bundle_def)
  next
    case (Some p)
    then have l: "reserve_locks now i c spec pl mp p st1 = (r, st')" using assms(1) a by (simp add: reserve_api_def)
    note p = g(3) [OF Some]
    have pl: "added i (port_leases st) (port_leases st1)" using g(1) by (simp add: grown_def)
    have "mp_ok i spec node mp st1"
      using assms(5) added_holders [OF pl] unfolding mp_ok_def by (cases mp) simp_all
    moreover have "mp \<noteq> Some p" using assms(5) p by (auto simp: mp_ok_def)
    ultimately have mp: "mp_ok i spec node mp st1" "mp \<noteq> Some p" .
    from reserve_locks_result [OF l assms(2) grown_trans [OF assms(3) g(1)] assms(4) mp] p
    show ?thesis using grown_trans [OF g(1)] by (auto split: option.splits)
  qed
qed

lemma reserve_ports_result:
  assumes "reserve_ports now i c spec pl node st = (r, st')" and "lease_free i st0" and "grown i st0 st" and "i \<noteq> []"
  shows "case r of None \<Rightarrow> st' = st0 | Some b \<Rightarrow> grown i st st' \<and> reserved_ok i spec pl node b st'"
proof (cases "wants_mp_port spec")
  case False
  then have "reserve_api now i c spec pl node None st = (r, st')" using assms(1) by (simp add: reserve_ports_def)
  from reserve_api_result [OF this assms(2-4)] False show ?thesis by (simp add: mp_ok_def)
next
  case True
  obtain mp st1 where a: "reserve_inference_port_from_range now i c node (cs_master_port_min spec)
      (cs_master_port_max spec) (max 60 (cs_ttl_seconds spec)) st = (mp, st1)" by fastforce
  note g = port_range_result [OF a]
  show ?thesis
  proof (cases mp)
    case None
    then have "r = None" "st' = release_bundle (mk_bundle i (gpu_slots pl) None 0 []) st1"
      using assms(1) a True by (simp_all add: reserve_ports_def)
    with release_grown [OF assms(2) grown_trans [OF assms(3) g(1)]] assms(4) show ?thesis by (simp add: mk_bundle_def)
  next
    case (Some p)
    then have "reserve_api now i c spec pl node (Some p) st1 = (r, st')" using assms(1) a True by (simp add: reserve_ports_def)
    from reserve_api_result [OF this assms(2) grown_trans [OF assms(3) g(1)] assms(4)] g(3) [OF Some] True
    show ?thesis using grown_trans [OF g(1)] by (auto simp: mp_ok_def split: option.splits)
  qed
qed

lemma reserve_result:
  assumes "lease_free i st" and "i \<noteq> []" and "reserve now i c spec pl st = (r, st')"
  shows "case r of
      Inl e \<Rightarrow> e = IndexError \<and> pl = [] \<and> st' = st
    | Inr None \<Rightarrow> st' = st
    | Inr (Some b) \<Rightarrow> reserved_ok i spec pl (stage0_node spec pl) b st' \<and>
        (\<forall>k \<in> set (gpu_slots pl). table_holders (gpu_leases st') k = {i}) \<and>
        release_bundle b st' = st"
proof -
  obtain ok st1 where a: "acquire_inference_gpu_leases now i c (gpu_slots pl) (max 60 (cs_ttl_seconds spec)) st = (ok, st1)"
    by fastforce
  note g = acquire_gpu_grown [OF a]
  show ?thesis
  proof (cases ok)
    case False
    then have "st1 = st" using gpu.acquire_False(1) a by simp
    with False a assms(3) show ?thesis by (auto simp: reserve_def)
  next
    case True
    show ?thesis
    proof (cases pl)
      case Nil
      then have "st1 = st" using a by (simp add: gpu_slots_def acquire_inference_gpu_leases_def)
      with Nil True a assms(3) show ?thesis by (auto simp: reserve_def)
    next
      case (Cons p0 ps)
      obtain q st2 where q: "reserve_ports now i c spec pl (stage0_node spec pl) st1 = (q, st2)" by fastforce
      then have r: "r = Inr q" "st' = st2" using a True assms(3) Cons by (simp_all add: reserve_def)
      have "acquire_inference_gpu_leases now i c (gpu_slots pl) (max 60 (cs_ttl_seconds spec)) st = (True, st1)"
        using a True by simp
      from gpu.acquire_True(3) [OF this]
      have slots: "\<forall>k \<in> set (gpu_slots pl). table_holders (gpu_leases st1) k = {i}" by simp
      show ?thesis
      proof (cases q)
        case None
        with reserve_ports_result [OF q assms(1) g assms(2)] r show ?thesis by simp
      next
        case (Some b)
        with reserve_ports_result [OF q assms(1) g assms(2)]
        have b: "grown i st1 st2" "reserved_ok i spec pl (stage0_node spec pl) b st2" by simp_all
        have "added i (gpu_leases st1) (gpu_leases st2)" using b(1) by (simp add: grown_def)
        from added_holders [OF this] slots
        have "\<forall>k \<in> set (gpu_slots pl). table_holders (gpu_leases st2) k = {i}" by simp
        moreover have "release_bundle b st2 = st"
          using release_grown [OF assms(1) grown_trans [OF g b(1)] _ assms(2)] b(2) unfolding reserved_ok_def by blast
        ultimately show ?thesis using b(2) unfolding r Some by simp
      qed
    qed
  qed
qed

text \<open>A granted reservation adds to the GPU table the rows of the placement and nothing else.\<close>

lemma reserve_first_port_gpus: "reserve_first_port now i c n ps ttl st = (r, st') \<Longrightarrow> gpu_leases st' = gpu_leases st"
proof (induction ps arbitrary: st)
  case (Cons p ps)
  obtain ok st1 where a: "reserve_inference_port now i c n p ttl st = (ok, st1)" by fastforce
  then have "gpu_leases st1 = gpu_leases st" by (auto simp: reserve_inference_port_def split: prod.splits)
  with Cons a show ?case by (cases ok) auto
qed simp

lemma port_range_gpus:
  "reserve_inference_port_from_range now i c n lo hi ttl st = (r, st') \<Longrightarrow> gpu_leases st' = gpu_leases st"
  unfolding reserve_inference_port_from_range_def by (rule reserve_first_port_gpus)

lemma reserve_locks_gpus:
  "reserve_locks now i c spec pl mp ap st = (Some b, st') \<Longrightarrow> gpu_leases st' = gpu_leases st"
  by (auto simp: reserve_locks_def acquire_inference_node_locks_def Let_def split: if_splits prod.splits bool.splits)

lemma reserve_api_gpus:
  assumes "reserve_api now i c spec pl node mp st = (Some b, st')"
  shows "gpu_leases st' = gpu_leases st"
  using assms unfolding reserve_api_def
  by (auto split: prod.splits option.splits dest!: reserve_locks_gpus port_range_gpus)

lemma reserve_ports_gpus:
  assumes "reserve_ports now i c spec pl node st = (Some b, st')"
  shows "gpu_leases st' = gpu_leases st"
  using assms unfolding reserve_ports_def
  by (auto split: if_splits prod.splits option.splits dest!: reserve_api_gpus port_range_gpus)

lemma reserve_gpus:
  assumes "reserve now i c spec pl st = (Inr (Some b), st')"
  shows "gpu_leases st' = gpu_leases st @ map (lease_row now i c (max 60 (cs_ttl_seconds spec))) (gpu_slots pl)"
proof -
  obtain st1 where a: "acquire_inference_gpu_leases now i c (gpu_slots pl) (max 60 (cs_ttl_seconds spec)) st = (True, st1)"
    and p: "reserve_ports now i c spec pl (stage0_node spec pl) st1 = (Some b, st')"
    using assms by (auto simp: reserve_def map_prod_def split: prod.splits bool.splits if_splits)
  from a have "gpu_leases st1 = gpu_leases st @ map (lease_row now i c (max 60 (cs_ttl_seconds spec))) (gpu_slots pl)"
    by (auto simp: acquire_inference_gpu_leases_def insert_leases_cases split: if_splits)
  with reserve_ports_gpus [OF p] show ?thesis by simp
qed

text \<open>
  (C12) A reservation takes everything or nothing. With a lease id that no table has yet: if \<^verbatim>\<open>reserve\<close>
  answers no bundle or raises, the three tables are as they were, row for row, and it raises only for an empty
  placement. If it answers a bundle, all GPU slots of the placement, the API port within its range, the
  rendezvous port where the executor needs one (never the API port), and the locks of the nodes in strict mode
  belong to the lease and to no other, and releasing the bundle gives the original tables back.
\<close>

theorem reserve_all_or_nothing:
  assumes "lease_free i st" and "i \<noteq> []" and "reserve now i c spec pl st = (r, st')"
  shows "case r of
      Inl e \<Rightarrow> e = IndexError \<and> pl = [] \<and> st' = st
    | Inr None \<Rightarrow> st' = st
    | Inr (Some b) \<Rightarrow> reserved_ok i spec pl (stage0_node spec pl) b st' \<and>
        (\<forall>k \<in> set (gpu_slots pl). table_holders (gpu_leases st') k = {i}) \<and>
        release_bundle b st' = st"
  using assms by (rule reserve_result)

text \<open>
  Two cells never share a GPU: once a reservation has been granted, every other reservation that
  wants one of its slots is refused and changes nothing. The time of the second request does not
  matter, so a lease whose \<^verbatim>\<open>expires_at\<close> has passed blocks its slots until it is released.
\<close>

theorem overlapping_cell_refused:
  assumes "lease_free i st" and "i \<noteq> []" and "reserve now i c spec pl st = (Inr (Some b), st')"
    and "k \<in> set (gpu_slots pl)" and "k \<in> set (gpu_slots pl')"
  shows "reserve now' j c' spec' pl' st' = (Inr None, st')"
proof -
  from reserve_result [OF assms(1-3)] assms(4) have "table_holders (gpu_leases st') k = {i}" by simp
  then have "\<not> (distinct (gpu_slots pl') \<and> (\<forall>k \<in> set (gpu_slots pl'). table_holders (gpu_leases st') k = {}))"
    using assms(5) by auto
  from gpu.refused [OF this] show ?thesis by (simp add: reserve_def)
qed

definition demo_placement :: "StagePlacement list" where
  "demo_placement = [\<lparr>sp_stage = 0, sp_site_id = ''s'', sp_node_id = ''n1'', sp_gpu_indices = [0, 1]\<rparr>,
     \<lparr>sp_stage = 1, sp_site_id = ''s'', sp_node_id = ''n2'', sp_gpu_indices = [0]\<rparr>]"

definition demo_spec :: CellSpec where
  "demo_spec = \<lparr>cs_ttl_seconds = 30, cs_master_stage = 0, cs_master_port_min = 29500, cs_master_port_max = 29510,
     cs_api_port_min = 29500, cs_api_port_max = 29510, cs_executor_type = ''mp'', cs_fallback_mode = ''none'',
     cs_policy_mode = ''strict_ports''\<rparr>"

definition demo_bundle :: LeaseBundle where
  "demo_bundle = mk_bundle ''l-1'' [(''n1'', 0), (''n1'', 1), (''n2'', 0)] (Some 29500) 29501 [''n1'', ''n2'']"

lemma demo_reserve:
  "reserve 0 ''l-1'' ''c'' demo_spec demo_placement empty_leases =
     (Inr (Some demo_bundle), snd (reserve 0 ''l-1'' ''c'' demo_spec demo_placement empty_leases))"
  by code_simp

theorem reserve_all_or_nothing_witness:
  "release_bundle demo_bundle (snd (reserve 0 ''l-1'' ''c'' demo_spec demo_placement empty_leases)) = empty_leases"
  using reserve_all_or_nothing [OF _ _ demo_reserve] by (simp add: lease_free_def empty_leases_def)

theorem overlapping_cell_refused_witness:
  "fst (reserve 999999999 ''l-2'' ''d'' demo_spec demo_placement
     (snd (reserve 0 ''l-1'' ''c'' demo_spec demo_placement empty_leases))) = Inr None"
proof -
  have "(''n1'', 0) \<in> set (gpu_slots demo_placement)" by code_simp
  moreover have "lease_free ''l-1'' empty_leases" by (simp add: lease_free_def empty_leases_def)
  ultimately show ?thesis using overlapping_cell_refused [OF _ _ demo_reserve] by simp
qed

end
