(* ===== verification/Site_Ports.thy ===== *)
theory Site_Ports
  imports K1s_Prelude
begin

text \<open>
  The ingress endpoints of sites in the state store (\<^verbatim>\<open>ae/controller/state.py\<close>): which core-proxy port
  each site has. The table has a primary key on the site and a unique index on the port. The body
  of \<^verbatim>\<open>ensure_site_ingress_port\<close> after its two SELECTs takes what they saw as arguments, because other
  processes write between them and the INSERT.
\<close>

record SiteIngressRow =
  si_site_id :: string
  si_mode :: string
  si_core_proxy_port :: "int option"
  si_public_urls :: json_col
  si_quarantine_until :: "time option"
  si_created_at :: time
  si_updated_at :: time

record SiteIngressEndpoint =
  se_site_id :: string
  se_mode :: string
  se_core_proxy_port :: "int option"
  se_public_urls :: "json list"
  se_quarantine_until :: "time option"
  se_created_at :: time
  se_updated_at :: time

record SiteIngressListItem =
  sl_site_id :: string
  sl_mode :: string
  sl_core_proxy_port :: "int option"
  sl_public_urls :: "json list"
  sl_quarantine_until :: "time option"

type_synonym site_table = "SiteIngressRow list"

definition public_urls_of :: "json_col \<Rightarrow> json list result" where
  "public_urls_of c = rbind (loads_or_raise c) (\<lambda>j. Inr (case j of JArr l \<Rightarrow> l | _ \<Rightarrow> []))"

definition site_row :: "string \<Rightarrow> site_table \<Rightarrow> SiteIngressRow option" where
  "site_row site t = find (\<lambda>r. si_site_id r = site) t"

definition get_site_ingress_endpoint :: "string \<Rightarrow> site_table \<Rightarrow> SiteIngressEndpoint option result" where
  "get_site_ingress_endpoint site t = (case site_row site t of
     None \<Rightarrow> Inr None
   | Some r \<Rightarrow> rbind (public_urls_of (si_public_urls r)) (\<lambda>urls. Inr (Some
       \<lparr>se_site_id = si_site_id r, se_mode = si_mode r, se_core_proxy_port = si_core_proxy_port r,
        se_public_urls = urls, se_quarantine_until = si_quarantine_until r,
        se_created_at = si_created_at r, se_updated_at = si_updated_at r\<rparr>)))"

definition list_site_ingress_endpoints :: "site_table \<Rightarrow> SiteIngressListItem list result" where
  "list_site_ingress_endpoints t = rmap (\<lambda>r. rbind (public_urls_of (si_public_urls r)) (\<lambda>urls. Inr
       \<lparr>sl_site_id = si_site_id r, sl_mode = si_mode r, sl_core_proxy_port = si_core_proxy_port r,
        sl_public_urls = urls, sl_quarantine_until = si_quarantine_until r\<rparr>))
     (sort_key si_site_id t)"

section \<open>Writes under the constraints\<close>

text \<open>The unique index: a non-NULL port that another row has.\<close>

definition port_taken :: "string \<Rightarrow> int option \<Rightarrow> site_table \<Rightarrow> bool" where
  "port_taken site port t = (port \<noteq> None \<and> exists_row (\<lambda>r. si_site_id r \<noteq> site \<and> si_core_proxy_port r = port) t)"

definition si_insert :: "SiteIngressRow \<Rightarrow> site_table \<Rightarrow> site_table result" where
  "si_insert n t =
     (if exists_row (\<lambda>r. si_site_id r = si_site_id n) t \<or> port_taken (si_site_id n) (si_core_proxy_port n) t
      then Inl IntegrityError else Inr (t @ [n]))"

definition si_assign :: "time \<times> string \<times> int option \<Rightarrow> SiteIngressRow \<Rightarrow> SiteIngressRow" where
  "si_assign a r = (case a of (now, mode, port) \<Rightarrow> r\<lparr>si_mode := mode, si_core_proxy_port := port, si_updated_at := now\<rparr>)"

definition si_set :: "(time \<times> string \<times> int option) \<times> json_col \<times> time option \<Rightarrow> SiteIngressRow \<Rightarrow> SiteIngressRow" where
  "si_set a r = (case a of (b, urls, q) \<Rightarrow> (si_assign b r)\<lparr>si_public_urls := urls, si_quarantine_until := q\<rparr>)"

text \<open>An \<^verbatim>\<open>UPDATE\<close> of a site's row that gives it \<open>port\<close>.\<close>

definition si_update :: "string \<Rightarrow> int option \<Rightarrow> (SiteIngressRow \<Rightarrow> SiteIngressRow) \<Rightarrow> site_table \<Rightarrow> site_table result" where
  "si_update site port f t =
     (if exists_row (\<lambda>r. si_site_id r = site) t \<and> port_taken site port t then Inl IntegrityError
      else Inr (update_where (\<lambda>r. si_site_id r = site) f t))"

definition new_site_row :: "time \<Rightarrow> string \<Rightarrow> string \<Rightarrow> int option \<Rightarrow> json_col \<Rightarrow> time option \<Rightarrow> SiteIngressRow" where
  "new_site_row now site mode port urls q =
     \<lparr>si_site_id = site, si_mode = mode, si_core_proxy_port = port, si_public_urls = urls,
      si_quarantine_until = q, si_created_at = now, si_updated_at = now\<rparr>"

section \<open>The operations\<close>

text \<open>
  The port loop of \<^verbatim>\<open>ensure_site_ingress_port\<close>: \<open>row\<close> and \<open>used\<close> are what the SELECTs saw; a constraint
  conflict moves on to the next port.
\<close>

fun ensure_port_loop ::
  "time \<Rightarrow> string \<Rightarrow> string \<Rightarrow> SiteIngressRow option \<Rightarrow> int list \<Rightarrow> int list \<Rightarrow> (site_table, int) eff" where
  "ensure_port_loop now site mode row used [] t = (Inl (RuntimeError ''no core-proxy ports available''), t)"
| "ensure_port_loop now site mode row used (p # ps) t =
     (if p \<in> set used then ensure_port_loop now site mode row used ps t
      else case (case row of
          Some _ \<Rightarrow> si_update site (Some p) (si_assign (now, mode, Some p)) t
        | None \<Rightarrow> si_insert (new_site_row now site mode (Some p) (JDump (JArr [])) None) t) of
        Inr t' \<Rightarrow> (Inr p, t')
      | Inl _ \<Rightarrow> ensure_port_loop now site mode row used ps t)"

definition ensure_port_write ::
  "time \<Rightarrow> string \<Rightarrow> int \<Rightarrow> int \<Rightarrow> string \<Rightarrow> SiteIngressRow option \<Rightarrow> int list \<Rightarrow> (site_table, int) eff" where
  "ensure_port_write now site port_min port_max mode row used t =
     (case Option.bind row si_core_proxy_port of
        Some p \<Rightarrow> (Inr p, t)
      | None \<Rightarrow> ensure_port_loop now site mode row used [port_min..port_max] t)"

definition used_ports :: "site_table \<Rightarrow> int list" where
  "used_ports t = List.map_filter si_core_proxy_port t"

definition ensure_site_ingress_port :: "time \<Rightarrow> string \<Rightarrow> int \<Rightarrow> int \<Rightarrow> string \<Rightarrow> (site_table, int) eff" where
  "ensure_site_ingress_port now site port_min port_max mode t =
     (if port_max < port_min then (Inl (ValueError ''port_min must be <= port_max''), t)
      else ensure_port_write now site port_min port_max mode (site_row site t) (used_ports t) t)"

definition upsert_site_write ::
  "time \<Rightarrow> string \<Rightarrow> string \<Rightarrow> int option \<Rightarrow> json list option \<Rightarrow> time option \<Rightarrow> SiteIngressRow option
   \<Rightarrow> (site_table, unit) eff" where
  "upsert_site_write now site mode port urls q row t =
     (let col = JDump (JArr (case urls of Some u \<Rightarrow> u | None \<Rightarrow> []))
      in case (case row of
           Some r \<Rightarrow> let port_val = coalesce port (si_core_proxy_port r)
                     in si_update site port_val (si_set ((now, mode, port_val), col, q)) t
         | None \<Rightarrow> si_insert (new_site_row now site mode port col q) t) of
           Inl e \<Rightarrow> (Inl e, t)
         | Inr t' \<Rightarrow> (Inr (), t'))"

definition upsert_site_ingress_endpoint ::
  "time \<Rightarrow> string \<Rightarrow> string \<Rightarrow> int option \<Rightarrow> json list option \<Rightarrow> time option \<Rightarrow> (site_table, unit) eff" where
  "upsert_site_ingress_endpoint now site mode port urls q t =
     upsert_site_write now site mode port urls q (site_row site t) t"

section \<open>Ports are unique\<close>

definition same_port :: "SiteIngressRow \<Rightarrow> SiteIngressRow \<Rightarrow> bool" where
  "same_port r s = (si_core_proxy_port r = si_core_proxy_port s \<and> si_core_proxy_port r \<noteq> None)"

definition site_ports_ok :: "site_table \<Rightarrow> bool" where
  "site_ports_ok t = (primary_key si_site_id t \<and>
     (\<forall>r \<in> set t. \<forall>s \<in> set t. same_port r s \<longrightarrow> si_site_id r = si_site_id s))"

lemma same_port_sym: "same_port r s \<longleftrightarrow> same_port s r"
  unfolding same_port_def by metis

lemma not_port_taken:
  "\<not> port_taken (si_site_id n) (si_core_proxy_port n) t \<longleftrightarrow> (\<forall>r \<in> set t. same_port n r \<longrightarrow> si_site_id r = si_site_id n)"
  by (auto simp: port_taken_def exists_row_iff same_port_def)

lemma site_ports_okI:
  assumes "primary_key si_site_id t"
    and "\<And>r s. r \<in> set t \<Longrightarrow> s \<in> set t \<Longrightarrow> same_port r s \<Longrightarrow> si_site_id r = si_site_id s"
  shows "site_ports_ok t"
  using assms unfolding site_ports_ok_def by blast

lemma site_ports_okD:
  "site_ports_ok t \<Longrightarrow> r \<in> set t \<Longrightarrow> s \<in> set t \<Longrightarrow> same_port r s \<Longrightarrow> si_site_id r = si_site_id s"
  unfolding site_ports_ok_def by blast

interpretation si_assign: keyed_update si_site_id si_assign
  by unfold_locales (simp add: si_assign_def split: prod.splits)

interpretation si_set: keyed_update si_site_id si_set
  by unfold_locales (simp add: si_set_def si_assign_def split: prod.splits)

lemma si_insert_ok:
  assumes "site_ports_ok t" and "si_insert n t = Inr t'"
  shows "site_ports_ok t'"
proof -
  from assms(2) have t': "t' = t @ [n]" and pk: "\<not> exists_row (\<lambda>r. si_site_id r = si_site_id n) t"
    and free: "\<forall>r \<in> set t. same_port n r \<longrightarrow> si_site_id r = si_site_id n"
    by (simp_all add: si_insert_def not_port_taken split: if_splits)
  show ?thesis
  proof (rule site_ports_okI)
    show "primary_key si_site_id t'"
      using assms(1) pk unfolding t' site_ports_ok_def by (simp add: primary_key_insert)
  next
    fix r s assume "r \<in> set t'" "s \<in> set t'" "same_port r s"
    then consider "r = n" "s = n" | "r = n" "s \<in> set t" | "r \<in> set t" "s = n" | "r \<in> set t" "s \<in> set t"
      unfolding t' by force
    then show "si_site_id r = si_site_id s"
    proof cases
      case 2 then show ?thesis using free \<open>same_port r s\<close> by simp
    next
      case 3 then show ?thesis using free \<open>same_port r s\<close> by (simp add: same_port_sym)
    next
      case 4 then show ?thesis using site_ports_okD [OF assms(1)] \<open>same_port r s\<close> by simp
    qed simp
  qed
qed

lemma si_update_ok:
  assumes "site_ports_ok t" and "si_update site port f t = Inr t'"
    and f: "\<And>r. si_site_id (f r) = si_site_id r" "\<And>r. si_core_proxy_port (f r) = port"
  shows "site_ports_ok t'"
proof -
  let ?u = "\<lambda>r. if si_site_id r = site then f r else r"
  from assms(2) have t': "t' = update_where (\<lambda>r. si_site_id r = site) f t"
    by (simp add: si_update_def split: if_splits)
  have free: "si_site_id s = site" if "r \<in> set t" "si_site_id r = site" "s \<in> set t" "same_port (f r) s" for r s
  proof (rule ccontr)
    assume "si_site_id s \<noteq> site"
    then have "exists_row (\<lambda>r. si_site_id r = site) t" "port_taken site port t"
      using that unfolding exists_row_iff port_taken_def same_port_def f(2) by auto
    with assms(2) show False by (simp add: si_update_def)
  qed
  show ?thesis
  proof (rule site_ports_okI)
    show "primary_key si_site_id t'"
      using assms(1) map_key_update_where [of "\<lambda>r. si_site_id r = site" si_site_id f t] f(1)
      by (simp add: t' primary_key_def site_ports_ok_def)
  next
    fix r s assume "r \<in> set t'" "s \<in> set t'" and p: "same_port r s"
    then obtain r0 s0 where o: "r0 \<in> set t" "r = ?u r0" "s0 \<in> set t" "s = ?u s0"
      unfolding t' set_update_where by blast
    show "si_site_id r = si_site_id s"
    proof (cases "si_site_id r0 = site"; cases "si_site_id s0 = site")
      assume "si_site_id r0 = site" "si_site_id s0 \<noteq> site"
      then show ?thesis using free [of r0 s0] o p by simp
    next
      assume "si_site_id r0 \<noteq> site" "si_site_id s0 = site"
      then show ?thesis using free [of s0 r0] o p by (simp add: same_port_sym)
    next
      assume "si_site_id r0 \<noteq> site" "si_site_id s0 \<noteq> site"
      then show ?thesis using site_ports_okD [OF assms(1), of r0 s0] o p by simp
    qed (use o f in simp_all)
  qed
qed

lemma ensure_port_loop_ok:
  assumes "site_ports_ok t"
  shows "site_ports_ok (snd (ensure_port_loop now site mode row used ps t))"
proof (induction ps)
  case (Cons p ps)
  let ?w = "case row of Some _ \<Rightarrow> si_update site (Some p) (si_assign (now, mode, Some p)) t
        | None \<Rightarrow> si_insert (new_site_row now site mode (Some p) (JDump (JArr [])) None) t"
  have "site_ports_ok t'" if "?w = Inr t'" for t'
    using that si_insert_ok [OF assms] si_update_ok [OF assms, of site "Some p"] si_assign.key_kept
    by (cases row) (simp_all add: si_assign_def)
  with Cons.IH show ?case by (simp split: sum.splits)
qed (simp add: assms)

lemma ensure_port_write_ok:
  "site_ports_ok t \<Longrightarrow> site_ports_ok (snd (ensure_port_write now site lo hi mode row used t))"
  by (simp add: ensure_port_write_def ensure_port_loop_ok split: option.splits)

lemma upsert_site_write_ok:
  assumes "site_ports_ok t"
  shows "site_ports_ok (snd (upsert_site_write now site mode port urls q row t))"
proof (cases row)
  case None
  then show ?thesis
    using assms si_insert_ok [OF assms] by (simp add: upsert_site_write_def Let_def split: sum.splits)
next
  case (Some r)
  let ?p = "coalesce port (si_core_proxy_port r)"
  have "site_ports_ok t'" if "si_update site ?p (si_set ((now, mode, ?p), c, q)) t = Inr t'" for t' c
    by (rule si_update_ok [OF assms that]) (simp_all add: si_set_def si_assign_def)
  with Some assms show ?thesis by (simp add: upsert_site_write_def Let_def split: sum.splits)
qed

text \<open>Tables the writers can produce, whatever stale view each of them acted on.\<close>

inductive site_reachable :: "site_table \<Rightarrow> bool" where
  none: "site_reachable []"
| ensured: "site_reachable t \<Longrightarrow> site_reachable (snd (ensure_port_write now site lo hi mode row used t))"
| upserted: "site_reachable t \<Longrightarrow> site_reachable (snd (upsert_site_write now site mode port urls q row t))"

lemma site_reachable_ok: "site_reachable t \<Longrightarrow> site_ports_ok t"
proof (induction rule: site_reachable.induct)
  case none
  show ?case by (simp add: site_ports_ok_def primary_key_def)
qed (simp_all add: ensure_port_write_ok upsert_site_write_ok)

lemma used_ports_Cons: "used_ports (r # t) = (case si_core_proxy_port r of None \<Rightarrow> used_ports t | Some p \<Rightarrow> p # used_ports t)"
  by (simp add: used_ports_def List.map_filter_def split: option.splits)

lemma used_ports_iff: "p \<in> set (used_ports t) \<longleftrightarrow> (\<exists>r \<in> set t. si_core_proxy_port r = Some p)"
  by (induction t) (auto simp: used_ports_Cons used_ports_def List.map_filter_def split: option.splits)

lemma distinct_used_ports: "site_ports_ok t \<Longrightarrow> distinct (used_ports t)"
proof (induction t)
  case (Cons r t)
  have ok: "site_ports_ok t"
  proof (rule site_ports_okI)
    show "primary_key si_site_id t" using Cons.prems by (simp add: site_ports_ok_def primary_key_def)
  next
    fix x y assume "x \<in> set t" "y \<in> set t" "same_port x y"
    then show "si_site_id x = si_site_id y" using site_ports_okD [OF Cons.prems, of x y] by simp
  qed
  have "p \<notin> set (used_ports t)" if p: "si_core_proxy_port r = Some p" for p
  proof
    assume "p \<in> set (used_ports t)"
    then obtain s where s: "s \<in> set t" "same_port r s" using p by (auto simp: used_ports_iff same_port_def)
    with site_ports_okD [OF Cons.prems, of r s] have "si_site_id r = si_site_id s" by simp
    with s(1) Cons.prems show False by (auto simp: site_ports_ok_def primary_key_def)
  qed
  with Cons.IH [OF ok] show ?case by (simp add: used_ports_Cons split: option.splits)
qed (simp add: used_ports_def List.map_filter_def)

text \<open>
  (C13) However the writers interleave, and whatever stale rows or used ports they acted on, no two sites
  ever have the same core-proxy port and no site has two rows.
\<close>

theorem site_ports_unique:
  assumes "site_reachable t"
  shows "distinct (map si_site_id t) \<and> distinct (used_ports t)"
proof -
  have ok: "site_ports_ok t" using assms by (rule site_reachable_ok)
  then show ?thesis by (simp add: distinct_used_ports) (simp add: site_ports_ok_def primary_key_def)
qed

text \<open>Two writers that both saw an empty table and start from the same range.\<close>

theorem site_ports_unique_witness:
  "distinct (used_ports (snd (ensure_port_write 2 ''b'' 18080 18081 ''m'' None []
     (snd (ensure_port_write 1 ''a'' 18080 18081 ''m'' None [] [])))))"
  by (rule conjunct2 [OF site_ports_unique]) (intro site_reachable.intros)

definition site_port :: "string \<Rightarrow> site_table \<Rightarrow> int option" where
  "site_port site t = Option.bind (site_row site t) si_core_proxy_port"

definition other_ports :: "string \<Rightarrow> site_table \<Rightarrow> string \<Rightarrow> int option" where
  "other_ports site t x = (if x = site then None else site_port x t)"

lemma site_row_update:
  assumes "\<And>r. si_site_id (f r) = si_site_id r"
  shows "site_row x (update_where (\<lambda>r. si_site_id r = site) f t) =
    (if x = site then map_option f (site_row x t) else site_row x t)"
  unfolding site_row_def by (rule find_update_where_key) (rule assms)

lemma port_free:
  assumes "p \<notin> set (used_ports t)"
  shows "\<not> port_taken site (Some p) t"
proof
  assume "port_taken site (Some p) t"
  then obtain r where "r \<in> set t" "si_core_proxy_port r = Some p"
    unfolding port_taken_def exists_row_iff by blast
  with assms show False by (auto simp: used_ports_iff)
qed

text \<open>With the views the SELECTs just took, the first write of the loop that is tried succeeds.\<close>

lemma ensure_port_loop_result:
  assumes "site_row site t = row" and "Option.bind row si_core_proxy_port = None"
  shows "case ensure_port_loop now site mode row (used_ports t) ps t of
      (Inl e, t') \<Rightarrow> e = RuntimeError ''no core-proxy ports available'' \<and> t' = t \<and> set ps \<subseteq> set (used_ports t)
    | (Inr p, t') \<Rightarrow> p \<in> set ps - set (used_ports t) \<and> site_port site t' = Some p \<and>
        other_ports site t' = other_ports site t"
proof (induction ps)
  case (Cons p ps)
  show ?case
  proof (cases "p \<in> set (used_ports t)")
    case True
    with Cons.IH show ?thesis by (auto split: prod.splits sum.splits)
  next
    case False
    show ?thesis
    proof (cases row)
      case None
      then have "\<not> exists_row (\<lambda>r. si_site_id r = site) t" using assms(1) by (simp add: site_row_def exists_row_find)
      then have w: "si_insert (new_site_row now site mode (Some p) (JDump (JArr [])) None) t =
          Inr (t @ [new_site_row now site mode (Some p) (JDump (JArr [])) None])"
        using port_free [OF False] by (simp add: si_insert_def new_site_row_def)
      have "site_row x (t @ [new_site_row now site mode (Some p) (JDump (JArr [])) None]) =
          (if x = site then Some (new_site_row now site mode (Some p) (JDump (JArr [])) None) else site_row x t)" for x
        using assms(1) None by (induction t) (auto simp: site_row_def new_site_row_def)
      then show ?thesis using False None w by (simp add: site_port_def other_ports_def new_site_row_def fun_eq_iff)
    next
      case (Some r)
      have w: "si_update site (Some p) (si_assign (now, mode, Some p)) t =
          Inr (update_where (\<lambda>r. si_site_id r = site) (si_assign (now, mode, Some p)) t)"
        using port_free [OF False] by (simp add: si_update_def)
      then show ?thesis
        using False Some assms(1)
        by (simp add: site_port_def other_ports_def fun_eq_iff site_row_update si_assign.key_kept)
          (simp add: si_assign_def)
    qed
  qed
qed simp

text \<open>
  (C14) \<^verbatim>\<open>ensure_site_ingress_port\<close> on every branch: a site that has a port keeps it and nothing is
  written; a site without one gets a port of the range that no site has, the ports of the other
  sites do not change; it raises only for an empty range or when every port of the range is in use, and then
  changes nothing.
\<close>

theorem ensure_site_ingress_port_correct:
  "case ensure_site_ingress_port now site lo hi mode t of
      (Inl e, t') \<Rightarrow> t' = t \<and> (e = ValueError ''port_min must be <= port_max'' \<and> hi < lo \<or>
        e = RuntimeError ''no core-proxy ports available'' \<and> {lo..hi} \<subseteq> set (used_ports t))
    | (Inr p, t') \<Rightarrow> site_port site t' = Some p \<and>
        (site_port site t = Some p \<and> t' = t \<or>
         site_port site t = None \<and> p \<in> {lo..hi} - set (used_ports t) \<and>
           other_ports site t' = other_ports site t)"
proof (cases "lo \<le> hi \<and> site_port site t = None")
  case True
  then have "ensure_site_ingress_port now site lo hi mode t =
      ensure_port_loop now site mode (site_row site t) (used_ports t) [lo..hi] t"
    by (simp add: ensure_site_ingress_port_def ensure_port_write_def site_port_def)
  moreover have "Option.bind (site_row site t) si_core_proxy_port = None" using True by (simp add: site_port_def)
  from ensure_port_loop_result [OF refl this, where now = now and mode = mode and ps = "[lo..hi]"]
  have "case ensure_port_loop now site mode (site_row site t) (used_ports t) [lo..hi] t of
      (Inl e, t') \<Rightarrow> e = RuntimeError ''no core-proxy ports available'' \<and> t' = t \<and> {lo..hi} \<subseteq> set (used_ports t)
    | (Inr p, t') \<Rightarrow> p \<in> {lo..hi} - set (used_ports t) \<and> site_port site t' = Some p \<and> other_ports site t' = other_ports site t"
    unfolding set_upto .
  ultimately show ?thesis using True by (auto split: prod.splits sum.splits)
next
  case False
  then show ?thesis
    by (auto simp: ensure_site_ingress_port_def ensure_port_write_def site_port_def)
qed

end
