(* ===== verification/Authority.thy ===== *)
theory Authority
  imports Fencing
begin

text \<open>
  Leader election of the controllers (\<^verbatim>\<open>ae/controller/authority.py\<close>): \<^verbatim>\<open>ControllerAuthorityService\<close> keeps a
  presence record and competes for the leader key in etcd; the epoch of a leader is the revision at
  which its leader record was written, and every mutation it sends carries that epoch.

  etcd and its clients are arguments: the operations of \<open>EtcdOps\<close> act on an unspecified store \<open>'w\<close> and
  may raise at any time. What etcd documents of the leader key is the locale \<open>etcd_history\<close>. The
  service is a record of its fields; a method is a computation on the service and the store
  that keeps what it did before it raised. Durations are microseconds, and \<^verbatim>\<open>time.monotonic()\<close> is the
  argument \<open>now\<close>.
\<close>

section \<open>Configuration\<close>

definition env_truthy :: "string option \<Rightarrow> bool" where
  "env_truthy v = (lower (strip (case v of Some s \<Rightarrow> s | None \<Rightarrow> [])) \<in> {''1'', ''true'', ''yes'', ''on''})"

record AuthorityConfig =
  ac_enabled :: bool
  ac_controller_id :: string
  ac_advertise_addr :: "string option"
  ac_etcd_prefix :: string
  ac_lease_ttl_seconds :: int
  ac_keepalive_interval :: time
  ac_standby_retry_min :: time
  ac_standby_retry_max :: time
  ac_follower_poll :: time
  ac_version :: string

text \<open>\<^verbatim>\<open>env_map.get(key, default) or default\<close>, for a text and for a number that \<open>parse\<close> reads and that may raise.\<close>

definition env_or :: "string option \<Rightarrow> string \<Rightarrow> string" where
  "env_or v d = (case nonempty v of Some s \<Rightarrow> s | None \<Rightarrow> d)"

definition env_num :: "(string \<Rightarrow> int result) \<Rightarrow> int \<Rightarrow> string option \<Rightarrow> int result" where
  "env_num parse d v = (case nonempty v of Some s \<Rightarrow> parse s | None \<Rightarrow> Inr d)"

definition config_from_env ::
  "(string \<Rightarrow> time result) \<Rightarrow> string \<Rightarrow> (string \<Rightarrow> string option) \<Rightarrow> AuthorityConfig result" where
  "config_from_env parse_seconds nodename env =
     (let cid = strip (env_or (env ''AE_CONTROLLER_ID'') [])
      in rbind (env_num (\<lambda>s. py_int_raise (JStr s)) 15 (env ''AE_CONTROLPLANE_LEASE_TTL_SECONDS'')) (\<lambda>ttl.
         rbind (env_num parse_seconds 5000000 (env ''AE_CONTROLPLANE_KEEPALIVE_SECONDS'')) (\<lambda>ka.
         rbind (env_num parse_seconds 1000000 (env ''AE_CONTROLPLANE_STANDBY_RETRY_MIN_SECONDS'')) (\<lambda>lo.
         rbind (env_num parse_seconds 2000000 (env ''AE_CONTROLPLANE_STANDBY_RETRY_MAX_SECONDS'')) (\<lambda>hi.
         rbind (env_num parse_seconds 2000000 (env ''AE_CONTROLPLANE_FOLLOWER_POLL_SECONDS'')) (\<lambda>poll.
           Inr \<lparr>ac_enabled = env_truthy (env ''AE_HA_MODE''),
             ac_controller_id = (if cid = [] then nodename else cid),
             ac_advertise_addr = nonempty (Some (strip (env_or (env ''AE_CONTROLLER_ADVERTISE_ADDR'') []))),
             ac_etcd_prefix = strip_chars ''/'' (env_or (env ''AE_ETCD_PREFIX'') ''k1s/v1''),
             ac_lease_ttl_seconds = max 5 ttl, ac_keepalive_interval = max 1000000 ka,
             ac_standby_retry_min = max 200000 lo, ac_standby_retry_max = max 200000 hi,
             ac_follower_poll = max 200000 poll,
             ac_version = env_or (env ''AE_CONTROLPLANE_AUTHORITY_VERSION'') ''v1''\<rparr>))))))"

definition leader_key :: "AuthorityConfig \<Rightarrow> string" where
  "leader_key c = join ''/'' (filter (\<lambda>p. p \<noteq> []) [ac_etcd_prefix c, ''controlplane'', ''leader''])"

definition controllers_prefix :: "AuthorityConfig \<Rightarrow> string" where
  "controllers_prefix c = join ''/'' (filter (\<lambda>p. p \<noteq> []) [ac_etcd_prefix c, ''controlplane'', ''controllers''])"

definition presence_key :: "AuthorityConfig \<Rightarrow> string" where
  "presence_key c = join ''/'' [controllers_prefix c, ac_controller_id c]"

definition presence_stale_after :: "AuthorityConfig \<Rightarrow> time" where
  "presence_stale_after c = min (ac_lease_ttl_seconds c * 1000000) (max 1000000 (ac_keepalive_interval c * 2))"

text \<open>\<^verbatim>\<open>_prefix_end\<close> on the bytes of the prefix: from the right, the first byte below 255 is incremented.\<close>

definition prefix_end :: "nat list \<Rightarrow> nat list" where
  "prefix_end bs = (case dropWhile (\<lambda>b. \<not> b < 255) (rev bs) of [] \<Rightarrow> [0] | b # rs \<Rightarrow> rev rs @ [b + 1])"

section \<open>etcd and the service state\<close>

record KeyValue =
  kv_key :: "string option"
  kv_value :: "json option"
  kv_mod_revision :: json

text \<open>
  The calls of the two clients. \<open>op_create k v l\<close> is the transaction of the election: it puts \<open>v\<close> under \<open>k\<close> with
  lease \<open>l\<close> if the key has no create revision, and answers whether it did. A key or value that does
  not decode is \<open>None\<close>.
\<close>

record 'w EtcdOps =
  op_grant :: "int \<Rightarrow> ('w, int) eff"
  op_keepalive :: "int \<Rightarrow> ('w, unit) eff"
  op_revoke :: "int \<Rightarrow> ('w, unit) eff"
  op_put :: "string \<Rightarrow> json \<Rightarrow> int \<Rightarrow> ('w, unit) eff"
  op_delete :: "string \<Rightarrow> ('w, unit) eff"
  op_range_one :: "string \<Rightarrow> ('w, KeyValue list) eff"
  op_range_prefix :: "string \<Rightarrow> ('w, KeyValue list) eff"
  op_create :: "string \<Rightarrow> json \<Rightarrow> int \<Rightarrow> ('w, bool) eff"
  op_close :: "('w, unit) eff"

record LeaderInfo =
  li_controller_id :: string
  li_controller_epoch :: int
  li_lease_id :: int
  li_advertise_addr :: json
  li_acquired_at :: "time option"
  li_version :: string

record AuthorityMember =
  am_controller_id :: string
  am_advertise_addr :: "string option"
  am_version :: string
  am_heartbeat_at :: "time option"

record AuthoritySnapshot =
  sn_enabled :: bool
  sn_controller_id :: string
  sn_is_leader :: bool
  sn_leader_info :: "LeaderInfo option"

definition snapshot_epoch :: "AuthoritySnapshot \<Rightarrow> int" where
  "snapshot_epoch s = (case sn_leader_info s of None \<Rightarrow> 0 | Some li \<Rightarrow> li_controller_epoch li)"

definition not_leader_payload :: "LeaderInfo option \<Rightarrow> dict" where
  "not_leader_payload li = (''error'', JStr ''not_leader'') # (case li of None \<Rightarrow> []
     | Some l \<Rightarrow> [(''controller_id'', JStr (li_controller_id l)), (''controller_epoch'', JInt (li_controller_epoch l))] @
         (if truthy (li_advertise_addr l) then [(''advertise_addr'', li_advertise_addr l)] else []))"

record LeaseState =
  lst_lease_id :: int
  lst_renew_at :: time

record Authority =
  au_is_leader :: bool
  au_leader_info :: "LeaderInfo option"
  au_presence_lease :: "LeaseState option"
  au_leader_lease :: "LeaseState option"
  au_started :: bool
  au_stop :: bool
  au_ready :: bool
  au_leader_lost :: bool
  au_next_election_attempt_at :: time
  au_next_leader_poll_at :: time
  au_presence_observed_at :: "string option"

definition authority_init :: Authority where
  "authority_init = \<lparr>au_is_leader = False, au_leader_info = None, au_presence_lease = None, au_leader_lease = None,
     au_started = False, au_stop = False, au_ready = False, au_leader_lost = False,
     au_next_election_attempt_at = 0, au_next_leader_poll_at = 0, au_presence_observed_at = None\<rparr>"

text \<open>What a call reads of its surroundings: the clock as text, \<^verbatim>\<open>random.uniform\<close>, \<^verbatim>\<open>fromisoformat\<close>, the package version.\<close>

record auth_env =
  en_now_iso :: string
  en_uniform :: "time \<Rightarrow> time \<Rightarrow> time"
  en_dt_from_iso :: "json \<Rightarrow> time option"
  en_ae_version :: string

type_synonym ('w, 'a) svc = "(Authority \<times> 'w, 'a) eff"

definition ext :: "('w, 'a) eff \<Rightarrow> ('w, 'a) svc" where
  "ext m s = (case m (snd s) of (r, w) \<Rightarrow> (r, (fst s, w)))"

definition upd :: "(Authority \<Rightarrow> Authority) \<Rightarrow> ('w, unit) svc" where
  "upd f s = (Inr (), (f (fst s), snd s))"

definition ret :: "'a \<Rightarrow> ('w, 'a) svc" where
  "ret x s = (Inr x, s)"

definition get :: "(Authority \<Rightarrow> ('w, 'a) svc) \<Rightarrow> ('w, 'a) svc" where
  "get f s = f (fst s) s"

text \<open>\<^verbatim>\<open>try: m except Exception: h\<close>, and the same with \<^verbatim>\<open>pass\<close>.\<close>

definition attempt :: "('w, 'a) svc \<Rightarrow> (py_error \<Rightarrow> ('w, 'b) svc) \<Rightarrow> ('a \<Rightarrow> ('w, 'b) svc) \<Rightarrow> ('w, 'b) svc" where
  "attempt m h f s = (case m s of (Inl e, s') \<Rightarrow> h e s' | (Inr x, s') \<Rightarrow> f x s')"

definition quietly :: "('w, unit) svc \<Rightarrow> ('w, unit) svc" where
  "quietly m = attempt m (\<lambda>_. ret ()) ret"

section \<open>The service\<close>

definition parse_leader :: "auth_env \<Rightarrow> AuthorityConfig \<Rightarrow> KeyValue list \<Rightarrow> LeaderInfo option result" where
  "parse_leader env c kvs = (case kvs of
     [] \<Rightarrow> Inr None
   | kv # _ \<Rightarrow> (case kv_value kv of
       None \<Rightarrow> Inl (ValueError ''decode'')
     | Some j \<Rightarrow> (case as_dict j of
         None \<Rightarrow> Inl AttributeError
       | Some d \<Rightarrow>
           rbind (py_int_raise (py_or (kv_mod_revision kv) (JInt 0))) (\<lambda>epoch.
           rbind (py_int_raise (py_or (dict_get d ''lease_id'') (JInt 0))) (\<lambda>lease.
             Inr (Some \<lparr>li_controller_id = (case map_of d ''controller_id'' of None \<Rightarrow> [] | Some v \<Rightarrow> py_str v),
               li_controller_epoch = epoch, li_lease_id = lease,
               li_advertise_addr = py_or (dict_get d ''advertise_addr'') JNull,
               li_acquired_at = en_dt_from_iso env (dict_get d ''acquired_at''),
               li_version = py_str (py_or (dict_get d ''version'') (JStr (ac_version c)))\<rparr>))))))"

definition read_leader_info ::
  "'w EtcdOps \<Rightarrow> auth_env \<Rightarrow> AuthorityConfig \<Rightarrow> ('w, LeaderInfo option) svc" where
  "read_leader_info ops env c =
     ebind (ext (op_range_one ops (leader_key c))) (\<lambda>kvs s. (parse_leader env c kvs, s))"

definition snapshot :: "AuthorityConfig \<Rightarrow> Authority \<Rightarrow> AuthoritySnapshot" where
  "snapshot c a = \<lparr>sn_enabled = ac_enabled c, sn_controller_id = ac_controller_id c,
     sn_is_leader = (au_is_leader a \<or> \<not> ac_enabled c), sn_leader_info = au_leader_info a\<rparr>"

text \<open>What \<^verbatim>\<open>resolve_controller_identity\<close> reads of a snapshot.\<close>

definition snapshot_view :: "AuthoritySnapshot \<Rightarrow> bool \<times> (string \<times> int) option" where
  "snapshot_view s = (sn_is_leader s, map_option (\<lambda>li. (li_controller_id li, li_controller_epoch li)) (sn_leader_info s))"

text \<open>\<open>epoch\<close> is \<^verbatim>\<open>int(os.getenv("AE_CONTROLLER_EPOCH", "0") or 0)\<close>.\<close>

definition authority_start :: "AuthorityConfig \<Rightarrow> int \<Rightarrow> Authority \<Rightarrow> Authority" where
  "authority_start c epoch a =
     (if au_started a then a
      else if \<not> ac_enabled c
      then a\<lparr>au_is_leader := True,
             au_leader_info := Some \<lparr>li_controller_id = ac_controller_id c, li_controller_epoch = epoch, li_lease_id = 0,
               li_advertise_addr = json_opt_str (ac_advertise_addr c), li_acquired_at = None, li_version = ac_version c\<rparr>,
             au_ready := True\<rparr>
      else a\<lparr>au_started := True\<rparr>)"

definition schedule_retry :: "auth_env \<Rightarrow> AuthorityConfig \<Rightarrow> time \<Rightarrow> Authority \<Rightarrow> Authority" where
  "schedule_retry env c now a =
     (let low = ac_standby_retry_min c; high = max low (ac_standby_retry_max c)
      in a\<lparr>au_next_election_attempt_at := now + en_uniform env low high,
           au_next_leader_poll_at := now + ac_follower_poll c\<rparr>)"

definition next_sleep :: "AuthorityConfig \<Rightarrow> time \<Rightarrow> Authority \<Rightarrow> time" where
  "next_sleep c now a =
     (let or_else = (\<lambda>t d. if t = 0 then d else t);
          targets = [now + ac_follower_poll c]
            @ (case au_presence_lease a of None \<Rightarrow> [] | Some l \<Rightarrow> [lst_renew_at l])
            @ (case au_leader_lease a of None \<Rightarrow> [] | Some l \<Rightarrow> [lst_renew_at l])
            @ (if au_is_leader a then []
               else [or_else (au_next_election_attempt_at a) (now + ac_standby_retry_min c),
                     or_else (au_next_leader_poll_at a) (now + ac_follower_poll c)])
      in max 50000 (min 1000000 (Min (set targets) - now)))"

definition publish_presence ::
  "'w EtcdOps \<Rightarrow> auth_env \<Rightarrow> AuthorityConfig \<Rightarrow> int \<Rightarrow> string option \<Rightarrow> ('w, string) svc" where
  "publish_presence ops env c lease_id heartbeat_at = get (\<lambda>a.
     let heartbeat_iso = (case nonempty heartbeat_at of Some h \<Rightarrow> h | None \<Rightarrow> en_now_iso env);
         observed_at = (case nonempty (au_presence_observed_at a) of Some t \<Rightarrow> t | None \<Rightarrow> heartbeat_iso)
     in ebind (ext (op_put ops (presence_key c)
            (JObj [(''controller_id'', JStr (ac_controller_id c)), (''advertise_addr'', json_opt_str (ac_advertise_addr c)),
               (''observed_at'', JStr observed_at), (''heartbeat_at'', JStr heartbeat_iso),
               (''version'', JStr (en_ae_version env))]) lease_id)) (\<lambda>_.
        ebind (upd (\<lambda>a. a\<lparr>au_presence_observed_at := Some observed_at\<rparr>)) (\<lambda>_. ret heartbeat_iso)))"

definition lease_state :: "AuthorityConfig \<Rightarrow> time \<Rightarrow> int \<Rightarrow> LeaseState option" where
  "lease_state c now lease_id = Some \<lparr>lst_lease_id = lease_id, lst_renew_at = now + ac_keepalive_interval c\<rparr>"

definition new_presence :: "'w EtcdOps \<Rightarrow> auth_env \<Rightarrow> AuthorityConfig \<Rightarrow> time \<Rightarrow> ('w, unit) svc" where
  "new_presence ops env c now =
     ebind (ext (op_grant ops (ac_lease_ttl_seconds c))) (\<lambda>lease_id.
     ebind (publish_presence ops env c lease_id None) (\<lambda>_.
       upd (\<lambda>a. a\<lparr>au_presence_lease := lease_state c now lease_id\<rparr>)))"

definition ensure_presence :: "'w EtcdOps \<Rightarrow> auth_env \<Rightarrow> AuthorityConfig \<Rightarrow> time \<Rightarrow> ('w, unit) svc" where
  "ensure_presence ops env c now = get (\<lambda>a. case au_presence_lease a of
     None \<Rightarrow> ebind (new_presence ops env c now) (\<lambda>_. upd (\<lambda>a. a\<lparr>au_ready := True\<rparr>))
   | Some l \<Rightarrow>
       if now < lst_renew_at l then ret ()
       else attempt (ext (op_keepalive ops (lst_lease_id l)))
              (\<lambda>_. new_presence ops env c now)
              (\<lambda>_. ebind (publish_presence ops env c (lst_lease_id l) None) (\<lambda>_.
                 upd (\<lambda>a. a\<lparr>au_presence_lease := lease_state c now (lst_lease_id l)\<rparr>))))"

definition leader_record :: "auth_env \<Rightarrow> AuthorityConfig \<Rightarrow> int \<Rightarrow> json" where
  "leader_record env c lease_id =
     JObj [(''controller_id'', JStr (ac_controller_id c)), (''lease_id'', JInt lease_id),
       (''acquired_at'', JStr (en_now_iso env)), (''advertise_addr'', json_opt_str (ac_advertise_addr c)),
       (''version'', JStr (ac_version c))]"

definition leadership_read :: "AuthorityConfig \<Rightarrow> time \<Rightarrow> int \<Rightarrow> LeaderInfo \<Rightarrow> Authority \<Rightarrow> Authority" where
  "leadership_read c now lease_id li a =
     (let a1 = a\<lparr>au_is_leader := (li_controller_id li = ac_controller_id c), au_leader_info := Some li\<rparr>
      in (if au_is_leader a1 then a1\<lparr>au_leader_lease := lease_state c now lease_id, au_leader_lost := False\<rparr> else a1)
           \<lparr>au_ready := True\<rparr>)"

definition attempt_leadership :: "'w EtcdOps \<Rightarrow> auth_env \<Rightarrow> AuthorityConfig \<Rightarrow> time \<Rightarrow> ('w, unit) svc" where
  "attempt_leadership ops env c now =
     ebind (ext (op_grant ops (ac_lease_ttl_seconds c))) (\<lambda>lease_id.
     attempt (ext (op_create ops (leader_key c) (leader_record env c lease_id) lease_id))
       (\<lambda>e. ebind (quietly (ext (op_revoke ops lease_id))) (\<lambda>_.
          ebind (upd (schedule_retry env c now)) (\<lambda>_ s. (Inl e, s))))
       (\<lambda>claimed.
          if \<not> claimed
          then ebind (quietly (ext (op_revoke ops lease_id))) (\<lambda>_.
               ebind (read_leader_info ops env c) (\<lambda>li.
                 upd (\<lambda>a. (schedule_retry env c now (a\<lparr>au_leader_info := li\<rparr>))\<lparr>au_ready := True\<rparr>)))
          else ebind (read_leader_info ops env c) (\<lambda>li. case li of
               None \<Rightarrow> ebind (quietly (ext (op_revoke ops lease_id))) (\<lambda>_. upd (schedule_retry env c now))
             | Some l \<Rightarrow> upd (leadership_read c now lease_id l))))"

definition lose_leadership :: "'w EtcdOps \<Rightarrow> auth_env \<Rightarrow> AuthorityConfig \<Rightarrow> time \<Rightarrow> ('w, unit) svc" where
  "lose_leadership ops env c now =
     ebind (upd (\<lambda>a. a\<lparr>au_is_leader := False, au_leader_lease := None\<rparr>)) (\<lambda>_.
     ebind (read_leader_info ops env c) (\<lambda>li.
       upd (\<lambda>a. schedule_retry env c now (a\<lparr>au_leader_info := li, au_leader_lost := True\<rparr>))))"

definition renew_leader :: "'w EtcdOps \<Rightarrow> auth_env \<Rightarrow> AuthorityConfig \<Rightarrow> time \<Rightarrow> ('w, unit) svc" where
  "renew_leader ops env c now = get (\<lambda>a. case au_leader_lease a of
     None \<Rightarrow> upd (\<lambda>a. schedule_retry env c now (a\<lparr>au_is_leader := False\<rparr>))
   | Some l \<Rightarrow>
       if now < lst_renew_at l then ret ()
       else attempt (ext (op_keepalive ops (lst_lease_id l)))
              (\<lambda>_. lose_leadership ops env c now)
              (\<lambda>_. ebind (read_leader_info ops env c) (\<lambda>li. case li of
                   None \<Rightarrow> lose_leadership ops env c now
                 | Some i \<Rightarrow>
                     if li_controller_id i \<noteq> ac_controller_id c then lose_leadership ops env c now
                     else upd (\<lambda>a. a\<lparr>au_leader_info := Some i,
                            au_leader_lease := lease_state c now (lst_lease_id l)\<rparr>))))"

definition follow :: "'w EtcdOps \<Rightarrow> auth_env \<Rightarrow> AuthorityConfig \<Rightarrow> time \<Rightarrow> ('w, unit) svc" where
  "follow ops env c now =
     ebind (get (\<lambda>a. if au_next_leader_poll_at a \<le> now
         then ebind (read_leader_info ops env c) (\<lambda>li.
                upd (\<lambda>a. a\<lparr>au_leader_info := li, au_ready := True, au_next_leader_poll_at := now + ac_follower_poll c\<rparr>))
         else ret ())) (\<lambda>_.
     get (\<lambda>a. if au_leader_info a = None \<and> au_next_election_attempt_at a \<le> now
         then attempt_leadership ops env c now else ret ()))"

definition authority_run_once :: "'w EtcdOps \<Rightarrow> auth_env \<Rightarrow> AuthorityConfig \<Rightarrow> time \<Rightarrow> ('w, time) svc" where
  "authority_run_once ops env c now =
     (if \<not> ac_enabled c
      then ebind (upd (\<lambda>a. a\<lparr>au_is_leader := True, au_ready := True\<rparr>)) (\<lambda>_. ret 1000000)
      else ebind (ensure_presence ops env c now) (\<lambda>_.
           ebind (get (\<lambda>a. if au_is_leader a then renew_leader ops env c now else follow ops env c now)) (\<lambda>_.
           get (\<lambda>a. ret (next_sleep c now a)))))"

text \<open>One turn of the thread \<^verbatim>\<open>_run\<close>, with the delay before the next.\<close>

definition authority_turn :: "'w EtcdOps \<Rightarrow> auth_env \<Rightarrow> AuthorityConfig \<Rightarrow> time \<Rightarrow> ('w, time) svc" where
  "authority_turn ops env c now =
     attempt (authority_run_once ops env c now)
       (\<lambda>_. ebind (upd (\<lambda>a. a\<lparr>au_ready := True\<rparr>)) (\<lambda>_. ret (min 1000000 (ac_follower_poll c))))
       ret"

definition authority_cleanup :: "'w EtcdOps \<Rightarrow> AuthorityConfig \<Rightarrow> ('w, unit) svc" where
  "authority_cleanup ops c = get (\<lambda>a.
     let leader = (case au_leader_lease a of None \<Rightarrow> 0 | Some l \<Rightarrow> lst_lease_id l);
         presence = (case au_presence_lease a of None \<Rightarrow> 0 | Some l \<Rightarrow> lst_lease_id l)
     in ebind (if leader \<noteq> 0 then quietly (ext (op_revoke ops leader)) else ret ()) (\<lambda>_.
        ebind (if presence \<noteq> 0 \<and> presence \<noteq> leader then quietly (ext (op_revoke ops presence)) else ret ()) (\<lambda>_.
        ebind (quietly (ext (op_delete ops (presence_key c)))) (\<lambda>_.
          upd (\<lambda>a. a\<lparr>au_presence_lease := None, au_leader_lease := None, au_is_leader := False,
                 au_leader_info := None, au_presence_observed_at := None\<rparr>)))))"

definition authority_stop :: "'w EtcdOps \<Rightarrow> AuthorityConfig \<Rightarrow> ('w, unit) svc" where
  "authority_stop ops c =
     ebind (upd (\<lambda>a. a\<lparr>au_stop := True\<rparr>)) (\<lambda>_.
     ebind (if ac_enabled c then authority_cleanup ops c else ret ()) (\<lambda>_.
       quietly (ext (op_close ops))))"

text \<open>\<^verbatim>\<open>list_members\<close>: a record that does not decode is skipped, one that is not an object raises.\<close>

definition after_last_slash :: "string \<Rightarrow> string" where
  "after_last_slash s = rev (takeWhile (\<lambda>x. x \<noteq> CHR ''/'') (rev s))"

definition member_of_kv :: "auth_env \<Rightarrow> KeyValue \<Rightarrow> AuthorityMember option result" where
  "member_of_kv env kv = (case kv_value kv of
     None \<Rightarrow> Inr None
   | Some j \<Rightarrow> (case as_dict j of
       None \<Rightarrow> Inl AttributeError
     | Some d \<Rightarrow>
         let key_id = after_last_slash (case kv_key kv of None \<Rightarrow> [] | Some k \<Rightarrow> k);
             cid = strip (py_str (py_or (dict_get d ''controller_id'') (JStr key_id)))
         in Inr (if cid = [] then None
             else Some \<lparr>am_controller_id = cid,
               am_advertise_addr = nonempty (Some (strip (py_str (py_or (dict_get d ''advertise_addr'') (JStr []))))),
               am_version = py_str (py_or (dict_get d ''version'') (JStr (en_ae_version env))),
               am_heartbeat_at = en_dt_from_iso env (dict_get d ''heartbeat_at'')\<rparr>)))"

definition list_members ::
  "'w EtcdOps \<Rightarrow> auth_env \<Rightarrow> AuthorityConfig \<Rightarrow> ('w, AuthorityMember list) eff" where
  "list_members ops env c w =
     (if \<not> ac_enabled c then (Inr [], w)
      else case op_range_prefix ops (controllers_prefix c) w of
        (Inl _, w') \<Rightarrow> (Inr [], w')
      | (Inr kvs, w') \<Rightarrow>
          (rbind (rmap (member_of_kv env) kvs) (\<lambda>ms. Inr (sort_key am_controller_id (List.map_filter (\<lambda>m. m) ms))), w'))"

section \<open>What etcd promises\<close>

text \<open>
  \<open>hist w r\<close> is the value the leader key was given at revision \<open>r\<close>. etcd's store is versioned: what was
  written at a revision stays that revision's value whatever happens later, also when an operation
  fails or times out; and a read answers the latest value together with the revision it was written at, or nothing when
  the key is gone. \<open>ok\<close> are the states the server can be in.
\<close>

definition grows :: "('w \<Rightarrow> int \<Rightarrow> json option) \<Rightarrow> 'w \<Rightarrow> 'w \<Rightarrow> bool" where
  "grows hist w w' = (\<forall>r v. hist w r = Some v \<longrightarrow> hist w' r = Some v)"

definition evolves :: "('w \<Rightarrow> bool) \<Rightarrow> ('w \<Rightarrow> int \<Rightarrow> json option) \<Rightarrow> 'w \<Rightarrow> 'w \<Rightarrow> bool" where
  "evolves ok hist w w' = (ok w \<longrightarrow> ok w' \<and> grows hist w w')"

definition record_owner :: "json \<Rightarrow> string" where
  "record_owner v = (case as_dict v of None \<Rightarrow> []
     | Some d \<Rightarrow> (case map_of d ''controller_id'' of None \<Rightarrow> [] | Some j \<Rightarrow> py_str j))"

locale etcd_history =
  fixes ops :: "'w EtcdOps" and ok :: "'w \<Rightarrow> bool" and hist :: "'w \<Rightarrow> int \<Rightarrow> json option" and key :: string
  assumes grant: "evolves ok hist w (snd (op_grant ops ttl w))"
    and keepalive: "evolves ok hist w (snd (op_keepalive ops l w))"
    and revoke: "evolves ok hist w (snd (op_revoke ops l w))"
    and put: "evolves ok hist w (snd (op_put ops k v l w))"
    and delete: "evolves ok hist w (snd (op_delete ops k w))"
    and create: "evolves ok hist w (snd (op_create ops k v l w))"
    and close: "evolves ok hist w (snd (op_close ops w))"
    and range_one: "evolves ok hist w (snd (op_range_one ops k w))"
    and range_value: "ok w \<Longrightarrow> op_range_one ops key w = (Inr (kv # kvs), w') \<Longrightarrow>
      \<exists>r v. kv_mod_revision kv = JInt r \<and> kv_value kv = Some v \<and> hist w' r = Some v \<and>
        (\<forall>r'. hist w' r' \<noteq> None \<longrightarrow> r' \<le> r)"
begin

definition known :: "'w \<Rightarrow> LeaderInfo \<Rightarrow> bool" where
  "known w li = (\<exists>v. hist w (li_controller_epoch li) = Some v \<and> record_owner v = li_controller_id li)"

definition leader_ok :: "AuthorityConfig \<Rightarrow> Authority \<times> 'w \<Rightarrow> bool" where
  "leader_ok c s = (au_is_leader (fst s) \<longrightarrow> (\<exists>li. au_leader_info (fst s) = Some li \<and>
     li_controller_id li = ac_controller_id c \<and> known (snd s) li))"

text \<open>A computation that, from states in which \<open>P\<close> holds of the store, keeps a leader's record known.\<close>

definition keeps :: "AuthorityConfig \<Rightarrow> ('w \<Rightarrow> bool) \<Rightarrow> ('w, 'a) svc \<Rightarrow> bool" where
  "keeps c P m = (\<forall>s. ok (snd s) \<longrightarrow> leader_ok c s \<longrightarrow> P (snd s) \<longrightarrow>
     ok (snd (snd (m s))) \<and> grows hist (snd s) (snd (snd (m s))) \<and> leader_ok c (snd (m s)))"

lemma keepsD:
  "keeps c (\<lambda>_. True) m \<Longrightarrow> ok (snd s) \<Longrightarrow> leader_ok c s \<Longrightarrow>
     ok (snd (snd (m s))) \<and> grows hist (snd s) (snd (snd (m s))) \<and> leader_ok c (snd (m s))"
  unfolding keeps_def by blast

definition stable :: "('w \<Rightarrow> bool) \<Rightarrow> bool" where
  "stable P = (\<forall>w w'. P w \<longrightarrow> grows hist w w' \<longrightarrow> P w')"

lemma grows_trans: "grows hist a b \<Longrightarrow> grows hist b c \<Longrightarrow> grows hist a c"
  by (simp add: grows_def)

lemma known_grows: "known w li \<Longrightarrow> grows hist w w' \<Longrightarrow> known w' li"
  by (auto simp: known_def grows_def)

lemma leader_ok_grows: "leader_ok c (a, w) \<Longrightarrow> grows hist w w' \<Longrightarrow> leader_ok c (a, w')"
  by (auto simp: leader_ok_def intro: known_grows)

lemma stable_True [simp]: "stable (\<lambda>_. True)"
  by (simp add: stable_def)

lemma stable_known [simp]: "stable (\<lambda>w. known w li)"
  unfolding stable_def by (blast intro: known_grows)

lemma keeps_weaken: "keeps c (\<lambda>_. True) m \<Longrightarrow> keeps c P m"
  by (simp add: keeps_def)

lemma keeps_ext:
  assumes "\<And>w. evolves ok hist w (snd (m w))"
  shows "keeps c P (ext m)"
proof -
  have "snd (ext m s) = (fst s, snd (m (snd s)))" for s by (simp add: ext_def split: prod.splits)
  then show ?thesis
    using assms unfolding keeps_def evolves_def by (auto intro: leader_ok_grows)
qed

lemma keeps_ret [simp]: "keeps c P (ret x)" "keeps c P (\<lambda>s. (r, s))"
  by (simp_all add: keeps_def ret_def grows_def)

lemma keeps_upd:
  assumes "\<And>a w. leader_ok c (a, w) \<Longrightarrow> P w \<Longrightarrow> leader_ok c (f a, w)"
  shows "keeps c P (upd f)"
  using assms by (auto simp: keeps_def upd_def grows_def)

lemma keeps_upd_same:
  assumes "\<And>a. au_is_leader (f a) = au_is_leader a" "\<And>a. au_leader_info (f a) = au_leader_info a"
  shows "keeps c P (upd f)"
  by (rule keeps_upd) (simp add: leader_ok_def assms)

lemma keeps_upd_off: "(\<And>a. \<not> au_is_leader (f a)) \<Longrightarrow> keeps c P (upd f)"
  by (rule keeps_upd) (simp add: leader_ok_def)

lemma keeps_get: "(\<And>a. keeps c P (f a)) \<Longrightarrow> keeps c P (get f)"
  by (simp add: keeps_def get_def)

lemma keeps_bind:
  assumes "keeps c P m" and "\<And>x. keeps c P (f x)" and "stable P"
  shows "keeps c P (ebind m f)"
  unfolding keeps_def
proof (intro allI impI)
  fix s assume s: "ok (snd s)" "leader_ok c s" "P (snd s)"
  obtain r s1 where m: "m s = (r, s1)" by (cases "m s")
  from assms(1) s m have s1: "ok (snd s1)" "grows hist (snd s) (snd s1)" "leader_ok c s1"
    unfolding keeps_def by (metis snd_conv)+
  with s(3) assms(3) have "P (snd s1)" unfolding stable_def by blast
  with assms(2) s1 have "\<And>x. ok (snd (snd (f x s1))) \<and> grows hist (snd s1) (snd (snd (f x s1))) \<and> leader_ok c (snd (f x s1))"
    unfolding keeps_def by blast
  with s1 show "ok (snd (snd (ebind m f s))) \<and> grows hist (snd s) (snd (snd (ebind m f s))) \<and> leader_ok c (snd (ebind m f s))"
    by (auto simp: ebind_def m intro: grows_trans split: sum.splits)
qed

lemma keeps_attempt:
  assumes "keeps c P m" and "\<And>e. keeps c P (h e)" and "\<And>x. keeps c P (f x)" and "stable P"
  shows "keeps c P (attempt m h f)"
  unfolding keeps_def
proof (intro allI impI)
  fix s assume s: "ok (snd s)" "leader_ok c s" "P (snd s)"
  obtain r s1 where m: "m s = (r, s1)" by (cases "m s")
  from assms(1) s m have s1: "ok (snd s1)" "grows hist (snd s) (snd s1)" "leader_ok c s1"
    unfolding keeps_def by (metis snd_conv)+
  with s(3) assms(4) have "P (snd s1)" unfolding stable_def by blast
  with assms(2,3) s1 have
    "\<And>x. ok (snd (snd (f x s1))) \<and> grows hist (snd s1) (snd (snd (f x s1))) \<and> leader_ok c (snd (f x s1))"
    "\<And>x. ok (snd (snd (h x s1))) \<and> grows hist (snd s1) (snd (snd (h x s1))) \<and> leader_ok c (snd (h x s1))"
    unfolding keeps_def by blast+
  with s1 show "ok (snd (snd (attempt m h f s))) \<and> grows hist (snd s) (snd (snd (attempt m h f s))) \<and>
      leader_ok c (snd (attempt m h f s))"
    by (auto simp: attempt_def m intro: grows_trans split: sum.splits)
qed

lemma keeps_quietly: "keeps c (\<lambda>_. True) m \<Longrightarrow> keeps c (\<lambda>_. True) (quietly m)"
  by (simp add: quietly_def keeps_attempt)

end

section \<open>A leader's record is in the history\<close>

lemma parse_leader_fields:
  assumes "parse_leader env c (kv # kvs) = Inr (Some li)" and "kv_mod_revision kv = JInt r" and "kv_value kv = Some v"
  shows "li_controller_epoch li = r" "li_controller_id li = record_owner v"
  using assms
  by (auto simp: parse_leader_def record_owner_def rbind_Inr_iff py_or_def split: option.splits if_splits)

lemma parse_leader_Nil [simp]: "parse_leader env c [] = Inr None"
  by (simp add: parse_leader_def)

lemma parse_leader_None: "parse_leader env c kvs = Inr None \<Longrightarrow> kvs = []"
  by (auto simp: parse_leader_def rbind_Inr_iff split: list.splits option.splits)

context etcd_history
begin

lemma read_leader_info_result:
  assumes "ok w" and "leader_key c = key" and "read_leader_info ops env c (a, w) = (res, s')"
  shows "\<exists>w'. s' = (a, w') \<and> ok w' \<and> grows hist w w' \<and>
    (\<forall>li. res = Inr (Some li) \<longrightarrow> known w' li \<and> (\<forall>r. hist w' r \<noteq> None \<longrightarrow> r \<le> li_controller_epoch li))"
proof -
  obtain q w' where q: "op_range_one ops key w = (q, w')" by (cases "op_range_one ops key w")
  from range_one [of w key] assms(1) q have w': "ok w'" "grows hist w w'" by (simp_all add: evolves_def)
  have s': "s' = (a, w')"
    using assms(2,3) q by (auto simp: read_leader_info_def ebind_def ext_def split: sum.splits)
  have "known w' li \<and> (\<forall>r. hist w' r \<noteq> None \<longrightarrow> r \<le> li_controller_epoch li)" if res: "res = Inr (Some li)" for li
  proof -
    from assms(2,3) q res obtain kvs where kvs: "q = Inr kvs" "parse_leader env c kvs = Inr (Some li)"
      by (auto simp: read_leader_info_def ebind_def ext_def split: sum.splits)
    then obtain kv rest where "kvs = kv # rest" by (cases kvs) simp_all
    with kvs q have kv: "op_range_one ops key w = (Inr (kv # rest), w')" "parse_leader env c (kv # rest) = Inr (Some li)"
      by simp_all
    from range_value [OF assms(1) kv(1)] obtain r v where r: "kv_mod_revision kv = JInt r" "kv_value kv = Some v"
      "hist w' r = Some v" "\<forall>r'. hist w' r' \<noteq> None \<longrightarrow> r' \<le> r" by blast
    with parse_leader_fields [OF kv(2) r(1,2)] show ?thesis by (auto simp: known_def)
  qed
  with s' w' show ?thesis by blast
qed

lemma keeps_read:
  assumes "leader_key c = key" and "\<And>li. keeps c (\<lambda>w. pred_option (known w) li) (f li)"
  shows "keeps c (\<lambda>_. True) (ebind (read_leader_info ops env c) f)"
  unfolding keeps_def
proof (intro allI impI)
  fix s :: "Authority \<times> 'w" assume s: "ok (snd s)" "leader_ok c s"
  obtain res s1 where r: "read_leader_info ops env c s = (res, s1)" by (cases "read_leader_info ops env c s")
  from read_leader_info_result [OF s(1) assms(1), of env "fst s" res s1] r obtain w' where
    s1: "s1 = (fst s, w')" "ok w'" "grows hist (snd s) w'" "\<And>li. res = Inr (Some li) \<Longrightarrow> known w' li" by auto
  have l: "leader_ok c (fst s, w')" using leader_ok_grows [of c "fst s" "snd s" w'] s(2) s1(3) by simp
  have "ok (snd (snd (f li s1))) \<and> grows hist (snd s1) (snd (snd (f li s1))) \<and> leader_ok c (snd (f li s1))"
    if "res = Inr li" for li
    using assms(2) [of li] that s1 l unfolding keeps_def by (cases li) auto
  with s1 l show "ok (snd (snd (ebind (read_leader_info ops env c) f s))) \<and>
      grows hist (snd s) (snd (snd (ebind (read_leader_info ops env c) f s))) \<and>
      leader_ok c (snd (ebind (read_leader_info ops env c) f s))"
    by (auto simp: ebind_def r intro: grows_trans split: sum.splits)
qed

lemma leader_ok_schedule [simp]: "leader_ok c (schedule_retry env c' now a, w) = leader_ok c (a, w)"
  by (simp add: schedule_retry_def Let_def leader_ok_def)

lemma keeps_option:
  "keeps c P x \<Longrightarrow> (\<And>l. keeps c P (y l)) \<Longrightarrow> keeps c P (case v of None \<Rightarrow> x | Some l \<Rightarrow> y l)"
  by (cases v) simp_all

lemma keeps_if: "keeps c P x \<Longrightarrow> keeps c P y \<Longrightarrow> keeps c P (if b then x else y)"
  by simp

lemmas keeps_intros = keeps_option keeps_if keeps_bind keeps_attempt keeps_get keeps_ext keeps_quietly
  grant keepalive revoke put delete create close range_one stable_True keeps_ret

lemma publish_presence_keeps: "keeps c (\<lambda>_. True) (publish_presence ops env c' l h)"
  unfolding publish_presence_def Let_def by (intro keeps_intros keeps_upd_same) simp_all

lemma new_presence_keeps: "keeps c (\<lambda>_. True) (new_presence ops env c' now)"
  unfolding new_presence_def by (intro keeps_intros publish_presence_keeps keeps_upd_same) simp_all

lemma ensure_presence_keeps: "keeps c (\<lambda>_. True) (ensure_presence ops env c' now)"
  unfolding ensure_presence_def
  by (intro keeps_intros publish_presence_keeps new_presence_keeps keeps_upd_same) simp_all

lemma lose_leadership_keeps:
  assumes "leader_key c = key"
  shows "keeps c (\<lambda>_. True) (lose_leadership ops env c now)"
  unfolding keeps_def
proof (intro allI impI)
  fix s :: "Authority \<times> 'w" assume s: "ok (snd s)"
  define s0 where "s0 = ((fst s)\<lparr>au_is_leader := False, au_leader_lease := None\<rparr>, snd s)"
  obtain res s1 where r: "read_leader_info ops env c s0 = (res, s1)" by (cases "read_leader_info ops env c s0")
  from read_leader_info_result [OF _ assms, of "snd s0" env "fst s0" res s1] r s obtain w' where
    "s1 = (fst s0, w')" "ok w'" "grows hist (snd s) w'" by (auto simp: s0_def)
  then show "ok (snd (snd (lose_leadership ops env c now s))) \<and>
      grows hist (snd s) (snd (snd (lose_leadership ops env c now s))) \<and> leader_ok c (snd (lose_leadership ops env c now s))"
    using r by (auto simp: lose_leadership_def ebind_def upd_def s0_def leader_ok_def schedule_retry_def Let_def
        split: sum.splits)
qed

lemma renew_leader_keeps:
  assumes k: "leader_key c = key"
  shows "keeps c (\<lambda>_. True) (renew_leader ops env c now)"
proof -
  have inner: "keeps c (\<lambda>w. pred_option (known w) li) (case li of
      None \<Rightarrow> lose_leadership ops env c now
    | Some i \<Rightarrow> if li_controller_id i \<noteq> ac_controller_id c then lose_leadership ops env c now
        else upd (\<lambda>a. a\<lparr>au_leader_info := Some i, au_leader_lease := lease_state c now (lst_lease_id l)\<rparr>))" for li l
    using keeps_weaken [OF lose_leadership_keeps [OF k]]
    by (cases li) (auto intro!: keeps_upd simp: leader_ok_def)
  show ?thesis
    unfolding renew_leader_def
    by (intro keeps_option keeps_if keeps_attempt keeps_get keeps_ext keepalive keeps_ret stable_True
        keeps_read [OF k inner] lose_leadership_keeps [OF k] keeps_upd_off) (simp add: schedule_retry_def Let_def)
qed

text \<open>
  While it does not lead, a service may store any leader record. \<open>silent\<close> computations do not decide who leads;
  \<open>lands c P m\<close> starts in a service that does not lead.
\<close>

definition silent :: "('w, 'a) svc \<Rightarrow> bool" where
  "silent m = (\<forall>s. ok (snd s) \<longrightarrow> ok (snd (snd (m s))) \<and> grows hist (snd s) (snd (snd (m s))) \<and>
     au_is_leader (fst (snd (m s))) = au_is_leader (fst s))"

definition lands :: "AuthorityConfig \<Rightarrow> ('w \<Rightarrow> bool) \<Rightarrow> ('w, 'a) svc \<Rightarrow> bool" where
  "lands c P m = (\<forall>s. ok (snd s) \<longrightarrow> \<not> au_is_leader (fst s) \<longrightarrow> P (snd s) \<longrightarrow>
     ok (snd (snd (m s))) \<and> grows hist (snd s) (snd (snd (m s))) \<and> leader_ok c (snd (m s)))"

lemma silentD:
  "silent m \<Longrightarrow> ok (snd s) \<Longrightarrow> ok (snd (snd (m s))) \<and> grows hist (snd s) (snd (snd (m s))) \<and>
     au_is_leader (fst (snd (m s))) = au_is_leader (fst s)"
  unfolding silent_def by blast

lemma landsD:
  "lands c P m \<Longrightarrow> ok (snd s) \<Longrightarrow> \<not> au_is_leader (fst s) \<Longrightarrow> P (snd s) \<Longrightarrow>
     ok (snd (snd (m s))) \<and> grows hist (snd s) (snd (snd (m s))) \<and> leader_ok c (snd (m s))"
  unfolding lands_def by blast

lemma silent_ext:
  assumes "\<And>w. evolves ok hist w (snd (m w))"
  shows "silent (ext m)"
proof -
  have "snd (ext m s) = (fst s, snd (m (snd s)))" for s by (simp add: ext_def split: prod.splits)
  then show ?thesis using assms by (simp add: silent_def evolves_def)
qed

lemma silent_quietly:
  assumes "silent m"
  shows "silent (quietly m)"
  unfolding silent_def
proof (intro allI impI)
  fix s :: "Authority \<times> 'w" assume s: "ok (snd s)"
  obtain r s1 where "m s = (r, s1)" by (cases "m s")
  then have "snd (quietly m s) = snd (m s)" by (simp add: quietly_def attempt_def ret_def split: sum.splits)
  with silentD [OF assms s] show "ok (snd (snd (quietly m s))) \<and> grows hist (snd s) (snd (snd (quietly m s))) \<and>
      au_is_leader (fst (snd (quietly m s))) = au_is_leader (fst s)" by simp
qed

lemma lands_bind:
  assumes "silent m" and "\<And>x. lands c (\<lambda>_. True) (f x)"
  shows "lands c P (ebind m f)"
  unfolding lands_def
proof (intro allI impI)
  fix s :: "Authority \<times> 'w" assume s: "ok (snd s)" "\<not> au_is_leader (fst s)"
  obtain r s1 where m: "m s = (r, s1)" by (cases "m s")
  from assms(1) s m have s1: "ok (snd s1)" "grows hist (snd s) (snd s1)" "au_is_leader (fst s1) = au_is_leader (fst s)"
    unfolding silent_def by (metis snd_conv)+
  have "\<And>x. ok (snd (snd (f x s1))) \<and> grows hist (snd s1) (snd (snd (f x s1))) \<and> leader_ok c (snd (f x s1))"
    by (rule landsD [OF assms(2)]) (use s s1 in simp_all)
  with s s1 show "ok (snd (snd (ebind m f s))) \<and> grows hist (snd s) (snd (snd (ebind m f s))) \<and> leader_ok c (snd (ebind m f s))"
    by (auto simp: ebind_def m leader_ok_def [of c s1] intro: grows_trans split: sum.splits)
qed

lemma lands_attempt:
  assumes "silent m" and "\<And>e. lands c (\<lambda>_. True) (h e)" and "\<And>x. lands c (\<lambda>_. True) (f x)"
  shows "lands c P (attempt m h f)"
  unfolding lands_def
proof (intro allI impI)
  fix s :: "Authority \<times> 'w" assume s: "ok (snd s)" "\<not> au_is_leader (fst s)"
  obtain r s1 where m: "m s = (r, s1)" by (cases "m s")
  from assms(1) s m have s1: "ok (snd s1)" "grows hist (snd s) (snd s1)" "au_is_leader (fst s1) = au_is_leader (fst s)"
    unfolding silent_def by (metis snd_conv)+
  have "\<And>x. ok (snd (snd (f x s1))) \<and> grows hist (snd s1) (snd (snd (f x s1))) \<and> leader_ok c (snd (f x s1))"
    by (rule landsD [OF assms(3)]) (use s s1 in simp_all)
  moreover have "\<And>x. ok (snd (snd (h x s1))) \<and> grows hist (snd s1) (snd (snd (h x s1))) \<and> leader_ok c (snd (h x s1))"
    by (rule landsD [OF assms(2)]) (use s s1 in simp_all)
  ultimately show "ok (snd (snd (attempt m h f s))) \<and> grows hist (snd s) (snd (snd (attempt m h f s))) \<and>
      leader_ok c (snd (attempt m h f s))"
    using s s1 by (auto simp: attempt_def m intro: grows_trans split: sum.splits)
qed

lemma lands_read:
  assumes "leader_key c = key" and "\<And>li. lands c (\<lambda>w. pred_option (known w) li) (f li)"
  shows "lands c P (ebind (read_leader_info ops env c) f)"
  unfolding lands_def
proof (intro allI impI)
  fix s :: "Authority \<times> 'w" assume s: "ok (snd s)" "\<not> au_is_leader (fst s)"
  obtain res s1 where r: "read_leader_info ops env c s = (res, s1)" by (cases "read_leader_info ops env c s")
  from read_leader_info_result [OF s(1) assms(1), of env "fst s" res s1] r obtain w' where
    s1: "s1 = (fst s, w')" "ok w'" "grows hist (snd s) w'" "\<And>li. res = Inr (Some li) \<Longrightarrow> known w' li" by auto
  have "ok (snd (snd (f li s1))) \<and> grows hist (snd s1) (snd (snd (f li s1))) \<and> leader_ok c (snd (f li s1))"
    if "res = Inr li" for li
    using assms(2) [of li] that s1 s(2) unfolding lands_def by (cases li) auto
  with s s1 show "ok (snd (snd (ebind (read_leader_info ops env c) f s))) \<and>
      grows hist (snd s) (snd (snd (ebind (read_leader_info ops env c) f s))) \<and>
      leader_ok c (snd (ebind (read_leader_info ops env c) f s))"
    by (auto simp: ebind_def r leader_ok_def [of c "(fst s, w')"] intro: grows_trans split: sum.splits)
qed

lemma lands_upd:
  assumes "\<And>a w. \<not> au_is_leader a \<Longrightarrow> P w \<Longrightarrow> leader_ok c (f a, w)"
  shows "lands c P (upd f)"
  using assms by (auto simp: lands_def upd_def grows_def)

lemma lands_upd_off: "(\<And>a. au_is_leader (f a) = au_is_leader a) \<Longrightarrow> lands c P (upd f)"
  by (rule lands_upd) (simp add: leader_ok_def)

lemma lands_fail: "lands c P (ebind (upd (schedule_retry env c' now)) (\<lambda>_ s. (Inl e, s)))"
  by (simp add: lands_def ebind_def upd_def grows_def leader_ok_def schedule_retry_def Let_def)

lemma leader_ok_leadership_read:
  "\<not> au_is_leader a \<Longrightarrow> known w li \<Longrightarrow> leader_ok c (leadership_read c now lease_id li a, w)"
  by (simp add: leadership_read_def leader_ok_def Let_def)

lemma attempt_leadership_lands:
  assumes k: "leader_key c = key"
  shows "lands c (\<lambda>_. True) (attempt_leadership ops env c now)"
proof -
  have r: "silent (quietly (ext (op_revoke ops l)))" for l by (intro silent_quietly silent_ext revoke)
  have retry: "lands c P (upd (schedule_retry env c now))" for P
    by (rule lands_upd_off) (simp add: schedule_retry_def Let_def)
  have lost: "lands c (\<lambda>w. pred_option (known w) li)
      (upd (\<lambda>a. (schedule_retry env c now (a\<lparr>au_leader_info := li\<rparr>))\<lparr>au_ready := True\<rparr>))" for li
    by (rule lands_upd_off) (simp add: schedule_retry_def Let_def)
  have won: "lands c (\<lambda>w. pred_option (known w) li) (case li of
      None \<Rightarrow> ebind (quietly (ext (op_revoke ops l))) (\<lambda>_. upd (schedule_retry env c now))
    | Some i \<Rightarrow> upd (leadership_read c now l i))" for li l
    by (cases li) (simp_all add: lands_bind [OF r retry] lands_upd leader_ok_leadership_read)
  have "lands c (\<lambda>_. True) (if \<not> claimed
      then ebind (quietly (ext (op_revoke ops l))) (\<lambda>_.
           ebind (read_leader_info ops env c) (\<lambda>li.
             upd (\<lambda>a. (schedule_retry env c now (a\<lparr>au_leader_info := li\<rparr>))\<lparr>au_ready := True\<rparr>)))
      else ebind (read_leader_info ops env c) (\<lambda>li. case li of
           None \<Rightarrow> ebind (quietly (ext (op_revoke ops l))) (\<lambda>_. upd (schedule_retry env c now))
         | Some i \<Rightarrow> upd (leadership_read c now l i)))" for claimed l
    by (simp add: lands_bind [OF r] lands_read [OF k lost] lands_read [OF k won])
  then show ?thesis
    unfolding attempt_leadership_def
    by (intro lands_bind lands_attempt silent_ext grant create r lands_fail)
qed

lemma silent_bind:
  assumes "silent m" and "\<And>x. silent (f x)"
  shows "silent (ebind m f)"
  unfolding silent_def
proof (intro allI impI)
  fix s :: "Authority \<times> 'w" assume s: "ok (snd s)"
  obtain r s1 where m: "m s = (r, s1)" by (cases "m s")
  from silentD [OF assms(1) s] m have s1: "ok (snd s1)" "grows hist (snd s) (snd s1)"
    "au_is_leader (fst s1) = au_is_leader (fst s)" by simp_all
  with silentD [OF assms(2) s1(1)] show "ok (snd (snd (ebind m f s))) \<and> grows hist (snd s) (snd (snd (ebind m f s))) \<and>
      au_is_leader (fst (snd (ebind m f s))) = au_is_leader (fst s)"
    by (auto simp: ebind_def m intro: grows_trans split: sum.splits)
qed

lemma silent_upd: "(\<And>a. au_is_leader (f a) = au_is_leader a) \<Longrightarrow> silent (upd f)"
  by (simp add: silent_def upd_def grows_def)

lemma silent_get: "(\<And>a. silent (f a)) \<Longrightarrow> silent (get f)"
  unfolding silent_def get_def by blast

lemma silent_if: "silent x \<Longrightarrow> silent y \<Longrightarrow> silent (if b then x else y)"
  by simp

lemma silent_ret: "silent (ret x)"
  by (simp add: silent_def ret_def grows_def)

lemma silent_read:
  assumes "leader_key c = key"
  shows "silent (read_leader_info ops env c)"
  unfolding silent_def
proof (intro allI impI)
  fix s :: "Authority \<times> 'w" assume "ok (snd s)"
  from read_leader_info_result [OF this assms, of env "fst s"]
  obtain w' where "snd (read_leader_info ops env c s) = (fst s, w')" "ok w'" "grows hist (snd s) w'"
    by (metis prod.collapse)
  then show "ok (snd (snd (read_leader_info ops env c s))) \<and> grows hist (snd s) (snd (snd (read_leader_info ops env c s))) \<and>
      au_is_leader (fst (snd (read_leader_info ops env c s))) = au_is_leader (fst s)" by simp
qed

lemma follow_lands:
  assumes k: "leader_key c = key"
  shows "lands c (\<lambda>_. True) (follow ops env c now)"
proof -
  have "lands c (\<lambda>_. True) (get (\<lambda>a. if au_leader_info a = None \<and> au_next_election_attempt_at a \<le> now
      then attempt_leadership ops env c now else ret ()))"
    using landsD [OF attempt_leadership_lands [OF k]]
    by (auto simp: lands_def get_def ret_def grows_def leader_ok_def)
  then show ?thesis
    unfolding follow_def
    by (intro lands_bind silent_get silent_if silent_bind silent_read [OF k] silent_upd silent_ret) simp_all
qed

lemma run_once_keeps:
  assumes k: "leader_key c = key" and "ac_enabled c"
  shows "keeps c (\<lambda>_. True) (authority_run_once ops env c now)"
proof -
  have body: "keeps c (\<lambda>_. True) (get (\<lambda>a. if au_is_leader a then renew_leader ops env c now else follow ops env c now))"
    unfolding keeps_def
  proof (intro allI impI)
    fix s :: "Authority \<times> 'w" assume "ok (snd s)" "leader_ok c s"
    then show "ok (snd (snd (get (\<lambda>a. if au_is_leader a then renew_leader ops env c now else follow ops env c now) s))) \<and>
        grows hist (snd s) (snd (snd (get (\<lambda>a. if au_is_leader a then renew_leader ops env c now else follow ops env c now) s))) \<and>
        leader_ok c (snd (get (\<lambda>a. if au_is_leader a then renew_leader ops env c now else follow ops env c now) s))"
      using landsD [OF follow_lands [OF k], of s env now] keepsD [OF renew_leader_keeps [OF k], of s env now]
      unfolding get_def by (cases "au_is_leader (fst s)") simp_all
  qed
  have "keeps c (\<lambda>_. True) (get (\<lambda>a. ret (next_sleep c now a)))" by (intro keeps_get keeps_ret)
  then show ?thesis
    using assms(2) body unfolding authority_run_once_def
    by (simp add: keeps_bind ensure_presence_keeps)
qed

lemma turn_keeps:
  assumes "leader_key c = key" and "ac_enabled c"
  shows "keeps c (\<lambda>_. True) (authority_turn ops env c now)"
  unfolding authority_turn_def
  by (intro keeps_attempt run_once_keeps assms keeps_bind keeps_ret stable_True keeps_upd_same) simp_all

lemma stop_keeps: "keeps c (\<lambda>_. True) (authority_stop ops c)"
proof -
  have "keeps c (\<lambda>_. True) (authority_cleanup ops c)"
    unfolding authority_cleanup_def Let_def by (intro keeps_intros keeps_upd_off) simp
  then show ?thesis
    unfolding authority_stop_def by (intro keeps_intros keeps_upd_same) simp_all
qed

end

section \<open>Several controllers\<close>

text \<open>
  Controllers with the configurations \<open>cf n\<close> on one etcd. A step is a turn of one of them, its stop, or
  anything else that happens to etcd: expiring leases, other clients.
\<close>

inductive cluster_reachable ::
  "'w EtcdOps \<Rightarrow> ('w \<Rightarrow> bool) \<Rightarrow> ('w \<Rightarrow> int \<Rightarrow> json option) \<Rightarrow> (nat \<Rightarrow> AuthorityConfig)
   \<Rightarrow> (nat \<Rightarrow> Authority) \<Rightarrow> 'w \<Rightarrow> bool"
for ops ok hist cf where
  start: "ok w \<Longrightarrow> cluster_reachable ops ok hist cf (\<lambda>n. authority_init) w"
| turn: "cluster_reachable ops ok hist cf A w \<Longrightarrow>
    authority_turn ops env (cf n) now (A n, w) = (res, (a, w')) \<Longrightarrow> cluster_reachable ops ok hist cf (A(n := a)) w'"
| stopped: "cluster_reachable ops ok hist cf A w \<Longrightarrow>
    authority_stop ops (cf n) (A n, w) = (res, (a, w')) \<Longrightarrow> cluster_reachable ops ok hist cf (A(n := a)) w'"
| world: "cluster_reachable ops ok hist cf A w \<Longrightarrow> evolves ok hist w w' \<Longrightarrow> cluster_reachable ops ok hist cf A w'"

context etcd_history
begin

lemma cluster_leader_ok:
  assumes "cluster_reachable ops ok hist cf A w" and "\<And>n. leader_key (cf n) = key \<and> ac_enabled (cf n)"
  shows "ok w \<and> (\<forall>n. leader_ok (cf n) (A n, w))"
  using assms(1)
proof (induction rule: cluster_reachable.induct)
  case (start w)
  then show ?case by (simp add: leader_ok_def authority_init_def)
next
  case (turn A w env n now res a w')
  with turn_keeps [of "cf n" env now] assms(2) have "ok w'" "grows hist w w'" "leader_ok (cf n) (a, w')"
    unfolding keeps_def by (metis snd_conv)+
  with turn.IH show ?case by (auto intro: leader_ok_grows)
next
  case (stopped A w n res a w')
  with stop_keeps [of "cf n"] have "ok w'" "grows hist w w'" "leader_ok (cf n) (a, w')"
    unfolding keeps_def by (metis snd_conv)+
  with stopped.IH show ?case by (auto intro: leader_ok_grows)
next
  case (world A w w')
  then show ?case by (auto simp: evolves_def intro: leader_ok_grows)
qed

lemma leader_has_record:
  assumes "cluster_reachable ops ok hist cf A w" and "\<And>n. leader_key (cf n) = key \<and> ac_enabled (cf n)"
    and "au_is_leader (A i)"
  obtains li where "au_leader_info (A i) = Some li" "li_controller_id li = ac_controller_id (cf i)"
  using cluster_leader_ok [OF assms(1,2)] assms(3) by (auto simp: leader_ok_def)

lemma leaders_same_epoch:
  assumes "cluster_reachable ops ok hist cf A w" and "\<And>n. leader_key (cf n) = key \<and> ac_enabled (cf n)"
    and "au_is_leader (A i)" and "au_is_leader (A j)"
    and "snapshot_epoch (snapshot (cf i) (A i)) = snapshot_epoch (snapshot (cf j) (A j))"
  shows "ac_controller_id (cf i) = ac_controller_id (cf j)"
proof -
  from cluster_leader_ok [OF assms(1,2)] have l: "\<And>n. leader_ok (cf n) (A n, w)" by blast
  from l [of i] assms(3) obtain li v where i: "au_leader_info (A i) = Some li"
    "li_controller_id li = ac_controller_id (cf i)" "hist w (li_controller_epoch li) = Some v"
    "record_owner v = li_controller_id li"
    by (auto simp: leader_ok_def known_def)
  from l [of j] assms(4) obtain lj u where j: "au_leader_info (A j) = Some lj"
    "li_controller_id lj = ac_controller_id (cf j)" "hist w (li_controller_epoch lj) = Some u"
    "record_owner u = li_controller_id lj"
    by (auto simp: leader_ok_def known_def)
  from assms(5) i(1) j(1) have "li_controller_epoch li = li_controller_epoch lj"
    by (simp add: snapshot_epoch_def snapshot_def)
  with i j show ?thesis by simp
qed

end

section \<open>A reference server\<close>

text \<open>
  A server that satisfies the contract: keys with value, revision and lease, and the log of all
  writes. While it is not up, every call raises.
\<close>

record Etcd =
  et_up :: bool
  et_revision :: int
  et_kvs :: "(string \<times> json \<times> int \<times> int) list"
  et_log :: "(string \<times> int \<times> json) list"
  et_leases :: "int list"

definition et_init :: Etcd where
  "et_init = \<lparr>et_up = True, et_revision = 1, et_kvs = [], et_log = [], et_leases = []\<rparr>"

definition et_call :: "(Etcd, 'a) eff \<Rightarrow> (Etcd, 'a) eff" where
  "et_call m w = (if et_up w then m w else (Inl (RuntimeError ''unavailable''), w))"

definition et_expire :: "int \<Rightarrow> Etcd \<Rightarrow> Etcd" where
  "et_expire l w = w\<lparr>et_revision := et_revision w + 1, et_leases := removeAll l (et_leases w),
     et_kvs := filter (\<lambda>(k, v, r, x). x \<noteq> l) (et_kvs w)\<rparr>"

definition et_write :: "string \<Rightarrow> json \<Rightarrow> int \<Rightarrow> Etcd \<Rightarrow> Etcd" where
  "et_write k v l w = (let r = et_revision w + 1 in
     w\<lparr>et_revision := r, et_kvs := AList.update k (v, r, l) (et_kvs w), et_log := (k, r, v) # et_log w\<rparr>)"

definition et_get :: "string \<Rightarrow> Etcd \<Rightarrow> KeyValue list" where
  "et_get k w = (case map_of (et_kvs w) k of None \<Rightarrow> []
     | Some (v, r, l) \<Rightarrow> [\<lparr>kv_key = Some k, kv_value = Some v, kv_mod_revision = JInt r\<rparr>])"

definition ref_etcd :: "Etcd EtcdOps" where
  "ref_etcd = \<lparr>
     op_grant = (\<lambda>ttl. et_call (\<lambda>w. let l = int (length (et_leases w)) + et_revision w
        in (Inr l, w\<lparr>et_leases := l # et_leases w\<rparr>))),
     op_keepalive = (\<lambda>l. et_call (\<lambda>w. (if l \<in> set (et_leases w) then Inr () else Inl (RuntimeError ''lease not found''), w))),
     op_revoke = (\<lambda>l. et_call (\<lambda>w. (Inr (), et_expire l w))),
     op_put = (\<lambda>k v l. et_call (\<lambda>w. (Inr (), et_write k v l w))),
     op_delete = (\<lambda>k. et_call (\<lambda>w. (Inr (), w\<lparr>et_revision := et_revision w + 1, et_kvs := AList.delete k (et_kvs w)\<rparr>))),
     op_range_one = (\<lambda>k. et_call (\<lambda>w. (Inr (et_get k w), w))),
     op_range_prefix = (\<lambda>p. et_call (\<lambda>w. (Inr (concat (map (\<lambda>kv. if take (length p) (fst kv) = p
        then et_get (fst kv) w else []) (et_kvs w))), w))),
     op_create = (\<lambda>k v l. et_call (\<lambda>w. if et_get k w = [] then (Inr True, et_write k v l w) else (Inr False, w))),
     op_close = (\<lambda>w. (Inr (), w))\<rparr>"

definition et_hist :: "string \<Rightarrow> Etcd \<Rightarrow> int \<Rightarrow> json option" where
  "et_hist key w r = map_of (map (\<lambda>(k, r, v). (r, v)) (filter (\<lambda>(k, r, v). k = key) (et_log w))) r"

definition et_ok :: "string \<Rightarrow> Etcd \<Rightarrow> bool" where
  "et_ok key w = ((\<forall>x \<in> set (et_log w). fst (snd x) \<le> et_revision w) \<and>
     distinct (map fst (et_kvs w)) \<and>
     (\<forall>v r l. map_of (et_kvs w) key = Some (v, r, l) \<longrightarrow> et_hist key w r = Some v \<and>
        (\<forall>r'. et_hist key w r' \<noteq> None \<longrightarrow> r' \<le> r)))"

lemma et_hist_write:
  "et_hist key (et_write k v l w) r =
     (if k = key \<and> r = et_revision w + 1 then Some v else et_hist key w r)"
  by (simp add: et_hist_def et_write_def Let_def)

lemma et_hist_bound: "et_ok key w \<Longrightarrow> et_hist key w r = Some v \<Longrightarrow> r \<le> et_revision w"
  unfolding et_ok_def et_hist_def by (auto dest!: map_of_SomeD) (metis fst_conv snd_conv)

lemma et_write_evolves: "evolves (et_ok key) (et_hist key) w (et_write k v l w)"
  unfolding evolves_def
proof (intro impI conjI)
  assume ok: "et_ok key w"
  have new: "et_hist key w (et_revision w + 1) = None"
    using et_hist_bound [OF ok, of "et_revision w + 1"] by (cases "et_hist key w (et_revision w + 1)") auto
  then show "grows (et_hist key) w (et_write k v l w)" by (auto simp: grows_def et_hist_write)
  have "r \<le> et_revision w + 1" if "et_hist key w r \<noteq> None" for r using et_hist_bound [OF ok] that by fastforce
  then show "et_ok key (et_write k v l w)"
    using ok unfolding et_ok_def et_hist_write
    by (auto simp: et_write_def Let_def update_conv' distinct_update)
qed

lemma evolves_same_log:
  assumes "et_log w' = et_log w" and "et_revision w \<le> et_revision w'"
    and "distinct (map fst (et_kvs w)) \<Longrightarrow> distinct (map fst (et_kvs w'))"
    and "\<And>x. distinct (map fst (et_kvs w)) \<Longrightarrow> map_of (et_kvs w') key = Some x \<Longrightarrow> map_of (et_kvs w) key = Some x"
  shows "evolves (et_ok key) (et_hist key) w w'"
proof -
  have "et_hist key w' = et_hist key w" by (simp add: fun_eq_iff et_hist_def assms(1))
  then show ?thesis using assms unfolding evolves_def et_ok_def grows_def by fastforce
qed

lemma evolves_refl: "evolves ok hist w w"
  by (simp add: evolves_def grows_def)

lemma evolves_call: "(et_up w \<Longrightarrow> evolves ok hist w (snd (m w))) \<Longrightarrow> evolves ok hist w (snd (et_call m w))"
  by (simp add: et_call_def evolves_refl)

lemma map_of_filter_lease:
  assumes "distinct (map fst xs)" and "map_of (filter P xs) k = Some x"
  shows "map_of xs k = Some x"
  using assms by (metis map_of_SomeD map_of_is_SomeI filter_is_subset subsetD)

lemma et_expire_evolves: "evolves (et_ok key) (et_hist key) w (et_expire l w)"
  by (rule evolves_same_log) (auto simp: et_expire_def distinct_map_filter dest: map_of_filter_lease)

interpretation etcd: etcd_history ref_etcd "et_ok key" "et_hist key" key for key
proof
  fix w :: Etcd and ttl l k v
  show "evolves (et_ok key) (et_hist key) w (snd (op_grant ref_etcd ttl w))"
    by (auto simp: ref_etcd_def Let_def intro!: evolves_call evolves_same_log)
  show "evolves (et_ok key) (et_hist key) w (snd (op_keepalive ref_etcd l w))"
    by (auto simp: ref_etcd_def intro!: evolves_call evolves_refl)
  show "evolves (et_ok key) (et_hist key) w (snd (op_revoke ref_etcd l w))"
    by (auto simp: ref_etcd_def intro!: evolves_call et_expire_evolves)
  show "evolves (et_ok key) (et_hist key) w (snd (op_put ref_etcd k v l w))"
    by (auto simp: ref_etcd_def intro!: evolves_call et_write_evolves)
  show "evolves (et_ok key) (et_hist key) w (snd (op_delete ref_etcd k w))"
    by (auto simp: ref_etcd_def delete_conv' distinct_delete split: if_splits intro!: evolves_call evolves_same_log)
  show "evolves (et_ok key) (et_hist key) w (snd (op_create ref_etcd k v l w))"
    by (auto simp: ref_etcd_def intro!: evolves_call et_write_evolves evolves_refl)
  show "evolves (et_ok key) (et_hist key) w (snd (op_close ref_etcd w))"
    by (simp add: ref_etcd_def evolves_refl)
  show "evolves (et_ok key) (et_hist key) w (snd (op_range_one ref_etcd k w))"
    by (auto simp: ref_etcd_def intro!: evolves_call evolves_refl)
next
  fix w w' :: Etcd and kv kvs
  assume ok: "et_ok key w" and r: "op_range_one ref_etcd key w = (Inr (kv # kvs), w')"
  from r have "et_get key w = kv # kvs" "w' = w" by (auto simp: ref_etcd_def et_call_def split: if_splits)
  with ok show "\<exists>r v. kv_mod_revision kv = JInt r \<and> kv_value kv = Some v \<and> et_hist key w' r = Some v \<and>
      (\<forall>r'. et_hist key w' r' \<noteq> None \<longrightarrow> r' \<le> r)"
    by (auto simp: et_get_def et_ok_def split: option.splits prod.splits)
qed

section \<open>One leader per epoch\<close>

text \<open>
  (C15) Epochs are fencing tokens. In any run of any number of controllers over an etcd that keeps its
  contract, with turns, failures, lease expiries and restarts in any order, two controllers with different
  ids that both take themselves for the leader never have the same epoch.
\<close>

theorem leaders_have_distinct_epochs:
  assumes "etcd_history ops ok hist key" and "\<And>n. leader_key (cf n) = key \<and> ac_enabled (cf n)"
    and "cluster_reachable ops ok hist cf A w"
    and "sn_is_leader (snapshot (cf i) (A i))" and "sn_is_leader (snapshot (cf j) (A j))"
    and "ac_controller_id (cf i) \<noteq> ac_controller_id (cf j)"
  shows "snapshot_epoch (snapshot (cf i) (A i)) \<noteq> snapshot_epoch (snapshot (cf j) (A j))"
  using etcd_history.leaders_same_epoch [OF assms(1,3,2), of i j] assms(2) [of i] assms(2) [of j] assms(4,5,6)
  by (auto simp: snapshot_def)

definition demo_config :: "nat \<Rightarrow> AuthorityConfig" where
  "demo_config n = \<lparr>ac_enabled = True, ac_controller_id = ''c'' @ show_nat n, ac_advertise_addr = None,
     ac_etcd_prefix = ''k1s/v1'', ac_lease_ttl_seconds = 15, ac_keepalive_interval = 5000000,
     ac_standby_retry_min = 1000000, ac_standby_retry_max = 2000000, ac_follower_poll = 2000000, ac_version = ''v1''\<rparr>"

definition demo_auth_env :: auth_env where
  "demo_auth_env = \<lparr>en_now_iso = ''t'', en_uniform = (\<lambda>lo hi. lo), en_dt_from_iso = (\<lambda>j. None), en_ae_version = ''1''\<rparr>"

definition demo_turn :: "nat \<Rightarrow> time \<Rightarrow> Authority \<times> Etcd \<Rightarrow> Authority \<times> Etcd" where
  "demo_turn n now s = snd (authority_turn ref_etcd demo_auth_env (demo_config n) now s)"

text \<open>Controller 0 is elected, its leases expire unnoticed, controller 1 is elected.\<close>

definition demo_first :: "Authority \<times> Etcd" where
  "demo_first = demo_turn 0 10 (authority_init, et_init)"

definition demo_second :: "Authority \<times> Etcd" where
  "demo_second = demo_turn 1 20000010 (authority_init,
     et_expire (li_lease_id (the (au_leader_info (fst demo_first)))) (snd demo_first))"

lemma cluster_turn:
  assumes "cluster_reachable ops ok hist cf A w" and "s = snd (authority_turn ops env (cf n) now (A n, w))"
  shows "cluster_reachable ops ok hist cf (A(n := fst s)) (snd s)"
  using assms(1) by (rule cluster_reachable.turn) (simp add: assms(2) prod_eq_iff)

lemma demo_cluster:
  "cluster_reachable ref_etcd (et_ok ''k1s/v1/controlplane/leader'') (et_hist ''k1s/v1/controlplane/leader'') demo_config
     ((\<lambda>n. authority_init)(0 := fst demo_first, 1 := fst demo_second)) (snd demo_second)"
proof -
  let ?R = "cluster_reachable ref_etcd (et_ok ''k1s/v1/controlplane/leader'') (et_hist ''k1s/v1/controlplane/leader'') demo_config"
  have "?R (\<lambda>n. authority_init) et_init"
    by (rule cluster_reachable.start) (simp add: et_ok_def et_init_def)
  then have "?R ((\<lambda>n. authority_init)(0 := fst demo_first)) (snd demo_first)"
    by (rule cluster_turn) (simp only: demo_first_def demo_turn_def)
  from cluster_reachable.world [OF this et_expire_evolves]
  show ?thesis by (rule cluster_turn) (simp add: demo_second_def demo_turn_def)
qed

theorem leaders_have_distinct_epochs_witness:
  "au_is_leader (fst demo_first) \<and> au_is_leader (fst demo_second) \<and>
   snapshot_epoch (snapshot (demo_config 0) (fst demo_first)) \<noteq>
   snapshot_epoch (snapshot (demo_config 1) (fst demo_second))"
proof -
  let ?k = "''k1s/v1/controlplane/leader''"
  have l: "au_is_leader (fst demo_first)" "au_is_leader (fst demo_second)" by code_simp+
  have c: "\<And>n. leader_key (demo_config n) = ?k \<and> ac_enabled (demo_config n)"
    by (simp add: leader_key_def demo_config_def)
  have "ac_controller_id (demo_config 0) \<noteq> ac_controller_id (demo_config 1)" by code_simp
  with leaders_have_distinct_epochs [OF etcd.etcd_history_axioms c demo_cluster, of 0 1] l show ?thesis
    by (simp add: snapshot_def)
qed

definition run_turns :: "'w EtcdOps \<Rightarrow> AuthorityConfig \<Rightarrow> (auth_env \<times> time) list \<Rightarrow> Authority \<times> 'w \<Rightarrow> Authority \<times> 'w" where
  "run_turns ops c ts s = fold (\<lambda>(env, now) s. snd (authority_turn ops env c now s)) ts s"

lemma cut_off_turn:
  assumes "ac_enabled c" and "au_presence_lease a = Some p" and "lst_renew_at p \<le> now"
    and "\<And>l w. isl (fst (op_keepalive ops l w))" and "\<And>l w. isl (fst (op_grant ops l w))"
  shows "fst (snd (authority_turn ops env c now (a, w))) = a\<lparr>au_ready := True\<rparr>"
proof -
  obtain e w1 where k: "op_keepalive ops (lst_lease_id p) w = (Inl e, w1)"
    using assms(4) [of "lst_lease_id p" w] by (metis isl_def prod.collapse)
  obtain e' w2 where g: "op_grant ops (ac_lease_ttl_seconds c) w1 = (Inl e', w2)"
    using assms(5) [of "ac_lease_ttl_seconds c" w1] by (metis isl_def prod.collapse)
  show ?thesis
    using assms(1-3) k g
    by (simp add: authority_turn_def authority_run_once_def ensure_presence_def new_presence_def attempt_def ebind_def
        get_def ext_def upd_def ret_def)
qed

text \<open>
  A leader that loses etcd does not step down. The presence lease is renewed before the leader
  lease, and when etcd does not answer, that raises out of the whole turn: as long as neither a
  keepalive nor a grant succeeds, every turn after the presence lease became due leaves the
  controller leader with its old record, however much later it runs.
\<close>

theorem partitioned_leader_never_steps_down:
  assumes "ac_enabled c" and "au_is_leader a" and "au_presence_lease a = Some p"
    and "list_all (\<lambda>t. lst_renew_at p \<le> snd t) ts"
    and "\<And>l w. isl (fst (op_keepalive ops l w))" and "\<And>l w. isl (fst (op_grant ops l w))"
  shows "snapshot c (fst (run_turns ops c ts (a, w))) = snapshot c a \<and> sn_is_leader (snapshot c a)"
proof -
  have "snapshot c (fst (run_turns ops c ts (a, w))) = snapshot c a"
    using assms(3,4)
  proof (induction ts arbitrary: a w)
    case (Cons t ts)
    obtain env now where t: "t = (env, now)" by fastforce
    obtain w' where s: "snd (authority_turn ops env c now (a, w)) = (a\<lparr>au_ready := True\<rparr>, w')"
      using cut_off_turn [OF assms(1) Cons.prems(1) _ assms(5,6), of now env w] Cons.prems(2) t
      by (metis list.pred_inject(2) prod.collapse snd_conv)
    have "snapshot c (fst (run_turns ops c ts (a\<lparr>au_ready := True\<rparr>, w'))) = snapshot c (a\<lparr>au_ready := True\<rparr>)"
      using Cons.prems by (intro Cons.IH) simp_all
    with s show ?case by (simp add: run_turns_def t snapshot_def)
  qed (simp add: run_turns_def)
  then show ?thesis using assms(2) by (simp add: snapshot_def)
qed

text \<open>The elected controller 0, cut off from an etcd that is down for an hour.\<close>

theorem partitioned_leader_never_steps_down_witness:
  "sn_is_leader (snapshot (demo_config 0) (fst (run_turns
     (ref_etcd\<lparr>op_keepalive := (\<lambda>l w. (Inl (RuntimeError ''unavailable''), w)),
        op_grant := (\<lambda>l w. (Inl (RuntimeError ''unavailable''), w))\<rparr>)
     (demo_config 0) [(demo_auth_env, 5000010), (demo_auth_env, 60000010), (demo_auth_env, 3600000010)] demo_first)))"
proof -
  have l: "au_is_leader (fst demo_first)"
    "au_presence_lease (fst demo_first) = Some \<lparr>lst_lease_id = 1, lst_renew_at = 5000010\<rparr>" by code_simp+
  have "ac_enabled (demo_config 0)" by (simp add: demo_config_def)
  from partitioned_leader_never_steps_down [OF this l, where
      ops = "ref_etcd\<lparr>op_keepalive := (\<lambda>l w. (Inl (RuntimeError ''unavailable''), w)),
        op_grant := (\<lambda>l w. (Inl (RuntimeError ''unavailable''), w))\<rparr>" and w = "snd demo_first" and
      ts = "[(demo_auth_env, 5000010), (demo_auth_env, 60000010), (demo_auth_env, 3600000010)]"]
  show ?thesis by auto
qed

section \<open>The range of a prefix\<close>

lemma dropWhile_snoc: "dropWhile P (xs @ [b]) =
    (case dropWhile P xs of [] \<Rightarrow> (if P b then [] else [b]) | x # rs \<Rightarrow> x # rs @ [b])"
  by (induction xs) simp_all

lemma prefix_end_Cons:
  "prefix_end (b # bs) =
     (if \<exists>x \<in> set bs. x < 255 then b # prefix_end bs else if b < 255 then [b + 1] else [0])"
proof (cases "dropWhile (\<lambda>b. \<not> b < 255) (rev bs)")
  case Nil
  then have "\<not> (\<exists>x \<in> set bs. x < 255)" by (auto simp: dropWhile_eq_Nil_conv)
  then show ?thesis unfolding prefix_end_def rev.simps dropWhile_snoc Nil by simp
next
  case (Cons x rs)
  have "\<not> (\<forall>x \<in> set (rev bs). \<not> x < 255)"
    unfolding dropWhile_eq_Nil_conv [symmetric] Cons by simp
  then have "\<exists>x \<in> set bs. x < 255" by auto
  then show ?thesis unfolding prefix_end_def rev.simps dropWhile_snoc Cons by simp
qed

lemma full_prefix:
  assumes "\<forall>b \<in> set p. b = 255" and "\<forall>b \<in> set k. b \<le> (255 :: nat)"
  shows "p \<le> k \<longleftrightarrow> take (length p) k = p"
  using assms
proof (induction p arbitrary: k)
  case (Cons b p)
  then show ?case by (cases k) auto
qed simp

text \<open>
  The range \<^verbatim>\<open>[prefix, _prefix_end(prefix))\<close> that a listing asks etcd for contains exactly the keys that begin with
  the prefix, in the byte order of the keys, unless the prefix is empty or all bytes are 255.
\<close>

theorem prefix_end_range:
  assumes "\<exists>b \<in> set p. b < 255" and "\<forall>b \<in> set p. b \<le> 255" and "\<forall>b \<in> set k. b \<le> 255"
  shows "p \<le> k \<and> k < prefix_end p \<longleftrightarrow> take (length p) k = p"
  using assms
proof (induction p arbitrary: k)
  case (Cons b p)
  show ?case
  proof (cases "\<exists>x \<in> set p. x < 255")
    case True
    with Cons show ?thesis by (cases k) (auto simp: prefix_end_Cons)
  next
    case False
    then have p: "\<forall>x \<in> set p. x = 255" using Cons.prems(2) by fastforce
    from False Cons.prems(1) have b: "b < 255" by auto
    with False full_prefix [OF p] Cons.prems(3) show ?thesis by (cases k) (auto simp: prefix_end_Cons)
  qed
qed simp

theorem prefix_end_range_witness:
  "[107, 255] \<le> [107, 255, 3 :: nat] \<and> [107, 255, 3] < prefix_end [107, 255]"
  using prefix_end_range [of "[107, 255]" "[107, 255, 3]"] by simp

end
