(* ===== verification/Nodes.thy ===== *)
theory Nodes
  imports K1s_Prelude
begin

text \<open>
  Nodes, heartbeats, services and volume attachments in the state store
  (\<^verbatim>\<open>ae/controller/state.py\<close>): what the scheduler and the service controller read and write.

  Only \<^verbatim>\<open>upsert_node\<close> fills the label and taint columns, with the dump of a dictionary and of a list: they are
  kept decoded. The normalisation of capabilities (\<^verbatim>\<open>ae/accelerators.py\<close>) is the argument \<open>norm\<close>. Registering
  a node without saying whether it is cordoned reads the flag on one connection and writes the row
  on another: the write is a definition of its own.
\<close>

section \<open>Tables\<close>

record NodeRecord =
  nd_node_id :: string
  nd_name :: "string option"
  nd_labels :: dict
  nd_capabilities :: json
  nd_taints :: "json list"
  nd_backend :: "string option"
  nd_endpoint :: "string option"
  nd_pod_cidr :: "string option"
  nd_wg_pubkey :: "string option"
  nd_rp_pubkey :: "string option"
  nd_cordoned :: bool
  nd_created_at :: time
  nd_updated_at :: time

record NodeStatus =
  ns_node_id :: string
  ns_status :: string
  ns_seen_at :: time

record ServiceRow =
  sv_app_name :: string
  sv_cluster_ip :: string
  sv_ports :: json_col
  sv_created_at :: time

record ServiceEndpoint =
  ep_app_name :: string
  ep_port :: int
  ep_ip :: string
  ep_target_port :: int
  ep_ready :: bool

record VolumeAttachment =
  va_app_name :: string
  va_volume_name :: string
  va_node_id :: string
  va_retention :: "string option"
  va_created_at :: time

record CanaryRow =
  cn_app_name :: string
  cn_weight :: int
  cn_next_step_at :: string
  cn_step :: int
  cn_max_weight :: int
  cn_updated_at :: time

record NodeStore =
  nodes :: "NodeRecord list"
  node_heartbeats :: "NodeStatus list"
  services :: "ServiceRow list"
  service_endpoints :: "ServiceEndpoint list"
  volume_attachments :: "VolumeAttachment list"
  rollout_canary :: "CanaryRow list"

definition empty_nodes :: NodeStore where
  "empty_nodes = \<lparr>nodes = [], node_heartbeats = [], services = [], service_endpoints = [],
     volume_attachments = [], rollout_canary = []\<rparr>"

section \<open>Canary rollout state\<close>

text \<open>Weights are kept in the unit the caller uses; \<^verbatim>\<open>float\<close> does not change them.\<close>

definition get_canary_state :: "string \<Rightarrow> NodeStore \<Rightarrow> CanaryRow option" where
  "get_canary_state app_name st = find (\<lambda>r. cn_app_name r = app_name) (rollout_canary st)"

definition cn_replace :: "CanaryRow \<Rightarrow> CanaryRow \<Rightarrow> CanaryRow" where
  "cn_replace n r = n\<lparr>cn_app_name := cn_app_name r\<rparr>"

definition upsert_canary_state :: "time \<Rightarrow> string \<Rightarrow> int \<Rightarrow> string \<Rightarrow> int \<Rightarrow> int \<Rightarrow> NodeStore \<Rightarrow> NodeStore" where
  "upsert_canary_state now app_name weight next_step_at step max_weight st =
     (let n = \<lparr>cn_app_name = app_name, cn_weight = weight, cn_next_step_at = next_step_at, cn_step = step,
               cn_max_weight = max_weight, cn_updated_at = now\<rparr>
      in st\<lparr>rollout_canary := upsert cn_app_name (cn_replace n) n (rollout_canary st)\<rparr>)"

section \<open>Services\<close>

definition sv_replace :: "ServiceRow \<Rightarrow> ServiceRow \<Rightarrow> ServiceRow" where
  "sv_replace n r = r\<lparr>sv_cluster_ip := sv_cluster_ip n, sv_ports := sv_ports n\<rparr>"

definition upsert_service :: "time \<Rightarrow> string \<Rightarrow> string \<Rightarrow> dict \<Rightarrow> NodeStore \<Rightarrow> NodeStore" where
  "upsert_service now app_name cluster_ip ports st =
     (let n = \<lparr>sv_app_name = app_name, sv_cluster_ip = cluster_ip, sv_ports = JDump (JObj ports), sv_created_at = now\<rparr>
      in st\<lparr>services := upsert sv_app_name (sv_replace n) n (services st)\<rparr>)"

definition ep_key :: "ServiceEndpoint \<Rightarrow> string \<times> int \<times> string" where
  "ep_key e = (ep_app_name e, ep_port e, ep_ip e)"

text \<open>
  \<^verbatim>\<open>DELETE\<close> then \<^verbatim>\<open>executemany(INSERT)\<close> in one transaction: a duplicate key raises and the transaction is
  rolled back. The rows carry the app of the endpoint, not the argument.
\<close>

definition replace_endpoints :: "string \<Rightarrow> ServiceEndpoint list \<Rightarrow> ServiceEndpoint list \<Rightarrow> ServiceEndpoint list result" where
  "replace_endpoints app_name eps t =
     (let rest = delete_where (\<lambda>e. ep_app_name e = app_name) t
      in if distinct (map ep_key eps) \<and> list_all (\<lambda>e. \<not> exists_row (\<lambda>x. ep_key x = ep_key e) rest) eps
         then Inr (rest @ eps) else Inl IntegrityError)"

definition upsert_service_endpoints :: "string \<Rightarrow> ServiceEndpoint list \<Rightarrow> (NodeStore, unit) eff" where
  "upsert_service_endpoints app_name eps st = (case replace_endpoints app_name eps (service_endpoints st) of
     Inl e \<Rightarrow> (Inl e, st)
   | Inr t \<Rightarrow> (Inr (), st\<lparr>service_endpoints := t\<rparr>))"

definition upsert_service_snapshot ::
  "time \<Rightarrow> string \<Rightarrow> string \<Rightarrow> dict \<Rightarrow> ServiceEndpoint list \<Rightarrow> (NodeStore, unit) eff" where
  "upsert_service_snapshot now app_name cluster_ip ports eps st =
     (case replace_endpoints app_name eps (service_endpoints st) of
        Inl e \<Rightarrow> (Inl e, st)
      | Inr t \<Rightarrow> (Inr (), (upsert_service now app_name cluster_ip ports st)\<lparr>service_endpoints := t\<rparr>))"

definition delete_service :: "string \<Rightarrow> NodeStore \<Rightarrow> NodeStore" where
  "delete_service app_name st =
     st\<lparr>service_endpoints := delete_where (\<lambda>e. ep_app_name e = app_name) (service_endpoints st),
        services := delete_where (\<lambda>r. sv_app_name r = app_name) (services st)\<rparr>"

definition get_service :: "string \<Rightarrow> NodeStore \<Rightarrow> (string \<times> string \<times> json) option" where
  "get_service app_name st =
     map_option (\<lambda>r. (app_name, sv_cluster_ip r, loads_or_empty (sv_ports r)))
       (find (\<lambda>r. sv_app_name r = app_name) (services st))"

definition list_service_endpoints :: "string \<Rightarrow> NodeStore \<Rightarrow> ServiceEndpoint list" where
  "list_service_endpoints app_name st =
     sort_key ep_port (sort_key ep_ip (filter (\<lambda>e. ep_app_name e = app_name) (service_endpoints st)))"

definition list_services :: "NodeStore \<Rightarrow> (string \<times> string) list" where
  "list_services st = map (\<lambda>r. (sv_app_name r, sv_cluster_ip r)) (sort_key sv_app_name (services st))"

section \<open>Nodes and heartbeats\<close>

definition get_node_cordoned :: "string \<Rightarrow> NodeStore \<Rightarrow> bool" where
  "get_node_cordoned node_id st =
     (case find (\<lambda>r. nd_node_id r = node_id) (nodes st) of None \<Rightarrow> False | Some r \<Rightarrow> nd_cordoned r)"

definition nd_replace :: "NodeRecord \<Rightarrow> NodeRecord \<Rightarrow> NodeRecord" where
  "nd_replace n r = n\<lparr>nd_node_id := nd_node_id r, nd_created_at := nd_created_at r\<rparr>"

definition node_row :: "(json \<Rightarrow> json) \<Rightarrow> time \<Rightarrow> NodeRecord \<Rightarrow> bool \<Rightarrow> NodeRecord" where
  "node_row norm now n cordoned = n\<lparr>nd_capabilities := norm (nd_capabilities n), nd_cordoned := cordoned,
     nd_created_at := now, nd_updated_at := now\<rparr>"

definition upsert_node_write ::
  "(json \<Rightarrow> json) \<Rightarrow> time \<Rightarrow> NodeRecord \<Rightarrow> bool \<Rightarrow> NodeStore \<Rightarrow> NodeStore" where
  "upsert_node_write norm now n cordoned st =
     st\<lparr>nodes := upsert nd_node_id (nd_replace (node_row norm now n cordoned)) (node_row norm now n cordoned) (nodes st)\<rparr>"

text \<open>The keyword arguments are the fields of \<open>n\<close>; \<open>cordoned\<close> is the one that may be left out.\<close>

definition upsert_node ::
  "(json \<Rightarrow> json) \<Rightarrow> time \<Rightarrow> NodeRecord \<Rightarrow> bool option \<Rightarrow> NodeStore \<Rightarrow> NodeStore" where
  "upsert_node norm now n cordoned st =
     upsert_node_write norm now n
       (case cordoned of Some c \<Rightarrow> c | None \<Rightarrow> get_node_cordoned (nd_node_id n) st) st"

definition hb_replace :: "NodeStatus \<Rightarrow> NodeStatus \<Rightarrow> NodeStatus" where
  "hb_replace n r = n\<lparr>ns_node_id := ns_node_id r\<rparr>"

definition record_heartbeat :: "time \<Rightarrow> string \<Rightarrow> string \<Rightarrow> NodeStore \<Rightarrow> NodeStore" where
  "record_heartbeat now node_id status st =
     (let n = \<lparr>ns_node_id = node_id, ns_status = status, ns_seen_at = now\<rparr>
      in st\<lparr>node_heartbeats := upsert ns_node_id (hb_replace n) n (node_heartbeats st)\<rparr>)"

definition cordon_node :: "string \<Rightarrow> bool \<Rightarrow> NodeStore \<Rightarrow> bool \<times> NodeStore" where
  "cordon_node node_id cordoned st =
     (let p = (\<lambda>r. nd_node_id r = node_id)
      in (0 < rowcount p (nodes st), st\<lparr>nodes := update_where p (\<lambda>r. r\<lparr>nd_cordoned := cordoned\<rparr>) (nodes st)\<rparr>))"

text \<open>The \<^verbatim>\<open>LEFT JOIN\<close> with the heartbeats.\<close>

definition node_with_status :: "(json \<Rightarrow> json) \<Rightarrow> NodeStore \<Rightarrow> NodeRecord \<Rightarrow> NodeRecord \<times> NodeStatus option" where
  "node_with_status norm st r =
     (r\<lparr>nd_capabilities := norm (nd_capabilities r)\<rparr>,
      find (\<lambda>h. ns_node_id h = nd_node_id r) (node_heartbeats st))"

definition list_nodes :: "(json \<Rightarrow> json) \<Rightarrow> NodeStore \<Rightarrow> (NodeRecord \<times> NodeStatus option) list" where
  "list_nodes norm st = map (node_with_status norm st) (sort_key nd_node_id (nodes st))"

definition get_node :: "(json \<Rightarrow> json) \<Rightarrow> string \<Rightarrow> NodeStore \<Rightarrow> (NodeRecord \<times> NodeStatus option) option" where
  "get_node norm node_id st = map_option (node_with_status norm st) (find (\<lambda>r. nd_node_id r = node_id) (nodes st))"

definition get_node_capabilities :: "(json \<Rightarrow> json) \<Rightarrow> string \<Rightarrow> NodeStore \<Rightarrow> json" where
  "get_node_capabilities norm node_id st =
     (case get_node norm node_id st of None \<Rightarrow> JObj [] | Some (n, _) \<Rightarrow> norm (nd_capabilities n))"

definition list_node_capabilities :: "(json \<Rightarrow> json) \<Rightarrow> NodeStore \<Rightarrow> (string \<times> json) list" where
  "list_node_capabilities norm st =
     map (\<lambda>(n, _). (nd_node_id n, norm (nd_capabilities n))) (list_nodes norm st)"

section \<open>Volume attachments\<close>

definition va_key :: "VolumeAttachment \<Rightarrow> string \<times> string" where
  "va_key v = (va_app_name v, va_volume_name v)"

definition va_replace :: "VolumeAttachment \<Rightarrow> VolumeAttachment \<Rightarrow> VolumeAttachment" where
  "va_replace n r = n\<lparr>va_app_name := va_app_name r, va_volume_name := va_volume_name r\<rparr>"

definition upsert_volume_attachment ::
  "time \<Rightarrow> string \<Rightarrow> string \<Rightarrow> string \<Rightarrow> string option \<Rightarrow> NodeStore \<Rightarrow> NodeStore" where
  "upsert_volume_attachment now app_name volume_name node_id retention st =
     (let n = \<lparr>va_app_name = app_name, va_volume_name = volume_name, va_node_id = node_id, va_retention = retention,
               va_created_at = now\<rparr>
      in st\<lparr>volume_attachments := upsert va_key (va_replace n) n (volume_attachments st)\<rparr>)"

definition list_volume_attachments :: "string \<Rightarrow> NodeStore \<Rightarrow> VolumeAttachment list" where
  "list_volume_attachments app_name st =
     sort_key va_volume_name (filter (\<lambda>v. va_app_name v = app_name) (volume_attachments st))"

definition delete_volume_attachments :: "string \<Rightarrow> NodeStore \<Rightarrow> NodeStore" where
  "delete_volume_attachments app_name st =
     st\<lparr>volume_attachments := delete_where (\<lambda>v. va_app_name v = app_name) (volume_attachments st)\<rparr>"

section \<open>Registration and cordons\<close>

interpretation nd_upd: keyed_update nd_node_id nd_replace
  by unfold_locales (simp add: nd_replace_def)

interpretation hb_upd: keyed_update ns_node_id hb_replace
  by unfold_locales (simp add: hb_replace_def)

interpretation cn_upd: keyed_update cn_app_name cn_replace
  by unfold_locales (simp add: cn_replace_def)

interpretation sv_upd: keyed_update sv_app_name sv_replace
  by unfold_locales (simp add: sv_replace_def)

interpretation va_upd: keyed_update va_key va_replace
  by unfold_locales (simp add: va_replace_def va_key_def)

lemma get_node_upsert_write:
  "get_node norm x (upsert_node_write norm now n c st) =
     (if x = nd_node_id n
      then Some (node_with_status norm st ((node_row norm now n c)\<lparr>nd_created_at :=
          (case find (\<lambda>r. nd_node_id r = x) (nodes st) of None \<Rightarrow> now | Some r \<Rightarrow> nd_created_at r)\<rparr>))
      else get_node norm x st)"
proof -
  have k: "nd_node_id (node_row norm now n c) = nd_node_id n" by (simp add: node_row_def)
  have "find (\<lambda>r. nd_node_id r = x) (nodes (upsert_node_write norm now n c st)) =
     (if x = nd_node_id n then Some (case find (\<lambda>r. nd_node_id r = x) (nodes st) of
        None \<Rightarrow> node_row norm now n c | Some r \<Rightarrow> nd_replace (node_row norm now n c) r) else find (\<lambda>r. nd_node_id r = x) (nodes st))"
    by (simp add: upsert_node_write_def nd_upd.lookup_upsert k)
  moreover have "nd_replace (node_row norm now n c) r = (node_row norm now n c)\<lparr>nd_created_at := nd_created_at r\<rparr>"
    if "nd_node_id r = nd_node_id n" for r
    using that k by (simp add: nd_replace_def)
  moreover have "node_with_status norm (upsert_node_write norm now n c st) = node_with_status norm st"
    by (simp add: fun_eq_iff node_with_status_def upsert_node_write_def)
  moreover have "node_row norm now n c = (node_row norm now n c)\<lparr>nd_created_at := now\<rparr>" by (simp add: node_row_def)
  ultimately show ?thesis
    by (auto simp: get_node_def split: option.splits dest!: find_key_Some)
qed

text \<open>
  Registering a node: it reads back with the labels, taints and endpoint of the registration and
  its last heartbeat, keeps the time it was first seen, and when the registration does not say whether the
  node is cordoned, stays as it was.
\<close>

theorem registered_node_reads_back:
  "map_option (\<lambda>(r, h). (nd_labels r, nd_taints r, nd_endpoint r, nd_cordoned r, nd_created_at r, h))
     (get_node norm (nd_node_id n) (upsert_node norm now n c st)) =
   Some (nd_labels n, nd_taints n, nd_endpoint n,
     (case c of Some b \<Rightarrow> b | None \<Rightarrow> get_node_cordoned (nd_node_id n) st),
     (case find (\<lambda>r. nd_node_id r = nd_node_id n) (nodes st) of None \<Rightarrow> now | Some r \<Rightarrow> nd_created_at r),
     find (\<lambda>h. ns_node_id h = nd_node_id n) (node_heartbeats st))"
  by (simp add: upsert_node_def get_node_upsert_write node_with_status_def node_row_def)

text \<open>
  A node that registers again while an operator cordons it: if the flag was read before the cordon
  and the row is written after it, the cordon is gone.
\<close>

theorem interleaved_cordon_lost:
  assumes "\<not> get_node_cordoned (nd_node_id n) st"
  shows "\<not> get_node_cordoned (nd_node_id n)
    (upsert_node_write norm now n (get_node_cordoned (nd_node_id n) st) (snd (cordon_node (nd_node_id n) True st)))"
proof -
  have "nd_node_id (node_row norm now n False) = nd_node_id n" by (simp add: node_row_def)
  with assms show ?thesis
    by (simp add: get_node_cordoned_def upsert_node_write_def cordon_node_def nd_upd.lookup_upsert)
      (simp add: nd_replace_def node_row_def split: option.splits)
qed

end
