(* ===== verification/Scheduler.thy ===== *)
theory Scheduler
  imports Nodes Registry
begin

text \<open>
  The placement planner (\<^verbatim>\<open>ae/controller/scheduler.py\<close>): which node each pod of an app runs on.

  Nodes and volume attachments come from the store of \<open>Nodes\<close>. The object store of the API shim, from
  which claims, volumes and storage classes are read, is the argument \<open>Shim\<close>; \<^verbatim>\<open>None\<close> when there is none. Python
  iterates over sets in an order of its own: \<open>or_refs\<close> and \<open>or_ids\<close> are that order. The name of the
  default storage class is cached in the scheduler once it has been found.
\<close>

section \<open>Data\<close>

record Placement =
  pl_node :: "NodeRecord option"
  pl_agent_url :: "string option"
  pl_pod_names :: "string list"

record PvcMount =
  pm_claim_name :: string
  pm_namespace :: "string option"

text \<open>The fields of the manifest the planner reads.\<close>

record SchedManifest =
  sm_name :: string
  sm_namespace :: "string option"
  sm_replicas :: int
  sm_node_selector :: "(string \<times> string) list"
  sm_tolerations :: "dict list"
  sm_topology_spread :: "dict list"
  sm_has_storage :: bool
  sm_pvc_mounts :: "PvcMount list"

record ShimObject =
  so_name :: string
  so_metadata :: json
  so_spec :: json

record Shim =
  sh_get :: "string \<Rightarrow> string \<Rightarrow> string option \<Rightarrow> string \<Rightarrow> ShimObject option"
  sh_list_all :: "string \<Rightarrow> string \<Rightarrow> ShimObject list option"

record SetOrder =
  or_refs :: "(string \<times> string) list \<Rightarrow> (string \<times> string) list"
  or_ids :: "string list \<Rightarrow> string list"

text \<open>\<^verbatim>\<open>a == b\<close>: booleans are the numbers 0 and 1.\<close>

fun py_num :: "json \<Rightarrow> int option" where
  "py_num (JInt i) = Some i"
| "py_num (JBool b) = Some (if b then 1 else 0)"
| "py_num _ = None"

definition py_eq :: "json \<Rightarrow> json \<Rightarrow> bool" where
  "py_eq a b = (case (py_num a, py_num b) of (Some x, Some y) \<Rightarrow> x = y | _ \<Rightarrow> a = b)"

section \<open>Eligible nodes\<close>

definition is_ready :: "NodeStatus option \<Rightarrow> time \<Rightarrow> int \<Rightarrow> bool" where
  "is_ready status now grace = (case status of
     None \<Rightarrow> False
   | Some s \<Rightarrow> if now - ns_seen_at s > grace * 1000000 then False else lower (ns_status s) = ''ready'')"

definition matches_node_selector :: "NodeRecord \<Rightarrow> SchedManifest \<Rightarrow> bool" where
  "matches_node_selector n m = list_all (\<lambda>(k, v). dict_get (nd_labels n) k = JStr v) (sm_node_selector m)"

definition toleration_matches :: "json \<Rightarrow> json \<Rightarrow> json \<Rightarrow> dict \<Rightarrow> bool" where
  "toleration_matches key effect value tol =
     (py_eq (dict_get tol ''key'') key \<and>
      \<not> (truthy (dict_get tol ''effect'') \<and> \<not> py_eq (dict_get tol ''effect'') effect) \<and>
      (dict_get tol ''value'' = JNull \<or> dict_get tol ''value'' = JStr [] \<or> py_eq (dict_get tol ''value'') value))"

definition tolerates_taint :: "dict list \<Rightarrow> json \<Rightarrow> bool" where
  "tolerates_taint tolerations t = (case as_dict t of
     None \<Rightarrow> True
   | Some d \<Rightarrow>
       let effect = dict_get d ''effect''
       in list_ex (toleration_matches (dict_get d ''key'') effect (dict_get d ''value'')) tolerations \<or>
          effect \<notin> {JStr ''NoSchedule'', JStr ''NoExecute''})"

definition tolerates_taints :: "NodeRecord \<Rightarrow> SchedManifest \<Rightarrow> bool" where
  "tolerates_taints n m = list_all (tolerates_taint (sm_tolerations m)) (nd_taints n)"

definition node_eligible :: "SchedManifest \<Rightarrow> time \<Rightarrow> int \<Rightarrow> NodeRecord \<times> NodeStatus option \<Rightarrow> bool" where
  "node_eligible m now grace ns = (case ns of (n, status) \<Rightarrow>
     \<not> nd_cordoned n \<and> is_ready status now grace \<and> matches_node_selector n m \<and> tolerates_taints n m)"

definition stale_node_ids :: "time \<Rightarrow> int \<Rightarrow> (NodeRecord \<times> NodeStatus option) list \<Rightarrow> string list" where
  "stale_node_ids now grace ns =
     map (\<lambda>(n, s). nd_node_id n) (filter (\<lambda>(n, s). \<not> nd_cordoned n \<and> \<not> is_ready s now grace) ns)"

definition not_ready_grace_seconds :: "string option \<Rightarrow> int" where
  "not_ready_grace_seconds env = (case nonempty env of None \<Rightarrow> 40
     | Some s \<Rightarrow> (case parse_int s of None \<Rightarrow> 40 | Some i \<Rightarrow> i))"

section \<open>Claims, volumes and storage classes\<close>

definition pvc_mount_refs :: "SetOrder \<Rightarrow> SchedManifest \<Rightarrow> (string \<times> string) list" where
  "pvc_mount_refs ord m =
     (let namespace = (case nonempty (sm_namespace m) of Some n \<Rightarrow> n | None \<Rightarrow> ''default'')
      in or_refs ord (remdups (map (\<lambda>pm. (pm_claim_name pm,
           case nonempty (pm_namespace pm) of Some n \<Rightarrow> n | None \<Rightarrow> namespace)) (sm_pvc_mounts m))))"

definition spec_of :: "ShimObject \<Rightarrow> dict" where
  "spec_of obj = (case as_dict (so_spec obj) of Some d \<Rightarrow> d | None \<Rightarrow> [])"

definition str_if_truthy :: "json \<Rightarrow> string option" where
  "str_if_truthy j = (if truthy j then Some (py_str j) else None)"

definition pvc_storage_class_name :: "ShimObject \<Rightarrow> string option" where
  "pvc_storage_class_name pvc = str_if_truthy (dict_get (spec_of pvc) ''storageClassName'')"

definition pvc_volume_name :: "ShimObject \<Rightarrow> string option" where
  "pvc_volume_name pvc = str_if_truthy (dict_get (spec_of pvc) ''volumeName'')"

definition annotations_of :: "ShimObject \<Rightarrow> dict option" where
  "annotations_of obj = (case as_dict (so_metadata obj) of None \<Rightarrow> Some []
     | Some d \<Rightarrow> as_dict (dict_get d ''annotations''))"

definition pvc_selected_node :: "ShimObject \<Rightarrow> string option" where
  "pvc_selected_node pvc = (case annotations_of pvc of None \<Rightarrow> None
     | Some a \<Rightarrow> str_if_truthy (dict_get a ''volume.kubernetes.io/selected-node''))"

definition access_modes :: "ShimObject \<Rightarrow> string list" where
  "access_modes obj = (case dict_get (spec_of obj) ''accessModes'' of
     JArr xs \<Rightarrow> map py_str (filter truthy xs) | _ \<Rightarrow> [])"

definition is_single_writer :: "dict \<Rightarrow> bool" where
  "is_single_writer spec = (case dict_get spec ''accessModes'' of
     JArr xs \<Rightarrow> JStr ''ReadWriteMany'' \<notin> set xs \<and> JStr ''ReadOnlyMany'' \<notin> set xs
   | JObj kvs \<Rightarrow> ''ReadWriteMany'' \<notin> fst ` set kvs \<and> ''ReadOnlyMany'' \<notin> fst ` set kvs
   | _ \<Rightarrow> True)"

definition class_is_default :: "ShimObject \<Rightarrow> bool" where
  "class_is_default sc = (case annotations_of sc of None \<Rightarrow> False
     | Some a \<Rightarrow> list_ex (\<lambda>k. dict_get a k \<noteq> JNull \<and> lower (py_str (dict_get a k)) \<in> {''true'', ''1'', ''yes''})
         [''storageclass.kubernetes.io/is-default-class'', ''storageclass.beta.kubernetes.io/is-default-class''])"

text \<open>With the cache before and after.\<close>

definition default_storage_class_name :: "Shim option \<Rightarrow> string option \<Rightarrow> string option \<times> string option" where
  "default_storage_class_name shim cache = (case nonempty cache of
     Some n \<Rightarrow> (Some n, cache)
   | None \<Rightarrow> (case shim of
       None \<Rightarrow> (None, cache)
     | Some sh \<Rightarrow> (case sh_list_all sh ''storage.k8s.io'' ''storageclasses'' of
         None \<Rightarrow> (None, cache)
       | Some classes \<Rightarrow> (case find class_is_default classes of
           Some sc \<Rightarrow> (Some (so_name sc), Some (so_name sc))
         | None \<Rightarrow> (case classes of
             [] \<Rightarrow> (None, cache)
           | sc # _ \<Rightarrow> (Some (so_name sc), Some (so_name sc)))))))"

definition class_name_of :: "Shim \<Rightarrow> ShimObject \<Rightarrow> string option \<Rightarrow> string option \<times> string option" where
  "class_name_of sh pvc cache = (case nonempty (pvc_storage_class_name pvc) of
     Some n \<Rightarrow> (Some n, cache)
   | None \<Rightarrow> (case default_storage_class_name (Some sh) cache of (n, c) \<Rightarrow> (nonempty n, c)))"

definition get_pvc :: "Shim \<Rightarrow> string \<times> string \<Rightarrow> ShimObject option" where
  "get_pvc sh r = sh_get sh [] ''persistentvolumeclaims'' (Some (snd r)) (fst r)"

definition get_pv :: "Shim \<Rightarrow> string \<Rightarrow> ShimObject option" where
  "get_pv sh n = sh_get sh [] ''persistentvolumes'' None n"

definition get_class :: "Shim \<Rightarrow> string \<Rightarrow> ShimObject option" where
  "get_class sh n = sh_get sh ''storage.k8s.io'' ''storageclasses'' None n"

definition pvc_modes :: "Shim \<Rightarrow> ShimObject \<Rightarrow> string list" where
  "pvc_modes sh pvc = access_modes pvc @
     (case Option.bind (pvc_volume_name pvc) (get_pv sh) of None \<Rightarrow> [] | Some pv \<Rightarrow> access_modes pv)"

definition rwop_claims :: "Shim option \<Rightarrow> SetOrder \<Rightarrow> SchedManifest \<Rightarrow> string list" where
  "rwop_claims shim ord m = (case shim of
     None \<Rightarrow> []
   | Some sh \<Rightarrow> sort (remdups (List.map_filter (\<lambda>r. case get_pvc sh r of
         None \<Rightarrow> None
       | Some pvc \<Rightarrow> if ''ReadWriteOncePod'' \<in> set (pvc_modes sh pvc)
           then Some (snd r @ ''/'' @ fst r) else None) (pvc_mount_refs ord m))))"

text \<open>Whether a claim forces all pods onto one node.\<close>

definition class_needs_pinning :: "Shim \<Rightarrow> string option \<Rightarrow> bool" where
  "class_needs_pinning sh sc_name = (case Option.bind sc_name (get_class sh) of
     None \<Rightarrow> False
   | Some sc \<Rightarrow> py_str (py_or (dict_get (spec_of sc) ''provisioner'') (JStr [])) = ''k1s.io/local-path'' \<and>
       py_str (py_or (dict_get (spec_of sc) ''volumeBindingMode'') (JStr [])) = ''WaitForFirstConsumer'')"

definition volume_needs_pinning :: "Shim \<Rightarrow> ShimObject \<Rightarrow> bool" where
  "volume_needs_pinning sh pvc = (case Option.bind (pvc_volume_name pvc) (get_pv sh) of
     None \<Rightarrow> False
   | Some pv \<Rightarrow> as_dict (dict_get (spec_of pv) ''csi'') \<noteq> None \<and> is_single_writer (spec_of pv))"

fun pinned_claims :: "Shim \<Rightarrow> (string \<times> string) list \<Rightarrow> string option \<Rightarrow> ShimObject list \<times> string option" where
  "pinned_claims sh [] cache = ([], cache)"
| "pinned_claims sh (r # rs) cache = (case get_pvc sh r of
     None \<Rightarrow> pinned_claims sh rs cache
   | Some pvc \<Rightarrow> (case class_name_of sh pvc cache of (n, c1) \<Rightarrow>
       (case pinned_claims sh rs c1 of (ps, c2) \<Rightarrow>
         (if class_needs_pinning sh n \<or> volume_needs_pinning sh pvc then pvc # ps else ps, c2))))"

definition local_path_pinning ::
  "Shim option \<Rightarrow> SetOrder \<Rightarrow> SchedManifest \<Rightarrow> string option \<Rightarrow> (bool \<times> string option \<times> string list) \<times> string option" where
  "local_path_pinning shim ord m cache = (case shim of
     None \<Rightarrow> ((False, None, []), cache)
   | Some sh \<Rightarrow>
       if sm_pvc_mounts m = [] then ((False, None, []), cache)
       else case pinned_claims sh (pvc_mount_refs ord m) cache of (ps, c) \<Rightarrow>
         (if ps = [] then (False, None, [])
          else let selected = or_ids ord (remdups (List.map_filter pvc_selected_node ps))
               in (True, (case selected of [] \<Rightarrow> None | n # _ \<Rightarrow> Some n),
                   if 1 < length selected
                   then [''single-writer PVCs reference multiple selected nodes; scheduling may be unstable''] else []),
          c))"

section \<open>Storage topology\<close>

definition match_topology_expr :: "dict \<Rightarrow> json \<Rightarrow> bool" where
  "match_topology_expr labels expr = (case as_dict expr of
     None \<Rightarrow> False
   | Some d \<Rightarrow>
       let key = dict_get d ''key''; node_val = dict_get labels (py_str key)
       in truthy key \<and> node_val \<noteq> JNull \<and>
          (case dict_get d ''values'' of
             JArr (v # vs) \<Rightarrow> py_str node_val \<in> set (map py_str (v # vs))
           | _ \<Rightarrow> True))"

definition topology_term_matches :: "dict \<Rightarrow> json \<Rightarrow> bool" where
  "topology_term_matches labels term = (case as_dict term of
     None \<Rightarrow> False
   | Some d \<Rightarrow> (case dict_get d ''matchLabelExpressions'' of
       JArr (e # es) \<Rightarrow> list_all (match_topology_expr labels) (e # es)
     | _ \<Rightarrow> False))"

definition node_matches_allowed_topologies :: "json \<Rightarrow> NodeRecord \<Rightarrow> bool" where
  "node_matches_allowed_topologies allowed n = (case allowed of
     JArr terms \<Rightarrow> nd_labels n \<noteq> [] \<and> list_ex (topology_term_matches (nd_labels n)) terms
   | _ \<Rightarrow> True)"

definition node_has_label_keys :: "string list \<Rightarrow> NodeRecord \<Rightarrow> bool" where
  "node_has_label_keys keys n = (nd_labels n \<noteq> [] \<and> list_all (\<lambda>k. map_of (nd_labels n) k \<noteq> None) keys)"

definition topology_keys :: "dict \<Rightarrow> string list" where
  "topology_keys sc_spec = (case dict_get sc_spec ''topologyKeys'' of
     JArr ks \<Rightarrow> map py_str (filter truthy ks) | _ \<Rightarrow> [])"

fun collect_classes ::
  "Shim \<Rightarrow> (string \<times> string) list \<Rightarrow> (string \<times> ShimObject) list \<Rightarrow> string option
   \<Rightarrow> (string \<times> ShimObject) list \<times> string option" where
  "collect_classes sh [] scs cache = (scs, cache)"
| "collect_classes sh (r # rs) scs cache = (case get_pvc sh r of
     None \<Rightarrow> collect_classes sh rs scs cache
   | Some pvc \<Rightarrow> (case class_name_of sh pvc cache of (n, c1) \<Rightarrow>
       (case n of
          None \<Rightarrow> collect_classes sh rs scs c1
        | Some name \<Rightarrow>
            if map_of scs name \<noteq> None then collect_classes sh rs scs c1
            else (case get_class sh name of
              None \<Rightarrow> collect_classes sh rs scs c1
            | Some sc \<Rightarrow> collect_classes sh rs (scs @ [(name, sc)]) c1))))"

text \<open>
  The loop over the classes: the node ids each \<^verbatim>\<open>allowedTopologies\<close> and each \<^verbatim>\<open>topologyKeys\<close> leaves, or the warning of
  the first that leaves none.
\<close>

type_synonym named_ids = "(string \<times> string list) list"

fun class_constraints ::
  "NodeRecord list \<Rightarrow> (string \<times> ShimObject) list \<Rightarrow> named_ids \<Rightarrow> named_ids \<Rightarrow> string + named_ids \<times> named_ids" where
  "class_constraints ns [] cons topo = Inr (cons, topo)"
| "class_constraints ns ((name, sc) # scs) cons topo =
     (let spec = spec_of sc; allowed = dict_get spec ''allowedTopologies''; keys = topology_keys spec;
          a_ids = map nd_node_id (filter (node_matches_allowed_topologies allowed) ns);
          t_ids = map nd_node_id (filter (node_has_label_keys keys) ns)
      in if truthy allowed \<and> a_ids = []
         then Inl (''storage class '' @ name @ '' allowedTopologies matches no eligible nodes'')
         else if keys \<noteq> [] \<and> t_ids = []
         then Inl (''storage class '' @ name @ '' topologyKeys matches no eligible nodes'')
         else class_constraints ns scs
                (if truthy allowed then cons @ [(name, a_ids)] else cons)
                (if keys \<noteq> [] then topo @ [(name, t_ids)] else topo))"

definition filter_nodes_by_storage_topology ::
  "Shim option \<Rightarrow> SetOrder \<Rightarrow> SchedManifest \<Rightarrow> NodeRecord list \<Rightarrow> string option
   \<Rightarrow> (NodeRecord list \<times> string list \<times> bool) \<times> string option" where
  "filter_nodes_by_storage_topology shim ord m ns cache = (case shim of
     None \<Rightarrow> ((ns, [], False), cache)
   | Some sh \<Rightarrow>
       if ns = [] \<or> pvc_mount_refs ord m = [] then ((ns, [], False), cache)
       else case collect_classes sh (pvc_mount_refs ord m) [] cache of (scs, c) \<Rightarrow>
         (if scs = [] then (ns, [], False)
          else case class_constraints ns scs [] [] of
            Inl w \<Rightarrow> ([], [w], True)
          | Inr (cons, topo) \<Rightarrow>
              if cons = [] \<and> topo = [] then (ns, [], False)
              else
                let ok = (\<lambda>n. list_all (\<lambda>(_, ids). nd_node_id n \<in> set ids) (cons @ topo));
                    filtered = filter ok ns
                in if filtered = []
                   then ([], [''storage topology constraints intersect to zero eligible nodes''], True)
                   else (filtered,
                     (if length filtered < length ns
                      then (if cons \<noteq> [] then [''filtered eligible nodes by storage allowedTopologies for classes: '' @
                                join '', '' (sort (map fst cons))] else []) @
                           (if topo \<noteq> [] then [''filtered eligible nodes by storage topologyKeys for classes: '' @
                                join '', '' (sort (map fst topo))] else [])
                      else []), True),
          c))"

section \<open>Spreading\<close>

definition topology_key :: "SchedManifest \<Rightarrow> json option" where
  "topology_key m = find truthy (map (\<lambda>c. dict_get c ''topologyKey'') (sm_topology_spread m))"

text \<open>\<^verbatim>\<open>assignments\<close> as the pairs of node id and pod in the order they were made.\<close>

type_synonym assignments = "(string \<times> string) list"

definition assigned :: "assignments \<Rightarrow> string \<Rightarrow> string list" where
  "assigned as nid = map snd (filter (\<lambda>a. fst a = nid) as)"

definition placements_of :: "NodeRecord list \<Rightarrow> assignments \<Rightarrow> Placement list" where
  "placements_of ns as = List.map_filter (\<lambda>n. let ids = assigned as (nd_node_id n)
     in if ids \<noteq> [] then Some \<lparr>pl_node = Some n, pl_agent_url = nd_endpoint n, pl_pod_names = ids\<rparr> else None) ns"

fun add_to_bucket :: "string \<Rightarrow> NodeRecord \<Rightarrow> (string \<times> NodeRecord list) list \<Rightarrow> (string \<times> NodeRecord list) list" where
  "add_to_bucket v n [] = [(v, [n])]"
| "add_to_bucket v n ((w, ns) # bs) = (if v = w then (w, ns @ [n]) # bs else (w, ns) # add_to_bucket v n bs)"

definition nodes_by_value :: "string \<Rightarrow> NodeRecord list \<Rightarrow> (string \<times> NodeRecord list) list" where
  "nodes_by_value key ns = fold (\<lambda>n bs. let v = dict_get (nd_labels n) key
     in if v = JNull then bs else add_to_bucket (py_str v) n bs) ns []"

text \<open>\<^verbatim>\<open>sorted(counts.items(), key=lambda kv: (kv[1], kv[0]))[0][0]\<close>; the number of pods of a value is also its node index.\<close>

definition least_loaded :: "(string \<times> nat) list \<Rightarrow> string" where
  "least_loaded counts = fst (hd (sort_key snd (sort_key fst counts)))"

fun spread_pods ::
  "(string \<times> NodeRecord list) list \<Rightarrow> string list \<Rightarrow> (string \<times> nat) list \<Rightarrow> assignments" where
  "spread_pods buckets [] counts = []"
| "spread_pods buckets (p # ps) counts =
     (let v = least_loaded counts; bucket = the (map_of buckets v); c = the (map_of counts v)
      in (nd_node_id (bucket ! (c mod length bucket)), p) #
         spread_pods buckets ps (map (\<lambda>(w, k). (w, if w = v then k + 1 else k)) counts))"

definition spread_by_topology :: "NodeRecord list \<Rightarrow> string list \<Rightarrow> string \<Rightarrow> Placement list" where
  "spread_by_topology ns pods key =
     (let buckets = nodes_by_value key ns
      in if length buckets \<le> 1 then []
         else placements_of ns (spread_pods buckets pods (map (\<lambda>b. (fst b, 0)) buckets)))"

definition round_robin :: "NodeRecord list \<Rightarrow> string list \<Rightarrow> assignments" where
  "round_robin ns pods = map (\<lambda>i. (nd_node_id (ns ! (i mod length ns)), pods ! i)) [0..<length pods]"

section \<open>The plan\<close>

definition pod_name :: "string \<Rightarrow> int \<Rightarrow> nat \<Rightarrow> string" where
  "pod_name app_name revision i = app_name @ ''-rev'' @ show_int revision @ ''-'' @ show_nat i"

definition stale_warning :: "string list \<Rightarrow> string list" where
  "stale_warning stale = (if stale = [] then [] else [''stale/not-ready nodes skipped: '' @ join '', '' stale])"

definition one_node :: "NodeRecord \<Rightarrow> string list \<Rightarrow> Placement list" where
  "one_node n pods = [\<lparr>pl_node = Some n, pl_agent_url = nd_endpoint n, pl_pod_names = pods\<rparr>]"

definition local_runtime :: "string list \<Rightarrow> Placement list" where
  "local_runtime pods = [\<lparr>pl_node = None, pl_agent_url = None, pl_pod_names = pods\<rparr>]"

text \<open>The end of \<^verbatim>\<open>plan\<close>, when no storage pins the app: spread over a topology key, or round robin.\<close>

definition plan_unpinned :: "SchedManifest \<Rightarrow> NodeRecord list \<Rightarrow> string list \<Rightarrow> Placement list" where
  "plan_unpinned m eligible pods =
     (let spread = (case topology_key m of
            Some (JStr k) \<Rightarrow> if 1 < length eligible then spread_by_topology eligible pods k else []
          | _ \<Rightarrow> [])
      in if spread \<noteq> [] then spread
         else let ps = placements_of eligible (round_robin eligible pods)
              in if ps \<noteq> [] then ps else local_runtime pods)"

text \<open>The middle of \<^verbatim>\<open>plan\<close>: \<open>bound\<close> is the node the volumes are bound to.\<close>

definition plan_pinned ::
  "NodeRecord list \<Rightarrow> string list \<Rightarrow> string option \<Rightarrow> bool \<Rightarrow> Placement list \<times> string list" where
  "plan_pinned eligible pods bound local_pinning = (case nonempty bound of
     Some b \<Rightarrow> (case find (\<lambda>n. nd_node_id n = b) eligible of
         Some n \<Rightarrow> (one_node n pods, [])
       | None \<Rightarrow> ([], [''storage volumes bound to node '' @ b @
           '' but node is not eligible (cordoned/not ready); skipping placement'']))
   | None \<Rightarrow>
       let target = hd eligible
       in (one_node target pods,
           if local_pinning \<and> 1 < length eligible
           then [''single-writer PVCs pending; pinning to node '' @ nd_node_id target @ '' until selected-node is set'']
           else []))"

definition bound_attachment :: "NodeStore \<Rightarrow> string \<Rightarrow> bool \<Rightarrow> string option" where
  "bound_attachment st app_name has_storage = (if \<not> has_storage then None
     else (case list_volume_attachments app_name st of [] \<Rightarrow> None | a # _ \<Rightarrow> Some (va_node_id a)))"

definition plan_eligible ::
  "NodeStore \<Rightarrow> Shim option \<Rightarrow> SetOrder \<Rightarrow> SchedManifest \<Rightarrow> string list \<Rightarrow> NodeRecord list \<Rightarrow> string option
   \<Rightarrow> (Placement list \<times> string list) \<times> string option" where
  "plan_eligible st shim ord m pods eligible cache =
     (let app_name = app_key (sm_name m) (sm_namespace m);
          attached = bound_attachment st app_name (sm_has_storage m)
      in case local_path_pinning shim ord m cache of ((local_pinning, local_node, w1), c) \<Rightarrow>
         let w2 = (case (nonempty attached, nonempty local_node) of
                     (Some a, Some b) \<Rightarrow> if a \<noteq> b
                       then [''storage attachments and single-writer PVCs disagree on bound node; using '' @ a] else []
                   | _ \<Rightarrow> []);
             bound = coalesce attached local_node
         in (if sm_has_storage m \<or> local_pinning
             then (case plan_pinned eligible pods bound local_pinning of (ps, w3) \<Rightarrow> (ps, w1 @ w2 @ w3))
             else (plan_unpinned m eligible pods, w1 @ w2), c))"

definition desired_pods :: "Shim option \<Rightarrow> SetOrder \<Rightarrow> SchedManifest \<Rightarrow> int \<times> string list" where
  "desired_pods shim ord m =
     (let claims = rwop_claims shim ord m
      in if claims \<noteq> [] \<and> 1 < sm_replicas m
         then (1, [''ReadWriteOncePod PVCs limit replicas to 1; claims: '' @ join '', '' claims])
         else (sm_replicas m, []))"

definition plan ::
  "(json \<Rightarrow> json) \<Rightarrow> NodeStore \<Rightarrow> Shim option \<Rightarrow> SetOrder \<Rightarrow> time \<Rightarrow> string option \<Rightarrow> SchedManifest \<Rightarrow> int
   \<Rightarrow> string option \<Rightarrow> (Placement list \<times> string list) \<times> string option" where
  "plan norm st shim ord now grace_env m revision cache =
     (case desired_pods shim ord m of (desired, w0) \<Rightarrow>
      let app_name = app_key (sm_name m) (sm_namespace m);
          pods = map (pod_name app_name revision) [0..<nat desired];
          ns = list_nodes norm st; grace = not_ready_grace_seconds grace_env
      in if ns = []
         then ((local_runtime pods, w0 @ [''no nodes registered; scheduling on local runtime'']), cache)
         else
           let eligible = map fst (filter (node_eligible m now grace) ns);
               stale = stale_node_ids now grace ns
           in case filter_nodes_by_storage_topology shim ord m eligible cache of ((topo, w1, applied), c1) \<Rightarrow>
              let eligible' = (if applied then topo else eligible)
              in if eligible' = []
                 then (([], w0 @ w1 @ [''no eligible nodes after storage constraints; skipping placement''] @
                        stale_warning stale), c1)
                 else (case plan_eligible st shim ord m pods eligible' c1 of ((ps, w2), c2) \<Rightarrow>
                        ((ps, w0 @ w1 @ w2 @ stale_warning stale), c2)))"

section \<open>Every pod once\<close>

definition planned_pods :: "Shim option \<Rightarrow> SetOrder \<Rightarrow> SchedManifest \<Rightarrow> int \<Rightarrow> string list" where
  "planned_pods shim ord m revision =
     map (pod_name (app_key (sm_name m) (sm_namespace m)) revision) [0..<nat (fst (desired_pods shim ord m))]"

lemma distinct_planned_pods: "distinct (planned_pods shim ord m revision)"
  unfolding planned_pods_def distinct_map
  by (auto simp: inj_on_def pod_name_def show_nat_inj)

text \<open>What an assignment must satisfy so that the placements made of it hold every pod once.\<close>

definition assigns :: "NodeRecord list \<Rightarrow> string list \<Rightarrow> assignments \<Rightarrow> bool" where
  "assigns ns pods as = (map snd as = pods \<and> fst ` set as \<subseteq> nd_node_id ` set ns)"

definition holds_pods :: "string list \<Rightarrow> Placement list \<Rightarrow> bool" where
  "holds_pods pods ps = (distinct (concat (map pl_pod_names ps)) \<and> set (concat (map pl_pod_names ps)) = set pods)"

lemma set_assigned: "set (assigned as i) = {p. (i, p) \<in> set as}"
  by (force simp: assigned_def)

lemma distinct_assigned: "distinct (map snd as) \<Longrightarrow> distinct (assigned as i)"
  by (auto simp: assigned_def distinct_map inj_on_def)

lemma assigned_disjoint:
  assumes "distinct (map snd as)" and "i \<noteq> j"
  shows "set (assigned as i) \<inter> set (assigned as j) = {}"
proof -
  have "inj_on snd (set as)" using assms(1) by (simp add: distinct_map)
  then have "False" if "(i, p) \<in> set as" "(j, p) \<in> set as" for p
    using inj_onD [of snd "set as" "(i, p)" "(j, p)"] that assms(2) by simp
  then show ?thesis unfolding set_assigned by blast
qed

lemma placements_of_Cons:
  "concat (map pl_pod_names (placements_of (n # ns) as)) =
     assigned as (nd_node_id n) @ concat (map pl_pod_names (placements_of ns as))"
  by (simp add: placements_of_def List.map_filter_def Let_def)

lemma placements_of_pods:
  "set (concat (map pl_pod_names (placements_of ns as))) = {p. \<exists>n \<in> set ns. (nd_node_id n, p) \<in> set as}"
proof (induction ns)
  case Nil
  show ?case by (simp add: placements_of_def List.map_filter_def)
next
  case (Cons n ns)
  then show ?case unfolding placements_of_Cons by (auto simp: set_assigned)
qed

lemma distinct_placements_of:
  assumes "distinct (map snd as)" and "distinct (map nd_node_id ns)"
  shows "distinct (concat (map pl_pod_names (placements_of ns as)))"
  using assms(2)
proof (induction ns)
  case Nil
  show ?case by (simp add: placements_of_def List.map_filter_def)
next
  case (Cons n ns)
  have "set (assigned as (nd_node_id n)) \<inter> set (concat (map pl_pod_names (placements_of ns as))) = {}"
  proof -
    have "nd_node_id n \<noteq> nd_node_id k" if "k \<in> set ns" for k using Cons.prems that by force
    then show ?thesis
      using assigned_disjoint [OF assms(1), of "nd_node_id n"]
      unfolding placements_of_pods set_assigned by blast
  qed
  with Cons show ?case unfolding placements_of_Cons by (simp add: distinct_assigned [OF assms(1)])
qed

lemma placements_hold_pods:
  assumes "assigns ns pods as" and "distinct pods" and "distinct (map nd_node_id ns)"
  shows "holds_pods pods (placements_of ns as)"
proof -
  have "distinct (map snd as)" using assms(1,2) by (simp add: assigns_def)
  moreover have "{p. \<exists>n \<in> set ns. (nd_node_id n, p) \<in> set as} = set pods"
  proof -
    have "{p. \<exists>n \<in> set ns. (nd_node_id n, p) \<in> set as} = snd ` set as"
      using assms(1) unfolding assigns_def by force
    then show ?thesis using assms(1) unfolding assigns_def by (metis set_map)
  qed
  ultimately show ?thesis
    using distinct_placements_of [OF _ assms(3)] unfolding holds_pods_def placements_of_pods by blast
qed

lemma placement_of_node:
  "p \<in> set (placements_of ns as) \<Longrightarrow> \<exists>n \<in> set ns. pl_node p = Some n \<and> pl_agent_url p = nd_endpoint n"
  by (auto simp: placements_of_def List.map_filter_def Let_def split: if_splits)

lemma round_robin_assigns:
  assumes "ns \<noteq> []"
  shows "assigns ns pods (round_robin ns pods)"
proof -
  have "map snd (round_robin ns pods) = pods" by (simp add: round_robin_def o_def map_nth)
  moreover have "fst ` set (round_robin ns pods) \<subseteq> nd_node_id ` set ns" using assms by (auto simp: round_robin_def)
  ultimately show ?thesis by (simp add: assigns_def)
qed

section \<open>Spreading over a topology key\<close>

text \<open>Buckets: one per label value, non-empty, of nodes with that value.\<close>

definition buckets_ok :: "string \<Rightarrow> NodeRecord list \<Rightarrow> (string \<times> NodeRecord list) list \<Rightarrow> bool" where
  "buckets_ok key ns bs = (distinct (map fst bs) \<and> (\<forall>b \<in> set bs. snd b \<noteq> [] \<and>
     (\<forall>n \<in> set (snd b). n \<in> set ns \<and> dict_get (nd_labels n) key \<noteq> JNull \<and> py_str (dict_get (nd_labels n) key) = fst b)))"

lemma add_to_bucket_keys: "fst ` set (add_to_bucket v n bs) = insert v (fst ` set bs)"
  by (induction v n bs rule: add_to_bucket.induct) auto

lemma buckets_ok_Cons:
  "buckets_ok key ns (b # bs) \<longleftrightarrow> fst b \<notin> fst ` set bs \<and> snd b \<noteq> [] \<and>
     (\<forall>n \<in> set (snd b). n \<in> set ns \<and> dict_get (nd_labels n) key \<noteq> JNull \<and> py_str (dict_get (nd_labels n) key) = fst b) \<and>
     buckets_ok key ns bs"
  unfolding buckets_ok_def by auto

lemma add_to_bucket_ok:
  assumes "n \<in> set ns" and "dict_get (nd_labels n) key \<noteq> JNull" and "v = py_str (dict_get (nd_labels n) key)"
    and "buckets_ok key ns bs"
  shows "buckets_ok key ns (add_to_bucket v n bs)"
  using assms(4)
proof (induction bs)
  case Nil
  with assms(1-3) show ?case by (simp add: buckets_ok_def)
next
  case (Cons b bs)
  obtain w xs where b: "b = (w, xs)" by (cases b)
  show ?case
  proof (cases "v = w")
    case True
    with Cons.prems assms(1-3) b show ?thesis by (auto simp: buckets_ok_Cons)
  next
    case False
    with Cons b show ?thesis by (simp add: buckets_ok_Cons add_to_bucket_keys)
  qed
qed

lemma nodes_by_value_ok: "buckets_ok key ns (nodes_by_value key ns)"
proof -
  have "buckets_ok key ns bs \<Longrightarrow> set xs \<subseteq> set ns \<Longrightarrow> buckets_ok key ns (fold (\<lambda>n bs. let v = dict_get (nd_labels n) key
     in if v = JNull then bs else add_to_bucket (py_str v) n bs) xs bs)" for xs bs
  proof (induction xs arbitrary: bs)
    case (Cons x xs)
    then show ?case using add_to_bucket_ok [of x ns key] by (simp add: Let_def)
  qed simp
  from this [of "[]" ns] show ?thesis by (simp add: nodes_by_value_def buckets_ok_def)
qed

lemma hd_sort_key_least:
  fixes f :: "'a \<Rightarrow> nat"
  assumes "xs \<noteq> []"
  shows "hd (sort_key f xs) \<in> set xs" "y \<in> set xs \<Longrightarrow> f (hd (sort_key f xs)) \<le> f y"
proof -
  have "set (sort_key f xs) = set xs" by simp
  with assms obtain z zs where z: "sort_key f xs = z # zs" by (cases "sort_key f xs") auto
  then show "hd (sort_key f xs) \<in> set xs" using \<open>set (sort_key f xs) = set xs\<close> by auto
  have "sorted (map f (z # zs))" using sorted_sort_key [of f xs] z by simp
  then show "f (hd (sort_key f xs)) \<le> f y" if "y \<in> set xs" for y
    using that \<open>set (sort_key f xs) = set xs\<close> z by auto
qed

lemma least_loaded_least:
  assumes "counts \<noteq> []"
  shows "\<exists>c. (least_loaded counts, c) \<in> set counts \<and> (\<forall>y \<in> set counts. c \<le> snd y)"
proof -
  let ?s = "sort_key fst counts"
  have ne: "?s \<noteq> []" using assms by (metis set_empty set_sort)
  have "hd (sort_key snd ?s) \<in> set counts" "\<And>y. y \<in> set counts \<Longrightarrow> snd (hd (sort_key snd ?s)) \<le> snd y"
    using hd_sort_key_least [OF ne, where f = snd] by simp_all
  then show ?thesis unfolding least_loaded_def by (metis prod.collapse)
qed

definition bump :: "string \<Rightarrow> (string \<times> nat) list \<Rightarrow> (string \<times> nat) list" where
  "bump v counts = map (\<lambda>(w, k). (w, if w = v then k + 1 else k)) counts"

lemma bump_keys [simp]: "map fst (bump v counts) = map fst counts"
  by (simp add: bump_def o_def split_def)

lemma map_of_bump: "map_of (bump v counts) w = map_option (\<lambda>k. if w = v then k + 1 else k) (map_of counts w)"
  by (induction counts) (auto simp: bump_def)

lemma spread_pods_Cons:
  "spread_pods bs (p # ps) counts =
     (nd_node_id (the (map_of bs (least_loaded counts)) !
        (the (map_of counts (least_loaded counts)) mod length (the (map_of bs (least_loaded counts))))), p) #
     spread_pods bs ps (bump (least_loaded counts) counts)"
  by (simp add: Let_def bump_def)

text \<open>The node chosen for a pod is in the bucket of the least loaded value.\<close>

lemma spread_choice:
  assumes "buckets_ok key ns bs" and "bs \<noteq> []" and "map fst counts = map fst bs"
  shows "\<exists>n. n \<in> set ns \<and> dict_get (nd_labels n) key \<noteq> JNull \<and>
    py_str (dict_get (nd_labels n) key) = least_loaded counts \<and>
    n = the (map_of bs (least_loaded counts)) !
        (the (map_of counts (least_loaded counts)) mod length (the (map_of bs (least_loaded counts))))"
proof -
  have "counts \<noteq> []" using assms(2,3) by auto
  then obtain c where "(least_loaded counts, c) \<in> set counts" using least_loaded_least by blast
  then have "least_loaded counts \<in> set (map fst counts)" by force
  then obtain bucket where b: "(least_loaded counts, bucket) \<in> set bs" unfolding assms(3) by auto
  have m: "map_of bs (least_loaded counts) = Some bucket" using b assms(1) by (simp add: buckets_ok_def)
  have ok: "bucket \<noteq> []" "\<forall>n \<in> set bucket. n \<in> set ns \<and> dict_get (nd_labels n) key \<noteq> JNull \<and>
      py_str (dict_get (nd_labels n) key) = least_loaded counts"
    using b assms(1) unfolding buckets_ok_def by fastforce+
  then have "bucket ! (the (map_of counts (least_loaded counts)) mod length bucket) \<in> set bucket" by simp
  with ok(2) show ?thesis by (simp add: m)
qed

lemma spread_pods_assigns:
  assumes "buckets_ok key ns bs" and "bs \<noteq> []" and "map fst counts = map fst bs"
  shows "assigns ns pods (spread_pods bs pods counts)"
  using assms(3)
proof (induction pods arbitrary: counts)
  case (Cons p ps)
  from spread_choice [OF assms(1,2) Cons.prems] Cons.IH [of "bump (least_loaded counts) counts"] Cons.prems
  show ?case unfolding spread_pods_Cons by (auto simp: assigns_def)
qed (simp add: assigns_def)

definition value_load :: "string \<Rightarrow> NodeRecord list \<Rightarrow> assignments \<Rightarrow> string \<Rightarrow> nat" where
  "value_load key ns as v = length (filter (\<lambda>a. \<exists>n \<in> set ns. nd_node_id n = fst a \<and>
     dict_get (nd_labels n) key \<noteq> JNull \<and> py_str (dict_get (nd_labels n) key) = v) as)"

definition counts_after :: "string list \<Rightarrow> (string \<times> nat) list \<Rightarrow> (string \<times> nat) list" where
  "counts_after pods counts = fold (\<lambda>_ c. bump (least_loaded c) c) pods counts"

lemma counts_after_keys: "map fst (counts_after pods counts) = map fst counts"
  unfolding counts_after_def by (induction pods arbitrary: counts) simp_all

lemma value_load_counts:
  assumes "buckets_ok key ns bs" and "bs \<noteq> []" and "map fst counts = map fst bs" and "distinct (map nd_node_id ns)"
    and "map_of counts w = Some k"
  shows "map_of (counts_after pods counts) w = Some (k + value_load key ns (spread_pods bs pods counts) w)"
  using assms(3,5)
proof (induction pods arbitrary: counts k)
  case Nil
  then show ?case by (simp add: counts_after_def value_load_def)
next
  case (Cons p ps)
  let ?v = "least_loaded counts"
  from spread_choice [OF assms(1,2) Cons.prems(1)] obtain n where n: "n \<in> set ns"
    "dict_get (nd_labels n) key \<noteq> JNull" "py_str (dict_get (nd_labels n) key) = ?v"
    "spread_pods bs (p # ps) counts = (nd_node_id n, p) # spread_pods bs ps (bump ?v counts)"
    unfolding spread_pods_Cons by blast
  have "(\<exists>x \<in> set ns. nd_node_id x = nd_node_id n \<and> dict_get (nd_labels x) key \<noteq> JNull \<and>
      py_str (dict_get (nd_labels x) key) = w) \<longleftrightarrow> w = ?v"
    using n(1-3) assms(4) by (metis distinct_map inj_onD)
  then have "value_load key ns (spread_pods bs (p # ps) counts) w =
      (if w = ?v then 1 else 0) + value_load key ns (spread_pods bs ps (bump ?v counts)) w"
    unfolding n(4) value_load_def by simp
  moreover have "map_of (bump ?v counts) w = Some (if w = ?v then k + 1 else k)"
    using Cons.prems(2) by (simp add: map_of_bump)
  ultimately show ?case
    using Cons.IH [of "bump ?v counts" "if w = ?v then k + 1 else k"] Cons.prems(1) by (simp add: counts_after_def)
qed

definition even_counts :: "(string \<times> nat) list \<Rightarrow> bool" where
  "even_counts counts = (\<forall>x \<in> set counts. \<forall>y \<in> set counts. snd x \<le> snd y + 1)"

lemma bump_even:
  assumes "even_counts counts" and "distinct (map fst counts)" and "counts \<noteq> []"
  shows "even_counts (bump (least_loaded counts) counts)"
proof -
  let ?v = "least_loaded counts"
  from least_loaded_least [OF assms(3)] obtain c where c: "(?v, c) \<in> set counts" "\<forall>y \<in> set counts. c \<le> snd y" by blast
  have v: "k = c" if "(?v, k) \<in> set counts" for k using that c(1) assms(2) by (meson eq_key_imp_eq_value)
  have "snd x \<le> snd y + 1" if xy: "x \<in> set (bump ?v counts)" "y \<in> set (bump ?v counts)" for x y
  proof -
    from xy obtain w k u l where x: "(w, k) \<in> set counts" "x = (w, if w = ?v then k + 1 else k)"
      and y: "(u, l) \<in> set counts" "y = (u, if u = ?v then l + 1 else l)"
      unfolding bump_def by auto
    from x(1) y(1) assms(1) have "k \<le> l + 1" unfolding even_counts_def by fastforce
    moreover have "c \<le> l" using c(2) y(1) by fastforce
    ultimately show ?thesis using x y v by (cases "w = ?v"; cases "u = ?v") auto
  qed
  then show ?thesis by (simp add: even_counts_def)
qed

lemma counts_after_even:
  "even_counts counts \<Longrightarrow> distinct (map fst counts) \<Longrightarrow> counts \<noteq> [] \<Longrightarrow> even_counts (counts_after pods counts)"
proof (induction pods arbitrary: counts)
  case (Cons p ps)
  have "bump (least_loaded counts) counts \<noteq> []" using Cons.prems(3) by (simp add: bump_def)
  with Cons bump_even [OF Cons.prems] show ?case by (simp add: counts_after_def)
qed (simp add: counts_after_def)

text \<open>
  (C19) Spreading keeps the skew at one: for any two values of the topology key among the nodes, the numbers
  of pods on nodes with the one and the other value differ by at most one.
\<close>

theorem spread_skew_at_most_one:
  assumes "distinct (map nd_node_id ns)" and "v \<in> fst ` set (nodes_by_value key ns)" and "w \<in> fst ` set (nodes_by_value key ns)"
  shows "value_load key ns (spread_pods (nodes_by_value key ns) pods (map (\<lambda>b. (fst b, 0)) (nodes_by_value key ns))) v \<le>
    value_load key ns (spread_pods (nodes_by_value key ns) pods (map (\<lambda>b. (fst b, 0)) (nodes_by_value key ns))) w + 1"
proof -
  let ?bs = "nodes_by_value key ns" and ?c0 = "map (\<lambda>b. (fst b, 0 :: nat)) (nodes_by_value key ns)"
  have ok: "buckets_ok key ns ?bs" by (rule nodes_by_value_ok)
  have keys: "map fst ?c0 = map fst ?bs" by (simp add: o_def)
  have d: "distinct (map fst ?c0)" unfolding keys using ok by (simp add: buckets_ok_def)
  have ne: "?bs \<noteq> []" using assms(2) by auto
  have zero: "map_of ?c0 x = Some 0" if "x \<in> fst ` set ?bs" for x
    using that d by (intro map_of_is_SomeI) auto
  note load = value_load_counts [OF ok ne keys assms(1) zero, of _ pods]
  have "even_counts (counts_after pods ?c0)" by (rule counts_after_even) (use d ne in \<open>auto simp: even_counts_def\<close>)
  with load [OF assms(2)] load [OF assms(3)] show ?thesis
    unfolding even_counts_def by (fastforce dest: map_of_SomeD)
qed

section \<open>Plans\<close>

lemma local_runtime_pods: "distinct pods \<Longrightarrow> holds_pods pods (local_runtime pods)"
  by (simp add: holds_pods_def local_runtime_def)

lemma one_node_pods: "distinct pods \<Longrightarrow> holds_pods pods (one_node n pods)"
  by (simp add: holds_pods_def one_node_def)

lemma spread_by_topology_pods:
  assumes "distinct pods" and "distinct (map nd_node_id ns)" and "spread_by_topology ns pods key \<noteq> []"
  shows "holds_pods pods (spread_by_topology ns pods key)"
proof -
  let ?bs = "nodes_by_value key ns"
  have s: "spread_by_topology ns pods key = placements_of ns (spread_pods ?bs pods (map (\<lambda>b. (fst b, 0)) ?bs))" "?bs \<noteq> []"
    using assms(3) by (auto simp: spread_by_topology_def Let_def split: if_splits)
  have "map fst (map (\<lambda>b. (fst b, 0 :: nat)) ?bs) = map fst ?bs" by (simp add: o_def)
  from placements_hold_pods [OF spread_pods_assigns [OF nodes_by_value_ok s(2) this] assms(1,2)] s(1)
  show ?thesis by simp
qed

lemma plan_unpinned_pods:
  assumes "distinct pods" and "distinct (map nd_node_id ns)" and "ns \<noteq> []"
  shows "holds_pods pods (plan_unpinned m ns pods)"
  using spread_by_topology_pods [OF assms(1,2)] local_runtime_pods [OF assms(1)]
    placements_hold_pods [OF round_robin_assigns [OF assms(3)] assms(1,2)]
  by (auto simp: plan_unpinned_def Let_def split: option.splits json.splits)

lemma plan_pinned_pods:
  assumes "distinct pods" and "plan_pinned ns pods bound lp = (ps, ws)" and "ps \<noteq> []"
  shows "holds_pods pods ps"
  using assms one_node_pods [OF assms(1)]
  by (auto simp: plan_pinned_def Let_def split: option.splits)

lemma plan_eligible_pods:
  assumes "distinct pods" and "distinct (map nd_node_id ns)" and "ns \<noteq> []"
    and "plan_eligible st shim ord m pods ns cache = ((ps, ws), c)" and "ps \<noteq> []"
  shows "holds_pods pods ps"
proof -
  obtain lp ln w1 c1 where l: "local_path_pinning shim ord m cache = ((lp, ln, w1), c1)" by (metis surj_pair)
  let ?b = "coalesce (bound_attachment st (app_key (sm_name m) (sm_namespace m)) (sm_has_storage m)) ln"
  obtain qs w3 where q: "plan_pinned ns pods ?b lp = (qs, w3)" by (metis surj_pair)
  have "ps = (if sm_has_storage m \<or> lp then qs else plan_unpinned m ns pods)"
    using assms(4) l q by (auto simp: plan_eligible_def Let_def split: if_splits)
  with plan_pinned_pods [OF assms(1) q] plan_unpinned_pods [OF assms(1-3)] assms(5) show ?thesis by (auto split: if_splits)
qed

lemma filter_topology_subset:
  assumes "filter_nodes_by_storage_topology shim ord m ns cache = ((ns', ws, applied), c)"
  shows "\<exists>P. ns' = filter P ns"
proof -
  have "\<exists>P. ns = filter P ns" by (rule exI [of _ "\<lambda>_. True"]) simp
  moreover have "\<exists>P. [] = filter P ns" by (rule exI [of _ "\<lambda>_. False"]) simp
  ultimately show ?thesis
    using assms
    by (auto simp: filter_nodes_by_storage_topology_def Let_def split: option.splits if_splits prod.splits sum.splits)
qed

text \<open>The three ways a plan ends.\<close>

lemma plan_cases:
  assumes "plan norm st shim ord now grace m revision cache = ((ps, ws), c)"
  obtains "list_nodes norm st = []" "ps = local_runtime (planned_pods shim ord m revision)"
  | "ps = []"
  | P c1 ws' where "filter P (map fst (filter (node_eligible m now (not_ready_grace_seconds grace)) (list_nodes norm st))) \<noteq> []"
      "plan_eligible st shim ord m (planned_pods shim ord m revision)
        (filter P (map fst (filter (node_eligible m now (not_ready_grace_seconds grace)) (list_nodes norm st)))) c1 = ((ps, ws'), c)"
proof -
  let ?el = "map fst (filter (node_eligible m now (not_ready_grace_seconds grace)) (list_nodes norm st))"
  let ?pods = "planned_pods shim ord m revision"
  obtain ns' w1 ap c1 where f: "filter_nodes_by_storage_topology shim ord m ?el cache = ((ns', w1, ap), c1)"
    by (metis surj_pair)
  obtain P where P: "ns' = filter P ?el" using filter_topology_subset [OF f] by blast
  define Q where "Q = (if ap then P else (\<lambda>_. True))"
  have q: "(if ap then ns' else ?el) = filter Q ?el" by (simp add: Q_def P)
  obtain qs w2 c2 where e: "plan_eligible st shim ord m ?pods (filter Q ?el) c1 = ((qs, w2), c2)" by (metis surj_pair)
  show thesis
  proof (cases "list_nodes norm st = []")
    case True
    then show thesis
      using assms that(1) by (auto simp: plan_def planned_pods_def Let_def split: prod.splits)
  next
    case False
    show thesis
    proof (cases "filter Q ?el = []")
      case True
      with False assms f q that(2) show thesis
        by (auto simp: plan_def planned_pods_def Let_def split: prod.splits if_splits)
    next
      case ne: False
      have "ps = qs" "c = c2"
        using False ne assms f e unfolding plan_def planned_pods_def Let_def
        by (auto simp: q split: prod.splits)
      with e ne that(3) show thesis by blast
    qed
  qed
qed

lemma list_nodes_ids: "map (\<lambda>ns. nd_node_id (fst ns)) (list_nodes norm st) = map nd_node_id (sort_key nd_node_id (nodes st))"
  by (simp add: list_nodes_def node_with_status_def)

lemma eligible_ids_distinct:
  assumes "primary_key nd_node_id (nodes st)"
  shows "distinct (map nd_node_id (filter P (map fst (filter Q (list_nodes norm st)))))"
proof -
  have "distinct (map nd_node_id (sort_key nd_node_id (nodes st)))"
    using assms by (simp add: primary_key_def distinct_map)
  then have "distinct (map nd_node_id (map fst (list_nodes norm st)))"
    using list_nodes_ids [of norm st] by (simp add: o_def)
  then have "distinct (map nd_node_id (map fst (filter Q (list_nodes norm st))))"
    by (induction "list_nodes norm st" arbitrary: st) (simp_all add: distinct_map_filter o_def distinct_map inj_on_def)
  then show ?thesis by (rule distinct_map_filter)
qed

text \<open>
  (C17) A plan that places anything places every pod of the app exactly once: the pods of all placements
  together are the planned ones, without repetition, whether they are pinned, spread or dealt
  round robin. With claims that only one pod may use, the planned pods are one.
\<close>

theorem plan_places_every_pod_once:
  assumes "primary_key nd_node_id (nodes st)"
    and "plan norm st shim ord now grace m revision cache = ((ps, ws), c)" and "ps \<noteq> []"
  shows "distinct (concat (map pl_pod_names ps)) \<and>
    set (concat (map pl_pod_names ps)) = set (planned_pods shim ord m revision)"
  using assms(2)
proof (rule plan_cases)
  assume "ps = local_runtime (planned_pods shim ord m revision)"
  then show ?thesis using local_runtime_pods [OF distinct_planned_pods] by (simp add: holds_pods_def)
next
  assume "ps = []" then show ?thesis using assms(3) by simp
next
  fix P c1 ws'
  assume "filter P (map fst (filter (node_eligible m now (not_ready_grace_seconds grace)) (list_nodes norm st))) \<noteq> []"
    "plan_eligible st shim ord m (planned_pods shim ord m revision)
        (filter P (map fst (filter (node_eligible m now (not_ready_grace_seconds grace)) (list_nodes norm st)))) c1 = ((ps, ws'), c)"
  from plan_eligible_pods [OF distinct_planned_pods eligible_ids_distinct [OF assms(1)] this assms(3)]
  show ?thesis by (simp add: holds_pods_def)
qed

lemma plan_unpinned_targets:
  assumes "ns \<noteq> []" and "p \<in> set (plan_unpinned m ns pods)"
  shows "pods = [] \<or> (\<exists>n \<in> set ns. pl_node p = Some n \<and> pl_agent_url p = nd_endpoint n)"
proof (cases "pods = []")
  case False
  then obtain q qs where "pods = q # qs" by (cases pods) simp_all
  then have "(nd_node_id (hd ns), q) \<in> set (round_robin ns pods)"
    using assms(1) by (force simp: round_robin_def hd_conv_nth intro!: image_eqI [where x = 0])
  then have "q \<in> set (concat (map pl_pod_names (placements_of ns (round_robin ns pods))))"
    unfolding placements_of_pods using assms(1) by auto
  then have "placements_of ns (round_robin ns pods) \<noteq> []" by auto
  then have "(\<exists>as. p \<in> set (placements_of ns as))"
    using assms(2)
    by (auto simp: plan_unpinned_def spread_by_topology_def Let_def split: option.splits json.splits if_splits)
  then show ?thesis using placement_of_node by blast
qed simp

lemma plan_eligible_targets:
  assumes "plan_eligible st shim ord m pods ns cache = ((ps, ws), c)" and "ns \<noteq> []" and "p \<in> set ps"
  shows "pods = [] \<or> (\<exists>n \<in> set ns. pl_node p = Some n \<and> pl_agent_url p = nd_endpoint n)"
proof -
  obtain lp ln w1 c1 where l: "local_path_pinning shim ord m cache = ((lp, ln, w1), c1)" by (metis surj_pair)
  let ?b = "coalesce (bound_attachment st (app_key (sm_name m) (sm_namespace m)) (sm_has_storage m)) ln"
  obtain qs w3 where q: "plan_pinned ns pods ?b lp = (qs, w3)" by (metis surj_pair)
  have ps: "ps = (if sm_has_storage m \<or> lp then qs else plan_unpinned m ns pods)"
    using assms(1) l q by (auto simp: plan_eligible_def Let_def split: if_splits)
  have "\<exists>n \<in> set ns. pl_node p = Some n \<and> pl_agent_url p = nd_endpoint n" if "p \<in> set qs"
    using that q assms(2) by (auto simp: plan_pinned_def Let_def one_node_def find_Some_iff split: option.splits)
  moreover have "pods = [] \<or> (\<exists>n \<in> set ns. pl_node p = Some n \<and> pl_agent_url p = nd_endpoint n)"
    if "p \<in> set (plan_unpinned m ns pods)"
    using plan_unpinned_targets [OF assms(2) that] .
  ultimately show ?thesis using assms(3) ps by (auto split: if_splits)
qed

text \<open>
  (C18) Pods go only where they may: every placement of a plan is on a registered node that is not
  cordoned, has reported ready within the grace period, carries the labels the app selects and whose
  taints it tolerates, at that node's endpoint. The local runtime is used only when no node is
  registered or there is nothing to place.
\<close>

theorem plan_targets_eligible:
  assumes "plan norm st shim ord now grace m revision cache = ((ps, ws), c)" and "p \<in> set ps"
  shows "(\<exists>n s. (n, s) \<in> set (list_nodes norm st) \<and> pl_node p = Some n \<and> pl_agent_url p = nd_endpoint n \<and>
      \<not> nd_cordoned n \<and> is_ready s now (not_ready_grace_seconds grace) \<and> matches_node_selector n m \<and>
      tolerates_taints n m) \<or>
    (pl_node p = None \<and> list_nodes norm st = []) \<or> planned_pods shim ord m revision = []"
  using assms(1)
proof (rule plan_cases)
  assume "list_nodes norm st = []" "ps = local_runtime (planned_pods shim ord m revision)"
  then show ?thesis using assms(2) by (simp add: local_runtime_def)
next
  assume "ps = []" then show ?thesis using assms(2) by simp
next
  fix P c1 ws'
  assume e: "filter P (map fst (filter (node_eligible m now (not_ready_grace_seconds grace)) (list_nodes norm st))) \<noteq> []"
    "plan_eligible st shim ord m (planned_pods shim ord m revision)
        (filter P (map fst (filter (node_eligible m now (not_ready_grace_seconds grace)) (list_nodes norm st)))) c1 = ((ps, ws'), c)"
  from plan_eligible_targets [OF e(2,1) assms(2)] show ?thesis by (force simp: node_eligible_def)
qed

section \<open>Balance\<close>

lemma count_residue:
  fixes j k :: nat
  assumes "j < k"
  shows "length (filter (\<lambda>i. i mod k = j) [0..<n]) = (n + (k - 1 - j)) div k"
proof (induction n)
  case 0
  show ?case using assms by simp
next
  case (Suc n)
  have k: "0 < k" using assms by simp
  have "(Suc n + (k - 1 - j)) mod k = 0 \<longleftrightarrow> n mod k = j"
  proof -
    have "Suc n + (k - 1 - j) = n + (k - j)" using assms by simp
    moreover have "(n + (k - j)) mod k = 0 \<longleftrightarrow> n mod k = j"
    proof -
      obtain q r where n: "n = q * k + r" "r < k" using k by (metis div_mult_mod_eq mod_less_divisor)
      have "(n + (k - j)) mod k = (r + (k - j)) mod k" by (simp add: n(1) add.assoc)
      also have "(r + (k - j)) mod k = 0 \<longleftrightarrow> r = j"
      proof (cases "r < j")
        case True
        then have "0 < r + (k - j)" "r + (k - j) < k" using assms by simp_all
        then have "(r + (k - j)) mod k \<noteq> 0" by (metis mod_less neq0_conv)
        then show ?thesis using True by simp
      next
        case False
        then have "r + (k - j) = (r - j) + k" using assms by simp
        moreover have "((r - j) + k) mod k = r - j" using n(2) by (simp only: mod_add_self2) simp
        ultimately have "(r + (k - j)) mod k = r - j" by (simp only:)
        then show ?thesis using False by simp
      qed
      finally show ?thesis using n by simp
    qed
    ultimately show ?thesis by (simp only:)
  qed
  then have "(Suc n + (k - 1 - j)) div k = (n + (k - 1 - j)) div k + (if n mod k = j then 1 else 0)"
    using div_Suc [of "n + (k - 1 - j)" k] by (auto simp: mod_Suc split: if_splits)
  with Suc show ?case by simp
qed

lemma round_robin_load:
  assumes "distinct (map nd_node_id ns)" and "j < length ns"
  shows "length (assigned (round_robin ns pods) (nd_node_id (ns ! j))) = (length pods + (length ns - 1 - j)) div length ns"
proof -
  have "nd_node_id (ns ! (i mod length ns)) = nd_node_id (ns ! j) \<longleftrightarrow> i mod length ns = j" for i
    using assms nth_eq_iff_index_eq [of "map nd_node_id ns" "i mod length ns" j]
    by (metis length_map mod_less_divisor nth_map zero_less_iff_neq_zero not_less_zero)
  then have "length (assigned (round_robin ns pods) (nd_node_id (ns ! j))) =
      length (filter (\<lambda>i. i mod length ns = j) [0..<length pods])"
    by (simp add: assigned_def round_robin_def filter_map o_def)
  then show ?thesis by (simp add: count_residue [OF assms(2)])
qed

text \<open>
  Round robin is balanced: every eligible node gets at least the rounded-down and at most the rounded-up share of
  the pods.
\<close>

theorem round_robin_balanced:
  assumes "distinct (map nd_node_id ns)" and "n \<in> set ns"
  shows "length (assigned (round_robin ns pods) (nd_node_id n)) \<in>
    {length pods div length ns..(length pods + length ns - 1) div length ns}"
proof -
  from assms(2) obtain j where j: "j < length ns" "n = ns ! j" by (auto simp: in_set_conv_nth)
  have "length pods div length ns \<le> (length pods + (length ns - 1 - j)) div length ns" by (simp add: div_le_mono)
  moreover have "(length pods + (length ns - 1 - j)) div length ns \<le> (length pods + length ns - 1) div length ns"
    by (rule div_le_mono) (use j(1) in linarith)
  ultimately show ?thesis unfolding j(2) round_robin_load [OF assms(1) j(1)] by simp
qed

section \<open>Examples\<close>

definition demo_node :: "string \<Rightarrow> string \<Rightarrow> NodeRecord" where
  "demo_node i zone = \<lparr>nd_node_id = i, nd_name = None, nd_labels = [(''zone'', JStr zone)], nd_capabilities = JObj [],
     nd_taints = [], nd_backend = None, nd_endpoint = Some (''http://'' @ i), nd_pod_cidr = None, nd_wg_pubkey = None,
     nd_rp_pubkey = None, nd_cordoned = False, nd_created_at = 0, nd_updated_at = 0\<rparr>"

definition demo_nodes :: NodeStore where
  "demo_nodes = record_heartbeat 90 ''n1'' ''Ready'' (record_heartbeat 90 ''n2'' ''Ready'' (record_heartbeat 90 ''n3'' ''Ready''
     (empty_nodes\<lparr>nodes := [demo_node ''n1'' ''a'', demo_node ''n2'' ''b'', demo_node ''n3'' ''b'']\<rparr>)))"

definition demo_manifest :: SchedManifest where
  "demo_manifest = \<lparr>sm_name = ''web'', sm_namespace = None, sm_replicas = 4, sm_node_selector = [], sm_tolerations = [],
     sm_topology_spread = [], sm_has_storage = False, sm_pvc_mounts = []\<rparr>"

definition demo_order :: SetOrder where
  "demo_order = \<lparr>or_refs = (\<lambda>xs. xs), or_ids = (\<lambda>xs. xs)\<rparr>"

definition demo_plan :: "(Placement list \<times> string list) \<times> string option" where
  "demo_plan = plan (\<lambda>j. j) demo_nodes None demo_order 100 None demo_manifest 7 None"

lemma demo_plan_nodes:
  "map (\<lambda>p. (map_option nd_node_id (pl_node p), pl_pod_names p)) (fst (fst demo_plan)) =
     [(Some ''n1'', [''web-rev7-0'', ''web-rev7-3'']), (Some ''n2'', [''web-rev7-1'']), (Some ''n3'', [''web-rev7-2''])]"
  by code_simp

lemma demo_plan_split: "plan (\<lambda>j. j) demo_nodes None demo_order 100 None demo_manifest 7 None =
    ((fst (fst demo_plan), snd (fst demo_plan)), snd demo_plan)"
  by (simp add: demo_plan_def)

theorem plan_places_every_pod_once_witness:
  "distinct (concat (map pl_pod_names (fst (fst demo_plan)))) \<and>
   set (concat (map pl_pod_names (fst (fst demo_plan)))) = set (planned_pods None demo_order demo_manifest 7)"
proof -
  have "primary_key nd_node_id (nodes demo_nodes)" by code_simp
  moreover have "fst (fst demo_plan) \<noteq> []" using demo_plan_nodes by auto
  ultimately show ?thesis using plan_places_every_pod_once [OF _ demo_plan_split] by blast
qed

theorem plan_targets_eligible_witness:
  "\<exists>n s. pl_node (hd (fst (fst demo_plan))) = Some n \<and> \<not> nd_cordoned n \<and> is_ready s 100 40"
proof -
  have ne: "fst (fst demo_plan) \<noteq> []" using demo_plan_nodes by auto
  then have "hd (fst (fst demo_plan)) \<in> set (fst (fst demo_plan))" by simp
  from plan_targets_eligible [OF demo_plan_split this]
  have "(\<exists>n s. pl_node (hd (fst (fst demo_plan))) = Some n \<and> \<not> nd_cordoned n \<and> is_ready s 100 (not_ready_grace_seconds None)) \<or>
      list_nodes (\<lambda>j. j) demo_nodes = [] \<or> planned_pods None demo_order demo_manifest 7 = []" by blast
  moreover have "\<not> list_nodes (\<lambda>j. j) demo_nodes = []" by code_simp
  moreover have "\<not> planned_pods None demo_order demo_manifest 7 = []" by code_simp
  moreover have "not_ready_grace_seconds None = 40" by (simp add: not_ready_grace_seconds_def nonempty_def)
  ultimately show ?thesis by simp
qed

theorem spread_skew_at_most_one_witness:
  "value_load ''zone'' (nodes demo_nodes) (spread_pods (nodes_by_value ''zone'' (nodes demo_nodes)) [''p'', ''q'', ''r'']
      (map (\<lambda>b. (fst b, 0)) (nodes_by_value ''zone'' (nodes demo_nodes)))) ''a'' \<le>
   value_load ''zone'' (nodes demo_nodes) (spread_pods (nodes_by_value ''zone'' (nodes demo_nodes)) [''p'', ''q'', ''r'']
      (map (\<lambda>b. (fst b, 0)) (nodes_by_value ''zone'' (nodes demo_nodes)))) ''b'' + 1"
  by (rule spread_skew_at_most_one) code_simp+

theorem round_robin_balanced_witness:
  "length (assigned (round_robin (nodes demo_nodes) [''p'', ''q'', ''r'', ''s'']) ''n1'') \<in> {1..2}"
proof -
  have "distinct (map nd_node_id (nodes demo_nodes))" "demo_node ''n1'' ''a'' \<in> set (nodes demo_nodes)"
    "length (nodes demo_nodes) = 3" "nd_node_id (demo_node ''n1'' ''a'') = ''n1''" by code_simp+
  from round_robin_balanced [OF this(1,2), of "[''p'', ''q'', ''r'', ''s'']"] this(3,4) show ?thesis by simp
qed

end
