(* ===== verification/Cell_Planner.thy ===== *)
theory Cell_Planner
  imports Leases Complex_Main "HOL-Library.Product_Lexorder"
begin

text \<open>
  Placement and admission of inference cells (\<^verbatim>\<open>StagePlanner\<close> and \<^verbatim>\<open>BoundaryBudgetAdmission\<close> in
  \<^verbatim>\<open>ae/controller/inference_cell.py\<close>): which node runs which pipeline stage of a cell, and whether the
  links between the sites of the stages are good enough for it.

  Latencies, losses and fractions are rational numbers where the source has floats; the texts of the
  reasons of a refusal, which print floats, are values of a datatype.
\<close>

section \<open>The specification of a cell\<close>

record BootAssurance =
  ba_status :: string
  ba_schedulable :: bool
  ba_quarantined :: bool
  ba_failure_reasons :: "string list"
  ba_alert :: string

record InferenceMemberSpec =
  im_site_id :: string
  im_node_id :: string
  im_gpu_count :: int
  im_role :: "string option"
  im_compute_eligible :: bool
  im_boot_assurance :: "BootAssurance option"

record CellContract =
  ct_profile :: string
  ct_gateway_reserved_gpu_fraction :: rat

record LinkMetricSample =
  lm_from_site :: string
  lm_to_site :: string
  lm_rtt_p95_ms :: rat
  lm_jitter_p95_ms :: rat
  lm_loss_pct :: rat

record InferenceCellSpec = CellSpec +
  ic_cell_contract :: "CellContract option"
  ic_tp :: int
  ic_pp :: int
  ic_members :: "InferenceMemberSpec list"
  ic_pack_stages_by_site :: bool
  ic_rtt_p95_ms_max :: rat
  ic_jitter_p95_ms_max :: rat
  ic_loss_pct_max :: rat
  ic_compute_token_ms_p50 :: "rat option"
  ic_alpha_net :: rat
  ic_beta_jitter :: rat
  ic_perf_loss_pct_max :: rat
  ic_link_metrics :: "LinkMetricSample list"

section \<open>Candidates\<close>

definition site_order :: "InferenceMemberSpec list \<Rightarrow> string list" where
  "site_order members = fold (\<lambda>m sites. if im_site_id m \<in> set sites then sites else sites @ [im_site_id m]) members []"

definition ai_max_edge_cell_contract :: "InferenceCellSpec \<Rightarrow> CellContract option" where
  "ai_max_edge_cell_contract spec = (case ic_cell_contract spec of
     None \<Rightarrow> None
   | Some c \<Rightarrow> if ct_profile c = ''ai-max-edge-cell-v1'' then Some c else None)"

definition effective_gpu_count :: "InferenceCellSpec \<Rightarrow> InferenceMemberSpec \<Rightarrow> rat" where
  "effective_gpu_count spec m =
     max 0 (case ai_max_edge_cell_contract spec of
       None \<Rightarrow> of_int (im_gpu_count m)
     | Some c \<Rightarrow> if im_role m = Some ''gateway''
         then of_int (im_gpu_count m) - ct_gateway_reserved_gpu_fraction c else of_int (im_gpu_count m))"

definition member_boot_schedulable :: "InferenceMemberSpec \<Rightarrow> bool" where
  "member_boot_schedulable m = (case im_boot_assurance m of
     None \<Rightarrow> True | Some a \<Rightarrow> ba_schedulable a \<and> \<not> ba_quarantined a)"

definition ordered_stage_candidates :: "InferenceCellSpec \<Rightarrow> InferenceMemberSpec list \<Rightarrow> InferenceMemberSpec list" where
  "ordered_stage_candidates spec members = (case ai_max_edge_cell_contract spec of
     None \<Rightarrow> members
   | Some c \<Rightarrow> if ct_gateway_reserved_gpu_fraction c \<le> 0 then members
       else sort_key (\<lambda>m. - effective_gpu_count spec m) members)"

section \<open>The stage planner\<close>

definition stage_eligible :: "InferenceCellSpec \<Rightarrow> InferenceMemberSpec list" where
  "stage_eligible spec = filter (\<lambda>m. ic_tp spec \<le> im_gpu_count m \<and> member_boot_schedulable m) (ic_members spec)"

definition stage_sites :: "InferenceCellSpec \<Rightarrow> string list \<Rightarrow> string list" where
  "stage_sites spec sites =
     (if ic_pp spec = 2 \<and> 2 \<le> length sites then [sites ! 0, sites ! 1]
      else if ic_pp spec = 4 \<and> ic_pack_stages_by_site spec \<and> 2 \<le> length sites
      then [sites ! 0, sites ! 0, sites ! 1, sites ! 1]
      else map (\<lambda>i. sites ! (i mod length sites)) [0..<nat (ic_pp spec)])"

fun assign_stages ::
  "int \<Rightarrow> InferenceMemberSpec list \<Rightarrow> string set \<Rightarrow> int \<Rightarrow> string list \<Rightarrow> StagePlacement list result" where
  "assign_stages tp eligible used stage [] = Inr []"
| "assign_stages tp eligible used stage (site # sites) =
     (case find (\<lambda>m. im_site_id m = site \<and> im_node_id m \<notin> used) eligible of
        None \<Rightarrow> Inl (ValueError (''insufficient unique nodes in site '' @ repr_str site @ '' for stage '' @ show_int stage))
      | Some m \<Rightarrow> rbind (assign_stages tp eligible (insert (im_node_id m) used) (stage + 1) sites)
          (\<lambda>ps. Inr (\<lparr>sp_stage = stage, sp_site_id = im_site_id m, sp_node_id = im_node_id m,
                      sp_gpu_indices = [0..tp - 1]\<rparr> # ps)))"

definition stage_plan :: "InferenceCellSpec \<Rightarrow> StagePlacement list result" where
  "stage_plan spec =
     (let tp = ic_tp spec; pp = ic_pp spec; eligible = stage_eligible spec
      in if tp \<le> 0 \<or> pp \<le> 0 then Inl (ValueError ''parallelism tp/pp must be > 0'')
         else if int (length eligible) < pp
         then Inl (ValueError (''need '' @ show_int pp @ '' members with gpu_count >= tp='' @ show_int tp @
                '', found '' @ show_nat (length eligible)))
         else if site_order eligible = [] then Inl (ValueError ''no eligible sites for placement'')
         else assign_stages tp (ordered_stage_candidates spec eligible) {} 0 (stage_sites spec (site_order eligible)))"

definition assurance_item :: "InferenceMemberSpec \<Rightarrow> json" where
  "assurance_item m =
     (let a = im_boot_assurance m
      in JObj [(''node_id'', JStr (im_node_id m)),
               (''role'', case im_role m of None \<Rightarrow> JNull | Some r \<Rightarrow> JStr r),
               (''gpu_count'', JInt (im_gpu_count m)),
               (''status'', JStr (case a of None \<Rightarrow> ''unknown'' | Some b \<Rightarrow> ba_status b)),
               (''schedulable'', JBool (member_boot_schedulable m)),
               (''quarantined'', JBool (case a of None \<Rightarrow> False | Some b \<Rightarrow> ba_quarantined b)),
               (''alert'', JStr (case a of None \<Rightarrow> ''none'' | Some b \<Rightarrow> ba_alert b)),
               (''failure_reasons'', JArr (case a of None \<Rightarrow> [] | Some b \<Rightarrow> map JStr (ba_failure_reasons b)))])"

definition assurance_summary :: "InferenceCellSpec \<Rightarrow> json" where
  "assurance_summary spec =
     (let ms = ic_members spec; ok = filter member_boot_schedulable ms;
          bad = filter (\<lambda>m. \<not> member_boot_schedulable m) ms
      in JObj [(''total_members'', JInt (int (length ms))),
               (''schedulable_members'', JInt (int (length ok))),
               (''quarantined_members'', JInt (int (length bad))),
               (''usable_gpu_capacity'', JInt (sum_list (map im_gpu_count ok))),
               (''quarantined'', JArr (map assurance_item bad))])"

section \<open>Boundary budget admission\<close>

record EdgeRequirement =
  er_from_stage :: int
  er_to_stage :: int
  er_from_site :: string
  er_to_site :: string
  er_return_path :: bool

datatype admission_reason =
    MissingMetric string string int int
  | EdgeRtt string string rat rat
  | EdgeJitter string string rat rat
  | EdgeLoss string string rat rat
  | NetCost rat rat rat
  | PerfJitter rat rat rat
  | PerfLoss rat rat

record AdmissionReport =
  adm_admitted :: bool
  adm_reasons :: "admission_reason list"
  adm_b_boundaries :: int
  adm_r_return :: int
  adm_net_cost_p95_ms :: rat
  adm_jitter_p95_ms :: rat
  adm_loss_pct :: rat
  adm_required_edges :: "(EdgeRequirement \<times> LinkMetricSample) list"

definition metric_key :: "LinkMetricSample \<Rightarrow> rat \<times> rat \<times> rat" where
  "metric_key m = (lm_rtt_p95_ms m, lm_jitter_p95_ms m, lm_loss_pct m)"

text \<open>\<^verbatim>\<open>sorted(..., reverse=True)[0]\<close>: reverse, sort, reverse keeps the order of equal keys.\<close>

definition metric_candidates :: "LinkMetricSample list \<Rightarrow> string \<Rightarrow> string \<Rightarrow> LinkMetricSample list" where
  "metric_candidates metrics a b =
     (let exact = filter (\<lambda>m. lm_from_site m = a \<and> lm_to_site m = b) metrics;
          back = filter (\<lambda>m. lm_from_site m = b \<and> lm_to_site m = a) metrics
      in if exact \<noteq> [] then exact else back)"

definition metric_lookup :: "LinkMetricSample list \<Rightarrow> string \<Rightarrow> string \<Rightarrow> LinkMetricSample option" where
  "metric_lookup metrics a b =
     (case rev (sort_key metric_key (rev (metric_candidates metrics a b))) of [] \<Rightarrow> None | m # _ \<Rightarrow> Some m)"

definition edge_between :: "bool \<Rightarrow> StagePlacement \<Rightarrow> StagePlacement \<Rightarrow> EdgeRequirement" where
  "edge_between back l r = \<lparr>er_from_stage = sp_stage l, er_to_stage = sp_stage r, er_from_site = sp_site_id l,
     er_to_site = sp_site_id r, er_return_path = back\<rparr>"

text \<open>The loop over neighbouring stages, and the edge back from the last to the first.\<close>

fun boundary_edges :: "StagePlacement list \<Rightarrow> EdgeRequirement list" where
  "boundary_edges (l # r # ps) =
     (if sp_site_id l = sp_site_id r then boundary_edges (r # ps) else edge_between False l r # boundary_edges (r # ps))"
| "boundary_edges _ = []"

definition return_edges :: "StagePlacement list \<Rightarrow> EdgeRequirement list" where
  "return_edges ordered = (if sp_site_id (last ordered) \<noteq> sp_site_id (hd ordered)
     then [edge_between True (last ordered) (hd ordered)] else [])"

definition edge_reasons :: "InferenceCellSpec \<Rightarrow> EdgeRequirement \<Rightarrow> LinkMetricSample option \<Rightarrow> admission_reason list" where
  "edge_reasons spec e metric = (case metric of
     None \<Rightarrow> [MissingMetric (er_from_site e) (er_to_site e) (er_from_stage e) (er_to_stage e)]
   | Some m \<Rightarrow>
       (if ic_rtt_p95_ms_max spec < lm_rtt_p95_ms m
        then [EdgeRtt (er_from_site e) (er_to_site e) (lm_rtt_p95_ms m) (ic_rtt_p95_ms_max spec)] else []) @
       (if ic_jitter_p95_ms_max spec < lm_jitter_p95_ms m
        then [EdgeJitter (er_from_site e) (er_to_site e) (lm_jitter_p95_ms m) (ic_jitter_p95_ms_max spec)] else []) @
       (if ic_loss_pct_max spec < lm_loss_pct m
        then [EdgeLoss (er_from_site e) (er_to_site e) (lm_loss_pct m) (ic_loss_pct_max spec)] else []))"

definition perf_reasons :: "InferenceCellSpec \<Rightarrow> rat \<Rightarrow> rat \<Rightarrow> rat \<Rightarrow> admission_reason list" where
  "perf_reasons spec net_cost max_jitter max_loss = (case ic_compute_token_ms_p50 spec of
     None \<Rightarrow> []
   | Some c \<Rightarrow>
       if c \<le> 0 then []
       else (if ic_alpha_net spec * c < net_cost then [NetCost net_cost (ic_alpha_net spec) c] else []) @
            (if ic_beta_jitter spec * c < max_jitter then [PerfJitter max_jitter (ic_beta_jitter spec) c] else []) @
            (if ic_perf_loss_pct_max spec < max_loss then [PerfLoss max_loss (ic_perf_loss_pct_max spec)] else []))"

definition measured_edges ::
  "LinkMetricSample list \<Rightarrow> EdgeRequirement list \<Rightarrow> (EdgeRequirement \<times> LinkMetricSample) list" where
  "measured_edges metrics required = List.map_filter (\<lambda>e.
     map_option (Pair e) (metric_lookup metrics (er_from_site e) (er_to_site e))) required"

definition admission_evaluate ::
  "InferenceCellSpec \<Rightarrow> StagePlacement list \<Rightarrow> LinkMetricSample list option \<Rightarrow> AdmissionReport" where
  "admission_evaluate spec placements link_metrics =
     (let ordered = sort_key sp_stage placements
      in if length ordered < 2
         then \<lparr>adm_admitted = True, adm_reasons = [], adm_b_boundaries = 0, adm_r_return = 0, adm_net_cost_p95_ms = 0,
               adm_jitter_p95_ms = 0, adm_loss_pct = 0, adm_required_edges = []\<rparr>
         else
           let b = boundary_edges ordered; r = return_edges ordered; required = b @ r;
               metrics = (case link_metrics of Some ms \<Rightarrow> ms | None \<Rightarrow> ic_link_metrics spec);
               rows = measured_edges metrics required; ms = map snd rows;
               net_cost = sum_list (map (\<lambda>m. lm_rtt_p95_ms m / 2) ms);
               max_jitter = fold (\<lambda>m x. max x (lm_jitter_p95_ms m)) ms 0;
               max_loss = fold (\<lambda>m x. max x (lm_loss_pct m)) ms 0;
               reasons = concat (map (\<lambda>e. edge_reasons spec e (metric_lookup metrics (er_from_site e) (er_to_site e))) required) @
                         perf_reasons spec net_cost max_jitter max_loss
           in \<lparr>adm_admitted = (reasons = []), adm_reasons = reasons, adm_b_boundaries = int (length b),
               adm_r_return = int (length r), adm_net_cost_p95_ms = net_cost, adm_jitter_p95_ms = max_jitter,
               adm_loss_pct = max_loss, adm_required_edges = rows\<rparr>)"

section \<open>What a plan promises\<close>

definition placed_on :: "int \<Rightarrow> InferenceMemberSpec list \<Rightarrow> StagePlacement \<Rightarrow> bool" where
  "placed_on tp eligible p \<longleftrightarrow> sp_gpu_indices p = [0..tp - 1] \<and>
     (\<exists>m \<in> set eligible. im_node_id m = sp_node_id p \<and> im_site_id m = sp_site_id p)"

lemma assign_stages_ok:
  assumes "assign_stages tp eligible used stage sites = Inr ps"
  shows "map sp_site_id ps = sites \<and> map sp_stage ps = map (\<lambda>i. stage + int i) [0..<length sites] \<and>
    distinct (map sp_node_id ps) \<and> set (map sp_node_id ps) \<inter> used = {} \<and> list_all (placed_on tp eligible) ps"
  using assms
proof (induction tp eligible used stage sites arbitrary: ps rule: assign_stages.induct)
  case (2 tp eligible used stage site sites)
  from "2.prems" obtain m qs where m: "find (\<lambda>m. im_site_id m = site \<and> im_node_id m \<notin> used) eligible = Some m"
    and qs: "assign_stages tp eligible (insert (im_node_id m) used) (stage + 1) sites = Inr qs"
    and ps: "ps = \<lparr>sp_stage = stage, sp_site_id = im_site_id m, sp_node_id = im_node_id m, sp_gpu_indices = [0..tp - 1]\<rparr> # qs"
    by (auto simp: rbind_def split: option.splits sum.splits)
  have "map (\<lambda>i. stage + int i) [0..<length (site # sites)] = stage # map (\<lambda>i. (stage + 1) + int i) [0..<length sites]"
    by (simp add: upt_conv_Cons map_Suc_upt [symmetric] o_def del: upt_Suc)
  with "2.IH" [OF m qs] m show ?case by (auto simp: ps placed_on_def find_Some_iff list_all_iff)
qed simp

lemma set_ordered_stage_candidates [simp]: "set (ordered_stage_candidates spec ms) = set ms"
  by (simp add: ordered_stage_candidates_def split: option.splits)

lemma distinct_ordered_stage_candidates:
  "distinct (map f (ordered_stage_candidates spec ms)) \<longleftrightarrow> distinct (map f ms)"
proof -
  have "distinct (map f (sort_key k ms)) \<longleftrightarrow> distinct (map f ms)" for k :: "InferenceMemberSpec \<Rightarrow> rat"
    by (simp add: distinct_map)
  then show ?thesis by (simp add: ordered_stage_candidates_def split: option.splits)
qed

lemma length_stage_sites: "0 < ic_pp spec \<Longrightarrow> length (stage_sites spec sites) = nat (ic_pp spec)"
  by (auto simp: stage_sites_def)

lemma stage_plan_Inr:
  assumes "stage_plan spec = Inr ps"
  shows "0 < ic_tp spec" "0 < ic_pp spec"
    "assign_stages (ic_tp spec) (ordered_stage_candidates spec (stage_eligible spec)) {} 0
       (stage_sites spec (site_order (stage_eligible spec))) = Inr ps"
  using assms by (auto simp: stage_plan_def Let_def split: if_splits)

lemma gpu_slots_distinct:
  assumes "distinct (map sp_node_id ps)" and "list_all (\<lambda>p. distinct (sp_gpu_indices p)) ps"
  shows "distinct (gpu_slots ps)"
  using assms
proof (induction ps)
  case (Cons p ps)
  have "distinct (map (Pair (sp_node_id p)) (sp_gpu_indices p))" using Cons.prems(2) by (simp add: distinct_map inj_on_def)
  moreover have "set (map (Pair (sp_node_id p)) (sp_gpu_indices p)) \<inter> set (gpu_slots ps) = {}"
    using Cons.prems(1) by (force simp: gpu_slots_def)
  ultimately show ?case using Cons by (simp add: gpu_slots_def)
qed (simp add: gpu_slots_def)

lemma stage_plan_ok:
  assumes "stage_plan spec = Inr ps"
  shows "map sp_stage ps = map int [0..<nat (ic_pp spec)]" "distinct (map sp_node_id ps)"
    "list_all (placed_on (ic_tp spec) (stage_eligible spec)) ps" "distinct (gpu_slots ps)"
proof -
  note a = assign_stages_ok [OF stage_plan_Inr(3) [OF assms]]
  show "map sp_stage ps = map int [0..<nat (ic_pp spec)]" using a length_stage_sites [OF stage_plan_Inr(2) [OF assms]] by simp
  show d: "distinct (map sp_node_id ps)" using a by simp
  show pl: "list_all (placed_on (ic_tp spec) (stage_eligible spec)) ps" using a by (simp add: placed_on_def [abs_def])
  show "distinct (gpu_slots ps)" by (rule gpu_slots_distinct [OF d]) (use pl in \<open>auto simp: list_all_iff placed_on_def\<close>)
qed

text \<open>
  (C26) A plan places each of the \<^verbatim>\<open>pp\<close> stages, numbered from 0, on a node of its own: a declared member with at
  least \<^verbatim>\<open>tp\<close> GPUs whose boot assurance does not exclude it, in the site the placement names, using GPUs 0 to \<^verbatim>\<open>tp - 1\<close>.
\<close>

theorem stage_plan_places_every_stage:
  assumes "stage_plan spec = Inr ps"
  shows "map sp_stage ps = map int [0..<nat (ic_pp spec)] \<and> distinct (map sp_node_id ps) \<and>
    (\<forall>p \<in> set ps. sp_gpu_indices p = [0..ic_tp spec - 1] \<and>
      (\<exists>m \<in> set (ic_members spec). im_node_id m = sp_node_id p \<and> im_site_id m = sp_site_id p \<and>
         ic_tp spec \<le> im_gpu_count m \<and> member_boot_schedulable m))"
proof -
  note ok = stage_plan_ok [OF assms]
  have "sp_gpu_indices p = [0..ic_tp spec - 1] \<and>
      (\<exists>m \<in> set (ic_members spec). im_node_id m = sp_node_id p \<and> im_site_id m = sp_site_id p \<and>
         ic_tp spec \<le> im_gpu_count m \<and> member_boot_schedulable m)" if "p \<in> set ps" for p
    using ok(3) that by (auto simp: list_all_iff placed_on_def stage_eligible_def)
  with ok(1,2) show ?thesis by blast
qed

text \<open>
  The planner and the lease tables fit: a planned cell asks for each GPU slot once, so that its
  request is granted whenever none of the slots is leased, and then holds all of them.
\<close>

theorem planned_slots_granted:
  assumes "stage_plan spec = Inr ps" and "list_all (\<lambda>k. table_holders (gpu_leases st) k = {}) (gpu_slots ps)"
  shows "\<exists>st'. acquire_inference_gpu_leases now lease_id cell_key (gpu_slots ps) ttl st = (True, st') \<and>
    (\<forall>k \<in> set (gpu_slots ps). table_holders (gpu_leases st') k = {lease_id})"
proof -
  have "\<forall>k \<in> set (gpu_slots ps). table_holders (gpu_leases st) k = {}" using assms(2) by (simp add: list_all_iff)
  from gpu.granted [OF stage_plan_ok(4) [OF assms(1)] this, of now lease_id cell_key ttl] show ?thesis by auto
qed

section \<open>When a plan exists\<close>

lemma set_site_order_fold:
  "set (fold (\<lambda>m sites. if im_site_id m \<in> set sites then sites else sites @ [im_site_id m]) ms acc) =
     set acc \<union> im_site_id ` set ms"
  by (induction ms arbitrary: acc) auto

lemma set_site_order [simp]: "set (site_order ms) = im_site_id ` set ms"
  by (simp add: site_order_def set_site_order_fold)

definition free_members :: "InferenceMemberSpec list \<Rightarrow> string set \<Rightarrow> string \<Rightarrow> InferenceMemberSpec set" where
  "free_members eligible used site = {m \<in> set eligible. im_site_id m = site \<and> im_node_id m \<notin> used}"

lemma finite_free_members [simp]: "finite (free_members eligible used site)"
  by (simp add: free_members_def)

lemma free_members_taken:
  assumes "distinct (map im_node_id eligible)" and "m \<in> free_members eligible used site"
  shows "free_members eligible (insert (im_node_id m) used) s = free_members eligible used s - {m}"
  using assms by (auto simp: free_members_def distinct_map inj_on_def)

lemma assign_stages_iff:
  assumes "distinct (map im_node_id eligible)"
  shows "(\<exists>ps. assign_stages tp eligible used stage sites = Inr ps) \<longleftrightarrow>
    (\<forall>s \<in> set sites. count_list sites s \<le> card (free_members eligible used s))"
  using assms
proof (induction tp eligible used stage sites rule: assign_stages.induct)
  case (2 tp eligible used stage site sites)
  show ?case
  proof (cases "find (\<lambda>m. im_site_id m = site \<and> im_node_id m \<notin> used) eligible")
    case None
    then have "free_members eligible used site = {}" by (auto simp: free_members_def find_None_iff)
    with None show ?thesis by auto
  next
    case (Some m)
    then have m: "m \<in> free_members eligible used site" by (auto simp: free_members_def find_Some_iff)
    note taken = free_members_taken [OF "2.prems" m]
    have here: "card (free_members eligible used site) = Suc (card (free_members eligible used site - {m}))"
      using card_Suc_Diff1 [OF finite_free_members m] by simp
    have other: "free_members eligible used s - {m} = free_members eligible used s" if "s \<noteq> site" for s
      using m that by (auto simp: free_members_def)
    have "(\<exists>ps. assign_stages tp eligible used stage (site # sites) = Inr ps) \<longleftrightarrow>
        (\<exists>ps. assign_stages tp eligible (insert (im_node_id m) used) (stage + 1) sites = Inr ps)"
      by (auto simp: Some rbind_def split: sum.splits)
    also have "\<dots> \<longleftrightarrow> (\<forall>s \<in> set sites. count_list sites s \<le> card (free_members eligible used s - {m}))"
      using "2.IH" [OF Some "2.prems"] by (simp add: taken)
    also have "\<dots> \<longleftrightarrow> (\<forall>s \<in> set (site # sites). count_list (site # sites) s \<le> card (free_members eligible used s))"
    proof -
      have step: "count_list sites s \<le> card (free_members eligible used s - {m}) \<longleftrightarrow>
          count_list (site # sites) s \<le> card (free_members eligible used s)" for s
        using here other [of s] by (cases "s = site") simp_all
      have "count_list (site # sites) site \<le> card (free_members eligible used site)" if "site \<notin> set sites"
        using here count_list_0_iff [of sites site] that by simp
      then show ?thesis unfolding step by auto
    qed
    finally show ?thesis .
  qed
qed simp

lemma card_members_of_site:
  "distinct (map im_node_id ms) \<Longrightarrow> card (free_members ms {} s) = length (filter (\<lambda>m. im_site_id m = s) ms)"
  by (simp add: free_members_def distinct_map distinct_length_filter Int_def conj_commute)

text \<open>
  Exactly when a cell can be planned. With members on distinct nodes, a plan exists if and only if the
  parallelism is positive, enough members are eligible, and each site of the chosen pattern of sites has as many
  eligible members as stages. The pattern is fixed by the order of the sites: a cell may be refused although another
  distribution of its stages over the same members would fit.
\<close>

theorem stage_plan_exists_iff:
  assumes "distinct (map im_node_id (stage_eligible spec))"
  shows "(\<exists>ps. stage_plan spec = Inr ps) \<longleftrightarrow>
    0 < ic_tp spec \<and> 0 < ic_pp spec \<and> ic_pp spec \<le> int (length (stage_eligible spec)) \<and>
    (\<forall>s \<in> set (stage_sites spec (site_order (stage_eligible spec))).
       count_list (stage_sites spec (site_order (stage_eligible spec))) s \<le>
       length (filter (\<lambda>m. im_site_id m = s) (stage_eligible spec)))"
proof -
  let ?el = "stage_eligible spec"
  have d: "distinct (map im_node_id (ordered_stage_candidates spec ?el))"
    using assms by (simp add: distinct_ordered_stage_candidates)
  have same: "free_members (ordered_stage_candidates spec ?el) {} s = free_members ?el {} s" for s
    by (simp add: free_members_def)
  have "site_order ?el \<noteq> []" if "0 < ic_pp spec" "ic_pp spec \<le> int (length ?el)"
    using that set_site_order [of ?el] by (metis empty_set image_is_empty int_nat_eq leD list.size(3) of_nat_0 set_empty)
  then show ?thesis
    using assign_stages_iff [OF d, of "ic_tp spec" "{}" 0 "stage_sites spec (site_order ?el)"]
    by (auto simp: stage_plan_def Let_def same card_members_of_site [OF assms])
qed

section \<open>What an admission promises\<close>

lemma sorted_last_max: "sorted xs \<Longrightarrow> x \<in> set xs \<Longrightarrow> x \<le> last xs"
  by (induction xs) auto

lemma metric_lookup_worst:
  assumes "metric_lookup metrics a b = Some m"
  shows "m \<in> set (metric_candidates metrics a b)"
    and "x \<in> set (metric_candidates metrics a b) \<Longrightarrow> metric_key x \<le> metric_key m"
proof -
  let ?ys = "sort_key metric_key (rev (metric_candidates metrics a b))"
  from assms obtain zs where "rev ?ys = m # zs" by (auto simp: metric_lookup_def split: list.splits)
  then have ys: "?ys = rev zs @ [m]" by (metis rev.simps(2) rev_rev_ident)
  have s: "set ?ys = set (metric_candidates metrics a b)" by simp
  show "m \<in> set (metric_candidates metrics a b)" unfolding s [symmetric] ys by simp
  assume "x \<in> set (metric_candidates metrics a b)"
  then have "metric_key x \<in> set (map metric_key ?ys)" unfolding s [symmetric] by simp
  from sorted_last_max [OF sorted_sort_key this] show "metric_key x \<le> metric_key m" by (simp add: ys)
qed

lemma metric_lookup_None: "metric_lookup metrics a b = None \<longleftrightarrow> metric_candidates metrics a b = []"
  by (auto simp: metric_lookup_def split: list.splits) (metis Nil_is_rev_conv length_0_conv length_sort length_rev)

text \<open>The pairs of sites a cell of these stages in this order sends traffic between.\<close>

definition cell_links :: "StagePlacement list \<Rightarrow> (string \<times> string) set" where
  "cell_links ps = {(sp_site_id (ps ! i), sp_site_id (ps ! Suc i)) | i. Suc i < length ps} \<union>
     {(sp_site_id (last ps), sp_site_id (hd ps))} - {(a, b). a = b}"

definition edge_sites :: "EdgeRequirement \<Rightarrow> string \<times> string" where
  "edge_sites e = (er_from_site e, er_to_site e)"

lemma boundary_edges_sites:
  "edge_sites ` set (boundary_edges ps) =
     {(sp_site_id (ps ! i), sp_site_id (ps ! Suc i)) | i. Suc i < length ps} - {(a, b). a = b}"
proof (induction ps rule: boundary_edges.induct)
  case (1 l r ps)
  have "{(sp_site_id ((l # r # ps) ! i), sp_site_id ((l # r # ps) ! Suc i)) | i. Suc i < length (l # r # ps)} =
      insert (sp_site_id l, sp_site_id r)
        {(sp_site_id ((r # ps) ! i), sp_site_id ((r # ps) ! Suc i)) | i. Suc i < length (r # ps)}" (is "?L = insert ?e ?R")
  proof
    show "?L \<subseteq> insert ?e ?R"
    proof
      fix x assume "x \<in> ?L"
      then obtain i where i: "x = (sp_site_id ((l # r # ps) ! i), sp_site_id ((l # r # ps) ! Suc i))"
        "Suc i < length (l # r # ps)" by blast
      show "x \<in> insert ?e ?R" by (cases i) (use i in auto)
    qed
    show "insert ?e ?R \<subseteq> ?L" by force
  qed
  with 1 show ?case by (auto simp: edge_sites_def edge_between_def)
qed auto

lemma required_edges_sites:
  "edge_sites ` set (boundary_edges ps @ return_edges ps) = cell_links ps"
proof -
  have "edge_sites ` set (return_edges ps) = {(sp_site_id (last ps), sp_site_id (hd ps))} - {(a, b). a = b}"
    by (auto simp: return_edges_def edge_sites_def edge_between_def)
  then show ?thesis unfolding set_append image_Un boundary_edges_sites cell_links_def Un_Diff by (simp only:)
qed

definition within_link_budget :: "InferenceCellSpec \<Rightarrow> LinkMetricSample \<Rightarrow> bool" where
  "within_link_budget spec m \<longleftrightarrow> lm_rtt_p95_ms m \<le> ic_rtt_p95_ms_max spec \<and>
     lm_jitter_p95_ms m \<le> ic_jitter_p95_ms_max spec \<and> lm_loss_pct m \<le> ic_loss_pct_max spec"

definition link_admitted :: "InferenceCellSpec \<Rightarrow> LinkMetricSample list \<Rightarrow> string \<times> string \<Rightarrow> bool" where
  "link_admitted spec metrics l \<longleftrightarrow>
     (case metric_lookup metrics (fst l) (snd l) of None \<Rightarrow> False | Some m \<Rightarrow> within_link_budget spec m)"

lemma edge_reasons_Nil:
  "edge_reasons spec e (metric_lookup metrics (er_from_site e) (er_to_site e)) = [] \<longleftrightarrow>
     link_admitted spec metrics (edge_sites e)"
  by (auto simp: edge_reasons_def link_admitted_def within_link_budget_def edge_sites_def not_less split: option.splits)

lemma perf_reasons_Nil:
  "perf_reasons spec net jit loss = [] \<longleftrightarrow>
     (case ic_compute_token_ms_p50 spec of None \<Rightarrow> True | Some c \<Rightarrow>
        c \<le> 0 \<or> net \<le> ic_alpha_net spec * c \<and> jit \<le> ic_beta_jitter spec * c \<and> loss \<le> ic_perf_loss_pct_max spec)"
  by (auto simp: perf_reasons_def not_less split: option.splits)

abbreviation report_metrics :: "InferenceCellSpec \<Rightarrow> LinkMetricSample list option \<Rightarrow> LinkMetricSample list" where
  "report_metrics spec lm \<equiv> (case lm of Some ms \<Rightarrow> ms | None \<Rightarrow> ic_link_metrics spec)"

lemma admission_evaluate_links:
  assumes "2 \<le> length placements"
  shows "adm_admitted (admission_evaluate spec placements lm) \<longleftrightarrow>
    (\<forall>l \<in> cell_links (sort_key sp_stage placements). link_admitted spec (report_metrics spec lm) l) \<and>
    perf_reasons spec (adm_net_cost_p95_ms (admission_evaluate spec placements lm))
      (adm_jitter_p95_ms (admission_evaluate spec placements lm))
      (adm_loss_pct (admission_evaluate spec placements lm)) = []"
proof -
  let ?o = "sort_key sp_stage placements"
  have "(\<forall>l \<in> cell_links ?o. link_admitted spec (report_metrics spec lm) l) \<longleftrightarrow>
      (\<forall>e \<in> set (boundary_edges ?o @ return_edges ?o).
         edge_reasons spec e (metric_lookup (report_metrics spec lm) (er_from_site e) (er_to_site e)) = [])"
    unfolding required_edges_sites [symmetric] edge_reasons_Nil by blast
  with assms show ?thesis by (auto simp: admission_evaluate_def Let_def)
qed

text \<open>
  The decision of admission: a cell of two or more stages is admitted exactly when for each pair of
  different sites that neighbouring stages, or the last and the first, are in, the sample looked up is there
  and within the link budget, and with a positive compute time the summed cost, the worst jitter and the worst
  loss are within the performance budget.
\<close>

theorem admission_decision:
  assumes "2 \<le> length placements" and "r = admission_evaluate spec placements lm"
  shows "adm_admitted r \<longleftrightarrow>
    (\<forall>l \<in> cell_links (sort_key sp_stage placements). link_admitted spec (report_metrics spec lm) l) \<and>
    (case ic_compute_token_ms_p50 spec of None \<Rightarrow> True | Some c \<Rightarrow> c \<le> 0 \<or>
       adm_net_cost_p95_ms r \<le> ic_alpha_net spec * c \<and> adm_jitter_p95_ms r \<le> ic_beta_jitter spec * c \<and>
       adm_loss_pct r \<le> ic_perf_loss_pct_max spec)"
  using admission_evaluate_links [OF assms(1), of spec lm] unfolding assms(2) perf_reasons_Nil .

text \<open>
  Admission is conservative in the round-trip time: no sample of a link an admitted cell uses, in the
  direction it uses it, exceeds the budget.
\<close>

theorem admitted_rtt_conservative:
  assumes "2 \<le> length placements" and "adm_admitted (admission_evaluate spec placements (Some metrics))"
    and "(a, b) \<in> cell_links (sort_key sp_stage placements)" and "m \<in> set metrics"
    and "lm_from_site m = a" and "lm_to_site m = b"
  shows "lm_rtt_p95_ms m \<le> ic_rtt_p95_ms_max spec"
proof -
  have "link_admitted spec metrics (a, b)"
    using admission_evaluate_links [OF assms(1), of spec "Some metrics"] assms(2,3) by auto
  then obtain w where w: "metric_lookup metrics a b = Some w" "within_link_budget spec w"
    by (auto simp: link_admitted_def split: option.splits)
  have "m \<in> set (metric_candidates metrics a b)" using assms(4-6) by (auto simp: metric_candidates_def Let_def filter_empty_conv)
  from metric_lookup_worst(2) [OF w(1) this] have "lm_rtt_p95_ms m \<le> lm_rtt_p95_ms w"
    by (auto simp: metric_key_def less_eq_prod_def)
  with w(2) show ?thesis by (simp add: within_link_budget_def)
qed

lemma measured_edges_cost:
  assumes "list_all (\<lambda>e. link_admitted spec metrics (edge_sites e)) es"
  shows "sum_list (map (\<lambda>m. lm_rtt_p95_ms m / 2) (map snd (measured_edges metrics es))) \<le>
    of_nat (length es) * (ic_rtt_p95_ms_max spec / 2)"
  using assms
proof (induction es)
  case (Cons e es)
  from Cons.prems obtain m where "metric_lookup metrics (er_from_site e) (er_to_site e) = Some m"
    "lm_rtt_p95_ms m \<le> ic_rtt_p95_ms_max spec"
    by (auto simp: link_admitted_def edge_sites_def within_link_budget_def split: option.splits)
  with Cons show ?case by (simp add: measured_edges_def map_filter_simps algebra_simps add_mono)
qed (simp add: measured_edges_def map_filter_simps)

lemma boundary_edges_length: "length (boundary_edges ps) \<le> length ps - 1"
  by (induction ps rule: boundary_edges.induct) auto

text \<open>
  Bounds of an admitted cell: its boundaries and its return edge are at most as many as its stages, and its
  network cost is at most that many half round trips of the link budget.
\<close>

theorem admitted_net_cost_bounded:
  assumes "2 \<le> length placements" and "r = admission_evaluate spec placements lm" and "adm_admitted r"
  shows "adm_b_boundaries r + adm_r_return r \<le> int (length placements) \<and>
    adm_net_cost_p95_ms r \<le> of_int (adm_b_boundaries r + adm_r_return r) * (ic_rtt_p95_ms_max spec / 2)"
proof -
  let ?o = "sort_key sp_stage placements"
  let ?es = "boundary_edges ?o @ return_edges ?o"
  have len: "adm_b_boundaries r + adm_r_return r = int (length ?es)"
    "adm_net_cost_p95_ms r = sum_list (map (\<lambda>m. lm_rtt_p95_ms m / 2) (map snd (measured_edges (report_metrics spec lm) ?es)))"
    using assms(1) by (simp_all add: assms(2) admission_evaluate_def Let_def)
  have "\<forall>l \<in> cell_links ?o. link_admitted spec (report_metrics spec lm) l"
    using admission_evaluate_links [OF assms(1)] assms(2,3) by blast
  then have "list_all (\<lambda>e. link_admitted spec (report_metrics spec lm) (edge_sites e)) ?es"
    unfolding required_edges_sites [symmetric] by (auto simp: list_all_iff)
  from measured_edges_cost [OF this] have "adm_net_cost_p95_ms r \<le> of_nat (length ?es) * (ic_rtt_p95_ms_max spec / 2)"
    unfolding len(2) .
  moreover have "length ?es \<le> length placements"
    using boundary_edges_length [of ?o] assms(1) by (auto simp: return_edges_def)
  ultimately show ?thesis unfolding len(1) by simp
qed

section \<open>Examples\<close>

definition demo_member :: "string \<Rightarrow> string \<Rightarrow> InferenceMemberSpec" where
  "demo_member site node = \<lparr>im_site_id = site, im_node_id = node, im_gpu_count = 2, im_role = None,
     im_compute_eligible = True, im_boot_assurance = None\<rparr>"

definition demo_cell :: "int \<Rightarrow> InferenceMemberSpec list \<Rightarrow> LinkMetricSample list \<Rightarrow> InferenceCellSpec" where
  "demo_cell pp ms metrics =
     \<lparr>cs_ttl_seconds = 300, cs_master_stage = 0, cs_master_port_min = 22000, cs_master_port_max = 22100,
      cs_api_port_min = 18080, cs_api_port_max = 18180, cs_executor_type = ''ray'', cs_fallback_mode = ''mp_on_failure'',
      cs_policy_mode = ''strict_membership'', ic_cell_contract = None, ic_tp = 2, ic_pp = pp, ic_members = ms,
      ic_pack_stages_by_site = True, ic_rtt_p95_ms_max = 30, ic_jitter_p95_ms_max = 3, ic_loss_pct_max = 1,
      ic_compute_token_ms_p50 = None, ic_alpha_net = 1, ic_beta_jitter = 1, ic_perf_loss_pct_max = 1,
      ic_link_metrics = metrics\<rparr>"

definition demo_sample :: "string \<Rightarrow> string \<Rightarrow> rat \<Rightarrow> rat \<Rightarrow> LinkMetricSample" where
  "demo_sample a b rtt jitter = \<lparr>lm_from_site = a, lm_to_site = b, lm_rtt_p95_ms = rtt, lm_jitter_p95_ms = jitter, lm_loss_pct = 0\<rparr>"

definition two_sites :: InferenceCellSpec where
  "two_sites = demo_cell 2 [demo_member ''A'' ''n1'', demo_member ''B'' ''n2'']
     [demo_sample ''A'' ''B'' 20 1, demo_sample ''A'' ''B'' 10 50]"

definition two_sites_plan :: "StagePlacement list" where
  "two_sites_plan = [\<lparr>sp_stage = 0, sp_site_id = ''A'', sp_node_id = ''n1'', sp_gpu_indices = [0, 1]\<rparr>,
     \<lparr>sp_stage = 1, sp_site_id = ''B'', sp_node_id = ''n2'', sp_gpu_indices = [0, 1]\<rparr>]"

lemma two_sites_planned: "stage_plan two_sites = Inr two_sites_plan"
  by code_simp

lemma two_sites_admitted: "adm_admitted (admission_evaluate two_sites two_sites_plan None)"
  by code_simp

text \<open>
  The sample looked up is the worst only in its round-trip time, not, as a comment has it, the worst sample: a
  cell is admitted over a link one of whose samples has a jitter far beyond the budget.
\<close>

theorem admitted_with_jitter_over_budget:
  "stage_plan two_sites = Inr two_sites_plan \<and> adm_admitted (admission_evaluate two_sites two_sites_plan None) \<and>
   (''A'', ''B'') \<in> cell_links two_sites_plan \<and>
   (\<exists>m \<in> set (ic_link_metrics two_sites). lm_from_site m = ''A'' \<and> lm_to_site m = ''B'' \<and>
      ic_jitter_p95_ms_max two_sites < lm_jitter_p95_ms m)"
proof (intro conjI)
  show "(''A'', ''B'') \<in> cell_links two_sites_plan"
    by (auto simp: cell_links_def two_sites_plan_def intro!: exI [of _ 0])
  show "\<exists>m \<in> set (ic_link_metrics two_sites). lm_from_site m = ''A'' \<and> lm_to_site m = ''B'' \<and>
      ic_jitter_p95_ms_max two_sites < lm_jitter_p95_ms m" by code_simp
qed (rule two_sites_planned two_sites_admitted)+

theorem stage_plan_places_every_stage_witness:
  "map sp_stage two_sites_plan = [0, 1] \<and> distinct (map sp_node_id two_sites_plan)"
proof -
  have "map int [0..<nat (ic_pp two_sites)] = [0, 1]" by code_simp
  with stage_plan_places_every_stage [OF two_sites_planned] show ?thesis by simp
qed

theorem planned_slots_granted_witness:
  "\<exists>st'. acquire_inference_gpu_leases 0 ''l'' ''c'' (gpu_slots two_sites_plan) 60 empty_leases = (True, st')"
proof -
  have "list_all (\<lambda>k. table_holders (gpu_leases empty_leases) k = {}) (gpu_slots two_sites_plan)"
    by (simp add: table_holders_def empty_leases_def list_all_iff)
  from planned_slots_granted [OF two_sites_planned this] show ?thesis by blast
qed

text \<open>Four eligible members, but three of them in the first site: the pattern two and two does not fit.\<close>

theorem stage_plan_exists_iff_witness:
  "\<not> (\<exists>ps. stage_plan (demo_cell 4 (map (demo_member ''A'') [''n1'', ''n2'', ''n3''] @ [demo_member ''B'' ''n4'']) []) = Inr ps)"
proof -
  let ?s = "demo_cell 4 (map (demo_member ''A'') [''n1'', ''n2'', ''n3''] @ [demo_member ''B'' ''n4'']) []"
  have d: "distinct (map im_node_id (stage_eligible ?s))" by code_simp
  have "''B'' \<in> set (stage_sites ?s (site_order (stage_eligible ?s)))" by code_simp
  moreover have "\<not> count_list (stage_sites ?s (site_order (stage_eligible ?s))) ''B'' \<le>
      length (filter (\<lambda>m. im_site_id m = ''B'') (stage_eligible ?s))" by code_simp
  ultimately show ?thesis using stage_plan_exists_iff [OF d] by blast
qed

lemma two_stages: "2 \<le> length two_sites_plan"
  by (simp add: two_sites_plan_def)

theorem admission_decision_witness: "link_admitted two_sites (ic_link_metrics two_sites) (''A'', ''B'')"
proof -
  have "(''A'', ''B'') \<in> cell_links (sort_key sp_stage two_sites_plan)"
    by (auto simp: cell_links_def two_sites_plan_def intro!: exI [of _ 0])
  then show ?thesis using admission_decision [OF two_stages refl, of two_sites None] two_sites_admitted by simp
qed

theorem admitted_rtt_conservative_witness:
  "lm_rtt_p95_ms (demo_sample ''A'' ''B'' 20 1) \<le> ic_rtt_p95_ms_max two_sites"
proof (rule admitted_rtt_conservative [OF two_stages])
  show "adm_admitted (admission_evaluate two_sites two_sites_plan (Some (ic_link_metrics two_sites)))" by code_simp
  show "(''A'', ''B'') \<in> cell_links (sort_key sp_stage two_sites_plan)"
    by (auto simp: cell_links_def two_sites_plan_def intro!: exI [of _ 0])
qed (auto simp: two_sites_def demo_cell_def demo_sample_def)

theorem admitted_net_cost_bounded_witness:
  "adm_net_cost_p95_ms (admission_evaluate two_sites two_sites_plan None) \<le> 30"
proof -
  have "of_int (adm_b_boundaries (admission_evaluate two_sites two_sites_plan None) +
      adm_r_return (admission_evaluate two_sites two_sites_plan None)) * (ic_rtt_p95_ms_max two_sites / 2) = 30" by code_simp
  with admitted_net_cost_bounded [OF two_stages refl two_sites_admitted] show ?thesis by simp
qed

end
