(* ===== verification/Cell_Store.thy ===== *)
theory Cell_Store
  imports Cell_Planner Nodes Registry
begin

text \<open>
  Inference cells in the state store (\<^verbatim>\<open>ae/controller/state.py\<close>): the tables of cells, cell events, cell
  sets and fabric sessions and every operation on them, next to the lease tables of \<open>Leases\<close> and
  the nodes of \<open>Nodes\<close>.

  The JSON columns of these tables are written only by the operations below, with dumps of
  dictionaries, lists and validated manifests: they are kept decoded. The phase column holds the values of the
  enumeration \<^verbatim>\<open>CellPhase\<close>.
\<close>

section \<open>Manifests and rows\<close>

record RayPorts =
  rp_head_port :: int
  rp_node_manager_port :: int
  rp_object_manager_port :: int
  rp_runtime_env_agent_port :: int
  rp_min_worker_port :: int
  rp_max_worker_port :: int
  rp_include_dashboard :: bool
  rp_dashboard_port :: int
  rp_ray_client_server_port :: "int option"
  rp_metrics_export_port :: "int option"

text \<open>A manifest: the metadata, the specification the planner reads and what the controller reads besides.\<close>

record InferenceCellManifest =
  cm_name :: string
  cm_namespace :: "string option"
  cm_labels :: "(string \<times> string) list"
  cm_spec :: InferenceCellSpec
  cm_model_id :: string
  cm_local_path :: string
  cm_ray_scope :: string
  cm_ray_ports :: RayPorts
  cm_ray_image :: string
  cm_mp_image :: string
  cm_launcher_image :: string
  cm_dtype :: "string option"
  cm_runtime_class_name :: "string option"
  cm_fabric_mode :: string
  cm_max_restarts :: int

datatype CellPhase =
    PENDING | ADMITTING | RESERVING | FABRIC | STARTING_WORKERS | STARTING_LEADER | JOINING | READY | RESTARTING | FAILED

datatype admission_doc = AdmissionJson dict | AdmissionOf AdmissionReport

record InferenceCellRecord =
  cl_cell_key :: string
  cl_namespace :: string
  cl_cell_id :: string
  cl_manifest :: InferenceCellManifest
  cl_phase :: CellPhase
  cl_tp :: int
  cl_pp :: int
  cl_executor_type :: string
  cl_ray_scope :: string
  cl_allocations :: dict
  cl_admission :: admission_doc
  cl_conditions :: dict
  cl_restarts :: int
  cl_last_error :: "string option"
  cl_source :: string
  cl_updated_at :: time

record InferenceCellEvent =
  ce_cell_key :: string
  ce_event_type :: string
  ce_message :: string
  ce_created_at :: time

record CellSetManifest =
  sm_set_name :: string
  sm_set_namespace :: "string option"
  sm_set_labels :: "(string \<times> string) list"
  sm_set_replicas :: int
  sm_set_template :: InferenceCellManifest
  sm_set_name_format :: string

record InferenceCellSetRecord =
  st_set_key :: string
  st_namespace :: string
  st_name :: string
  st_manifest :: CellSetManifest
  st_desired :: int
  st_current :: int
  st_ready :: int
  st_last_error :: "string option"
  st_source :: string
  st_updated_at :: time

record FabricSessionRecord =
  fb_session_id :: string
  fb_cell_key :: string
  fb_policy_mode :: string
  fb_members :: "json list"
  fb_allowed_rules :: "json list"
  fb_status :: string
  fb_expires_at :: "time option"
  fb_created_at :: time
  fb_updated_at :: time

record CellStore =
  db_cells :: "InferenceCellRecord list"
  db_events :: "InferenceCellEvent list"
  db_sets :: "InferenceCellSetRecord list"
  db_sessions :: "FabricSessionRecord list"
  db_leases :: InferenceTables
  db_nodes :: NodeStore

definition empty_cell_store :: "NodeStore \<Rightarrow> CellStore" where
  "empty_cell_store ns = \<lparr>db_cells = [], db_events = [], db_sets = [], db_sessions = [], db_leases = empty_leases, db_nodes = ns\<rparr>"

section \<open>Cells\<close>

definition or_default :: "string option \<Rightarrow> string" where
  "or_default ns = (case nonempty ns of None \<Rightarrow> default_namespace | Some n \<Rightarrow> n)"

definition inference_key :: "string \<Rightarrow> string option \<Rightarrow> string" where
  "inference_key name ns =
     (let n = strip (or_default ns) in app_key name (Some (if n = [] then default_namespace else n)))"

definition new_cell :: "time \<Rightarrow> InferenceCellManifest \<Rightarrow> string option \<Rightarrow> InferenceCellRecord" where
  "new_cell now m source =
     \<lparr>cl_cell_key = inference_key (cm_name m) (Some (or_default (cm_namespace m))),
      cl_namespace = or_default (cm_namespace m), cl_cell_id = cm_name m, cl_manifest = m, cl_phase = PENDING,
      cl_tp = ic_tp (cm_spec m), cl_pp = ic_pp (cm_spec m), cl_executor_type = cs_executor_type (cm_spec m),
      cl_ray_scope = cm_ray_scope m, cl_allocations = [], cl_admission = AdmissionJson [], cl_conditions = [],
      cl_restarts = 0, cl_last_error = None,
      cl_source = (case nonempty source of None \<Rightarrow> ''unknown'' | Some s \<Rightarrow> s), cl_updated_at = now\<rparr>"

text \<open>Registering a cell anew keeps its phase, allocations, admission, conditions, restarts and last error.\<close>

definition cl_reregister :: "InferenceCellRecord \<Rightarrow> InferenceCellRecord \<Rightarrow> InferenceCellRecord" where
  "cl_reregister n r = n\<lparr>cl_cell_key := cl_cell_key r, cl_phase := cl_phase r, cl_allocations := cl_allocations r,
     cl_admission := cl_admission r, cl_conditions := cl_conditions r, cl_restarts := cl_restarts r,
     cl_last_error := cl_last_error r\<rparr>"

definition register_inference_cell :: "time \<Rightarrow> InferenceCellManifest \<Rightarrow> string option \<Rightarrow> CellStore \<Rightarrow> CellStore" where
  "register_inference_cell now m source st =
     (let n = new_cell now m source
      in st\<lparr>db_cells := upsert cl_cell_key (cl_reregister n) n (db_cells st)\<rparr>)"

definition get_inference_cell :: "string \<Rightarrow> string option \<Rightarrow> CellStore \<Rightarrow> InferenceCellRecord option" where
  "get_inference_cell name ns st = find (\<lambda>r. cl_cell_key r = inference_key name ns) (db_cells st)"

definition list_inference_cells :: "string option \<Rightarrow> CellStore \<Rightarrow> InferenceCellRecord list" where
  "list_inference_cells ns st = (case nonempty ns of
     Some n \<Rightarrow> sort_key cl_cell_id (filter (\<lambda>r. cl_namespace r = n) (db_cells st))
   | None \<Rightarrow> sort_key cl_namespace (sort_key cl_cell_id (db_cells st)))"

text \<open>The keyword arguments of an update; an outer \<open>None\<close> is an argument left out.\<close>

record CellUpdate =
  cu_phase :: "CellPhase option"
  cu_allocations :: "dict option"
  cu_admission :: "admission_doc option"
  cu_conditions :: "dict option"
  cu_restarts :: "int option"
  cu_last_error :: "string option option"

definition apply_update :: "time \<times> CellUpdate \<Rightarrow> InferenceCellRecord \<Rightarrow> InferenceCellRecord" where
  "apply_update nu r = (case nu of (now, u) \<Rightarrow> r\<lparr>
     cl_phase := (case cu_phase u of None \<Rightarrow> cl_phase r | Some p \<Rightarrow> p),
     cl_allocations := (case cu_allocations u of None \<Rightarrow> cl_allocations r | Some a \<Rightarrow> a),
     cl_admission := (case cu_admission u of None \<Rightarrow> cl_admission r | Some a \<Rightarrow> a),
     cl_conditions := (case cu_conditions u of None \<Rightarrow> cl_conditions r | Some c \<Rightarrow> c),
     cl_restarts := (case cu_restarts u of None \<Rightarrow> cl_restarts r | Some n \<Rightarrow> n),
     cl_last_error := (case cu_last_error u of None \<Rightarrow> cl_last_error r | Some e \<Rightarrow> e),
     cl_updated_at := now\<rparr>)"

definition update_inference_cell_status ::
  "time \<Rightarrow> string \<Rightarrow> string option \<Rightarrow> CellUpdate \<Rightarrow> CellStore \<Rightarrow> bool \<times> CellStore" where
  "update_inference_cell_status now name ns u st =
     (let p = (\<lambda>r. cl_cell_key r = inference_key name ns)
      in if exists_row p (db_cells st)
         then (True, st\<lparr>db_cells := update_where p (apply_update (now, u)) (db_cells st)\<rparr>)
         else (False, st))"

definition delete_inference_cell :: "string \<Rightarrow> string option \<Rightarrow> CellStore \<Rightarrow> CellStore" where
  "delete_inference_cell name ns st =
     (let k = inference_key name ns
      in st\<lparr>db_cells := delete_where (\<lambda>r. cl_cell_key r = k) (db_cells st),
            db_events := delete_where (\<lambda>r. ce_cell_key r = k) (db_events st),
            db_sessions := delete_where (\<lambda>r. fb_cell_key r = k) (db_sessions st),
            db_leases := delete_cell_leases k (db_leases st)\<rparr>)"

definition record_inference_cell_event ::
  "time \<Rightarrow> string \<Rightarrow> string option \<Rightarrow> string \<Rightarrow> string \<Rightarrow> CellStore \<Rightarrow> CellStore" where
  "record_inference_cell_event now name ns event_type message st =
     st\<lparr>db_events := db_events st @ [\<lparr>ce_cell_key = inference_key name ns, ce_event_type = event_type,
          ce_message = message, ce_created_at = now\<rparr>]\<rparr>"

definition list_inference_cell_events :: "string \<Rightarrow> string option \<Rightarrow> int \<Rightarrow> CellStore \<Rightarrow> InferenceCellEvent list" where
  "list_inference_cell_events name ns limit st =
     sql_limit limit (rev (filter (\<lambda>e. ce_cell_key e = inference_key name ns) (db_events st)))"

section \<open>Cell sets\<close>

definition new_set :: "time \<Rightarrow> CellSetManifest \<Rightarrow> string option \<Rightarrow> InferenceCellSetRecord" where
  "new_set now m source =
     \<lparr>st_set_key = inference_key (sm_set_name m) (Some (or_default (sm_set_namespace m))),
      st_namespace = or_default (sm_set_namespace m), st_name = sm_set_name m, st_manifest = m,
      st_desired = sm_set_replicas m, st_current = 0, st_ready = 0, st_last_error = None,
      st_source = (case nonempty source of None \<Rightarrow> ''unknown'' | Some s \<Rightarrow> s), st_updated_at = now\<rparr>"

definition st_reregister :: "InferenceCellSetRecord \<Rightarrow> InferenceCellSetRecord \<Rightarrow> InferenceCellSetRecord" where
  "st_reregister n r = n\<lparr>st_set_key := st_set_key r, st_current := st_current r, st_ready := st_ready r,
     st_last_error := st_last_error r\<rparr>"

definition register_inference_cellset :: "time \<Rightarrow> CellSetManifest \<Rightarrow> string option \<Rightarrow> CellStore \<Rightarrow> CellStore" where
  "register_inference_cellset now m source st =
     (let n = new_set now m source
      in st\<lparr>db_sets := upsert st_set_key (st_reregister n) n (db_sets st)\<rparr>)"

definition get_inference_cellset :: "string \<Rightarrow> string option \<Rightarrow> CellStore \<Rightarrow> InferenceCellSetRecord option" where
  "get_inference_cellset name ns st = find (\<lambda>r. st_set_key r = inference_key name ns) (db_sets st)"

definition list_inference_cellsets :: "string option \<Rightarrow> CellStore \<Rightarrow> InferenceCellSetRecord list" where
  "list_inference_cellsets ns st = (case nonempty ns of
     Some n \<Rightarrow> sort_key st_name (filter (\<lambda>r. st_namespace r = n) (db_sets st))
   | None \<Rightarrow> sort_key st_namespace (sort_key st_name (db_sets st)))"

definition set_status :: "time \<times> int option \<times> int option \<times> int option \<times> string option option \<Rightarrow>
    InferenceCellSetRecord \<Rightarrow> InferenceCellSetRecord" where
  "set_status a r = (case a of (now, desired, current, ready, err) \<Rightarrow> r\<lparr>
     st_desired := (case desired of None \<Rightarrow> st_desired r | Some d \<Rightarrow> d),
     st_current := (case current of None \<Rightarrow> st_current r | Some d \<Rightarrow> d),
     st_ready := (case ready of None \<Rightarrow> st_ready r | Some d \<Rightarrow> d),
     st_last_error := (case err of None \<Rightarrow> st_last_error r | Some e \<Rightarrow> e),
     st_updated_at := now\<rparr>)"

definition update_inference_cellset_status ::
  "time \<Rightarrow> string \<Rightarrow> string option \<Rightarrow> int option \<Rightarrow> int option \<Rightarrow> int option \<Rightarrow> string option option
   \<Rightarrow> CellStore \<Rightarrow> bool \<times> CellStore" where
  "update_inference_cellset_status now name ns desired current ready err st =
     (let p = (\<lambda>r. st_set_key r = inference_key name ns)
      in if exists_row p (db_sets st)
         then (True, st\<lparr>db_sets := update_where p (set_status (now, desired, current, ready, err)) (db_sets st)\<rparr>)
         else (False, st))"

definition delete_inference_cellset :: "string \<Rightarrow> string option \<Rightarrow> CellStore \<Rightarrow> CellStore" where
  "delete_inference_cellset name ns st =
     st\<lparr>db_sets := delete_where (\<lambda>r. st_set_key r = inference_key name ns) (db_sets st)\<rparr>"

section \<open>Fabric sessions\<close>

definition fb_replace :: "FabricSessionRecord \<Rightarrow> FabricSessionRecord \<Rightarrow> FabricSessionRecord" where
  "fb_replace n r = n\<lparr>fb_session_id := fb_session_id r, fb_created_at := fb_created_at r\<rparr>"

definition upsert_fabric_session ::
  "time \<Rightarrow> string \<Rightarrow> string \<Rightarrow> string \<Rightarrow> json list \<Rightarrow> json list \<Rightarrow> string \<Rightarrow> time option \<Rightarrow> CellStore \<Rightarrow> CellStore" where
  "upsert_fabric_session now session_id cell_key policy_mode members allowed_rules status expires_at st =
     (let n = \<lparr>fb_session_id = session_id, fb_cell_key = cell_key, fb_policy_mode = policy_mode, fb_members = members,
               fb_allowed_rules = allowed_rules, fb_status = status, fb_expires_at = expires_at, fb_created_at = now,
               fb_updated_at = now\<rparr>
      in st\<lparr>db_sessions := upsert fb_session_id (fb_replace n) n (db_sessions st)\<rparr>)"

definition delete_fabric_session :: "string \<Rightarrow> CellStore \<Rightarrow> CellStore" where
  "delete_fabric_session session_id st =
     st\<lparr>db_sessions := delete_where (\<lambda>r. fb_session_id r = session_id) (db_sessions st)\<rparr>"

definition list_fabric_sessions :: "string option \<Rightarrow> string option \<Rightarrow> CellStore \<Rightarrow> FabricSessionRecord list" where
  "list_fabric_sessions cell_name ns st =
     sort_key (\<lambda>r. - fb_created_at r) (case nonempty cell_name of
        Some c \<Rightarrow> filter (\<lambda>r. fb_cell_key r = inference_key c ns) (db_sessions st)
      | None \<Rightarrow> db_sessions st)"

section \<open>Reading back\<close>

interpretation cl_reg: keyed_update cl_cell_key cl_reregister
  by unfold_locales (simp add: cl_reregister_def)

interpretation cl_upd: keyed_update cl_cell_key apply_update
  by unfold_locales (simp add: apply_update_def split: prod.split)

interpretation st_reg: keyed_update st_set_key st_reregister
  by unfold_locales (simp add: st_reregister_def)

interpretation st_upd: keyed_update st_set_key set_status
  by unfold_locales (simp add: set_status_def split: prod.split)

interpretation fb_upd: keyed_update fb_session_id fb_replace
  by unfold_locales (simp add: fb_replace_def)

lemma or_default_nonempty: "or_default ns \<noteq> []"
  by (auto simp: or_default_def default_namespace_def nonempty_def split: option.splits list.splits)

lemma or_default_idem [simp]: "or_default (Some (or_default ns)) = or_default ns"
  using or_default_nonempty [of ns] by (cases "or_default ns") (auto simp: or_default_def nonempty_def)

lemma inference_key_default [simp]: "inference_key name (Some (or_default ns)) = inference_key name ns"
  by (simp add: inference_key_def)

lemma new_cell_simps [simp]:
  "cl_cell_key (new_cell now m source) = inference_key (cm_name m) (cm_namespace m)"
  "cl_phase (new_cell now m source) = PENDING" "cl_allocations (new_cell now m source) = []"
  "cl_restarts (new_cell now m source) = 0" "cl_conditions (new_cell now m source) = []"
  "cl_manifest (new_cell now m source) = m" "cl_namespace (new_cell now m source) = or_default (cm_namespace m)"
  "cl_cell_id (new_cell now m source) = cm_name m"
  by (simp_all add: new_cell_def)

lemma cl_reregister_simps [simp]:
  "cl_cell_key (cl_reregister n r) = cl_cell_key r" "cl_phase (cl_reregister n r) = cl_phase r"
  "cl_allocations (cl_reregister n r) = cl_allocations r" "cl_restarts (cl_reregister n r) = cl_restarts r"
  "cl_manifest (cl_reregister n r) = cl_manifest n" "cl_conditions (cl_reregister n r) = cl_conditions r"
  by (simp_all add: cl_reregister_def)

lemma get_registered_cell:
  "get_inference_cell (cm_name m) (cm_namespace m) (register_inference_cell now m source st) =
     Some (case get_inference_cell (cm_name m) (cm_namespace m) st of
       None \<Rightarrow> new_cell now m source | Some r \<Rightarrow> cl_reregister (new_cell now m source) r)"
  by (simp add: get_inference_cell_def register_inference_cell_def cl_reg.lookup_upsert Let_def)

lemma get_updated_cell:
  "get_inference_cell name ns (snd (update_inference_cell_status now name ns u st)) =
     map_option (apply_update (now, u)) (get_inference_cell name ns st)"
  by (auto simp: get_inference_cell_def update_inference_cell_status_def cl_upd.lookup_update_key Let_def
      exists_row_find split: option.splits)

lemma update_found: "fst (update_inference_cell_status now name ns u st) \<longleftrightarrow> get_inference_cell name ns st \<noteq> None"
  by (auto simp: update_inference_cell_status_def get_inference_cell_def exists_row_find Let_def)

end
