(* ===== verification/Cell_Control.thy ===== *)
theory Cell_Control
  imports Cell_Store
begin

text \<open>
  The reconcile lane of inference cells (\<^verbatim>\<open>InferenceCellController\<close> in \<^verbatim>\<open>ae/controller/inference_cell.py\<close>): a cell
  goes from admission over reservation, fabric session, workers and leader to ready, one phase per call
  of \<^verbatim>\<open>_run_once\<close>, and back through a restart.

  The state is the store together with the log of what was asked of agents and runtimes; what the
  \<open>n\<close>-th of them answered is a function in the environment argument, as are the clock, the generated ids, the
  digest, the validation of rendered manifests, the host name in an endpoint, the link metrics and GPU
  counts that nodes report and the texts of exceptions and reasons. Of a container the model has the \<^verbatim>\<open>ae.app\<close> label and whether it is running.
  A step sees one value of the clock.
\<close>

section \<open>State and environment\<close>

datatype cell_action =
    AgentEnsure string string
  | AgentTeardown string string
  | EnsureApp string string json
  | RemoveApp string string
  | ListContainers string
  | ProbeApi string

record CellSys =
  sy_db :: CellStore
  sy_log :: "cell_action list"

record cell_env =
  en_execution_enabled :: bool
  en_now :: time
  en_now_iso :: string
  en_lease_id :: string
  en_session_id :: string
  en_digest :: "string \<Rightarrow> string"
  en_agent :: "nat \<Rightarrow> bool result"
  en_apply :: "nat \<Rightarrow> dict list result"
  en_infos :: "nat \<Rightarrow> (string \<times> bool) list result"
  en_probe :: "nat \<Rightarrow> bool \<times> string"
  en_validate :: "json \<Rightarrow> py_error option"
  en_hostname :: "string \<Rightarrow> string"
  en_hold_on_failure :: "string option"
  en_runtime_class :: "string option"
  en_metrics :: "LinkMetricSample list"
  en_gpu_count :: "NodeRecord \<Rightarrow> int option"
  en_has_inventory :: "json \<Rightarrow> bool"
  en_norm :: "json \<Rightarrow> json"
  en_reason_text :: "admission_reason \<Rightarrow> string"
  en_str :: "py_error \<Rightarrow> string"

definition act :: "cell_action \<Rightarrow> CellSys \<Rightarrow> CellSys" where
  "act a s = s\<lparr>sy_log := sy_log s @ [a]\<rparr>"

definition tick :: "CellSys \<Rightarrow> nat" where
  "tick s = length (sy_log s)"

section \<open>Allocations\<close>

definition alloc_str :: "dict \<Rightarrow> string \<Rightarrow> string" where
  "alloc_str alloc k = py_str (py_or (dict_get alloc k) (JStr []))"

definition alloc_int :: "dict \<Rightarrow> string \<Rightarrow> int result" where
  "alloc_int alloc k = py_int_raise (py_or (dict_get alloc k) (JInt 0))"

definition alloc_list :: "dict \<Rightarrow> string \<Rightarrow> json list result" where
  "alloc_list alloc k = py_iter (py_or (dict_get alloc k) (JArr []))"

definition placement_to_dict :: "StagePlacement \<Rightarrow> json" where
  "placement_to_dict p = JObj [(''stage'', JInt (sp_stage p)), (''site_id'', JStr (sp_site_id p)),
     (''node_id'', JStr (sp_node_id p)), (''gpu_indices'', JArr (map JInt (sp_gpu_indices p)))]"

definition placement_from_dict :: "dict \<Rightarrow> StagePlacement result" where
  "placement_from_dict d =
     rbind (py_int_raise (case map_of d ''stage'' of None \<Rightarrow> JInt 0 | Some v \<Rightarrow> v)) (\<lambda>stage.
     rbind (alloc_list d ''gpu_indices'') (\<lambda>gs. rbind (rmap py_int_raise gs) (\<lambda>gpus.
       Inr \<lparr>sp_stage = stage, sp_site_id = alloc_str d ''site_id'', sp_node_id = alloc_str d ''node_id'', sp_gpu_indices = gpus\<rparr>)))"

definition alloc_stage_placements :: "dict \<Rightarrow> StagePlacement list result" where
  "alloc_stage_placements alloc =
     rbind (alloc_list alloc ''placements'') (\<lambda>items.
     rbind (rmap placement_from_dict (List.map_filter as_dict items)) (\<lambda>ps. Inr (sort_key sp_stage ps)))"

definition slot_to_dict :: "string \<times> int \<Rightarrow> json" where
  "slot_to_dict s = JObj [(''node_id'', JStr (fst s)), (''gpu_index'', JInt (snd s))]"

definition slot_from_dict :: "dict \<Rightarrow> (string \<times> int) result" where
  "slot_from_dict d = rbind (alloc_int d ''gpu_index'') (\<lambda>g. Inr (alloc_str d ''node_id'', g))"

definition lease_from_allocations :: "dict \<Rightarrow> LeaseBundle option result" where
  "lease_from_allocations alloc =
     (if alloc_str alloc ''lease_id'' = [] then Inr None
      else rbind (alloc_list alloc ''gpu_slots'') (\<lambda>items.
           rbind (rmap slot_from_dict (List.map_filter as_dict items)) (\<lambda>slots.
           rbind (alloc_list alloc ''locked_nodes'') (\<lambda>locked.
           rbind (if dict_get alloc ''master_port'' = JNull then Inr None
                  else rbind (py_int_raise (dict_get alloc ''master_port'')) (\<lambda>p. Inr (Some p))) (\<lambda>mp.
           rbind (alloc_int alloc ''api_port'') (\<lambda>ap.
             Inr (Some (mk_bundle (alloc_str alloc ''lease_id'') slots mp ap (map py_str locked)))))))))"

definition make_condition :: "cell_env \<Rightarrow> string \<Rightarrow> bool \<Rightarrow> string \<Rightarrow> dict \<Rightarrow> dict" where
  "make_condition env name ok message existing =
     dict_put name (JObj [(''status'', JBool ok), (''message'', JStr message),
       (''last_transition_at'', JStr (en_now_iso env))]) existing"

definition port_rule :: "int \<Rightarrow> json" where
  "port_rule p = JObj [(''proto'', JStr ''tcp''), (''port'', JInt p)]"

definition build_allowed_rules :: "InferenceCellManifest \<Rightarrow> LeaseBundle \<Rightarrow> json list" where
  "build_allowed_rules m lease =
     (let rp = cm_ray_ports m; opt = (\<lambda>p. case p of None \<Rightarrow> [] | Some x \<Rightarrow> [port_rule x]);
          base = [port_rule (lb_api_port lease)] @ opt (lb_master_port lease)
      in if cs_executor_type (cm_spec m) = ''mp'' then base
         else base @ map port_rule [rp_head_port rp, rp_node_manager_port rp, rp_object_manager_port rp,
                rp_runtime_env_agent_port rp] @
              [JObj [(''proto'', JStr ''tcp''), (''range'', JArr [JInt (rp_min_worker_port rp), JInt (rp_max_worker_port rp)])]] @
              opt (rp_ray_client_server_port rp) @ opt (rp_metrics_export_port rp) @
              (if rp_include_dashboard rp then [port_rule (rp_dashboard_port rp)] else []))"

section \<open>The fabric broker\<close>

record FabricSessionInfo =
  si_session_id :: string
  si_ifname :: string
  si_member_ips :: "(string \<times> string) list"
  si_expires :: time
  si_policy_mode :: string
  si_allowed_rules :: "json list"
  si_fabric_mode :: string

definition hex_value :: "char \<Rightarrow> int" where
  "hex_value c = (if is_digit c then int (digit_value c) else int (of_char c) - 87)"

definition octet3 :: "string \<Rightarrow> int" where
  "octet3 digest = foldl (\<lambda>n c. 16 * n + hex_value c) 0 (take 2 digest) mod 200 + 20"

definition member_addresses :: "string \<Rightarrow> StagePlacement list \<Rightarrow> (StagePlacement \<times> string) list" where
  "member_addresses digest placements =
     (let ps = sort_key sp_node_id placements
      in map (\<lambda>i. (ps ! i, ''10.250.'' @ show_int (octet3 digest) @ ''.'' @ show_nat (i + 1))) [0..<length ps])"

definition member_json :: "StagePlacement \<times> string \<Rightarrow> json" where
  "member_json a = (case a of (p, ip) \<Rightarrow> JObj [(''node_id'', JStr (sp_node_id p)), (''site_id'', JStr (sp_site_id p)),
     (''fabric_ip'', JStr ip), (''stage'', JInt (sp_stage p))])"

definition create_session ::
  "cell_env \<Rightarrow> string \<Rightarrow> string \<Rightarrow> string \<Rightarrow> int \<Rightarrow> StagePlacement list \<Rightarrow> json list \<Rightarrow> CellStore
   \<Rightarrow> FabricSessionInfo \<times> CellStore" where
  "create_session env cell_key policy_mode mode ttl_seconds placements rules st =
     (let digest = en_digest env cell_key; ms = member_addresses digest placements;
          expires = en_now env + max 30 ttl_seconds * 1000000
      in (\<lparr>si_session_id = en_session_id env, si_ifname = ''wg-cell-'' @ take 8 digest,
           si_member_ips = fold (\<lambda>(p, ip) d. AList.update (sp_node_id p) ip d) ms [], si_expires = expires,
           si_policy_mode = policy_mode, si_allowed_rules = rules, si_fabric_mode = mode\<rparr>,
          upsert_fabric_session (en_now env) (en_session_id env) cell_key policy_mode (map member_json ms) rules ''active''
            (Some expires) st))"

section \<open>Nodes and runtimes\<close>

definition starts_with :: "string \<Rightarrow> string \<Rightarrow> bool" where
  "starts_with p s = (take (length p) s = p)"

fun contains :: "string \<Rightarrow> string \<Rightarrow> bool" where
  "contains p [] = (p = [])"
| "contains p (c # cs) = (starts_with p (c # cs) \<or> contains p cs)"

definition node_endpoint :: "NodeRecord \<Rightarrow> string" where
  "node_endpoint n = strip (case nd_endpoint n of None \<Rightarrow> [] | Some e \<Rightarrow> e)"

definition runtime_for_node :: "cell_env \<Rightarrow> string \<Rightarrow> CellStore \<Rightarrow> string result" where
  "runtime_for_node env node_id st = (case get_node (en_norm env) node_id (db_nodes st) of
     None \<Rightarrow> Inl (RuntimeError (''node '' @ node_id @ '' not registered''))
   | Some (n, _) \<Rightarrow>
       let ep = node_endpoint n
       in if ep = [] then Inl (RuntimeError (''node '' @ node_id @ '' has no agent endpoint''))
          else if starts_with ''http://'' ep \<or> starts_with ''https://'' ep then Inr ep
          else Inr (''http://'' @ ep))"

definition node_hostport_endpoint :: "cell_env \<Rightarrow> string \<Rightarrow> int \<Rightarrow> CellStore \<Rightarrow> string" where
  "node_hostport_endpoint env node_id port st =
     (if node_id = [] \<or> port \<le> 0 then []
      else case get_node (en_norm env) node_id (db_nodes st) of
        None \<Rightarrow> []
      | Some (n, _) \<Rightarrow>
          let ep = node_endpoint n;
              host = strip (en_hostname env (if contains ''://'' ep then ep else ''http://'' @ ep))
          in if ep = [] \<or> host = [] then [] else host @ '':'' @ show_int port)"

definition resolve_api_endpoint :: "cell_env \<Rightarrow> dict \<Rightarrow> string \<Rightarrow> string \<Rightarrow> CellStore \<Rightarrow> string result" where
  "resolve_api_endpoint env alloc node_id api_endpoint st =
     (let given = strip api_endpoint
      in if given \<noteq> [] then Inr given
         else rbind (alloc_int alloc ''api_port'') (\<lambda>port.
           let ep = node_hostport_endpoint env node_id port st; master = strip (alloc_str alloc ''master_addr'')
           in Inr (if ep \<noteq> [] then ep
                   else if master \<noteq> [] \<and> 0 < port then master @ '':'' @ show_int port else [])))"

definition probe_leader_api :: "cell_env \<Rightarrow> dict \<Rightarrow> (CellSys, bool \<times> string) eff" where
  "probe_leader_api env alloc s =
     (case resolve_api_endpoint env alloc (alloc_str alloc ''leader_node_id'') (alloc_str alloc ''api_endpoint'') (sy_db s) of
        Inl e \<Rightarrow> (Inl e, s)
      | Inr [] \<Rightarrow> (Inr (False, ''missing api endpoint''), s)
      | Inr ep \<Rightarrow> (Inr (en_probe env (tick s)), act (ProbeApi ep) s))"

definition member_errors :: "cell_env \<Rightarrow> CellStore \<Rightarrow> InferenceMemberSpec \<Rightarrow> string list" where
  "member_errors env st m = (case get_node (en_norm env) (im_node_id m) (db_nodes st) of
     None \<Rightarrow> [''member '' @ im_node_id m @ '' is not registered'']
   | Some (n, status) \<Rightarrow>
       (case status of
          Some h \<Rightarrow> if lower (ns_status h) \<noteq> ''ready'' then [''member '' @ im_node_id m @ '' is not ready''] else []
        | None \<Rightarrow> [''member '' @ im_node_id m @ '' is not ready'']) @
       (if node_endpoint n = [] then [''member '' @ im_node_id m @ '' has no agent endpoint''] else []) @
       (case en_gpu_count env n of
          None \<Rightarrow> []
        | Some c \<Rightarrow> if c < im_gpu_count m
            then [''member '' @ im_node_id m @ '' '' @
                  (if en_has_inventory env (nd_capabilities n) then ''accelerators'' else ''gpu.count'') @ ''='' @
                  show_int c @ '' < manifest gpuCount='' @ show_int (im_gpu_count m)]
            else []))"

definition validate_members_for_execution :: "cell_env \<Rightarrow> InferenceCellSpec \<Rightarrow> CellStore \<Rightarrow> string list" where
  "validate_members_for_execution env spec st = concat (map (member_errors env st) (ic_members spec))"

definition site_pair :: "LinkMetricSample \<Rightarrow> string list" where
  "site_pair m = sort [lm_from_site m, lm_to_site m]"

definition link_metrics_for_admission :: "cell_env \<Rightarrow> InferenceCellSpec \<Rightarrow> LinkMetricSample list" where
  "link_metrics_for_admission env spec =
     (if ic_link_metrics spec = [] then en_metrics env
      else filter (\<lambda>m. site_pair m \<notin> site_pair ` set (ic_link_metrics spec)) (en_metrics env) @ ic_link_metrics spec)"

definition active_executor :: "InferenceCellManifest \<Rightarrow> dict \<Rightarrow> string" where
  "active_executor m alloc =
     (if lower (strip (py_str (py_or (py_or (dict_get alloc ''active_executor'') (JStr (cs_executor_type (cm_spec m))))
           (JStr ''ray'')))) = ''mp'' then ''mp'' else ''ray'')"

definition supports_mp_fallback :: "InferenceCellManifest \<Rightarrow> bool" where
  "supports_mp_fallback m = (lower (strip (cs_fallback_mode (cm_spec m))) = ''mp_on_failure'')"

definition uses_launcher_local_ray :: "InferenceCellManifest \<Rightarrow> StagePlacement list \<Rightarrow> dict \<Rightarrow> string \<Rightarrow> bool" where
  "uses_launcher_local_ray m placements alloc executor_type =
     (executor_type = ''ray'' \<and> length placements = 1 \<and>
      strip (py_str (py_or (dict_get alloc ''fabric_mode'') (JStr (cm_fabric_mode m)))) = ''lan_direct'')"

section \<open>Rendered workloads\<close>

text \<open>A rendered manifest is its name, its namespace and the document that was validated.\<close>

type_synonym workload = "string \<times> string \<times> json"

definition env_truth :: "string option \<Rightarrow> bool" where
  "env_truth v = (lower (strip (case v of None \<Rightarrow> [] | Some s \<Rightarrow> s)) \<in> {''1'', ''true'', ''yes'', ''on''})"

definition hold_on_failure_suffix :: "cell_env \<Rightarrow> string" where
  "hold_on_failure_suffix env = (if env_truth (en_hold_on_failure env) then '' || sleep infinity'' else [])"

definition env_list :: "(string \<times> string) list \<Rightarrow> json" where
  "env_list kvs = JArr (map (\<lambda>(k, v). JObj [(''name'', JStr k), (''value'', JStr v)]) kvs)"

definition model_volume :: "string \<Rightarrow> json list" where
  "model_volume path = [JObj [(''hostPath'', JStr path), (''mountPath'', JStr path), (''readOnly'', JBool True)]]"

definition health_check :: "int \<Rightarrow> json" where
  "health_check port = JObj [(''httpGet'', JObj [(''path'', JStr ''/health''), (''port'', JInt port)])]"

definition workload_manifest ::
  "cell_env \<Rightarrow> string \<Rightarrow> string \<Rightarrow> string \<Rightarrow> string list \<Rightarrow> (string \<times> string) list \<Rightarrow> int option \<Rightarrow> bool
   \<Rightarrow> string option \<Rightarrow> json list \<Rightarrow> workload result" where
  "workload_manifest env name namespace img args envs api_port publish runtime_class volumes =
     (let base = [(''image'', JStr img), (''replicas'', JInt 1), (''command'', JArr [JStr ''/bin/sh'', JStr ''-lc'']),
                  (''args'', JArr (map JStr args)), (''env'', env_list envs)];
          vols = (if volumes = [] then [] else [(''volumes'', JArr volumes)]);
          ports = (case api_port of None \<Rightarrow> [] | Some p \<Rightarrow> if p = 0 then [] else
             [(''ports'', JArr [JObj [(''name'', JStr ''http''), (''containerPort'', JInt p)]]),
              (''health'', JObj [(''readiness'', health_check p), (''liveness'', health_check p)])] @
             (if publish then [(''service'', JObj [(''port'', JInt p), (''targetPort'', JInt p)])] else []));
          rc = (case nonempty runtime_class of None \<Rightarrow> [] | Some c \<Rightarrow> [(''runtimeClassName'', JStr c)]);
          payload = JObj [(''apiVersion'', JStr ''ae.dev/v1alpha1''), (''kind'', JStr ''Deployment''),
                          (''metadata'', JObj [(''name'', JStr name), (''namespace'', JStr namespace)]),
                          (''spec'', JObj (base @ vols @ ports @ rc))]
      in case en_validate env payload of Some e \<Rightarrow> Inl e | None \<Rightarrow> Inr (name, namespace, payload))"

definition executor_runtime_class :: "cell_env \<Rightarrow> InferenceCellManifest \<Rightarrow> string option" where
  "executor_runtime_class env m =
     (let s = (\<lambda>v. strip (case v of None \<Rightarrow> [] | Some x \<Rightarrow> x)); own = s (cm_runtime_class_name m)
      in if own \<noteq> [] then Some own else nonempty (Some (s (en_runtime_class env))))"

definition executor_dtype :: "InferenceCellManifest \<Rightarrow> string option" where
  "executor_dtype m = nonempty (Some (strip (case cm_dtype m of None \<Rightarrow> [] | Some d \<Rightarrow> d)))"

definition dtype_env :: "InferenceCellManifest \<Rightarrow> (string \<times> string) list" where
  "dtype_env m = (case executor_dtype m of None \<Rightarrow> [] | Some d \<Rightarrow> [(''DTYPE'', d)])"

definition gpu_list :: "StagePlacement \<Rightarrow> string" where
  "gpu_list p = join '','' (map show_int (sp_gpu_indices p))"

definition shell_var :: "string \<Rightarrow> string" where
  "shell_var v = CHR 0x22 # ''$'' @ v @ [CHR 0x22]"

definition mp_stage_manifest :: "cell_env \<Rightarrow> InferenceCellManifest \<Rightarrow> StagePlacement \<Rightarrow> dict \<Rightarrow> workload result" where
  "mp_stage_manifest env m p alloc =
     rbind (alloc_int alloc ''api_port'') (\<lambda>api_port.
     let leader = (sp_stage p = cs_master_stage (cm_spec m));
         cmd = ''python3 -m vllm.entrypoints.openai.api_server --model '' @ shell_var ''MODEL_PATH'' @ '' '' @
               (if executor_dtype m \<noteq> None then ''--dtype '' @ shell_var ''DTYPE'' @ '' '' else []) @
               ''--distributed-executor-backend mp --tensor-parallel-size '' @ shell_var ''TP'' @ '' --pipeline-parallel-size '' @ shell_var ''PP'' @
               '' --port '' @ shell_var ''API_PORT'' @ '' --host 0.0.0.0 '' @ (if leader then '' '' else ''--headless '') @
               hold_on_failure_suffix env;
         envs = [(''MODEL_PATH'', cm_local_path m), (''TP'', show_int (ic_tp (cm_spec m))), (''PP'', show_int (ic_pp (cm_spec m))),
                 (''API_PORT'', show_int api_port), (''CUDA_VISIBLE_DEVICES'', gpu_list p),
                 (''NCCL_SOCKET_IFNAME'', py_str (py_or (dict_get alloc ''fabric_ifname'') (JStr ''eth0'')))] @ dtype_env m
     in workload_manifest env (cm_name m @ ''-mp-stage'' @ show_int (sp_stage p)) (or_default (cm_namespace m)) (cm_mp_image m)
          [cmd] envs (if leader then Some api_port else None) leader (executor_runtime_class env m) (model_volume (cm_local_path m)))"

definition fabric_ip_of :: "dict \<Rightarrow> string \<Rightarrow> string result" where
  "fabric_ip_of alloc node_id = (case as_dict (py_or (dict_get alloc ''member_fabric_ips'') (JObj [])) of
     None \<Rightarrow> Inl AttributeError
   | Some d \<Rightarrow> Inr (py_str (case map_of d node_id of None \<Rightarrow> JStr [] | Some v \<Rightarrow> v)))"

definition ray_worker_manifest :: "cell_env \<Rightarrow> InferenceCellManifest \<Rightarrow> StagePlacement \<Rightarrow> dict \<Rightarrow> bool \<Rightarrow> workload result" where
  "ray_worker_manifest env m p alloc leader =
     rbind (fabric_ip_of alloc (sp_node_id p)) (\<lambda>ip.
     let rp = cm_ray_ports m; dash = (rp_include_dashboard rp \<and> leader);
         name = cm_name m @ (if leader then ''-ray-head'' else ''-ray-worker-'' @ sp_node_id p);
         cmd = ''ray start '' @
               (if leader then ''--head --port '' @ show_int (rp_head_port rp) @ '' ''
                else ''--address '' @ CHR 0x22 # ''$MASTER_ADDR:'' @ show_int (rp_head_port rp) @ CHR 0x22 # '' '') @
               ''--node-ip-address '' @ shell_var ''FABRIC_IP'' @ '' --node-manager-port '' @ show_int (rp_node_manager_port rp) @
               '' --object-manager-port '' @ show_int (rp_object_manager_port rp) @
               '' --runtime-env-agent-port '' @ show_int (rp_runtime_env_agent_port rp) @
               '' --min-worker-port '' @ show_int (rp_min_worker_port rp) @
               '' --max-worker-port '' @ show_int (rp_max_worker_port rp) @ '' '' @
               (if dash then ''--include-dashboard=true --dashboard-host 0.0.0.0 --dashboard-port '' @
                  show_int (rp_dashboard_port rp) @ '' '' else []) @ ''--block'';
         envs = [(''MASTER_ADDR'', alloc_str alloc ''master_addr''), (''FABRIC_IP'', ip),
                 (''RAY_ROLE'', if leader then ''head'' else ''worker'')]
     in workload_manifest env name (or_default (cm_namespace m)) (cm_ray_image m) [cmd] envs None False
          (executor_runtime_class env m) [])"

definition ray_launcher_manifest :: "cell_env \<Rightarrow> InferenceCellManifest \<Rightarrow> StagePlacement \<Rightarrow> dict \<Rightarrow> workload result" where
  "ray_launcher_manifest env m p alloc =
     rbind (alloc_int alloc ''api_port'') (\<lambda>api_port.
     let cmd = ''python3 -m vllm.entrypoints.openai.api_server --model '' @ shell_var ''MODEL_PATH'' @ '' '' @
               (if executor_dtype m \<noteq> None then ''--dtype '' @ shell_var ''DTYPE'' @ '' '' else []) @
               ''--distributed-executor-backend ray --tensor-parallel-size '' @ shell_var ''TP'' @ '' --pipeline-parallel-size '' @ shell_var ''PP'' @
               '' --host 0.0.0.0 --port '' @ shell_var ''API_PORT'' @ '' '' @ hold_on_failure_suffix env;
         envs = [(''MODEL_PATH'', cm_local_path m), (''TP'', show_int (ic_tp (cm_spec m))), (''PP'', show_int (ic_pp (cm_spec m))),
                 (''API_PORT'', show_int api_port), (''CUDA_VISIBLE_DEVICES'', gpu_list p)] @ dtype_env m
     in workload_manifest env (cm_name m @ ''-ray-launcher'') (or_default (cm_namespace m)) (cm_launcher_image m)
          [cmd] envs (Some api_port) True (executor_runtime_class env m) (model_volume (cm_local_path m)))"

text \<open>\<^verbatim>\<open>next((p for p in placements if p.stage == master_stage), placements[0])\<close>; no placement raises.\<close>

definition leader_placement :: "InferenceCellManifest \<Rightarrow> StagePlacement list \<Rightarrow> StagePlacement result" where
  "leader_placement m placements = (case placements of
     [] \<Rightarrow> Inl IndexError
   | p # _ \<Rightarrow> Inr (case find (\<lambda>x. sp_stage x = cs_master_stage (cm_spec m)) placements of None \<Rightarrow> p | Some x \<Rightarrow> x))"

definition render_workers :: "InferenceCellManifest \<Rightarrow> StagePlacement list \<Rightarrow> string \<Rightarrow> json" where
  "render_workers m placements run_type = JArr (map (\<lambda>p.
     JObj (if run_type = ''ray''
       then [(''name'', JStr (cm_name m @ ''-ray-worker-'' @ sp_node_id p)), (''node_id'', JStr (sp_node_id p)),
             (''site_id'', JStr (sp_site_id p)), (''type'', JStr ''ray-worker''), (''stage'', JInt (sp_stage p))]
       else [(''name'', JStr (cm_name m @ ''-mp-stage'' @ show_int (sp_stage p))), (''node_id'', JStr (sp_node_id p)),
             (''site_id'', JStr (sp_site_id p)), (''type'', JStr ''mp-stage''), (''stage'', JInt (sp_stage p)),
             (''headless'', JBool True)]))
     (filter (\<lambda>p. sp_stage p \<noteq> cs_master_stage (cm_spec m)) placements))"

definition render_leader :: "InferenceCellManifest \<Rightarrow> StagePlacement list \<Rightarrow> dict \<Rightarrow> string \<Rightarrow> json result" where
  "render_leader m placements alloc run_type =
     rbind (leader_placement m placements) (\<lambda>l.
     rbind (alloc_int alloc ''api_port'') (\<lambda>api_port.
     let common = (\<lambda>n t. [(''name'', JStr (cm_name m @ n)), (''node_id'', JStr (sp_node_id l)), (''site_id'', JStr (sp_site_id l)),
                          (''type'', JStr t), (''stage'', JInt (sp_stage l))])
     in if run_type = ''ray''
        then Inr (JObj ((if uses_launcher_local_ray m placements alloc run_type
               then common ''-ray-launcher'' ''ray-launcher'' else common ''-ray-head'' ''ray-head'') @ [(''api_port'', JInt api_port)]))
        else rbind (alloc_int alloc ''master_port'') (\<lambda>master_port.
             Inr (JObj (common (''-mp-stage'' @ show_int (sp_stage l)) ''mp-stage'' @
               [(''headless'', JBool False), (''master_port'', JInt master_port), (''api_port'', JInt api_port)])))))"

text \<open>\<^verbatim>\<open>alloc.setdefault("workloads", {})\<close> and \<^verbatim>\<open>alloc["workloads"][role] = v\<close>.\<close>

definition put_workload :: "string \<Rightarrow> json \<Rightarrow> dict \<Rightarrow> dict result" where
  "put_workload role v alloc = (case as_dict (dict_get (dict_setdefault ''workloads'' (JObj []) alloc) ''workloads'') of
     None \<Rightarrow> Inl TypeError
   | Some d \<Rightarrow> Inr (dict_put ''workloads'' (JObj (dict_put role v d)) alloc))"

section \<open>Calls to runtimes and agents\<close>

definition apply_manifest_to_node :: "cell_env \<Rightarrow> string \<Rightarrow> string \<Rightarrow> workload \<Rightarrow> (CellSys, dict) eff" where
  "apply_manifest_to_node env role node_id w s =
     (case runtime_for_node env node_id (sy_db s) of
        Inl e \<Rightarrow> (Inl e, s)
      | Inr ep \<Rightarrow> (case w of (name, ns, doc) \<Rightarrow>
          let s1 = act (EnsureApp ep (app_key name (Some ns)) doc) s
          in case en_apply env (tick s) of
               Inl e \<Rightarrow> (Inl e, s1)
             | Inr pods \<Rightarrow> (Inr [(''node_id'', JStr node_id), (''endpoint'', JStr ep),
                 (''app_name'', JStr (app_key name (Some ns))), (''pod_states'', JArr (map JObj pods)), (''role'', JStr role)], s1)))"

definition execution_workloads :: "dict \<Rightarrow> json list result" where
  "execution_workloads alloc = (case as_dict (py_or (dict_get alloc ''execution'') (JObj [])) of
     None \<Rightarrow> Inl AttributeError
   | Some d \<Rightarrow> alloc_list d ''workloads'')"

definition workload_refs :: "json list \<Rightarrow> (string \<times> string) list" where
  "workload_refs items = filter (\<lambda>(n, a). n \<noteq> [] \<and> a \<noteq> [])
     (map (\<lambda>d. (alloc_str d ''node_id'', alloc_str d ''app_name'')) (List.map_filter as_dict items))"

fun remove_workloads :: "cell_env \<Rightarrow> (string \<times> string) list \<Rightarrow> CellSys \<Rightarrow> CellSys" where
  "remove_workloads env [] s = s"
| "remove_workloads env ((n, a) # ws) s = remove_workloads env ws (case runtime_for_node env n (sy_db s) of
     Inl e \<Rightarrow> s | Inr ep \<Rightarrow> act (RemoveApp ep a) s)"

definition remove_execution_workloads :: "cell_env \<Rightarrow> dict \<Rightarrow> (CellSys, unit) eff" where
  "remove_execution_workloads env alloc s = (case execution_workloads alloc of
     Inl e \<Rightarrow> (Inl e, s)
   | Inr items \<Rightarrow> (Inr (), remove_workloads env (workload_refs items) s))"

definition on_db :: "(CellStore \<Rightarrow> CellStore) \<Rightarrow> CellSys \<Rightarrow> CellSys" where
  "on_db f s = s\<lparr>sy_db := f (sy_db s)\<rparr>"

definition teardown_nodes :: "string list \<Rightarrow> string \<Rightarrow> CellSys \<Rightarrow> CellSys" where
  "teardown_nodes ns session_id s = fold (\<lambda>n. act (AgentTeardown n session_id)) ns s"

definition teardown_fabric :: "cell_env \<Rightarrow> dict \<Rightarrow> (CellSys, unit) eff" where
  "teardown_fabric env alloc s =
     (let sid = alloc_str alloc ''fabric_session_id''
      in if sid = [] then (Inr (), s)
         else case alloc_stage_placements alloc of
           Inl e \<Rightarrow> (Inl e, s)
         | Inr ps \<Rightarrow> (Inr (), on_db (delete_fabric_session sid) (teardown_nodes (map sp_node_id ps) sid s)))"

text \<open>The loop of \<^verbatim>\<open>ensure_session\<close>: the first node that refuses, with the nodes ensured before it.\<close>

fun ensure_sessions ::
  "cell_env \<Rightarrow> string \<Rightarrow> string list \<Rightarrow> string list \<Rightarrow> (CellSys, (string \<times> string list) option) eff" where
  "ensure_sessions env sid [] ensured s = (Inr None, s)"
| "ensure_sessions env sid (n # ns) ensured s =
     (case en_agent env (tick s) of
        Inl e \<Rightarrow> (Inl e, act (AgentEnsure n sid) s)
      | Inr False \<Rightarrow> (Inr (Some (n, ensured)), act (AgentEnsure n sid) s)
      | Inr True \<Rightarrow> ensure_sessions env sid ns (ensured @ [n]) (act (AgentEnsure n sid) s))"

section \<open>Events and updates\<close>

definition cell_record :: "InferenceCellManifest \<Rightarrow> CellStore \<Rightarrow> InferenceCellRecord result" where
  "cell_record m st = (case get_inference_cell (cm_name m) (cm_namespace m) st of
     None \<Rightarrow> Inl (RuntimeError (''inference cell '' @ cm_name m @ '' not found after register''))
   | Some r \<Rightarrow> Inr r)"

definition log_event :: "cell_env \<Rightarrow> InferenceCellManifest \<Rightarrow> string \<Rightarrow> string \<Rightarrow> CellSys \<Rightarrow> CellSys" where
  "log_event env m event_type message s =
     on_db (record_inference_cell_event (en_now env) (cm_name m) (cm_namespace m) event_type message) s"

definition cell_update :: "cell_env \<Rightarrow> InferenceCellManifest \<Rightarrow> CellUpdate \<Rightarrow> (CellSys, InferenceCellRecord) eff" where
  "cell_update env m u s =
     (let s1 = on_db (\<lambda>st. snd (update_inference_cell_status (en_now env) (cm_name m) (cm_namespace m) u st)) s
      in (cell_record m (sy_db s1), s1))"

definition to_phase :: "CellPhase \<Rightarrow> dict \<Rightarrow> string option \<Rightarrow> CellUpdate" where
  "to_phase ph cond err = \<lparr>cu_phase = Some ph, cu_allocations = None, cu_admission = None, cu_conditions = Some cond,
     cu_restarts = None, cu_last_error = Some err\<rparr>"

abbreviation with_alloc :: "dict \<Rightarrow> CellUpdate \<Rightarrow> CellUpdate" where
  "with_alloc a u \<equiv> u\<lparr>cu_allocations := Some a\<rparr>"

abbreviation with_admission :: "admission_doc \<Rightarrow> CellUpdate \<Rightarrow> CellUpdate" where
  "with_admission a u \<equiv> u\<lparr>cu_admission := Some a\<rparr>"

definition rejected :: "string list \<Rightarrow> admission_doc" where
  "rejected reasons = AdmissionJson [(''admitted'', JBool False), (''reasons'', JArr (map JStr reasons))]"

definition step_to :: "cell_env \<Rightarrow> InferenceCellManifest \<Rightarrow> string \<Rightarrow> string \<Rightarrow> CellUpdate \<Rightarrow> (CellSys, InferenceCellRecord) eff" where
  "step_to env m event_type message u s = cell_update env m u (log_event env m event_type message s)"

section \<open>Admission and reservation\<close>

definition run_pending :: "cell_env \<Rightarrow> InferenceCellManifest \<Rightarrow> InferenceCellRecord \<Rightarrow> (CellSys, InferenceCellRecord) eff" where
  "run_pending env m r s =
     step_to env m ''PhaseChange'' ''PENDING -> ADMITTING''
       ((to_phase ADMITTING (cl_conditions r) None)\<lparr>cu_last_error := None\<rparr>) s"

definition admit_placements ::
  "cell_env \<Rightarrow> InferenceCellManifest \<Rightarrow> dict \<Rightarrow> dict \<Rightarrow> StagePlacement list \<Rightarrow> (CellSys, InferenceCellRecord) eff" where
  "admit_placements env m cond alloc placements s =
     (let report = admission_evaluate (cm_spec m) placements (Some (link_metrics_for_admission env (cm_spec m)));
          alloc1 = dict_put ''active_executor'' (JStr (cs_executor_type (cm_spec m)))
                     (dict_put ''gpu_slots'' (JArr (map slot_to_dict (gpu_slots placements)))
                     (dict_put ''placements'' (JArr (map placement_to_dict placements)) alloc));
          why = join ''; '' (map (en_reason_text env) (adm_reasons report));
          cond1 = make_condition env ''AdmissionReady'' (adm_admitted report) (if adm_admitted report then ''ok'' else why) cond
      in if \<not> adm_admitted report
         then step_to env m ''AdmissionFailed'' why
                (with_admission (AdmissionOf report) (with_alloc alloc1 (to_phase FAILED cond1 (Some ''ADMISSION_REJECTED'')))) s
         else step_to env m ''AdmissionPassed'' ''placement and boundary budget accepted''
                (with_admission (AdmissionOf report) (with_alloc alloc1 (to_phase RESERVING cond1 None))) s)"

definition run_admitting :: "cell_env \<Rightarrow> InferenceCellManifest \<Rightarrow> InferenceCellRecord \<Rightarrow> (CellSys, InferenceCellRecord) eff" where
  "run_admitting env m r s =
     (let errors = (if en_execution_enabled env then validate_members_for_execution env (cm_spec m) (sy_db s) else []);
          alloc = dict_put ''boot_assurance'' (assurance_summary (cm_spec m)) (cl_allocations r);
          fail = (\<lambda>reasons msg err. step_to env m ''AdmissionFailed'' msg
             (with_admission (rejected reasons) (with_alloc alloc
               (to_phase FAILED (make_condition env ''AdmissionReady'' False msg (cl_conditions r)) (Some err)))) s)
      in if errors \<noteq> [] then fail errors (join ''; '' errors) ''ADMISSION_MEMBER_INVALID''
         else case stage_plan (cm_spec m) of
           Inl e \<Rightarrow> fail [en_str env e] (en_str env e) ''ADMISSION_PLACEMENT_FAILED''
         | Inr placements \<Rightarrow> admit_placements env m (cl_conditions r) alloc placements s)"

definition run_reserving :: "cell_env \<Rightarrow> InferenceCellManifest \<Rightarrow> InferenceCellRecord \<Rightarrow> (CellSys, InferenceCellRecord) eff" where
  "run_reserving env m r s = (case alloc_stage_placements (cl_allocations r) of
     Inl e \<Rightarrow> (Inl e, s)
   | Inr placements \<Rightarrow>
       (case reserve (en_now env) (en_lease_id env) (cl_cell_key r) (CellSpec.truncate (cm_spec m)) placements (db_leases (sy_db s)) of
          (lease, t) \<Rightarrow>
            let s1 = on_db (\<lambda>st. st\<lparr>db_leases := t\<rparr>) s
            in (case lease of
                  Inl e \<Rightarrow> (Inl e, s1)
                | Inr None \<Rightarrow> step_to env m ''ReserveFailed'' ''resource reservation failed''
                    (to_phase FAILED (make_condition env ''ResourcesReserved'' False ''resource reservation failed'' (cl_conditions r))
                      (Some ''RESOURCE_RESERVE_FAILED'')) s1
                | Inr (Some b) \<Rightarrow>
                    let alloc = dict_put ''locked_nodes'' (JArr (map JStr (lb_locked_nodes b)))
                                (dict_put ''api_port'' (JInt (lb_api_port b))
                                (dict_put ''master_port'' (json_opt_int (lb_master_port b))
                                (dict_put ''lease_id'' (JStr (lb_lease_id b)) (cl_allocations r))))
                    in step_to env m ''Reserved'' (''lease='' @ lb_lease_id b)
                         (with_alloc alloc (to_phase FABRIC (make_condition env ''ResourcesReserved'' True ''ok'' (cl_conditions r)) None)) s1)))"

section \<open>Fabric\<close>

definition fabric_ready ::
  "cell_env \<Rightarrow> InferenceCellManifest \<Rightarrow> InferenceCellRecord \<Rightarrow> StagePlacement list \<Rightarrow> FabricSessionInfo \<Rightarrow> (CellSys, InferenceCellRecord) eff" where
  "fabric_ready env m r placements si s = (case leader_placement m placements of
     Inl e \<Rightarrow> (Inl e, s)
   | Inr l \<Rightarrow>
       let alloc = dict_put ''master_addr'' (case map_of (si_member_ips si) (sp_node_id l) of None \<Rightarrow> JNull | Some ip \<Rightarrow> JStr ip)
                   (dict_put ''fabric_mode'' (JStr (si_fabric_mode si))
                   (dict_put ''fabric_allowed_rules'' (JArr (si_allowed_rules si))
                   (dict_put ''member_fabric_ips'' (JObj (map (\<lambda>(n, ip). (n, JStr ip)) (si_member_ips si)))
                   (dict_put ''fabric_ifname'' (JStr (si_ifname si))
                   (dict_put ''fabric_session_id'' (JStr (si_session_id si)) (cl_allocations r))))))
       in step_to env m ''FabricReady'' (''session='' @ si_session_id si)
            (with_alloc alloc (to_phase STARTING_WORKERS (make_condition env ''FabricReady'' True ''ok'' (cl_conditions r)) None)) s)"

definition run_fabric :: "cell_env \<Rightarrow> InferenceCellManifest \<Rightarrow> InferenceCellRecord \<Rightarrow> (CellSys, InferenceCellRecord) eff" where
  "run_fabric env m r s = (case alloc_stage_placements (cl_allocations r) of
     Inl e \<Rightarrow> (Inl e, s)
   | Inr placements \<Rightarrow>
     (case lease_from_allocations (cl_allocations r) of
        Inl e \<Rightarrow> (Inl e, s)
      | Inr None \<Rightarrow> cell_update env m (to_phase FAILED
            (make_condition env ''FabricReady'' False ''missing lease information'' (cl_conditions r)) (Some ''FABRIC_MISSING_LEASE'')) s
      | Inr (Some b) \<Rightarrow>
          (case create_session env (cl_cell_key r) (cs_policy_mode (cm_spec m))
                  (if cm_fabric_mode m = [] then ''lan_direct'' else cm_fabric_mode m) (cs_ttl_seconds (cm_spec m))
                  placements (build_allowed_rules m b) (sy_db s) of
             (si, st) \<Rightarrow>
               (case ensure_sessions env (si_session_id si) (map sp_node_id placements) [] (on_db (\<lambda>_. st) s) of
                  (Inl e, s1) \<Rightarrow> (Inl e, s1)
                | (Inr (Some (n, ensured)), s1) \<Rightarrow>
                    step_to env m ''FabricFailed'' (''ensure_session failed on '' @ n)
                      (with_alloc (cl_allocations r) (to_phase FAILED
                        (make_condition env ''FabricReady'' False (''agent ensure failed on '' @ n) (cl_conditions r)) (Some ''FABRIC_AGENT_FAILED'')))
                      (on_db (delete_fabric_session (si_session_id si)) (teardown_nodes ensured (si_session_id si) s1))
                | (Inr None, s1) \<Rightarrow> fabric_ready env m r placements si s1))))"

section \<open>Workers\<close>

text \<open>\<^verbatim>\<open>_apply_worker_set\<close>: an exception loses what was applied before it.\<close>

fun apply_worker_set ::
  "cell_env \<Rightarrow> InferenceCellManifest \<Rightarrow> dict \<Rightarrow> string \<Rightarrow> StagePlacement list \<Rightarrow> (CellSys, json list \<times> json list) eff" where
  "apply_worker_set env m alloc ty [] s = (Inr ([], []), s)"
| "apply_worker_set env m alloc ty (p # ps) s =
     (if sp_stage p = cs_master_stage (cm_spec m) then apply_worker_set env m alloc ty ps s
      else let role = (if ty = ''ray'' then ''ray-worker'' else ''mp-worker'')
           in case (if ty = ''ray'' then ray_worker_manifest env m p alloc False else mp_stage_manifest env m p alloc) of
                Inl e \<Rightarrow> (Inl e, s)
              | Inr w \<Rightarrow> (case apply_manifest_to_node env role (sp_node_id p) w s of
                  (Inl e, s1) \<Rightarrow> (Inl e, s1)
                | (Inr rec, s1) \<Rightarrow> (case apply_worker_set env m alloc ty ps s1 of
                    (Inl e, s2) \<Rightarrow> (Inl e, s2)
                  | (Inr (ws, applied), s2) \<Rightarrow>
                      (Inr (JObj [(''name'', JStr (fst w)), (''node_id'', JStr (sp_node_id p)),
                                  (''stage'', JInt (sp_stage p)), (''role'', JStr role)] # ws, JObj rec # applied), s2))))"

definition workers_failed ::
  "cell_env \<Rightarrow> InferenceCellManifest \<Rightarrow> dict \<Rightarrow> dict \<Rightarrow> py_error \<Rightarrow> (CellSys, InferenceCellRecord) eff" where
  "workers_failed env m cond alloc e s =
     step_to env m ''WorkersFailed'' (en_str env e)
       (with_alloc alloc (to_phase FAILED (make_condition env ''WorkersStarted'' False (en_str env e) cond)
         (Some ''WORKER_START_FAILED''))) s"

definition workers_started ::
  "cell_env \<Rightarrow> InferenceCellManifest \<Rightarrow> dict \<Rightarrow> dict \<Rightarrow> dict \<Rightarrow> string \<Rightarrow> json list \<Rightarrow> json list \<Rightarrow> (CellSys, InferenceCellRecord) eff" where
  "workers_started env m cond alloc execution message workloads applied s =
     (case alloc_list execution ''workloads'' of
        Inl e \<Rightarrow> (Inl e, s)
      | Inr old \<Rightarrow> (case put_workload ''workers'' (JArr workloads) alloc of
          Inl e \<Rightarrow> (Inl e, s)
        | Inr alloc1 \<Rightarrow>
            step_to env m ''WorkersStarted'' message
              (with_alloc (dict_put ''execution'' (JObj (dict_put ''workloads'' (JArr (old @ applied)) execution)) alloc1)
                (to_phase STARTING_LEADER (make_condition env ''WorkersStarted'' True message cond) None)) s))"

definition workers_fallback ::
  "cell_env \<Rightarrow> InferenceCellManifest \<Rightarrow> dict \<Rightarrow> dict \<Rightarrow> StagePlacement list \<Rightarrow> py_error \<Rightarrow> (CellSys, InferenceCellRecord) eff" where
  "workers_fallback env m cond alloc placements e s =
     (let s1 = log_event env m ''ExecutorFallback'' (''ray worker start failed, switching to mp: '' @ en_str env e) s;
          alloc1 = dict_put ''active_executor'' (JStr ''mp'') alloc
      in case remove_execution_workloads env alloc1 s1 of
           (Inl e1, s2) \<Rightarrow> (Inl e1, s2)
         | (Inr _, s2) \<Rightarrow> (case put_workload ''workers'' (render_workers m placements ''mp'') alloc1 of
             Inl e1 \<Rightarrow> (Inl e1, s2)
           | Inr alloc2 \<Rightarrow> (case apply_worker_set env m alloc2 ''mp'' placements s2 of
               (Inl mp_exc, s3) \<Rightarrow> workers_failed env m cond alloc2 mp_exc s3
             | (Inr (ws, applied), s3) \<Rightarrow>
                 workers_started env m (make_condition env ''ExecutorFallback'' True (en_str env e) cond) alloc2
                   [(''workloads'', JArr [])] ''runtime applied (fallback=mp)'' ws applied s3)))"

definition run_starting_workers :: "cell_env \<Rightarrow> InferenceCellManifest \<Rightarrow> InferenceCellRecord \<Rightarrow> (CellSys, InferenceCellRecord) eff" where
  "run_starting_workers env m r s = (case alloc_stage_placements (cl_allocations r) of
     Inl e \<Rightarrow> (Inl e, s)
   | Inr placements \<Rightarrow>
       let run_type = active_executor m (cl_allocations r); cond = cl_conditions r
       in case put_workload ''workers'' (render_workers m placements run_type) (cl_allocations r) of
            Inl e \<Rightarrow> (Inl e, s)
          | Inr alloc \<Rightarrow>
              if \<not> en_execution_enabled env
              then step_to env m ''WorkersPlanned'' ''worker workloads rendered''
                     (with_alloc alloc (to_phase STARTING_LEADER (make_condition env ''WorkersStarted'' True ''planned'' cond) None)) s
              else case as_dict (py_or (dict_get alloc ''execution'') (JObj [])) of
                     None \<Rightarrow> (Inl TypeError, s)
                   | Some d \<Rightarrow> (case apply_worker_set env m alloc run_type placements s of
                       (Inr (ws, applied), s1) \<Rightarrow>
                         workers_started env m cond alloc (dict_setdefault ''workloads'' (JArr []) d) ''runtime applied'' ws applied s1
                     | (Inl e, s1) \<Rightarrow>
                         if run_type = ''ray'' \<and> supports_mp_fallback m then workers_fallback env m cond alloc placements e s1
                         else workers_failed env m cond alloc e s1))"

section \<open>Leader\<close>

definition first_endpoint :: "dict \<Rightarrow> string" where
  "first_endpoint rec = (case dict_get rec ''pod_states'' of
     JArr (JObj d # _) \<Rightarrow> alloc_str d ''endpoint'' | _ \<Rightarrow> [])"

text \<open>
  The body of the \<^verbatim>\<open>try\<close>: what was applied to the leader's node before an exception stays in the list of
  workloads, which is shared with the allocations.
\<close>

definition start_role ::
  "cell_env \<Rightarrow> string \<Rightarrow> string \<Rightarrow> workload result \<Rightarrow> json list \<Rightarrow> CellSys \<Rightarrow> (dict result \<times> json list) \<times> CellSys" where
  "start_role env role node_id w execs s = (case w of
     Inl e \<Rightarrow> ((Inl e, execs), s)
   | Inr x \<Rightarrow> (case apply_manifest_to_node env role node_id x s of
       (Inl e, s1) \<Rightarrow> ((Inl e, execs), s1)
     | (Inr rec, s1) \<Rightarrow> ((Inr rec, execs @ [JObj rec]), s1)))"

definition api_of :: "cell_env \<Rightarrow> dict \<Rightarrow> string \<Rightarrow> dict result \<Rightarrow> CellStore \<Rightarrow> string result" where
  "api_of env alloc node_id rec st = rbind rec (\<lambda>d. resolve_api_endpoint env alloc node_id (first_endpoint d) st)"

definition start_leader ::
  "cell_env \<Rightarrow> InferenceCellManifest \<Rightarrow> StagePlacement \<Rightarrow> dict \<Rightarrow> string \<Rightarrow> bool \<Rightarrow> json list \<Rightarrow> CellSys
   \<Rightarrow> (string result \<times> json list) \<times> CellSys" where
  "start_leader env m l alloc run_type local_ray execs s =
     (let n = sp_node_id l
      in if run_type = ''ray''
         then case (if local_ray then ((Inr [], execs), s)
                    else start_role env ''ray-head'' n (ray_worker_manifest env m l alloc True) execs s) of
                ((Inl e, ex1), s1) \<Rightarrow> ((Inl e, ex1), s1)
              | ((Inr _, ex1), s1) \<Rightarrow> (case start_role env ''ray-launcher'' n (ray_launcher_manifest env m l alloc) ex1 s1 of
                  ((rec, ex2), s2) \<Rightarrow> ((api_of env alloc n rec (sy_db s2), ex2), s2))
         else case start_role env ''mp-leader'' n (mp_stage_manifest env m l alloc) execs s of
                ((rec, ex1), s1) \<Rightarrow> ((api_of env alloc n rec (sy_db s1), ex1), s1))"

definition shared_workloads :: "dict \<Rightarrow> json list \<Rightarrow> dict" where
  "shared_workloads alloc execs = (case dict_get alloc ''execution'' of
     JObj d \<Rightarrow> if ''workloads'' \<in> fst ` set d
       then dict_put ''execution'' (JObj (dict_put ''workloads'' (JArr execs) d)) alloc else alloc
   | _ \<Rightarrow> alloc)"

text \<open>Switching to the \<^verbatim>\<open>mp\<close> executor: the workloads are removed and the workers start again.\<close>

definition restart_in_mp ::
  "cell_env \<Rightarrow> InferenceCellManifest \<Rightarrow> dict \<Rightarrow> dict \<Rightarrow> string \<Rightarrow> string \<Rightarrow> (CellSys, InferenceCellRecord) eff" where
  "restart_in_mp env m cond alloc what why s =
     (let s1 = log_event env m ''ExecutorFallback'' (what @ why) s;
          alloc1 = dict_put ''active_executor'' (JStr ''mp'') alloc
      in case remove_execution_workloads env alloc1 s1 of
           (Inl e, s2) \<Rightarrow> (Inl e, s2)
         | (Inr _, s2) \<Rightarrow>
             cell_update env m (with_alloc (dict_put ''execution'' (JObj [(''workloads'', JArr [])]) alloc1)
               (to_phase STARTING_WORKERS (make_condition env ''ExecutorFallback'' True why cond) None)) s2)"

definition leader_attempt ::
  "cell_env \<Rightarrow> InferenceCellManifest \<Rightarrow> InferenceCellRecord \<Rightarrow> StagePlacement list \<Rightarrow> dict \<Rightarrow> (CellSys, InferenceCellRecord) eff" where
  "leader_attempt env m r placements alloc s = (case leader_placement m placements of
     Inl e \<Rightarrow> (Inl e, s)
   | Inr l \<Rightarrow>
     let run_type = active_executor m (cl_allocations r); cond = cl_conditions r;
         local_ray = uses_launcher_local_ray m placements (cl_allocations r) run_type;
         alloc1 = dict_put ''leader_node_id'' (JStr (sp_node_id l)) alloc
     in case as_dict (py_or (dict_get alloc1 ''execution'') (JObj [])) of
       None \<Rightarrow> (Inl TypeError, s)
     | Some d \<Rightarrow> (case alloc_list d ''workloads'' of
         Inl e \<Rightarrow> (Inl e, s)
       | Inr old \<Rightarrow> (case start_leader env m l alloc1 run_type local_ray old s of
           ((Inr api, execs), s1) \<Rightarrow>
             let msg = (if run_type \<noteq> ''ray'' then ''runtime applied (mp)''
                        else if local_ray then ''runtime applied (ray-local)'' else ''runtime applied (ray)'')
             in step_to env m ''LeaderStarted'' msg
                  (with_alloc (dict_put ''execution'' (JObj (dict_put ''workloads'' (JArr execs) d))
                      (dict_put ''api_endpoint'' (JStr api) alloc1))
                    (to_phase JOINING (make_condition env ''LeaderStarted'' True msg cond) None)) s1
         | ((Inl e, execs), s1) \<Rightarrow>
             let alloc2 = shared_workloads alloc1 execs
             in if run_type = ''ray'' \<and> supports_mp_fallback m
                then restart_in_mp env m cond alloc2 ''ray leader start failed, restarting in mp mode: '' (en_str env e) s1
                else step_to env m ''LeaderFailed'' (en_str env e)
                       (with_alloc alloc2 (to_phase FAILED (make_condition env ''LeaderStarted'' False (en_str env e) cond)
                         (Some ''LEADER_START_FAILED''))) s1)))"

definition run_starting_leader :: "cell_env \<Rightarrow> InferenceCellManifest \<Rightarrow> InferenceCellRecord \<Rightarrow> (CellSys, InferenceCellRecord) eff" where
  "run_starting_leader env m r s = (case alloc_stage_placements (cl_allocations r) of
     Inl e \<Rightarrow> (Inl e, s)
   | Inr placements \<Rightarrow>
       (case rbind (render_leader m placements (cl_allocations r) (active_executor m (cl_allocations r)))
               (\<lambda>v. put_workload ''leader'' v (cl_allocations r)) of
          Inl e \<Rightarrow> (Inl e, s)
        | Inr alloc \<Rightarrow>
            if \<not> en_execution_enabled env
            then step_to env m ''LeaderPlanned'' ''leader workload rendered''
                   (with_alloc alloc (to_phase JOINING (make_condition env ''LeaderStarted'' True ''planned'' (cl_conditions r)) None)) s
            else leader_attempt env m r placements alloc s))"

section \<open>Joining and restarting\<close>

fun check_workloads :: "cell_env \<Rightarrow> (string \<times> string) list \<Rightarrow> CellSys \<Rightarrow> (string list \<times> string list) \<times> CellSys" where
  "check_workloads env [] s = (([], []), s)"
| "check_workloads env ((n, a) # ws) s =
     (let tag = n @ '':'' @ a
      in case runtime_for_node env n (sy_db s) of
           Inl e \<Rightarrow> (case check_workloads env ws s of ((mi, st), s2) \<Rightarrow> ((tag # mi, st), s2))
         | Inr ep \<Rightarrow> (case check_workloads env ws (act (ListContainers ep) s) of ((mi, st), s2) \<Rightarrow>
             ((case en_infos env (tick s) of
                 Inl e \<Rightarrow> (tag # mi, st)
               | Inr infos \<Rightarrow>
                   let here = filter (\<lambda>(l, _). l = a) infos
                   in if here = [] then (tag # mi, st)
                      else if list_ex snd here then (mi, st) else (mi, tag # st)), s2)))"

definition join_failed :: "cell_env \<Rightarrow> InferenceCellManifest \<Rightarrow> InferenceCellRecord \<Rightarrow> string \<Rightarrow> (CellSys, InferenceCellRecord) eff" where
  "join_failed env m r message s =
     (let cond = make_condition env ''ApiReady'' False message (cl_conditions r)
      in if cl_restarts r < cm_max_restarts m
         then step_to env m ''JoinPending'' message
                (with_alloc (cl_allocations r) (to_phase RESTARTING cond (Some ''JOIN_FAILED''))) s
         else step_to env m ''JoinFailed'' message
                (with_alloc (cl_allocations r) (to_phase FAILED cond (Some ''JOIN_FAILED''))) s)"

definition run_joining :: "cell_env \<Rightarrow> InferenceCellManifest \<Rightarrow> InferenceCellRecord \<Rightarrow> (CellSys, InferenceCellRecord) eff" where
  "run_joining env m r s =
     (let alloc = cl_allocations r; cond = cl_conditions r
      in if \<not> en_execution_enabled env
         then step_to env m ''CellReady'' ''cell reached READY''
                (to_phase READY (make_condition env ''ApiReady'' True ''planned'' cond) None) s
         else case execution_workloads alloc of
           Inl e \<Rightarrow> (Inl e, s)
         | Inr items \<Rightarrow> (case check_workloads env (workload_refs items) s of ((missing, stopped), s1) \<Rightarrow>
             if stopped \<noteq> []
             then let message = ''stopped runtime containers: '' @ join '', '' stopped
                  in if active_executor m alloc = ''ray'' \<and> supports_mp_fallback m
                     then restart_in_mp env m cond alloc ''ray join failed, restarting in mp mode: '' message s1
                     else join_failed env m r message s1
             else if missing \<noteq> []
             then join_failed env m r (''missing runtime containers: '' @ join '', '' missing) s1
             else (case probe_leader_api env alloc s1 of
                 (Inl e, s2) \<Rightarrow> (Inl e, s2)
               | (Inr (False, detail), s2) \<Rightarrow>
                   let message = ''leader api not ready: '' @ detail
                   in step_to env m ''JoinPending'' message
                        (with_alloc alloc (to_phase JOINING (make_condition env ''ApiReady'' False message cond)
                          (Some ''JOIN_API_NOT_READY''))) s2
               | (Inr (True, detail), s2) \<Rightarrow>
                   let ep = dict_get alloc ''api_endpoint'';
                       api_ep = (if truthy ep then py_str ep
                         else py_str (dict_get alloc ''master_addr'') @ '':'' @ py_str (dict_get alloc ''api_port''))
                   in step_to env m ''CellReady'' (''cell reached READY api='' @ api_ep)
                        (with_alloc alloc (to_phase READY (make_condition env ''ApiReady'' True detail cond) None)) s2)))"

text \<open>What a restart and a deletion do before they touch the cell: workloads, leases, fabric.\<close>

definition release_cell :: "cell_env \<Rightarrow> dict \<Rightarrow> (CellSys, unit) eff" where
  "release_cell env alloc s = (case remove_execution_workloads env alloc s of
     (Inl e, s1) \<Rightarrow> (Inl e, s1)
   | (Inr _, s1) \<Rightarrow> (case lease_from_allocations alloc of
       Inl e \<Rightarrow> (Inl e, s1)
     | Inr lease \<Rightarrow> teardown_fabric env alloc
         (case lease of None \<Rightarrow> s1 | Some b \<Rightarrow> on_db (\<lambda>st. st\<lparr>db_leases := release_bundle b (db_leases st)\<rparr>) s1)))"

definition run_restarting :: "cell_env \<Rightarrow> InferenceCellManifest \<Rightarrow> InferenceCellRecord \<Rightarrow> (CellSys, InferenceCellRecord) eff" where
  "run_restarting env m r s = (case release_cell env (cl_allocations r) s of
     (Inl e, s1) \<Rightarrow> (Inl e, s1)
   | (Inr _, s1) \<Rightarrow>
       step_to env m ''Restarting'' (''restart='' @ show_int (cl_restarts r + 1))
         ((with_alloc [] (to_phase ADMITTING (make_condition env ''Restarting'' True ''scheduled'' (cl_conditions r)) None))
           \<lparr>cu_restarts := Some (cl_restarts r + 1)\<rparr>) s1)"

section \<open>The controller\<close>

definition run_once :: "cell_env \<Rightarrow> InferenceCellManifest \<Rightarrow> (CellSys, InferenceCellRecord) eff" where
  "run_once env m s = (case cell_record m (sy_db s) of
     Inl e \<Rightarrow> (Inl e, s)
   | Inr r \<Rightarrow> (case cl_phase r of
       PENDING \<Rightarrow> run_pending env m r s
     | ADMITTING \<Rightarrow> run_admitting env m r s
     | RESERVING \<Rightarrow> run_reserving env m r s
     | FABRIC \<Rightarrow> run_fabric env m r s
     | STARTING_WORKERS \<Rightarrow> run_starting_workers env m r s
     | STARTING_LEADER \<Rightarrow> run_starting_leader env m r s
     | JOINING \<Rightarrow> run_joining env m r s
     | RESTARTING \<Rightarrow> run_restarting env m r s
     | READY \<Rightarrow> (Inr r, s)
     | FAILED \<Rightarrow> (Inr r, s)))"

text \<open>The loop of \<^verbatim>\<open>reconcile_manifest\<close>; each round has an environment of its own.\<close>

fun reconcile_rounds :: "cell_env list \<Rightarrow> InferenceCellManifest \<Rightarrow> (CellSys, InferenceCellRecord) eff" where
  "reconcile_rounds [] m s = (cell_record m (sy_db s), s)"
| "reconcile_rounds (env # envs) m s = (case cell_record m (sy_db s) of
     Inl e \<Rightarrow> (Inl e, s)
   | Inr r \<Rightarrow>
       if cl_phase r \<in> {READY, FAILED} then (Inr r, s)
       else (case run_once env m s of
           (Inl e, s1) \<Rightarrow> (Inl e, s1)
         | (Inr r1, s1) \<Rightarrow> if cl_phase r1 = cl_phase r then (Inr r1, s1) else reconcile_rounds envs m s1))"

definition reconcile_cell :: "time \<Rightarrow> string option \<Rightarrow> cell_env list \<Rightarrow> InferenceCellManifest \<Rightarrow> (CellSys, InferenceCellRecord) eff" where
  "reconcile_cell now source envs m s = reconcile_rounds envs m (on_db (register_inference_cell now m source) s)"

definition delete_cell :: "cell_env \<Rightarrow> string \<Rightarrow> string option \<Rightarrow> (CellSys, unit) eff" where
  "delete_cell env name ns s = (case get_inference_cell name ns (sy_db s) of
     None \<Rightarrow> (Inr (), s)
   | Some r \<Rightarrow> (case release_cell env (cl_allocations r) s of
       (Inl e, s1) \<Rightarrow> (Inl e, s1)
     | (Inr _, s1) \<Rightarrow> (Inr (), on_db (delete_inference_cell name ns) s1)))"

section \<open>What calls leave alone\<close>

text \<open>Calls to agents and runtimes, events and sessions change neither cells nor leases nor nodes.\<close>

definition framed :: "CellSys \<Rightarrow> CellSys \<Rightarrow> bool" where
  "framed s s' \<longleftrightarrow> db_cells (sy_db s') = db_cells (sy_db s) \<and> db_leases (sy_db s') = db_leases (sy_db s) \<and>
     db_nodes (sy_db s') = db_nodes (sy_db s)"

named_theorems frames \<open>calls that change neither cells nor leases nor nodes\<close>

lemma framed_refl [simp]: "framed s s"
  by (simp add: framed_def)

lemma framed_trans: "framed s t \<Longrightarrow> framed t u \<Longrightarrow> framed s u"
  by (simp add: framed_def)

lemma framed_act [frames, simp]: "framed s (act a t) \<longleftrightarrow> framed s t"
  by (simp add: framed_def act_def)

lemma framed_log_event [simp]: "framed s (log_event env m ty msg t) \<longleftrightarrow> framed s t"
  by (simp add: framed_def log_event_def on_db_def record_inference_cell_event_def)

lemma framed_delete_session [simp]: "framed s (on_db (delete_fabric_session i) t) \<longleftrightarrow> framed s t"
  by (simp add: framed_def on_db_def delete_fabric_session_def)

lemma framed_teardown_nodes [simp]: "framed s (teardown_nodes ns i t) \<longleftrightarrow> framed s t"
proof -
  have "framed s (fold (\<lambda>n. act (AgentTeardown n i)) ns t) \<longleftrightarrow> framed s t"
    by (induction ns arbitrary: t) simp_all
  then show ?thesis by (simp add: teardown_nodes_def)
qed

lemma framed_remove_workloads [simp]: "framed s (remove_workloads env ws t) \<longleftrightarrow> framed s t"
  by (induction env ws t rule: remove_workloads.induct) (auto split: sum.splits)

lemma framed_remove_execution [frames]: "framed s (snd (remove_execution_workloads env alloc s))"
  by (simp add: remove_execution_workloads_def split: sum.splits)

lemma framed_teardown_fabric [frames]: "framed s (snd (teardown_fabric env alloc s))"
  by (simp add: teardown_fabric_def Let_def split: sum.splits)

lemma framed_apply [frames]: "framed s (snd (apply_manifest_to_node env role n w s))"
  by (simp add: apply_manifest_to_node_def Let_def split: sum.splits prod.splits)

lemma framed_ensure [frames]: "framed t (snd (ensure_sessions env i ns ensured s)) \<longleftrightarrow> framed t s"
  by (induction env i ns ensured s rule: ensure_sessions.induct) (auto split: sum.splits bool.splits)

lemma framed_create_session [frames]: "framed s (on_db (\<lambda>_. snd (create_session env k pm md ttl ps rules (sy_db s))) s)"
  by (simp add: framed_def on_db_def create_session_def Let_def upsert_fabric_session_def)

lemma framed_probe [frames]: "framed s (snd (probe_leader_api env alloc s))"
  by (simp add: probe_leader_api_def split: sum.splits list.splits)

lemma framedD: "framed s (snd x) \<Longrightarrow> x = (a, t) \<Longrightarrow> framed s t"
  by simp

lemmas framed_applyD = framedD [OF framed_apply]

lemma framed_start_role [frames]: "framed s (snd (start_role env role n w ex s))"
proof (cases w)
  case (Inr x)
  obtain res s1 where "apply_manifest_to_node env role n x s = (res, s1)" by (metis surj_pair)
  with framed_applyD [OF this] Inr show ?thesis by (simp add: start_role_def split: sum.splits)
qed (simp add: start_role_def)

lemma framed_check [frames]: "framed t (snd (check_workloads env ws s)) \<longleftrightarrow> framed t s"
proof (induction ws arbitrary: s)
  case (Cons w ws)
  obtain n a where w: "w = (n, a)" by (metis surj_pair)
  show ?case
  proof (cases "runtime_for_node env n (sy_db s)")
    case (Inl e)
    obtain mi st s2 where "check_workloads env ws s = ((mi, st), s2)" by (metis surj_pair)
    with Cons [of s] Inl show ?thesis by (simp add: w Let_def)
  next
    case (Inr ep)
    obtain mi st s2 where "check_workloads env ws (act (ListContainers ep) s) = ((mi, st), s2)" by (metis surj_pair)
    with Cons [of "act (ListContainers ep) s"] Inr show ?thesis by (simp add: w Let_def)
  qed
qed simp

lemma framed_apply_worker_set [frames]: "framed s (snd (apply_worker_set env m alloc ty ps s))"
proof (induction ps arbitrary: s)
  case (Cons p ps)
  let ?role = "if ty = ''ray'' then ''ray-worker'' else ''mp-worker''"
  let ?w = "if ty = ''ray'' then ray_worker_manifest env m p alloc False else mp_stage_manifest env m p alloc"
  show ?case
  proof (cases "sp_stage p = cs_master_stage (cm_spec m)")
    case True
    with Cons show ?thesis by simp
  next
    case False
    show ?thesis
    proof (cases ?w)
      case (Inr w)
      obtain res s1 where a: "apply_manifest_to_node env ?role (sp_node_id p) w s = (res, s1)" by (metis surj_pair)
      obtain res2 s2 where b: "apply_worker_set env m alloc ty ps s1 = (res2, s2)" by (metis surj_pair)
      have "framed s s1" "framed s1 s2" using framed_applyD [OF a] framedD [OF Cons b] .
      then have "framed s s1" "framed s s2" by (auto intro: framed_trans)
      with a b False Inr show ?thesis by (auto simp: Let_def split: sum.splits)
    qed (use False in \<open>simp add: Let_def\<close>)
  qed
qed simp

lemma framed_start_leader [frames]: "framed s (snd (start_leader env m l alloc ty lr ex s))"
proof (cases "ty = ''ray''")
  case True
  let ?a = "if lr then ((Inr [], ex), s) else start_role env ''ray-head'' (sp_node_id l) (ray_worker_manifest env m l alloc True) ex s"
  have a: "framed s (snd ?a)" by (simp add: framed_start_role)
  obtain res ex1 s1 where e: "?a = ((res, ex1), s1)" by (metis surj_pair)
  obtain res2 ex2 s2 where f: "start_role env ''ray-launcher'' (sp_node_id l) (ray_launcher_manifest env m l alloc) ex1 s1 = ((res2, ex2), s2)"
    by (metis surj_pair)
  have "framed s s1" "framed s1 s2" using framedD [OF a e] framedD [OF framed_start_role f] .
  then have "framed s s1" "framed s s2" by (auto intro: framed_trans)
  with True show ?thesis by (simp add: start_leader_def Let_def e f split: sum.splits)
next
  case False
  obtain res ex1 s1 where e: "start_role env ''mp-leader'' (sp_node_id l) (mp_stage_manifest env m l alloc) ex s = ((res, ex1), s1)"
    by (metis surj_pair)
  with framedD [OF framed_start_role e] False show ?thesis by (simp add: start_leader_def Let_def)
qed

section \<open>The phase graph\<close>

fun phase_next :: "CellPhase \<Rightarrow> CellPhase set" where
  "phase_next PENDING = {ADMITTING}"
| "phase_next ADMITTING = {RESERVING, FAILED}"
| "phase_next RESERVING = {FABRIC, FAILED}"
| "phase_next FABRIC = {STARTING_WORKERS, FAILED}"
| "phase_next STARTING_WORKERS = {STARTING_LEADER, FAILED}"
| "phase_next STARTING_LEADER = {JOINING, STARTING_WORKERS, FAILED}"
| "phase_next JOINING = {READY, JOINING, RESTARTING, STARTING_WORKERS, FAILED}"
| "phase_next RESTARTING = {ADMITTING}"
| "phase_next READY = {READY}"
| "phase_next FAILED = {FAILED}"

text \<open>What a step may do to the allocations: the recorded lease stays, and the executor changes only to \<^verbatim>\<open>mp\<close>.\<close>

definition same_alloc :: "InferenceCellManifest \<Rightarrow> dict \<Rightarrow> dict \<Rightarrow> bool" where
  "same_alloc m a b \<longleftrightarrow> dict_get b ''lease_id'' = dict_get a ''lease_id'' \<and>
     (active_executor m b = active_executor m a \<or> active_executor m b = ''mp'')"

definition falls_back :: "InferenceCellManifest \<Rightarrow> InferenceCellRecord \<Rightarrow> CellUpdate \<Rightarrow> bool" where
  "falls_back m r u \<longleftrightarrow> active_executor m (cl_allocations r) = ''ray'' \<and>
     (\<exists>a. cu_allocations u = Some a \<and> active_executor m a = ''mp'')"

definition goes :: "InferenceCellManifest \<Rightarrow> InferenceCellRecord \<Rightarrow> CellUpdate \<Rightarrow> bool" where
  "goes m r u \<longleftrightarrow> (\<exists>ph \<in> phase_next (cl_phase r). cu_phase u = Some ph \<and>
       (ph = RESTARTING \<longrightarrow> cl_restarts r < cm_max_restarts m) \<and>
       (ph = STARTING_WORKERS \<longrightarrow> cl_phase r = FABRIC \<or> falls_back m r u)) \<and> cu_restarts u = None \<and>
     (case cu_allocations u of None \<Rightarrow> True
      | Some a \<Rightarrow> dict_get a ''lease_id'' = dict_get (cl_allocations r) ''lease_id'' \<and>
          (cl_phase r = ADMITTING \<or> same_alloc m (cl_allocations r) a))"

text \<open>
  A step of a cell that touches no lease: it raises with cells and leases as they were, or ends with one update of the
  record that goes along the phase graph and keeps the recorded lease.
\<close>

definition cell_at :: "string \<Rightarrow> CellSys \<Rightarrow> InferenceCellRecord option" where
  "cell_at k s = find (\<lambda>x. cl_cell_key x = k) (db_cells (sy_db s))"

definition writes :: "InferenceCellManifest \<Rightarrow> InferenceCellRecord \<Rightarrow> InferenceCellRecord \<Rightarrow> CellSys \<Rightarrow> CellSys \<Rightarrow> bool" where
  "writes m r r' s s' \<longleftrightarrow> cell_record m (sy_db s') = Inr r' \<and>
     (\<forall>k. cell_at k s' = (if k = cl_cell_key r then Some r' else cell_at k s)) \<and>
     map cl_cell_key (db_cells (sy_db s')) = map cl_cell_key (db_cells (sy_db s)) \<and>
     db_leases (sy_db s') = db_leases (sy_db s) \<and> db_nodes (sy_db s') = db_nodes (sy_db s)"

definition moves :: "cell_env \<Rightarrow> InferenceCellManifest \<Rightarrow> InferenceCellRecord \<Rightarrow> CellSys \<Rightarrow> InferenceCellRecord result \<times> CellSys \<Rightarrow> bool" where
  "moves env m r s out \<longleftrightarrow> (case out of
     (Inl e, s') \<Rightarrow> framed s s'
   | (Inr r', s') \<Rightarrow> (\<exists>u. r' = apply_update (en_now env, u) r \<and> goes m r u) \<and> writes m r r' s s')"

lemma cell_record_at: "cell_record m (sy_db s) = Inr r \<longleftrightarrow> cell_at (inference_key (cm_name m) (cm_namespace m)) s = Some r"
  by (simp add: cell_record_def cell_at_def get_inference_cell_def split: option.splits)

lemma cell_at_key: "cell_at k s = Some r \<Longrightarrow> cl_cell_key r = k"
  unfolding cell_at_def by (induction "db_cells (sy_db s)") (auto simp: find_Some_iff)

lemma cell_record_key:
  fixes s :: CellSys
  shows "cell_record m (sy_db s) = Inr r \<Longrightarrow> inference_key (cm_name m) (cm_namespace m) = cl_cell_key r"
  using cell_at_key by (simp add: cell_record_at)

lemma cell_at_framed: "framed s t \<Longrightarrow> cell_at k t = cell_at k s"
  by (simp add: framed_def cell_at_def)

lemma cell_record_framed: "framed s t \<Longrightarrow> cell_record m (sy_db t) = cell_record m (sy_db s)"
  by (simp add: framed_def cell_record_def get_inference_cell_def)

lemma writes_framed: "framed s t \<Longrightarrow> writes m r r' t s' \<longleftrightarrow> writes m r r' s s'"
  by (simp add: writes_def cell_at_framed) (simp add: framed_def)

lemma cell_update_writes:
  assumes "cell_record m (sy_db s) = Inr r"
  shows "\<exists>s'. cell_update env m u s = (Inr (apply_update (en_now env, u) r), s') \<and> writes m r (apply_update (en_now env, u) r) s s'"
proof -
  let ?s = "on_db (\<lambda>st. snd (update_inference_cell_status (en_now env) (cm_name m) (cm_namespace m) u st)) s"
  note key = cell_record_key [OF assms]
  have ex: "exists_row (\<lambda>x. cl_cell_key x = cl_cell_key r) (db_cells (sy_db s))"
    using assms by (simp add: cell_record_at cell_at_def exists_row_find key)
  have at: "cell_at k ?s = (if k = cl_cell_key r then Some (apply_update (en_now env, u) r) else cell_at k s)" for k
    using assms ex by (simp add: cell_record_at cell_at_def on_db_def update_inference_cell_status_def key Let_def
        cl_upd.lookup_update_key)
  have rec: "cell_record m (sy_db ?s) = Inr (apply_update (en_now env, u) r)" by (simp add: cell_record_at at key)
  have "writes m r (apply_update (en_now env, u) r) s ?s"
    unfolding writes_def using at rec by (simp add: on_db_def update_inference_cell_status_def Let_def cl_upd.keys_update)
  with rec show ?thesis by (simp add: cell_update_def Let_def)
qed

lemma step_to_writes:
  assumes "cell_record m (sy_db s) = Inr r"
  shows "\<exists>s'. step_to env m ty msg u s = (Inr (apply_update (en_now env, u) r), s') \<and> writes m r (apply_update (en_now env, u) r) s s'"
proof -
  have f: "framed s (log_event env m ty msg s)" by simp
  have "cell_record m (sy_db (log_event env m ty msg s)) = Inr r" using assms by (simp add: cell_record_framed [OF f])
  from cell_update_writes [OF this, of env u] show ?thesis by (simp add: step_to_def writes_framed [OF f])
qed

lemma moves_update:
  assumes "cell_record m (sy_db s) = Inr r" and "framed s t" and "goes m r u"
  shows "moves env m r s (cell_update env m u t)"
proof -
  have "cell_record m (sy_db t) = Inr r" using assms(1,2) by (simp add: cell_record_framed)
  from cell_update_writes [OF this, of env u] obtain s' where
    "cell_update env m u t = (Inr (apply_update (en_now env, u) r), s')" "writes m r (apply_update (en_now env, u) r) s s'"
    by (auto simp: writes_framed [OF assms(2)])
  with assms(3) show ?thesis unfolding moves_def by auto
qed

lemma moves_step:
  assumes "cell_record m (sy_db s) = Inr r" and "framed s t" and "goes m r u"
  shows "moves env m r s (step_to env m ty msg u t)"
  unfolding step_to_def by (rule moves_update) (use assms in simp_all)

lemma moves_raise: "framed s t \<Longrightarrow> moves env m r s (Inl e, t)"
  by (simp add: moves_def)

lemma active_executor_put [simp]:
  "k \<noteq> ''active_executor'' \<Longrightarrow> active_executor m (dict_put k v a) = active_executor m a"
  "active_executor m (dict_put ''active_executor'' (JStr ''mp'') a) = ''mp''"
  by (simp_all add: active_executor_def py_or_def lower_def strip_def lstrip_def rstrip_def is_ws_def lower_char_def)

lemma active_executor_cases: "active_executor m a = ''mp'' \<or> active_executor m a = ''ray''"
  by (simp add: active_executor_def)

lemma same_alloc_refl [simp]: "same_alloc m a a"
  by (simp add: same_alloc_def)

lemma same_alloc_put [simp]:
  "k \<noteq> ''active_executor'' \<Longrightarrow> k \<noteq> ''lease_id'' \<Longrightarrow> same_alloc m a (dict_put k v b) \<longleftrightarrow> same_alloc m a b"
  by (simp add: same_alloc_def)

lemma same_alloc_mp: "same_alloc m a b \<Longrightarrow> same_alloc m a (dict_put ''active_executor'' (JStr ''mp'') b)"
  by (simp add: same_alloc_def)

lemma same_alloc_trans: "same_alloc m a b \<Longrightarrow> same_alloc m b c \<Longrightarrow> same_alloc m a c"
  by (auto simp: same_alloc_def)

lemma goes_to_phase:
  assumes "ph \<in> phase_next (cl_phase r)" and "ph = RESTARTING \<Longrightarrow> cl_restarts r < cm_max_restarts m"
    and "ph = STARTING_WORKERS \<Longrightarrow> cl_phase r = FABRIC"
  shows "goes m r (to_phase ph cond err)"
    and "same_alloc m (cl_allocations r) a \<Longrightarrow> goes m r (with_alloc a (to_phase ph cond err))"
  using assms by (auto simp: goes_def to_phase_def same_alloc_def)

lemma goes_admitting:
  assumes "ph \<in> phase_next (cl_phase r)" and "cl_phase r = ADMITTING"
    and "dict_get a ''lease_id'' = dict_get (cl_allocations r) ''lease_id''"
  shows "goes m r (with_admission d (with_alloc a (to_phase ph cond err)))"
  using assms by (auto simp: goes_def to_phase_def)

lemma put_workload_same: "put_workload role v alloc = Inr a \<Longrightarrow> same_alloc m alloc a"
  by (auto simp: put_workload_def split: option.splits)

lemma shared_workloads_same [simp]: "same_alloc m a (shared_workloads alloc ex) \<longleftrightarrow> same_alloc m a alloc"
  by (simp add: shared_workloads_def split: json.splits)

lemma run_pending_moves:
  assumes "cell_record m (sy_db s) = Inr r" and "cl_phase r = PENDING"
  shows "moves env m r s (run_pending env m r s)"
  unfolding run_pending_def by (rule moves_step [OF assms(1) framed_refl]) (use assms(2) in \<open>simp add: goes_def to_phase_def\<close>)

lemma run_admitting_moves:
  assumes "cell_record m (sy_db s) = Inr r" and "cl_phase r = ADMITTING"
  shows "moves env m r s (run_admitting env m r s)"
  using assms
  by (auto simp: run_admitting_def admit_placements_def Let_def intro!: moves_step goes_admitting split: sum.splits)

lemma fabric_ready_moves:
  assumes "cell_record m (sy_db s) = Inr r" and "framed s t" and "cl_phase r = FABRIC"
  shows "moves env m r s (fabric_ready env m r ps si t)"
  using assms by (auto simp: fabric_ready_def Let_def intro!: moves_step moves_raise goes_to_phase split: sum.splits)

lemma run_fabric_moves:
  assumes "cell_record m (sy_db s) = Inr r" and "cl_phase r = FABRIC"
  shows "moves env m r s (run_fabric env m r s)"
proof (cases "alloc_stage_placements (cl_allocations r)")
  case (Inl e)
  then show ?thesis by (simp add: run_fabric_def moves_raise)
next
  case ps: (Inr ps)
  show ?thesis
  proof (cases "lease_from_allocations (cl_allocations r)")
    case (Inl e)
    then show ?thesis by (simp add: run_fabric_def ps moves_raise)
  next
    case lease: (Inr lease)
    show ?thesis
    proof (cases lease)
      case None
      then show ?thesis using assms lease ps by (simp add: run_fabric_def) (auto intro!: moves_update goes_to_phase)
    next
      case (Some b)
      let ?c = "create_session env (cl_cell_key r) (cs_policy_mode (cm_spec m))
                  (if cm_fabric_mode m = [] then ''lan_direct'' else cm_fabric_mode m) (cs_ttl_seconds (cm_spec m))
                  ps (build_allowed_rules m b) (sy_db s)"
      obtain si st where c: "?c = (si, st)" by (metis surj_pair)
      obtain res s1 where e: "ensure_sessions env (si_session_id si) (map sp_node_id ps) [] (on_db (\<lambda>_. st) s) = (res, s1)"
        by (metis surj_pair)
      have "framed s (on_db (\<lambda>_. snd ?c) s)" by (rule framed_create_session)
      then have f: "framed s s1" using framed_ensure [of s env "si_session_id si" "map sp_node_id ps" "[]" "on_db (\<lambda>_. st) s"]
        by (simp add: c e)
      show ?thesis
        using assms f by (simp add: run_fabric_def ps lease Some c e)
          (auto intro!: moves_raise moves_step goes_to_phase fabric_ready_moves split: sum.splits option.splits)
    qed
  qed
qed

lemma workers_failed_moves:
  assumes "cell_record m (sy_db s) = Inr r" and "framed s t" and "cl_phase r = STARTING_WORKERS"
    and "same_alloc m (cl_allocations r) alloc"
  shows "moves env m r s (workers_failed env m cond alloc e t)"
  unfolding workers_failed_def by (rule moves_step [OF assms(1,2)]) (use assms(3,4) in \<open>auto intro!: goes_to_phase\<close>)

lemma workers_started_moves:
  assumes "cell_record m (sy_db s) = Inr r" and "framed s t" and "cl_phase r = STARTING_WORKERS"
    and "same_alloc m (cl_allocations r) alloc"
  shows "moves env m r s (workers_started env m cond alloc d msg ws applied t)"
  using assms same_alloc_trans [OF assms(4) put_workload_same]
  by (auto simp: workers_started_def intro!: moves_raise moves_step goes_to_phase split: sum.splits)

lemma framed_removeD: "remove_execution_workloads env alloc t = (res, u) \<Longrightarrow> framed s t \<Longrightarrow> framed s u"
  using framedD [OF framed_remove_execution] framed_trans by blast

lemma framed_worker_setD: "apply_worker_set env m alloc ty ps t = (res, u) \<Longrightarrow> framed s t \<Longrightarrow> framed s u"
  using framedD [OF framed_apply_worker_set] framed_trans by blast

lemma workers_fallback_moves:
  assumes "cell_record m (sy_db s) = Inr r" and "framed s t" and "cl_phase r = STARTING_WORKERS"
    and "same_alloc m (cl_allocations r) alloc"
  shows "moves env m r s (workers_fallback env m cond alloc ps e t)"
proof -
  let ?t = "log_event env m ''ExecutorFallback'' (''ray worker start failed, switching to mp: '' @ en_str env e) t"
  let ?a = "dict_put ''active_executor'' (JStr ''mp'') alloc"
  obtain res u where r: "remove_execution_workloads env ?a ?t = (res, u)" by (metis surj_pair)
  have u: "framed s u" using framed_removeD [OF r, of s] assms(2) by simp
  show ?thesis
  proof (cases res)
    case (Inl e1)
    then show ?thesis unfolding workers_fallback_def Let_def r using u by (simp add: moves_raise)
  next
    case res: (Inr x)
    show ?thesis
    proof (cases "put_workload ''workers'' (render_workers m ps ''mp'') ?a")
      case (Inl e1)
      then show ?thesis unfolding workers_fallback_def Let_def r using u by (simp add: res moves_raise)
    next
      case (Inr a2)
      have a2: "same_alloc m (cl_allocations r) a2"
        by (rule same_alloc_trans [OF same_alloc_mp [OF assms(4)] put_workload_same [OF Inr]])
      obtain res3 v where w: "apply_worker_set env m a2 ''mp'' ps u = (res3, v)" by (metis surj_pair)
      have v: "framed s v" using framed_worker_setD [OF w u] .
      show ?thesis unfolding workers_fallback_def Let_def r using assms(1,3) a2 v
        by (simp add: res Inr w) (auto intro!: workers_failed_moves workers_started_moves split: sum.splits)
    qed
  qed
qed

lemma run_starting_workers_moves:
  assumes "cell_record m (sy_db s) = Inr r" and "cl_phase r = STARTING_WORKERS"
  shows "moves env m r s (run_starting_workers env m r s)"
proof (cases "alloc_stage_placements (cl_allocations r)")
  case (Inl e)
  then show ?thesis by (simp add: run_starting_workers_def moves_raise)
next
  case ps: (Inr ps)
  let ?ty = "active_executor m (cl_allocations r)"
  show ?thesis
  proof (cases "put_workload ''workers'' (render_workers m ps ?ty) (cl_allocations r)")
    case (Inl e)
    then show ?thesis by (simp add: run_starting_workers_def ps Let_def moves_raise)
  next
    case a: (Inr a)
    note l = put_workload_same [OF a, of m]
    obtain res t where w: "apply_worker_set env m a ?ty ps s = (res, t)" by (metis surj_pair)
    have "framed s t" using framed_worker_setD [OF w framed_refl] .
    then show ?thesis using assms l
      by (simp add: run_starting_workers_def ps Let_def a)
        (auto simp: w intro!: moves_raise moves_step goes_to_phase workers_failed_moves workers_started_moves workers_fallback_moves
          split: option.splits sum.splits)
  qed
qed

lemma restart_in_mp_moves:
  assumes "cell_record m (sy_db s) = Inr r" and "framed s t" and "STARTING_WORKERS \<in> phase_next (cl_phase r)"
    and "active_executor m (cl_allocations r) = ''ray''"
    and "same_alloc m (cl_allocations r) alloc"
  shows "moves env m r s (restart_in_mp env m cond alloc what why t)"
proof -
  obtain res u where r: "remove_execution_workloads env (dict_put ''active_executor'' (JStr ''mp'') alloc)
      (log_event env m ''ExecutorFallback'' (what @ why) t) = (res, u)" by (metis surj_pair)
  have "framed s u" using framed_removeD [OF r, of s] assms(2) by simp
  moreover have "goes m r (with_alloc (dict_put ''execution'' v (dict_put ''active_executor'' (JStr ''mp'') alloc))
      (to_phase STARTING_WORKERS c None))" for v c
    using assms(3-5) by (auto simp: goes_def to_phase_def falls_back_def same_alloc_def)
  ultimately show ?thesis unfolding restart_in_mp_def Let_def r using assms(1)
    by (auto intro!: moves_raise moves_update split: sum.splits)
qed

lemma rbind_Inr: "rbind x f = Inr y \<longleftrightarrow> (\<exists>v. x = Inr v \<and> f v = Inr y)"
  by (auto simp: rbind_def split: sum.splits)

lemma leader_attempt_moves:
  assumes "cell_record m (sy_db s) = Inr r" and "cl_phase r = STARTING_LEADER"
    and "same_alloc m (cl_allocations r) alloc"
  shows "moves env m r s (leader_attempt env m r ps alloc s)"
proof (cases "leader_placement m ps")
  case (Inl e)
  then show ?thesis by (simp add: leader_attempt_def moves_raise)
next
  case l: (Inr l)
  let ?ty = "active_executor m (cl_allocations r)"
  let ?a = "dict_put ''leader_node_id'' (JStr (sp_node_id l)) alloc"
  show ?thesis
  proof (cases "as_dict (py_or (dict_get ?a ''execution'') (JObj []))")
    case None
    then show ?thesis unfolding leader_attempt_def Let_def by (simp add: l moves_raise)
  next
    case d: (Some d)
    show ?thesis
    proof (cases "alloc_list d ''workloads''")
      case (Inl e)
      with d show ?thesis unfolding leader_attempt_def Let_def by (simp add: l moves_raise)
    next
      case old: (Inr old)
      let ?lr = "uses_launcher_local_ray m ps (cl_allocations r) ?ty"
      obtain res ex t where st: "start_leader env m l ?a ?ty ?lr old s = ((res, ex), t)" by (metis surj_pair)
      have "framed s t" using framedD [OF framed_start_leader st] .
      then show ?thesis unfolding leader_attempt_def l sum.case Let_def d option.case old st prod.case using assms
        by (cases res) (auto intro!: moves_step goes_to_phase restart_in_mp_moves)
    qed
  qed
qed

lemma run_starting_leader_moves:
  assumes "cell_record m (sy_db s) = Inr r" and "cl_phase r = STARTING_LEADER"
  shows "moves env m r s (run_starting_leader env m r s)"
proof (cases "alloc_stage_placements (cl_allocations r)")
  case (Inl e)
  then show ?thesis by (simp add: run_starting_leader_def moves_raise)
next
  case ps: (Inr ps)
  let ?ty = "active_executor m (cl_allocations r)"
  show ?thesis
  proof (cases "rbind (render_leader m ps (cl_allocations r) ?ty) (\<lambda>v. put_workload ''leader'' v (cl_allocations r))")
    case (Inl e)
    then show ?thesis by (simp add: run_starting_leader_def ps Let_def moves_raise)
  next
    case a: (Inr a)
    then have l: "same_alloc m (cl_allocations r) a"
      using put_workload_same by (auto simp: rbind_Inr)
    show ?thesis
    proof (cases "en_execution_enabled env")
      case False
      then show ?thesis using assms l
        by (simp add: run_starting_leader_def ps Let_def a) (auto intro!: moves_step goes_to_phase)
    next
      case True
      have "moves env m r s (leader_attempt env m r ps a s)" by (rule leader_attempt_moves [OF assms l])
      then show ?thesis using True by (simp add: run_starting_leader_def ps Let_def a)
    qed
  qed
qed

lemma join_failed_moves:
  assumes "cell_record m (sy_db s) = Inr r" and "framed s t" and "cl_phase r = JOINING"
  shows "moves env m r s (join_failed env m r msg t)"
  using assms by (auto simp: join_failed_def Let_def intro!: moves_step goes_to_phase)

lemma run_joining_moves:
  assumes "cell_record m (sy_db s) = Inr r" and "cl_phase r = JOINING"
  shows "moves env m r s (run_joining env m r s)"
proof (cases "en_execution_enabled env")
  case False
  then show ?thesis using assms by (simp add: run_joining_def Let_def) (auto intro!: moves_step goes_to_phase)
next
  case True
  show ?thesis
  proof (cases "execution_workloads (cl_allocations r)")
    case (Inl e)
    then show ?thesis using True by (simp add: run_joining_def Let_def moves_raise)
  next
    case (Inr items)
    obtain mi st t where c: "check_workloads env (workload_refs items) s = ((mi, st), t)" by (metis surj_pair)
    have t: "framed s t" using framed_check [of s env "workload_refs items" s] by (simp add: c)
    obtain res u where p: "probe_leader_api env (cl_allocations r) t = (res, u)" by (metis surj_pair)
    have u: "framed s u" using framedD [OF framed_probe p] t framed_trans by blast
    show ?thesis using assms t u
      by (simp add: run_joining_def Let_def Inr c p True)
        (auto simp: p Let_def intro!: moves_raise moves_step goes_to_phase restart_in_mp_moves join_failed_moves
          split: sum.splits prod.splits bool.splits)
  qed
qed

section \<open>The leases of a cell\<close>

definition table_ids :: "'k LeaseRow list \<Rightarrow> string \<Rightarrow> string set" where
  "table_ids t c = ls_lease_id ` {r \<in> set t. ls_cell_key r = c}"

definition cell_holds :: "InferenceTables \<Rightarrow> string \<Rightarrow> string set" where
  "cell_holds t c = table_ids (gpu_leases t) c \<union> table_ids (port_leases t) c \<union> table_ids (node_locks t) c"

lemma table_ids_append [simp]: "table_ids (t @ u) c = table_ids t c \<union> table_ids u c"
  by (auto simp: table_ids_def)

lemma table_ids_release [simp]: "table_ids (delete_where (\<lambda>r. ls_lease_id r = i) t) c = table_ids t c - {i}"
  by (auto simp: table_ids_def delete_where_def)

definition new_id :: "string \<Rightarrow> string \<Rightarrow> string \<Rightarrow> string set" where
  "new_id i k c = (if c = k then {i} else {})"

lemma table_ids_lease_row: "table_ids [lease_row now i k ttl x] c \<subseteq> new_id i k c"
  by (auto simp: table_ids_def lease_row_def new_id_def)

lemma table_ids_lease_rows: "table_ids (map (lease_row now i k ttl) ks) c \<subseteq> new_id i k c"
proof (induction ks)
  case (Cons x ks)
  have "table_ids (map (lease_row now i k ttl) (x # ks)) c =
      table_ids [lease_row now i k ttl x] c \<union> table_ids (map (lease_row now i k ttl) ks) c"
    unfolding table_ids_append [symmetric] by simp
  with Cons table_ids_lease_row show ?case by fast
qed (simp add: table_ids_def)

lemma cell_holds_release:
  "cell_holds (release_bundle b t) c = (if lb_lease_id b = [] then cell_holds t c else cell_holds t c - {lb_lease_id b})"
  by (auto simp: release_bundle_def cell_holds_def release_inference_gpu_leases_def release_inference_port_leases_def
      release_inference_node_locks_def)

text \<open>An operation of cell \<open>k\<close> under lease \<open>i\<close> gives no other lease to any cell, and none to another cell.\<close>

definition adds_only :: "string \<Rightarrow> string \<Rightarrow> InferenceTables \<Rightarrow> InferenceTables \<Rightarrow> bool" where
  "adds_only i k t t' \<longleftrightarrow> (\<forall>c. cell_holds t' c \<subseteq> cell_holds t c \<union> new_id i k c)"

lemma adds_only_refl [simp]: "adds_only i k t t"
  by (simp add: adds_only_def)

lemma adds_only_trans: "adds_only i k t u \<Longrightarrow> adds_only i k u v \<Longrightarrow> adds_only i k t v"
  unfolding adds_only_def by blast

lemma adds_only_release:
  assumes "adds_only i k t u"
  shows "adds_only i k t (release_bundle b u)"
  unfolding adds_only_def
proof
  fix c
  have "cell_holds (release_bundle b u) c \<subseteq> cell_holds u c" by (simp add: cell_holds_release)
  also have "\<dots> \<subseteq> cell_holds t c \<union> new_id i k c" using assms by (simp add: adds_only_def)
  finally show "cell_holds (release_bundle b u) c \<subseteq> cell_holds t c \<union> new_id i k c" .
qed

lemma adds_only_rows:
  assumes "\<And>c. table_ids rows c \<subseteq> new_id i k c"
  shows "adds_only i k t (t\<lparr>gpu_leases := gpu_leases t @ rows\<rparr>)"
  using assms by (fastforce simp: adds_only_def cell_holds_def)

lemma adds_only_port_rows:
  assumes "\<And>c. table_ids rows c \<subseteq> new_id i k c"
  shows "adds_only i k t (t\<lparr>port_leases := port_leases t @ rows\<rparr>)"
  using assms by (fastforce simp: adds_only_def cell_holds_def)

lemma adds_only_node_rows:
  assumes "\<And>c. table_ids rows c \<subseteq> new_id i k c"
  shows "adds_only i k t (t\<lparr>node_locks := node_locks t @ rows\<rparr>)"
  using assms by (fastforce simp: adds_only_def cell_holds_def)

lemma adds_only_gpu: "acquire_inference_gpu_leases now i k slots ttl t = (ok, t') \<Longrightarrow> adds_only i k t t'"
  using adds_only_rows [OF table_ids_lease_rows]
  by (auto simp: acquire_inference_gpu_leases_def insert_leases_cases split: if_splits)

lemma adds_only_nodes: "acquire_inference_node_locks now i k ns ttl t = (ok, t') \<Longrightarrow> adds_only i k t t'"
  using adds_only_node_rows [OF table_ids_lease_rows]
  by (auto simp: acquire_inference_node_locks_def insert_leases_cases split: if_splits)

lemma adds_only_port: "reserve_inference_port now i k n p ttl t = (ok, t') \<Longrightarrow> adds_only i k t t'"
  using adds_only_port_rows [OF table_ids_lease_row]
  by (auto simp: reserve_inference_port_def insert_lease_row split: if_splits)

lemma adds_only_range:
  "reserve_first_port now i k n ps ttl t = (res, t') \<Longrightarrow> adds_only i k t t'"
proof (induction ps arbitrary: t)
  case (Cons p ps)
  obtain ok u where u: "reserve_inference_port now i k n p ttl t = (ok, u)" by (metis surj_pair)
  with Cons show ?case using adds_only_port [OF u] adds_only_trans by (cases ok) auto
qed simp

lemma reserve_locks_adds:
  "reserve_locks now i k spec ps mp ap t = (res, t') \<Longrightarrow> adds_only i k t t'"
  by (auto simp: reserve_locks_def Let_def intro: adds_only_nodes adds_only_release split: prod.splits bool.splits if_splits)

lemma reserve_api_adds:
  assumes "reserve_api now i k spec ps n mp t = (res, t')"
  shows "adds_only i k t t'"
proof -
  obtain x u where u: "reserve_inference_port_from_range now i k n (cs_api_port_min spec) (cs_api_port_max spec)
      (max 60 (cs_ttl_seconds spec)) t = (x, u)" by (metis surj_pair)
  have a: "adds_only i k t u" using u by (auto simp: reserve_inference_port_from_range_def intro: adds_only_range)
  show ?thesis using assms a adds_only_trans [OF a reserve_locks_adds] by (cases x) (auto simp: reserve_api_def u intro: adds_only_release)
qed

lemma reserve_ports_adds:
  assumes "reserve_ports now i k spec ps n t = (res, t')"
  shows "adds_only i k t t'"
proof -
  obtain x u where u: "reserve_inference_port_from_range now i k n (cs_master_port_min spec) (cs_master_port_max spec)
      (max 60 (cs_ttl_seconds spec)) t = (x, u)" by (metis surj_pair)
  have a: "adds_only i k t u" using u by (auto simp: reserve_inference_port_from_range_def intro: adds_only_range)
  show ?thesis using assms a adds_only_trans [OF a reserve_api_adds]
    by (cases x) (auto simp: reserve_ports_def u intro: adds_only_release reserve_api_adds split: if_splits)
qed

lemma reserve_adds:
  assumes "reserve now i k spec ps t = (res, t')"
  shows "adds_only i k t t'"
proof -
  obtain ok u where u: "acquire_inference_gpu_leases now i k (gpu_slots ps) (max 60 (cs_ttl_seconds spec)) t = (ok, u)"
    by (metis surj_pair)
  obtain x v where v: "reserve_ports now i k spec ps (stage0_node spec ps) u = (x, v)" by (metis surj_pair)
  show ?thesis using assms adds_only_gpu [OF u] adds_only_trans [OF adds_only_gpu [OF u] reserve_ports_adds [OF v]]
    by (cases ok) (auto simp: reserve_def u v split: if_splits)
qed

section \<open>Every step of a cell\<close>

text \<open>The phases that touch leases: reserving takes them, restarting gives them back.\<close>

lemma run_reserving_cases:
  assumes "cell_record m (sy_db s) = Inr r" and "cl_phase r = RESERVING"
    and "lease_free (en_lease_id env) (db_leases (sy_db s))" and "en_lease_id env \<noteq> []"
    and "run_reserving env m r s = (res, s')"
  shows "moves env m r s (res, s') \<or> (\<exists>u t a. res = Inr (apply_update (en_now env, u) r) \<and>
     writes m r (apply_update (en_now env, u) r) (on_db (\<lambda>st. st\<lparr>db_leases := t\<rparr>) s) s' \<and>
     adds_only (en_lease_id env) (cl_cell_key r) (db_leases (sy_db s)) t \<and> (\<forall>c. cell_holds (db_leases (sy_db s)) c \<subseteq> cell_holds t c) \<and>
     cu_phase u = Some FABRIC \<and> cu_restarts u = None \<and> cu_allocations u = Some a \<and> alloc_str a ''lease_id'' = en_lease_id env \<and>
     active_executor m a = active_executor m (cl_allocations r))"
proof (cases "alloc_stage_placements (cl_allocations r)")
  case (Inl e)
  then show ?thesis using assms(5) by (auto simp: run_reserving_def intro: moves_raise)
next
  case ps: (Inr ps)
  obtain lease t where l: "reserve (en_now env) (en_lease_id env) (cl_cell_key r) (CellSpec.truncate (cm_spec m)) ps (db_leases (sy_db s)) = (lease, t)"
    by (metis surj_pair)
  note result = reserve_result [OF assms(3,4) l] and adds = reserve_adds [OF l]
  let ?s = "on_db (\<lambda>st. st\<lparr>db_leases := t\<rparr>) s"
  have rec: "cell_record m (sy_db ?s) = Inr r"
    using assms(1) by (simp add: on_db_def cell_record_def get_inference_cell_def)
  have same: "?s = s" if "t = db_leases (sy_db s)" using that by (simp add: on_db_def)
  show ?thesis
  proof (cases lease)
    case (Inl e)
    then have "?s = s" using result same by simp
    then show ?thesis using assms(5) Inl by (auto simp: run_reserving_def ps l intro: moves_raise)
  next
    case (Inr bo)
    show ?thesis
    proof (cases bo)
      case None
      then have "?s = s" using result same Inr by simp
      then have "moves env m r s (run_reserving env m r s)"
        using assms(1,2) by (simp add: run_reserving_def ps l Inr None) (auto intro!: moves_step goes_to_phase)
      then show ?thesis using assms(5) by simp
    next
      case (Some b)
      then have id: "lb_lease_id b = en_lease_id env" using result Inr by (simp add: reserved_ok_def)
      let ?a = "dict_put ''locked_nodes'' (JArr (map JStr (lb_locked_nodes b)))
          (dict_put ''api_port'' (JInt (lb_api_port b)) (dict_put ''master_port'' (json_opt_int (lb_master_port b))
          (dict_put ''lease_id'' (JStr (lb_lease_id b)) (cl_allocations r))))"
      let ?u = "with_alloc ?a (to_phase FABRIC (make_condition env ''ResourcesReserved'' True ''ok'' (cl_conditions r)) None)"
      have run: "run_reserving env m r s = step_to env m ''Reserved'' (''lease='' @ lb_lease_id b) ?u ?s"
        by (simp add: run_reserving_def ps l Inr Some)
      from step_to_writes [OF rec, of env "''Reserved''" "''lease='' @ lb_lease_id b" ?u] run assms(5)
      have "res = Inr (apply_update (en_now env, ?u) r)" "writes m r (apply_update (en_now env, ?u) r) ?s s'" by auto
      moreover have "cu_phase ?u = Some FABRIC" "cu_restarts ?u = None" "cu_allocations ?u = Some ?a" by (simp_all add: to_phase_def)
      moreover have "alloc_str ?a ''lease_id'' = en_lease_id env" using id assms(4) by (simp add: alloc_str_def py_or_def)
      moreover have "active_executor m ?a = active_executor m (cl_allocations r)" by simp
      moreover have "cell_holds (db_leases (sy_db s)) c \<subseteq> cell_holds t c" for c
      proof -
        have "db_leases (sy_db s) = release_bundle b t" using result Inr Some by simp
        then show ?thesis by (auto simp: cell_holds_release split: if_splits)
      qed
      ultimately show ?thesis using adds by blast
    qed
  qed
qed

lemma release_cell_cases:
  fixes s :: CellSys
  assumes "release_cell env alloc s = (res, s')"
  obtains (raise) e where "res = Inl e" "framed s s'"
    | (none) "alloc_str alloc ''lease_id'' = []" "framed s s'"
    | (some) b where "lb_lease_id b = alloc_str alloc ''lease_id''" "lb_lease_id b \<noteq> []"
        "framed (on_db (\<lambda>st. st\<lparr>db_leases := release_bundle b (db_leases (sy_db s))\<rparr>) s) s'"
proof -
  obtain w t where w: "remove_execution_workloads env alloc s = (w, t)" by (metis surj_pair)
  have t: "framed s t" by (rule framedD [OF framed_remove_execution w])
  show thesis
  proof (cases w)
    case (Inl e)
    then show thesis using assms t raise [of e] by (simp add: release_cell_def w)
  next
    case wok: (Inr y)
    show thesis
    proof (cases "lease_from_allocations alloc")
      case (Inl e)
      then show thesis using assms t raise [of e] by (simp add: release_cell_def w wok)
    next
      case (Inr bo)
      show thesis
      proof (cases bo)
        case None
        have "framed t s'" using framedD [OF framed_teardown_fabric, of env alloc t res s'] assms
          by (simp add: release_cell_def w wok Inr None)
        moreover have "alloc_str alloc ''lease_id'' = []"
          using Inr None by (auto simp: lease_from_allocations_def rbind_Inr split: if_splits)
        ultimately show thesis using none framed_trans [OF t] by blast
      next
        case (Some b)
        let ?u = "on_db (\<lambda>st. st\<lparr>db_leases := release_bundle b (db_leases st)\<rparr>) t"
        have "framed ?u s'" using framedD [OF framed_teardown_fabric, of env alloc ?u res s'] assms
          by (simp add: release_cell_def w wok Inr Some)
        then have "framed (on_db (\<lambda>st. st\<lparr>db_leases := release_bundle b (db_leases (sy_db s))\<rparr>) s) s'"
          using t by (simp add: framed_def on_db_def)
        moreover have "lb_lease_id b = alloc_str alloc ''lease_id''" "lb_lease_id b \<noteq> []"
          using Inr Some by (auto simp: lease_from_allocations_def rbind_Inr mk_bundle_def split: if_splits)
        ultimately show thesis using some by blast
      qed
    qed
  qed
qed

lemma release_cell_leases:
  fixes s :: CellSys
  assumes "release_cell env alloc s = (res, s')"
  shows "db_cells (sy_db s') = db_cells (sy_db s)"
    and "cell_holds (db_leases (sy_db s')) c \<subseteq> cell_holds (db_leases (sy_db s)) c"
    and "res = Inr x \<Longrightarrow> cell_holds (db_leases (sy_db s')) c \<subseteq> cell_holds (db_leases (sy_db s)) c - ({alloc_str alloc ''lease_id''} - {[]})"
  using assms by (cases rule: release_cell_cases; simp add: framed_def on_db_def cell_holds_release; fastforce)+

lemma release_cell_other:
  fixes s :: CellSys
  assumes "release_cell env alloc s = (res, s')" and "alloc_str alloc ''lease_id'' \<notin> cell_holds (db_leases (sy_db s)) c"
  shows "cell_holds (db_leases (sy_db s')) c = cell_holds (db_leases (sy_db s)) c"
  using assms(1) by (cases rule: release_cell_cases) (use assms(2) in \<open>simp_all add: framed_def on_db_def cell_holds_release\<close>)

lemma run_restarting_cases:
  assumes "cell_record m (sy_db s) = Inr r" and "run_restarting env m r s = (res, s')"
  shows "\<exists>t. release_cell env (cl_allocations r) s = (map_sum id (\<lambda>_. ()) res, t) \<and>
    (case res of Inl e \<Rightarrow> s' = t
     | Inr r' \<Rightarrow> \<exists>u. r' = apply_update (en_now env, u) r \<and> writes m r r' t s' \<and> cu_phase u = Some ADMITTING \<and>
         cu_restarts u = Some (cl_restarts r + 1) \<and> cu_allocations u = Some [])"
proof -
  obtain x t where x: "release_cell env (cl_allocations r) s = (x, t)" by (metis surj_pair)
  show ?thesis
  proof (cases x)
    case (Inl e)
    then show ?thesis using assms(2) by (auto simp: run_restarting_def x)
  next
    case (Inr y)
    have "cell_record m (sy_db t) = Inr r"
      using release_cell_leases(1) [OF x] assms(1) by (simp add: cell_record_def get_inference_cell_def)
    note w = step_to_writes [OF this, of env "''Restarting''" "''restart='' @ show_int (cl_restarts r + 1)"
        "(with_alloc [] (to_phase ADMITTING (make_condition env ''Restarting'' True ''scheduled'' (cl_conditions r)) None))
           \<lparr>cu_restarts := Some (cl_restarts r + 1)\<rparr>"]
    from w obtain s1 where s1: "run_restarting env m r s = (Inr (apply_update (en_now env,
         (with_alloc [] (to_phase ADMITTING (make_condition env ''Restarting'' True ''scheduled'' (cl_conditions r)) None))
           \<lparr>cu_restarts := Some (cl_restarts r + 1)\<rparr>) r), s1)"
      "writes m r (apply_update (en_now env,
         (with_alloc [] (to_phase ADMITTING (make_condition env ''Restarting'' True ''scheduled'' (cl_conditions r)) None))
           \<lparr>cu_restarts := Some (cl_restarts r + 1)\<rparr>) r) t s1"
      by (auto simp: run_restarting_def x Inr)
    with assms(2) show ?thesis by (auto simp: x Inr to_phase_def intro!: exI)
  qed
qed

end
