(* ===== verification/Cell_Lifecycle.thy ===== *)
theory Cell_Lifecycle
  imports Cell_Control
begin

text \<open>
  What the reconcile lane of inference cells guarantees: the phase graph, the bound on restarts and on
  the number of phase changes, the leases a cell may hold in each phase, the way of a planned cell to ready and the deletion of
  a cell; and two resources it does not give back.
\<close>

section \<open>One step\<close>

text \<open>A step outside the two phases that touch leases.\<close>

lemma run_once_moves:
  fixes s :: CellSys
  assumes "cell_record m (sy_db s) = Inr r" and "cl_phase r \<notin> {RESERVING, RESTARTING, READY, FAILED}"
  shows "moves env m r s (run_once env m s)"
  using assms
  by (cases "cl_phase r")
    (simp_all add: run_once_def run_pending_moves run_admitting_moves run_fabric_moves run_starting_workers_moves
      run_starting_leader_moves run_joining_moves)

lemma run_reserving_record:
  fixes s :: CellSys
  assumes "cell_record m (sy_db s) = Inr r" and "run_reserving env m r s = (Inr r', s')"
  shows "\<exists>u. r' = apply_update (en_now env, u) r \<and> cu_phase u \<in> {Some FABRIC, Some FAILED} \<and> cu_restarts u = None \<and>
    (case cu_allocations u of None \<Rightarrow> True | Some a \<Rightarrow> active_executor m a = active_executor m (cl_allocations r)) \<and>
    (\<exists>t. writes m r r' t s')"
proof -
  obtain ps where ps: "alloc_stage_placements (cl_allocations r) = Inr ps"
    using assms(2) by (auto simp: run_reserving_def split: sum.splits)
  obtain lease t where l: "reserve (en_now env) (en_lease_id env) (cl_cell_key r) (CellSpec.truncate (cm_spec m)) ps
      (db_leases (sy_db s)) = (lease, t)" by (metis surj_pair)
  have rec: "cell_record m (sy_db (on_db (\<lambda>st. st\<lparr>db_leases := t\<rparr>) s)) = Inr r"
    using assms(1) by (simp add: on_db_def cell_record_def get_inference_cell_def)
  note w = step_to_writes [OF rec, of env]
  obtain bo where lease: "lease = Inr bo" using assms(2) by (cases lease) (auto simp: run_reserving_def ps l)
  show ?thesis
  proof (cases bo)
    case None
    let ?u = "to_phase FAILED (make_condition env ''ResourcesReserved'' False ''resource reservation failed'' (cl_conditions r))
        (Some ''RESOURCE_RESERVE_FAILED'')"
    from w [of "''ReserveFailed''" "''resource reservation failed''" ?u] assms(2)
    have "r' = apply_update (en_now env, ?u) r" "\<exists>t. writes m r r' t s'" by (auto simp: run_reserving_def ps l lease None)
    then show ?thesis by (intro exI [of _ ?u]) (simp add: to_phase_def)
  next
    case (Some b)
    let ?u = "with_alloc (dict_put ''locked_nodes'' (JArr (map JStr (lb_locked_nodes b)))
          (dict_put ''api_port'' (JInt (lb_api_port b)) (dict_put ''master_port'' (json_opt_int (lb_master_port b))
          (dict_put ''lease_id'' (JStr (lb_lease_id b)) (cl_allocations r)))))
        (to_phase FABRIC (make_condition env ''ResourcesReserved'' True ''ok'' (cl_conditions r)) None)"
    from w [of "''Reserved''" "''lease='' @ lb_lease_id b" ?u] assms(2)
    have "r' = apply_update (en_now env, ?u) r" "\<exists>t. writes m r r' t s'" by (auto simp: run_reserving_def ps l lease Some)
    then show ?thesis by (intro exI [of _ ?u]) (simp add: to_phase_def)
  qed
qed

text \<open>What any step does to the record of its cell, leases aside.\<close>

lemma run_once_record:
  fixes s :: CellSys
  assumes "cell_record m (sy_db s) = Inr r" and "run_once env m s = (Inr r', s')"
  obtains (still) "cl_phase r \<in> {READY, FAILED}" "r' = r" "s' = s"
    | (move) u where "r' = apply_update (en_now env, u) r" "goes m r u" "cl_phase r \<noteq> RESTARTING" "cell_record m (sy_db s') = Inr r'"
    | (reserve) u where "cl_phase r = RESERVING" "r' = apply_update (en_now env, u) r" "cu_phase u \<in> {Some FABRIC, Some FAILED}"
        "cu_restarts u = None" "cell_record m (sy_db s') = Inr r'"
        "case cu_allocations u of None \<Rightarrow> True | Some a \<Rightarrow> active_executor m a = active_executor m (cl_allocations r)"
    | (restart) u where "cl_phase r = RESTARTING" "r' = apply_update (en_now env, u) r" "cu_phase u = Some ADMITTING"
        "cu_restarts u = Some (cl_restarts r + 1)" "cu_allocations u = Some []" "cell_record m (sy_db s') = Inr r'"
proof -
  consider "cl_phase r \<in> {READY, FAILED}" | "cl_phase r = RESERVING" | "cl_phase r = RESTARTING"
    | "cl_phase r \<notin> {RESERVING, RESTARTING, READY, FAILED}" by blast
  then show thesis
  proof cases
    case 1
    then show thesis using assms still by (auto simp: run_once_def)
  next
    case 2
    then have run: "run_reserving env m r s = (Inr r', s')" using assms by (simp add: run_once_def)
    from run_reserving_record [OF assms(1) run] show thesis using 2 reserve unfolding writes_def by blast
  next
    case 3
    then have run: "run_restarting env m r s = (Inr r', s')" using assms by (simp add: run_once_def)
    from run_restarting_cases [OF assms(1) run] show thesis using 3 restart by (auto simp: writes_def)
  next
    case 4
    from run_once_moves [OF assms(1) 4, of env] show thesis using assms(2) 4 move by (auto simp: moves_def writes_def)
  qed
qed

text \<open>
  (C24) The phase graph: a step of the reconcile lane that returns takes the cell along an edge of it, whatever agents,
  runtimes and probes answer; ready and failed cells are left alone.
\<close>

theorem cell_phase_graph:
  fixes s :: CellSys
  assumes "cell_record m (sy_db s) = Inr r" and "run_once env m s = (Inr r', s')"
  shows "cl_phase r' \<in> phase_next (cl_phase r)"
  using assms
proof (cases rule: run_once_record)
  case still
  then show ?thesis by auto
next
  case (move u)
  then show ?thesis by (auto simp: goes_def apply_update_def)
qed (auto simp: apply_update_def)

section \<open>Restarts and termination\<close>

text \<open>A cell that is restarting has restarts left.\<close>

definition restarts_ok :: "InferenceCellManifest \<Rightarrow> InferenceCellRecord \<Rightarrow> bool" where
  "restarts_ok m r \<longleftrightarrow> cl_restarts r \<le> cm_max_restarts m \<and> (cl_phase r = RESTARTING \<longrightarrow> cl_restarts r < cm_max_restarts m)"

lemma run_once_restarts:
  fixes s :: CellSys
  assumes "cell_record m (sy_db s) = Inr r" and "run_once env m s = (Inr r', s')" and "restarts_ok m r"
  shows "restarts_ok m r'"
  using assms(1,2)
proof (cases rule: run_once_record)
  case still
  then show ?thesis using assms(3) by simp
next
  case (move u)
  then show ?thesis using assms(3) by (auto simp: goes_def apply_update_def restarts_ok_def)
next
  case (reserve u)
  then show ?thesis using assms(3) by (auto simp: apply_update_def restarts_ok_def)
next
  case (restart u)
  then show ?thesis using assms(3) by (auto simp: apply_update_def restarts_ok_def)
qed

fun phase_rank :: "CellPhase \<Rightarrow> nat" where
  "phase_rank PENDING = 9"
| "phase_rank ADMITTING = 8"
| "phase_rank RESERVING = 7"
| "phase_rank FABRIC = 6"
| "phase_rank STARTING_WORKERS = 5"
| "phase_rank STARTING_LEADER = 4"
| "phase_rank JOINING = 3"
| "phase_rank RESTARTING = 2"
| "phase_rank READY = 0"
| "phase_rank FAILED = 0"

definition fallback_left :: "InferenceCellManifest \<Rightarrow> InferenceCellRecord \<Rightarrow> nat" where
  "fallback_left m r = (if cl_phase r \<in> {PENDING, ADMITTING, RESERVING} \<or> active_executor m (cl_allocations r) = ''ray'' then 1 else 0)"

definition cell_rank :: "InferenceCellManifest \<Rightarrow> InferenceCellRecord \<Rightarrow> nat" where
  "cell_rank m r = 20 * nat (cm_max_restarts m - cl_restarts r) + 8 * fallback_left m r + phase_rank (cl_phase r)"

lemma goes_executor:
  assumes "goes m r u" and "r' = apply_update (now, u) r"
  shows "cl_phase r' \<in> phase_next (cl_phase r)" "cl_restarts r' = cl_restarts r"
    "cl_phase r = ADMITTING \<or> active_executor m (cl_allocations r') = active_executor m (cl_allocations r) \<or>
       active_executor m (cl_allocations r') = ''mp''"
    "cl_phase r' = STARTING_WORKERS \<Longrightarrow> cl_phase r = FABRIC \<or>
       (active_executor m (cl_allocations r) = ''ray'' \<and> active_executor m (cl_allocations r') = ''mp'')"
  using assms by (auto simp: goes_def apply_update_def same_alloc_def falls_back_def split: option.splits)

lemma goes_rank:
  assumes "goes m r u" and "cl_phase r \<noteq> RESTARTING" and "cl_phase (apply_update (now, u) r) \<noteq> cl_phase r"
  shows "cell_rank m (apply_update (now, u) r) < cell_rank m r"
proof -
  define r' where "r' = apply_update (now, u) r"
  note ex = goes_executor [OF assms(1) r'_def]
  have "8 * fallback_left m r' + phase_rank (cl_phase r') < 8 * fallback_left m r + phase_rank (cl_phase r)"
    using ex assms(2,3) unfolding r'_def [symmetric]
    by (cases "cl_phase r"; cases "cl_phase r'") (auto simp: fallback_left_def)
  then show ?thesis using ex(2) by (simp add: cell_rank_def flip: r'_def)
qed

text \<open>A step that changes the phase decreases the rank: by restarts first, then by the fall-back left, then by phase.\<close>

lemma run_once_rank:
  fixes s :: CellSys
  assumes "cell_record m (sy_db s) = Inr r" and "run_once env m s = (Inr r', s')" and "restarts_ok m r"
    and "cl_phase r' \<noteq> cl_phase r"
  shows "cell_rank m r' < cell_rank m r"
  using assms(1,2)
proof (cases rule: run_once_record)
  case still
  then show ?thesis using assms(4) by simp
next
  case (move u)
  then show ?thesis using goes_rank assms(4) by simp
next
  case (reserve u)
  then show ?thesis by (auto simp: cell_rank_def fallback_left_def apply_update_def)
next
  case (restart u)
  then have "cl_restarts r < cm_max_restarts m" using assms(3) by (simp add: restarts_ok_def)
  then show ?thesis using restart by (auto simp: cell_rank_def fallback_left_def apply_update_def nat_diff_distrib' algebra_simps)
qed

text \<open>A run of steps of one cell, whatever each of them returns, and the number of phase changes in it.\<close>

fun cell_run :: "cell_env list \<Rightarrow> InferenceCellManifest \<Rightarrow> CellSys \<Rightarrow> CellSys" where
  "cell_run [] m s = s"
| "cell_run (env # envs) m s = cell_run envs m (snd (run_once env m s))"

definition cell_phase :: "InferenceCellManifest \<Rightarrow> CellSys \<Rightarrow> CellPhase option" where
  "cell_phase m s = (case cell_record m (sy_db s) of Inl _ \<Rightarrow> None | Inr r \<Rightarrow> Some (cl_phase r))"

fun phase_changes :: "cell_env list \<Rightarrow> InferenceCellManifest \<Rightarrow> CellSys \<Rightarrow> nat" where
  "phase_changes [] m s = 0"
| "phase_changes (env # envs) m s = (let s1 = snd (run_once env m s)
     in (if cell_phase m s1 = cell_phase m s then 0 else 1) + phase_changes envs m s1)"

lemma step_to_no_raise:
  fixes s :: CellSys
  shows "cell_record m (sy_db s) = Inr r \<Longrightarrow> step_to env m ty msg u s \<noteq> (Inl e, s')"
  using step_to_writes [of m s r env ty msg u] by auto

lemma run_once_raises:
  fixes s :: CellSys
  assumes "cell_record m (sy_db s) = Inr r" and "run_once env m s = (Inl e, s')"
  shows "cell_record m (sy_db s') = Inr r"
proof -
  have cells: "db_cells (sy_db s') = db_cells (sy_db s)"
  proof (cases "cl_phase r \<in> {RESERVING, RESTARTING, READY, FAILED}")
    case False
    from run_once_moves [OF assms(1) False, of env] assms(2) show ?thesis by (simp add: moves_def framed_def)
  next
    case True
    then consider "cl_phase r = RESERVING" | "cl_phase r = RESTARTING" | "cl_phase r \<in> {READY, FAILED}" by blast
    then show ?thesis
    proof cases
      case 1
      then have "run_reserving env m r s = (Inl e, s')" using assms by (simp add: run_once_def)
      moreover have "step_to env m ty msg u (on_db (\<lambda>st. st\<lparr>db_leases := t\<rparr>) s) \<noteq> (Inl e, s')" for ty msg u t
        by (rule step_to_no_raise) (use assms(1) in \<open>simp add: on_db_def cell_record_def get_inference_cell_def\<close>)
      ultimately show ?thesis
        by (auto simp: run_reserving_def Let_def split: sum.splits prod.splits option.splits) (auto simp: on_db_def)
    next
      case 2
      then have "run_restarting env m r s = (Inl e, s')" using assms by (simp add: run_once_def)
      from run_restarting_cases [OF assms(1) this] obtain t where "release_cell env (cl_allocations r) s = (Inl e, s')" by auto
      then show ?thesis by (rule release_cell_leases(1))
    qed (use assms in \<open>auto simp: run_once_def\<close>)
  qed
  then show ?thesis using assms(1) by (simp add: cell_record_def get_inference_cell_def)
qed

lemma run_once_record_kept:
  fixes s :: CellSys
  assumes "cell_record m (sy_db s) = Inr r" and "run_once env m s = (Inr r', s')"
  shows "cell_record m (sy_db s') = Inr r'"
  using assms by (cases rule: run_once_record) (use assms(1) in simp_all)

lemma run_once_rank_same:
  fixes s :: CellSys
  assumes "cell_record m (sy_db s) = Inr r" and "run_once env m s = (Inr r', s')" and "cl_phase r' = cl_phase r"
  shows "cell_rank m r' \<le> cell_rank m r"
  using assms(1,2)
proof (cases rule: run_once_record)
  case (move u)
  note ex = goes_executor [OF move(2,1)]
  have "fallback_left m r' \<le> fallback_left m r"
    using ex assms(3) by (cases "cl_phase r") (auto simp: fallback_left_def)
  then show ?thesis using ex(2) assms(3) by (simp add: cell_rank_def)
qed (use assms(3) in \<open>auto simp: apply_update_def\<close>)

lemma run_once_result:
  fixes s :: CellSys
  assumes "cell_record m (sy_db s) = Inr r" and "restarts_ok m r"
  obtains r' where "cell_record m (sy_db (snd (run_once env m s))) = Inr r'" "restarts_ok m r'"
    "cell_rank m r' + (if cl_phase r' = cl_phase r then 0 else 1) \<le> cell_rank m r"
proof -
  obtain res s' where run: "run_once env m s = (res, s')" by (metis surj_pair)
  show thesis
  proof (cases res)
    case (Inl e)
    with run that assms show thesis using run_once_raises [OF assms(1)] by simp
  next
    case (Inr r')
    note o = assms(1) run [unfolded Inr]
    have "cell_rank m r' + (if cl_phase r' = cl_phase r then 0 else 1) \<le> cell_rank m r"
      using run_once_rank [OF o assms(2)] run_once_rank_same [OF o] by auto
    with that run_once_record_kept [OF o] run_once_restarts [OF o assms(2)] show thesis by (simp add: run)
  qed
qed

lemma cell_run_rank:
  fixes s :: CellSys
  assumes "cell_record m (sy_db s) = Inr r" and "restarts_ok m r"
  shows "phase_changes envs m s \<le> cell_rank m r \<and>
    (\<exists>r'. cell_record m (sy_db (cell_run envs m s)) = Inr r' \<and> restarts_ok m r')"
  using assms
proof (induction envs arbitrary: s r)
  case (Cons env envs)
  obtain r' where r': "cell_record m (sy_db (snd (run_once env m s))) = Inr r'" "restarts_ok m r'"
    "cell_rank m r' + (if cl_phase r' = cl_phase r then 0 else 1) \<le> cell_rank m r"
    using run_once_result [OF Cons.prems] by blast
  have "cell_phase m s = Some (cl_phase r)" "cell_phase m (snd (run_once env m s)) = Some (cl_phase r')"
    using Cons.prems(1) r'(1) by (simp_all add: cell_phase_def)
  with Cons.IH [OF r'(1,2)] r'(3) show ?case by (auto simp: Let_def split: if_splits)
qed auto

text \<open>
  (C22) Reconciling ends. However often a cell is reconciled and whatever fails, it changes its phase at most
  twenty times for each restart it has left and seventeen times besides: then it stays ready, failed or waiting for its leader's
  API. It never restarts more often than its manifest allows.
\<close>

theorem cell_reconcile_terminates:
  fixes s :: CellSys
  assumes "cell_record m (sy_db s) = Inr r" and "restarts_ok m r"
  shows "phase_changes envs m s \<le> 20 * nat (cm_max_restarts m - cl_restarts r) + 17 \<and>
    (\<exists>r'. cell_record m (sy_db (cell_run envs m s)) = Inr r' \<and> cl_restarts r' \<le> cm_max_restarts m)"
proof -
  have "8 * fallback_left m r + phase_rank (cl_phase r) \<le> 17"
    by (cases "cl_phase r") (auto simp: fallback_left_def)
  then have "cell_rank m r \<le> 20 * nat (cm_max_restarts m - cl_restarts r) + 17" by (simp add: cell_rank_def)
  with cell_run_rank [OF assms, of envs] show ?thesis unfolding restarts_ok_def by fastforce
qed

section \<open>Leases of the cells of a store\<close>

definition holds_ok :: "InferenceCellRecord option \<Rightarrow> string set \<Rightarrow> bool" where
  "holds_ok ro H \<longleftrightarrow> (case ro of None \<Rightarrow> H = {}
     | Some r \<Rightarrow> H \<subseteq> {alloc_str (cl_allocations r) ''lease_id''} - {[]} \<and>
         (cl_phase r \<in> {PENDING, ADMITTING, RESERVING} \<longrightarrow> H = {}))"

definition cells_ok :: "CellSys \<Rightarrow> bool" where
  "cells_ok s \<longleftrightarrow> (\<forall>k. holds_ok (cell_at k s) (cell_holds (db_leases (sy_db s)) k))"

text \<open>Lease ids are random in the source: a new one is in no table and no cell records it.\<close>

definition fresh_lease :: "string \<Rightarrow> CellSys \<Rightarrow> bool" where
  "fresh_lease i s \<longleftrightarrow> i \<noteq> [] \<and> lease_free i (db_leases (sy_db s)) \<and>
     list_all (\<lambda>r. alloc_str (cl_allocations r) ''lease_id'' \<noteq> i) (db_cells (sy_db s))"

text \<open>
  The runs of a store with any number of cells: they are registered, reconciled step by step and deleted, nodes come and go.
\<close>

inductive cells_reachable :: "CellSys \<Rightarrow> bool" where
  start: "cells_reachable \<lparr>sy_db = empty_cell_store ns, sy_log = []\<rparr>"
| register: "cells_reachable s \<Longrightarrow> cells_reachable (on_db (register_inference_cell now m source) s)"
| step: "cells_reachable s \<Longrightarrow> fresh_lease (en_lease_id env) s \<Longrightarrow> cells_reachable (snd (run_once env m s))"
| delete: "cells_reachable s \<Longrightarrow> cells_reachable (snd (delete_cell env name ns s))"
| nodes: "cells_reachable s \<Longrightarrow> cells_reachable (on_db (\<lambda>st. st\<lparr>db_nodes := ns\<rparr>) s)"

lemma cells_okI:
  assumes "\<And>k. holds_ok (cell_at k s) (cell_holds (db_leases (sy_db s)) k)"
  shows "cells_ok s"
  using assms by (simp add: cells_ok_def)

lemma holds_ok_subset: "holds_ok ro H \<Longrightarrow> H' \<subseteq> H \<Longrightarrow> holds_ok ro H'"
  by (auto simp: holds_ok_def split: option.splits)

text \<open>An update that keeps the recorded lease and goes along the phase graph keeps the invariant.\<close>

lemma goes_holds:
  assumes "goes m r u" and "cl_phase r \<noteq> RESTARTING" and "holds_ok (Some r) H"
  shows "holds_ok (Some (apply_update (now, u) r)) H"
proof -
  from assms(1) have "alloc_str (cl_allocations (apply_update (now, u) r)) ''lease_id'' = alloc_str (cl_allocations r) ''lease_id''"
    by (auto simp: goes_def apply_update_def alloc_str_def split: option.splits)
  moreover from assms(1,2) have "cl_phase r \<in> {PENDING, ADMITTING, RESERVING}"
    if "cl_phase (apply_update (now, u) r) \<in> {PENDING, ADMITTING, RESERVING}"
    using that by (cases "cl_phase r") (auto simp: goes_def apply_update_def)
  ultimately show ?thesis using assms(3) by (auto simp: holds_ok_def)
qed

lemma cells_ok_framed: "framed s t \<Longrightarrow> cells_ok s \<Longrightarrow> cells_ok t"
  by (simp add: cells_ok_def cell_at_framed) (simp add: framed_def)

text \<open>An update of one record, after its leases became \<open>t\<close>.\<close>

lemma cells_ok_writes:
  assumes "cells_ok s" and "writes m r r' u s'" and "\<And>k. cell_at k u = cell_at k s"
    and "\<And>k. k \<noteq> cl_cell_key r \<Longrightarrow> cell_holds (db_leases (sy_db u)) k \<subseteq> cell_holds (db_leases (sy_db s)) k"
    and "holds_ok (Some r') (cell_holds (db_leases (sy_db u)) (cl_cell_key r))"
  shows "cells_ok s'"
proof (rule cells_okI)
  fix k
  from assms(2) have at: "cell_at k s' = (if k = cl_cell_key r then Some r' else cell_at k u)"
    and l: "db_leases (sy_db s') = db_leases (sy_db u)" by (auto simp: writes_def)
  show "holds_ok (cell_at k s') (cell_holds (db_leases (sy_db s')) k)"
  proof (cases "k = cl_cell_key r")
    case True
    then show ?thesis using assms(5) at l by simp
  next
    case False
    have "holds_ok (cell_at k s) (cell_holds (db_leases (sy_db s)) k)" using assms(1) by (simp add: cells_ok_def)
    from holds_ok_subset [OF this assms(4) [OF False]] show ?thesis using False by (simp add: at l assms(3))
  qed
qed

lemma cells_ok_moves:
  fixes s :: CellSys
  assumes "cells_ok s" and "cell_record m (sy_db s) = Inr r" and "cl_phase r \<noteq> RESTARTING" and "moves env m r s (res, s')"
  shows "cells_ok s'"
proof (cases res)
  case (Inl e)
  then show ?thesis using assms cells_ok_framed by (simp add: moves_def)
next
  case (Inr r')
  then obtain u where u: "r' = apply_update (en_now env, u) r" "goes m r u" "writes m r r' s s'"
    using assms(4) by (auto simp: moves_def)
  have "cell_at (cl_cell_key r) s = Some r" using assms(2) cell_record_key [OF assms(2)] by (simp add: cell_record_at)
  then have "holds_ok (Some r) (cell_holds (db_leases (sy_db s)) (cl_cell_key r))"
    using assms(1) unfolding cells_ok_def by metis
  from goes_holds [OF u(2) assms(3) this] show ?thesis by (intro cells_ok_writes [OF assms(1) u(3)]) (simp_all add: u(1))
qed

lemma holds_at:
  fixes s :: CellSys
  assumes "cells_ok s" and "cell_record m (sy_db s) = Inr r"
  shows "holds_ok (Some r) (cell_holds (db_leases (sy_db s)) (cl_cell_key r))"
proof -
  have "cell_at (cl_cell_key r) s = Some r" using assms(2) cell_record_key [OF assms(2)] by (simp add: cell_record_at)
  then show ?thesis using assms(1) unfolding cells_ok_def by metis
qed

lemma cells_ok_reserving:
  fixes s :: CellSys
  assumes "cells_ok s" and "cell_record m (sy_db s) = Inr r" and "cl_phase r = RESERVING"
    and "lease_free (en_lease_id env) (db_leases (sy_db s))" and "en_lease_id env \<noteq> []"
  shows "cells_ok (snd (run_reserving env m r s))"
proof -
  obtain res s' where run: "run_reserving env m r s = (res, s')" by (metis surj_pair)
  from run_reserving_cases [OF assms(2-5) run] have "cells_ok s'"
  proof (elim disjE exE conjE, goal_cases)
    case 1
    then show ?case using cells_ok_moves [OF assms(1,2)] assms(3) by simp
  next
    case (2 u t a)
    have "cell_holds (db_leases (sy_db s)) (cl_cell_key r) = {}"
      using holds_at [OF assms(1,2)] assms(3) by (simp add: holds_ok_def)
    then have "holds_ok (Some (apply_update (en_now env, u) r)) (cell_holds t (cl_cell_key r))"
      using 2(3,5,7,8) assms(5) by (fastforce simp: holds_ok_def apply_update_def adds_only_def new_id_def)
    moreover have "cell_holds t k \<subseteq> cell_holds (db_leases (sy_db s)) k" if "k \<noteq> cl_cell_key r" for k
      using 2(3) that unfolding adds_only_def new_id_def by fastforce
    ultimately show ?case by (intro cells_ok_writes [OF assms(1) 2(2)]) (simp_all add: on_db_def cell_at_def)
  qed
  then show ?thesis by (simp add: run)
qed

lemma cells_ok_release:
  fixes s :: CellSys
  assumes "cells_ok s" and "release_cell env alloc s = (res, t)"
  shows "cells_ok t"
proof (rule cells_okI)
  fix k
  have "holds_ok (cell_at k s) (cell_holds (db_leases (sy_db s)) k)" using assms(1) by (simp add: cells_ok_def)
  from holds_ok_subset [OF this release_cell_leases(2) [OF assms(2)]]
  show "holds_ok (cell_at k t) (cell_holds (db_leases (sy_db t)) k)"
    by (simp add: cell_at_def release_cell_leases(1) [OF assms(2)])
qed

text \<open>What the cell held is gone after its release.\<close>

lemma released_holds:
  fixes s :: CellSys
  assumes "cells_ok s" and "cell_record m (sy_db s) = Inr r" and "release_cell env (cl_allocations r) s = (Inr x, t)"
  shows "cell_holds (db_leases (sy_db t)) (cl_cell_key r) = {}"
  using holds_at [OF assms(1,2)] release_cell_leases(3) [OF assms(3), of x "cl_cell_key r"]
  unfolding holds_ok_def by auto

lemma cells_ok_restarting:
  fixes s :: CellSys
  assumes "cells_ok s" and "cell_record m (sy_db s) = Inr r"
  shows "cells_ok (snd (run_restarting env m r s))"
proof -
  obtain res s' where run: "run_restarting env m r s = (res, s')" by (metis surj_pair)
  from run_restarting_cases [OF assms(2) run] obtain t where
    t: "release_cell env (cl_allocations r) s = (map_sum id (\<lambda>_. ()) res, t)"
    and c: "case res of Inl e \<Rightarrow> s' = t
     | Inr r' \<Rightarrow> \<exists>u. r' = apply_update (en_now env, u) r \<and> writes m r r' t s' \<and> cu_phase u = Some ADMITTING \<and>
         cu_restarts u = Some (cl_restarts r + 1) \<and> cu_allocations u = Some []" by blast
  have ok: "cells_ok t" by (rule cells_ok_release [OF assms(1) t])
  have "cells_ok s'"
  proof (cases res)
    case (Inl e)
    then show ?thesis using c ok by simp
  next
    case (Inr r')
    with c have w: "writes m r r' t s'" by auto
    have "cell_holds (db_leases (sy_db t)) (cl_cell_key r) = {}"
      using released_holds [OF assms, of env "()" t] t Inr by simp
    then show ?thesis by (intro cells_ok_writes [OF ok w]) (simp_all add: holds_ok_def)
  qed
  then show ?thesis by (simp add: run)
qed

lemma cells_ok_run_once:
  fixes s :: CellSys
  assumes "cells_ok s" and "lease_free (en_lease_id env) (db_leases (sy_db s))" and "en_lease_id env \<noteq> []"
  shows "cells_ok (snd (run_once env m s))"
proof (cases "cell_record m (sy_db s)")
  case (Inl e)
  then show ?thesis using assms(1) by (simp add: run_once_def)
next
  case (Inr r)
  consider "cl_phase r \<in> {READY, FAILED}" | "cl_phase r = RESERVING" | "cl_phase r = RESTARTING"
    | "cl_phase r \<notin> {RESERVING, RESTARTING, READY, FAILED}" by blast
  then show ?thesis
  proof cases
    case 1
    then show ?thesis using Inr assms(1) by (auto simp: run_once_def)
  next
    case 2
    then show ?thesis using cells_ok_reserving [OF assms(1) Inr 2 assms(2,3)] Inr by (simp add: run_once_def)
  next
    case 3
    then show ?thesis using cells_ok_restarting [OF assms(1) Inr] Inr by (simp add: run_once_def)
  next
    case 4
    obtain res s' where run: "run_once env m s = (res, s')" by (metis surj_pair)
    from run_once_moves [OF Inr 4, of env] show ?thesis using cells_ok_moves [OF assms(1) Inr] 4 by (simp add: run)
  qed
qed

lemma cells_ok_register:
  assumes "cells_ok s"
  shows "cells_ok (on_db (register_inference_cell now m source) s)"
proof (rule cells_okI)
  fix k
  have "holds_ok (cell_at k s) (cell_holds (db_leases (sy_db s)) k)" using assms by (simp add: cells_ok_def)
  then show "holds_ok (cell_at k (on_db (register_inference_cell now m source) s))
      (cell_holds (db_leases (sy_db (on_db (register_inference_cell now m source) s))) k)"
    by (auto simp: cell_at_def on_db_def register_inference_cell_def Let_def cl_reg.lookup_upsert holds_ok_def split: option.splits)
qed

lemma cell_holds_deleted: "cell_holds (delete_cell_leases c t) k = (if k = c then {} else cell_holds t k)"
  by (auto simp: delete_cell_leases_def cell_holds_def table_ids_def delete_where_def)

lemma cell_at_deleted:
  "cell_at k (on_db (delete_inference_cell name ns) s) = (if k = inference_key name ns then None else cell_at k s)"
  by (auto simp: cell_at_def on_db_def delete_inference_cell_def Let_def find_None_iff intro: find_delete_where)

lemma cells_ok_delete:
  assumes "cells_ok s"
  shows "cells_ok (on_db (delete_inference_cell name ns) s)"
proof (rule cells_okI)
  fix k
  have "holds_ok (cell_at k s) (cell_holds (db_leases (sy_db s)) k)" using assms by (simp add: cells_ok_def)
  then show "holds_ok (cell_at k (on_db (delete_inference_cell name ns) s))
      (cell_holds (db_leases (sy_db (on_db (delete_inference_cell name ns) s))) k)"
    by (simp add: cell_at_deleted) (auto simp: on_db_def delete_inference_cell_def Let_def cell_holds_deleted holds_ok_def)
qed


lemma cells_ok_delete_cell:
  assumes "cells_ok s"
  shows "cells_ok (snd (delete_cell env name ns s))"
proof (cases "get_inference_cell name ns (sy_db s)")
  case None
  then show ?thesis using assms by (simp add: delete_cell_def)
next
  case (Some r)
  obtain res t where t: "release_cell env (cl_allocations r) s = (res, t)" by (metis surj_pair)
  have "cells_ok t" by (rule cells_ok_release [OF assms t])
  then show ?thesis using cells_ok_delete by (simp add: delete_cell_def Some t split: sum.splits)
qed

section \<open>Cells do not touch each other\<close>

text \<open>No cell records a lease that another cell holds.\<close>

definition cells_apart :: "CellSys \<Rightarrow> bool" where
  "cells_apart s \<longleftrightarrow> (\<forall>k k' r. cell_at k s = Some r \<longrightarrow> k' \<noteq> k \<longrightarrow>
     alloc_str (cl_allocations r) ''lease_id'' \<notin> cell_holds (db_leases (sy_db s)) k')"

definition lease_ids :: "InferenceCellRecord option \<Rightarrow> string set" where
  "lease_ids ro = (case ro of None \<Rightarrow> {} | Some r \<Rightarrow> {alloc_str (cl_allocations r) ''lease_id''})"

text \<open>An operation on cell \<open>c\<close> with the new lease ids \<open>J\<close> at hand.\<close>

definition local_change :: "string set \<Rightarrow> string \<Rightarrow> CellSys \<Rightarrow> CellSys \<Rightarrow> bool" where
  "local_change J c s s' \<longleftrightarrow>
     (\<forall>k. k \<noteq> c \<longrightarrow> cell_at k s' = cell_at k s \<and> cell_holds (db_leases (sy_db s')) k = cell_holds (db_leases (sy_db s)) k) \<and>
     cell_holds (db_leases (sy_db s')) c \<subseteq> cell_holds (db_leases (sy_db s)) c \<union> J \<and>
     lease_ids (cell_at c s') \<subseteq> lease_ids (cell_at c s) \<union> {[]} \<union> J"

lemma holds_not_empty: "cells_ok s \<Longrightarrow> [] \<notin> cell_holds (db_leases (sy_db s)) k"
  unfolding cells_ok_def holds_ok_def by (auto split: option.splits dest!: spec [of _ k])

lemma cells_apart_empty: "cells_ok s \<Longrightarrow> alloc_str [] ''lease_id'' \<notin> cell_holds (db_leases (sy_db s)) k"
  by (simp add: alloc_str_def py_or_def holds_not_empty)

lemma fresh_holds: "fresh_lease i s \<Longrightarrow> i \<notin> cell_holds (db_leases (sy_db s)) k"
  by (auto simp: fresh_lease_def lease_free_def cell_holds_def table_ids_def)

lemma fresh_recorded: "fresh_lease i s \<Longrightarrow> cell_at k s = Some r \<Longrightarrow> alloc_str (cl_allocations r) ''lease_id'' \<noteq> i"
  by (auto simp: fresh_lease_def cell_at_def list_all_iff find_Some_iff)

lemma cells_apart_local:
  assumes "cells_ok s" and "cells_apart s" and "local_change J c s s'" and "\<forall>i \<in> J. fresh_lease i s"
  shows "cells_apart s'"
  unfolding cells_apart_def
proof (intro allI impI)
  fix k k' r
  assume r: "cell_at k s' = Some r" and ne: "k' \<noteq> k"
  let ?id = "alloc_str (cl_allocations r) ''lease_id''" and ?h = "\<lambda>s k. cell_holds (db_leases (sy_db s)) k"
  have i: "J \<inter> ?h s x = {}" for x using assms(4) fresh_holds by blast
  show "?id \<notin> ?h s' k'"
  proof (cases "k = c")
    case True
    with ne assms(3) have "?h s' k' = ?h s k'" by (simp add: local_change_def)
    moreover have "?id \<in> lease_ids (cell_at c s) \<union> {[]} \<union> J" using assms(3) r True by (auto simp: local_change_def lease_ids_def)
    ultimately show ?thesis using i holds_not_empty [OF assms(1)] assms(2) ne True
      by (auto simp: lease_ids_def cells_apart_def split: option.splits)
  next
    case False
    then have at: "cell_at k s = Some r" using r assms(3) by (simp add: local_change_def)
    then have "?id \<notin> ?h s k'" using assms(2) ne by (auto simp: cells_apart_def)
    moreover have "?id \<notin> J" using assms(4) fresh_recorded [OF _ at] by blast
    moreover have "?h s' k' \<subseteq> ?h s k' \<union> J" using assms(3) by (cases "k' = c") (auto simp: local_change_def)
    ultimately show ?thesis by blast
  qed
qed

lemma local_framed: "framed s t \<Longrightarrow> local_change J c s t"
  by (simp add: local_change_def cell_at_framed) (auto simp: framed_def)

lemma local_writes:
  assumes "writes m r r' u s'" and "c = cl_cell_key r" and "\<And>k. cell_at k u = cell_at k s"
    and "\<And>k. k \<noteq> c \<Longrightarrow> cell_holds (db_leases (sy_db u)) k = cell_holds (db_leases (sy_db s)) k"
    and "cell_holds (db_leases (sy_db u)) c \<subseteq> cell_holds (db_leases (sy_db s)) c \<union> J"
    and "alloc_str (cl_allocations r') ''lease_id'' \<in> lease_ids (cell_at c s) \<union> {[]} \<union> J"
  shows "local_change J c s s'"
  using assms by (auto simp: local_change_def writes_def lease_ids_def)

lemma local_moves:
  fixes s :: CellSys
  assumes "cell_record m (sy_db s) = Inr r" and "moves env m r s (res, s')"
  shows "local_change J (cl_cell_key r) s s'"
proof (cases res)
  case (Inl e)
  then show ?thesis using assms local_framed by (simp add: moves_def)
next
  case (Inr r')
  then obtain u where u: "r' = apply_update (en_now env, u) r" "goes m r u" "writes m r r' s s'"
    using assms(2) by (auto simp: moves_def)
  have "cell_at (cl_cell_key r) s = Some r" using assms(1) cell_record_key [OF assms(1)] by (simp add: cell_record_at)
  moreover have "alloc_str (cl_allocations r') ''lease_id'' = alloc_str (cl_allocations r) ''lease_id''"
    using u(1,2) by (auto simp: goes_def apply_update_def alloc_str_def split: option.splits)
  ultimately show ?thesis by (intro local_writes [OF u(3)]) (auto simp: lease_ids_def)
qed

lemma local_reserving:
  fixes s :: CellSys
  assumes "cell_record m (sy_db s) = Inr r" and "cl_phase r = RESERVING" and "fresh_lease (en_lease_id env) s"
  shows "local_change {en_lease_id env} (cl_cell_key r) s (snd (run_reserving env m r s))"
proof -
  obtain res s' where run: "run_reserving env m r s = (res, s')" by (metis surj_pair)
  have free: "lease_free (en_lease_id env) (db_leases (sy_db s))" "en_lease_id env \<noteq> []"
    using assms(3) by (simp_all add: fresh_lease_def)
  from run_reserving_cases [OF assms(1,2) free run] have "local_change {en_lease_id env} (cl_cell_key r) s s'"
  proof (elim disjE exE conjE, goal_cases)
    case 1
    then show ?case by (rule local_moves [OF assms(1)])
  next
    case (2 u t a)
    have "cell_holds t k = cell_holds (db_leases (sy_db s)) k" if "k \<noteq> cl_cell_key r" for k
      using 2(3,4) that unfolding adds_only_def new_id_def by fastforce
    moreover have "cell_holds t (cl_cell_key r) \<subseteq> cell_holds (db_leases (sy_db s)) (cl_cell_key r) \<union> {en_lease_id env}"
      using 2(3) unfolding adds_only_def new_id_def by fastforce
    ultimately show ?case using 2(7,8)
      by (intro local_writes [OF 2(2)]) (simp_all add: on_db_def cell_at_def apply_update_def)
  qed
  then show ?thesis by (simp add: run)
qed

lemma local_release:
  fixes s :: CellSys
  assumes "cells_apart s" and "cell_at c s = Some r" and "release_cell env (cl_allocations r) s = (res, t)"
  shows "local_change J c s t"
proof -
  have "cell_at k t = cell_at k s" for k by (simp add: cell_at_def release_cell_leases(1) [OF assms(3)])
  moreover have "cell_holds (db_leases (sy_db t)) k = cell_holds (db_leases (sy_db s)) k" if "k \<noteq> c" for k
    using release_cell_other [OF assms(3)] assms(1,2) that by (simp add: cells_apart_def)
  ultimately show ?thesis using release_cell_leases(2) [OF assms(3), of c] by (auto simp: local_change_def)
qed

lemma local_change_trans:
  assumes "local_change J c s t" and "local_change J c t u"
  shows "local_change J c s u"
  using assms unfolding local_change_def by auto

lemma local_restarting:
  fixes s :: CellSys
  assumes "cells_apart s" and "cell_record m (sy_db s) = Inr r"
  shows "local_change J (cl_cell_key r) s (snd (run_restarting env m r s))"
proof -
  obtain res s' where run: "run_restarting env m r s = (res, s')" by (metis surj_pair)
  from run_restarting_cases [OF assms(2) run] obtain t where
    t: "release_cell env (cl_allocations r) s = (map_sum id (\<lambda>_. ()) res, t)"
    and c: "case res of Inl e \<Rightarrow> s' = t
     | Inr r' \<Rightarrow> \<exists>u. r' = apply_update (en_now env, u) r \<and> writes m r r' t s' \<and> cu_phase u = Some ADMITTING \<and>
         cu_restarts u = Some (cl_restarts r + 1) \<and> cu_allocations u = Some []" by blast
  have "cell_at (cl_cell_key r) s = Some r" using assms(2) cell_record_key [OF assms(2)] by (simp add: cell_record_at)
  note l = local_release [OF assms(1) this t]
  have "local_change J (cl_cell_key r) s s'"
  proof (cases res)
    case (Inl e)
    then show ?thesis using c l by simp
  next
    case (Inr r')
    with c obtain u where u: "r' = apply_update (en_now env, u) r" "writes m r r' t s'" "cu_allocations u = Some []" by auto
    have "local_change J (cl_cell_key r) t s'"
      by (intro local_writes [OF u(2)]) (simp_all add: u(1,3) apply_update_def alloc_str_def py_or_def)
    with l show ?thesis by (rule local_change_trans)
  qed
  then show ?thesis by (simp add: run)
qed

lemma local_run_once:
  fixes s :: CellSys
  assumes "cells_apart s" and "fresh_lease (en_lease_id env) s"
  shows "local_change {en_lease_id env} (inference_key (cm_name m) (cm_namespace m)) s (snd (run_once env m s))"
proof (cases "cell_record m (sy_db s)")
  case (Inl e)
  then show ?thesis by (simp add: run_once_def local_framed)
next
  case (Inr r)
  note key = cell_record_key [OF Inr]
  obtain res s' where run: "run_once env m s = (res, s')" by (metis surj_pair)
  consider "cl_phase r \<in> {READY, FAILED}" | "cl_phase r = RESERVING" | "cl_phase r = RESTARTING"
    | "cl_phase r \<notin> {RESERVING, RESTARTING, READY, FAILED}" by blast
  then show ?thesis
  proof cases
    case 1
    then show ?thesis using Inr by (auto simp: run_once_def local_framed)
  next
    case 2
    then show ?thesis using local_reserving [OF Inr 2 assms(2)] Inr by (simp add: run_once_def key)
  next
    case 3
    then show ?thesis using local_restarting [OF assms(1) Inr] Inr by (simp add: run_once_def key)
  next
    case 4
    then show ?thesis using local_moves [OF Inr] run_once_moves [OF Inr 4, of env] run by (simp add: key)
  qed
qed

lemma local_register: "local_change J (inference_key (cm_name m) (cm_namespace m)) s (on_db (register_inference_cell now m source) s)"
  by (auto simp: local_change_def lease_ids_def cell_at_def on_db_def register_inference_cell_def Let_def cl_reg.lookup_upsert
      alloc_str_def py_or_def split: option.splits)

lemma local_delete:
  assumes "cells_apart s"
  shows "local_change J (inference_key name ns) s (snd (delete_cell env name ns s))"
proof (cases "get_inference_cell name ns (sy_db s)")
  case None
  then show ?thesis by (simp add: delete_cell_def local_framed)
next
  case (Some r)
  then have at: "cell_at (inference_key name ns) s = Some r" by (simp add: get_inference_cell_def cell_at_def)
  obtain res t where t: "release_cell env (cl_allocations r) s = (res, t)" by (metis surj_pair)
  have "local_change J (inference_key name ns) t (on_db (delete_inference_cell name ns) t)"
    by (simp add: local_change_def cell_at_deleted lease_ids_def)
      (simp add: on_db_def delete_inference_cell_def Let_def cell_holds_deleted)
  with local_release [OF assms at t, of J] local_change_trans [of J _ s t] show ?thesis
    by (auto simp: delete_cell_def Some t split: sum.splits)
qed

lemma reachable_cells: "cells_reachable s \<Longrightarrow> cells_ok s \<and> cells_apart s"
proof (induction rule: cells_reachable.induct)
  case (start ns)
  show ?case
    by (simp add: cells_ok_def cells_apart_def cell_at_def empty_cell_store_def holds_ok_def cell_holds_def table_ids_def empty_leases_def)
next
  case (register s now m source)
  then show ?case using cells_ok_register cells_apart_local [OF _ _ local_register [where J = "{}"]] by blast
next
  case (step s env m)
  then have "cells_ok (snd (run_once env m s))" by (intro cells_ok_run_once) (simp_all add: fresh_lease_def)
  with step show ?case using cells_apart_local [OF _ _ local_run_once] by blast
next
  case (delete s env name ns)
  then show ?case using cells_ok_delete_cell cells_apart_local [OF _ _ local_delete [where J = "{}"]] by blast
next
  case (nodes s ns)
  then show ?case by (simp add: cells_ok_def cells_apart_def on_db_def cell_at_def)
qed

lemmas reachable_cells_ok = reachable_cells [THEN conjunct1]
lemmas reachable_cells_apart = reachable_cells [THEN conjunct2]

text \<open>
  (C20) Whatever cells are registered, reconciled, restarted and deleted, in any order and whatever fails: a cell holds at most
  the lease that its allocations record, a cell that is not registered holds none, and neither does one that has not been
  reserved yet.
\<close>

theorem cell_leases_recorded:
  assumes "cells_reachable s"
  shows "case cell_at k s of
      None \<Rightarrow> cell_holds (db_leases (sy_db s)) k = {}
    | Some r \<Rightarrow> cell_holds (db_leases (sy_db s)) k \<subseteq> {alloc_str (cl_allocations r) ''lease_id''} - {[]} \<and>
        (cl_phase r \<in> {PENDING, ADMITTING, RESERVING} \<longrightarrow> cell_holds (db_leases (sy_db s)) k = {})"
  using reachable_cells_ok [OF assms] by (simp add: cells_ok_def holds_ok_def)

text \<open>
  (C21) Cells do not touch each other: a step of a cell, through any phase and even when it raises, and the deletion of
  a cell leave the record and the leases of every other cell as they were.
\<close>

theorem cells_isolated:
  assumes "cells_reachable s" and "fresh_lease (en_lease_id env) s"
    and "k \<noteq> inference_key (cm_name m) (cm_namespace m)"
    and "s' \<in> {snd (run_once env m s), snd (delete_cell env (cm_name m) (cm_namespace m) s)}"
  shows "cell_at k s' = cell_at k s \<and> cell_holds (db_leases (sy_db s')) k = cell_holds (db_leases (sy_db s)) k"
  using assms(3,4) local_run_once [OF reachable_cells_apart [OF assms(1)] assms(2), of m]
    local_delete [OF reachable_cells_apart [OF assms(1)], of "{}" "cm_name m" "cm_namespace m" env]
  by (auto simp: local_change_def)

section \<open>Examples\<close>

text \<open>An environment in which every agent and runtime answers, and a cell of two stages in two sites.\<close>

definition demo_env :: "bool \<Rightarrow> cell_env" where
  "demo_env enabled = \<lparr>en_execution_enabled = enabled, en_now = 0, en_now_iso = ''t'', en_lease_id = ''l-1'', en_session_id = ''f-1'',
     en_digest = (\<lambda>k. ''00aabbccdd''), en_agent = (\<lambda>i. Inr True), en_apply = (\<lambda>i. Inr []), en_infos = (\<lambda>i. Inr []),
     en_probe = (\<lambda>i. (True, ''ok'')), en_validate = (\<lambda>d. None), en_hostname = (\<lambda>u. []), en_hold_on_failure = None,
     en_runtime_class = None, en_metrics = [], en_gpu_count = (\<lambda>n. None), en_has_inventory = (\<lambda>j. False), en_norm = (\<lambda>j. j),
     en_reason_text = (\<lambda>x. []), en_str = (\<lambda>e. ''error'')\<rparr>"

definition demo_ports :: RayPorts where
  "demo_ports = \<lparr>rp_head_port = 6379, rp_node_manager_port = 6380, rp_object_manager_port = 6381, rp_runtime_env_agent_port = 6382,
     rp_min_worker_port = 10002, rp_max_worker_port = 10100, rp_include_dashboard = False, rp_dashboard_port = 8265,
     rp_ray_client_server_port = None, rp_metrics_export_port = None\<rparr>"

definition demo_cell_manifest :: "string \<Rightarrow> InferenceCellSpec \<Rightarrow> InferenceCellManifest" where
  "demo_cell_manifest name spec = \<lparr>cm_name = name, cm_namespace = None, cm_labels = [], cm_spec = spec, cm_model_id = ''m'',
     cm_local_path = ''/m'', cm_ray_scope = ''cell'', cm_ray_ports = demo_ports, cm_ray_image = ''ray'', cm_mp_image = ''mp'',
     cm_launcher_image = ''launch'', cm_dtype = None, cm_runtime_class_name = None, cm_fabric_mode = ''lan_direct'', cm_max_restarts = 1\<rparr>"

abbreviation demo_m :: InferenceCellManifest where
  "demo_m \<equiv> demo_cell_manifest ''c'' two_sites"

definition demo_start :: "NodeStore \<Rightarrow> CellSys" where
  "demo_start ns = \<lparr>sy_db = empty_cell_store ns, sy_log = []\<rparr>"

definition demo_registered :: CellSys where
  "demo_registered = on_db (register_inference_cell 0 demo_m None) (demo_start empty_nodes)"

lemma demo_record: "cell_record demo_m (sy_db demo_registered) = Inr (new_cell 0 demo_m None)"
  by (simp add: demo_registered_def demo_start_def cell_record_def on_db_def get_registered_cell)
    (simp add: get_inference_cell_def empty_cell_store_def)

lemma demo_pending:
  obtains r' s' where "run_once (demo_env False) demo_m demo_registered = (Inr r', s')" "cl_phase r' = ADMITTING"
proof -
  let ?u = "(to_phase ADMITTING (cl_conditions (new_cell 0 demo_m None)) None)\<lparr>cu_last_error := None\<rparr>"
  obtain s' where "run_once (demo_env False) demo_m demo_registered =
      (Inr (apply_update (en_now (demo_env False), ?u) (new_cell 0 demo_m None)), s')"
    using step_to_writes [OF demo_record, of "demo_env False" "''PhaseChange''" "''PENDING -> ADMITTING''" ?u]
    by (auto simp: run_once_def demo_record run_pending_def)
  with that show thesis by (simp add: apply_update_def to_phase_def)
qed

theorem cell_phase_graph_witness:
  "\<exists>r' s'. run_once (demo_env False) demo_m demo_registered = (Inr r', s') \<and> cl_phase r' \<in> phase_next PENDING"
proof -
  obtain r' s' where run: "run_once (demo_env False) demo_m demo_registered = (Inr r', s')" by (rule demo_pending)
  from cell_phase_graph [OF demo_record run] run show ?thesis by simp
qed

theorem cell_reconcile_terminates_witness: "phase_changes (replicate 100 (demo_env True)) demo_m demo_registered \<le> 37"
proof -
  have "restarts_ok demo_m (new_cell 0 demo_m None)" by (simp add: restarts_ok_def demo_cell_manifest_def)
  from cell_reconcile_terminates [OF demo_record this] show ?thesis by (simp add: demo_cell_manifest_def)
qed

lemma demo_reachable: "cells_reachable demo_registered"
  unfolding demo_registered_def demo_start_def by (intro cells_reachable.register cells_reachable.start)

lemma demo_fresh: "fresh_lease (en_lease_id (demo_env False)) demo_registered"
  by code_simp

theorem cell_leases_recorded_witness:
  "case cell_at ''c'' (snd (run_once (demo_env False) demo_m demo_registered)) of
      None \<Rightarrow> cell_holds (db_leases (sy_db (snd (run_once (demo_env False) demo_m demo_registered)))) ''c'' = {}
    | Some r \<Rightarrow> cell_holds (db_leases (sy_db (snd (run_once (demo_env False) demo_m demo_registered)))) ''c''
        \<subseteq> {alloc_str (cl_allocations r) ''lease_id''} - {[]}"
  using cell_leases_recorded [OF cells_reachable.step [OF demo_reachable demo_fresh], of demo_m "''c''"]
  by (simp split: option.splits)

theorem cells_isolated_witness:
  "cell_at ''d'' (snd (run_once (demo_env False) demo_m demo_registered)) = cell_at ''d'' demo_registered"
proof -
  have "''d'' \<noteq> inference_key (cm_name demo_m) (cm_namespace demo_m)" by code_simp
  from cells_isolated [OF demo_reachable demo_fresh this insertI1] show ?thesis by simp
qed

end
