(* ===== verification/Cell_Progress.thy ===== *)
theory Cell_Progress
  imports Cell_Lifecycle
begin

text \<open>
  Progress of inference cells: what a phase writes into the allocations is read back by the later ones, and a cell that can be
  planned, admitted and reserved becomes ready within one call of \<^verbatim>\<open>reconcile_manifest\<close>. Then deletion, and
  two resources that the reconcile lane does not give back.
\<close>

section \<open>Allocations read back\<close>

lemma rmap_map_id: "(\<And>x. x \<in> set xs \<Longrightarrow> f (g x) = Inr x) \<Longrightarrow> rmap f (map g xs) = Inr xs"
  by (induction xs) simp_all

lemma as_dict_placements: "List.map_filter as_dict (map (\<lambda>p. JObj (f p)) ps) = map f ps"
  by (induction ps) (simp_all add: List.map_filter_simps)

lemma placement_roundtrip:
  "\<exists>d. placement_to_dict p = JObj d \<and> placement_from_dict d = Inr p"
proof -
  have "rmap py_int_raise (map JInt (sp_gpu_indices p)) = Inr (sp_gpu_indices p)" by (rule rmap_map_id) simp
  then show ?thesis
    by (auto simp: placement_to_dict_def placement_from_dict_def alloc_list_def alloc_str_def dict_get_def py_or_def)
qed

lemma slot_roundtrip: "\<exists>d. slot_to_dict p = JObj d \<and> slot_from_dict d = Inr p"
  by (cases p) (auto simp: slot_to_dict_def slot_from_dict_def alloc_int_def alloc_str_def dict_get_def py_or_def)

lemma rmap_decode:
  assumes "\<And>x. \<exists>d. g x = JObj d \<and> f d = Inr x"
  shows "rmap f (List.map_filter as_dict (map g xs)) = Inr xs"
proof (induction xs)
  case (Cons x xs)
  from assms [of x] obtain d where "g x = JObj d" "f d = Inr x" by blast
  with Cons show ?case by (simp add: List.map_filter_simps)
qed (simp add: List.map_filter_simps)

lemma alloc_list_arr: "dict_get a k = JArr xs \<Longrightarrow> alloc_list a k = Inr xs"
  by (simp add: alloc_list_def py_or_def)

lemma alloc_int_int: "dict_get a k = JInt i \<Longrightarrow> alloc_int a k = Inr i"
  by (simp add: alloc_int_def py_or_def)

lemma alloc_str_str: "dict_get a k = JStr x \<Longrightarrow> alloc_str a k = x"
  by (simp add: alloc_str_def py_or_def)

lemma alloc_placements:
  "dict_get a ''placements'' = JArr (map placement_to_dict ps) \<Longrightarrow> alloc_stage_placements a = Inr (sort_key sp_stage ps)"
  by (simp add: alloc_stage_placements_def alloc_list_arr rmap_decode [OF placement_roundtrip])

text \<open>The allocations after admission and after reservation.\<close>

definition planned_alloc :: "StagePlacement list \<Rightarrow> dict \<Rightarrow> bool" where
  "planned_alloc ps a \<longleftrightarrow> dict_get a ''placements'' = JArr (map placement_to_dict ps) \<and>
     dict_get a ''gpu_slots'' = JArr (map slot_to_dict (gpu_slots ps)) \<and>
     (''workloads'' \<notin> fst ` set a \<or> (\<exists>d. dict_get a ''workloads'' = JObj d))"

definition leased_alloc :: "StagePlacement list \<Rightarrow> LeaseBundle \<Rightarrow> dict \<Rightarrow> bool" where
  "leased_alloc ps b a \<longleftrightarrow> planned_alloc ps a \<and> dict_get a ''lease_id'' = JStr (lb_lease_id b) \<and>
     dict_get a ''master_port'' = json_opt_int (lb_master_port b) \<and> dict_get a ''api_port'' = JInt (lb_api_port b) \<and>
     dict_get a ''locked_nodes'' = JArr (map JStr (lb_locked_nodes b))"

lemma dict_put_keys [simp]: "fst ` set (dict_put k v d) = insert k (fst ` set d)"
  by (simp add: dict_put_def dom_update)

lemma planned_alloc_put:
  "k \<notin> {''placements'', ''gpu_slots'', ''workloads''} \<Longrightarrow> planned_alloc ps (dict_put k v a) \<longleftrightarrow> planned_alloc ps a"
  by (auto simp: planned_alloc_def)

lemma leased_alloc_put:
  "k \<notin> {''placements'', ''gpu_slots'', ''workloads'', ''lease_id'', ''master_port'', ''api_port'', ''locked_nodes''} \<Longrightarrow>
     leased_alloc ps b (dict_put k v a) \<longleftrightarrow> leased_alloc ps b a"
  by (auto simp: leased_alloc_def planned_alloc_put)

lemma leased_alloc_workload:
  assumes "leased_alloc ps b a"
  obtains a' where "put_workload role v a = Inr a'" "leased_alloc ps b a'"
proof -
  have "\<exists>d. as_dict (dict_get (dict_setdefault ''workloads'' (JObj []) a) ''workloads'') = Some d"
    using assms by (cases "''workloads'' \<in> fst ` set a") (auto simp: leased_alloc_def planned_alloc_def)
  then obtain d where "as_dict (dict_get (dict_setdefault ''workloads'' (JObj []) a) ''workloads'') = Some d" by blast
  moreover have "leased_alloc ps b (dict_put ''workloads'' (JObj (dict_put role v d)) a)"
    using assms by (simp add: leased_alloc_def planned_alloc_def)
  ultimately show thesis using that by (simp add: put_workload_def)
qed

lemma leased_alloc_lease:
  assumes "leased_alloc ps b a" and "lb_lease_id b \<noteq> []"
  shows "\<exists>b'. lease_from_allocations a = Inr (Some b') \<and> lb_lease_id b' = lb_lease_id b"
  using assms
  by (auto simp: leased_alloc_def planned_alloc_def lease_from_allocations_def alloc_str_str alloc_list_arr alloc_int_int
      rmap_decode [OF slot_roundtrip] json_opt_int_def mk_bundle_def split: option.splits)

section \<open>The way to ready\<close>

definition at_phase :: "InferenceCellManifest \<Rightarrow> CellPhase \<Rightarrow> (dict \<Rightarrow> bool) \<Rightarrow> InferenceTables \<Rightarrow> CellSys \<Rightarrow> bool" where
  "at_phase m ph P L s \<longleftrightarrow>
     (\<exists>r. cell_record m (sy_db s) = Inr r \<and> cl_phase r = ph \<and> P (cl_allocations r) \<and> db_leases (sy_db s) = L)"

definition steps_to ::
  "InferenceCellManifest \<Rightarrow> CellPhase \<Rightarrow> (dict \<Rightarrow> bool) \<Rightarrow> InferenceTables \<Rightarrow> InferenceCellRecord result \<times> CellSys \<Rightarrow> bool" where
  "steps_to m ph P L out \<longleftrightarrow> (\<exists>r s'. out = (Inr r, s') \<and> cell_record m (sy_db s') = Inr r \<and> at_phase m ph P L s')"

lemma step_to_steps:
  fixes s :: CellSys
  assumes "cell_record m (sy_db s) = Inr r" and "cu_phase u = Some ph" and "db_leases (sy_db s) = L"
    and "P (case cu_allocations u of None \<Rightarrow> cl_allocations r | Some a \<Rightarrow> a)"
  shows "steps_to m ph P L (step_to env m ty msg u s)"
  using step_to_writes [OF assms(1), of env ty msg u] assms(2-4)
  by (auto simp: steps_to_def at_phase_def writes_def apply_update_def)

lemma rounds_step:
  assumes "at_phase m ph P L s" and "out = reconcile_rounds (env # envs) m s" and "steps_to m ph' P' L' (run_once env m s)"
    and "ph \<notin> {READY, FAILED}" and "ph' \<noteq> ph"
  obtains s' where "at_phase m ph' P' L' s'" "out = reconcile_rounds envs m s'"
proof -
  from assms(3) obtain r' s' where r': "run_once env m s = (Inr r', s')" "cell_record m (sy_db s') = Inr r'" "at_phase m ph' P' L' s'"
    unfolding steps_to_def by blast
  moreover have "out = reconcile_rounds envs m s'" using assms(1,2,4,5) r' by (auto simp: at_phase_def)
  ultimately show thesis using that by blast
qed

text \<open>
  A round in which execution is switched off, the links are good enough, the agents agree, and the resources of the placement
  are free.
\<close>

definition good_round :: "InferenceCellManifest \<Rightarrow> StagePlacement list \<Rightarrow> InferenceTables \<Rightarrow> cell_env \<Rightarrow> bool" where
  "good_round m ps L env \<longleftrightarrow> \<not> en_execution_enabled env \<and> (\<forall>i. en_agent env i = Inr True) \<and>
     adm_admitted (admission_evaluate (cm_spec m) ps (Some (link_metrics_for_admission env (cm_spec m)))) \<and>
     en_lease_id env \<noteq> [] \<and> lease_free (en_lease_id env) L \<and>
     (\<exists>b t. reserve (en_now env) (en_lease_id env) (inference_key (cm_name m) (cm_namespace m))
        (CellSpec.truncate (cm_spec m)) ps L = (Inr (Some b), t))"

text \<open>The rows of lease \<open>i\<close> in the GPU table \<open>t'\<close> are exactly those of the placement, and all others are those of \<open>t\<close>.\<close>

definition holds_exactly :: "string \<Rightarrow> StagePlacement list \<Rightarrow> (string \<times> int) LeaseRow list \<Rightarrow> (string \<times> int) LeaseRow list \<Rightarrow> bool" where
  "holds_exactly i ps t t' \<longleftrightarrow> map ls_key (filter (\<lambda>x. ls_lease_id x = i) t') = gpu_slots ps \<and>
     filter (\<lambda>x. ls_lease_id x \<noteq> i) t' = t"

lemma holds_exactly_appended:
  assumes "i \<notin> ls_lease_id ` set t"
  shows "holds_exactly i ps t (t @ map (lease_row now i c ttl) (gpu_slots ps))"
proof -
  have "filter (\<lambda>x. ls_lease_id x = i) t = []" "filter (\<lambda>x. ls_lease_id x \<noteq> i) t = t"
    using assms by (auto intro!: filter_True simp: filter_empty_conv)
  then show ?thesis by (simp add: holds_exactly_def lease_row_def filter_map o_def)
qed

lemma pending_step:
  assumes "at_phase m PENDING P L s"
  shows "steps_to m ADMITTING P L (run_once env m s)"
  using assms by (auto simp: at_phase_def run_once_def run_pending_def to_phase_def intro!: step_to_steps)

lemma admitting_step:
  assumes "at_phase m ADMITTING (\<lambda>a. a = []) L s" and "good_round m ps L env" and "stage_plan (cm_spec m) = Inr ps"
  shows "steps_to m RESERVING (planned_alloc ps) L (run_once env m s)"
  using assms
  by (auto simp: at_phase_def run_once_def run_admitting_def admit_placements_def good_round_def Let_def to_phase_def planned_alloc_def
      intro!: step_to_steps)

lemma planned_sorted: "stage_plan spec = Inr ps \<Longrightarrow> sort_key sp_stage ps = ps"
  using stage_plan_ok(1) [of spec ps] by (intro sort_key_id_if_sorted) (simp add: sorted_map sorted_wrt_map)

lemma reserving_step:
  assumes "at_phase m RESERVING (planned_alloc ps) L s" and "good_round m ps L env" and "sort_key sp_stage ps = ps"
  obtains b t where "steps_to m FABRIC (leased_alloc ps b) t (run_once env m s)" "lb_lease_id b \<noteq> []"
    "\<forall>k \<in> set (gpu_slots ps). table_holders (gpu_leases t) k = {lb_lease_id b}"
    "holds_exactly (lb_lease_id b) ps (gpu_leases L) (gpu_leases t)"
proof -
  from assms(1) obtain r where r: "cell_record m (sy_db s) = Inr r" "cl_phase r = RESERVING"
    "planned_alloc ps (cl_allocations r)" "db_leases (sy_db s) = L" by (auto simp: at_phase_def)
  from assms(2) obtain b t where res: "reserve (en_now env) (en_lease_id env) (cl_cell_key r)
      (CellSpec.truncate (cm_spec m)) ps L = (Inr (Some b), t)" and env: "en_lease_id env \<noteq> []" "lease_free (en_lease_id env) L"
    using cell_record_key [OF r(1)] by (auto simp: good_round_def)
  have ps: "alloc_stage_placements (cl_allocations r) = Inr ps"
    using alloc_placements r(3) assms(3) by (simp add: planned_alloc_def)
  from reserve_result [OF env(2,1) res] have id: "lb_lease_id b = en_lease_id env"
    and held: "\<forall>k \<in> set (gpu_slots ps). table_holders (gpu_leases t) k = {lb_lease_id b}" by (simp_all add: reserved_ok_def)
  have "steps_to m FABRIC (leased_alloc ps b) t (run_once env m s)"
    using r unfolding run_once_def run_reserving_def
    by (auto simp: ps res Let_def to_phase_def leased_alloc_def planned_alloc_put on_db_def
        cell_record_def get_inference_cell_def split: option.splits intro!: step_to_steps)
  moreover have "holds_exactly (lb_lease_id b) ps (gpu_leases L) (gpu_leases t)"
    unfolding reserve_gpus [OF res] id using env(2) by (intro holds_exactly_appended) (simp add: lease_free_def)
  ultimately show thesis using that env id held by simp
qed

lemma ensure_all: "(\<forall>i. en_agent env i = Inr True) \<Longrightarrow> \<exists>s'. ensure_sessions env sid ns ens s = (Inr None, s')"
  by (induction ns arbitrary: ens s) auto

lemma fabric_step:
  assumes "at_phase m FABRIC (leased_alloc ps b) L s" and "\<forall>i. en_agent env i = Inr True"
    and "sort_key sp_stage ps = ps" and "ps \<noteq> []" and "lb_lease_id b \<noteq> []"
  shows "steps_to m STARTING_WORKERS (leased_alloc ps b) L (run_once env m s)"
proof -
  from assms(1) obtain r where r: "cell_record m (sy_db s) = Inr r" "cl_phase r = FABRIC"
    "leased_alloc ps b (cl_allocations r)" "db_leases (sy_db s) = L" by (auto simp: at_phase_def)
  have ps: "alloc_stage_placements (cl_allocations r) = Inr ps"
    using alloc_placements r(3) assms(3) by (simp add: leased_alloc_def planned_alloc_def)
  obtain b' where b': "lease_from_allocations (cl_allocations r) = Inr (Some b')" using leased_alloc_lease [OF r(3) assms(5)] by blast
  let ?c = "create_session env (cl_cell_key r) (cs_policy_mode (cm_spec m))
      (if cm_fabric_mode m = [] then ''lan_direct'' else cm_fabric_mode m) (cs_ttl_seconds (cm_spec m))
      ps (build_allowed_rules m b') (sy_db s)"
  obtain si st where c: "?c = (si, st)" by (metis surj_pair)
  obtain t where t: "ensure_sessions env (si_session_id si) (map sp_node_id ps) [] (on_db (\<lambda>_. st) s) = (Inr None, t)"
    using ensure_all [OF assms(2)] by metis
  have "framed s (on_db (\<lambda>_. snd ?c) s)" by (rule framed_create_session)
  then have f: "framed s t" using framed_ensure [of s env "si_session_id si" "map sp_node_id ps" "[]" "on_db (\<lambda>_. st) s"]
    by (simp add: c t)
  have rt: "cell_record m (sy_db t) = Inr r" using r(1) by (simp add: cell_record_framed [OF f])
  obtain l where l: "leader_placement m ps = Inr l" using assms(4) by (cases ps) (simp_all add: leader_placement_def)
  have "steps_to m STARTING_WORKERS (leased_alloc ps b) L (fabric_ready env m r ps si t)"
    unfolding fabric_ready_def l sum.case Let_def using r(3,4) f
    by (intro step_to_steps [OF rt]) (simp_all add: to_phase_def leased_alloc_put framed_def)
  then show ?thesis using r(1,2) by (simp add: run_once_def run_fabric_def ps b' c t)
qed

lemma workers_step:
  assumes "at_phase m STARTING_WORKERS (leased_alloc ps b) L s" and "\<not> en_execution_enabled env"
  shows "steps_to m STARTING_LEADER (leased_alloc ps b) L (run_once env m s)"
proof -
  from assms(1) obtain r where r: "cell_record m (sy_db s) = Inr r" "cl_phase r = STARTING_WORKERS"
    "leased_alloc ps b (cl_allocations r)" "db_leases (sy_db s) = L" by (auto simp: at_phase_def)
  obtain qs where ps: "alloc_stage_placements (cl_allocations r) = Inr qs"
    using alloc_placements r(3) by (simp add: leased_alloc_def planned_alloc_def)
  obtain a where a: "put_workload ''workers'' (render_workers m qs (active_executor m (cl_allocations r))) (cl_allocations r) = Inr a"
    "leased_alloc ps b a" by (rule leased_alloc_workload [OF r(3)])
  show ?thesis using r a(2) assms(2)
    by (simp add: run_once_def run_starting_workers_def ps a(1) Let_def) (auto simp: to_phase_def intro!: step_to_steps)
qed

lemma leader_step:
  assumes "at_phase m STARTING_LEADER (leased_alloc ps b) L s" and "\<not> en_execution_enabled env"
    and "sort_key sp_stage ps = ps" and "ps \<noteq> []"
  shows "steps_to m JOINING (leased_alloc ps b) L (run_once env m s)"
proof -
  from assms(1) obtain r where r: "cell_record m (sy_db s) = Inr r" "cl_phase r = STARTING_LEADER"
    "leased_alloc ps b (cl_allocations r)" "db_leases (sy_db s) = L" by (auto simp: at_phase_def)
  have ps: "alloc_stage_placements (cl_allocations r) = Inr ps"
    using alloc_placements r(3) assms(3) by (simp add: leased_alloc_def planned_alloc_def)
  obtain l where l: "leader_placement m ps = Inr l" using assms(4) by (cases ps) (simp_all add: leader_placement_def)
  have ports: "alloc_int (cl_allocations r) ''api_port'' = Inr (lb_api_port b)"
    "\<exists>p. alloc_int (cl_allocations r) ''master_port'' = Inr p"
    using r(3) by (auto simp: leased_alloc_def alloc_int_def py_or_def json_opt_int_def split: option.splits)
  then have "\<exists>v. render_leader m ps (cl_allocations r) (active_executor m (cl_allocations r)) = Inr v"
    by (cases "active_executor m (cl_allocations r) = ''ray''") (auto simp: render_leader_def l Let_def)
  then obtain v where v: "render_leader m ps (cl_allocations r) (active_executor m (cl_allocations r)) = Inr v" by blast
  obtain a where a: "put_workload ''leader'' v (cl_allocations r) = Inr a" "leased_alloc ps b a"
    by (rule leased_alloc_workload [OF r(3)])
  show ?thesis using r a(2) assms(2)
    by (simp add: run_once_def run_starting_leader_def ps v a(1) Let_def) (auto simp: to_phase_def intro!: step_to_steps)
qed

lemma joining_step:
  assumes "at_phase m JOINING P L s" and "\<not> en_execution_enabled env"
  shows "steps_to m READY P L (run_once env m s)"
  using assms by (auto simp: at_phase_def run_once_def run_joining_def Let_def to_phase_def intro!: step_to_steps)


lemma rounds_ready:
  assumes "at_phase m READY P L s"
  shows "\<exists>r. reconcile_rounds envs m s = (Inr r, s) \<and> cl_phase r = READY \<and> P (cl_allocations r) \<and> db_leases (sy_db s) = L"
  using assms by (cases envs) (auto simp: at_phase_def)

text \<open>
  (C23) A new cell whose stages can be placed, whose links are admitted, whose agents agree and whose resources are free
  becomes ready in one call of \<^verbatim>\<open>reconcile_manifest\<close>, in seven of its sixteen rounds, when workloads are only
  rendered and not started. The GPUs leased under the lease its allocations record are then exactly those of the plan, each held by no other
  lease, and no other row of the table has changed.
\<close>

theorem planned_cell_reaches_ready:
  fixes s :: CellSys
  assumes "get_inference_cell (cm_name m) (cm_namespace m) (sy_db s) = None" and "stage_plan (cm_spec m) = Inr ps"
    and "list_all (good_round m ps (db_leases (sy_db s))) envs" and "7 \<le> length envs"
  shows "\<exists>r s'. reconcile_cell now source envs m s = (Inr r, s') \<and> cl_phase r = READY \<and>
    alloc_stage_placements (cl_allocations r) = Inr ps \<and>
    (\<forall>k \<in> set (gpu_slots ps). table_holders (gpu_leases (db_leases (sy_db s'))) k = {alloc_str (cl_allocations r) ''lease_id''}) \<and>
    holds_exactly (alloc_str (cl_allocations r) ''lease_id'') ps (gpu_leases (db_leases (sy_db s))) (gpu_leases (db_leases (sy_db s')))"
proof -
  define L where "L = db_leases (sy_db s)"
  obtain e1 e2 e3 e4 e5 e6 e7 rest where envs: "envs = e1 # e2 # e3 # e4 # e5 # e6 # e7 # rest"
    using assms(4) by (auto simp: numeral_eq_Suc Suc_le_length_iff)
  note good = assms(3) [folded L_def, unfolded envs, simplified]
  note srt = planned_sorted [OF assms(2)]
  have ne: "ps \<noteq> []" using stage_plan_ok(1) [OF assms(2)] stage_plan_Inr(2) [OF assms(2)] by auto
  define out where "out = reconcile_cell now source envs m s"
  have s0: "at_phase m PENDING (\<lambda>a. a = []) L (on_db (register_inference_cell now m source) s)"
    using assms(1) by (simp add: at_phase_def cell_record_def on_db_def get_registered_cell)
      (simp add: register_inference_cell_def Let_def L_def)
  have o0: "out = reconcile_rounds (e1 # e2 # e3 # e4 # e5 # e6 # e7 # rest) m (on_db (register_inference_cell now m source) s)"
    unfolding out_def reconcile_cell_def envs by (rule refl)
  obtain s1 where s1: "at_phase m ADMITTING (\<lambda>a. a = []) L s1" "out = reconcile_rounds (e2 # e3 # e4 # e5 # e6 # e7 # rest) m s1"
    by (rule rounds_step [OF s0 o0 pending_step [OF s0]]) simp_all
  have g: "good_round m ps L e2" "good_round m ps L e3" and off: "\<not> en_execution_enabled e5" "\<not> en_execution_enabled e6"
    "\<not> en_execution_enabled e7" and agents: "\<forall>i. en_agent e4 i = Inr True"
    using good by (simp_all add: good_round_def)
  obtain s2 where s2: "at_phase m RESERVING (planned_alloc ps) L s2" "out = reconcile_rounds (e3 # e4 # e5 # e6 # e7 # rest) m s2"
    by (rule rounds_step [OF s1 admitting_step [OF s1(1) g(1) assms(2)]]) simp_all
  obtain b t where step: "steps_to m FABRIC (leased_alloc ps b) t (run_once e3 m s2)" and b: "lb_lease_id b \<noteq> []"
    and held: "\<forall>k \<in> set (gpu_slots ps). table_holders (gpu_leases t) k = {lb_lease_id b}"
    and exact: "holds_exactly (lb_lease_id b) ps (gpu_leases L) (gpu_leases t)"
    by (rule reserving_step [OF s2(1) g(2) srt])
  obtain s3 where s3: "at_phase m FABRIC (leased_alloc ps b) t s3" "out = reconcile_rounds (e4 # e5 # e6 # e7 # rest) m s3"
    by (rule rounds_step [OF s2 step]) simp_all
  obtain s4 where s4: "at_phase m STARTING_WORKERS (leased_alloc ps b) t s4" "out = reconcile_rounds (e5 # e6 # e7 # rest) m s4"
    by (rule rounds_step [OF s3 fabric_step [OF s3(1) agents srt ne b]]) simp_all
  obtain s5 where s5: "at_phase m STARTING_LEADER (leased_alloc ps b) t s5" "out = reconcile_rounds (e6 # e7 # rest) m s5"
    by (rule rounds_step [OF s4 workers_step [OF s4(1) off(1)]]) simp_all
  obtain s6 where s6: "at_phase m JOINING (leased_alloc ps b) t s6" "out = reconcile_rounds (e7 # rest) m s6"
    by (rule rounds_step [OF s5 leader_step [OF s5(1) off(2) srt ne]]) simp_all
  obtain s7 where s7: "at_phase m READY (leased_alloc ps b) t s7" "out = reconcile_rounds rest m s7"
    by (rule rounds_step [OF s6 joining_step [OF s6(1) off(3)]]) simp_all
  from rounds_ready [OF s7(1), of rest] obtain r where r: "out = (Inr r, s7)" "cl_phase r = READY"
    "leased_alloc ps b (cl_allocations r)" "db_leases (sy_db s7) = t" unfolding s7(2) by blast
  then have "alloc_stage_placements (cl_allocations r) = Inr ps" "alloc_str (cl_allocations r) ''lease_id'' = lb_lease_id b"
    using alloc_placements srt by (auto simp: leased_alloc_def planned_alloc_def alloc_str_str)
  with r held exact show ?thesis by (auto simp: L_def simp flip: out_def)
qed

lemma demo_good: "good_round demo_m two_sites_plan empty_leases (demo_env False)"
proof -
  let ?r = "reserve (en_now (demo_env False)) (en_lease_id (demo_env False)) (inference_key (cm_name demo_m) (cm_namespace demo_m))
      (CellSpec.truncate (cm_spec demo_m)) two_sites_plan empty_leases"
  have "case fst ?r of Inr (Some _) \<Rightarrow> True | _ \<Rightarrow> False" by code_simp
  then have "\<exists>b t. ?r = (Inr (Some b), t)" by (cases ?r) (auto split: sum.splits option.splits)
  moreover have "adm_admitted (admission_evaluate (cm_spec demo_m) two_sites_plan
      (Some (link_metrics_for_admission (demo_env False) (cm_spec demo_m))))" by code_simp
  ultimately show ?thesis by (simp add: good_round_def lease_free_def) (simp add: demo_env_def empty_leases_def)
qed

theorem planned_cell_reaches_ready_witness:
  "\<exists>r s'. reconcile_cell 0 None (replicate 16 (demo_env False)) demo_m (demo_start empty_nodes) = (Inr r, s') \<and> cl_phase r = READY"
proof -
  have "get_inference_cell (cm_name demo_m) (cm_namespace demo_m) (sy_db (demo_start empty_nodes)) = None"
    by (simp add: get_inference_cell_def demo_start_def empty_cell_store_def)
  moreover have "stage_plan (cm_spec demo_m) = Inr two_sites_plan" by (simp add: demo_cell_manifest_def two_sites_planned)
  moreover have "list_all (good_round demo_m two_sites_plan (db_leases (sy_db (demo_start empty_nodes)))) (replicate 16 (demo_env False))"
    using demo_good by (simp add: list_all_iff demo_start_def empty_cell_store_def)
  ultimately show ?thesis using planned_cell_reaches_ready [of demo_m "demo_start empty_nodes" two_sites_plan "replicate 16 (demo_env False)" 0 None]
    by auto
qed

section \<open>Resources that are not given back\<close>

text \<open>
  A failed cell keeps its leases: reconciling it again changes nothing but what registering it does. Here
  the agent of the second node refuses the fabric session, and the GPUs of both nodes stay taken.
\<close>

lemma failed_cell_rests:
  fixes s :: CellSys
  assumes "get_inference_cell (cm_name m) (cm_namespace m) (sy_db s) = Some r" and "cl_phase r = FAILED"
  shows "\<exists>r'. reconcile_cell now source envs m s = (Inr r', on_db (register_inference_cell now m source) s) \<and> cl_phase r' = FAILED"
  using assms by (cases envs) (auto simp: reconcile_cell_def cell_record_def on_db_def get_registered_cell)

definition refusing_env :: cell_env where
  "refusing_env = (demo_env False)\<lparr>en_agent := (\<lambda>i. Inr (i = 0))\<rparr>"

definition refused_cell :: "InferenceCellRecord result \<times> CellSys" where
  "refused_cell = reconcile_cell 0 None (replicate 16 refusing_env) demo_m (demo_start empty_nodes)"

text \<open>
  A failed cell holds its GPUs until someone deletes it: the agent of the second node refuses the fabric
  session, the cell fails, and reconciling it again, now with willing agents, neither retries nor releases.
\<close>

theorem failed_cell_keeps_leases:
  "map_sum id cl_phase (fst refused_cell) = Inr FAILED \<and>
   map ls_key (gpu_leases (db_leases (sy_db (snd refused_cell)))) = gpu_slots two_sites_plan \<and>
   map ls_key (gpu_leases (db_leases (sy_db (snd
     (reconcile_cell 99 None (replicate 16 (demo_env False)) demo_m (snd refused_cell)))))) = gpu_slots two_sites_plan"
  by code_simp

text \<open>What the log of calls gains by removing workloads, and by releasing a cell.\<close>

definition removes_only :: "string set \<Rightarrow> CellSys \<Rightarrow> CellSys \<Rightarrow> bool" where
  "removes_only A s t \<longleftrightarrow> (\<exists>us. sy_log t = sy_log s @ us \<and> (\<forall>ep a. RemoveApp ep a \<in> set us \<longrightarrow> a \<in> A))"

lemma removes_only_refl: "removes_only A s s"
  by (simp add: removes_only_def)

lemma removes_only_trans: "removes_only A s t \<Longrightarrow> removes_only A t u \<Longrightarrow> removes_only A s u"
  unfolding removes_only_def by (metis append.assoc Un_iff set_append)

lemma removes_only_act: "(\<And>ep a. x = RemoveApp ep a \<Longrightarrow> a \<in> A) \<Longrightarrow> removes_only A s (act x s)"
  by (auto simp: removes_only_def act_def)

lemma removes_only_on_db: "removes_only A s (on_db f t) \<longleftrightarrow> removes_only A s t"
  by (simp add: removes_only_def on_db_def)

lemma removes_only_workloads: "snd ` set ws \<subseteq> A \<Longrightarrow> removes_only A s (remove_workloads env ws s)"
proof (induction env ws s rule: remove_workloads.induct)
  case (2 env n a ws s)
  let ?t = "case runtime_for_node env n (sy_db s) of Inl e \<Rightarrow> s | Inr ep \<Rightarrow> act (RemoveApp ep a) s"
  have "removes_only A s ?t" using "2.prems" by (auto intro: removes_only_act removes_only_refl split: sum.splits)
  moreover have "removes_only A ?t (remove_workloads env ws ?t)" by (rule "2.IH") (use "2.prems" in auto)
  ultimately show ?case by (auto intro: removes_only_trans)
qed (simp add: removes_only_refl)

lemma removes_only_nodes: "removes_only A s (fold (\<lambda>n. act (AgentTeardown n i)) ns s)"
proof (induction ns arbitrary: s)
  case (Cons n ns)
  have "removes_only A s (act (AgentTeardown n i) s)" by (rule removes_only_act) simp
  from removes_only_trans [OF this Cons] show ?case by simp
qed (simp add: removes_only_refl)

lemma removes_only_teardown: "removes_only A s (snd (teardown_fabric env alloc s))"
  by (simp add: teardown_fabric_def teardown_nodes_def Let_def removes_only_refl removes_only_on_db removes_only_nodes split: sum.splits)

definition recorded_apps :: "dict \<Rightarrow> string set" where
  "recorded_apps alloc = (case execution_workloads alloc of Inl _ \<Rightarrow> {} | Inr items \<Rightarrow> snd ` set (workload_refs items))"

lemma release_removes_recorded: "removes_only (recorded_apps alloc) s (snd (release_cell env alloc s))"
proof -
  let ?A = "recorded_apps alloc"
  obtain w t where w: "remove_execution_workloads env alloc s = (w, t)" by (metis surj_pair)
  have t: "removes_only ?A s t"
    using w removes_only_workloads [of _ ?A s env] removes_only_refl
    by (auto simp: remove_execution_workloads_def recorded_apps_def split: sum.splits)
  have "removes_only ?A s (snd (teardown_fabric env alloc t'))" if "removes_only ?A s t'" for t'
    using removes_only_trans [OF that removes_only_teardown] .
  with t show ?thesis by (simp add: release_cell_def w removes_only_on_db split: sum.splits option.splits)
qed

lemma execution_workloads_put: "k \<noteq> ''execution'' \<Longrightarrow> execution_workloads (dict_put k v a) = execution_workloads a"
  by (simp add: execution_workloads_def)

text \<open>
  When starting the workers fails, the workloads that were started before the failing one are forgotten: the
  runtimes were asked to run them, but the failed cell records only the workloads it had before, and releasing its
  resources, when it is deleted, removes no other.
\<close>

theorem started_workers_forgotten:
  fixes s :: CellSys
  assumes "cell_record m (sy_db s) = Inr r" and "cl_phase r = STARTING_WORKERS" and "en_execution_enabled env"
    and "\<not> supports_mp_fallback m" and "alloc_stage_placements (cl_allocations r) = Inr ps"
    and "ty = active_executor m (cl_allocations r)"
    and "put_workload ''workers'' (render_workers m ps ty) (cl_allocations r) = Inr alloc"
    and "as_dict (py_or (dict_get alloc ''execution'') (JObj [])) = Some d"
    and "apply_worker_set env m alloc ty ps s = (Inl e, s1)"
  shows "\<exists>r' s'. run_once env m s = (Inr r', s') \<and> cl_phase r' = FAILED \<and> sy_log s' = sy_log s1 \<and>
    removes_only (recorded_apps (cl_allocations r)) s' (snd (release_cell env' (cl_allocations r') s'))"
proof -
  let ?u = "with_alloc alloc (to_phase FAILED (make_condition env ''WorkersStarted'' False (en_str env e) (cl_conditions r))
      (Some ''WORKER_START_FAILED''))"
  have rt: "cell_record m (sy_db s1) = Inr r"
    using assms(1) cell_record_framed [OF framed_worker_setD [OF assms(9) framed_refl]] by simp
  have run: "run_once env m s = step_to env m ''WorkersFailed'' (en_str env e) ?u s1"
    using assms by (simp add: run_once_def run_starting_workers_def Let_def workers_failed_def)
  obtain s' where s': "run_once env m s = (Inr (apply_update (en_now env, ?u) r), s')"
    using step_to_writes [OF rt, of env] run by metis
  have "sy_log (snd (step_to env m ty' msg u s1)) = sy_log s1" for ty' msg u
    by (simp add: step_to_def cell_update_def log_event_def on_db_def Let_def)
  then have "sy_log s' = sy_log s1" using s' run by (metis snd_conv)
  moreover have "recorded_apps alloc = recorded_apps (cl_allocations r)"
    using assms(7) by (auto simp: put_workload_def recorded_apps_def execution_workloads_put split: option.splits)
  ultimately show ?thesis using s' release_removes_recorded [of alloc s' env']
    by (simp add: apply_update_def to_phase_def)
qed

text \<open>Three stages on three nodes; the runtime of the third node fails after the one of the second has started its worker.\<close>

definition cell_node :: "string \<Rightarrow> NodeRecord" where
  "cell_node i = \<lparr>nd_node_id = i, nd_name = None, nd_labels = [], nd_capabilities = JObj [],
     nd_taints = [], nd_backend = None, nd_endpoint = Some i, nd_pod_cidr = None, nd_wg_pubkey = None,
     nd_rp_pubkey = None, nd_cordoned = False, nd_created_at = 0, nd_updated_at = 0\<rparr>"

definition cell_nodes :: NodeStore where
  "cell_nodes = empty_nodes\<lparr>nodes := map cell_node [''n1'', ''n2'', ''n3'']\<rparr>"

definition three_plan :: "StagePlacement list" where
  "three_plan = map (\<lambda>(i, n). \<lparr>sp_stage = i, sp_site_id = ''A'', sp_node_id = n, sp_gpu_indices = [0]\<rparr>)
     [(0, ''n1''), (1, ''n2''), (2, ''n3'')]"

definition three_stages :: InferenceCellManifest where
  "three_stages = demo_cell_manifest ''c'' ((demo_cell 3 (map (demo_member ''A'') [''n1'', ''n2'', ''n3'']) [])\<lparr>cs_fallback_mode := ''none''\<rparr>)"

definition failing_env :: cell_env where
  "failing_env = (demo_env True)\<lparr>en_apply := (\<lambda>i. if i = 0 then Inr [] else Inl (RuntimeError ''down''))\<rparr>"

definition starting_record :: InferenceCellRecord where
  "starting_record = (new_cell 0 three_stages None)\<lparr>cl_phase := STARTING_WORKERS,
     cl_allocations := [(''placements'', JArr (map placement_to_dict three_plan))]\<rparr>"

definition starting :: CellSys where
  "starting = \<lparr>sy_db = (empty_cell_store cell_nodes)\<lparr>db_cells := [starting_record]\<rparr>, sy_log = []\<rparr>"

lemma starting_facts:
  "cell_record three_stages (sy_db starting) = Inr starting_record"
  "cl_phase starting_record = STARTING_WORKERS" "en_execution_enabled failing_env"
  by (simp_all add: cell_record_def get_inference_cell_def starting_def starting_record_def failing_env_def demo_env_def)

lemma three_plan_read: "alloc_stage_placements (cl_allocations starting_record) = Inr three_plan"
proof -
  have "sort_key sp_stage three_plan = three_plan" by code_simp
  then show ?thesis using alloc_placements [of "cl_allocations starting_record" three_plan]
    by (simp add: starting_record_def dict_get_def)
qed

lemma starting_executor: "active_executor three_stages (cl_allocations starting_record) = ''ray''"
  "\<not> supports_mp_fallback three_stages" "cs_master_stage (cm_spec three_stages) = 0"
  by code_simp+

lemma runtimes: "runtime_for_node failing_env ''n2'' (sy_db t) = Inr ''http://n2''" "runtime_for_node failing_env ''n3'' (sy_db t) = Inr ''http://n3''"
  if "db_nodes (sy_db t) = cell_nodes" for t :: CellSys
proof -
  have "map_option (node_endpoint \<circ> fst) (get_node (en_norm failing_env) ''n2'' cell_nodes) = Some ''n2''"
    "map_option (node_endpoint \<circ> fst) (get_node (en_norm failing_env) ''n3'' cell_nodes) = Some ''n3''" by code_simp+
  then show "runtime_for_node failing_env ''n2'' (sy_db t) = Inr ''http://n2''" "runtime_for_node failing_env ''n3'' (sy_db t) = Inr ''http://n3''"
    using that by (auto simp: runtime_for_node_def starts_with_def split: option.splits)
qed

lemma worker_rendered:
  assumes "dict_get alloc ''member_fabric_ips'' = JNull"
  shows "\<exists>name ns doc. ray_worker_manifest failing_env three_stages p alloc False = Inr (name, ns, doc)"
  using assms by (simp add: ray_worker_manifest_def fabric_ip_of_def py_or_def Let_def workload_manifest_def failing_env_def demo_env_def)

theorem started_workers_forgotten_witness:
  "\<exists>r' s' ep a doc. run_once failing_env three_stages starting = (Inr r', s') \<and> cl_phase r' = FAILED \<and>
    EnsureApp ep a doc \<in> set (sy_log s') \<and> removes_only {} s' (snd (release_cell failing_env (cl_allocations r') s'))"
proof -
  let ?a = "cl_allocations starting_record"
  let ?alloc = "dict_put ''workloads'' (JObj (dict_put ''workers'' (render_workers three_stages three_plan ''ray'') [])) ?a"
  have put: "put_workload ''workers'' (render_workers three_stages three_plan ''ray'') ?a = Inr ?alloc"
    by (simp add: put_workload_def starting_record_def)
  have "dict_get ?a k = JNull" if "k \<noteq> ''placements''" for k using that by (simp add: starting_record_def dict_get_def)
  then have get: "dict_get ?alloc ''execution'' = JNull" "dict_get ?alloc ''member_fabric_ips'' = JNull" "recorded_apps ?a = {}"
    by (simp_all add: recorded_apps_def execution_workloads_def py_or_def alloc_list_def workload_refs_def List.map_filter_simps)
  define p q where "p = three_plan ! 1" and "q = three_plan ! 2"
  obtain a1 ns1 d1 a2 ns2 d2 where w: "ray_worker_manifest failing_env three_stages p ?alloc False = Inr (a1, ns1, d1)"
    "ray_worker_manifest failing_env three_stages q ?alloc False = Inr (a2, ns2, d2)"
    using worker_rendered [OF get(2)] by metis
  have plan: "three_plan = [\<lparr>sp_stage = 0, sp_site_id = ''A'', sp_node_id = ''n1'', sp_gpu_indices = [0]\<rparr>, p, q]"
    "sp_node_id p = ''n2''" "sp_node_id q = ''n3''" "sp_stage p = 1" "sp_stage q = 2" by (simp_all add: p_def q_def three_plan_def)
  have nodes: "db_nodes (sy_db (act x starting)) = cell_nodes" "db_nodes (sy_db starting) = cell_nodes" for x
    by (simp_all add: starting_def act_def empty_cell_store_def)
  let ?t = "act (EnsureApp ''http://n2'' (app_key a1 (Some ns1)) d1) starting"
  have ticks: "en_apply failing_env (tick starting) = Inr []" "en_apply failing_env (tick ?t) = Inl (RuntimeError ''down'')"
    by (simp_all add: tick_def starting_def act_def failing_env_def)
  obtain rec1 where ap1: "apply_manifest_to_node failing_env ''ray-worker'' (sp_node_id p)
      (a1, ns1, d1) starting = (Inr rec1, ?t)"
    unfolding apply_manifest_to_node_def plan(2) runtimes(1) [OF nodes(2)] Let_def using ticks(1) by simp
  obtain e s1 where ap2: "apply_manifest_to_node failing_env ''ray-worker'' (sp_node_id q)
      (a2, ns2, d2) ?t = (Inl e, s1)" "set (sy_log ?t) \<subseteq> set (sy_log s1)"
    unfolding apply_manifest_to_node_def plan(3) runtimes(2) [OF nodes(1)] Let_def using ticks(2) by (auto simp: act_def)
  have set: "apply_worker_set failing_env three_stages ?alloc ''ray'' three_plan starting = (Inl e, s1)"
    by (subst (2) plan(1)) (use plan(4,5) in \<open>simp add: starting_executor(3) w ap1 ap2(1) Let_def\<close>)
  have log: "EnsureApp ''http://n2'' (app_key a1 (Some ns1)) d1 \<in> set (sy_log s1)"
    using ap2(2) by (auto simp: act_def)
  have "as_dict (py_or (dict_get ?alloc ''execution'') (JObj [])) = Some []" unfolding get(1) by (simp add: py_or_def)
  from started_workers_forgotten [OF starting_facts starting_executor(2) three_plan_read starting_executor(1) [symmetric] put this set, of failing_env]
    log show ?thesis unfolding get(3) by fastforce
qed

end
