(* ===== verification/Cell_Sets.thy ===== *)
theory Cell_Sets
  imports Cell_Progress
begin

text \<open>
  Sets of inference cells (\<^verbatim>\<open>InferenceCellSetController\<close> in \<^verbatim>\<open>ae/controller/inference_cell.py\<close>): the
  names of the cells of a set, reconciling, scaling and deleting it.

  Each cell is reconciled with the environments of its own rounds and deleted in one of its own. The
  validation of the manifest made from the template is an argument; of \<^verbatim>\<open>str.format\<close> the fields
  \<^verbatim>\<open>set\<close> and \<^verbatim>\<open>i\<close> with a width are modelled, and an argument answers for nested fields,
  attributes, conversions and other format specifications.
\<close>

section \<open>Names\<close>

text \<open>The specification of an integer: a zero flag, a width, the letter \<^verbatim>\<open>d\<close>.\<close>

definition int_field :: "string \<Rightarrow> nat \<Rightarrow> string option" where
  "int_field spec i =
     (let ds = takeWhile is_digit spec; rest = dropWhile is_digit spec; w = nat_of_digits ds;
          pad = (if take 1 ds = ''0'' then CHR ''0'' else CHR '' ''); digits = show_nat i
      in if rest \<in> {[], ''d''} \<and> length ds < 10 then Some (replicate (w - length digits) pad @ digits) else None)"

definition format_field :: "string \<Rightarrow> nat \<Rightarrow> string \<Rightarrow> string result option" where
  "format_field set_name i field =
     (let name = takeWhile (\<lambda>c. c \<noteq> CHR '':'') field; spec = drop 1 (dropWhile (\<lambda>c. c \<noteq> CHR '':'') field)
      in if list_ex (\<lambda>c. c \<in> set ''![.'') field then None
         else if name = ''set'' then (if spec = [] then Some (Inr set_name) else None)
         else if name = ''i'' then map_option Inr (int_field spec i)
         else if list_all is_digit name then Some (Inl IndexError)
         else Some (Inl KeyError))"

definition then_text :: "string \<Rightarrow> string result option \<Rightarrow> string result option" where
  "then_text x r = map_option (map_sum id (\<lambda>y. x @ y)) r"

function format_text :: "(string \<Rightarrow> string result option) \<Rightarrow> string \<Rightarrow> string result option" where
  "format_text f [] = Some (Inr [])"
| "format_text f (c # cs) =
     (if c = CHR ''{'' then
        (if take 1 cs = ''{'' then then_text ''{'' (format_text f (drop 1 cs))
         else let field = takeWhile (\<lambda>x. x \<noteq> CHR ''{'' \<and> x \<noteq> CHR ''}'') cs;
                  rest = dropWhile (\<lambda>x. x \<noteq> CHR ''{'' \<and> x \<noteq> CHR ''}'') cs
              in if rest = [] then Some (Inl (ValueError ''format''))
                 else if hd rest = CHR ''{'' then None
                 else (case f field of
                     None \<Rightarrow> None
                   | Some (Inl e) \<Rightarrow> Some (Inl e)
                   | Some (Inr x) \<Rightarrow> then_text x (format_text f (tl rest))))
      else if c = CHR ''}'' then
        (if take 1 cs = ''}'' then then_text ''}'' (format_text f (drop 1 cs)) else Some (Inl (ValueError ''format'')))
      else then_text [c] (format_text f cs))"
  by pat_completeness auto
termination
  by (relation "measure (\<lambda>(f, s). length s)")
    (auto simp: less_Suc_eq_le intro: le_trans [OF diff_le_self length_dropWhile_le])

type_synonym other_format = "string \<Rightarrow> string \<Rightarrow> nat \<Rightarrow> string result"

definition format_name :: "other_format \<Rightarrow> string \<Rightarrow> string \<Rightarrow> nat \<Rightarrow> string result" where
  "format_name other fmt set_name i = (case format_text (format_field set_name i) fmt of
     None \<Rightarrow> other fmt set_name i | Some r \<Rightarrow> r)"

definition default_format :: string where
  "default_format = ''{set}-{i:03d}''"

definition expected_names :: "other_format \<Rightarrow> CellSetManifest \<Rightarrow> string list result" where
  "expected_names other sm =
     (let fmt = (if sm_set_name_format sm = [] then default_format else sm_set_name_format sm)
      in rmap (format_name other fmt (sm_set_name sm)) [0..<nat (sm_set_replicas sm)])"

section \<open>Cells of a set\<close>

definition cellset_label :: string where
  "cellset_label = ''k1s.cellset''"

definition cell_manifest_from_template :: "CellSetManifest \<Rightarrow> string \<Rightarrow> InferenceCellManifest" where
  "cell_manifest_from_template sm cell_name = (sm_set_template sm)\<lparr>cm_name := cell_name,
     cm_namespace := Some (or_default (sm_set_namespace sm)),
     cm_labels := AList.update cellset_label (sm_set_name sm) (sm_set_labels sm)\<rparr>"

definition owned_cells :: "string \<Rightarrow> string \<Rightarrow> CellStore \<Rightarrow> InferenceCellRecord list" where
  "owned_cells set_name ns st = filter (\<lambda>r. map_of (cm_labels (cl_manifest r)) cellset_label = Some set_name)
     (list_inference_cells (Some ns) st)"

type_synonym cell_rounds = "string \<Rightarrow> cell_env list"
type_synonym cell_check = "InferenceCellManifest \<Rightarrow> py_error option"

fun reconcile_cells ::
  "cell_rounds \<Rightarrow> cell_check \<Rightarrow> time \<Rightarrow> CellSetManifest \<Rightarrow> string list \<Rightarrow> (CellSys, unit) eff" where
  "reconcile_cells rounds valid now sm [] s = (Inr (), s)"
| "reconcile_cells rounds valid now sm (n # ns) s =
     (let cm = cell_manifest_from_template sm n
      in case valid cm of
           Some e \<Rightarrow> (Inl e, s)
         | None \<Rightarrow> (case reconcile_cell now (Some (''cellset:'' @ sm_set_name sm)) (rounds n) cm s of
             (Inl e, s1) \<Rightarrow> (Inl e, s1)
           | (Inr _, s1) \<Rightarrow> reconcile_cells rounds valid now sm ns s1))"

fun delete_cells :: "(string \<Rightarrow> cell_env) \<Rightarrow> string \<Rightarrow> string list \<Rightarrow> (CellSys, unit) eff" where
  "delete_cells env ns [] s = (Inr (), s)"
| "delete_cells env ns (n # names) s = (case delete_cell (env n) n (Some ns) s of
     (Inl e, s1) \<Rightarrow> (Inl e, s1)
   | (Inr _, s1) \<Rightarrow> delete_cells env ns names s1)"

definition finish_cellset :: "time \<Rightarrow> CellSetManifest \<Rightarrow> (CellSys, InferenceCellSetRecord) eff" where
  "finish_cellset now sm s =
     (let ns = or_default (sm_set_namespace sm); cells = owned_cells (sm_set_name sm) ns (sy_db s);
          ready = filter (\<lambda>r. cl_phase r = READY) cells;
          s1 = on_db (\<lambda>st. snd (update_inference_cellset_status now (sm_set_name sm) (Some ns) (Some (sm_set_replicas sm))
                 (Some (int (length cells))) (Some (int (length ready))) (Some None) st)) s
      in (case get_inference_cellset (sm_set_name sm) (Some ns) (sy_db s1) of
            None \<Rightarrow> Inl (RuntimeError (''inference cellset '' @ sm_set_name sm @ '' not found after reconcile''))
          | Some r \<Rightarrow> Inr r, s1))"

definition reconcile_cellset ::
  "other_format \<Rightarrow> cell_rounds \<Rightarrow> (string \<Rightarrow> cell_env) \<Rightarrow> cell_check \<Rightarrow> time \<Rightarrow> string option \<Rightarrow> CellSetManifest
   \<Rightarrow> (CellSys, InferenceCellSetRecord) eff" where
  "reconcile_cellset other rounds env valid now source sm s =
     (let s0 = on_db (register_inference_cellset now sm source) s; ns = or_default (sm_set_namespace sm)
      in case expected_names other sm of
           Inl e \<Rightarrow> (Inl e, s0)
         | Inr expected \<Rightarrow>
             let existing = owned_cells (sm_set_name sm) ns (sy_db s0)
             in (case reconcile_cells rounds valid now sm expected s0 of
                   (Inl e, s1) \<Rightarrow> (Inl e, s1)
                 | (Inr _, s1) \<Rightarrow>
                     (case delete_cells env ns (filter (\<lambda>n. n \<notin> set expected) (map cl_cell_id existing)) s1 of
                        (Inl e, s2) \<Rightarrow> (Inl e, s2)
                      | (Inr _, s2) \<Rightarrow> finish_cellset now sm s2)))"

definition scale_cellset ::
  "other_format \<Rightarrow> cell_rounds \<Rightarrow> (string \<Rightarrow> cell_env) \<Rightarrow> cell_check \<Rightarrow> time \<Rightarrow> string \<Rightarrow> int \<Rightarrow> string option
   \<Rightarrow> (CellSys, InferenceCellSetRecord option) eff" where
  "scale_cellset other rounds env valid now name replicas ns s = (case get_inference_cellset name ns (sy_db s) of
     None \<Rightarrow> (Inr None, s)
   | Some rec \<Rightarrow>
       (case reconcile_cellset other rounds env valid now (Some ''scale'') ((st_manifest rec)\<lparr>sm_set_replicas := max 0 replicas\<rparr>) s of
          (r, s1) \<Rightarrow> (map_sum id Some r, s1)))"

definition delete_cellset :: "(string \<Rightarrow> cell_env) \<Rightarrow> string \<Rightarrow> string option \<Rightarrow> (CellSys, unit) eff" where
  "delete_cellset env name ns s = (case get_inference_cellset name ns (sy_db s) of
     None \<Rightarrow> (Inr (), s)
   | Some rec \<Rightarrow>
       (case delete_cells env (st_namespace rec) (map cl_cell_id (owned_cells (st_name rec) (st_namespace rec) (sy_db s))) s of
          (Inl e, s1) \<Rightarrow> (Inl e, s1)
        | (Inr _, s1) \<Rightarrow> (Inr (), on_db (delete_inference_cellset name (Some (st_namespace rec))) s1)))"

section \<open>What reconciling and deleting do to the table of cells\<close>

definition cell_ident :: "InferenceCellRecord \<Rightarrow> InferenceCellManifest \<times> string \<times> string" where
  "cell_ident r = (cl_manifest r, cl_cell_id r, cl_namespace r)"

definition same_cells :: "string \<Rightarrow> CellSys \<Rightarrow> CellSys \<Rightarrow> bool" where
  "same_cells k s s' \<longleftrightarrow> map cl_cell_key (db_cells (sy_db s')) = map cl_cell_key (db_cells (sy_db s)) \<and>
     (\<forall>x. x \<noteq> k \<longrightarrow> cell_at x s' = cell_at x s) \<and> map_option cell_ident (cell_at k s') = map_option cell_ident (cell_at k s)"

lemma same_cells_refl [simp]: "same_cells k s s"
  by (simp add: same_cells_def)

lemma same_cells_trans: "same_cells k s t \<Longrightarrow> same_cells k t u \<Longrightarrow> same_cells k s u"
  by (simp add: same_cells_def)

lemma same_cells_eq: "db_cells (sy_db t) = db_cells (sy_db s) \<Longrightarrow> same_cells k s t"
  by (simp add: same_cells_def cell_at_def)

lemma cell_ident_update [simp]: "cell_ident (apply_update nu r) = cell_ident r"
  by (cases nu) (simp add: cell_ident_def apply_update_def)

lemma same_cells_writes:
  assumes "writes m r (apply_update nu r) u s'" and "db_cells (sy_db u) = db_cells (sy_db s)" and "cell_at (cl_cell_key r) s = Some r"
  shows "same_cells (cl_cell_key r) s s'"
  using assms by (simp add: same_cells_def writes_def cell_at_def)

lemma same_cells_run_once:
  fixes s :: CellSys
  assumes "run_once env m s = (Inr r', s')"
  shows "same_cells (inference_key (cm_name m) (cm_namespace m)) s s'"
proof (cases "cell_record m (sy_db s)")
  case (Inl e)
  then show ?thesis using assms by (simp add: run_once_def)
next
  case (Inr r)
  note key = cell_record_key [OF Inr]
  have at: "cell_at (cl_cell_key r) s = Some r" using Inr key by (simp add: cell_record_at)
  consider "cl_phase r \<in> {READY, FAILED}" | "cl_phase r = RESERVING" | "cl_phase r = RESTARTING"
    | "cl_phase r \<notin> {RESERVING, RESTARTING, READY, FAILED}" by blast
  then have "same_cells (cl_cell_key r) s s'"
  proof cases
    case 1
    then show ?thesis using Inr assms by (auto simp: run_once_def)
  next
    case 2
    then have run: "run_reserving env m r s = (Inr r', s')" using Inr assms by (simp add: run_once_def)
    obtain ps where ps: "alloc_stage_placements (cl_allocations r) = Inr ps" using run by (auto simp: run_reserving_def split: sum.splits)
    obtain lease t where l: "reserve (en_now env) (en_lease_id env) (cl_cell_key r) (CellSpec.truncate (cm_spec m)) ps
        (db_leases (sy_db s)) = (lease, t)" by (metis surj_pair)
    have rec: "cell_record m (sy_db (on_db (\<lambda>st. st\<lparr>db_leases := t\<rparr>) s)) = Inr r"
      using Inr by (simp add: on_db_def cell_record_def get_inference_cell_def)
    have "same_cells (cl_cell_key r) s s'"
      if "step_to env m ty msg u (on_db (\<lambda>st. st\<lparr>db_leases := t\<rparr>) s) = (Inr r', s')" for ty msg u
      using step_to_writes [OF rec, of env ty msg u] that at by (auto intro!: same_cells_writes simp: on_db_def)
    then show ?thesis using run by (auto simp: run_reserving_def ps l Let_def split: sum.splits option.splits)
  next
    case 3
    then have "run_restarting env m r s = (Inr r', s')" using Inr assms by (simp add: run_once_def)
    from run_restarting_cases [OF Inr this] obtain t u where "release_cell env (cl_allocations r) s = (Inr (), t)"
      "r' = apply_update (en_now env, u) r" "writes m r r' t s'" by auto
    then show ?thesis using same_cells_writes at release_cell_leases(1) by metis
  next
    case 4
    from run_once_moves [OF Inr 4, of env] assms obtain u where "r' = apply_update (en_now env, u) r" "writes m r r' s s'"
      by (auto simp: moves_def)
    then show ?thesis using same_cells_writes [OF _ refl at] by simp
  qed
  then show ?thesis by (simp add: key)
qed

lemma same_cells_rounds:
  "reconcile_rounds envs m s = (Inr r, s') \<Longrightarrow> same_cells (inference_key (cm_name m) (cm_namespace m)) s s'"
proof (induction envs arbitrary: s)
  case (Cons env envs)
  show ?case
  proof (cases "run_once env m s")
    case (Pair res s1)
    then show ?thesis using Cons.prems Cons.IH [of s1] same_cells_run_once [of env m s _ s1] same_cells_trans [of _ s s1 s']
      by (auto split: sum.splits if_splits)
  qed
qed auto

text \<open>The table has one row for each key, and the key of a row is made from its name and namespace.\<close>

definition rows_ok :: "CellSys \<Rightarrow> bool" where
  "rows_ok s \<longleftrightarrow> primary_key cl_cell_key (db_cells (sy_db s)) \<and>
     (\<forall>k r. cell_at k s = Some r \<longrightarrow> inference_key (cl_cell_id r) (Some (cl_namespace r)) = k)"

definition registered :: "InferenceCellManifest \<Rightarrow> CellSys \<Rightarrow> CellSys \<Rightarrow> bool" where
  "registered m s s' \<longleftrightarrow> rows_ok s' \<and> (\<forall>x. x \<noteq> inference_key (cm_name m) (cm_namespace m) \<longrightarrow> cell_at x s' = cell_at x s) \<and>
     map_option cell_ident (cell_at (inference_key (cm_name m) (cm_namespace m)) s') =
       Some (m, cm_name m, or_default (cm_namespace m))"

lemma register_registered:
  assumes "rows_ok s"
  shows "registered m s (on_db (register_inference_cell now m source) s)"
proof -
  have at: "cell_at x (on_db (register_inference_cell now m source) s) =
      (if x = inference_key (cm_name m) (cm_namespace m)
       then Some (case cell_at x s of None \<Rightarrow> new_cell now m source | Some r \<Rightarrow> cl_reregister (new_cell now m source) r)
       else cell_at x s)" for x
    by (simp add: cell_at_def on_db_def register_inference_cell_def Let_def cl_reg.lookup_upsert)
  have re: "cl_cell_id (cl_reregister n r) = cl_cell_id n" "cl_namespace (cl_reregister n r) = cl_namespace n" for n r
    by (simp_all add: cl_reregister_def)
  show ?thesis using assms unfolding registered_def rows_ok_def at
    by (auto simp: cell_ident_def re on_db_def register_inference_cell_def Let_def cl_reg.pk_upsert split: option.splits if_splits)
qed

lemma rows_ok_same:
  assumes "rows_ok s" and "same_cells k s s'"
  shows "rows_ok s'"
proof -
  have "inference_key (cl_cell_id r) (Some (cl_namespace r)) = x" if "cell_at x s' = Some r" for x r
  proof (cases "x = k")
    case True
    with assms(2) that obtain r0 where "cell_at k s = Some r0" "cell_ident r0 = cell_ident r"
      by (cases "cell_at k s") (auto simp: same_cells_def)
    moreover from this assms(1) have "inference_key (cl_cell_id r0) (Some (cl_namespace r0)) = k" by (simp add: rows_ok_def)
    ultimately show ?thesis using True by (simp add: cell_ident_def)
  qed (use assms that in \<open>auto simp: rows_ok_def same_cells_def\<close>)
  with assms show ?thesis by (simp add: rows_ok_def same_cells_def primary_key_def)
qed

lemma reconcile_registered:
  assumes "rows_ok s" and "reconcile_cell now source envs m s = (Inr r, s')"
  shows "registered m s s'"
proof -
  let ?t = "on_db (register_inference_cell now m source) s"
  note t = register_registered [OF assms(1), of m now source]
  have "same_cells (inference_key (cm_name m) (cm_namespace m)) ?t s'"
    using assms(2) by (intro same_cells_rounds) (simp add: reconcile_cell_def)
  with t rows_ok_same show ?thesis unfolding registered_def same_cells_def by metis
qed

lemma delete_cell_rows:
  assumes "rows_ok s" and "delete_cell env n (Some ns) s = (Inr u, s')"
  shows "rows_ok s'" "cell_at x s' = (if x = inference_key n (Some ns) then None else cell_at x s)"
proof -
  have "rows_ok s' \<and> cell_at x s' = (if x = inference_key n (Some ns) then None else cell_at x s)" for x
  proof (cases "get_inference_cell n (Some ns) (sy_db s)")
    case None
    then show ?thesis using assms by (auto simp: delete_cell_def get_inference_cell_def cell_at_def)
  next
    case (Some r)
    obtain t where t: "release_cell env (cl_allocations r) s = (Inr (), t)" and s': "s' = on_db (delete_inference_cell n (Some ns)) t"
      using assms(2) Some by (auto simp: delete_cell_def split: sum.splits prod.splits)
    note cells = release_cell_leases(1) [OF t]
    then have at: "cell_at y s' = (if y = inference_key n (Some ns) then None else cell_at y s)" for y
      unfolding s' by (simp add: cell_at_deleted) (simp add: cell_at_def)
    have "primary_key cl_cell_key (db_cells (sy_db s'))"
      using assms(1) cells by (simp add: s' on_db_def delete_inference_cell_def Let_def rows_ok_def primary_key_delete_where)
    then show ?thesis using assms(1) by (auto simp: rows_ok_def at split: if_splits)
  qed
  then show "rows_ok s'" "cell_at x s' = (if x = inference_key n (Some ns) then None else cell_at x s)" by auto
qed

lemma delete_cells_rows:
  assumes "rows_ok s" and "delete_cells env ns names s = (Inr u, s')"
  shows "rows_ok s' \<and> (\<forall>x. cell_at x s' = (if x \<in> (\<lambda>n. inference_key n (Some ns)) ` set names then None else cell_at x s))"
  using assms
proof (induction names arbitrary: s)
  case (Cons n names)
  obtain v t where t: "delete_cell (env n) n (Some ns) s = (Inr v, t)" and rest: "delete_cells env ns names t = (Inr u, s')"
    using Cons.prems(2) by (auto split: sum.splits prod.splits)
  note d = delete_cell_rows [OF Cons.prems(1) t]
  from Cons.IH [OF d(1) rest] show ?case by (auto simp: d(2))
qed simp

lemma inference_key_inj [simp]: "inference_key a (Some ns) = inference_key b (Some ns) \<longleftrightarrow> a = b"
  by (auto simp: inference_key_def app_key_def Let_def split: option.splits)

text \<open>The cells of a set after its expected names were reconciled.\<close>

definition made_cells :: "CellSetManifest \<Rightarrow> string list \<Rightarrow> CellSys \<Rightarrow> CellSys \<Rightarrow> bool" where
  "made_cells sm names s s' \<longleftrightarrow> rows_ok s' \<and>
     (\<forall>x. x \<notin> (\<lambda>n. inference_key n (Some (or_default (sm_set_namespace sm)))) ` set names \<longrightarrow> cell_at x s' = cell_at x s) \<and>
     (\<forall>n \<in> set names. map_option cell_ident (cell_at (inference_key n (Some (or_default (sm_set_namespace sm)))) s') =
        Some (cell_manifest_from_template sm n, n, or_default (sm_set_namespace sm)))"

lemma template_simps [simp]:
  "cm_name (cell_manifest_from_template sm n) = n"
  "cm_namespace (cell_manifest_from_template sm n) = Some (or_default (sm_set_namespace sm))"
  by (simp_all add: cell_manifest_from_template_def)

lemma reconcile_cells_made:
  assumes "rows_ok s" and "reconcile_cells rounds valid now sm names s = (Inr u, s')"
  shows "made_cells sm names s s'"
  using assms
proof (induction names arbitrary: s)
  case (Cons n names)
  obtain r t where t: "reconcile_cell now (Some (''cellset:'' @ sm_set_name sm)) (rounds n) (cell_manifest_from_template sm n) s = (Inr r, t)"
    and rest: "reconcile_cells rounds valid now sm names t = (Inr u, s')"
    using Cons.prems(2) by (auto simp: Let_def split: option.splits sum.splits prod.splits)
  let ?ns = "or_default (sm_set_namespace sm)"
  have reg: "rows_ok t" "\<And>x. x \<noteq> inference_key n (Some ?ns) \<Longrightarrow> cell_at x t = cell_at x s"
    "map_option cell_ident (cell_at (inference_key n (Some ?ns)) t) = Some (cell_manifest_from_template sm n, n, ?ns)"
    using reconcile_registered [OF Cons.prems(1) t] by (simp_all add: registered_def)
  note made = Cons.IH [OF reg(1) rest, unfolded made_cells_def]
  have "map_option cell_ident (cell_at (inference_key n (Some ?ns)) s') = Some (cell_manifest_from_template sm n, n, ?ns)"
  proof (cases "n \<in> set names")
    case True
    then show ?thesis using made by blast
  next
    case False
    then have "inference_key n (Some ?ns) \<notin> (\<lambda>n. inference_key n (Some ?ns)) ` set names"
      using inference_key_inj [of n ?ns] by (auto simp del: inference_key_default)
    then show ?thesis using made reg(3) by presburger
  qed
  moreover have "cell_at x s' = cell_at x s" if "x \<notin> (\<lambda>n. inference_key n (Some ?ns)) ` set (n # names)" for x
    using made reg(2) that by (metis image_eqI image_mono list.set_intros(1) set_subset_Cons subsetD)
  ultimately show ?case using made unfolding made_cells_def by (metis set_ConsD)
qed (simp add: made_cells_def)

section \<open>A reconciled set\<close>

definition owned_by :: "string \<Rightarrow> string \<Rightarrow> InferenceCellRecord \<Rightarrow> bool" where
  "owned_by set_name ns r \<longleftrightarrow> cl_namespace r = ns \<and> map_of (cm_labels (cl_manifest r)) cellset_label = Some set_name"

lemma in_table:
  assumes "rows_ok s"
  shows "r \<in> set (db_cells (sy_db s)) \<longleftrightarrow> cell_at (cl_cell_key r) s = Some r"
proof
  assume "cell_at (cl_cell_key r) s = Some r"
  then show "r \<in> set (db_cells (sy_db s))" using find_key_Some unfolding cell_at_def by fast
next
  assume r: "r \<in> set (db_cells (sy_db s))"
  then obtain x where x: "cell_at (cl_cell_key r) s = Some x" by (fastforce simp: cell_at_def find_None_iff)
  then have "x \<in> set (db_cells (sy_db s))" "cl_cell_key x = cl_cell_key r" using find_key_Some unfolding cell_at_def by fast+
  then show "cell_at (cl_cell_key r) s = Some r"
    using x r primary_key_unique [of cl_cell_key "db_cells (sy_db s)" x r] assms by (simp add: rows_ok_def)
qed

lemma owned_iff:
  assumes "rows_ok s" and "ns \<noteq> []"
  shows "r \<in> set (owned_cells set_name ns (sy_db s)) \<longleftrightarrow> cell_at (cl_cell_key r) s = Some r \<and> owned_by set_name ns r"
  using assms(2) in_table [OF assms(1)]
  by (cases ns) (auto simp: owned_cells_def list_inference_cells_def nonempty_def owned_by_def)

lemma owned_distinct:
  assumes "rows_ok s" and "ns \<noteq> []"
  shows "distinct (map cl_cell_id (owned_cells set_name ns (sy_db s)))"
proof -
  have "distinct (db_cells (sy_db s))" using assms(1) by (auto simp: rows_ok_def primary_key_def distinct_map)
  then have "distinct (owned_cells set_name ns (sy_db s))"
    using assms(2) by (cases ns) (simp_all add: owned_cells_def list_inference_cells_def nonempty_def)
  moreover have "inj_on cl_cell_id (set (owned_cells set_name ns (sy_db s)))"
  proof (rule inj_onI)
    fix x y
    assume "x \<in> set (owned_cells set_name ns (sy_db s))" "y \<in> set (owned_cells set_name ns (sy_db s))" "cl_cell_id x = cl_cell_id y"
    then show "x = y" using assms(1) unfolding owned_iff [OF assms] owned_by_def rows_ok_def by (metis option.inject)
  qed
  ultimately show ?thesis by (simp add: distinct_map)
qed

lemma owned_after:
  assumes "rows_ok s" and "made_cells sm names s s1"
    and "delete_cells env ns (filter (\<lambda>n. n \<notin> set names) (map cl_cell_id (owned_cells (sm_set_name sm) ns (sy_db s)))) s1 = (Inr u, s2)"
    and "ns = or_default (sm_set_namespace sm)"
  shows "rows_ok s2 \<and> set (map cl_cell_id (owned_cells (sm_set_name sm) ns (sy_db s2))) = set names"
proof -
  let ?K = "\<lambda>n. inference_key n (Some ns)"
  let ?old = "filter (\<lambda>n. n \<notin> set names) (map cl_cell_id (owned_cells (sm_set_name sm) ns (sy_db s)))"
  have ns: "ns \<noteq> []" unfolding assms(4) by (rule or_default_nonempty)
  have made: "rows_ok s1" "\<And>x. x \<notin> ?K ` set names \<Longrightarrow> cell_at x s1 = cell_at x s"
    "\<And>n. n \<in> set names \<Longrightarrow> map_option cell_ident (cell_at (?K n) s1) = Some (cell_manifest_from_template sm n, n, ns)"
    using assms(2) unfolding made_cells_def assms(4) [symmetric] by blast+
  have del: "rows_ok s2" "\<And>x. cell_at x s2 = (if x \<in> ?K ` set ?old then None else cell_at x s1)"
    using delete_cells_rows [OF made(1) assms(3)] by blast+
  have keys: "?K n \<notin> ?K ` set ?old" if "n \<in> set names" for n using that by (auto simp: assms(4) simp del: inference_key_default)
  have "cl_cell_id r \<in> set names" if r: "cell_at (cl_cell_key r) s2 = Some r" "owned_by (sm_set_name sm) ns r" for r
  proof (rule ccontr)
    assume out: "cl_cell_id r \<notin> set names"
    have key: "cl_cell_key r = ?K (cl_cell_id r)" using del(1) r by (auto simp: rows_ok_def owned_by_def)
    then have "cl_cell_key r \<notin> ?K ` set names" using out by auto
    then have "cell_at (cl_cell_key r) s = Some r" using r(1) del(2) made(2) by (metis option.distinct(1))
    then have "r \<in> set (owned_cells (sm_set_name sm) ns (sy_db s))" using owned_iff [OF assms(1) ns] r(2) by blast
    then have "?K (cl_cell_id r) \<in> ?K ` set ?old" using out by force
    then show False using r(1) del(2) key by simp
  qed
  moreover have "\<exists>r. cell_at (cl_cell_key r) s2 = Some r \<and> owned_by (sm_set_name sm) ns r \<and> cl_cell_id r = n" if n: "n \<in> set names" for n
  proof -
    have "cell_at (?K n) s2 = cell_at (?K n) s1" using del(2) keys [OF n] by simp
    with made(3) [OF n] obtain r where "cell_at (?K n) s2 = Some r" "cell_ident r = (cell_manifest_from_template sm n, n, ns)"
      by (cases "cell_at (?K n) s1") auto
    moreover from this have "cl_cell_key r = ?K n" using cell_at_key by blast
    ultimately show ?thesis
      by (intro exI [of _ r]) (simp add: cell_ident_def owned_by_def cell_manifest_from_template_def update_conv')
  qed
  ultimately show ?thesis using del(1) owned_iff [OF del(1) ns] by (fastforce simp: image_iff)
qed

text \<open>
  (C25) A reconciled set converges: when reconciling a set returns, the cells that carry its label in its namespace are exactly
  those with the expected names, each once; those it had besides are gone, and the record counts them.
\<close>

theorem cellset_converges:
  assumes "rows_ok s" and "reconcile_cellset other rounds env valid now source sm s = (Inr rec, s')"
  shows "\<exists>names. expected_names other sm = Inr names \<and>
    set (map cl_cell_id (owned_cells (sm_set_name sm) (or_default (sm_set_namespace sm)) (sy_db s'))) = set names \<and>
    st_current rec = int (card (set names)) \<and> st_desired rec = sm_set_replicas sm \<and> st_ready rec \<le> st_current rec"
proof -
  let ?s0 = "on_db (register_inference_cellset now sm source) s" and ?ns = "or_default (sm_set_namespace sm)"
  obtain names u v s1 s2 where names: "expected_names other sm = Inr names"
    and one: "reconcile_cells rounds valid now sm names ?s0 = (Inr u, s1)"
    and two: "delete_cells env ?ns (filter (\<lambda>n. n \<notin> set names) (map cl_cell_id (owned_cells (sm_set_name sm) ?ns (sy_db ?s0)))) s1 = (Inr v, s2)"
    and fin: "finish_cellset now sm s2 = (Inr rec, s')"
    using assms(2) by (auto simp: reconcile_cellset_def Let_def split: sum.splits prod.splits)
  have "rows_ok ?s0" using assms(1) by (simp add: rows_ok_def cell_at_def on_db_def register_inference_cellset_def Let_def)
  note after = owned_after [OF this reconcile_cells_made [OF this one] two refl]
  let ?cells = "owned_cells (sm_set_name sm) ?ns (sy_db s2)"
  have cells: "owned_cells x y (sy_db s') = owned_cells x y (sy_db s2)" for x y
    using fin by (auto simp: finish_cellset_def Let_def on_db_def update_inference_cellset_status_def owned_cells_def
        list_inference_cells_def split: option.splits)
  have "distinct (map cl_cell_id ?cells)" using owned_distinct after or_default_nonempty by blast
  then have "length ?cells = card (set names)" using after by (metis distinct_card length_map)
  moreover have "st_current rec = int (length ?cells) \<and> st_desired rec = sm_set_replicas sm \<and>
      st_ready rec = int (length (filter (\<lambda>r. cl_phase r = READY) ?cells))"
    using fin by (auto simp: finish_cellset_def Let_def on_db_def update_inference_cellset_status_def get_inference_cellset_def
        st_upd.lookup_update_key exists_row_find set_status_def split: option.splits if_splits)
  ultimately show ?thesis using names after length_filter_le [of "\<lambda>r. cl_phase r = READY" ?cells] by (auto simp: cells)
qed

text \<open>The default format numbers the cells with at least three digits.\<close>

definition padded :: "nat \<Rightarrow> string" where
  "padded i = replicate (3 - length (show_nat i)) (CHR ''0'') @ show_nat i"

lemma padded_inj: "padded i = padded j \<Longrightarrow> i = j"
proof -
  have zeros: "nat_of_digits (replicate n (CHR ''0'') @ x) = nat_of_digits x" for n x
    by (induction n) (simp_all add: nat_of_digits_def digit_value_def)
  have "nat_of_digits (padded k) = k" for k by (simp add: padded_def zeros)
  then show "padded i = padded j \<Longrightarrow> i = j" by metis
qed

lemma format_default: "format_name other default_format set_name i = Inr (set_name @ ''-'' @ padded i)"
  by (simp add: format_name_def default_format_def format_field_def int_field_def then_text_def Let_def is_digit_def
      padded_def nat_of_digits_def digit_value_def)

text \<open>
  With the default name format a set of any size gets one name for each replica, also beyond the three digits
  that the format pads to.
\<close>

theorem default_names_distinct:
  assumes "sm_set_name_format sm \<in> {[], default_format}" and "0 \<le> sm_set_replicas sm"
  shows "\<exists>names. expected_names other sm = Inr names \<and> distinct names \<and> int (length names) = sm_set_replicas sm"
proof -
  let ?f = "\<lambda>i. sm_set_name sm @ ''-'' @ padded i"
  have "rmap (format_name other default_format (sm_set_name sm)) is = Inr (map ?f is)" for "is"
    by (induction "is") (simp_all add: format_default)
  then have "expected_names other sm = Inr (map ?f [0..<nat (sm_set_replicas sm)])"
    using assms(1) by (auto simp: expected_names_def Let_def)
  moreover have "inj ?f" by (auto intro!: injI dest: padded_inj)
  then have "distinct (map ?f [0..<nat (sm_set_replicas sm)])" by (simp add: distinct_map inj_on_def)
  ultimately show ?thesis using assms(2) by simp
qed

section \<open>Examples\<close>

definition demo_set :: "string \<Rightarrow> CellSetManifest" where
  "demo_set fmt = \<lparr>sm_set_name = ''s'', sm_set_namespace = None, sm_set_labels = [], sm_set_replicas = 1,
     sm_set_template = demo_m, sm_set_name_format = fmt\<rparr>"

definition demo_reconcile :: "string \<Rightarrow> string \<Rightarrow> CellSys \<Rightarrow> InferenceCellSetRecord result \<times> CellSys" where
  "demo_reconcile fmt lease s = reconcile_cellset (\<lambda>f n i. Inl KeyError)
     (\<lambda>n. replicate 16 ((demo_env False)\<lparr>en_lease_id := lease\<rparr>)) (\<lambda>n. demo_env False) (\<lambda>cm. None) 0 None (demo_set fmt) s"

definition first_set :: "InferenceCellSetRecord result \<times> CellSys" where
  "first_set = demo_reconcile ''a{i}'' ''l-1'' (demo_start empty_nodes)"

lemma first_set_ready: "map_sum id st_ready (fst first_set) = Inr 1"
  by code_simp

theorem cellset_converges_witness: "set (map cl_cell_id (owned_cells ''s'' ''default'' (sy_db (snd first_set)))) = {''a0''}"
proof -
  obtain rec s' where run: "demo_reconcile ''a{i}'' ''l-1'' (demo_start empty_nodes) = (Inr rec, s')"
    using first_set_ready by (cases first_set; cases "fst first_set") (auto simp: first_set_def)
  have ok: "rows_ok (demo_start empty_nodes)" by (simp add: rows_ok_def demo_start_def empty_cell_store_def cell_at_def primary_key_def)
  have "expected_names (\<lambda>f n i. Inl KeyError) (demo_set ''a{i}'') = Inr [''a0'']" by code_simp
  with cellset_converges [OF ok run [unfolded demo_reconcile_def]] run show ?thesis
    by (simp add: first_set_def demo_set_def or_default_def nonempty_def default_namespace_def)
qed

theorem default_names_distinct_witness:
  "\<exists>names. expected_names (\<lambda>f n i. Inl KeyError) ((demo_set default_format)\<lparr>sm_set_replicas := 1200\<rparr>) = Inr names \<and>
    distinct names \<and> length names = 1200"
  using default_names_distinct [of "(demo_set default_format)\<lparr>sm_set_replicas := 1200\<rparr>" "\<lambda>f n i. Inl KeyError"]
  by (auto simp: demo_set_def)

text \<open>The counts of a set's record and the GPUs that are leased, after each of a sequence of manifests.\<close>

fun set_history :: "(string \<times> string) list \<Rightarrow> CellSys \<Rightarrow> ((int \<times> int \<times> int) result \<times> (string \<times> int) list) list" where
  "set_history [] s = []"
| "set_history ((fmt, lease) # ms) s = (case demo_reconcile fmt lease s of
     (r, s1) \<Rightarrow> (map_sum id (\<lambda>r. (st_desired r, st_current r, st_ready r)) r, map ls_key (gpu_leases (db_leases (sy_db s1)))) #
       set_history ms s1)"

text \<open>
  Cells are created before the surplus ones are deleted. A ready set whose name format changes asks for the GPUs
  that its old cell still holds: the new cell fails, the old one is deleted, and although all GPUs are free
  then, reconciling the set again does not bring it back.
\<close>

theorem renamed_set_not_ready:
  "set_history [(''a{i}'', ''l-1''), (''b{i}'', ''l-2''), (''b{i}'', ''l-3'')] (demo_start empty_nodes) =
     [(Inr (1, 1, 1), gpu_slots two_sites_plan), (Inr (1, 1, 0), []), (Inr (1, 1, 0), [])]"
  by code_simp

end
