(* ===== verification/Hub_Ingress.thy ===== *)
theory Hub_Ingress
  imports Gateway Authority Nodes Site_Ports Work_Control
begin

text \<open>
  The controller's side of the site protocol (\<^verbatim>\<open>NatsControllerIngress\<close> in \<^verbatim>\<open>ae/transport/controller_ingress.py\<close>): leases of nodes, pulled and
  acknowledged work and results, as gateways send them, over the work tables, the nodes and the site ports of the
  state store.

  A handler sees one clock value and one snapshot of the authority (\<open>None\<close>: the ingress has no authority).
  A message carries the JSON value of its data; empty or undecodable data is \<open>None\<close>. What the store raises in the three
  calls of a lease acquisition, whose exceptions the handler catches, and whether a subscription raises are arguments. The
  log records what the ingress publishes and asks of others, whether or not it arrives.
\<close>

section \<open>State and messages\<close>

datatype hub_action =
    Reply string dict
  | FenceEvent string int
  | ProvisionSite string
  | RenderEdge
  | Subscribe string
  | Unsubscribe string

record HubIngress =
  hb_epoch :: int
  hb_subs :: "string list"
  hb_js_sites :: "string list"
  hb_js_provisioning :: "string list"
  hb_js_stream_ready :: bool
  hb_work :: WorkStore
  hb_nodes :: NodeStore
  hb_sites :: site_table
  hb_log :: "hub_action list"

record HubConfig =
  hc_lease_ttl_ms :: int
  hc_renew_after_ms :: int
  hc_js_provision :: bool
  hc_core_proxy_enabled :: bool
  hc_core_proxy_port_min :: int
  hc_core_proxy_port_max :: int
  hc_edge_renderer :: bool
  hc_backend :: store_backend

record hub_env =
  he_now :: time
  he_uuid :: "nat \<Rightarrow> string"
  he_authority :: "AuthoritySnapshot option"
  he_env_id :: "string option"
  he_env_epoch :: "string option"
  he_hostname :: string
  he_norm :: "json \<Rightarrow> json"
  he_store :: "nat \<Rightarrow> py_error option"
  he_subscribe :: "nat \<Rightarrow> py_error option"
  he_str :: "py_error \<Rightarrow> string"

record NatsMessage =
  nm_subject :: string
  nm_reply :: "string option"
  nm_data :: "json option"

definition hub_act :: "hub_action \<Rightarrow> HubIngress \<Rightarrow> HubIngress" where
  "hub_act a s = s\<lparr>hb_log := hb_log s @ [a]\<rparr>"

definition hub_reply :: "NatsMessage \<Rightarrow> dict \<Rightarrow> HubIngress \<Rightarrow> HubIngress" where
  "hub_reply msg payload s = (case nonempty (nm_reply msg) of None \<Rightarrow> s | Some r \<Rightarrow> hub_act (Reply r payload) s)"

definition hub_safe_json :: "NatsMessage \<Rightarrow> json" where
  "hub_safe_json msg = (case nm_data msg of None \<Rightarrow> JObj [] | Some v \<Rightarrow> v)"

fun split_char :: "char \<Rightarrow> string \<Rightarrow> string list" where
  "split_char c [] = [[]]"
| "split_char c (x # xs) = (if x = c then [] # split_char c xs
     else case split_char c xs of [] \<Rightarrow> [[x]] | w # ws \<Rightarrow> (x # w) # ws)"

definition site_id_from_subject :: "string \<Rightarrow> string option" where
  "site_id_from_subject subject =
     (let parts = split_char (CHR ''.'') subject
      in if length parts < 4 \<or> parts ! 0 \<noteq> ''k1s'' \<or> parts ! 1 \<noteq> ''v1'' \<or> parts ! 2 \<noteq> ''site'' then None
         else Some (parts ! 3))"

definition scoped_node_id :: "string \<Rightarrow> string \<Rightarrow> string" where
  "scoped_node_id site_id node_id =
     (let site = strip site_id; node = strip node_id; prefix = site @ ''--''
      in if site = [] \<or> take (length prefix) node = prefix then node else prefix @ node)"

definition field_str :: "dict \<Rightarrow> string \<Rightarrow> string" where
  "field_str d k = py_str (py_or (dict_get d k) (JStr []))"

section \<open>Leadership\<close>

definition adopt_epoch :: "AuthoritySnapshot \<Rightarrow> HubIngress \<Rightarrow> HubIngress" where
  "adopt_epoch sn s = (if snapshot_epoch sn \<noteq> 0 then s\<lparr>hb_epoch := snapshot_epoch sn\<rparr> else s)"

definition hub_is_leader :: "hub_env \<Rightarrow> HubIngress \<Rightarrow> bool \<times> HubIngress" where
  "hub_is_leader env s = (case he_authority env of
     None \<Rightarrow> (True, s)
   | Some sn \<Rightarrow> (sn_is_leader sn, adopt_epoch sn s))"

definition leader_hint :: "hub_env \<Rightarrow> dict" where
  "leader_hint env = (case he_authority env of
     None \<Rightarrow> []
   | Some sn \<Rightarrow> (case sn_leader_info sn of
       None \<Rightarrow> []
     | Some l \<Rightarrow> [(''controller_id'', JStr (li_controller_id l)), (''controller_epoch'', JInt (li_controller_epoch l))] @
         (if truthy (li_advertise_addr l) then [(''advertise_addr'', li_advertise_addr l)] else [])))"

definition hub_mutation_identity :: "hub_env \<Rightarrow> HubIngress \<Rightarrow> ControllerMutationIdentity" where
  "hub_mutation_identity env s = resolve_controller_identity (map_option snapshot_view (he_authority env)) None
     (Some (hb_epoch s)) (he_env_id env) (he_env_epoch env) (he_hostname env)"

definition reply_not_leader :: "hub_env \<Rightarrow> NatsMessage \<Rightarrow> HubIngress \<Rightarrow> HubIngress" where
  "reply_not_leader env msg s = hub_reply msg
     (dict_update [(''accepted'', JBool False), (''reason'', JStr ''not_leader''), (''controller_epoch'', JInt (hb_epoch s))]
       (leader_hint env)) s"

definition mutating_subjects :: "string list" where
  "mutating_subjects = [''k1s.v1.site.*.lease.acquire'', ''k1s.v1.site.*.lease.renew'', ''k1s.v1.site.*.work.pull'',
     ''k1s.v1.site.*.work.ack'', ''k1s.v1.site.*.result'']"

fun subscribe_all :: "hub_env \<Rightarrow> nat \<Rightarrow> string list \<Rightarrow> (HubIngress, unit) eff" where
  "subscribe_all env i [] s = (Inr (), s)"
| "subscribe_all env i (x # xs) s = (case he_subscribe env i of
     Some e \<Rightarrow> (Inl e, s)
   | None \<Rightarrow> subscribe_all env (i + 1) xs (hub_act (Subscribe x) (s\<lparr>hb_subs := hb_subs s @ [x]\<rparr>)))"

definition unsubscribe_mutating :: "HubIngress \<Rightarrow> HubIngress" where
  "unsubscribe_mutating s = (fold (\<lambda>x. hub_act (Unsubscribe x)) (hb_subs s) s)\<lparr>hb_subs := []\<rparr>"

definition sync_authority :: "hub_env \<Rightarrow> (HubIngress, unit) eff" where
  "sync_authority env s = (case he_authority env of
     None \<Rightarrow> if hb_subs s = [] then subscribe_all env 0 mutating_subjects s else (Inr (), s)
   | Some sn \<Rightarrow>
       let s1 = adopt_epoch sn s
       in if sn_is_leader sn then (if hb_subs s1 = [] then subscribe_all env 0 mutating_subjects s1 else (Inr (), s1))
          else (Inr (), if hb_subs s1 \<noteq> [] then unsubscribe_mutating s1 else s1))"

text \<open>Start-up, with whether the connection was made, one turn of the watching thread, and shut-down.\<close>

definition hub_start :: "bool \<Rightarrow> hub_env \<Rightarrow> (HubIngress, unit) eff" where
  "hub_start connected env s = (if connected then sync_authority env s else (Inr (), s))"

definition watch_authority :: "hub_env \<Rightarrow> HubIngress \<Rightarrow> HubIngress" where
  "watch_authority env s = snd (sync_authority env s)"

definition hub_close :: "HubIngress \<Rightarrow> HubIngress" where
  "hub_close s = unsubscribe_mutating s"

section \<open>Leases of nodes\<close>

definition lease_response ::
  "ControllerMutationIdentity \<Rightarrow> bool \<Rightarrow> string option \<Rightarrow> string option \<Rightarrow> int \<Rightarrow> int \<Rightarrow> string option \<Rightarrow> dict" where
  "lease_response i accepted operation_id lease_id ttl renew reason =
     [(''accepted'', JBool accepted), (''controller_id'', JStr (cmi_controller_id i)),
      (''controller_epoch'', JInt (cmi_controller_epoch i)), (''operation_id'', json_opt_str operation_id),
      (''lease_id'', json_opt_str lease_id), (''lease_ttl_ms'', JInt ttl), (''renew_after_ms'', JInt renew),
      (''reason'', json_opt_str reason)]"

definition refuse_lease ::
  "hub_env \<Rightarrow> HubConfig \<Rightarrow> NatsMessage \<Rightarrow> string option \<Rightarrow> string option \<Rightarrow> string \<Rightarrow> (HubIngress, unit) eff" where
  "refuse_lease env cfg msg operation_id lease_id reason s =
     (Inr (), hub_reply msg (lease_response (hub_mutation_identity env s) False operation_id lease_id
        (hc_lease_ttl_ms cfg) (hc_renew_after_ms cfg) (Some reason)) s)"

definition grant_lease :: "hub_env \<Rightarrow> NatsMessage \<Rightarrow> string \<Rightarrow> NodeLease \<Rightarrow> HubIngress \<Rightarrow> HubIngress" where
  "grant_lease env msg operation_id lease s =
     hub_reply msg (lease_response (hub_mutation_identity env s) True (Some operation_id) (Some (nl_lease_id lease))
        (nl_lease_ttl_ms lease) (nl_renew_after_ms lease) None) s"

definition lease_labels :: "dict \<Rightarrow> string \<Rightarrow> dict" where
  "lease_labels d site_id = dict_setdefault ''site'' (JStr site_id)
     (case py_or (dict_get d ''labels'') (JObj []) of JObj kvs \<Rightarrow> map (\<lambda>(k, v). (k, JStr (py_str v))) kvs | _ \<Rightarrow> [])"

definition leased_node :: "string \<Rightarrow> string \<Rightarrow> dict \<Rightarrow> string \<Rightarrow> NodeRecord" where
  "leased_node node_key node_id labels backend = \<lparr>nd_node_id = node_key, nd_name = Some node_id, nd_labels = labels,
     nd_capabilities = JObj [], nd_taints = [], nd_backend = Some backend, nd_endpoint = None, nd_pod_cidr = None,
     nd_wg_pubkey = None, nd_rp_pubkey = None, nd_cordoned = False, nd_created_at = 0, nd_updated_at = 0\<rparr>"

text \<open>The body of the \<^verbatim>\<open>try\<close>: each of the three store calls may raise.\<close>

definition acquire_in_store ::
  "hub_env \<Rightarrow> HubConfig \<Rightarrow> dict \<Rightarrow> string \<Rightarrow> string \<Rightarrow> string \<Rightarrow> (HubIngress, NodeLease) eff" where
  "acquire_in_store env cfg d site_id node_id session_id s =
     (let node_key = scoped_node_id site_id node_id;
          session = (if session_id = [] then show_int (he_now env div 1000000) else session_id);
          (lease, w) = acquire_lease (he_now env) (he_uuid env 0) site_id node_key session (hc_lease_ttl_ms cfg)
             (hc_renew_after_ms cfg) (hb_epoch s) (hb_work s);
          backend = py_str (py_or (dict_get d ''backend'') (JStr ''nats''))
      in case he_store env 0 of
           Some e \<Rightarrow> (Inl e, s)
         | None \<Rightarrow> (case he_store env 1 of
             Some e \<Rightarrow> (Inl e, s\<lparr>hb_work := w\<rparr>)
           | None \<Rightarrow>
               let ns = upsert_node (he_norm env) (he_now env) (leased_node node_key node_id (lease_labels d site_id) backend) None (hb_nodes s)
               in (case he_store env 2 of
                     Some e \<Rightarrow> (Inl e, s\<lparr>hb_work := w, hb_nodes := ns\<rparr>)
                   | None \<Rightarrow> (Inr lease, s\<lparr>hb_work := w, hb_nodes := record_heartbeat (he_now env) node_key ''Ready'' ns\<rparr>))))"

definition ensure_js_consumer :: "HubConfig \<Rightarrow> string \<Rightarrow> HubIngress \<Rightarrow> HubIngress" where
  "ensure_js_consumer cfg site_id s =
     (if \<not> hc_js_provision cfg \<or> site_id = [] \<or> site_id \<in> set (hb_js_sites s) \<or> site_id \<in> set (hb_js_provisioning s) then s
      else hub_act (ProvisionSite site_id) (s\<lparr>hb_js_provisioning := hb_js_provisioning s @ [site_id]\<rparr>))"

text \<open>The thread started above, with whether the stream and the consumer could be ensured.\<close>

definition provision_site :: "bool \<Rightarrow> bool \<Rightarrow> string \<Rightarrow> HubIngress \<Rightarrow> HubIngress" where
  "provision_site stream_ok consumer_ok site_id s =
     (let ready = (hb_js_stream_ready s \<or> stream_ok)
      in s\<lparr>hb_js_stream_ready := ready,
           hb_js_sites := (if ready \<and> consumer_ok then List.insert site_id (hb_js_sites s) else hb_js_sites s),
           hb_js_provisioning := filter (\<lambda>x. x \<noteq> site_id) (hb_js_provisioning s)\<rparr>)"

definition ensure_core_proxy_port :: "hub_env \<Rightarrow> HubConfig \<Rightarrow> string \<Rightarrow> HubIngress \<Rightarrow> HubIngress" where
  "ensure_core_proxy_port env cfg site_id s =
     (if \<not> hc_core_proxy_enabled cfg then s
      else case ensure_site_ingress_port (he_now env) site_id (hc_core_proxy_port_min cfg) (hc_core_proxy_port_max cfg)
                  ''core-proxy'' (hb_sites s) of
        (Inl e, t) \<Rightarrow> s\<lparr>hb_sites := t\<rparr>
      | (Inr _, t) \<Rightarrow> (if hc_edge_renderer cfg then hub_act RenderEdge (s\<lparr>hb_sites := t\<rparr>) else s\<lparr>hb_sites := t\<rparr>))"

definition subject_site :: "NatsMessage \<Rightarrow> dict \<Rightarrow> string" where
  "subject_site msg d = (case nonempty (site_id_from_subject (nm_subject msg)) of
     Some x \<Rightarrow> x | None \<Rightarrow> field_str d ''site_id'')"

definition on_lease_acquire :: "hub_env \<Rightarrow> HubConfig \<Rightarrow> NatsMessage \<Rightarrow> (HubIngress, unit) eff" where
  "on_lease_acquire env cfg msg s0 = (case hub_is_leader env s0 of
     (False, s) \<Rightarrow> (Inr (), reply_not_leader env msg s)
   | (True, s) \<Rightarrow> (case as_dict (hub_safe_json msg) of
       None \<Rightarrow> (Inl AttributeError, s)
     | Some d \<Rightarrow>
         let request_id = lease_operation (strip (field_str d ''request_id'')); site_id = subject_site msg d;
             node_id = strip (field_str d ''node_id''); session_id = strip (field_str d ''session_id'')
         in if request_id = [] then refuse_lease env cfg msg None None ''request_id required'' s
            else if site_id = [] \<or> node_id = [] then refuse_lease env cfg msg (Some request_id) None ''site_id or node_id missing'' s
            else if truthy (dict_get d ''site_id'') \<and> py_str (dict_get d ''site_id'') \<noteq> site_id
            then refuse_lease env cfg msg (Some request_id) None ''site_id mismatch'' s
            else (case acquire_in_store env cfg d site_id node_id session_id s of
                (Inl e, s1) \<Rightarrow> refuse_lease env cfg msg (Some request_id) None (he_str env e) s1
              | (Inr lease, s1) \<Rightarrow>
                  (Inr (), grant_lease env msg request_id lease
                     (ensure_core_proxy_port env cfg site_id (ensure_js_consumer cfg site_id s1))))))"

definition renew_reason :: "renew_error \<Rightarrow> string" where
  "renew_reason e = (case e of UnknownLease \<Rightarrow> ''unknown_lease'' | InvalidSession \<Rightarrow> ''invalid_session'' | Expired \<Rightarrow> ''expired'')"

definition on_lease_renew :: "hub_env \<Rightarrow> HubConfig \<Rightarrow> NatsMessage \<Rightarrow> (HubIngress, unit) eff" where
  "on_lease_renew env cfg msg s0 = (case hub_is_leader env s0 of
     (False, s) \<Rightarrow> (Inr (), reply_not_leader env msg s)
   | (True, s) \<Rightarrow> (case as_dict (hub_safe_json msg) of
       None \<Rightarrow> (Inl AttributeError, s)
     | Some d \<Rightarrow>
         let request_id = lease_operation (strip (field_str d ''request_id'')); site_id = subject_site msg d;
             node_id = strip (field_str d ''node_id''); lease_id = strip (field_str d ''lease_id'')
         in if request_id = [] then refuse_lease env cfg msg None None ''request_id required'' s
            else if site_id = [] \<or> node_id = [] then refuse_lease env cfg msg (Some request_id) None ''site_id or node_id missing'' s
            else if lease_id = [] then refuse_lease env cfg msg (Some request_id) None ''lease_id required'' s
            else let node_key = scoped_node_id site_id node_id
                 in (case renew_lease (he_now env) node_key (field_str d ''session_id'') lease_id (hb_work s) of
                       (Inl e, w) \<Rightarrow> refuse_lease env cfg msg (Some request_id) (Some lease_id) (renew_reason e) (s\<lparr>hb_work := w\<rparr>)
                     | (Inr lease, w) \<Rightarrow>
                         let s1 = s\<lparr>hb_work := w, hb_nodes := (case he_store env 2 of
                               Some _ \<Rightarrow> hb_nodes s | None \<Rightarrow> record_heartbeat (he_now env) node_key ''Ready'' (hb_nodes s))\<rparr>
                         in (Inr (), grant_lease env msg request_id lease (ensure_js_consumer cfg site_id s1)))))"

section \<open>Results\<close>

definition result_matches_ledger :: "WorkLedgerEntry option \<Rightarrow> int \<Rightarrow> MutationEnvelope option \<Rightarrow> bool" where
  "result_matches_ledger ledger att envl = (case (ledger, envl) of
     (Some l, Some e) \<Rightarrow> le_attempt l = att \<and>
        (case le_controller_id l of None \<Rightarrow> [] | Some c \<Rightarrow> c) = me_controller_id e \<and>
        (case le_controller_epoch l of None \<Rightarrow> 0 | Some n \<Rightarrow> n) = me_controller_epoch e \<and>
        (case le_operation_id l of None \<Rightarrow> [] | Some x \<Rightarrow> x) = me_operation_id e
   | _ \<Rightarrow> False)"

text \<open>The ledger state a status stands for, and whether it ends the work.\<close>

definition result_state :: "json \<Rightarrow> (string \<times> bool) option" where
  "result_state status =
     (let st = lower (py_str (py_or status (JStr [])))
      in if st = ''running'' then Some (''Running'', False)
         else if st \<in> {''succeeded'', ''success'', ''completed''} then Some (''Succeeded'', True)
         else if st \<in> {''failed'', ''error''} then Some (''Failed'', True)
         else None)"

definition result_node :: "json \<Rightarrow> json \<Rightarrow> string option" where
  "result_node site node_id =
     (if truthy site \<and> truthy node_id then Some (scoped_node_id (py_str site) (py_str node_id))
      else if truthy node_id then Some (py_str node_id) else None)"

definition json_site :: "NatsMessage \<Rightarrow> dict \<Rightarrow> json" where
  "json_site msg d = (case nonempty (site_id_from_subject (nm_subject msg)) of Some x \<Rightarrow> JStr x | None \<Rightarrow> dict_get d ''site_id'')"

text \<open>The attempt and the observed generation a result reports; both must be numbers for it to be applied.\<close>

definition result_attempt :: "dict \<Rightarrow> int result" where
  "result_attempt d = py_int_raise (py_or (dict_get d ''attempt'') (JInt 0))"

definition result_generation :: "dict \<Rightarrow> int option result" where
  "result_generation d = (if dict_get d ''observed_generation'' = JNull then Inr None
     else rbind (py_int_raise (dict_get d ''observed_generation'')) (\<lambda>g. Inr (Some g)))"

text \<open>The body of the \<^verbatim>\<open>try\<close>; every exception is swallowed.\<close>

definition apply_result :: "hub_env \<Rightarrow> NatsMessage \<Rightarrow> dict \<Rightarrow> (HubIngress, unit) eff" where
  "apply_result env msg d s = (case result_attempt d of
     Inl e \<Rightarrow> (Inl e, s)
   | Inr att \<Rightarrow>
       let work_id = py_str (dict_get d ''work_id'')
       in if att = 0 then (Inr (), s)
          else (case get_work_ledger work_id (hb_work s) of
              Inl e \<Rightarrow> (Inl e, s)
            | Inr ledger \<Rightarrow>
                if \<not> result_matches_ledger ledger att (parse_envelope (JObj d))
                then (Inr (), hub_act (FenceEvent ''controller_ingress.result'' 1) s)
                else (case result_state (dict_get d ''status'') of
                    None \<Rightarrow> (Inr (), s)
                  | Some (state, finished) \<Rightarrow>
                      (case result_generation d of
                         Inl e \<Rightarrow> (Inl e, s)
                       | Inr gen \<Rightarrow>
                           let w = snd (update_work_state (he_now env) work_id att state
                                 (result_node (json_site msg d) (dict_get d ''node_id'')) gen (Some d) (hb_work s))
                           in (Inr (), s\<lparr>hb_work := (if finished then mark_work_done (he_now env) work_id att w else w)\<rparr>)))))"

definition on_result :: "hub_env \<Rightarrow> NatsMessage \<Rightarrow> (HubIngress, unit) eff" where
  "on_result env msg s0 = (case hub_is_leader env s0 of
     (False, s) \<Rightarrow> (Inr (), s)
   | (True, s) \<Rightarrow> (case as_dict (hub_safe_json msg) of
       None \<Rightarrow> (Inl AttributeError, s)
     | Some d \<Rightarrow> (Inr (), if truthy (dict_get d ''work_id'') then snd (apply_result env msg d s) else s)))"

section \<open>Pulled and acknowledged work\<close>

definition int_or :: "json \<Rightarrow> int \<Rightarrow> int \<Rightarrow> int" where
  "int_or v dflt fallback = (case py_int_raise (py_or v (JInt dflt)) of Inl _ \<Rightarrow> fallback | Inr i \<Rightarrow> i)"

text \<open>A site taken from the payload is bound as a parameter of the query.\<close>

fun bound_site :: "json \<Rightarrow> string result" where
  "bound_site (JStr x) = Inr x"
| "bound_site (JInt i) = Inr (show_int i)"
| "bound_site (JBool b) = Inr (if b then ''1'' else ''0'')"
| "bound_site _ = Inl InterfaceError"

definition pull_for_site :: "hub_env \<Rightarrow> HubConfig \<Rightarrow> json \<Rightarrow> int \<Rightarrow> int \<Rightarrow> WorkStore \<Rightarrow> WorkQueueLease list result \<times> WorkStore" where
  "pull_for_site env cfg site limit visibility w = (case bound_site site of
     Inl e \<Rightarrow> (Inl e, w)
   | Inr x \<Rightarrow> pull_work (hc_backend cfg) (he_now env) (he_uuid env) x limit visibility w)"

definition answer_pull :: "hub_env \<Rightarrow> HubConfig \<Rightarrow> NatsMessage \<Rightarrow> json \<Rightarrow> int \<Rightarrow> int \<Rightarrow> HubIngress \<Rightarrow> HubIngress" where
  "answer_pull env cfg msg site limit visibility s =
     (if nonempty (nm_reply msg) = None then s
      else if \<not> truthy site then hub_reply msg [(''accepted'', JBool False), (''reason'', JStr ''site_id required'')] s
      else case pull_for_site env cfg site limit visibility (hb_work s) of
          (Inl e, w) \<Rightarrow> hub_reply msg [(''accepted'', JBool False), (''reason'', JStr (he_str env e))] (s\<lparr>hb_work := w\<rparr>)
        | (Inr leases, w) \<Rightarrow> hub_reply msg
            [(''accepted'', JBool True), (''work'', JArr (map wl_payload leases)),
             (''lease_ids'', JArr (map (JStr \<circ> wl_lease_id) leases)), (''visibility_timeout_ms'', JInt visibility),
             (''reason'', JNull)] (s\<lparr>hb_work := w\<rparr>))"

text \<open>A payload that is not a dictionary raises only where the subject names no site.\<close>

definition on_work_pull :: "hub_env \<Rightarrow> HubConfig \<Rightarrow> NatsMessage \<Rightarrow> (HubIngress, unit) eff" where
  "on_work_pull env cfg msg s0 = (case hub_is_leader env s0 of
     (False, s) \<Rightarrow> (Inr (), reply_not_leader env msg s)
   | (True, s) \<Rightarrow> (case as_dict (hub_safe_json msg) of
       None \<Rightarrow> (case nonempty (site_id_from_subject (nm_subject msg)) of
           None \<Rightarrow> (Inl AttributeError, s)
         | Some x \<Rightarrow> (Inr (), answer_pull env cfg msg (JStr x) 1 (hc_lease_ttl_ms cfg) s))
     | Some d \<Rightarrow> (Inr (), answer_pull env cfg msg (json_site msg d) (int_or (dict_get d ''limit'') 1 1)
         (int_or (dict_get d ''visibility_timeout_ms'') (hc_lease_ttl_ms cfg) (hc_lease_ttl_ms cfg)) s)))"

definition dict_items :: "json list \<Rightarrow> json list" where
  "dict_items xs = filter (\<lambda>x. as_dict x \<noteq> None) xs"

text \<open>The body of the \<^verbatim>\<open>try\<close>: how many rows were acknowledged, and how many items were stale.\<close>

definition ack_in_store :: "time \<Rightarrow> json \<Rightarrow> json \<Rightarrow> WorkStore \<Rightarrow> (int \<times> int) result \<times> WorkStore" where
  "ack_in_store now ack_items lease_ids w =
     (if truthy ack_items
      then (case py_iter ack_items of
          Inl e \<Rightarrow> (Inl e, w)
        | Inr xs \<Rightarrow> (case ack_work_items now (dict_items xs) w of
            (Inl e, w1) \<Rightarrow> (Inl e, w1)
          | (Inr n, w1) \<Rightarrow> (Inr (n, max 0 (int (length (dict_items xs)) - n)), w1)))
      else (case py_iter lease_ids of
          Inl e \<Rightarrow> (Inl e, w)
        | Inr xs \<Rightarrow> (case ack_work now (map py_str (filter truthy xs)) w of (n, w1) \<Rightarrow> (Inr (n, 0), w1))))"

definition on_work_ack :: "hub_env \<Rightarrow> NatsMessage \<Rightarrow> (HubIngress, unit) eff" where
  "on_work_ack env msg s0 = (case hub_is_leader env s0 of
     (False, s) \<Rightarrow> (Inr (), reply_not_leader env msg s)
   | (True, s) \<Rightarrow> (case as_dict (hub_safe_json msg) of
       None \<Rightarrow> (Inl AttributeError, s)
     | Some d \<Rightarrow>
         (case ack_in_store (he_now env) (py_or (dict_get d ''ack_items'') (JArr [])) (py_or (dict_get d ''lease_ids'') (JArr [])) (hb_work s) of
            (Inl e, w) \<Rightarrow> (Inr (), hub_reply msg [(''accepted'', JBool True), (''reason'', JNull), (''acked'', JInt 0)] (s\<lparr>hb_work := w\<rparr>))
          | (Inr (n, stale), w) \<Rightarrow>
              let s1 = s\<lparr>hb_work := w\<rparr>; s2 = (if stale \<noteq> 0 then hub_act (FenceEvent ''controller_ingress.work_ack'' stale) s1 else s1)
              in (Inr (), hub_reply msg [(''accepted'', JBool True), (''reason'', JNull), (''acked'', JInt n)] s2))))"

text \<open>Messages by the subject they were subscribed with.\<close>

datatype hub_request = LeaseAcquire | LeaseRenew | WorkPull | WorkAck | WorkResult

fun hub_handle :: "hub_env \<Rightarrow> HubConfig \<Rightarrow> hub_request \<Rightarrow> NatsMessage \<Rightarrow> (HubIngress, unit) eff" where
  "hub_handle env cfg LeaseAcquire msg s = on_lease_acquire env cfg msg s"
| "hub_handle env cfg LeaseRenew msg s = on_lease_renew env cfg msg s"
| "hub_handle env cfg WorkPull msg s = on_work_pull env cfg msg s"
| "hub_handle env cfg WorkAck msg s = on_work_ack env msg s"
| "hub_handle env cfg WorkResult msg s = on_result env msg s"

section \<open>What each handler touches\<close>

lemma hub_act_simps [simp]:
  "hb_work (hub_act a s) = hb_work s" "hb_nodes (hub_act a s) = hb_nodes s" "hb_sites (hub_act a s) = hb_sites s"
  "hb_epoch (hub_act a s) = hb_epoch s" "hb_subs (hub_act a s) = hb_subs s" "hb_log (hub_act a s) = hb_log s @ [a]"
  by (simp_all add: hub_act_def)

lemma hub_reply_simps [simp]:
  "hb_work (hub_reply m p s) = hb_work s" "hb_nodes (hub_reply m p s) = hb_nodes s" "hb_sites (hub_reply m p s) = hb_sites s"
  "hb_epoch (hub_reply m p s) = hb_epoch s" "hb_subs (hub_reply m p s) = hb_subs s"
  by (simp_all add: hub_reply_def split: option.splits)

lemma adopt_epoch_simps [simp]:
  "hb_work (adopt_epoch sn s) = hb_work s" "hb_nodes (adopt_epoch sn s) = hb_nodes s"
  "hb_sites (adopt_epoch sn s) = hb_sites s" "hb_subs (adopt_epoch sn s) = hb_subs s" "hb_log (adopt_epoch sn s) = hb_log s"
  by (simp_all add: adopt_epoch_def)

lemma hub_is_leader_keeps:
  assumes "hub_is_leader env s = (b, s')"
  shows "hb_work s' = hb_work s" "hb_nodes s' = hb_nodes s" "hb_sites s' = hb_sites s" "hb_subs s' = hb_subs s" "hb_log s' = hb_log s"
  using assms by (auto simp: hub_is_leader_def split: option.splits)

lemma ensure_js_consumer_simps [simp]:
  "hb_work (ensure_js_consumer cfg x s) = hb_work s" "hb_nodes (ensure_js_consumer cfg x s) = hb_nodes s"
  "hb_sites (ensure_js_consumer cfg x s) = hb_sites s" "hb_epoch (ensure_js_consumer cfg x s) = hb_epoch s"
  by (simp_all add: ensure_js_consumer_def)

lemma ensure_core_proxy_port_simps [simp]:
  "hb_work (ensure_core_proxy_port env cfg x s) = hb_work s" "hb_nodes (ensure_core_proxy_port env cfg x s) = hb_nodes s"
  "hb_epoch (ensure_core_proxy_port env cfg x s) = hb_epoch s"
  by (auto simp: ensure_core_proxy_port_def split: prod.splits sum.splits)

lemma lease_replies_keep [simp]:
  "hb_work (grant_lease env msg op l s) = hb_work s" "hb_work (snd (refuse_lease env cfg msg oid lid r s)) = hb_work s"
  by (simp_all add: grant_lease_def refuse_lease_def)

lemma mark_work_done_leases [simp]: "node_leases (mark_work_done now w a ws) = node_leases ws"
  by (simp add: mark_work_done_def)

lemma ack_work_leases [simp]: "node_leases (snd (ack_work now ids ws)) = node_leases ws"
  by (induction ids arbitrary: ws) (simp_all add: Let_def case_prod_unfold)

lemma ack_work_item_leases: "ack_work_item now i ws = Inr (n, ws') \<Longrightarrow> node_leases ws' = node_leases ws"
  by (auto simp: ack_work_item_def Let_def rbind_def split: option.splits if_splits sum.splits)

lemma ack_items_loop_leases: "ack_items_loop now is ws = Inr (n, ws') \<Longrightarrow> node_leases ws' = node_leases ws"
  by (induction "is" arbitrary: ws n) (auto simp: rbind_def split: sum.splits dest!: ack_work_item_leases)

lemma ack_work_items_leases [simp]: "node_leases (snd (ack_work_items now is ws)) = node_leases ws"
  by (auto simp: ack_work_items_def split: sum.splits dest: ack_items_loop_leases)

lemma pull_rows_leases: "node_leases (snd (pull_rows be now ex site rows us ws)) = node_leases ws"
  by (induction be now ex site rows us ws rule: pull_rows.induct)
    (auto simp: Let_def pull_take_def pull_dispatched_def split: sum.splits prod.splits store_backend.splits)

lemma pull_work_leases [simp]: "node_leases (snd (pull_work be now us site limit vis ws)) = node_leases ws"
proof -
  define ws1 where "ws1 = ws\<lparr>work_queue := update_where (lease_lapsed now) (wq_release now) (work_queue ws)\<rparr>"
  obtain r ws2 where run: "pull_rows be now (now + max 0 vis * 1000) site (pull_select site limit (work_queue ws1)) us ws1 = (r, ws2)"
    by (metis surj_pair)
  have "node_leases ws2 = node_leases ws1"
    using pull_rows_leases [of be now "now + max 0 vis * 1000" site "pull_select site limit (work_queue ws1)" us ws1]
    unfolding run by simp
  then show ?thesis
    unfolding pull_work_def Let_def ws1_def [symmetric] run by (simp add: ws1_def split: sum.splits)
qed

lemmas leases_of_run = arg_cong [where f = "\<lambda>x. node_leases (snd x)"]

lemma pull_for_site_leases: "pull_for_site env cfg site limit vis ws = (r, ws') \<Longrightarrow> node_leases ws' = node_leases ws"
  by (auto simp: pull_for_site_def split: sum.splits dest: leases_of_run)

lemma ack_in_store_leases: "ack_in_store now items ids ws = (r, ws') \<Longrightarrow> node_leases ws' = node_leases ws"
  by (auto simp: ack_in_store_def split: if_splits sum.splits prod.splits dest: leases_of_run)

text \<open>
  Only the leader serves a site: while the authority says that another controller leads, no message makes the ingress
  change the work tables, the nodes or the site ports, whatever it asks; every request is answered with
  \<^verbatim>\<open>not_leader\<close>, a result is dropped, and nothing raises.
\<close>

theorem hub_follower_inert:
  assumes "he_authority env = Some sn" and "\<not> sn_is_leader sn"
  shows "\<exists>s'. hub_handle env cfg rq msg s = (Inr (), s') \<and> hb_work s' = hb_work s \<and> hb_nodes s' = hb_nodes s \<and>
    hb_sites s' = hb_sites s \<and> hb_subs s' = hb_subs s \<and>
    hb_log s' = hb_log s @ (case (rq, nonempty (nm_reply msg)) of (WorkResult, _) \<Rightarrow> [] | (_, None) \<Rightarrow> []
      | (_, Some r) \<Rightarrow> [Reply r (dict_update [(''accepted'', JBool False), (''reason'', JStr ''not_leader''),
          (''controller_epoch'', JInt (hb_epoch s'))] (leader_hint env))])"
  using assms by (cases rq) (auto simp: on_lease_acquire_def on_lease_renew_def on_work_pull_def on_work_ack_def on_result_def
      hub_is_leader_def reply_not_leader_def hub_reply_def split: option.splits)

section \<open>Leases over the protocol\<close>

text \<open>The node a lease message is about, a message that asks for one properly, and a run of messages.\<close>

definition lease_key :: "NatsMessage \<Rightarrow> string option" where
  "lease_key msg = map_option (\<lambda>d. scoped_node_id (subject_site msg d) (strip (field_str d ''node_id''))) (as_dict (hub_safe_json msg))"

definition lease_asked :: "NatsMessage \<Rightarrow> dict \<Rightarrow> string \<Rightarrow> string \<Rightarrow> bool" where
  "lease_asked msg d site node \<longleftrightarrow> as_dict (hub_safe_json msg) = Some d \<and>
     lease_operation (strip (field_str d ''request_id'')) \<noteq> [] \<and> subject_site msg d = site \<and> site \<noteq> [] \<and>
     strip (field_str d ''node_id'') = node \<and> node \<noteq> [] \<and>
     (\<not> truthy (dict_get d ''site_id'') \<or> py_str (dict_get d ''site_id'') = site)"

definition hub_run :: "HubConfig \<Rightarrow> (hub_env \<times> hub_request \<times> NatsMessage) list \<Rightarrow> HubIngress \<Rightarrow> HubIngress" where
  "hub_run cfg = fold (\<lambda>(env, rq, msg) s. snd (hub_handle env cfg rq msg s))"

abbreviation lease_of :: "string \<Rightarrow> HubIngress \<Rightarrow> NodeLease option" where
  "lease_of key s \<equiv> find (\<lambda>x. nl_node_id x = key) (node_leases (hb_work s))"

lemma acquire_in_store_work:
  assumes "acquire_in_store env cfg d site node sess s = (r, s1)"
  shows "hb_work s1 = hb_work s \<or> (\<exists>t u se ttl ra ep. hb_work s1 =
    run_lease_op (LAcquire t u site (scoped_node_id site node) se ttl ra ep) (hb_work s))"
proof -
  define se where "se = (if sess = [] then show_int (he_now env div 1000000) else sess)"
  have "hb_work s1 = hb_work s \<or> hb_work s1 = run_lease_op (LAcquire (he_now env) (he_uuid env 0) site (scoped_node_id site node)
      se (hc_lease_ttl_ms cfg) (hc_renew_after_ms cfg) (hb_epoch s)) (hb_work s)"
    using assms unfolding acquire_in_store_def Let_def se_def [symmetric]
    by (auto split: option.splits prod.splits)
  then show ?thesis by blast
qed

lemma on_lease_acquire_keeps:
  assumes "lease_of (nl_node_id l) s = Some l" and "lease_key msg \<noteq> Some (nl_node_id l)"
  shows "lease_of (nl_node_id l) (snd (on_lease_acquire env cfg msg s)) = Some l"
proof -
  obtain b s1 where led: "hub_is_leader env s = (b, s1)" by (metis surj_pair)
  then have w: "hb_work s1 = hb_work s" by (rule hub_is_leader_keeps)
  show ?thesis
  proof (cases "b \<and> as_dict (hub_safe_json msg) \<noteq> None")
    case False
    with led w assms(1) show ?thesis
      by (cases b) (auto simp: on_lease_acquire_def reply_not_leader_def)
  next
    case True
    then obtain d where d: "as_dict (hub_safe_json msg) = Some d" and b by auto
    obtain r s2 where run: "acquire_in_store env cfg d (subject_site msg d) (strip (field_str d ''node_id''))
        (strip (field_str d ''session_id'')) s1 = (r, s2)" by (metis surj_pair)
    have key: "scoped_node_id (subject_site msg d) (strip (field_str d ''node_id'')) \<noteq> nl_node_id l"
      using assms(2) d by (simp add: lease_key_def)
    have "lease_of (nl_node_id l) s2 = Some l"
      using acquire_in_store_work [OF run] assms(1) w key
        lease_op_keeps [of l "hb_work s" "LAcquire t u (subject_site msg d) n se ttl ra ep" for t u n se ttl ra ep]
      by (auto simp del: run_lease_op.simps)
    with assms(1) led w d \<open>b\<close> run show ?thesis
      by (auto simp: on_lease_acquire_def Let_def split: sum.splits)
  qed
qed

lemma on_lease_renew_keeps:
  assumes "lease_of (nl_node_id l) s = Some l" and "lease_key msg \<noteq> Some (nl_node_id l)"
  shows "lease_of (nl_node_id l) (snd (on_lease_renew env cfg msg s)) = Some l"
proof -
  obtain b s1 where led: "hub_is_leader env s = (b, s1)" by (metis surj_pair)
  then have w: "hb_work s1 = hb_work s" by (rule hub_is_leader_keeps)
  show ?thesis
  proof (cases "b \<and> as_dict (hub_safe_json msg) \<noteq> None")
    case False
    with led w assms(1) show ?thesis
      by (cases b) (auto simp: on_lease_renew_def reply_not_leader_def)
  next
    case True
    then obtain d where d: "as_dict (hub_safe_json msg) = Some d" and b by auto
    define key where "key = scoped_node_id (subject_site msg d) (strip (field_str d ''node_id''))"
    define lid where "lid = strip (field_str d ''lease_id'')"
    obtain r ws where run: "renew_lease (he_now env) key (field_str d ''session_id'') lid (hb_work s) = (r, ws)"
      by (metis surj_pair)
    have "key \<noteq> nl_node_id l" using assms(2) d by (simp add: lease_key_def key_def)
    with lease_op_keeps [OF assms(1), of "LRenew (he_now env) key (field_str d ''session_id'') lid"] run
    have "find (\<lambda>x. nl_node_id x = nl_node_id l) (node_leases ws) = Some l" by simp
    with assms(1) led w d \<open>b\<close> run show ?thesis
      unfolding on_lease_renew_def key_def lid_def by (simp add: Let_def split: sum.splits)
  qed
qed

lemma work_messages_keep_leases:
  "node_leases (hb_work (snd (on_work_pull env cfg msg s))) = node_leases (hb_work s)"
  "node_leases (hb_work (snd (on_work_ack env msg s))) = node_leases (hb_work s)"
  "node_leases (hb_work (snd (on_result env msg s))) = node_leases (hb_work s)"
proof -
  obtain b s1 where led: "hub_is_leader env s = (b, s1)" by (metis surj_pair)
  then have w: "hb_work s1 = hb_work s" by (rule hub_is_leader_keeps)
  have pull: "node_leases (hb_work (answer_pull env cfg msg x n v s1)) = node_leases (hb_work s)" for x n v
    using w by (auto simp: answer_pull_def split: sum.splits prod.splits dest!: pull_for_site_leases)
  have res: "node_leases (hb_work (snd (apply_result env msg d s1))) = node_leases (hb_work s)" for d
    using w by (auto simp: apply_result_def Let_def split: sum.splits option.splits)
  show "node_leases (hb_work (snd (on_work_pull env cfg msg s))) = node_leases (hb_work s)"
    using led w pull by (cases b) (auto simp: on_work_pull_def reply_not_leader_def split: option.splits)
  show "node_leases (hb_work (snd (on_work_ack env msg s))) = node_leases (hb_work s)"
    using led w by (cases b) (auto simp: on_work_ack_def reply_not_leader_def Let_def
        split: option.splits sum.splits prod.splits dest!: ack_in_store_leases)
  show "node_leases (hb_work (snd (on_result env msg s))) = node_leases (hb_work s)"
    using led w res by (cases b) (auto simp: on_result_def split: option.splits)
qed

definition about_lease :: "string \<Rightarrow> hub_env \<times> hub_request \<times> NatsMessage \<Rightarrow> bool" where
  "about_lease key m = (case m of (env, rq, msg) \<Rightarrow> (rq = LeaseAcquire \<or> rq = LeaseRenew) \<and> lease_key msg = Some key)"

lemma hub_run_keeps_lease:
  assumes "lease_of (nl_node_id l) s = Some l" and "\<not> list_ex (about_lease (nl_node_id l)) ms"
  shows "lease_of (nl_node_id l) (hub_run cfg ms s) = Some l"
  using assms
proof (induction ms arbitrary: s)
  case Nil
  then show ?case by (simp add: hub_run_def)
next
  case (Cons m ms)
  obtain env rq msg where m: "m = (env, rq, msg)" by (metis surj_pair)
  have "lease_of (nl_node_id l) (snd (hub_handle env cfg rq msg s)) = Some l"
    using Cons.prems m by (cases rq)
      (simp_all add: on_lease_acquire_keeps on_lease_renew_keeps work_messages_keep_leases about_lease_def)
  with Cons m show ?case by (simp add: hub_run_def)
qed

lemma on_lease_acquire_granted:
  assumes "hub_is_leader env s = (True, s0)" and "lease_asked msg d site node" and "\<And>n. he_store env n = None"
    and "sess = strip (field_str d ''session_id'')" and "sess \<noteq> []" and "nm_reply msg = Some r" and "r \<noteq> []"
  shows "\<exists>l s1. on_lease_acquire env cfg msg s = (Inr (), s1) \<and> lease_of (nl_node_id l) s1 = Some l \<and>
    nl_node_id l = scoped_node_id site node \<and> nl_session_id l = sess \<and> nl_lease_id l = he_uuid env 0 \<and>
    nl_lease_ttl_ms l = hc_lease_ttl_ms cfg \<and> nl_renew_after_ms l = hc_renew_after_ms cfg \<and>
    nl_expires_at l = he_now env + hc_lease_ttl_ms cfg * 1000 \<and>
    last (hb_log s1) = Reply r (lease_response (hub_mutation_identity env s0) True
      (Some (lease_operation (strip (field_str d ''request_id'')))) (Some (he_uuid env 0)) (hc_lease_ttl_ms cfg)
      (hc_renew_after_ms cfg) None)"
proof -
  obtain l ws where acq: "acquire_lease (he_now env) (he_uuid env 0) site (scoped_node_id site node) sess
      (hc_lease_ttl_ms cfg) (hc_renew_after_ms cfg) (hb_epoch s0) (hb_work s0) = (l, ws)" by (metis surj_pair)
  then have l: "nl_node_id l = scoped_node_id site node" "nl_session_id l = sess" "nl_lease_id l = he_uuid env 0"
    "nl_lease_ttl_ms l = hc_lease_ttl_ms cfg" "nl_renew_after_ms l = hc_renew_after_ms cfg"
    "nl_expires_at l = he_now env + hc_lease_ttl_ms cfg * 1000"
    and found: "find (\<lambda>x. nl_node_id x = scoped_node_id site node) (node_leases ws) = Some l"
    by (auto simp: acquire_lease_def Let_def find_append find_None_iff split: option.splits dest!: find_key_Some)
  obtain s1 where st: "acquire_in_store env cfg d site node sess s0 = (Inr l, s1)" and w: "hb_work s1 = ws"
    and ep: "hb_epoch s1 = hb_epoch s0"
    using acq assms(3,5) by (simp add: acquire_in_store_def Let_def)
  have r: "hub_reply msg p x = hub_act (Reply r p) x" for p x
    using assms(6,7) by (cases r) (simp_all add: hub_reply_def nonempty_def)
  define s2 where "s2 = ensure_core_proxy_port env cfg site (ensure_js_consumer cfg site s1)"
  have s2: "hb_work s2 = ws" "hub_mutation_identity env s2 = hub_mutation_identity env s0"
    using w ep by (simp_all add: s2_def hub_mutation_identity_def)
  have "on_lease_acquire env cfg msg s =
      (Inr (), grant_lease env msg (lease_operation (strip (field_str d ''request_id''))) l s2)"
    using assms(1,2,4) st unfolding s2_def by (auto simp: on_lease_acquire_def lease_asked_def Let_def)
  with l found s2 show ?thesis
    by (intro exI [of _ l] exI) (auto simp: grant_lease_def r)
qed

text \<open>
  (C27) A lease granted over the protocol can be renewed over it. The reply to an accepted acquisition carries the lease id, and
  after any traffic in between that names no lease of the same scoped node, whatever other sites and sessions send and
  whichever work is pulled, acknowledged or reported, a renewal with that id and the session of the acquisition, before the
  term ends, is accepted, and the store holds the lease with a full term from then.
\<close>

theorem granted_lease_renews:
  assumes "hub_is_leader env s = (True, s0)" and "lease_asked msg d site node" and "\<And>n. he_store env n = None"
    and "sess = strip (field_str d ''session_id'')" and "sess \<noteq> []" and "nm_reply msg = Some r" and "r \<noteq> []"
    and "on_lease_acquire env cfg msg s = (Inr (), s1)"
    and "\<not> list_ex (about_lease (scoped_node_id site node)) ms" and "s2 = hub_run cfg ms s1"
    and "hub_is_leader env' s2 = (True, s3)" and "lease_asked msg' d' site' node'"
    and "scoped_node_id site' node' = scoped_node_id site node"
    and "field_str d' ''session_id'' = sess" and "strip (field_str d' ''lease_id'') = he_uuid env 0" and "he_uuid env 0 \<noteq> []"
    and "he_now env' < he_now env + hc_lease_ttl_ms cfg * 1000"
  shows "last (hb_log s1) = Reply r (lease_response (hub_mutation_identity env s0) True
      (Some (lease_operation (strip (field_str d ''request_id'')))) (Some (he_uuid env 0)) (hc_lease_ttl_ms cfg)
      (hc_renew_after_ms cfg) None) \<and>
    (\<exists>l s4. on_lease_renew env' cfg msg' s2 =
       (Inr (), grant_lease env' msg' (lease_operation (strip (field_str d' ''request_id''))) l s4) \<and>
       nl_lease_id l = he_uuid env 0 \<and> nl_session_id l = sess \<and>
       nl_expires_at l = he_now env' + hc_lease_ttl_ms cfg * 1000 \<and> lease_of (scoped_node_id site node) s4 = Some l)"
proof -
  obtain l where l: "lease_of (nl_node_id l) s1 = Some l" "nl_node_id l = scoped_node_id site node" "nl_session_id l = sess"
      "nl_lease_id l = he_uuid env 0" "nl_lease_ttl_ms l = hc_lease_ttl_ms cfg"
      "nl_expires_at l = he_now env + hc_lease_ttl_ms cfg * 1000"
    and reply: "last (hb_log s1) = Reply r (lease_response (hub_mutation_identity env s0) True
      (Some (lease_operation (strip (field_str d ''request_id'')))) (Some (he_uuid env 0)) (hc_lease_ttl_ms cfg)
      (hc_renew_after_ms cfg) None)"
    using on_lease_acquire_granted [OF assms(1-7), of cfg] assms(8) by auto
  have "lease_of (nl_node_id l) s2 = Some l"
    unfolding assms(10) using l assms(9) by (intro hub_run_keeps_lease) simp_all
  then have kept: "lease_of (scoped_node_id site node) s3 = Some l"
    using hub_is_leader_keeps(1) [OF assms(11)] l(2) by simp
  obtain ws where renewed: "renew_lease (he_now env') (scoped_node_id site node) sess (he_uuid env 0) (hb_work s3) =
      (Inr (nl_renew (he_now env') l), ws)"
    and found: "find (\<lambda>x. nl_node_id x = scoped_node_id site node) (node_leases ws) = Some (nl_renew (he_now env') l)"
    using kept l assms(17) by (simp add: renew_lease_def nl_ren.lookup_update_key)
  define s4 where "s4 = ensure_js_consumer cfg site' (s3\<lparr>hb_work := ws, hb_nodes := (case he_store env' 2 of
      Some _ \<Rightarrow> hb_nodes s3 | None \<Rightarrow> record_heartbeat (he_now env') (scoped_node_id site node) ''Ready'' (hb_nodes s3))\<rparr>)"
  have "on_lease_renew env' cfg msg' s2 = (Inr (), grant_lease env' msg' (lease_operation (strip (field_str d' ''request_id'')))
      (nl_renew (he_now env') l) s4)"
    using assms(11-16) renewed unfolding s4_def by (auto simp: on_lease_renew_def lease_asked_def Let_def)
  moreover have "lease_of (scoped_node_id site node) s4 = Some (nl_renew (he_now env') l)"
    using found by (simp add: s4_def)
  ultimately show ?thesis
    using reply l by (intro conjI exI [of _ "nl_renew (he_now env') l"] exI [of _ s4]) (simp_all add: nl_renew_def)
qed

definition hub_init :: HubIngress where
  "hub_init = \<lparr>hb_epoch = 1, hb_subs = [], hb_js_sites = [], hb_js_provisioning = [], hb_js_stream_ready = False,
     hb_work = empty_work_store, hb_nodes = empty_nodes, hb_sites = [], hb_log = []\<rparr>"

definition demo_hub_config :: HubConfig where
  "demo_hub_config = \<lparr>hc_lease_ttl_ms = 60, hc_renew_after_ms = 20, hc_js_provision = True, hc_core_proxy_enabled = True,
     hc_core_proxy_port_min = 7, hc_core_proxy_port_max = 9, hc_edge_renderer = True, hc_backend = Postgres\<rparr>"

definition demo_hub_env :: "time \<Rightarrow> string \<Rightarrow> hub_env" where
  "demo_hub_env now u = \<lparr>he_now = now, he_uuid = (\<lambda>n. u), he_authority = None, he_env_id = None, he_env_epoch = None,
     he_hostname = ''h'', he_norm = (\<lambda>j. j), he_store = (\<lambda>n. None), he_subscribe = (\<lambda>n. None), he_str = (\<lambda>e. ''err'')\<rparr>"

definition demo_message :: "string \<Rightarrow> string \<Rightarrow> dict \<Rightarrow> NatsMessage" where
  "demo_message site act d = \<lparr>nm_subject = ''k1s.v1.site.'' @ site @ act, nm_reply = Some ''in'', nm_data = Some (JObj d)\<rparr>"

definition demo_lease_fields :: "string \<Rightarrow> string \<Rightarrow> string \<Rightarrow> dict" where
  "demo_lease_fields node sess lid = [(''request_id'', JStr ''q''), (''node_id'', JStr node), (''session_id'', JStr sess),
     (''lease_id'', JStr lid)]"

lemma demo_hub_simps [simp]:
  "he_now (demo_hub_env t u) = t" "he_uuid (demo_hub_env t u) n = u" "he_store (demo_hub_env t u) n = None"
  "he_authority (demo_hub_env t u) = None" "nm_reply (demo_message x a d) = Some ''in''"
  "hc_lease_ttl_ms demo_hub_config = 60" "hc_renew_after_ms demo_hub_config = 20"
  by (simp_all add: demo_hub_env_def demo_message_def demo_hub_config_def)

theorem granted_lease_renews_witness:
  "\<exists>l s4. on_lease_renew (demo_hub_env 50000 ''v'') demo_hub_config (demo_message ''a'' ''.lease.renew'' (demo_lease_fields ''n'' ''x'' ''u''))
      (hub_run demo_hub_config
         [(demo_hub_env 7 ''w'', LeaseAcquire, demo_message ''b'' ''.lease.acquire'' (demo_lease_fields ''n'' ''y'' [])),
          (demo_hub_env 8 ''z'', WorkPull, demo_message ''a'' ''.work.pull'' [])]
         (snd (on_lease_acquire (demo_hub_env 5 ''u'') demo_hub_config
            (demo_message ''a'' ''.lease.acquire'' (demo_lease_fields ''n'' '' x '' [])) hub_init))) =
       (Inr (), grant_lease (demo_hub_env 50000 ''v'') (demo_message ''a'' ''.lease.renew'' (demo_lease_fields ''n'' ''x'' ''u'')) ''q'' l s4) \<and>
     nl_lease_id l = ''u'' \<and> nl_expires_at l = 110000 \<and> lease_of ''a--n'' s4 = Some l"
proof -
  let ?m = "demo_message ''a'' ''.lease.acquire'' (demo_lease_fields ''n'' '' x '' [])"
  let ?m' = "demo_message ''a'' ''.lease.renew'' (demo_lease_fields ''n'' ''x'' ''u'')"
  let ?ms = "[(demo_hub_env 7 ''w'', LeaseAcquire, demo_message ''b'' ''.lease.acquire'' (demo_lease_fields ''n'' ''y'' [])),
      (demo_hub_env 8 ''z'', WorkPull, demo_message ''a'' ''.work.pull'' [])]"
  have led: "hub_is_leader (demo_hub_env t u) s = (True, s)" for t u s by (simp add: hub_is_leader_def)
  have asked: "lease_asked ?m (demo_lease_fields ''n'' '' x '' []) ''a'' ''n''"
    and asked': "lease_asked ?m' (demo_lease_fields ''n'' ''x'' ''u'') ''a'' ''n''" by code_simp+
  have sess: "''x'' = strip (field_str (demo_lease_fields ''n'' '' x '' []) ''session_id'')"
    and sess': "field_str (demo_lease_fields ''n'' ''x'' ''u'') ''session_id'' = ''x''"
    and lid: "strip (field_str (demo_lease_fields ''n'' ''x'' ''u'') ''lease_id'') = he_uuid (demo_hub_env 5 ''u'') 0"
    and key: "scoped_node_id ''a'' ''n'' = ''a--n''"
    and op: "lease_operation (strip (field_str (demo_lease_fields ''n'' ''x'' ''u'') ''request_id'')) = ''q''"
    and other: "\<not> list_ex (about_lease (scoped_node_id ''a'' ''n'')) ?ms" by code_simp+
  obtain s1 where s1: "on_lease_acquire (demo_hub_env 5 ''u'') demo_hub_config ?m hub_init = (Inr (), s1)"
    using on_lease_acquire_granted [OF led asked _ sess] by fastforce
  have "he_store (demo_hub_env 5 ''u'') n = None" "nm_reply ?m = Some ''in''" for n by simp_all
  from granted_lease_renews [OF led asked this(1) sess _ this(2) _ s1 other refl led asked' refl sess' lid, of 50000 "''v''"]
  show ?thesis unfolding s1 snd_conv key op by auto
qed

section \<open>Results over the protocol\<close>

text \<open>The ledger row after a matching result.\<close>

definition reported :: "hub_env \<Rightarrow> NatsMessage \<Rightarrow> dict \<Rightarrow> string \<Rightarrow> int option \<Rightarrow> WorkLedgerRow \<Rightarrow> WorkLedgerRow" where
  "reported env msg d state gen = lg_set_state
     (state, result_node (json_site msg d) (dict_get d ''node_id''), gen, Some d, he_now env)"

lemma rmap_covers: "rmap f xs = Inr ys \<Longrightarrow> x \<in> set xs \<Longrightarrow> \<exists>y \<in> set ys. f x = Inr y"
  by (induction xs arbitrary: ys) (auto simp: rbind_Inr_iff)

lemma matching_row:
  assumes "get_work_ledger w ws = Inr ledger" and "result_matches_ledger ledger att e"
  shows "\<exists>row. find (\<lambda>r. lg_work_id r = w) (work_ledger ws) = Some row \<and> lg_attempt row = att"
  using assms by (auto simp: get_work_ledger_def result_matches_ledger_def ledger_entry_of_row_def rbind_def
      split: option.splits sum.splits)

lemma on_result_applies:
  assumes "hub_is_leader env s = (True, s0)" and "as_dict (hub_safe_json msg) = Some d" and "truthy (dict_get d ''work_id'')"
    and "w = py_str (dict_get d ''work_id'')" and "result_attempt d = Inr att" and "att \<noteq> 0"
    and "get_work_ledger w (hb_work s0) = Inr ledger" and "result_matches_ledger ledger att (parse_envelope (JObj d))"
    and "result_state (dict_get d ''status'') = Some (state, finished)" and "result_generation d = Inr gen"
  shows "on_result env msg s = (Inr (), s0\<lparr>hb_work := (hb_work s0)\<lparr>
      work_ledger := update_where (\<lambda>r. lg_work_id r = w \<and> lg_attempt r = att) (reported env msg d state gen) (work_ledger (hb_work s0)),
      work_queue := (if finished then update_where (\<lambda>r. wq_key r = (w, att)) (wq_done (he_now env)) (work_queue (hb_work s0))
        else work_queue (hb_work s0))\<rparr>\<rparr>)"
  using assms
  by (simp add: on_result_def apply_result_def Let_def update_work_state_def mark_work_done_def reported_def)

text \<open>
  (C28) What the controller believes of a result. One that does not match the ledger in its attempt and in the envelope the
  work was sent with changes nothing but the record of fenced messages. One that matches sets the ledger entry of its work,
  and of no other, to the state it reports; a final one also closes the queue row of that attempt, and no other, and a
  progress report leaves the queue alone.
\<close>

theorem hub_result_decision:
  assumes "hub_is_leader env s = (True, s0)" and "as_dict (hub_safe_json msg) = Some d" and "truthy (dict_get d ''work_id'')"
    and "w = py_str (dict_get d ''work_id'')" and "result_attempt d = Inr att" and "att \<noteq> 0"
    and "get_work_ledger w (hb_work s0) = Inr ledger" and "result_state (dict_get d ''status'') = Some (state, finished)"
    and "result_generation d = Inr gen"
  shows "\<exists>s'. on_result env msg s = (Inr (), s') \<and>
    (if result_matches_ledger ledger att (parse_envelope (JObj d))
     then (\<exists>row. find (\<lambda>r. lg_work_id r = w) (work_ledger (hb_work s0)) = Some row \<and> lg_attempt row = att \<and>
         (\<forall>k. find (\<lambda>r. lg_work_id r = k) (work_ledger (hb_work s')) =
            (if k = w then Some (reported env msg d state gen row) else find (\<lambda>r. lg_work_id r = k) (work_ledger (hb_work s0))))) \<and>
       (\<forall>k. find (\<lambda>r. wq_key r = k) (work_queue (hb_work s')) = (if finished \<and> k = (w, att)
          then map_option (wq_done (he_now env)) (find (\<lambda>r. wq_key r = k) (work_queue (hb_work s0)))
          else find (\<lambda>r. wq_key r = k) (work_queue (hb_work s0))))
     else s' = hub_act (FenceEvent ''controller_ingress.result'' 1) s0)"
proof (cases "result_matches_ledger ledger att (parse_envelope (JObj d))")
  case False
  with assms show ?thesis by (simp add: on_result_def apply_result_def Let_def)
next
  case True
  from matching_row [OF assms(7) True] obtain row where
    row: "find (\<lambda>r. lg_work_id r = w) (work_ledger (hb_work s0)) = Some row" "lg_attempt row = att" by blast
  have other: "find (\<lambda>r. lg_work_id r = k) (update_where (\<lambda>r. lg_work_id r = w \<and> lg_attempt r = att)
      (reported env msg d state gen) (work_ledger (hb_work s0))) =
      (if k = w then Some (reported env msg d state gen row) else find (\<lambda>r. lg_work_id r = k) (work_ledger (hb_work s0)))" for k
    unfolding reported_def lg_state.lookup_update using row
    by (cases "find (\<lambda>r. lg_work_id r = k) (work_ledger (hb_work s0))") (auto dest: find_key_Some)
  show ?thesis
    using True row other on_result_applies [OF assms(1-7) True assms(8,9)]
    by (simp add: q_done.lookup_update_key)
qed

text \<open>
  Finished work can be taken up again. The ledger keeps no memory of a final state: a progress report of the same attempt
  that arrives after the work was reported as done, late or delivered again, matches the ledger and puts the work back to
  running, whatever its state was; from then on every list of running work the watchdog reads, once its limit has passed,
  has it among the work to be rescheduled.
\<close>

theorem late_progress_reopens_work:
  assumes "hub_is_leader env s = (True, s0)" and "as_dict (hub_safe_json msg) = Some d" and "truthy (dict_get d ''work_id'')"
    and "w = py_str (dict_get d ''work_id'')" and "result_attempt d = Inr att" and "att \<noteq> 0"
    and "get_work_ledger w (hb_work s0) = Inr ledger" and "result_matches_ledger ledger att (parse_envelope (JObj d))"
    and "dict_get d ''status'' = JStr ''running''" and "result_generation d = Inr gen"
    and "on_result env msg s = (Inr (), s')" and "he_now env \<le> cutoff"
    and "list_work_state_before ''Running'' cutoff (hb_work s') = Inr es"
  shows "list_ex (\<lambda>e. le_work_id e = w \<and> le_attempt e = att) es"
proof -
  have st: "result_state (dict_get d ''status'') = Some (''Running'', False)" unfolding assms(9) by code_simp
  from matching_row [OF assms(7,8)] obtain row where
    row: "find (\<lambda>r. lg_work_id r = w) (work_ledger (hb_work s0)) = Some row" "lg_attempt row = att" by blast
  let ?new = "reported env msg d ''Running'' gen row"
  have "row \<in> set (work_ledger (hb_work s0))" and key: "lg_work_id row = w" using find_key_Some [OF row(1)] by auto
  then have "?new \<in> set (work_ledger (hb_work s'))"
    using on_result_applies [OF assms(1-8) st assms(10)] assms(11) row(2) by (auto simp: update_where_def)
  moreover have new: "lg_state ?new = ''Running''" "lg_state_updated_at ?new \<le> cutoff" "lg_work_id ?new = w" "lg_attempt ?new = att"
    using assms(12) key row(2) by (simp_all add: reported_def lg_set_state_def)
  ultimately have "?new \<in> set (sort_key lg_state_updated_at (filter (\<lambda>r. lg_state r = ''Running'' \<and> lg_state_updated_at r \<le> cutoff)
      (work_ledger (hb_work s'))))" by simp
  then obtain e where "e \<in> set es" "ledger_entry_of_row ?new = Inr e"
    using rmap_covers [OF assms(13) [unfolded list_work_state_before_def]] by blast
  moreover from this new have "le_work_id e = w \<and> le_attempt e = att"
    by (auto simp: ledger_entry_of_row_def rbind_def split: sum.splits)
  ultimately show ?thesis by (auto simp: list_ex_iff)
qed

text \<open>Work of site \<open>a\<close> that the ledger knows, and what its node reports of it.\<close>

definition demo_report :: "string \<Rightarrow> NatsMessage" where
  "demo_report st = demo_message ''a'' ''.result'' [(''work_id'', JStr ''w''), (''attempt'', JInt 1), (''status'', JStr st),
     (''controller_id'', JStr ''c''), (''controller_epoch'', JInt 2), (''operation_id'', JStr ''o'')]"

definition demo_hub_work :: HubIngress where
  "demo_hub_work = hub_init\<lparr>hb_work := upsert_work_ledger 1 ''w'' 1 ''a'' ''Dispatched'' (Some ''c'') (Some 2) (Some ''o'') None
     (enqueue_work 1 ''w'' 1 ''a'' [] empty_work_store)\<rparr>"

definition ledger_state :: "string \<Rightarrow> HubIngress \<Rightarrow> string option" where
  "ledger_state w s = map_option lg_state (find (\<lambda>r. lg_work_id r = w) (work_ledger (hb_work s)))"

lemma demo_report_facts:
  "as_dict (hub_safe_json (demo_report st)) = Some [(''work_id'', JStr ''w''), (''attempt'', JInt 1), (''status'', JStr st),
     (''controller_id'', JStr ''c''), (''controller_epoch'', JInt 2), (''operation_id'', JStr ''o'')]"
  by (simp add: demo_report_def demo_message_def hub_safe_json_def)

theorem hub_result_decision_witness:
  "find (\<lambda>r. wq_key r = (''w'', 1)) (work_queue (hb_work (snd (on_result (demo_hub_env 9 ''u'') (demo_report ''Success'') demo_hub_work)))) =
     map_option (wq_done 9) (find (\<lambda>r. wq_key r = (''w'', 1)) (work_queue (hb_work demo_hub_work)))"
proof -
  have led: "hub_is_leader (demo_hub_env 9 ''u'') demo_hub_work = (True, demo_hub_work)" by (simp add: hub_is_leader_def)
  let ?d = "[(''work_id'', JStr ''w''), (''attempt'', JInt 1), (''status'', JStr ''Success''),
     (''controller_id'', JStr ''c''), (''controller_epoch'', JInt 2), (''operation_id'', JStr ''o'')]"
  have "truthy (dict_get ?d ''work_id'')" "''w'' = py_str (dict_get ?d ''work_id'')" "result_attempt ?d = Inr 1"
    "(1 :: int) \<noteq> 0" by code_simp+
  note base = hub_result_decision [OF led demo_report_facts this]
  define ledger where "ledger = (case get_work_ledger ''w'' (hb_work demo_hub_work) of Inr l \<Rightarrow> l | Inl _ \<Rightarrow> None)"
  have "get_work_ledger ''w'' (hb_work demo_hub_work) = Inr ledger" unfolding ledger_def by code_simp
  moreover have "result_state (dict_get ?d ''status'') = Some (''Succeeded'', True)" by code_simp
  moreover have "result_generation ?d = Inr None" by code_simp
  moreover have "result_matches_ledger ledger 1 (parse_envelope (JObj ?d))" unfolding ledger_def by code_simp
  ultimately show ?thesis using base [of ledger "''Succeeded''" True None] by auto
qed

theorem late_progress_reopens_work_witness:
  "let s1 = snd (on_result (demo_hub_env 9 ''u'') (demo_report ''succeeded'') demo_hub_work);
       s2 = snd (on_result (demo_hub_env 12 ''u'') (demo_report ''running'') s1)
   in ledger_state ''w'' s1 = Some ''Succeeded'' \<and> ledger_state ''w'' s2 = Some ''Running'' \<and>
      (case list_work_state_before ''Running'' 20 (hb_work s2) of Inr es \<Rightarrow> list_ex (\<lambda>e. le_work_id e = ''w'' \<and> le_attempt e = 1) es
       | Inl _ \<Rightarrow> False)"
proof -
  define s1 where "s1 = snd (on_result (demo_hub_env 9 ''u'') (demo_report ''succeeded'') demo_hub_work)"
  define s2 where "s2 = snd (on_result (demo_hub_env 12 ''u'') (demo_report ''running'') s1)"
  have led: "hub_is_leader (demo_hub_env 12 ''u'') s1 = (True, s1)" by (simp add: hub_is_leader_def)
  let ?d = "[(''work_id'', JStr ''w''), (''attempt'', JInt 1), (''status'', JStr ''running''),
     (''controller_id'', JStr ''c''), (''controller_epoch'', JInt 2), (''operation_id'', JStr ''o'')]"
  have "truthy (dict_get ?d ''work_id'')" "''w'' = py_str (dict_get ?d ''work_id'')" "result_attempt ?d = Inr 1"
    "(1 :: int) \<noteq> 0" by code_simp+
  note base = late_progress_reopens_work [OF led demo_report_facts this]
  define ledger where "ledger = (case get_work_ledger ''w'' (hb_work s1) of Inr l \<Rightarrow> l | Inl _ \<Rightarrow> None)"
  have "get_work_ledger ''w'' (hb_work s1) = Inr ledger" unfolding ledger_def s1_def by code_simp
  moreover have "result_matches_ledger ledger 1 (parse_envelope (JObj ?d))" unfolding ledger_def s1_def by code_simp
  moreover have "dict_get ?d ''status'' = JStr ''running''" "result_generation ?d = Inr None" by code_simp+
  moreover have "on_result (demo_hub_env 12 ''u'') (demo_report ''running'') s1 = (Inr (), s2)"
    unfolding s2_def s1_def by code_simp
  moreover have "ledger_state ''w'' s1 = Some ''Succeeded''" unfolding s1_def by code_simp
  moreover have "ledger_state ''w'' s2 = Some ''Running''" unfolding s2_def s1_def by code_simp
  moreover have "\<not> isl (list_work_state_before ''Running'' 20 (hb_work s2))" unfolding s2_def s1_def by code_simp
  then obtain es where "list_work_state_before ''Running'' 20 (hb_work s2) = Inr es"
    by (cases "list_work_state_before ''Running'' 20 (hb_work s2)") simp_all
  ultimately show ?thesis
    using base [of ledger None s2 20] unfolding s1_def [symmetric] Let_def s2_def [symmetric] by auto
qed

section \<open>Subscriptions and refused leases\<close>

lemma subscribe_all_ok:
  assumes "\<And>n. n < i + length xs \<Longrightarrow> he_subscribe env n = None"
  shows "\<exists>s'. subscribe_all env i xs s = (Inr (), s') \<and> hb_subs s' = hb_subs s @ xs"
  using assms by (induction env i xs s rule: subscribe_all.induct) auto

lemma subscribe_all_raises:
  assumes "he_subscribe env (i + k) = Some e" and "\<And>n. n < i + k \<Longrightarrow> he_subscribe env n = None" and "k < length xs"
  shows "\<exists>s'. subscribe_all env i xs s = (Inl e, s') \<and> hb_subs s' = hb_subs s @ take k xs"
  using assms
proof (induction xs arbitrary: i k s)
  case (Cons x xs)
  show ?case
  proof (cases k)
    case (Suc j)
    then show ?thesis
      using Cons.IH [of "i + 1" j "hub_act (Subscribe x) (s\<lparr>hb_subs := hb_subs s @ [x]\<rparr>)"] Cons.prems by auto
  qed (use Cons.prems in simp)
qed simp

lemma sync_authority_leader:
  assumes "hub_is_leader env s = (True, s0)"
  shows "sync_authority env s = (if hb_subs s0 = [] then subscribe_all env 0 mutating_subjects s0 else (Inr (), s0))"
  using assms by (auto simp: sync_authority_def hub_is_leader_def split: option.splits)

lemma sync_authority_follower:
  "\<not> fst (hub_is_leader env s) \<Longrightarrow> hb_subs (snd (sync_authority env s)) = []"
  by (auto simp: sync_authority_def hub_is_leader_def unsubscribe_mutating_def Let_def split: option.splits)

text \<open>Where no subscription raises, the ingress listens exactly while it leads.\<close>

theorem subscriptions_follow_leadership:
  assumes "hb_subs s \<in> {[], mutating_subjects}" and "\<And>n. he_subscribe env n = None"
  shows "hb_subs (snd (sync_authority env s)) = (if fst (hub_is_leader env s) then mutating_subjects else [])"
proof (cases "hub_is_leader env s")
  case (Pair b s0)
  have "hb_subs s0 = hb_subs s" using hub_is_leader_keeps(4) [OF Pair] .
  moreover have "mutating_subjects \<noteq> []" by (simp add: mutating_subjects_def)
  ultimately show ?thesis
    using assms Pair sync_authority_leader [of env s s0] sync_authority_follower [of env s]
      subscribe_all_ok [of 0 mutating_subjects env s0] by (cases b) auto
qed

text \<open>
  A subscription that fails half-way is never completed. When the \<open>k\<close>-th subscription of a new leader raises, those made
  before stay, and since a non-empty list counts as subscribed, no later sync makes up for the missing ones as long as the
  controller leads: it answers leases, for instance, and never hears of acknowledgements or results.
\<close>

theorem partial_subscription_stays:
  assumes "hb_subs s = []" and "fst (hub_is_leader env s)" and "0 < k" and "k < length mutating_subjects"
    and "he_subscribe env k = Some e" and "\<And>n. n < k \<Longrightarrow> he_subscribe env n = None"
  shows "\<exists>s1. sync_authority env s = (Inl e, s1) \<and> hb_subs s1 = take k mutating_subjects \<and>
    (\<forall>env'. hb_subs (snd (sync_authority env' s1)) = (if fst (hub_is_leader env' s1) then take k mutating_subjects else []))"
proof -
  obtain s0 where led: "hub_is_leader env s = (True, s0)" using assms(2) by (metis prod.collapse)
  have "hb_subs s0 = []" using hub_is_leader_keeps(4) [OF led] assms(1) by simp
  then obtain s1 where run: "sync_authority env s = (Inl e, s1)" and subs: "hb_subs s1 = take k mutating_subjects"
    using sync_authority_leader [OF led] subscribe_all_raises [of env 0 k e mutating_subjects s0] assms(4-6) by auto
  have "hb_subs (snd (sync_authority env' s1)) = (if fst (hub_is_leader env' s1) then take k mutating_subjects else [])" for env'
  proof (cases "hub_is_leader env' s1")
    case (Pair b s2)
    have "take k mutating_subjects \<noteq> []" using assms(3,4) by (cases k) auto
    with Pair subs hub_is_leader_keeps(4) [OF Pair] show ?thesis
      using sync_authority_leader [of env' s1 s2] sync_authority_follower [of env' s1] by (cases b) auto
  qed
  with run subs show ?thesis by blast
qed

theorem partial_subscription_stays_witness:
  "hb_subs (snd (sync_authority (demo_hub_env 5 ''u'') (snd (sync_authority
      ((demo_hub_env 1 ''u'')\<lparr>he_subscribe := (\<lambda>n. if n = 3 then Some TypeError else None)\<rparr>) hub_init)))) = take 3 mutating_subjects"
proof -
  define env where "env = (demo_hub_env 1 ''u'')\<lparr>he_subscribe := (\<lambda>n. if n = 3 then Some TypeError else None)\<rparr>"
  have env: "he_subscribe env n = (if n = 3 then Some TypeError else None)" "fst (hub_is_leader env s)" for n s
    by (simp_all add: env_def hub_is_leader_def)
  have "hb_subs hub_init = []" "3 < length mutating_subjects" by (simp_all add: hub_init_def mutating_subjects_def)
  with partial_subscription_stays [of hub_init env 3 TypeError] env show ?thesis
    unfolding env_def [symmetric] by (auto simp: hub_is_leader_def)
qed

text \<open>
  A refused lease may still be taken. When registering the node raises after the lease was written, the gateway is told
  that it has no lease, and the node's earlier lease is gone all the same: its holder's renewals are refused from then on.
\<close>

theorem refused_lease_is_kept:
  assumes "hub_is_leader env s = (True, s0)" and "lease_asked msg d site node" and "he_store env 0 = None"
    and "he_store env 1 = Some e" and "nm_reply msg = Some r" and "r \<noteq> []"
    and "old \<noteq> sess" and "sess = strip (field_str d ''session_id'')" and "sess \<noteq> []"
  shows "\<exists>s1 l. on_lease_acquire env cfg msg s = (Inr (), s1) \<and>
    last (hb_log s1) = Reply r (lease_response (hub_mutation_identity env s0) False
      (Some (lease_operation (strip (field_str d ''request_id'')))) None (hc_lease_ttl_ms cfg) (hc_renew_after_ms cfg) (Some (he_str env e))) \<and>
    lease_of (scoped_node_id site node) s1 = Some l \<and> nl_lease_id l = he_uuid env 0 \<and> nl_session_id l = sess \<and>
    (\<forall>t lid. fst (renew_lease t (scoped_node_id site node) old lid (hb_work s1)) = Inl InvalidSession)"
proof -
  obtain l ws where acq: "acquire_lease (he_now env) (he_uuid env 0) site (scoped_node_id site node) sess
      (hc_lease_ttl_ms cfg) (hc_renew_after_ms cfg) (hb_epoch s0) (hb_work s0) = (l, ws)" by (metis surj_pair)
  then have l: "nl_session_id l = sess" "nl_lease_id l = he_uuid env 0"
    and found: "find (\<lambda>x. nl_node_id x = scoped_node_id site node) (node_leases ws) = Some l"
    by (auto simp: acquire_lease_def Let_def find_append find_None_iff split: option.splits dest!: find_key_Some)
  have st: "acquire_in_store env cfg d site node sess s0 = (Inl e, s0\<lparr>hb_work := ws\<rparr>)"
    using acq assms(3,4,9) by (simp add: acquire_in_store_def Let_def)
  have r: "hub_reply msg p x = hub_act (Reply r p) x" for p x
    using assms(5,6) by (cases r) (simp_all add: hub_reply_def nonempty_def)
  have "on_lease_acquire env cfg msg s = refuse_lease env cfg msg (Some (lease_operation (strip (field_str d ''request_id'')))) None
      (he_str env e) (s0\<lparr>hb_work := ws\<rparr>)"
    using assms(1,2,8) st by (auto simp: on_lease_acquire_def lease_asked_def Let_def)
  then show ?thesis
    using l found assms(7) by (auto simp: refuse_lease_def r hub_mutation_identity_def renew_lease_def)
qed

theorem refused_lease_is_kept_witness:
  "let s0 = snd (on_lease_acquire (demo_hub_env 5 ''u'') demo_hub_config
         (demo_message ''a'' ''.lease.acquire'' (demo_lease_fields ''n'' ''x'' [])) hub_init);
       s1 = snd (on_lease_acquire ((demo_hub_env 6 ''v'')\<lparr>he_store := (\<lambda>n. if n = 1 then Some TypeError else None)\<rparr>) demo_hub_config
         (demo_message ''a'' ''.lease.acquire'' (demo_lease_fields ''n'' ''y'' [])) s0)
   in \<not> isl (fst (renew_lease 7 ''a--n'' ''x'' ''u'' (hb_work s0))) \<and>
      fst (renew_lease 7 ''a--n'' ''x'' ''u'' (hb_work s1)) = Inl InvalidSession"
proof -
  define s0 where "s0 = snd (on_lease_acquire (demo_hub_env 5 ''u'') demo_hub_config
         (demo_message ''a'' ''.lease.acquire'' (demo_lease_fields ''n'' ''x'' [])) hub_init)"
  define env where "env = (demo_hub_env 6 ''v'')\<lparr>he_store := (\<lambda>n. if n = 1 then Some TypeError else None)\<rparr>"
  let ?d = "demo_lease_fields ''n'' ''y'' []" and ?m = "demo_message ''a'' ''.lease.acquire'' (demo_lease_fields ''n'' ''y'' [])"
  have led: "hub_is_leader env s0 = (True, s0)" and st: "he_store env 0 = None" "he_store env 1 = Some TypeError"
    by (simp_all add: env_def hub_is_leader_def)
  have asked: "lease_asked ?m ?d ''a'' ''n''" and sess: "''y'' = strip (field_str ?d ''session_id'')"
    and key: "scoped_node_id ''a'' ''n'' = ''a--n''" by code_simp+
  have before: "\<not> isl (fst (renew_lease 7 ''a--n'' ''x'' ''u'' (hb_work s0)))" unfolding s0_def by code_simp
  from refused_lease_is_kept [OF led asked st _ _ _ sess, of "''in''" "''x''" demo_hub_config] before show ?thesis
    unfolding s0_def [symmetric] env_def [symmetric] key by (auto simp: Let_def)
qed

theorem hub_follower_inert_witness:
  "\<exists>s'. hub_handle ((demo_hub_env 5 ''u'')\<lparr>he_authority := Some \<lparr>sn_enabled = True, sn_controller_id = ''c'', sn_is_leader = False,
      sn_leader_info = None\<rparr>\<rparr>) demo_hub_config LeaseAcquire (demo_message ''a'' ''.lease.acquire'' (demo_lease_fields ''n'' ''x'' []))
      hub_init = (Inr (), s') \<and> hb_work s' = empty_work_store \<and> hb_nodes s' = empty_nodes \<and> hb_sites s' = []"
proof -
  define sn where "sn = \<lparr>sn_enabled = True, sn_controller_id = ''c'', sn_is_leader = False, sn_leader_info = None\<rparr>"
  have "he_authority ((demo_hub_env 5 ''u'')\<lparr>he_authority := Some sn\<rparr>) = Some sn" "\<not> sn_is_leader sn" by (simp_all add: sn_def)
  from hub_follower_inert [OF this, of demo_hub_config LeaseAcquire "demo_message ''a'' ''.lease.acquire'' (demo_lease_fields ''n'' ''x'' [])" hub_init]
  show ?thesis unfolding sn_def [symmetric] by (auto simp: hub_init_def)
qed

section \<open>Scoped node ids\<close>

text \<open>
  Scoping is idempotent, and it keeps the nodes of one site apart unless one of them already carries the prefix. It does not keep sites
  apart: a site's name may contain the separator, so two sites can name the same scoped node and take each other's lease.
\<close>

lemma scoped_node_id_idem: "scoped_node_id site (scoped_node_id site node) = scoped_node_id site node" if "strip site = site" "strip node = node"
  "strip (site @ ''--'' @ node) = site @ ''--'' @ node"
  using that by (auto simp: scoped_node_id_def Let_def)

lemma scoped_node_id_inj:
  assumes "scoped_node_id site n1 = scoped_node_id site n2" and "strip site \<noteq> []"
    and "take (length (strip site) + 2) (strip n1) \<noteq> strip site @ ''--''" and "take (length (strip site) + 2) (strip n2) \<noteq> strip site @ ''--''"
  shows "strip n1 = strip n2"
  using assms by (auto simp: scoped_node_id_def Let_def split: if_splits)

theorem sites_share_scoped_node:
  "let s0 = snd (on_lease_acquire (demo_hub_env 5 ''u'') demo_hub_config
         (demo_message ''a'' ''.lease.acquire'' (demo_lease_fields ''b--n'' ''x'' [])) hub_init);
       s1 = snd (on_lease_acquire (demo_hub_env 6 ''v'') demo_hub_config
         (demo_message ''a--b'' ''.lease.acquire'' (demo_lease_fields ''n'' ''y'' [])) s0)
   in scoped_node_id ''a'' ''b--n'' = scoped_node_id ''a--b'' ''n'' \<and>
      fst (renew_lease 7 ''a--b--n'' ''x'' ''u'' (hb_work s1)) = Inl InvalidSession"
  by code_simp

end
