(* ===== verification/App_State.thy ===== *)
theory App_State
  imports Registry Nodes
begin

text \<open>
  What the reconciler leaves behind of an app in the state store (\<^verbatim>\<open>ae/controller/state.py\<close>): its status row, the status and
  placement of its pods and their probe history, written together by \<^verbatim>\<open>record_snapshot\<close>, read by the views and removed by
  \<^verbatim>\<open>delete_app_state\<close>.

  A snapshot sees one clock value. The two times to live are arguments, in seconds as \<^verbatim>\<open>int(os.getenv(...))\<close> reads them. The probe
  history is in the order of its generated id.
\<close>

section \<open>Data\<close>

text \<open>
  \<open>ps_node_id\<close> is what \<^verbatim>\<open>getattr(state, "node_id", None)\<close> gives. The slots class of \<^verbatim>\<open>runtime/base.py\<close> has no such field, so for its
  instances it is None; any value is admitted here, which covers states of a class that has one.
\<close>

record PodState =
  ps_pod_name :: string
  ps_status :: string
  ps_endpoint :: "string option"
  ps_exit_code :: "int option"
  ps_finished_at :: "time option"
  ps_node_id :: "string option"

record RuntimeResult =
  rr_created :: int
  rr_updated :: int
  rr_removed :: int
  rr_pod_states :: "PodState list"

record PodHealth =
  ph_pod_name :: string
  ph_ready :: bool
  ph_live :: bool
  ph_readiness_message :: string
  ph_liveness_message :: string

record HealthReport =
  hr_ready_replicas :: int
  hr_live_replicas :: int
  hr_pods :: "PodHealth list"

text \<open>What of the manifest enters the status row besides its key and image, and the counts per revision.\<close>

record SnapshotSpec =
  ss_replicas :: int
  ss_ingress :: "(string \<times> string) option"

record RolloutCounts =
  rc_current_ready :: int
  rc_current_live :: int
  rc_old_ready :: int
  rc_old_live :: int
  rc_overlap_ready :: int
  rc_overlap_live :: int

record AppStatus =
  as_app_name :: string
  as_desired_replicas :: int
  as_ready_replicas :: int
  as_live_replicas :: int
  as_revision :: int
  as_revision_status :: string
  as_image :: string
  as_created :: int
  as_updated :: int
  as_removed :: int
  as_counts :: RolloutCounts
  as_ingress_host :: "string option"
  as_ingress_path :: "string option"

record PodStatusRow =
  pd_app_name :: string
  pd_pod_name :: string
  pd_ready :: bool
  pd_live :: bool
  pd_endpoint :: "string option"
  pd_status :: string
  pd_readiness_message :: string
  pd_liveness_message :: string
  pd_exit_code :: "int option"
  pd_finished_at :: "time option"
  pd_updated_at :: "time option"

record PodNodeRow =
  pn_app_name :: string
  pn_pod_name :: string
  pn_node_id :: string
  pn_updated_at :: time

record ProbeHistoryRow =
  pb_app_name :: string
  pb_pod_name :: string
  pb_check_time :: time
  pb_ready :: bool
  pb_live :: bool
  pb_readiness_message :: string
  pb_liveness_message :: string

record AppStore =
  app_status_tbl :: "AppStatus list"
  pod_status_tbl :: "PodStatusRow list"
  pod_nodes_tbl :: "PodNodeRow list"
  probe_history :: "ProbeHistoryRow list"
  ap_registry :: RegistryStore
  ap_nodes :: NodeStore

definition pd_key :: "PodStatusRow \<Rightarrow> string \<times> string" where
  "pd_key r = (pd_app_name r, pd_pod_name r)"

definition pn_key :: "PodNodeRow \<Rightarrow> string \<times> string" where
  "pn_key r = (pn_app_name r, pn_pod_name r)"

definition pb_key :: "ProbeHistoryRow \<Rightarrow> string \<times> string" where
  "pb_key r = (pb_app_name r, pb_pod_name r)"

section \<open>Recording a snapshot\<close>

definition status_row ::
  "AppManifest \<Rightarrow> SnapshotSpec \<Rightarrow> RuntimeResult \<Rightarrow> HealthReport \<Rightarrow> int \<Rightarrow> string \<Rightarrow> RolloutCounts \<Rightarrow> AppStatus" where
  "status_row m spec res report revision revision_status counts = \<lparr>as_app_name = app_key_for_manifest m,
     as_desired_replicas = ss_replicas spec, as_ready_replicas = hr_ready_replicas report,
     as_live_replicas = hr_live_replicas report, as_revision = revision, as_revision_status = revision_status,
     as_image = mf_image m, as_created = rr_created res, as_updated = rr_updated res, as_removed = rr_removed res,
     as_counts = counts, as_ingress_host = map_option fst (ss_ingress spec), as_ingress_path = map_option snd (ss_ingress spec)\<rparr>"

definition as_replace :: "AppStatus \<Rightarrow> AppStatus \<Rightarrow> AppStatus" where
  "as_replace n r = n\<lparr>as_app_name := as_app_name r\<rparr>"

text \<open>\<^verbatim>\<open>{state.pod_name: state for state in pod_states}\<close>: the last state of a name wins.\<close>

definition state_by_id :: "RuntimeResult \<Rightarrow> string \<Rightarrow> PodState option" where
  "state_by_id res name = find (\<lambda>p. ps_pod_name p = name) (rev (rr_pod_states res))"

definition pod_status_row :: "time \<Rightarrow> string \<Rightarrow> RuntimeResult \<Rightarrow> PodHealth \<Rightarrow> PodStatusRow" where
  "pod_status_row now app_name res pod =
     (let state = state_by_id res (ph_pod_name pod)
      in \<lparr>pd_app_name = app_name, pd_pod_name = ph_pod_name pod, pd_ready = ph_ready pod, pd_live = ph_live pod,
          pd_endpoint = Option.bind state ps_endpoint,
          pd_status = (case state of None \<Rightarrow> ''unknown'' | Some p \<Rightarrow> ps_status p),
          pd_readiness_message = ph_readiness_message pod, pd_liveness_message = ph_liveness_message pod,
          pd_exit_code = Option.bind state ps_exit_code, pd_finished_at = Option.bind state ps_finished_at,
          pd_updated_at = Some now\<rparr>)"

definition pd_replace :: "PodStatusRow \<Rightarrow> PodStatusRow \<Rightarrow> PodStatusRow" where
  "pd_replace n r = n\<lparr>pd_app_name := pd_app_name r, pd_pod_name := pd_pod_name r\<rparr>"

definition upsert_pods :: "PodStatusRow list \<Rightarrow> PodStatusRow list \<Rightarrow> PodStatusRow list" where
  "upsert_pods rows t = fold (\<lambda>n. upsert pd_key (pd_replace n) n) rows t"

definition expire_pods :: "time \<Rightarrow> int \<Rightarrow> string \<Rightarrow> PodStatusRow list \<Rightarrow> PodStatusRow list" where
  "expire_pods now ttl app_name t = (if ttl > 0 then delete_where (\<lambda>r. pd_app_name r = app_name \<and>
     (case pd_updated_at r of None \<Rightarrow> True | Some u \<Rightarrow> u < now - ttl * 1000000)) t else t)"

definition pn_touch :: "time \<Rightarrow> PodNodeRow \<Rightarrow> PodNodeRow" where
  "pn_touch now r = r\<lparr>pn_updated_at := now\<rparr>"

definition pn_replace :: "PodNodeRow \<Rightarrow> PodNodeRow \<Rightarrow> PodNodeRow" where
  "pn_replace n r = r\<lparr>pn_node_id := pn_node_id n, pn_updated_at := pn_updated_at n\<rparr>"

definition touch_pod_nodes :: "time \<Rightarrow> string \<Rightarrow> string list \<Rightarrow> PodNodeRow list \<Rightarrow> PodNodeRow list" where
  "touch_pod_nodes now app_name pods t =
     update_where (\<lambda>r. pn_app_name r = app_name \<and> pn_pod_name r \<in> set pods) (pn_touch now) t"

definition expire_pod_nodes :: "time \<Rightarrow> int \<Rightarrow> string \<Rightarrow> PodNodeRow list \<Rightarrow> PodNodeRow list" where
  "expire_pod_nodes now ttl app_name t = (if ttl > 0
     then delete_where (\<lambda>r. pn_app_name r = app_name \<and> pn_updated_at r < now - ttl * 1000000) t else t)"

definition place_pods :: "time \<Rightarrow> string \<Rightarrow> PodState list \<Rightarrow> PodNodeRow list \<Rightarrow> PodNodeRow list" where
  "place_pods now app_name states t =
     fold (\<lambda>p. case nonempty (ps_node_id p) of None \<Rightarrow> id | Some nid \<Rightarrow>
       (let n = \<lparr>pn_app_name = app_name, pn_pod_name = ps_pod_name p, pn_node_id = nid, pn_updated_at = now\<rparr>
        in upsert pn_key (pn_replace n) n)) states t"

definition history_row :: "time \<Rightarrow> string \<Rightarrow> PodHealth \<Rightarrow> ProbeHistoryRow" where
  "history_row now app_name pod = \<lparr>pb_app_name = app_name, pb_pod_name = ph_pod_name pod, pb_check_time = now,
     pb_ready = ph_ready pod, pb_live = ph_live pod, pb_readiness_message = ph_readiness_message pod,
     pb_liveness_message = ph_liveness_message pod\<rparr>"

text \<open>\<^verbatim>\<open>DELETE ... WHERE id IN (SELECT id ... ORDER BY id DESC LIMIT -1 OFFSET 50)\<close>: the newest fifty of a pod stay.\<close>

fun keep_newest :: "nat \<Rightarrow> ('r \<Rightarrow> bool) \<Rightarrow> 'r list \<Rightarrow> 'r list" where
  "keep_newest k p [] = []"
| "keep_newest k p (r # rs) = (if p r \<and> k \<le> rowcount p rs then keep_newest k p rs else r # keep_newest k p rs)"

definition trim_history :: "string \<times> string \<Rightarrow> ProbeHistoryRow list \<Rightarrow> ProbeHistoryRow list" where
  "trim_history k t = keep_newest 50 (\<lambda>r. pb_key r = k) t"

definition record_probes :: "time \<Rightarrow> string \<Rightarrow> PodHealth list \<Rightarrow> ProbeHistoryRow list \<Rightarrow> ProbeHistoryRow list" where
  "record_probes now app_name pods t =
     fold (\<lambda>p. trim_history (app_name, ph_pod_name p)) pods (t @ map (history_row now app_name) pods)"

text \<open>
  One transaction. PostgreSQL refuses the negative limit of the statement that trims the history, so a snapshot with a pod
  raises there and is rolled back.
\<close>

definition record_snapshot ::
  "sql_backend \<Rightarrow> time \<Rightarrow> int \<Rightarrow> int \<Rightarrow> AppManifest \<Rightarrow> SnapshotSpec \<Rightarrow> RuntimeResult \<Rightarrow> HealthReport \<Rightarrow> int \<Rightarrow> string \<Rightarrow>
   RolloutCounts \<Rightarrow> (AppStore, unit) eff" where
  "record_snapshot be now ttl node_ttl m spec res report revision revision_status counts st =
     (let app_name = app_key_for_manifest m; pods = hr_pods report;
          row = status_row m spec res report revision revision_status counts;
          touched = touch_pod_nodes now app_name (filter (\<lambda>x. x \<noteq> []) (map ph_pod_name pods)) (pod_nodes_tbl st)
      in if be = PgConn \<and> pods \<noteq> [] then (Inl (RuntimeError ''LIMIT must not be negative''), st)
         else (Inr (), st\<lparr>
           app_status_tbl := upsert as_app_name (as_replace row) row (app_status_tbl st),
           pod_status_tbl := expire_pods now ttl app_name (upsert_pods (map (pod_status_row now app_name res) pods) (pod_status_tbl st)),
           pod_nodes_tbl := place_pods now app_name (rr_pod_states res) (expire_pod_nodes now node_ttl app_name touched),
           probe_history := record_probes now app_name pods (probe_history st),
           ap_registry := set_revision_status revision_status (mf_image m) app_name revision (ap_registry st)\<rparr>))"

section \<open>Reading and removing\<close>

definition get_status :: "string \<Rightarrow> AppStore \<Rightarrow> AppStatus option" where
  "get_status app_name st = find (\<lambda>r. as_app_name r = app_name) (app_status_tbl st)"

definition list_status :: "AppStore \<Rightarrow> AppStatus list" where
  "list_status st = sort_key as_app_name (app_status_tbl st)"

definition list_pods :: "string \<Rightarrow> AppStore \<Rightarrow> PodStatusRow list" where
  "list_pods app_name st = sort_key pd_pod_name (filter (\<lambda>r. pd_app_name r = app_name) (pod_status_tbl st))"

text \<open>The two halves of the union: every pod with its placement if it has one, and the placements without a pod.\<close>

definition list_pod_nodes :: "string \<Rightarrow> AppStore \<Rightarrow> (string \<times> string option \<times> PodStatusRow option) list" where
  "list_pod_nodes app_name st = sort_key fst
     (map (\<lambda>r. (pd_pod_name r, map_option pn_node_id (find (\<lambda>n. pn_key n = pd_key r) (pod_nodes_tbl st)), Some r))
        (filter (\<lambda>r. pd_app_name r = app_name) (pod_status_tbl st)) @
      map (\<lambda>n. (pn_pod_name n, Some (pn_node_id n), None))
        (filter (\<lambda>n. pn_app_name n = app_name \<and> \<not> exists_row (\<lambda>r. pd_key r = pn_key n) (pod_status_tbl st)) (pod_nodes_tbl st)))"

definition set_pod_nodes :: "time \<Rightarrow> string \<Rightarrow> (string \<times> string) list \<Rightarrow> (AppStore, unit) eff" where
  "set_pod_nodes now app_name placements st =
     (if distinct (map fst placements)
      then (Inr (), st\<lparr>pod_nodes_tbl := delete_where (\<lambda>r. pn_app_name r = app_name) (pod_nodes_tbl st) @
        map (\<lambda>(pod, nid). \<lparr>pn_app_name = app_name, pn_pod_name = pod, pn_node_id = nid, pn_updated_at = now\<rparr>) placements\<rparr>)
      else (Inl IntegrityError, st))"

definition get_probe_history :: "string \<Rightarrow> int \<Rightarrow> AppStore \<Rightarrow> ProbeHistoryRow list" where
  "get_probe_history app_name limit st =
     sql_limit limit (rev (filter (\<lambda>r. pb_app_name r = app_name) (probe_history st)))"

definition delete_app_state :: "string \<Rightarrow> bool \<Rightarrow> AppStore \<Rightarrow> AppStore" where
  "delete_app_state app_name purge st =
     (let st1 = st\<lparr>pod_status_tbl := delete_where (\<lambda>r. pd_app_name r = app_name) (pod_status_tbl st),
            pod_nodes_tbl := delete_where (\<lambda>r. pn_app_name r = app_name) (pod_nodes_tbl st),
            app_status_tbl := delete_where (\<lambda>r. as_app_name r = app_name) (app_status_tbl st),
            ap_nodes := delete_volume_attachments app_name (ap_nodes st)\<rparr>
      in if purge then st1\<lparr>ap_registry := purge_history app_name (ap_registry st1)\<rparr> else st1)"

section \<open>What a snapshot leaves behind\<close>

interpretation as_upd: keyed_update as_app_name as_replace
  by unfold_locales (simp add: as_replace_def)

interpretation pd_upd: keyed_update pd_key pd_replace
  by unfold_locales (simp add: pd_key_def pd_replace_def)

interpretation pn_upd: keyed_update pn_key pn_replace
  by unfold_locales (simp add: pn_key_def pn_replace_def)

lemma pd_replace_same [simp]: "pd_key r = pd_key n \<Longrightarrow> pd_replace n r = n"
  by (simp add: pd_replace_def pd_key_def)

lemma as_replace_same [simp]: "as_app_name r = as_app_name n \<Longrightarrow> as_replace n r = n"
  by (simp add: as_replace_def)

lemma find_upsert_pods:
  assumes "distinct (map pd_key rows)"
  shows "find (\<lambda>r. pd_key r = k) (upsert_pods rows t) =
    (case find (\<lambda>r. pd_key r = k) rows of Some n \<Rightarrow> Some n | None \<Rightarrow> find (\<lambda>r. pd_key r = k) t)"
  using assms
proof (induction rows arbitrary: t)
  case Nil
  then show ?case by (simp add: upsert_pods_def)
next
  case (Cons n rows)
  have one: "find (\<lambda>r. pd_key r = k) (upsert pd_key (pd_replace n) n t) =
      (if k = pd_key n then Some n else find (\<lambda>r. pd_key r = k) t)"
    by (auto simp: pd_upd.lookup_upsert split: option.splits dest: find_key_Some)
  have "find (\<lambda>r. pd_key r = pd_key n) rows = None"
    using Cons.prems by (auto simp: find_None_iff rev_image_eqI)
  with Cons one show ?case by (auto simp: upsert_pods_def split: option.splits)
qed

lemma find_pod_rows:
  "find (\<lambda>r. pd_key r = (app, x)) (map (pod_status_row now app res) pods) =
    map_option (pod_status_row now app res) (find (\<lambda>p. ph_pod_name p = x) pods)"
  by (induction pods) (auto simp: pd_key_def pod_status_row_def Let_def)

lemma find_other_app_rows:
  "a \<noteq> app \<Longrightarrow> find (\<lambda>r. pd_key r = (a, x)) (map (pod_status_row now app res) pods) = None"
  by (induction pods) (auto simp: pd_key_def pod_status_row_def Let_def)

lemma keep_newest_spec: "filter p (keep_newest k p t) = drop (rowcount p t - k) (filter p t)"
  by (induction t) (auto simp: rowcount_def Suc_diff_le not_le)

lemma keep_newest_other: "(\<And>r. q r \<Longrightarrow> \<not> p r) \<Longrightarrow> filter q (keep_newest k p t) = filter q t"
  by (induction t) auto

definition newest :: "nat \<Rightarrow> 'r list \<Rightarrow> 'r list" where
  "newest k xs = drop (length xs - k) xs"

lemma filter_trim_history:
  "filter (\<lambda>r. pb_key r = k) (trim_history k' t) =
    (if k = k' then newest 50 (filter (\<lambda>r. pb_key r = k) t) else filter (\<lambda>r. pb_key r = k) t)"
proof (cases "k = k'")
  case True
  then show ?thesis by (simp add: trim_history_def keep_newest_spec newest_def rowcount_def)
next
  case False
  then have "filter (\<lambda>r. pb_key r = k) (keep_newest 50 (\<lambda>r. pb_key r = k') t) = filter (\<lambda>r. pb_key r = k) t"
    by (intro keep_newest_other) auto
  with False show ?thesis by (simp add: trim_history_def)
qed

lemma newest_idem [simp]: "newest k (newest k xs) = newest k xs"
  by (simp add: newest_def)

lemma filter_trim_all:
  "filter (\<lambda>r. pb_key r = k) (fold (\<lambda>p. trim_history (app, ph_pod_name p)) pods t) =
    (if list_ex (\<lambda>p. k = (app, ph_pod_name p)) pods then newest 50 (filter (\<lambda>r. pb_key r = k) t)
     else filter (\<lambda>r. pb_key r = k) t)"
  by (induction pods arbitrary: t) (auto simp: filter_trim_history)

lemma filter_record_probes:
  "filter (\<lambda>r. pb_key r = k) (record_probes now app pods t) =
    (let new = map (history_row now app) (filter (\<lambda>p. k = (app, ph_pod_name p)) pods)
     in if new = [] then filter (\<lambda>r. pb_key r = k) t else newest 50 (filter (\<lambda>r. pb_key r = k) t @ new))"
proof -
  have "filter (\<lambda>r. pb_key r = k) (map (history_row now app) pods) =
      map (history_row now app) (filter (\<lambda>p. k = (app, ph_pod_name p)) pods)"
    by (induction pods) (auto simp: pb_key_def history_row_def)
  moreover have "list_ex (\<lambda>p. k = (app, ph_pod_name p)) pods \<longleftrightarrow> filter (\<lambda>p. k = (app, ph_pod_name p)) pods \<noteq> []"
    by (induction pods) auto
  ultimately show ?thesis
    by (simp add: record_probes_def filter_trim_all Let_def)
qed

lemma find_delete_where_pk:
  assumes "primary_key key t"
  shows "find (\<lambda>r. key r = k) (delete_where p t) =
    Option.bind (find (\<lambda>r. key r = k) t) (\<lambda>r. if p r then None else Some r)"
proof -
  have "find (\<lambda>r. key r = k) (filter (\<lambda>r. \<not> p r) t) = None" if "k \<notin> key ` set t"
    using that by (auto simp: find_None_iff)
  with assms show ?thesis
    unfolding delete_where_def primary_key_def by (induction t) (auto simp: find_None_iff rev_image_eqI)
qed

lemma filter_distinct_find:
  "distinct (map f xs) \<Longrightarrow> filter (\<lambda>p. x = f p) xs = (case find (\<lambda>p. f p = x) xs of None \<Rightarrow> [] | Some p \<Rightarrow> [p])"
  by (induction xs) (auto simp: find_None_iff filter_empty_conv split: option.splits dest: find_key_Some)

lemma pk_upsert_pods: "primary_key pd_key t \<Longrightarrow> primary_key pd_key (upsert_pods rows t)"
  by (induction rows arbitrary: t) (simp_all add: upsert_pods_def pd_upd.pk_upsert)

definition pod_alive :: "time \<Rightarrow> int \<Rightarrow> PodStatusRow \<Rightarrow> bool" where
  "pod_alive now ttl r = (case pd_updated_at r of None \<Rightarrow> False | Some u \<Rightarrow> now - ttl * 1000000 \<le> u)"

lemma bind_Some_id: "Option.bind x Some = x"
  by (cases x) simp_all

lemma find_expire_pods:
  assumes "primary_key pd_key t"
  shows "find (\<lambda>r. pd_key r = (a, x)) (expire_pods now ttl app t) = Option.bind (find (\<lambda>r. pd_key r = (a, x)) t)
    (\<lambda>r. if a = app \<and> 0 < ttl \<and> \<not> pod_alive now ttl r then None else Some r)"
proof -
  have "find (\<lambda>r. pd_key r = (a, x)) (expire_pods now ttl app t) = Option.bind (find (\<lambda>r. pd_key r = (a, x)) t)
      (\<lambda>r. if pd_app_name r = app \<and> 0 < ttl \<and> \<not> pod_alive now ttl r then None else Some r)"
  proof (cases "0 < ttl")
    case True
    then show ?thesis using assms unfolding expire_pods_def
      by (simp add: find_delete_where_pk pod_alive_def not_le option.case_distrib cong: option.case_cong)
  qed (simp add: expire_pods_def bind_Some_id)
  moreover have "pd_app_name r = a" if "find (\<lambda>r. pd_key r = (a, x)) t = Some r" for r
    using find_key_Some [OF that] by (simp add: pd_key_def)
  ultimately show ?thesis by (cases "find (\<lambda>r. pd_key r = (a, x)) t") simp_all
qed

text \<open>The node that a runtime reports for a pod, and how the placements follow from it.\<close>

definition reported_node :: "PodState list \<Rightarrow> string \<Rightarrow> string option" where
  "reported_node states x =
     Option.bind (find (\<lambda>p. ps_pod_name p = x \<and> nonempty (ps_node_id p) \<noteq> None) (rev states)) (\<lambda>p. nonempty (ps_node_id p))"

lemma find_place_pods:
  "find (\<lambda>r. pn_key r = (a, x)) (place_pods now app states t) =
    (case (if a = app then reported_node states x else None) of
       Some n \<Rightarrow> Some \<lparr>pn_app_name = app, pn_pod_name = x, pn_node_id = n, pn_updated_at = now\<rparr>
     | None \<Rightarrow> find (\<lambda>r. pn_key r = (a, x)) t)"
proof (induction states rule: rev_induct)
  case Nil
  show ?case by (simp add: place_pods_def reported_node_def)
next
  case (snoc p states)
  show ?case
  proof (cases "nonempty (ps_node_id p)")
    case None
    then have "place_pods now app (states @ [p]) t = place_pods now app states t" by (simp add: place_pods_def)
    with snoc None show ?thesis by (simp add: reported_node_def)
  next
    case (Some n)
    let ?n = "\<lparr>pn_app_name = app, pn_pod_name = ps_pod_name p, pn_node_id = n, pn_updated_at = now\<rparr>"
    have place: "place_pods now app (states @ [p]) t = upsert pn_key (pn_replace ?n) ?n (place_pods now app states t)"
      using Some by (simp add: place_pods_def Let_def)
    have same: "pn_replace ?n r = ?n" if "pn_key r = (app, ps_pod_name p)" for r
      using that by (cases r) (simp add: pn_replace_def pn_key_def)
    show ?thesis
    proof (cases "(a, x) = (app, ps_pod_name p)")
      case True
      have "find (\<lambda>r. pn_key r = (a, x)) (place_pods now app (states @ [p]) t) = Some ?n"
      proof (cases "find (\<lambda>r. pn_key r = (a, x)) (place_pods now app states t)")
        case None
        with True show ?thesis unfolding place pn_upd.lookup_upsert by (simp add: pn_key_def)
      next
        case (Some r)
        then have "pn_replace ?n r = ?n" using find_key_Some [OF Some] True by (intro same) simp
        with Some True show ?thesis unfolding place pn_upd.lookup_upsert by (simp add: pn_key_def)
      qed
      with True Some show ?thesis by (simp add: reported_node_def)
    next
      case False
      then have "find (\<lambda>r. pn_key r = (a, x)) (place_pods now app (states @ [p]) t) =
          find (\<lambda>r. pn_key r = (a, x)) (place_pods now app states t)"
        unfolding place pn_upd.lookup_upsert by (auto simp: pn_key_def)
      moreover have "(if a = app then reported_node (states @ [p]) x else None) = (if a = app then reported_node states x else None)"
        using False by (cases "a = app") (auto simp: reported_node_def)
      ultimately show ?thesis using snoc by simp
    qed
  qed
qed

lemma find_kept_nodes:
  assumes "primary_key pn_key t"
  shows "find (\<lambda>r. pn_key r = (a, x)) (expire_pod_nodes now ttl app (touch_pod_nodes now app pods t)) =
    (if a = app then Option.bind (find (\<lambda>r. pn_key r = (a, x)) t) (\<lambda>r. if x \<in> set pods then Some (r\<lparr>pn_updated_at := now\<rparr>)
         else if 0 < ttl \<and> pn_updated_at r < now - ttl * 1000000 then None else Some r)
     else find (\<lambda>r. pn_key r = (a, x)) t)"
proof -
  have touch: "find (\<lambda>r. pn_key r = (a, x)) (touch_pod_nodes now app pods t) =
      map_option (\<lambda>r. if pn_app_name r = app \<and> pn_pod_name r \<in> set pods then pn_touch now r else r) (find (\<lambda>r. pn_key r = (a, x)) t)"
    unfolding touch_pod_nodes_def by (rule find_update_where) (simp add: pn_touch_def pn_key_def)
  have pk: "primary_key pn_key (touch_pod_nodes now app pods t)"
    using assms by (simp add: primary_key_def touch_pod_nodes_def map_key_update_where pn_touch_def pn_key_def)
  have "find (\<lambda>r. pn_key r = (a, x)) (expire_pod_nodes now ttl app (touch_pod_nodes now app pods t)) =
      Option.bind (find (\<lambda>r. pn_key r = (a, x)) (touch_pod_nodes now app pods t))
        (\<lambda>r. if pn_app_name r = app \<and> 0 < ttl \<and> pn_updated_at r < now - ttl * 1000000 then None else Some r)"
    unfolding expire_pod_nodes_def by (simp add: find_delete_where_pk [OF pk])
  note kept = this
  have key: "pn_app_name r = a \<and> pn_pod_name r = x" if "find (\<lambda>r. pn_key r = (a, x)) t = Some r" for r
    using find_key_Some [OF that] by (simp add: pn_key_def)
  show ?thesis
  proof (cases "find (\<lambda>r. pn_key r = (a, x)) t")
    case (Some r)
    with key [OF this] kept touch show ?thesis by (cases "a = app"; cases "x \<in> set pods") (simp_all add: pn_touch_def)
  next
    case None
    with kept touch show ?thesis by (cases "a = app") simp_all
  qed
qed

text \<open>
  (C33) A snapshot on SQLite always succeeds, and for a report that names no pod twice, over tables with unique keys, it is what the
  views read afterwards. The status row is the one of this reconcile; each
  pod of the report is stored as reported, and a pod the report no longer has stays until its time to live, if one is set, has passed; the
  history of a reported pod is the newest fifty of what it had and the new probe; a pod is placed on the node the runtime reports for it,
  and without one keeps its placement, with a new time when it is in the report and until the time to live of placements has passed otherwise; the
  status and the image of the revision are recorded. No row of another app changes in any of these tables, and the node tables do not change.
\<close>

theorem snapshot_readback:
  assumes "distinct (map ph_pod_name (hr_pods report))" and "app = app_key_for_manifest m"
    and "primary_key pd_key (pod_status_tbl st)" and "primary_key pn_key (pod_nodes_tbl st)"
  shows "\<exists>st'. record_snapshot SqliteConn now ttl node_ttl m spec res report revision status counts st = (Inr (), st') \<and>
    get_status app st' = Some (status_row m spec res report revision status counts) \<and>
    (\<forall>a. a \<noteq> app \<longrightarrow> get_status a st' = get_status a st) \<and>
    (\<forall>a x. find (\<lambda>r. pd_key r = (a, x)) (pod_status_tbl st') =
       (if a = app then case find (\<lambda>p. ph_pod_name p = x) (hr_pods report) of
            Some p \<Rightarrow> Some (pod_status_row now app res p)
          | None \<Rightarrow> Option.bind (find (\<lambda>r. pd_key r = (a, x)) (pod_status_tbl st))
              (\<lambda>r. if ttl \<le> 0 \<or> pod_alive now ttl r then Some r else None)
        else find (\<lambda>r. pd_key r = (a, x)) (pod_status_tbl st))) \<and>
    (\<forall>a x. find (\<lambda>r. pn_key r = (a, x)) (pod_nodes_tbl st') =
       (if a = app then case reported_node (rr_pod_states res) x of
            Some n \<Rightarrow> Some \<lparr>pn_app_name = app, pn_pod_name = x, pn_node_id = n, pn_updated_at = now\<rparr>
          | None \<Rightarrow> Option.bind (find (\<lambda>r. pn_key r = (a, x)) (pod_nodes_tbl st))
              (\<lambda>r. if x \<noteq> [] \<and> x \<in> ph_pod_name ` set (hr_pods report) then Some (r\<lparr>pn_updated_at := now\<rparr>)
                 else if 0 < node_ttl \<and> pn_updated_at r < now - node_ttl * 1000000 then None else Some r)
        else find (\<lambda>r. pn_key r = (a, x)) (pod_nodes_tbl st))) \<and>
    (\<forall>a x. filter (\<lambda>r. pb_key r = (a, x)) (probe_history st') =
       (case (if a = app then find (\<lambda>p. ph_pod_name p = x) (hr_pods report) else None) of
          None \<Rightarrow> filter (\<lambda>r. pb_key r = (a, x)) (probe_history st)
        | Some p \<Rightarrow> newest 50 (filter (\<lambda>r. pb_key r = (a, x)) (probe_history st) @ [history_row now app p]))) \<and>
    ap_registry st' = (ap_registry st)\<lparr>app_revisions := map (\<lambda>r. if rv_app_name r = app \<and> rv_revision r = revision
        then r\<lparr>rv_status := status, rv_image := mf_image m\<rparr> else r) (app_revisions (ap_registry st))\<rparr> \<and>
    ap_nodes st' = ap_nodes st"
proof -
  define st' where "st' = snd (record_snapshot SqliteConn now ttl node_ttl m spec res report revision status counts st)"
  let ?row = "status_row m spec res report revision status counts" and ?rows = "map (pod_status_row now app res) (hr_pods report)"
  have run: "record_snapshot SqliteConn now ttl node_ttl m spec res report revision status counts st = (Inr (), st')"
    and tbl: "app_status_tbl st' = upsert as_app_name (as_replace ?row) ?row (app_status_tbl st)"
      "pod_status_tbl st' = expire_pods now ttl app (upsert_pods ?rows (pod_status_tbl st))"
      "pod_nodes_tbl st' = place_pods now app (rr_pod_states res) (expire_pod_nodes now node_ttl app
         (touch_pod_nodes now app (filter (\<lambda>x. x \<noteq> []) (map ph_pod_name (hr_pods report))) (pod_nodes_tbl st)))"
      "probe_history st' = record_probes now app (hr_pods report) (probe_history st)"
    and reg: "ap_registry st' = set_revision_status status (mf_image m) app revision (ap_registry st)" "ap_nodes st' = ap_nodes st"
    by (simp_all add: st'_def record_snapshot_def Let_def assms(2))
  have name: "as_app_name ?row = app" by (simp add: status_row_def assms(2))
  have status: "get_status a st' = (if a = app then Some ?row else get_status a st)" for a
    unfolding get_status_def tbl as_upd.lookup_upsert name
    by (auto simp: name split: option.splits dest: find_key_Some)
  have new: "ttl \<le> 0 \<or> pod_alive now ttl (pod_status_row now app res p)" for p
    by (auto simp: pod_alive_def pod_status_row_def Let_def)
  have keep: "(\<lambda>r. if 0 < ttl \<and> \<not> pod_alive now ttl r then None else Some r) =
      (\<lambda>r. if ttl \<le> 0 \<or> pod_alive now ttl r then Some r else None)" by auto
  have "distinct (map pd_key ?rows)"
    using assms(1) by (auto simp: distinct_map inj_on_def pd_key_def pod_status_row_def Let_def)
  then have pods: "find (\<lambda>r. pd_key r = (a, x)) (pod_status_tbl st') =
       (if a = app then case find (\<lambda>p. ph_pod_name p = x) (hr_pods report) of
            Some p \<Rightarrow> Some (pod_status_row now app res p)
          | None \<Rightarrow> Option.bind (find (\<lambda>r. pd_key r = (a, x)) (pod_status_tbl st))
              (\<lambda>r. if ttl \<le> 0 \<or> pod_alive now ttl r then Some r else None)
        else find (\<lambda>r. pd_key r = (a, x)) (pod_status_tbl st))" for a x
    unfolding tbl find_expire_pods [OF pk_upsert_pods [OF assms(3)]]
    using new by (cases "a = app") (auto simp: find_upsert_pods find_pod_rows find_other_app_rows keep split: option.splits)
  have nodes: "find (\<lambda>r. pn_key r = (a, x)) (pod_nodes_tbl st') =
       (if a = app then case reported_node (rr_pod_states res) x of
            Some n \<Rightarrow> Some \<lparr>pn_app_name = app, pn_pod_name = x, pn_node_id = n, pn_updated_at = now\<rparr>
          | None \<Rightarrow> Option.bind (find (\<lambda>r. pn_key r = (a, x)) (pod_nodes_tbl st))
              (\<lambda>r. if x \<noteq> [] \<and> x \<in> ph_pod_name ` set (hr_pods report) then Some (r\<lparr>pn_updated_at := now\<rparr>)
                 else if 0 < node_ttl \<and> pn_updated_at r < now - node_ttl * 1000000 then None else Some r)
        else find (\<lambda>r. pn_key r = (a, x)) (pod_nodes_tbl st))" for a x
    unfolding tbl find_place_pods find_kept_nodes [OF assms(4)] by (simp add: conj_commute split: option.split)
  have one: "filter (\<lambda>p. (a, x) = (app, ph_pod_name p)) (hr_pods report) =
      (case (if a = app then find (\<lambda>p. ph_pod_name p = x) (hr_pods report) else None) of None \<Rightarrow> [] | Some p \<Rightarrow> [p])" for a x
    using filter_distinct_find [OF assms(1), of x] by simp
  have probes: "filter (\<lambda>r. pb_key r = (a, x)) (probe_history st') =
       (case (if a = app then find (\<lambda>p. ph_pod_name p = x) (hr_pods report) else None) of
          None \<Rightarrow> filter (\<lambda>r. pb_key r = (a, x)) (probe_history st)
        | Some p \<Rightarrow> newest 50 (filter (\<lambda>r. pb_key r = (a, x)) (probe_history st) @ [history_row now app p]))" for a x
    unfolding tbl filter_record_probes one Let_def by (simp split: option.split)
  have registry: "ap_registry st' = (ap_registry st)\<lparr>app_revisions := map (\<lambda>r. if rv_app_name r = app \<and> rv_revision r = revision
      then r\<lparr>rv_status := status, rv_image := mf_image m\<rparr> else r) (app_revisions (ap_registry st))\<rparr>"
    unfolding reg set_revision_status_def update_where_def rv_key_def by simp
  show ?thesis
    by (intro exI [of _ st'] conjI allI) (use run status pods nodes probes registry reg(2) in simp_all)
qed

definition demo_pod_health :: "string \<Rightarrow> bool \<Rightarrow> PodHealth" where
  "demo_pod_health x b = \<lparr>ph_pod_name = x, ph_ready = b, ph_live = True, ph_readiness_message = ''r'', ph_liveness_message = ''l''\<rparr>"

definition demo_health_report :: "PodHealth list \<Rightarrow> HealthReport" where
  "demo_health_report pods = \<lparr>hr_ready_replicas = 1, hr_live_replicas = 1, hr_pods = pods\<rparr>"

definition demo_runtime :: RuntimeResult where
  "demo_runtime = \<lparr>rr_created = 1, rr_updated = 0, rr_removed = 0, rr_pod_states = [\<lparr>ps_pod_name = ''p'', ps_status = ''running'',
     ps_endpoint = Some ''10.0.0.1:80'', ps_exit_code = None, ps_finished_at = None, ps_node_id = Some ''n''\<rparr>]\<rparr>"

definition demo_counts :: RolloutCounts where
  "demo_counts = \<lparr>rc_current_ready = 1, rc_current_live = 1, rc_old_ready = 0, rc_old_live = 0, rc_overlap_ready = 0, rc_overlap_live = 0\<rparr>"

definition empty_app_store :: AppStore where
  "empty_app_store = \<lparr>app_status_tbl = [], pod_status_tbl = [], pod_nodes_tbl = [], probe_history = [], ap_registry = empty_registry,
     ap_nodes = empty_nodes\<rparr>"

definition demo_spec :: SnapshotSpec where
  "demo_spec = \<lparr>ss_replicas = 1, ss_ingress = None\<rparr>"

theorem snapshot_readback_witness:
  "\<exists>st'. record_snapshot SqliteConn 9 30 300 (demo_app ''x'') demo_spec demo_runtime (demo_health_report [demo_pod_health ''p'' True, demo_pod_health ''q'' False])
      2 ''live'' demo_counts empty_app_store = (Inr (), st') \<and>
    map_option pd_endpoint (find (\<lambda>r. pd_key r = (app_key_for_manifest (demo_app ''x''), ''p'')) (pod_status_tbl st')) = Some (Some ''10.0.0.1:80'') \<and>
    map_option pd_status (find (\<lambda>r. pd_key r = (app_key_for_manifest (demo_app ''x''), ''q'')) (pod_status_tbl st')) = Some ''unknown''"
proof -
  let ?rep = "demo_health_report [demo_pod_health ''p'' True, demo_pod_health ''q'' False]"
  have d: "distinct (map ph_pod_name (hr_pods ?rep))" and pk: "primary_key pd_key (pod_status_tbl empty_app_store)"
      "primary_key pn_key (pod_nodes_tbl empty_app_store)"
    and f: "find (\<lambda>p. ph_pod_name p = ''p'') (hr_pods ?rep) = Some (demo_pod_health ''p'' True)"
      "find (\<lambda>p. ph_pod_name p = ''q'') (hr_pods ?rep) = Some (demo_pod_health ''q'' False)"
    and r: "pd_endpoint (pod_status_row 9 app demo_runtime (demo_pod_health ''p'' True)) = Some ''10.0.0.1:80''"
      "pd_status (pod_status_row 9 app demo_runtime (demo_pod_health ''q'' False)) = ''unknown''" for app
    by (simp_all add: demo_health_report_def demo_pod_health_def empty_app_store_def primary_key_def pod_status_row_def demo_runtime_def
        state_by_id_def Let_def)
  from snapshot_readback [OF d refl pk, of 9 30 300 "demo_app ''x''" demo_spec demo_runtime 2 "''live''" demo_counts] f r show ?thesis by auto
qed

text \<open>
  On PostgreSQL no snapshot with a pod is ever stored: the statement that trims the probe history has a negative limit,
  which only SQLite accepts, so \<^verbatim>\<open>record_snapshot\<close> raises and its transaction is rolled back.
\<close>

theorem snapshot_fails_on_postgres:
  assumes "hr_pods report \<noteq> []"
  shows "record_snapshot PgConn now ttl node_ttl m spec res report revision status counts st =
    (Inl (RuntimeError ''LIMIT must not be negative''), st)"
  using assms by (simp add: record_snapshot_def Let_def)

text \<open>The history of a pod stays at fifty rows or fewer along any run of snapshots and deletions of apps.\<close>

definition history_bounded :: "AppStore \<Rightarrow> bool" where
  "history_bounded st \<longleftrightarrow> (\<forall>k. rowcount (\<lambda>r. pb_key r = k) (probe_history st) \<le> 50)"

datatype app_op =
    Snapshot sql_backend time int int AppManifest SnapshotSpec RuntimeResult HealthReport int string RolloutCounts
  | SetPodNodes time string "(string \<times> string) list"
  | DeleteApp string bool

fun run_app_op :: "app_op \<Rightarrow> AppStore \<Rightarrow> AppStore" where
  "run_app_op (Snapshot be now ttl nttl m spec res report rv status counts) st =
     snd (record_snapshot be now ttl nttl m spec res report rv status counts st)"
| "run_app_op (SetPodNodes now app ps) st = snd (set_pod_nodes now app ps st)"
| "run_app_op (DeleteApp app purge) st = delete_app_state app purge st"

lemma length_newest: "length (newest k xs) \<le> k"
  by (simp add: newest_def)

lemma run_app_op_bounded: "history_bounded st \<Longrightarrow> history_bounded (run_app_op op st)"
proof (cases op)
  case (Snapshot be now ttl nttl m spec res report rv status counts)
  assume b: "history_bounded st"
  have "length (filter (\<lambda>r. pb_key r = k) (record_probes now app pods (probe_history st))) \<le> 50" for k app pods
    using b unfolding filter_record_probes Let_def history_bounded_def rowcount_def by (cases k) (simp add: length_newest)
  with Snapshot b show ?thesis by (simp add: record_snapshot_def Let_def history_bounded_def rowcount_def)
qed (simp_all add: history_bounded_def set_pod_nodes_def delete_app_state_def Let_def)

theorem probe_history_bounded:
  "rowcount (\<lambda>r. pb_key r = k) (probe_history (fold run_app_op ops empty_app_store)) \<le> 50"
proof -
  have "history_bounded (fold run_app_op ops st)" if "history_bounded st" for st
    using that by (induction ops arbitrary: st) (simp_all add: run_app_op_bounded)
  moreover have "history_bounded empty_app_store" by (simp add: history_bounded_def empty_app_store_def rowcount_def)
  ultimately show ?thesis unfolding history_bounded_def by blast
qed

end
