(* ===== verification/Edge_Routes.thy ===== *)
theory Edge_Routes
  imports Work_Store Registry
begin

text \<open>
  The tables of edge ingress routes and policies (\<^verbatim>\<open>ae/controller/state.py\<close>), the sites a route bundle is meant for, and the
  documents they are published as (\<^verbatim>\<open>ae/ingress/edge_docs.py\<close>).

  A document column holds what \<^verbatim>\<open>json.dumps\<close> wrote. The time stamps a reader falls back to when a column does not parse do not occur:
  the writers store \<^verbatim>\<open>isoformat()\<close>.
\<close>

section \<open>Routes and policies\<close>

record EdgeRouteRow =
  er_name :: string
  er_namespace :: string
  er_site_id :: string
  er_policy_name :: "string option"
  er_policy_namespace :: "string option"
  er_spec :: json_col
  er_status :: json_col
  er_created_at :: time
  er_updated_at :: time

record EdgePolicyRow =
  pl_name :: string
  pl_namespace :: string
  pl_spec :: json_col
  pl_status :: json_col
  pl_created_at :: time
  pl_updated_at :: time

record EdgeIngressRouteRecord =
  rr_name :: string
  rr_namespace :: string
  rr_site_id :: string
  rr_policy_name :: "string option"
  rr_policy_namespace :: "string option"
  rr_spec :: dict
  rr_status :: "dict option"
  rr_created_at :: time
  rr_updated_at :: time

record EdgeIngressPolicyRecord =
  pr_name :: string
  pr_namespace :: string
  pr_spec :: dict
  pr_status :: "dict option"
  pr_created_at :: time
  pr_updated_at :: time

record EdgeStore =
  edge_routes :: "EdgeRouteRow list"
  edge_policies :: "EdgePolicyRow list"

definition er_key :: "EdgeRouteRow \<Rightarrow> string \<times> string" where
  "er_key r = (er_name r, er_namespace r)"

definition pl_key :: "EdgePolicyRow \<Rightarrow> string \<times> string" where
  "pl_key r = (pl_name r, pl_namespace r)"

definition opt_dump :: "dict option \<Rightarrow> json_col" where
  "opt_dump x = (case x of None \<Rightarrow> JEmpty | Some d \<Rightarrow> JDump (JObj d))"

definition er_replace :: "EdgeRouteRow \<Rightarrow> EdgeRouteRow \<Rightarrow> EdgeRouteRow" where
  "er_replace n r = n\<lparr>er_name := er_name r, er_namespace := er_namespace r, er_created_at := er_created_at r\<rparr>"

definition upsert_edge_ingress_route ::
  "time \<Rightarrow> string \<Rightarrow> string \<Rightarrow> string \<Rightarrow> string option \<Rightarrow> string option \<Rightarrow> dict \<Rightarrow> dict option \<Rightarrow> EdgeStore \<Rightarrow> EdgeStore" where
  "upsert_edge_ingress_route now name namespace site_id policy_name policy_namespace document status st =
     (let n = \<lparr>er_name = name, er_namespace = namespace, er_site_id = site_id, er_policy_name = policy_name,
            er_policy_namespace = policy_namespace, er_spec = JDump (JObj document), er_status = opt_dump status,
            er_created_at = now, er_updated_at = now\<rparr>
      in st\<lparr>edge_routes := upsert er_key (er_replace n) n (edge_routes st)\<rparr>)"

definition pl_replace :: "EdgePolicyRow \<Rightarrow> EdgePolicyRow \<Rightarrow> EdgePolicyRow" where
  "pl_replace n r = n\<lparr>pl_name := pl_name r, pl_namespace := pl_namespace r, pl_created_at := pl_created_at r\<rparr>"

definition upsert_edge_ingress_policy :: "time \<Rightarrow> string \<Rightarrow> string \<Rightarrow> dict \<Rightarrow> dict option \<Rightarrow> EdgeStore \<Rightarrow> EdgeStore" where
  "upsert_edge_ingress_policy now name namespace document status st =
     (let n = \<lparr>pl_name = name, pl_namespace = namespace, pl_spec = JDump (JObj document), pl_status = opt_dump status,
            pl_created_at = now, pl_updated_at = now\<rparr>
      in st\<lparr>edge_policies := upsert pl_key (pl_replace n) n (edge_policies st)\<rparr>)"

definition er_set_status :: "dict \<times> time \<Rightarrow> EdgeRouteRow \<Rightarrow> EdgeRouteRow" where
  "er_set_status a r = r\<lparr>er_status := JDump (JObj (fst a)), er_updated_at := snd a\<rparr>"

definition update_edge_ingress_route_status :: "time \<Rightarrow> string \<Rightarrow> string \<Rightarrow> dict \<Rightarrow> EdgeStore \<Rightarrow> EdgeStore" where
  "update_edge_ingress_route_status now name namespace status st =
     st\<lparr>edge_routes := update_where (\<lambda>r. er_key r = (name, namespace)) (er_set_status (status, now)) (edge_routes st)\<rparr>"

definition pl_set_status :: "dict \<times> time \<Rightarrow> EdgePolicyRow \<Rightarrow> EdgePolicyRow" where
  "pl_set_status a r = r\<lparr>pl_status := JDump (JObj (fst a)), pl_updated_at := snd a\<rparr>"

definition update_edge_ingress_policy_status :: "time \<Rightarrow> string \<Rightarrow> string \<Rightarrow> dict \<Rightarrow> EdgeStore \<Rightarrow> EdgeStore" where
  "update_edge_ingress_policy_status now name namespace status st =
     st\<lparr>edge_policies := update_where (\<lambda>r. pl_key r = (name, namespace)) (pl_set_status (status, now)) (edge_policies st)\<rparr>"

definition delete_edge_ingress_route :: "sql_backend \<Rightarrow> string \<Rightarrow> string \<Rightarrow> EdgeStore \<Rightarrow> bool \<times> EdgeStore" where
  "delete_edge_ingress_route be name namespace st =
     (let p = (\<lambda>r. er_key r = (name, namespace))
      in (changes_seen be (rowcount p (edge_routes st)), st\<lparr>edge_routes := delete_where p (edge_routes st)\<rparr>))"

text \<open>Reading a row: a document that does not parse, or is not a dictionary, is empty.\<close>

definition doc_of :: "json_col \<Rightarrow> dict" where
  "doc_of c = (case loads_or_empty c of JObj d \<Rightarrow> d | _ \<Rightarrow> [])"

definition opt_doc_of :: "json_col \<Rightarrow> dict option" where
  "opt_doc_of c = (case c of JDump (JObj d) \<Rightarrow> Some d | _ \<Rightarrow> None)"

definition route_record_of_row :: "EdgeRouteRow \<Rightarrow> EdgeIngressRouteRecord" where
  "route_record_of_row r = \<lparr>rr_name = er_name r, rr_namespace = er_namespace r, rr_site_id = er_site_id r,
     rr_policy_name = er_policy_name r, rr_policy_namespace = er_policy_namespace r, rr_spec = doc_of (er_spec r),
     rr_status = opt_doc_of (er_status r), rr_created_at = er_created_at r, rr_updated_at = er_updated_at r\<rparr>"

definition order_routes :: "EdgeRouteRow list \<Rightarrow> EdgeRouteRow list" where
  "order_routes t = sort_key er_namespace (sort_key er_name t)"

definition list_edge_ingress_routes :: "EdgeStore \<Rightarrow> EdgeIngressRouteRecord list" where
  "list_edge_ingress_routes st = map route_record_of_row (order_routes (edge_routes st))"

definition get_edge_ingress_route :: "string \<Rightarrow> string option \<Rightarrow> EdgeStore \<Rightarrow> EdgeIngressRouteRecord option" where
  "get_edge_ingress_route name namespace st =
     (let ns = (case nonempty namespace of None \<Rightarrow> ''default'' | Some x \<Rightarrow> x)
      in find (\<lambda>r. rr_name r = name \<and> rr_namespace r = ns) (list_edge_ingress_routes st))"

definition list_edge_ingress_routes_for_site :: "string \<Rightarrow> EdgeStore \<Rightarrow> EdgeIngressRouteRecord list" where
  "list_edge_ingress_routes_for_site site_id st =
     map route_record_of_row (order_routes (filter (\<lambda>r. er_site_id r = site_id) (edge_routes st)))"

definition policy_record_of_row :: "EdgePolicyRow \<Rightarrow> EdgeIngressPolicyRecord" where
  "policy_record_of_row r = \<lparr>pr_name = pl_name r, pr_namespace = pl_namespace r, pr_spec = doc_of (pl_spec r),
     pr_status = opt_doc_of (pl_status r), pr_created_at = pl_created_at r, pr_updated_at = pl_updated_at r\<rparr>"

definition get_edge_ingress_policy :: "string \<Rightarrow> string \<Rightarrow> EdgeStore \<Rightarrow> EdgeIngressPolicyRecord option" where
  "get_edge_ingress_policy name namespace st =
     map_option policy_record_of_row (find (\<lambda>r. pl_key r = (name, namespace)) (edge_policies st))"

definition list_edge_ingress_policies :: "EdgeStore \<Rightarrow> EdgeIngressPolicyRecord list" where
  "list_edge_ingress_policies st = map policy_record_of_row (sort_key pl_namespace (sort_key pl_name (edge_policies st)))"

section \<open>Sites\<close>

definition list_site_ids :: "WorkStore \<Rightarrow> string list" where
  "list_site_ids ws = filter (\<lambda>x. x \<noteq> []) (sorted_list_of_set (nl_site_id ` set (node_leases ws)))"

definition list_route_bundle_site_ids :: "WorkStore \<Rightarrow> EdgeStore \<Rightarrow> string list" where
  "list_route_bundle_site_ids ws st =
     sorted_list_of_set (set (filter (\<lambda>x. x \<noteq> []) (map (strip \<circ> nl_site_id) (node_leases ws) @ map (strip \<circ> er_site_id) (edge_routes st))))"

section \<open>Documents\<close>

definition ensure_metadata :: "json \<Rightarrow> string \<Rightarrow> string \<Rightarrow> dict" where
  "ensure_metadata meta name namespace =
     (let out = (case meta of JObj d \<Rightarrow> d | _ \<Rightarrow> []);
          out1 = (if name \<noteq> [] \<and> \<not> truthy (dict_get out ''name'') then dict_put ''name'' (JStr name) out else out)
      in if namespace \<noteq> [] \<and> \<not> truthy (dict_get out1 ''namespace'') then dict_put ''namespace'' (JStr namespace) out1 else out1)"

definition normalize_doc :: "string \<Rightarrow> dict \<Rightarrow> string \<Rightarrow> string \<Rightarrow> dict" where
  "normalize_doc kind doc name namespace =
     (if ''spec'' \<in> fst ` set doc
      then let spec = (case dict_get doc ''spec'' of JObj d \<Rightarrow> d | _ \<Rightarrow> []);
               out = dict_setdefault ''kind'' (JStr kind) (dict_setdefault ''apiVersion'' (JStr ''k1s.io/v1'') doc)
           in dict_put ''spec'' (JObj spec) (dict_put ''metadata'' (JObj (ensure_metadata (dict_get doc ''metadata'') name namespace)) out)
      else [(''apiVersion'', JStr ''k1s.io/v1''), (''kind'', JStr kind),
            (''metadata'', JObj (ensure_metadata (JObj []) name namespace)), (''spec'', JObj doc)])"

definition normalize_route_doc :: "EdgeIngressRouteRecord \<Rightarrow> dict" where
  "normalize_route_doc r = normalize_doc ''EdgeIngressRoute'' (rr_spec r) (rr_name r) (rr_namespace r)"

definition normalize_policy_doc :: "EdgeIngressPolicyRecord \<Rightarrow> dict" where
  "normalize_policy_doc r = normalize_doc ''EdgeIngressPolicy'' (pr_spec r) (pr_name r) (pr_namespace r)"

section \<open>The route table as a map\<close>

text \<open>
  The contract of the table: one record per name and namespace, a write keeps the time of creation, a status of a route that
  does not exist is dropped, a removal removes. The namespace column is never empty in what is read back by name, since an
  empty namespace is taken for the default one.
\<close>

datatype edge_op =
  PutRoute time string string string "string option" "string option" dict "dict option"
| PutRouteStatus time string string dict
| DropRoute sql_backend string string

fun run_edge_op :: "edge_op \<Rightarrow> EdgeStore \<Rightarrow> EdgeStore" where
  "run_edge_op (PutRoute now name ns site pol polns doc status) st = upsert_edge_ingress_route now name ns site pol polns doc status st"
| "run_edge_op (PutRouteStatus now name ns status) st = update_edge_ingress_route_status now name ns status st"
| "run_edge_op (DropRoute be name ns) st = snd (delete_edge_ingress_route be name ns st)"

fun spec_edge_op :: "edge_op \<Rightarrow> (string \<times> string \<rightharpoonup> EdgeIngressRouteRecord) \<Rightarrow> (string \<times> string \<rightharpoonup> EdgeIngressRouteRecord)" where
  "spec_edge_op (PutRoute now name ns site pol polns doc status) m = m((name, ns) \<mapsto>
     \<lparr>rr_name = name, rr_namespace = ns, rr_site_id = site, rr_policy_name = pol, rr_policy_namespace = polns, rr_spec = doc,
      rr_status = status, rr_created_at = (case m (name, ns) of None \<Rightarrow> now | Some r \<Rightarrow> rr_created_at r), rr_updated_at = now\<rparr>)"
| "spec_edge_op (PutRouteStatus now name ns status) m = (case m (name, ns) of None \<Rightarrow> m
     | Some r \<Rightarrow> m((name, ns) \<mapsto> r\<lparr>rr_status := Some status, rr_updated_at := now\<rparr>))"
| "spec_edge_op (DropRoute be name ns) m = m((name, ns) := None)"

definition edge_abs :: "EdgeStore \<Rightarrow> string \<times> string \<rightharpoonup> EdgeIngressRouteRecord" where
  "edge_abs st k = map_option route_record_of_row (find (\<lambda>r. er_key r = k) (edge_routes st))"

interpretation er_upd: keyed_update er_key er_replace
  by unfold_locales (simp add: er_key_def er_replace_def)

interpretation er_stat: keyed_update er_key er_set_status
  by unfold_locales (simp add: er_key_def er_set_status_def)

lemma edge_op_pk: "primary_key er_key (edge_routes st) \<Longrightarrow> primary_key er_key (edge_routes (run_edge_op op st))"
  by (cases op) (simp_all add: upsert_edge_ingress_route_def update_edge_ingress_route_status_def delete_edge_ingress_route_def
      Let_def er_upd.pk_upsert er_stat.pk_update primary_key_delete_where)

lemma opt_doc_of_dump [simp]: "opt_doc_of (opt_dump x) = x"
  by (simp add: opt_doc_of_def opt_dump_def split: option.splits)

lemma edge_abs_step: "edge_abs (run_edge_op op st) = spec_edge_op op (edge_abs st)"
proof (cases op)
  case (PutRoute now name ns site pol polns doc status)
  let ?n = "\<lparr>er_name = name, er_namespace = ns, er_site_id = site, er_policy_name = pol, er_policy_namespace = polns,
    er_spec = JDump (JObj doc), er_status = opt_dump status, er_created_at = now, er_updated_at = now\<rparr>"
  have key: "er_key ?n = (name, ns)" by (simp add: er_key_def)
  have "edge_abs (run_edge_op op st) k = spec_edge_op op (edge_abs st) k" for k
  proof (cases "find (\<lambda>r. er_key r = (name, ns)) (edge_routes st)")
    case None
    then show ?thesis
      by (simp add: PutRoute edge_abs_def upsert_edge_ingress_route_def Let_def er_upd.lookup_upsert key route_record_of_row_def doc_of_def loads_or_empty_def)
  next
    case (Some r)
    then have "er_name r = name" "er_namespace r = ns" using find_key_Some [OF Some] by (simp_all add: er_key_def)
    with Some show ?thesis
      by (simp add: PutRoute edge_abs_def upsert_edge_ingress_route_def Let_def er_upd.lookup_upsert key er_replace_def
          route_record_of_row_def doc_of_def loads_or_empty_def)
  qed
  then show ?thesis by blast
next
  case (PutRouteStatus now name ns status)
  have "edge_abs (run_edge_op op st) k = spec_edge_op op (edge_abs st) k" for k
    by (cases "find (\<lambda>r. er_key r = (name, ns)) (edge_routes st)")
      (auto simp: PutRouteStatus edge_abs_def update_edge_ingress_route_status_def er_stat.lookup_update_key
        er_set_status_def route_record_of_row_def opt_doc_of_def)
  then show ?thesis by blast
next
  case (DropRoute be name ns)
  show ?thesis
    by (rule ext) (simp add: DropRoute edge_abs_def delete_edge_ingress_route_def Let_def find_delete_key)
qed

lemma edge_run:
  assumes "primary_key er_key (edge_routes st)"
  shows "edge_abs (fold run_edge_op ops st) = fold spec_edge_op ops (edge_abs st) \<and> primary_key er_key (edge_routes (fold run_edge_op ops st))"
  using assms by (induction ops arbitrary: st) (simp_all add: edge_abs_step edge_op_pk)

lemma find_same_rows:
  assumes "primary_key key t" and "primary_key key t'" and "set t' = set t"
  shows "find (\<lambda>r. key r = k) t' = find (\<lambda>r. key r = k) t"
proof (cases "find (\<lambda>r. key r = k) t")
  case None
  moreover from None have "find (\<lambda>r. key r = k) t' = None" by (simp only: find_None_iff assms(3)) blast
  ultimately show ?thesis by simp
next
  case (Some r)
  with find_key_Some [OF Some] find_key_member [OF assms(2), of r] assms(3) show ?thesis by simp
qed

lemma order_routes_rows:
  "set (order_routes t) = set t" "primary_key er_key (order_routes t) = primary_key er_key t"
  by (simp_all add: order_routes_def primary_key_def distinct_map)

lemma get_route_abs:
  assumes "primary_key er_key (edge_routes st)" and "ns \<noteq> []"
  shows "get_edge_ingress_route name (Some ns) st = edge_abs st (name, ns)"
proof -
  have "find (\<lambda>r. rr_name r = name \<and> rr_namespace r = ns) (map route_record_of_row t) =
      map_option route_record_of_row (find (\<lambda>r. er_key r = (name, ns)) t)" for t
    by (induction t) (simp_all add: er_key_def route_record_of_row_def)
  moreover have "nonempty (Some ns) = Some ns" using assms(2) by (cases ns) (simp_all add: nonempty_def)
  ultimately show ?thesis
    using find_same_rows [OF assms(1), of "order_routes (edge_routes st)"] assms(1)
    by (simp add: get_edge_ingress_route_def list_edge_ingress_routes_def edge_abs_def order_routes_rows)
qed

lemma ran_edge_abs: "primary_key er_key (edge_routes st) \<Longrightarrow> ran (edge_abs st) = route_record_of_row ` set (edge_routes st)"
  unfolding ran_def edge_abs_def by (auto dest: find_key_Some) (metis find_key_member option.simps(9) surj_pair)

lemma site_routes_abs:
  assumes "primary_key er_key (edge_routes st)"
  shows "set (list_edge_ingress_routes_for_site site st) = {r \<in> ran (edge_abs st). rr_site_id r = site}"
  by (auto simp: ran_edge_abs [OF assms] list_edge_ingress_routes_for_site_def order_routes_def route_record_of_row_def)

text \<open>
  (C32) After any sequence of writes, status updates and removals of routes, starting from an empty table, a route is read back by name and
  namespace exactly as the table seen as a map from name and namespace to the last record written (with its first time of creation) has it, and the
  routes listed for a site, from which its bundle is made, are exactly the records of that map that name the site.
\<close>

theorem edge_routes_refine_map:
  assumes "edge_routes st = []" and "ns \<noteq> []"
  shows "get_edge_ingress_route name (Some ns) (fold run_edge_op ops st) = fold spec_edge_op ops Map.empty (name, ns) \<and>
    set (list_edge_ingress_routes_for_site site (fold run_edge_op ops st)) =
      {r \<in> ran (fold spec_edge_op ops Map.empty). rr_site_id r = site}"
proof -
  have "primary_key er_key (edge_routes st)" "edge_abs st = Map.empty"
    using assms(1) by (simp_all add: primary_key_def edge_abs_def fun_eq_iff)
  then have "edge_abs (fold run_edge_op ops st) = fold spec_edge_op ops Map.empty" "primary_key er_key (edge_routes (fold run_edge_op ops st))"
    using edge_run [of st ops] by simp_all
  then show ?thesis using get_route_abs [OF _ assms(2)] site_routes_abs by simp
qed

theorem edge_routes_refine_map_witness:
  "map_option (\<lambda>r. (rr_site_id r, rr_created_at r, rr_updated_at r)) (get_edge_ingress_route ''r'' (Some ''d'')
     (fold run_edge_op [PutRoute 1 ''r'' ''d'' ''s1'' None None [] None, PutRoute 2 ''q'' ''d'' ''s1'' None None [] None,
        PutRoute 3 ''r'' ''d'' ''s2'' None None [] None, DropRoute SqliteConn ''q'' ''d''] \<lparr>edge_routes = [], edge_policies = []\<rparr>)) = Some (''s2'', 1, 3)"
proof -
  let ?ops = "[PutRoute 1 ''r'' ''d'' ''s1'' None None [] None, PutRoute 2 ''q'' ''d'' ''s1'' None None [] None,
    PutRoute 3 ''r'' ''d'' ''s2'' None None [] None, DropRoute SqliteConn ''q'' ''d'']"
  show ?thesis
    using edge_routes_refine_map [of "\<lparr>edge_routes = [], edge_policies = []\<rparr>" "''d''" "''r''" ?ops "''s2''"] by simp
qed

end
