(* ===== verification/Route_Bundles.thy ===== *)
theory Route_Bundles
  imports Hub_Ingress App_State Edge_Routes
begin

text \<open>
  The route bundle publisher (\<^verbatim>\<open>RouteBundlePublisher\<close> in \<^verbatim>\<open>ae/transport/route_bundle_publisher.py\<close>): it collects the routes, policies
  and endpoints of each site, numbers every change of them with a revision, publishes it until the site's gateway has
  acknowledged it, and repeats it from time to time.

  One turn sees one value of the monotonic clock. \<open>re_authority n\<close> is what the authority answers to the \<open>n\<close>-th question of the turn
  (\<open>None\<close>: there is no authority), \<open>re_publish site\<close> whether the publication to a site succeeds, \<open>re_sha256\<close> the digest. What is recorded as
  a metric only is left out; the log keeps what is published and the fence events.
\<close>

section \<open>Canonical JSON\<close>

text \<open>\<^verbatim>\<open>json.dumps(v, sort_keys=True, separators=(",", ":"))\<close> with ASCII output.\<close>

definition dumps_char :: "char \<Rightarrow> string" where
  "dumps_char c = (let n = (of_char c :: nat) in
     if c = CHR 0x22 \<or> c = CHR 0x5C then [CHR 0x5C, c]
     else if n = 10 then [CHR 0x5C, CHR ''n'']
     else if n = 13 then [CHR 0x5C, CHR ''r'']
     else if n = 9 then [CHR 0x5C, CHR ''t'']
     else if n = 12 then [CHR 0x5C, CHR ''f'']
     else if n = 8 then [CHR 0x5C, CHR ''b'']
     else if n < 32 \<or> 126 < n
       then CHR 0x5C # CHR ''u'' # CHR ''0'' # CHR ''0'' # [hex_digit (n div 16), hex_digit (n mod 16)]
     else [c])"

definition dumps_str :: "string \<Rightarrow> string" where
  "dumps_str s = CHR 0x22 # concat (map dumps_char s) @ [CHR 0x22]"

fun json_dumps :: "json \<Rightarrow> string" where
  "json_dumps JNull = ''null''"
| "json_dumps (JBool b) = (if b then ''true'' else ''false'')"
| "json_dumps (JInt i) = show_int i"
| "json_dumps (JStr s) = dumps_str s"
| "json_dumps (JArr xs) = ''['' @ join '','' (map json_dumps xs) @ '']''"
| "json_dumps (JObj kvs) = ''{'' @ join '',''
     (map snd (sort_key fst (map (\<lambda>kv. (fst kv, dumps_str (fst kv) @ '':'' @ json_dumps (snd kv))) kvs))) @ ''}''"

section \<open>Endpoints\<close>

text \<open>\<^verbatim>\<open>s.rsplit(sep, 1)\<close> where it yields two parts.\<close>

fun rsplit_once :: "string \<Rightarrow> string \<Rightarrow> (string \<times> string) option" where
  "rsplit_once sep [] = None"
| "rsplit_once sep (c # cs) = (case rsplit_once sep cs of
     Some (a, b) \<Rightarrow> Some (c # a, b)
   | None \<Rightarrow> if take (length sep) (c # cs) = sep then Some ([], drop (length sep) (c # cs)) else None)"

text \<open>\<^verbatim>\<open>s.partition(c)\<close>, without the separator.\<close>

definition partition_char :: "char \<Rightarrow> string \<Rightarrow> string \<times> string" where
  "partition_char c s = (takeWhile (\<lambda>x. x \<noteq> c) s, tl (dropWhile (\<lambda>x. x \<noteq> c) s))"

definition contains_str :: "string \<Rightarrow> string \<Rightarrow> bool" where
  "contains_str p s = (rsplit_once p s \<noteq> None)"

definition scheme_char :: "char \<Rightarrow> bool" where
  "scheme_char c = (let n = (of_char c :: nat) in (65 \<le> n \<and> n \<le> 90) \<or> (97 \<le> n \<and> n \<le> 122) \<or> (48 \<le> n \<and> n \<le> 57) \<or> c \<in> {CHR ''+'', CHR ''-'', CHR ''.''})"

definition is_alpha :: "char \<Rightarrow> bool" where
  "is_alpha c = (let n = (of_char c :: nat) in (65 \<le> n \<and> n \<le> 90) \<or> (97 \<le> n \<and> n \<le> 122))"

text \<open>The authority part of a URL, as \<^verbatim>\<open>urlsplit\<close> finds it: only behind a scheme that is one, or at the start.\<close>

definition url_netloc :: "string \<Rightarrow> string" where
  "url_netloc raw =
     (let (scheme, rest) = partition_char (CHR '':'') raw;
          url = (if scheme \<noteq> [] \<and> is_alpha (hd scheme) \<and> list_all scheme_char scheme then rest else raw)
      in if take 2 url = ''//'' then takeWhile (\<lambda>c. c \<notin> {CHR ''/'', CHR ''?'', CHR ''#''}) (drop 2 url) else [])"

text \<open>
  \<^verbatim>\<open>urlparse(raw).hostname\<close> and \<^verbatim>\<open>.port\<close>; \<open>None\<close> where one of them raises. The address between brackets is not validated.
\<close>

definition url_host_port :: "string \<Rightarrow> (string option \<times> int option) option" where
  "url_host_port raw =
     (let netloc = url_netloc (filter (\<lambda>c. c \<notin> {CHR 0x09, CHR 0x0A, CHR 0x0D}) (dropWhile (\<lambda>c. of_char c \<le> (32 :: nat)) raw));
          hostinfo = (case rsplit_once ''@'' netloc of Some (_, h) \<Rightarrow> h | None \<Rightarrow> netloc);
          (before, bracketed) = partition_char (CHR ''['') hostinfo;
          (host, port) = (if CHR ''['' \<in> set hostinfo
             then (fst (partition_char (CHR '']'') bracketed), snd (partition_char (CHR '':'') (snd (partition_char (CHR '']'') bracketed))))
             else partition_char (CHR '':'') hostinfo);
          (name, zone) = (takeWhile (\<lambda>c. c \<noteq> CHR ''%'') host, dropWhile (\<lambda>c. c \<noteq> CHR ''%'') host);
          hostname = (if host = [] then None else Some (lower name @ zone))
      in if (CHR ''['' \<in> set netloc) \<noteq> (CHR '']'' \<in> set netloc) then None
         else if port = [] then Some (hostname, None)
         else if \<not> list_all is_digit port \<or> 65535 < nat_of_digits port then None
         else Some (hostname, Some (int (nat_of_digits port))))"

definition split_host_port :: "string \<Rightarrow> string option \<times> int option" where
  "split_host_port endpoint =
     (let raw = strip endpoint
      in if raw = [] then (None, None)
         else if contains_str ''://'' raw then (case url_host_port raw of None \<Rightarrow> (None, None) | Some hp \<Rightarrow> hp)
         else if take 1 raw = ''['' then
           (case rsplit_once '']:'' raw of
              None \<Rightarrow> (None, None)
            | Some (host, port) \<Rightarrow> (case parse_int port of None \<Rightarrow> (None, None) | Some n \<Rightarrow> (Some (dropWhile (\<lambda>c. c = CHR ''['') host), Some n)))
         else (case rsplit_once '':'' raw of
              None \<Rightarrow> (None, None)
            | Some (host, port) \<Rightarrow> (case parse_int port of None \<Rightarrow> (None, None) | Some n \<Rightarrow> (Some host, Some n))))"

type_synonym endpoint_row = "string \<times> int \<times> int \<times> bool"

definition row_json :: "endpoint_row \<Rightarrow> json" where
  "row_json r = (case r of (ip, service_port, target_port, ready) \<Rightarrow>
     JObj [(''ip'', JStr ip), (''service_port'', JInt service_port), (''target_port'', JInt target_port), (''ready'', JBool ready)])"

text \<open>Rows that were seen before are skipped: the first occurrence stays.\<close>

fun dedup :: "'a list \<Rightarrow> 'a list \<Rightarrow> 'a list" where
  "dedup seen [] = []"
| "dedup seen (x # xs) = (if x \<in> set seen then dedup seen xs else x # dedup (x # seen) xs)"

definition service_endpoint_rows :: "ServiceEndpoint list \<Rightarrow> endpoint_row list" where
  "service_endpoint_rows eps = dedup [] (map (\<lambda>e. (strip (ep_ip e), ep_port e, ep_target_port e, True))
     (filter (\<lambda>e. strip (ep_ip e) \<noteq> [] \<and> ep_ready e) eps))"

definition collect_pod_endpoint_rows :: "AppStore \<Rightarrow> string \<Rightarrow> int option \<Rightarrow> endpoint_row list" where
  "collect_pod_endpoint_rows store app_name port_hint = dedup [] (concat (map (\<lambda>pod.
     if \<not> pd_ready pod then []
     else case split_host_port (strip (case pd_endpoint pod of None \<Rightarrow> [] | Some e \<Rightarrow> e)) of
         (Some host, Some target_port) \<Rightarrow> if host = [] then []
           else [(host, case port_hint of None \<Rightarrow> target_port | Some n \<Rightarrow> n, target_port, True)]
       | _ \<Rightarrow> []) (list_pods app_name store)))"

definition collect_service_endpoints :: "AppStore \<Rightarrow> (string \<times> string \<times> int option) list \<Rightarrow> dict" where
  "collect_service_endpoints store service_map = map (\<lambda>(service_key, app_name, port_hint).
     let direct = service_endpoint_rows (list_service_endpoints app_name (ap_nodes store));
         rows = (if direct = [] then collect_pod_endpoint_rows store app_name port_hint else direct)
     in (service_key, JArr (map row_json (sort_key (\<lambda>(ip, s, t, r). s) (sort_key (\<lambda>(ip, s, t, r). t) (sort_key (\<lambda>(ip, s, t, r). ip) rows))))))
     (sort_key fst service_map)"

section \<open>Bundles\<close>

definition dict_or_empty :: "json \<Rightarrow> dict" where
  "dict_or_empty v = (case v of JObj d \<Rightarrow> d | _ \<Rightarrow> [])"

text \<open>\<^verbatim>\<open>_coerce_int(a) or _coerce_int(b)\<close>.\<close>

definition port_hint_of :: "json \<Rightarrow> json \<Rightarrow> int option" where
  "port_hint_of a b = (case py_int a of Some n \<Rightarrow> if n \<noteq> 0 then Some n else py_int b | None \<Rightarrow> py_int b)"

definition service_ref_pair :: "dict \<Rightarrow> string \<Rightarrow> json \<Rightarrow> (string \<times> string \<times> int option) option" where
  "service_ref_pair service_ref route_ns raw_port_hint =
     (let name = strip (py_str (py_or (dict_get service_ref ''name'') (JStr [])));
          ns0 = strip (py_str (py_or (dict_get service_ref ''namespace'') (JStr route_ns)));
          namespace = (if ns0 = [] then route_ns else ns0)
      in if name = [] then None
         else Some (namespace @ ''/'' @ name, app_key name (Some namespace), port_hint_of raw_port_hint (dict_get service_ref ''port'')))"

definition route_service_refs :: "dict \<Rightarrow> (string \<times> string \<times> int option) list" where
  "route_service_refs doc =
     (let spec = dict_or_empty (dict_get doc ''spec''); meta = dict_or_empty (dict_get doc ''metadata'');
          ns0 = strip (py_str (py_or (dict_get meta ''namespace'') (JStr ''default'')));
          route_ns = (if ns0 = [] then ''default'' else ns0);
          paths = (case dict_get spec ''paths'' of JArr xs \<Rightarrow> xs | _ \<Rightarrow> [])
      in if paths = [] then (case service_ref_pair (dict_or_empty (dict_get spec ''serviceRef'')) route_ns JNull of None \<Rightarrow> [] | Some p \<Rightarrow> [p])
         else concat (map (\<lambda>entry. case entry of
             JObj d \<Rightarrow> (case service_ref_pair (dict_or_empty (dict_get d ''serviceRef'')) route_ns (dict_get d ''port'') of None \<Rightarrow> [] | Some p \<Rightarrow> [p])
           | _ \<Rightarrow> []) paths))"

text \<open>\<^verbatim>\<open>doc.get("spec") or {}\<close> and the lookups below it raise on a truthy value that is no dictionary.\<close>

definition or_empty_dict :: "json \<Rightarrow> dict result" where
  "or_empty_dict v = (if \<not> truthy v then Inr [] else case v of JObj d \<Rightarrow> Inr d | _ \<Rightarrow> Inl AttributeError)"

definition route_is_edge_rendered :: "dict \<Rightarrow> bool result" where
  "route_is_edge_rendered doc = rbind (or_empty_dict (dict_get doc ''spec'')) (\<lambda>spec.
     rbind (or_empty_dict (dict_get spec ''exposure'')) (\<lambda>exposure.
       Inr (lower (strip (py_str (py_or (dict_get exposure ''mode'') (JStr [])))) \<in> {''edge-local'', ''core-proxy''})))"

text \<open>The routes of a site that are rendered at the edge, with their documents.\<close>

fun edge_rendered :: "EdgeIngressRouteRecord list \<Rightarrow> (EdgeIngressRouteRecord \<times> dict) list result" where
  "edge_rendered [] = Inr []"
| "edge_rendered (r # rs) = rbind (route_is_edge_rendered (normalize_route_doc r)) (\<lambda>b.
     rbind (edge_rendered rs) (\<lambda>xs. Inr (if b then (r, normalize_route_doc r) # xs else xs)))"

definition sorted_docs :: "dict list \<Rightarrow> dict list" where
  "sorted_docs docs = sort_key (\<lambda>d. json_dumps (JObj d)) docs"

fun service_map_of :: "(string \<times> string \<times> int option) list \<Rightarrow> (string \<times> string \<times> int option) list" where
  "service_map_of refs = foldl (\<lambda>m r. if fst r \<in> fst ` set m then m else m @ [r]) [] refs"

definition policy_keys :: "EdgeIngressRouteRecord list \<Rightarrow> (string \<times> string) list" where
  "policy_keys rs = dedup [] (concat (map (\<lambda>r. case nonempty (rr_policy_name r) of None \<Rightarrow> []
     | Some n \<Rightarrow> [(n, case nonempty (rr_policy_namespace r) of None \<Rightarrow> rr_namespace r | Some x \<Rightarrow> x)]) rs))"

record RouteStore =
  rs_work :: WorkStore
  rs_edge :: EdgeStore
  rs_apps :: AppStore

record bundle_payload =
  bp_routes :: "dict list"
  bp_policies :: "dict list"
  bp_endpoints :: dict

definition collect_bundle_payload :: "RouteStore \<Rightarrow> string \<Rightarrow> bundle_payload result" where
  "collect_bundle_payload store site_id =
     rbind (edge_rendered (list_edge_ingress_routes_for_site site_id (rs_edge store))) (\<lambda>rendered.
       Inr \<lparr>bp_routes = sorted_docs (map snd rendered),
            bp_policies = sorted_docs (concat (map (\<lambda>(n, ns). case get_edge_ingress_policy n ns (rs_edge store) of
              None \<Rightarrow> [] | Some p \<Rightarrow> [normalize_policy_doc p]) (sort_key fst (sort_key snd (policy_keys (map fst rendered)))))),
            bp_endpoints = collect_service_endpoints (rs_apps store)
              (service_map_of (concat (map (route_service_refs \<circ> snd) rendered)))\<rparr>)"

definition bundle_hash :: "(string \<Rightarrow> string) \<Rightarrow> string \<Rightarrow> bundle_payload \<Rightarrow> string" where
  "bundle_hash sha256 site_id bp = ''sha256:'' @ sha256 (json_dumps (JObj [(''site_id'', JStr site_id),
     (''routes'', JArr (map JObj (bp_routes bp))), (''policies'', JArr (map JObj (bp_policies bp))),
     (''service_endpoints'', JObj (bp_endpoints bp))]))"

definition build_bundle :: "string \<Rightarrow> string \<Rightarrow> int \<Rightarrow> string \<Rightarrow> bundle_payload \<Rightarrow> MutationEnvelope \<Rightarrow> dict" where
  "build_bundle generated_at site_id rev_no h bp e = merge_envelope
     [(''site_id'', JStr site_id), (''bundle_rev'', JInt rev_no), (''generated_at'', JStr generated_at),
      (''routes'', JArr (map JObj (bp_routes bp))), (''policies'', JArr (map JObj (bp_policies bp))),
      (''service_endpoints'', JObj (bp_endpoints bp)), (''hash'', JStr h)] e"

section \<open>The publisher\<close>

record BundleState =
  bs_rev :: int
  bs_hash :: string
  bs_acked_rev :: int
  bs_backoff :: time
  bs_next_send_at :: time
  bs_last_publish_at :: time
  bs_operation_id :: "string option"
  bs_controller_id :: "string option"
  bs_controller_epoch :: int

definition new_bundle_state :: BundleState where
  "new_bundle_state = \<lparr>bs_rev = 0, bs_hash = [], bs_acked_rev = 0, bs_backoff = 1000000, bs_next_send_at = 0,
     bs_last_publish_at = 0, bs_operation_id = None, bs_controller_id = None, bs_controller_epoch = 0\<rparr>"

datatype bundle_action = PublishBundle string dict bool | AckFence bool

record RoutePublisher =
  rp_started :: bool
  rp_stop :: bool
  rp_state :: "(string \<times> BundleState) list"
  rp_log :: "bundle_action list"

record route_env =
  re_now :: time
  re_generated_at :: string
  re_authority :: "nat \<Rightarrow> AuthoritySnapshot option"
  re_env_id :: "string option"
  re_env_epoch :: "string option"
  re_hostname :: string
  re_sha256 :: "string \<Rightarrow> string"
  re_publish :: "string \<Rightarrow> bool"
  re_replay_interval :: time

definition route_leader :: "route_env \<Rightarrow> nat \<Rightarrow> bool" where
  "route_leader env n = (case re_authority env n of None \<Rightarrow> True | Some sn \<Rightarrow> sn_is_leader sn)"

definition route_identity :: "route_env \<Rightarrow> nat \<Rightarrow> ControllerMutationIdentity" where
  "route_identity env n = resolve_controller_identity (map_option snapshot_view (re_authority env n)) None None
     (re_env_id env) (re_env_epoch env) (re_hostname env)"

definition next_backoff :: "time \<Rightarrow> time" where
  "next_backoff v = (if v < 2000000 then 2000000 else if v < 5000000 then 5000000 else if v < 10000000 then 10000000
     else if v < 30000000 then 30000000 else if v < 60000000 then 60000000 else 120000000)"

definition bundle_state :: "string \<Rightarrow> RoutePublisher \<Rightarrow> BundleState" where
  "bundle_state site_id p = (case map_of (rp_state p) site_id of None \<Rightarrow> new_bundle_state | Some b \<Rightarrow> b)"

definition set_bundle_state :: "string \<Rightarrow> BundleState \<Rightarrow> RoutePublisher \<Rightarrow> RoutePublisher" where
  "set_bundle_state site_id b p = p\<lparr>rp_state := AList.update site_id b (rp_state p)\<rparr>"

definition note_content :: "string \<Rightarrow> BundleState \<Rightarrow> BundleState" where
  "note_content h b = (if h \<noteq> bs_hash b
     then b\<lparr>bs_rev := bs_rev b + 1, bs_hash := h, bs_backoff := 1000000, bs_next_send_at := 0\<rparr> else b)"

definition bundle_acked :: "BundleState \<Rightarrow> bool" where
  "bundle_acked b \<longleftrightarrow> bs_rev b \<le> bs_acked_rev b"

definition send_due :: "route_env \<Rightarrow> BundleState \<Rightarrow> bool" where
  "send_due env b \<longleftrightarrow> bs_next_send_at b \<le> re_now env \<and> (\<not> bundle_acked b \<or>
     (re_replay_interval env > 0 \<and> bs_last_publish_at b > 0 \<and> re_replay_interval env \<le> re_now env - bs_last_publish_at b))"

definition after_publish :: "route_env \<Rightarrow> bool \<Rightarrow> BundleState \<Rightarrow> BundleState" where
  "after_publish env ok b =
     (let b1 = (if ok then b\<lparr>bs_last_publish_at := re_now env\<rparr> else b); slow = next_backoff (bs_backoff b)
      in if bundle_acked b \<and> ok then b1\<lparr>bs_backoff := 1000000, bs_next_send_at := re_now env + re_replay_interval env\<rparr>
         else b1\<lparr>bs_backoff := slow, bs_next_send_at := re_now env + slow\<rparr>)"

definition publish_bundle :: "route_env \<Rightarrow> nat \<Rightarrow> string \<Rightarrow> bundle_payload \<Rightarrow> BundleState \<Rightarrow> RoutePublisher \<Rightarrow> RoutePublisher" where
  "publish_bundle env n site_id bp b p =
     (let i = route_identity env n; oid = route_operation site_id (bs_rev b) (cmi_controller_epoch i);
          b1 = b\<lparr>bs_operation_id := Some oid, bs_controller_id := Some (cmi_controller_id i), bs_controller_epoch := cmi_controller_epoch i\<rparr>;
          e = \<lparr>me_controller_id = cmi_controller_id i, me_controller_epoch = cmi_controller_epoch i, me_operation_id = oid\<rparr>;
          ok = re_publish env site_id;
          p1 = p\<lparr>rp_log := rp_log p @ [PublishBundle site_id (build_bundle (re_generated_at env) site_id (bs_rev b) (bs_hash b) bp e) ok]\<rparr>
      in set_bundle_state site_id (after_publish env ok b1) p1)"

definition publish_site :: "route_env \<Rightarrow> RouteStore \<Rightarrow> nat \<Rightarrow> string \<Rightarrow> (RoutePublisher, unit) eff" where
  "publish_site env store n site_id p = (case collect_bundle_payload store site_id of
     Inl err \<Rightarrow> (Inl err, set_bundle_state site_id (bundle_state site_id p) p)
   | Inr bp \<Rightarrow>
       let b = note_content (bundle_hash (re_sha256 env) site_id bp) (bundle_state site_id p)
       in (Inr (), if send_due env b then publish_bundle env n site_id bp b p else set_bundle_state site_id b p))"

fun publish_sites :: "route_env \<Rightarrow> RouteStore \<Rightarrow> nat \<Rightarrow> string list \<Rightarrow> (RoutePublisher, unit) eff" where
  "publish_sites env store n [] p = (Inr (), p)"
| "publish_sites env store n (x # xs) p =
     (if \<not> route_leader env n then (Inr (), p)
      else case publish_site env store (n + 1) x p of (Inl err, p1) \<Rightarrow> (Inl err, p1) | (Inr _, p1) \<Rightarrow> publish_sites env store (n + 2) xs p1)"

definition route_run_once :: "route_env \<Rightarrow> RouteStore \<Rightarrow> (RoutePublisher, unit) eff" where
  "route_run_once env store p =
     (if \<not> route_leader env 0 then (Inr (), p)
      else publish_sites env store 1 (list_route_bundle_site_ids (rs_work store) (rs_edge store)) p)"

definition route_ack_matches_state :: "BundleState \<Rightarrow> int \<Rightarrow> MutationEnvelope \<Rightarrow> bool" where
  "route_ack_matches_state b rev_no e \<longleftrightarrow> rev_no = bs_rev b \<and> Some (me_operation_id e) = bs_operation_id b \<and>
     Some (me_controller_id e) = bs_controller_id b \<and> me_controller_epoch e = bs_controller_epoch b"

definition ack_accepted :: "int \<Rightarrow> BundleState \<Rightarrow> BundleState" where
  "ack_accepted rev_no b = (if bs_acked_rev b \<le> rev_no
     then b\<lparr>bs_acked_rev := rev_no, bs_backoff := 1000000, bs_next_send_at := 0\<rparr> else b)"

text \<open>What an acknowledgement does to the state of its site, once the site is known.\<close>

definition apply_ack :: "string \<Rightarrow> json \<Rightarrow> RoutePublisher \<Rightarrow> RoutePublisher" where
  "apply_ack site_id payload p = (case map_of (rp_state p) site_id of
     None \<Rightarrow> p
   | Some b \<Rightarrow>
       if nonempty (bs_operation_id b) = None \<or> nonempty (bs_controller_id b) = None then p
       else (case (parse_envelope payload, as_dict payload) of
           (Some e, Some d) \<Rightarrow>
             (case py_int_raise (py_or (dict_get d ''bundle_rev'') (JInt 0)) of
                Inl _ \<Rightarrow> p
              | Inr rev_no \<Rightarrow>
                  if ''ok'' \<in> fst ` set d \<and> \<not> truthy (dict_get d ''ok'') then p
                  else if route_ack_matches_state b rev_no e then set_bundle_state site_id (ack_accepted rev_no b) p
                  else p\<lparr>rp_log := rp_log p @ [AckFence (rev_no = bs_acked_rev b \<and> Some (me_operation_id e) = bs_operation_id b \<and>
                     Some (me_controller_id e) = bs_controller_id b \<and> me_controller_epoch e = bs_controller_epoch b)]\<rparr>)
         | _ \<Rightarrow> p\<lparr>rp_log := rp_log p @ [AckFence False]\<rparr>))"

definition on_ack :: "NatsMessage \<Rightarrow> (RoutePublisher, unit) eff" where
  "on_ack msg p =
     (let payload = hub_safe_json msg
      in case nonempty (site_id_from_subject (nm_subject msg)) of
           Some x \<Rightarrow> (Inr (), apply_ack x payload p)
         | None \<Rightarrow> (case as_dict payload of
             None \<Rightarrow> (Inl AttributeError, p)
           | Some d \<Rightarrow> (case dict_get d ''site_id'' of
               JStr x \<Rightarrow> (Inr (), if x = [] then p else apply_ack x payload p)
             | JArr (_ # _) \<Rightarrow> (Inl TypeError, p)
             | JObj (_ # _) \<Rightarrow> (Inl TypeError, p)
             | _ \<Rightarrow> (Inr (), p))))"

definition route_transport_reconnect :: "RoutePublisher \<Rightarrow> RoutePublisher" where
  "route_transport_reconnect p = p\<lparr>rp_state := map (\<lambda>(x, b). (x, if bundle_acked b then b
     else b\<lparr>bs_backoff := 1000000, bs_next_send_at := 0\<rparr>)) (rp_state p)\<rparr>"

text \<open>Start-up with whether the connection was made, shut-down, and one turn of the loop, whose errors are only logged.\<close>

definition route_start :: "bool \<Rightarrow> RoutePublisher \<Rightarrow> RoutePublisher" where
  "route_start connected p = (if rp_started p \<or> \<not> connected then p else p\<lparr>rp_started := True\<rparr>)"

definition route_stop :: "RoutePublisher \<Rightarrow> RoutePublisher" where
  "route_stop p = p\<lparr>rp_stop := True\<rparr>"

definition route_loop_turn :: "route_env \<Rightarrow> RouteStore \<Rightarrow> RoutePublisher \<Rightarrow> RoutePublisher" where
  "route_loop_turn env store p = (if rp_stop p then p else snd (route_run_once env store p))"

definition new_publisher :: RoutePublisher where
  "new_publisher = \<lparr>rp_started = False, rp_stop = False, rp_state = [], rp_log = []\<rparr>"

section \<open>Publisher and gateway over a network that loses, repeats and reorders\<close>

text \<open>
  One publisher under one identity and the gateway of one site. Whatever the publisher has ever published to the site may
  arrive at any time and any number of times, or never, even if the publication was reported as failed, and so may
  whatever the gateway has ever acknowledged.
\<close>

record route_sys =
  sy_pub :: RoutePublisher
  sy_gw :: SiteGateway

inductive route_step :: "string \<Rightarrow> ControllerMutationIdentity \<Rightarrow> route_sys \<Rightarrow> route_sys \<Rightarrow> bool"
  for site :: string and i :: ControllerMutationIdentity where
  turn: "(\<And>n. route_identity env n = i) \<Longrightarrow>
     route_step site i s (s\<lparr>sy_pub := route_loop_turn env store (sy_pub s)\<rparr>)"
| deliver: "PublishBundle site b ok \<in> set (rp_log (sy_pub s)) \<Longrightarrow>
     route_step site i s (s\<lparr>sy_gw := snd (on_route_bundle genv (JObj b) (sy_gw s))\<rparr>)"
| acknowledge: "(Post (hub_route_ack_subject site) j, ok) \<in> set (gw_log (sy_gw s)) \<Longrightarrow>
     route_step site i s (s\<lparr>sy_pub := snd (on_ack \<lparr>nm_subject = hub_route_ack_subject site, nm_reply = None, nm_data = Some j\<rparr> (sy_pub s))\<rparr>)"
| reconnect: "route_step site i s (s\<lparr>sy_pub := route_transport_reconnect (sy_pub s)\<rparr>)"

text \<open>A gateway that has applied and acknowledged no bundle of this controller.\<close>

definition route_fresh :: "string \<Rightarrow> ControllerMutationIdentity \<Rightarrow> SiteGateway \<Rightarrow> bool" where
  "route_fresh site i gw \<longleftrightarrow> gw_site_id gw = site \<and> gw_route_bundle_rev gw = 0 \<and>
     (\<forall>r. \<not> fence_committed (gw_fence gw) (fence_scope gw) (route_operation site r (cmi_controller_epoch i))) \<and>
     (\<forall>j ok. (Post (hub_route_ack_subject site) j, ok) \<notin> set (gw_log gw))"

text \<open>A site id that is one token of a subject, and an identity that survives being sent.\<close>

definition site_token :: "string \<Rightarrow> bool" where
  "site_token site \<longleftrightarrow> site \<noteq> [] \<and> CHR ''.'' \<notin> set site"

definition identity_ok :: "ControllerMutationIdentity \<Rightarrow> bool" where
  "identity_ok i \<longleftrightarrow> strip (cmi_controller_id i) = cmi_controller_id i \<and> cmi_controller_id i \<noteq> [] \<and> 0 < cmi_controller_epoch i"

definition bundle_envelope :: "string \<Rightarrow> ControllerMutationIdentity \<Rightarrow> int \<Rightarrow> MutationEnvelope" where
  "bundle_envelope site i r = \<lparr>me_controller_id = cmi_controller_id i, me_controller_epoch = cmi_controller_epoch i,
     me_operation_id = route_operation site r (cmi_controller_epoch i)\<rparr>"

lemma strip_id:
  assumes "s \<noteq> []" and "\<not> is_ws (hd s)" and "\<not> is_ws (last s)"
  shows "strip s = s"
proof -
  have "lstrip s = s" using assms(1,2) by (cases s) (simp_all add: lstrip_def)
  moreover have "dropWhile is_ws (rev s) = rev s" using assms(1,3) by (cases s rule: rev_cases) simp_all
  ultimately show ?thesis by (simp add: strip_def rstrip_def)
qed

lemma last_show_int: "is_digit (last (show_int n))"
proof -
  have "last (show_nat k) \<in> set (show_nat k)" for k by (intro last_in_set) simp
  then have "is_digit (last (show_nat k))" for k by (blast intro: show_nat_digits)
  then show ?thesis by (simp add: show_int_def)
qed

lemma digit_not_ws: "is_digit c \<Longrightarrow> \<not> is_ws c"
  by (auto simp: is_digit_def is_ws_def Let_def)

lemma strip_route_operation: "strip (route_operation site r ep) = route_operation site r ep"
proof -
  have "last (route_operation site r ep) = last (show_int ep)"
    by (simp add: route_operation_def show_int_def)
  then have "\<not> is_ws (last (route_operation site r ep))"
    using digit_not_ws [OF last_show_int [of ep]] by simp
  moreover have "hd (route_operation site r ep) = CHR ''r''" "route_operation site r ep \<noteq> []"
    by (simp_all add: route_operation_def)
  moreover have "\<not> is_ws (CHR ''r'')" by code_simp
  ultimately show ?thesis by (intro strip_id) simp_all
qed

lemma bundle_envelope_ok: "identity_ok i \<Longrightarrow> envelope_ok (bundle_envelope site i r)"
  by (simp add: identity_ok_def envelope_ok_def bundle_envelope_def strip_route_operation) (simp add: route_operation_def)

lemma merge_envelope_other:
  "k \<notin> {''controller_id'', ''controller_epoch'', ''operation_id''} \<Longrightarrow> dict_get (merge_envelope d e) k = dict_get d k"
  by (simp add: merge_envelope_def dict_update_def as_dict_envelope_def)

lemma build_bundle_fields:
  "dict_get (build_bundle g site r h bp e) ''site_id'' = JStr site"
  "dict_get (build_bundle g site r h bp e) ''bundle_rev'' = JInt r"
  "dict_get (build_bundle g site r h bp e) ''hash'' = JStr h"
  unfolding build_bundle_def by (simp_all add: merge_envelope_other) (simp_all add: dict_get_def)

lemma split_char_token: "c \<notin> set x \<Longrightarrow> split_char c (x @ c # y) = x # split_char c y"
  by (induction x) auto

lemma ack_subject_site: "site_token site \<Longrightarrow> site_id_from_subject (hub_route_ack_subject site) = Some site"
proof -
  assume "site_token site"
  then have "split_char (CHR ''.'') (site @ CHR ''.'' # ''routes.ack'') = site # split_char (CHR ''.'') ''routes.ack''"
    by (intro split_char_token) (simp add: site_token_def)
  then have "split_char (CHR ''.'') (hub_route_ack_subject site) = [''k1s'', ''v1'', ''site'', site, ''routes'', ''ack'']"
    by (simp add: hub_route_ack_subject_def)
  then show ?thesis by (simp add: site_id_from_subject_def Let_def)
qed

lemma on_ack_site:
  assumes "site_token site"
  shows "snd (on_ack \<lparr>nm_subject = hub_route_ack_subject site, nm_reply = None, nm_data = Some j\<rparr> p) = apply_ack site j p"
proof -
  have "nonempty (Some site) = Some site" using assms by (cases site) (simp_all add: site_token_def nonempty_def)
  then show ?thesis by (simp add: on_ack_def ack_subject_site [OF assms] hub_safe_json_def Let_def)
qed

section \<open>The invariant\<close>

text \<open>\<open>H\<close> is the hash of every revision so far: a bundle on its way carries the hash of its revision.\<close>

definition numbered :: "string \<Rightarrow> ControllerMutationIdentity \<Rightarrow> string list \<Rightarrow> dict \<Rightarrow> bool" where
  "numbered site i H d \<longleftrightarrow> (\<exists>r. 1 \<le> r \<and> r \<le> int (length H) \<and> parse_envelope (JObj d) = Some (bundle_envelope site i r) \<and>
     dict_get d ''site_id'' = JStr site \<and> dict_get d ''bundle_rev'' = JInt r \<and> dict_get d ''hash'' = JStr (H ! nat (r - 1)))"

definition state_numbered :: "string list \<Rightarrow> BundleState \<Rightarrow> bool" where
  "state_numbered H b \<longleftrightarrow> bs_rev b = int (length H) \<and> (if H = [] then bs_hash b = [] else bs_hash b = last H) \<and>
     0 \<le> bs_acked_rev b \<and> bs_acked_rev b \<le> bs_rev b"

definition pub_inv :: "string \<Rightarrow> ControllerMutationIdentity \<Rightarrow> string list \<Rightarrow> RoutePublisher \<Rightarrow> bool" where
  "pub_inv site i H p \<longleftrightarrow> state_numbered H (bundle_state site p) \<and>
     (\<forall>d ok. PublishBundle site d ok \<in> set (rp_log p) \<longrightarrow> numbered site i H d)"

definition ack_bounded :: "int \<Rightarrow> json \<Rightarrow> bool" where
  "ack_bounded n j \<longleftrightarrow> (\<exists>d r. j = JObj d \<and> ''ok'' \<in> fst ` set d \<and> dict_get d ''bundle_rev'' = JInt r \<and> 0 < r \<and>
     (truthy (dict_get d ''ok'') \<longrightarrow> r \<le> n))"

definition applied_ok :: "string list \<Rightarrow> SiteGateway \<Rightarrow> bool" where
  "applied_ok H gw \<longleftrightarrow> 0 \<le> gw_route_bundle_rev gw \<and> gw_route_bundle_rev gw \<le> int (length H) \<and>
     (gw_route_bundle_rev gw \<noteq> 0 \<longrightarrow> gw_route_bundle_hash gw = JStr (H ! nat (gw_route_bundle_rev gw - 1)))"

definition fence_settled :: "string \<Rightarrow> ControllerMutationIdentity \<Rightarrow> SiteGateway \<Rightarrow> bool" where
  "fence_settled site i gw \<longleftrightarrow> fence_epoch (gw_fence gw) (fence_scope gw) = Some (cmi_controller_epoch i) \<or>
     (gw_route_bundle_rev gw = 0 \<and>
       (\<forall>r. \<not> fence_committed (gw_fence gw) (fence_scope gw) (route_operation site r (cmi_controller_epoch i))))"

definition acks_ok :: "string \<Rightarrow> SiteGateway \<Rightarrow> bool" where
  "acks_ok site gw \<longleftrightarrow> (\<forall>j ok. (Post (hub_route_ack_subject site) j, ok) \<in> set (gw_log gw) \<longrightarrow> ack_bounded (gw_route_bundle_rev gw) j)"

definition gw_inv :: "string \<Rightarrow> ControllerMutationIdentity \<Rightarrow> string list \<Rightarrow> SiteGateway \<Rightarrow> bool" where
  "gw_inv site i H gw \<longleftrightarrow> gw_site_id gw = site \<and> applied_ok H gw \<and> fence_settled site i gw \<and> acks_ok site gw"

definition route_inv :: "string \<Rightarrow> ControllerMutationIdentity \<Rightarrow> route_sys \<Rightarrow> bool" where
  "route_inv site i s \<longleftrightarrow> (\<exists>H. pub_inv site i H (sy_pub s) \<and> gw_inv site i H (sy_gw s) \<and>
     bs_acked_rev (bundle_state site (sy_pub s)) \<le> gw_route_bundle_rev (sy_gw s))"

lemma numbered_mono: "numbered site i H d \<Longrightarrow> numbered site i (H @ K) d"
  unfolding numbered_def by (elim exE, rule_tac x = r in exI) (auto simp: nth_append)

lemma gw_inv_mono: "gw_inv site i H gw \<Longrightarrow> gw_inv site i (H @ K) gw"
  by (auto simp: gw_inv_def applied_ok_def nth_append)

lemma ack_bounded_mono: "ack_bounded n j \<Longrightarrow> n \<le> m \<Longrightarrow> ack_bounded m j"
  unfolding ack_bounded_def by (elim exE conjE, intro exI conjI, assumption+) (use order_trans in blast)

lemma bundle_state_set [simp]:
  "bundle_state x (set_bundle_state y b p) = (if x = y then b else bundle_state x p)"
  by (simp add: bundle_state_def set_bundle_state_def update_conv')

lemma bundle_state_log [simp]: "bundle_state x (p\<lparr>rp_log := l\<rparr>) = bundle_state x p"
  by (simp add: bundle_state_def)

lemma rp_log_set [simp]: "rp_log (set_bundle_state y b p) = rp_log p"
  by (simp add: set_bundle_state_def)

lemma after_publish_simps [simp]:
  "bs_rev (after_publish env ok b) = bs_rev b" "bs_hash (after_publish env ok b) = bs_hash b"
  "bs_acked_rev (after_publish env ok b) = bs_acked_rev b"
  by (simp_all add: after_publish_def Let_def)

lemma note_content_numbered:
  assumes "state_numbered H b" and "h \<noteq> []"
  shows "\<exists>K. state_numbered (H @ K) (note_content h b) \<and> H @ K \<noteq> [] \<and> bs_acked_rev (note_content h b) = bs_acked_rev b"
proof (cases "h = bs_hash b")
  case True
  with assms show ?thesis by (intro exI [of _ "[]"]) (auto simp: state_numbered_def note_content_def split: if_splits)
next
  case False
  with assms show ?thesis by (intro exI [of _ "[h]"]) (auto simp: state_numbered_def note_content_def)
qed

lemma publish_bundle_numbered:
  assumes "pub_inv site i H p" and "state_numbered (H @ K) b" and "H @ K \<noteq> []" and "route_identity env n = i" and "identity_ok i"
  shows "pub_inv site i (H @ K) (publish_bundle env n site bp b p)"
proof -
  let ?d = "build_bundle (re_generated_at env) site (bs_rev b) (bs_hash b) bp (bundle_envelope site i (bs_rev b))"
  have "parse_envelope (JObj ?d) = Some (bundle_envelope site i (bs_rev b))"
    unfolding build_bundle_def by (rule parse_merge_envelope) (rule bundle_envelope_ok [OF assms(5)])
  moreover have rev_no: "1 \<le> bs_rev b" "nat (bs_rev b - 1) = length (H @ K) - 1" "bs_rev b \<le> int (length (H @ K))"
  proof -
    obtain h hs where "H @ K = h # hs" using assms(3) by (cases "H @ K") auto
    then have "length (H @ K) = Suc (length hs)" by simp
    with assms(2) show "1 \<le> bs_rev b" "nat (bs_rev b - 1) = length (H @ K) - 1" "bs_rev b \<le> int (length (H @ K))"
      unfolding state_numbered_def by linarith+
  qed
  ultimately have "numbered site i (H @ K) ?d"
    using rev_no assms(2,3) unfolding numbered_def state_numbered_def
    by (intro exI [of _ "bs_rev b"]) (auto simp: build_bundle_fields last_conv_nth)
  with assms(1,2,4) show ?thesis
    by (auto simp: pub_inv_def publish_bundle_def Let_def bundle_envelope_def state_numbered_def dest: numbered_mono)
qed

lemma publish_site_inv:
  assumes "pub_inv site i H p" and "route_identity env n = i" and "identity_ok i"
  shows "\<exists>K. pub_inv site i (H @ K) (snd (publish_site env store n x p)) \<and>
    bs_acked_rev (bundle_state site (snd (publish_site env store n x p))) = bs_acked_rev (bundle_state site p)"
proof (cases "collect_bundle_payload store x")
  case (Inl err)
  with assms(1) show ?thesis by (intro exI [of _ "[]"]) (auto simp: publish_site_def pub_inv_def)
next
  case (Inr bp)
  define b where "b = note_content (bundle_hash (re_sha256 env) x bp) (bundle_state x p)"
  have run: "snd (publish_site env store n x p) =
      (if send_due env b then publish_bundle env n x bp b p else set_bundle_state x b p)"
    using Inr by (simp add: publish_site_def Let_def b_def)
  show ?thesis
  proof (cases "x = site")
    case False
    with assms(1) show ?thesis
      unfolding run by (intro exI [of _ "[]"]) (auto simp: publish_bundle_def Let_def pub_inv_def)
  next
    case True
    have "bundle_hash (re_sha256 env) x bp \<noteq> []" by (simp add: bundle_hash_def)
    with assms(1) True obtain K where K: "state_numbered (H @ K) b" "H @ K \<noteq> []"
      and acked: "bs_acked_rev b = bs_acked_rev (bundle_state site p)"
      unfolding b_def pub_inv_def by (metis note_content_numbered)
    have "pub_inv site i (H @ K) (set_bundle_state site b p)"
      using assms(1) K by (auto simp: pub_inv_def dest: numbered_mono)
    moreover note publish_bundle_numbered [OF assms(1) K assms(2,3), of bp]
    moreover have "bs_acked_rev (bundle_state site (publish_bundle env n site bp b p)) = bs_acked_rev b"
      by (simp add: publish_bundle_def Let_def)
    ultimately show ?thesis
      using acked run True by (intro exI [of _ K]) simp
  qed
qed

lemma publish_sites_inv:
  assumes "pub_inv site i H p" and "\<And>n. route_identity env n = i" and "identity_ok i"
  shows "\<exists>K. pub_inv site i (H @ K) (snd (publish_sites env store n xs p)) \<and>
    bs_acked_rev (bundle_state site (snd (publish_sites env store n xs p))) = bs_acked_rev (bundle_state site p)"
  using assms(1)
proof (induction xs arbitrary: n H p)
  case Nil
  then show ?case by (intro exI [of _ "[]"]) simp
next
  case (Cons x xs)
  show ?case
  proof (cases "route_leader env n")
    case False
    with Cons.prems show ?thesis by (intro exI [of _ "[]"]) simp
  next
    case True
    obtain r p1 where one: "publish_site env store (n + 1) x p = (r, p1)" by (metis surj_pair)
    obtain K where K: "pub_inv site i (H @ K) p1" and a: "bs_acked_rev (bundle_state site p1) = bs_acked_rev (bundle_state site p)"
      using publish_site_inv [OF Cons.prems assms(2,3), of store "n + 1" x] one by auto
    show ?thesis
    proof (cases r)
      case (Inl err)
      with True one K a show ?thesis by auto
    next
      case (Inr u)
      obtain L where "pub_inv site i ((H @ K) @ L) (snd (publish_sites env store (n + 2) xs p1))"
          "bs_acked_rev (bundle_state site (snd (publish_sites env store (n + 2) xs p1))) = bs_acked_rev (bundle_state site p1)"
        using Cons.IH [OF K] by blast
      with Inr True one a show ?thesis by (intro exI [of _ "K @ L"]) simp
    qed
  qed
qed

lemma loop_turn_inv:
  assumes "pub_inv site i H p" and "\<And>n. route_identity env n = i" and "identity_ok i"
  shows "\<exists>K. pub_inv site i (H @ K) (route_loop_turn env store p) \<and>
    bs_acked_rev (bundle_state site (route_loop_turn env store p)) = bs_acked_rev (bundle_state site p)"
proof (cases "rp_stop p \<or> \<not> route_leader env 0")
  case True
  with assms(1) show ?thesis by (intro exI [of _ "[]"]) (auto simp: route_loop_turn_def route_run_once_def)
next
  case False
  with publish_sites_inv [OF assms] show ?thesis by (simp add: route_loop_turn_def route_run_once_def)
qed

lemma reconnect_inv:
  "bs_acked_rev (bundle_state site (route_transport_reconnect p)) = bs_acked_rev (bundle_state site p) \<and>
   (pub_inv site i H p \<longrightarrow> pub_inv site i H (route_transport_reconnect p))"
proof -
  have "map_of (map (\<lambda>(x, b). (x, g b)) xs) k = map_option g (map_of xs k)" for g :: "BundleState \<Rightarrow> BundleState" and xs :: "(string \<times> BundleState) list" and k
    by (induction xs) auto
  then show ?thesis
    by (auto simp: pub_inv_def route_transport_reconnect_def bundle_state_def state_numbered_def bundle_acked_def new_bundle_state_def
        split: option.splits)
qed

lemma route_render_cases:
  "route_render env d r h gw = (ok, err, gw') \<Longrightarrow>
    ok \<and> gw' = gw\<lparr>gw_route_bundle_rev := r, gw_route_bundle_hash := h\<rparr> \<or> \<not> ok \<and> gw' = gw"
  by (cases "if gw_has_renderer gw then ge_render env d else (True, JNull)") (simp add: route_render_def split: if_splits)

text \<open>A bundle that carries the hash of its revision is applied, or leaves the applied one, which is then no older.\<close>

lemma route_apply_numbered:
  assumes "route_apply env dup d r (JStr (H ! nat (r - 1))) gw = (ok, err, gw')" and "1 \<le> r"
    and "0 \<le> gw_route_bundle_rev gw"
    and "gw_route_bundle_rev gw \<noteq> 0 \<longrightarrow> gw_route_bundle_hash gw = JStr (H ! nat (gw_route_bundle_rev gw - 1))"
  shows "(gw' = gw \<and> (ok \<longrightarrow> r \<le> gw_route_bundle_rev gw)) \<or>
    (gw' = gw\<lparr>gw_route_bundle_rev := r, gw_route_bundle_hash := JStr (H ! nat (r - 1))\<rparr> \<and> gw_route_bundle_rev gw < r \<and> ok)"
proof -
  let ?rev = "gw_route_bundle_rev gw" and ?h = "JStr (H ! nat (r - 1))"
  have same: "?rev = r \<Longrightarrow> gw_route_bundle_hash gw = ?h" using assms(2,4) by auto
  consider "r \<le> ?rev" | "?rev < r" by linarith
  then show ?thesis
  proof cases
    case 1
    then have "route_apply env dup d r ?h gw = (True, JNull, gw)"
      using same by (simp add: route_apply_def)
    with assms(1) 1 show ?thesis by simp
  next
    case 2
    then have "route_apply env dup d r ?h gw = route_render env d r ?h gw" by (simp add: route_apply_def)
    with assms(1) 2 route_render_cases show ?thesis by metis
  qed
qed

lemma apply_ack_cases:
  "apply_ack site j p = p \<or> (\<exists>b. apply_ack site j p = p\<lparr>rp_log := rp_log p @ [AckFence b]\<rparr>) \<or>
   (\<exists>d r. as_dict j = Some d \<and> py_int_raise (py_or (dict_get d ''bundle_rev'') (JInt 0)) = Inr r \<and>
      \<not> (''ok'' \<in> fst ` set d \<and> \<not> truthy (dict_get d ''ok'')) \<and> r = bs_rev (bundle_state site p) \<and>
      apply_ack site j p = set_bundle_state site (ack_accepted r (bundle_state site p)) p)"
proof (cases "map_of (rp_state p) site")
  case None
  then show ?thesis by (simp add: apply_ack_def)
next
  case (Some b)
  then have b: "bundle_state site p = b" by (simp add: bundle_state_def)
  show ?thesis
  proof (cases "nonempty (bs_operation_id b) = None \<or> nonempty (bs_controller_id b) = None \<or> parse_envelope j = None \<or> as_dict j = None")
    case True
    with Some show ?thesis by (auto simp: apply_ack_def split: option.splits)
  next
    case False
    then obtain e d where known: "parse_envelope j = Some e" "as_dict j = Some d" by auto
    show ?thesis
    proof (cases "py_int_raise (py_or (dict_get d ''bundle_rev'') (JInt 0))")
      case (Inl err)
      with Some False known show ?thesis by (simp add: apply_ack_def)
    next
      case (Inr r)
      with Some False known b show ?thesis
        by (cases "route_ack_matches_state b r e"; cases "''ok'' \<in> fst ` set d \<and> \<not> truthy (dict_get d ''ok'')")
          (auto simp: apply_ack_def route_ack_matches_state_def)
    qed
  qed
qed

lemma pub_inv_log:
  "pub_inv site i H p \<Longrightarrow> state_numbered H (bundle_state site q) \<Longrightarrow>
   (\<And>d ok. PublishBundle site d ok \<in> set (rp_log q) \<Longrightarrow> PublishBundle site d ok \<in> set (rp_log p)) \<Longrightarrow> pub_inv site i H q"
  unfolding pub_inv_def by blast

lemma apply_ack_inv:
  assumes "pub_inv site i H p" and "ack_bounded n j" and "bs_acked_rev (bundle_state site p) \<le> n"
  shows "pub_inv site i H (apply_ack site j p) \<and> bs_acked_rev (bundle_state site (apply_ack site j p)) \<le> n"
proof -
  obtain d r where j: "j = JObj d" "''ok'' \<in> fst ` set d" "dict_get d ''bundle_rev'' = JInt r" "0 < r"
    and le: "truthy (dict_get d ''ok'') \<Longrightarrow> r \<le> n"
    using assms(2) unfolding ack_bounded_def by blast
  have rev_no: "py_int_raise (py_or (dict_get d ''bundle_rev'') (JInt 0)) = Inr r"
    using j by (simp add: py_or_def)
  have st: "state_numbered H (bundle_state site p)" using assms(1) by (simp add: pub_inv_def)
  from apply_ack_cases [of site j p] show ?thesis
  proof (elim disjE exE conjE, goal_cases)
    case 1
    with assms show ?case by simp
  next
    case (2 b)
    with assms(3) st show ?case by (auto intro: pub_inv_log [OF assms(1)])
  next
    case (3 d' r')
    then have r': "r' = r" "r \<le> n" "bs_rev (bundle_state site p) = r" using j rev_no le by auto
    then have "state_numbered H (ack_accepted r (bundle_state site p))" "bs_acked_rev (ack_accepted r (bundle_state site p)) \<le> n"
      using st assms(3) by (auto simp: state_numbered_def ack_accepted_def split: if_splits)
    with 3 r' show ?case by (auto intro: pub_inv_log [OF assms(1)])
  qed
qed

text \<open>The gateway's answer to a bundle that is not stale, in steps: what it had applied, what it applies, the fence, the log.\<close>

definition bundle_ack :: "gateway_env \<Rightarrow> SiteGateway \<Rightarrow> int \<Rightarrow> json \<Rightarrow> bool \<Rightarrow> json \<Rightarrow> bool \<Rightarrow> MutationEnvelope \<Rightarrow> dict" where
  "bundle_ack env gw r h ok err dup e = merge_envelope
     [(''site_id'', JStr (gw_site_id gw)), (''bundle_rev'', JInt r), (''hash'', h), (''applied_at'', JInt (ge_now env)),
      (''ok'', JBool ok), (''error'', err), (''duplicate'', JBool dup)] e"

lemma on_route_bundle_run:
  assumes "parse_envelope (JObj d) = Some e" and "fence_begin (ge_now env) (fence_scope gw) e (gw_fence gw) = (dec, f)"
    and "fd_status dec \<noteq> Stale" and "dict_get d ''site_id'' = JStr (gw_site_id gw)" and "gw_site_id gw \<noteq> []"
    and "dict_get d ''bundle_rev'' = JInt r" and "r \<noteq> 0"
    and "gw2 = (if fd_epoch_advanced dec then gw\<lparr>gw_fence := f, gw_route_bundle_rev := 0, gw_route_bundle_hash := JNull\<rparr> else gw\<lparr>gw_fence := f\<rparr>)"
    and "route_apply env (fd_status dec = Duplicate) d r (dict_get d ''hash'') gw2 = (ok, err, gw3)"
    and "gw4 = (if ok \<and> fd_status dec \<noteq> Duplicate then gw3\<lparr>gw_fence := fence_commit (ge_now env) (fence_scope gw3) e (gw_fence gw3)\<rparr> else gw3)"
  shows "on_route_bundle env (JObj d) gw = (Inr (), if gw_has_client gw4
    then snd (gw_act env (Post (hub_route_ack_subject (gw_site_id gw))
       (JObj (bundle_ack env gw r (dict_get d ''hash'') ok err (fd_status dec = Duplicate) e))) gw4) else gw4)"
proof -
  have "int_or_zero d ''bundle_rev'' = Inr r" using assms(6,7) by (simp add: int_or_zero_def py_or_def)
  moreover have "py_str (py_or (dict_get d ''site_id'') (JStr (gw_site_id gw))) = gw_site_id gw"
    using assms(4,5) by (simp add: py_or_def)
  moreover have "(if fd_epoch_advanced dec then gw\<lparr>gw_fence := f\<rparr>\<lparr>gw_route_bundle_rev := 0, gw_route_bundle_hash := JNull\<rparr>
      else gw\<lparr>gw_fence := f\<rparr>) = gw2" by (simp add: assms(8))
  ultimately show ?thesis
    using assms(1-3,9,10) by (simp add: on_route_bundle_def bundle_ack_def Let_def)
qed

lemma gw_act_route_fields [simp]:
  "gw_site_id (snd (gw_act env a gw)) = gw_site_id gw" "gw_fence (snd (gw_act env a gw)) = gw_fence gw"
  "gw_route_bundle_rev (snd (gw_act env a gw)) = gw_route_bundle_rev gw"
  "gw_route_bundle_hash (snd (gw_act env a gw)) = gw_route_bundle_hash gw"
  "set (gw_log (snd (gw_act env a gw))) = insert (a, ge_err env (length (gw_log gw)) = None) (set (gw_log gw))"
  by (simp_all add: gw_act_def Let_def)

lemma bundle_ack_bounded: "0 < r \<Longrightarrow> (ok \<longrightarrow> r \<le> n) \<Longrightarrow> ack_bounded n (JObj (bundle_ack env gw r h ok err dup e))"
  unfolding ack_bounded_def
  by (intro exI conjI, rule refl)
    (simp_all add: bundle_ack_def merge_envelope_other, simp_all add: merge_envelope_def dict_update_def as_dict_envelope_def dict_put_def dom_update dict_get_def)

lemma begin_settled:
  assumes "fence_settled site i gw" and "fence_begin now (fence_scope gw) (bundle_envelope site i r) (gw_fence gw) = (dec, f)"
    and "fd_status dec \<noteq> Stale"
  shows "fence_epoch f (fence_scope gw) = Some (cmi_controller_epoch i) \<and> (fd_epoch_advanced dec \<longrightarrow> gw_route_bundle_rev gw = 0)"
proof (cases "fd_status dec = Accept")
  case True
  note acc = fence_begin_accept [OF assms(2) True]
  show ?thesis using acc(3,8) assms(1) by (auto simp: bundle_envelope_def fence_settled_def)
next
  case False
  with assms(3) have dup: "fd_status dec = Duplicate" by (cases "fd_status dec") auto
  then have "fence_committed (gw_fence gw) (fence_scope gw) (route_operation site r (cmi_controller_epoch i))"
    "\<not> fd_epoch_advanced dec" "f = gw_fence gw"
    using assms(2) by (auto simp: fence_begin_def fence_committed_def bundle_envelope_def Let_def split: if_splits)
  with assms(1) show ?thesis by (auto simp: fence_settled_def)
qed

lemma deliver_inv:
  assumes "gw_inv site i H gw" and "numbered site i H d" and "site_token site"
  shows "gw_inv site i H (snd (on_route_bundle env (JObj d) gw)) \<and>
    gw_route_bundle_rev gw \<le> gw_route_bundle_rev (snd (on_route_bundle env (JObj d) gw))"
proof -
  have gw: "gw_site_id gw = site" "applied_ok H gw" "fence_settled site i gw" "acks_ok site gw"
    using assms(1) by (simp_all add: gw_inv_def)
  obtain r where r: "1 \<le> r" "r \<le> int (length H)" "parse_envelope (JObj d) = Some (bundle_envelope site i r)"
      "dict_get d ''site_id'' = JStr site" "dict_get d ''bundle_rev'' = JInt r" "dict_get d ''hash'' = JStr (H ! nat (r - 1))"
    using assms(2) unfolding numbered_def by blast
  obtain dec f where beg: "fence_begin (ge_now env) (fence_scope gw) (bundle_envelope site i r) (gw_fence gw) = (dec, f)"
    by (metis surj_pair)
  show ?thesis
  proof (cases "fd_status dec = Stale")
    case True
    then have "f = gw_fence gw" using fence_begin_not_accept [OF beg] by simp
    then have "snd (on_route_bundle env (JObj d) gw) = gw" using True r(3) beg by (simp add: on_route_bundle_def)
    with assms(1) show ?thesis by simp
  next
    case False
    note settled = begin_settled [OF gw(3) beg False]
    define gw2 where "gw2 = (if fd_epoch_advanced dec then gw\<lparr>gw_fence := f, gw_route_bundle_rev := 0, gw_route_bundle_hash := JNull\<rparr>
      else gw\<lparr>gw_fence := f\<rparr>)"
    have gw2: "gw_route_bundle_rev gw2 = gw_route_bundle_rev gw" "applied_ok H gw2" "gw_log gw2 = gw_log gw"
        "gw_site_id gw2 = site" "fence_scope gw2 = fence_scope gw" "gw_fence gw2 = f"
      using settled gw by (auto simp: gw2_def applied_ok_def fence_scope_def)
    obtain ok err gw3 where app: "route_apply env (fd_status dec = Duplicate) d r (JStr (H ! nat (r - 1))) gw2 = (ok, err, gw3)"
      by (metis surj_pair)
    have "(gw3 = gw2 \<and> (ok \<longrightarrow> r \<le> gw_route_bundle_rev gw2)) \<or>
        (gw3 = gw2\<lparr>gw_route_bundle_rev := r, gw_route_bundle_hash := JStr (H ! nat (r - 1))\<rparr> \<and> gw_route_bundle_rev gw2 < r \<and> ok)"
      using gw2(2) r(1) by (intro route_apply_numbered [OF app]) (simp_all add: applied_ok_def)
    then have gw3: "applied_ok H gw3" "ok \<longrightarrow> r \<le> gw_route_bundle_rev gw3" "gw_route_bundle_rev gw \<le> gw_route_bundle_rev gw3"
        "gw_log gw3 = gw_log gw" "gw_site_id gw3 = site" "fence_scope gw3 = fence_scope gw" "gw_fence gw3 = f"
      using gw2 r(1,2) by (auto simp: applied_ok_def fence_scope_def)
    define gw4 where "gw4 = (if ok \<and> fd_status dec \<noteq> Duplicate
      then gw3\<lparr>gw_fence := fence_commit (ge_now env) (fence_scope gw3) (bundle_envelope site i r) (gw_fence gw3)\<rparr> else gw3)"
    have gw4: "gw_route_bundle_rev gw4 = gw_route_bundle_rev gw3" "gw_route_bundle_hash gw4 = gw_route_bundle_hash gw3"
        "gw_log gw4 = gw_log gw" "gw_site_id gw4 = site" "fence_scope gw4 = fence_scope gw"
        "fence_epoch (gw_fence gw4) (fence_scope gw) = Some (cmi_controller_epoch i)"
      using gw3 settled by (auto simp: gw4_def fence_epoch_commit bundle_envelope_def fence_scope_def)
    define gw' where "gw' = snd (on_route_bundle env (JObj d) gw)"
    define ack where "ack = JObj (bundle_ack env gw r (dict_get d ''hash'') ok err (fd_status dec = Duplicate) (bundle_envelope site i r))"
    have "gw' = (if gw_has_client gw4 then snd (gw_act env (Post (hub_route_ack_subject site) ack) gw4) else gw4)"
      using on_route_bundle_run [OF r(3) beg False _ _ r(5) _ gw2_def _ gw4_def] app r gw(1) assms(3)
      by (simp add: gw'_def ack_def site_token_def)
    then have gw': "gw_route_bundle_rev gw' = gw_route_bundle_rev gw3" "gw_route_bundle_hash gw' = gw_route_bundle_hash gw3"
        "gw_site_id gw' = site" "gw_fence gw' = gw_fence gw4"
        "\<And>j b. (Post (hub_route_ack_subject site) j, b) \<in> set (gw_log gw') \<Longrightarrow> j = ack \<or> (Post (hub_route_ack_subject site) j, b) \<in> set (gw_log gw)"
      using gw4 by (auto split: if_splits)
    have "ack_bounded (gw_route_bundle_rev gw') ack"
      unfolding ack_def using gw' gw3(2) r(1) by (intro bundle_ack_bounded) simp_all
    then have "acks_ok site gw'"
      using gw(4) gw'(1,5) gw3(3) unfolding acks_ok_def by (metis ack_bounded_mono)
    moreover have "fence_scope gw' = fence_scope gw" using gw'(3) gw(1) by (simp add: fence_scope_def)
    then have "fence_settled site i gw'" using gw4(6) gw'(4) by (simp add: fence_settled_def)
    moreover have "applied_ok H gw'" using gw3(1) gw'(1,2) by (simp add: applied_ok_def)
    ultimately show ?thesis using gw' gw3(3) unfolding gw'_def [symmetric] by (simp add: gw_inv_def)
  qed
qed

lemma route_step_inv:
  assumes "route_step site i s t" and "route_inv site i s" and "site_token site" and "identity_ok i"
  shows "route_inv site i t"
proof -
  obtain H where pub: "pub_inv site i H (sy_pub s)" and gw: "gw_inv site i H (sy_gw s)"
    and le: "bs_acked_rev (bundle_state site (sy_pub s)) \<le> gw_route_bundle_rev (sy_gw s)"
    using assms(2) unfolding route_inv_def by blast
  from assms(1) show ?thesis
  proof cases
    case (turn env store)
    then obtain K where "pub_inv site i (H @ K) (route_loop_turn env store (sy_pub s))"
        "bs_acked_rev (bundle_state site (route_loop_turn env store (sy_pub s))) = bs_acked_rev (bundle_state site (sy_pub s))"
      using loop_turn_inv [OF pub _ assms(4)] by blast
    with turn gw le show ?thesis unfolding route_inv_def by (intro exI [of _ "H @ K"]) (simp add: gw_inv_mono)
  next
    case (deliver b ok genv)
    then have "numbered site i H b" using pub unfolding pub_inv_def by blast
    from deliver_inv [OF gw this assms(3), of genv] deliver pub le show ?thesis
      unfolding route_inv_def by (intro exI [of _ H]) simp
  next
    case (acknowledge j ok)
    then have "ack_bounded (gw_route_bundle_rev (sy_gw s)) j" using gw by (auto simp: gw_inv_def acks_ok_def)
    from apply_ack_inv [OF pub this le] acknowledge gw show ?thesis
      unfolding route_inv_def by (intro exI [of _ H]) (simp add: on_ack_site [OF assms(3)])
  next
    case reconnect
    with reconnect_inv [of site "sy_pub s" i H] pub gw le show ?thesis
      unfolding route_inv_def by (intro exI [of _ H]) simp
  qed
qed

lemma route_init_inv: "route_fresh site i gw \<Longrightarrow> route_inv site i \<lparr>sy_pub = new_publisher, sy_gw = gw\<rparr>"
  unfolding route_inv_def by (intro exI [of _ "[]"]) (auto simp: route_fresh_def pub_inv_def gw_inv_def state_numbered_def
      bundle_state_def new_publisher_def new_bundle_state_def applied_ok_def fence_settled_def acks_ok_def)

lemma route_reachable_inv:
  assumes "(route_step site i)\<^sup>*\<^sup>* \<lparr>sy_pub = new_publisher, sy_gw = gw\<rparr> s" and "route_fresh site i gw" and "site_token site" and "identity_ok i"
  shows "route_inv site i s"
  using assms(1) by (induction rule: rtranclp_induct) (auto intro: route_init_inv [OF assms(2)] route_step_inv [OF _ _ assms(3,4)])

section \<open>Acknowledged means applied\<close>

text \<open>
  (C29) An acknowledged bundle is in force. Over a network that loses, repeats, delays and reorders bundles and acknowledgements, and whatever
  the routes do meanwhile, whenever the publisher takes the current revision of a site for acknowledged, the gateway holds exactly that
  revision, with the hash of exactly that content.
\<close>

theorem acknowledged_routes_applied:
  assumes "(route_step site i)\<^sup>*\<^sup>* \<lparr>sy_pub = new_publisher, sy_gw = gw\<rparr> s" and "route_fresh site i gw"
    and "site_token site" and "identity_ok i"
    and "bundle_acked (bundle_state site (sy_pub s))" and "bs_rev (bundle_state site (sy_pub s)) \<noteq> 0"
  shows "gw_route_bundle_rev (sy_gw s) = bs_rev (bundle_state site (sy_pub s)) \<and>
    gw_route_bundle_hash (sy_gw s) = JStr (bs_hash (bundle_state site (sy_pub s)))"
proof -
  obtain H where inv: "state_numbered H (bundle_state site (sy_pub s))" "applied_ok H (sy_gw s)"
      "bs_acked_rev (bundle_state site (sy_pub s)) \<le> gw_route_bundle_rev (sy_gw s)"
    using route_reachable_inv [OF assms(1-4)] unfolding route_inv_def pub_inv_def gw_inv_def by blast
  then have eq: "gw_route_bundle_rev (sy_gw s) = bs_rev (bundle_state site (sy_pub s))" "bs_rev (bundle_state site (sy_pub s)) = int (length H)"
    using assms(5) by (auto simp: state_numbered_def applied_ok_def bundle_acked_def)
  with assms(6) have "H \<noteq> []" by auto
  then have "H ! (length H - 1) = bs_hash (bundle_state site (sy_pub s))"
    using inv(1) by (simp add: state_numbered_def last_conv_nth)
  moreover have "nat (int (length H) - 1) = length H - 1" by linarith
  ultimately show ?thesis using inv(2) eq assms(6) by (simp add: applied_ok_def)
qed

text \<open>One site with one route, and a controller without an authority.\<close>

definition demo_edge_store :: "string \<Rightarrow> EdgeStore" where
  "demo_edge_store port = upsert_edge_ingress_route 1 ''r'' ''d'' ''s1'' None None [(''exposure'', JObj [(''mode'', JStr ''edge-local'')]), (''port'', JStr port)] None
     \<lparr>edge_routes = [], edge_policies = []\<rparr>"

definition demo_route_store :: "string \<Rightarrow> RouteStore" where
  "demo_route_store port = \<lparr>rs_work = empty_work_store, rs_edge = demo_edge_store port, rs_apps = empty_app_store\<rparr>"

definition demo_route_env :: "time \<Rightarrow> route_env" where
  "demo_route_env now = \<lparr>re_now = now, re_generated_at = ''t'', re_authority = (\<lambda>n. None), re_env_id = Some ''c'', re_env_epoch = None,
     re_hostname = ''h'', re_sha256 = filter ((=) (CHR ''9'')), re_publish = (\<lambda>x. True), re_replay_interval = 30000000\<rparr>"

definition demo_identity :: ControllerMutationIdentity where
  "demo_identity = \<lparr>cmi_controller_id = ''c'', cmi_controller_epoch = 1\<rparr>"

lemma demo_route_env_simps [simp]: "route_identity (demo_route_env now) n = demo_identity" "route_leader (demo_route_env now) n"
  by (simp_all add: demo_route_env_def route_identity_def route_leader_def resolve_controller_identity_def demo_identity_def)

lemma demo_route_fresh: "route_fresh ''s1'' demo_identity demo_gateway"
  by (simp add: route_fresh_def demo_gateway_def fence_init_def fence_committed_def)

definition demo_first_turn :: RoutePublisher where
  "demo_first_turn = route_loop_turn (demo_route_env 5) (demo_route_store ''80'') new_publisher"

definition published_dict :: "bundle_action \<Rightarrow> dict" where
  "published_dict a = (case a of PublishBundle x d ok \<Rightarrow> d | _ \<Rightarrow> [])"

definition demo_first_bundle :: dict where
  "demo_first_bundle = published_dict (hd (rp_log demo_first_turn))"

definition demo_first_gateway :: SiteGateway where
  "demo_first_gateway = snd (on_route_bundle (demo_env []) (JObj demo_first_bundle) demo_gateway)"

definition sent_json :: "gw_action \<times> bool \<Rightarrow> json" where
  "sent_json a = (case fst a of Publish x j \<Rightarrow> j | Post x j \<Rightarrow> j | _ \<Rightarrow> JNull)"

lemma demo_first_log: "rp_log demo_first_turn = [PublishBundle ''s1'' demo_first_bundle True]" by code_simp

definition demo_first_ack :: json where
  "demo_first_ack = sent_json (hd (gw_log demo_first_gateway))"

definition demo_first_done :: RoutePublisher where
  "demo_first_done = snd (on_ack \<lparr>nm_subject = hub_route_ack_subject ''s1'', nm_reply = None, nm_data = Some demo_first_ack\<rparr> demo_first_turn)"

lemma demo_first_ack_log: "gw_log demo_first_gateway = [(Post (hub_route_ack_subject ''s1'') demo_first_ack, True)]" by code_simp

lemma demo_reach:
  "(route_step ''s1'' demo_identity)\<^sup>*\<^sup>* \<lparr>sy_pub = new_publisher, sy_gw = demo_gateway\<rparr>
    \<lparr>sy_pub = demo_first_done, sy_gw = demo_first_gateway\<rparr>"
proof -
  let ?R = "route_step ''s1'' demo_identity"
  have "?R \<lparr>sy_pub = new_publisher, sy_gw = demo_gateway\<rparr> \<lparr>sy_pub = demo_first_turn, sy_gw = demo_gateway\<rparr>"
    using route_step.turn [of "demo_route_env 5" demo_identity "''s1''" "\<lparr>sy_pub = new_publisher, sy_gw = demo_gateway\<rparr>" "demo_route_store ''80''"]
    by (simp add: demo_first_turn_def)
  moreover have "?R \<lparr>sy_pub = demo_first_turn, sy_gw = demo_gateway\<rparr> \<lparr>sy_pub = demo_first_turn, sy_gw = demo_first_gateway\<rparr>"
    using route_step.deliver [of "''s1''" demo_first_bundle True "\<lparr>sy_pub = demo_first_turn, sy_gw = demo_gateway\<rparr>" demo_identity "demo_env []"]
    by (simp add: demo_first_log demo_first_gateway_def)
  moreover have "?R \<lparr>sy_pub = demo_first_turn, sy_gw = demo_first_gateway\<rparr> \<lparr>sy_pub = demo_first_done, sy_gw = demo_first_gateway\<rparr>"
    using route_step.acknowledge [of "''s1''" demo_first_ack True "\<lparr>sy_pub = demo_first_turn, sy_gw = demo_first_gateway\<rparr>" demo_identity]
    by (simp add: demo_first_ack_log demo_first_done_def)
  ultimately show ?thesis by (meson converse_rtranclp_into_rtranclp rtranclp.rtrancl_refl)
qed

text \<open>What the examples below need of this first round.\<close>

definition demo_round :: "RoutePublisher \<Rightarrow> SiteGateway \<Rightarrow> bool" where
  "demo_round p gw \<longleftrightarrow> bundle_acked (bundle_state ''s1'' p) \<and> bs_rev (bundle_state ''s1'' p) = 1 \<and> bs_hash (bundle_state ''s1'' p) = ''sha256:'' \<and>
     \<not> rp_stop p \<and> gw_site_id gw = ''s1'' \<and> gw_has_client gw \<and>
     map_option (\<lambda>c. (fs_controller_id c, fs_controller_epoch c)) (fence_current (gw_fence gw) ''site:s1'') = Some (''c'', 1)"

lemma demo_round_holds: "demo_round demo_first_done demo_first_gateway" by code_simp

lemmas demo_round_facts = demo_round_holds [unfolded demo_round_def]

lemma demo_token: "site_token ''s1''" "identity_ok demo_identity" by code_simp+

theorem acknowledged_routes_applied_witness:
  "bs_rev (bundle_state ''s1'' demo_first_done) = 1 \<and> gw_route_bundle_rev demo_first_gateway = 1 \<and>
   gw_route_bundle_hash demo_first_gateway = JStr (bs_hash (bundle_state ''s1'' demo_first_done))"
proof -
  have "bundle_acked (bundle_state ''s1'' demo_first_done)" "bs_rev (bundle_state ''s1'' demo_first_done) = 1"
    using demo_round_facts by blast+
  then show ?thesis using acknowledged_routes_applied [OF demo_reach demo_route_fresh demo_token] by simp
qed

section \<open>From a change to the site\<close>

lemma publish_site_other:
  "x \<noteq> site \<Longrightarrow> bundle_state site (snd (publish_site env store n x p)) = bundle_state site p \<and>
    set (rp_log p) \<subseteq> set (rp_log (snd (publish_site env store n x p)))"
  by (auto simp: publish_site_def publish_bundle_def Let_def split: sum.splits)

lemma publish_site_ok: "collect_bundle_payload store x = Inr bp \<Longrightarrow> fst (publish_site env store n x p) = Inr ()"
  by (simp add: publish_site_def Let_def)

definition collects :: "RouteStore \<Rightarrow> string \<Rightarrow> bool" where
  "collects store x = (\<not> isl (collect_bundle_payload store x))"

lemma publish_sites_others:
  assumes "\<And>n. route_leader env n" and "list_all (collects store) xs" and "site \<notin> set xs"
  shows "bundle_state site (snd (publish_sites env store n xs p)) = bundle_state site p \<and>
    set (rp_log p) \<subseteq> set (rp_log (snd (publish_sites env store n xs p)))"
  using assms(2,3)
proof (induction xs arbitrary: n p)
  case (Cons x xs)
  then obtain bp where bp: "collect_bundle_payload store x = Inr bp"
    by (cases "collect_bundle_payload store x") (auto simp: collects_def)
  obtain p1 where one: "publish_site env store (n + 1) x p = (Inr (), p1)"
    using publish_site_ok [OF bp, of env "n + 1" p] by (metis prod.collapse)
  have "bundle_state site p1 = bundle_state site p" "set (rp_log p) \<subseteq> set (rp_log p1)"
    using publish_site_other [of x site env store "n + 1" p] Cons.prems(2) one by auto
  with Cons.IH [of "n + 2" p1] Cons.prems one assms(1) show ?case by auto
qed simp

lemma publish_sites_reaches:
  assumes "\<And>n. route_leader env n" and "list_all (collects store) xs" and "site \<in> set xs" and "distinct xs"
  shows "\<exists>m q. bundle_state site q = bundle_state site p \<and>
    bundle_state site (snd (publish_sites env store n xs p)) = bundle_state site (snd (publish_site env store m site q)) \<and>
    set (rp_log (snd (publish_site env store m site q))) \<subseteq> set (rp_log (snd (publish_sites env store n xs p)))"
  using assms(2-4)
proof (induction xs arbitrary: n p)
  case (Cons x xs)
  then obtain bp where bp: "collect_bundle_payload store x = Inr bp"
    by (cases "collect_bundle_payload store x") (auto simp: collects_def)
  obtain p1 where one: "publish_site env store (n + 1) x p = (Inr (), p1)"
    using publish_site_ok [OF bp, of env "n + 1" p] by (metis prod.collapse)
  have rest: "snd (publish_sites env store n (x # xs) p) = snd (publish_sites env store (n + 2) xs p1)"
    using one assms(1) by simp
  show ?case
  proof (cases "x = site")
    case True
    then have "bundle_state site (snd (publish_sites env store (n + 2) xs p1)) = bundle_state site p1 \<and>
        set (rp_log p1) \<subseteq> set (rp_log (snd (publish_sites env store (n + 2) xs p1)))"
      using Cons.prems by (intro publish_sites_others [OF assms(1)]) auto
    then show ?thesis
      unfolding rest using one True by (intro exI [of _ "n + 1"] exI [of _ p]) simp
  next
    case False
    then have "bundle_state site p1 = bundle_state site p"
      using publish_site_other [of x site env store "n + 1" p] one by simp
    with Cons.IH [of p1 "n + 2"] Cons.prems False show ?thesis unfolding rest by auto
  qed
qed simp

lemma turn_publishes_change:
  assumes "state_numbered H (bundle_state site p)" and "\<And>n. route_identity env n = i" and "\<And>n. route_leader env n" and "\<not> rp_stop p"
    and "xs = list_route_bundle_site_ids (rs_work store) (rs_edge store)" and "site \<in> set xs" and "list_all (collects store) xs"
    and "collect_bundle_payload store site = Inr bp" and "h = bundle_hash (re_sha256 env) site bp"
    and "h \<noteq> bs_hash (bundle_state site p)" and "0 \<le> re_now env" and "r = bs_rev (bundle_state site p) + 1"
    and "p1 = route_loop_turn env store p"
  shows "(\<exists>ok. PublishBundle site (build_bundle (re_generated_at env) site r h bp (bundle_envelope site i r)) ok \<in> set (rp_log p1)) \<and>
    bs_rev (bundle_state site p1) = r \<and> bs_hash (bundle_state site p1) = h \<and> bs_acked_rev (bundle_state site p1) < r \<and>
    bs_operation_id (bundle_state site p1) = Some (route_operation site r (cmi_controller_epoch i)) \<and>
    bs_controller_id (bundle_state site p1) = Some (cmi_controller_id i) \<and>
    bs_controller_epoch (bundle_state site p1) = cmi_controller_epoch i"
proof -
  have p1: "p1 = snd (publish_sites env store 1 xs p)"
    using assms(3-5,13) by (simp add: route_loop_turn_def route_run_once_def)
  have "distinct xs" using assms(5) by (simp add: list_route_bundle_site_ids_def)
  then obtain m q where q: "bundle_state site q = bundle_state site p"
      "bundle_state site p1 = bundle_state site (snd (publish_site env store m site q))"
      "set (rp_log (snd (publish_site env store m site q))) \<subseteq> set (rp_log p1)"
    using publish_sites_reaches [OF assms(3) assms(7,6), of p 1] p1 by blast
  define b where "b = note_content h (bundle_state site p)"
  have b: "bs_rev b = r" "bs_hash b = h" "bs_acked_rev b = bs_acked_rev (bundle_state site p)" "bs_next_send_at b = 0"
    using assms(10,12) by (simp_all add: b_def note_content_def)
  then have "\<not> bundle_acked b" using assms(1,12) by (simp add: bundle_acked_def state_numbered_def)
  then have "send_due env b" using b(4) assms(11) by (simp add: send_due_def)
  then have "snd (publish_site env store m site q) = publish_bundle env m site bp b q"
    using assms(8,9) q(1) by (simp add: publish_site_def Let_def b_def)
  with q b assms(1,2,12) show ?thesis
    by (auto simp: publish_bundle_def Let_def bundle_envelope_def state_numbered_def after_publish_def)
qed

lemma apply_ack_completes:
  assumes "bs_rev (bundle_state site p) = r" and "bs_acked_rev (bundle_state site p) < r" and "0 < r" and "identity_ok i"
    and "bs_operation_id (bundle_state site p) = Some (route_operation site r (cmi_controller_epoch i))"
    and "bs_controller_id (bundle_state site p) = Some (cmi_controller_id i)"
    and "bs_controller_epoch (bundle_state site p) = cmi_controller_epoch i"
  shows "bundle_state site (apply_ack site (JObj (bundle_ack env gw r h True err dup (bundle_envelope site i r))) p) =
    ack_accepted r (bundle_state site p)"
proof -
  let ?a = "bundle_ack env gw r h True err dup (bundle_envelope site i r)"
  have b: "map_of (rp_state p) site = Some (bundle_state site p)"
    using assms(5) by (auto simp: bundle_state_def new_bundle_state_def split: option.splits)
  have parse: "parse_envelope (JObj ?a) = Some (bundle_envelope site i r)"
    unfolding bundle_ack_def by (rule parse_merge_envelope) (rule bundle_envelope_ok [OF assms(4)])
  have fields: "dict_get ?a ''bundle_rev'' = JInt r" "dict_get ?a ''ok'' = JBool True"
    by (simp_all add: bundle_ack_def merge_envelope_other) (simp_all add: dict_get_def)
  have "nonempty (Some (route_operation site r (cmi_controller_epoch i))) \<noteq> None" "nonempty (Some (cmi_controller_id i)) \<noteq> None"
    using assms(4) by (auto simp: nonempty_def route_operation_def identity_ok_def split: list.splits)
  then show ?thesis
    using b parse fields assms(1,3,5-7)
    by (auto simp: apply_ack_def py_or_def route_ack_matches_state_def bundle_envelope_def)
qed

lemma deliver_applies:
  assumes "d = build_bundle g site r h bp (bundle_envelope site i r)" and "identity_ok i" and "site_token site" and "0 < r"
    and "gw_site_id gw = site" and "gw_has_client gw"
    and "fence_begin (ge_now env) (fence_scope gw) (bundle_envelope site i r) (gw_fence gw) = (dec, f)" and "fd_status dec \<noteq> Stale"
    and "rev0 = (if fd_epoch_advanced dec then 0 else gw_route_bundle_rev gw)" and "rev0 \<noteq> r"
    and "rev0 < r \<Longrightarrow> fst (ge_render env d)" and "gw' = snd (on_route_bundle env (JObj d) gw)"
  shows "gw_route_bundle_rev gw' = max r rev0 \<and> (rev0 < r \<longrightarrow> gw_route_bundle_hash gw' = JStr h) \<and>
    (r < rev0 \<longrightarrow> gw_route_bundle_hash gw' = gw_route_bundle_hash gw) \<and>
    (\<exists>b err dup. (Post (hub_route_ack_subject site) (JObj (bundle_ack env gw r (JStr h) True err dup (bundle_envelope site i r))), b)
       \<in> set (gw_log gw'))"
proof -
  have parse: "parse_envelope (JObj d) = Some (bundle_envelope site i r)"
    unfolding assms(1) build_bundle_def by (rule parse_merge_envelope) (rule bundle_envelope_ok [OF assms(2)])
  define gw2 where "gw2 = (if fd_epoch_advanced dec then gw\<lparr>gw_fence := f, gw_route_bundle_rev := 0, gw_route_bundle_hash := JNull\<rparr>
      else gw\<lparr>gw_fence := f\<rparr>)"
  have gw2: "gw_route_bundle_rev gw2 = rev0" "gw_site_id gw2 = site" "gw_has_client gw2"
      "r < rev0 \<Longrightarrow> gw_route_bundle_hash gw2 = gw_route_bundle_hash gw"
    using assms(4-6,9) by (auto simp: gw2_def split: if_splits)
  let ?dup = "fd_status dec = Duplicate"
  obtain ok err gw3 where app: "route_apply env ?dup d r (JStr h) gw2 = (ok, err, gw3)" by (metis surj_pair)
  have gw3: "ok" "gw3 = (if rev0 < r then gw2\<lparr>gw_route_bundle_rev := r, gw_route_bundle_hash := JStr h\<rparr> else gw2)"
  proof -
    have "ok \<and> gw3 = (if rev0 < r then gw2\<lparr>gw_route_bundle_rev := r, gw_route_bundle_hash := JStr h\<rparr> else gw2)"
    proof (cases "rev0 < r")
      case True
      then have "route_apply env ?dup d r (JStr h) gw2 = route_render env d r (JStr h) gw2"
        using gw2(1) by (simp add: route_apply_def)
      with app have "route_render env d r (JStr h) gw2 = (ok, err, gw3)" by simp
      moreover from this have ok using assms(11) True by (cases "gw_has_renderer gw2") (auto simp: route_render_def split: prod.splits)
      ultimately show ?thesis using True route_render_cases by metis
    next
      case False
      with app gw2(1) assms(10) show ?thesis by (auto simp: route_apply_def split: if_splits)
    qed
    then show "ok" "gw3 = (if rev0 < r then gw2\<lparr>gw_route_bundle_rev := r, gw_route_bundle_hash := JStr h\<rparr> else gw2)" by blast+
  qed
  define gw4 where "gw4 = (if ok \<and> fd_status dec \<noteq> Duplicate
      then gw3\<lparr>gw_fence := fence_commit (ge_now env) (fence_scope gw3) (bundle_envelope site i r) (gw_fence gw3)\<rparr> else gw3)"
  have gw4: "gw_has_client gw4" "gw_route_bundle_rev gw4 = max r rev0" "rev0 < r \<Longrightarrow> gw_route_bundle_hash gw4 = JStr h"
      "r < rev0 \<Longrightarrow> gw_route_bundle_hash gw4 = gw_route_bundle_hash gw"
    using gw2 gw3 by (auto simp: gw4_def)
  have "gw' = snd (gw_act env (Post (hub_route_ack_subject site) (JObj (bundle_ack env gw r (JStr h) ok err ?dup (bundle_envelope site i r)))) gw4)"
    using on_route_bundle_run [OF parse assms(7,8) _ _ _ _ gw2_def _ gw4_def, of r err] app gw4(1) assms(1,3-5,12)
    by (simp add: build_bundle_fields site_token_def)
  with gw4 gw3(1) show ?thesis by auto
qed

text \<open>
  (C30) A change of routes reaches the site. From any state that publisher and gateway can be in, when the routes of a site have changed, one turn of
  the leading publisher publishes the next revision; once it arrives at a gateway whose fence does not refuse the controller and which can render it,
  the gateway holds the new revision with the hash of the new content; and once its acknowledgement arrives, the publisher
  takes it for acknowledged.
\<close>

theorem changed_routes_reach_site:
  assumes "(route_step site i)\<^sup>*\<^sup>* \<lparr>sy_pub = new_publisher, sy_gw = gw0\<rparr> s" and "route_fresh site i gw0"
    and "site_token site" and "identity_ok i" and "p = sy_pub s" and "gw = sy_gw s"
    and "\<And>n. route_identity env n = i" and "\<And>n. route_leader env n" and "\<not> rp_stop p"
    and "xs = list_route_bundle_site_ids (rs_work store) (rs_edge store)" and "site \<in> set xs" and "list_all (collects store) xs"
    and "collect_bundle_payload store site = Inr bp" and "h = bundle_hash (re_sha256 env) site bp"
    and "h \<noteq> bs_hash (bundle_state site p)" and "0 \<le> re_now env" and "r = bs_rev (bundle_state site p) + 1"
    and "fd_status (fst (fence_begin (ge_now genv) (fence_scope gw) (bundle_envelope site i r) (gw_fence gw))) \<noteq> Stale"
    and "gw_has_client gw" and "\<And>d. fst (ge_render genv d)"
  shows "\<exists>d ok j ok'. PublishBundle site d ok \<in> set (rp_log (route_loop_turn env store p)) \<and>
    gw_route_bundle_rev (snd (on_route_bundle genv (JObj d) gw)) = r \<and>
    gw_route_bundle_hash (snd (on_route_bundle genv (JObj d) gw)) = JStr h \<and>
    (Post (hub_route_ack_subject site) j, ok') \<in> set (gw_log (snd (on_route_bundle genv (JObj d) gw))) \<and>
    (let b = bundle_state site (snd (on_ack \<lparr>nm_subject = hub_route_ack_subject site, nm_reply = None, nm_data = Some j\<rparr>
         (route_loop_turn env store p)))
     in bundle_acked b \<and> bs_rev b = r \<and> bs_hash b = h)"
proof -
  obtain H where inv: "state_numbered H (bundle_state site p)" "gw_inv site i H gw"
    using route_reachable_inv [OF assms(1-4)] unfolding route_inv_def pub_inv_def assms(5,6) by blast
  define p1 where "p1 = route_loop_turn env store p"
  define d where "d = build_bundle (re_generated_at env) site r h bp (bundle_envelope site i r)"
  note pub = turn_publishes_change [OF inv(1) assms(7-17) p1_def, folded d_def]
  have r: "0 < r" using assms(17) inv(1) by (simp add: state_numbered_def)
  obtain dec f where beg: "fence_begin (ge_now genv) (fence_scope gw) (bundle_envelope site i r) (gw_fence gw) = (dec, f)"
    by (metis surj_pair)
  define rev0 where "rev0 = (if fd_epoch_advanced dec then 0 else gw_route_bundle_rev gw)"
  have rev0: "rev0 < r" using inv r assms(17) by (auto simp: rev0_def gw_inv_def applied_ok_def state_numbered_def)
  define gw' where "gw' = snd (on_route_bundle genv (JObj d) gw)"
  have app: "gw_route_bundle_rev gw' = r" "gw_route_bundle_hash gw' = JStr h"
    "\<exists>b err dup. (Post (hub_route_ack_subject site) (JObj (bundle_ack genv gw r (JStr h) True err dup (bundle_envelope site i r))), b) \<in> set (gw_log gw')"
    using deliver_applies [OF d_def assms(4,3) r _ assms(19) beg _ rev0_def _ assms(20) gw'_def] rev0 assms(18) beg inv(2)
    by (auto simp: gw_inv_def)
  then obtain b err dup where ack: "(Post (hub_route_ack_subject site)
      (JObj (bundle_ack genv gw r (JStr h) True err dup (bundle_envelope site i r))), b) \<in> set (gw_log gw')" by blast
  have "bundle_state site (apply_ack site (JObj (bundle_ack genv gw r (JStr h) True err dup (bundle_envelope site i r))) p1) =
      ack_accepted r (bundle_state site p1)"
    using pub r assms(4) by (intro apply_ack_completes) simp_all
  with pub app ack show ?thesis
    unfolding p1_def [symmetric] gw'_def [symmetric] on_ack_site [OF assms(3)] Let_def
    by (intro exI [of _ d] exI [of _ "JObj (bundle_ack genv gw r (JStr h) True err dup (bundle_envelope site i r))"])
      (auto simp: gw'_def [symmetric] ack_accepted_def bundle_acked_def)
qed

theorem changed_routes_reach_site_witness:
  "\<exists>d ok. PublishBundle ''s1'' d ok \<in> set (rp_log (route_loop_turn (demo_route_env 9) (demo_route_store ''89'') demo_first_done)) \<and>
    gw_route_bundle_rev (snd (on_route_bundle (demo_env []) (JObj d) demo_first_gateway)) = 2"
proof -
  let ?env = "demo_route_env 9" and ?store = "demo_route_store ''89''"
  define bp where "bp = (case collect_bundle_payload ?store ''s1'' of Inr bp \<Rightarrow> bp | Inl _ \<Rightarrow> \<lparr>bp_routes = [], bp_policies = [], bp_endpoints = []\<rparr>)"
  have xs: "list_route_bundle_site_ids (rs_work ?store) (rs_edge ?store) = [''s1'']" by code_simp
  have bp: "collect_bundle_payload ?store ''s1'' = Inr bp" unfolding bp_def by code_simp
  have all: "list_all (collects ?store) [''s1'']" by code_simp
  have "bundle_hash (re_sha256 ?env) ''s1'' bp \<noteq> ''sha256:''" unfolding bp_def by code_simp
  then have h: "bundle_hash (re_sha256 ?env) ''s1'' bp \<noteq> bs_hash (bundle_state ''s1'' demo_first_done)" using demo_round_facts by simp
  have "0 \<le> re_now ?env" by code_simp
  moreover obtain c where "fence_current (gw_fence demo_first_gateway) (fence_scope demo_first_gateway) = Some c"
      "fs_controller_id c = ''c''" "fs_controller_epoch c = 1"
    using demo_round_facts by (auto simp: fence_scope_def)
  then have "fd_status (fst (fence_begin (ge_now (demo_env [])) (fence_scope demo_first_gateway) (bundle_envelope ''s1'' demo_identity 2)
       (gw_fence demo_first_gateway))) \<noteq> Stale"
    by (simp add: fence_begin_def bundle_envelope_def demo_identity_def Let_def)
  ultimately have st: "\<not> rp_stop demo_first_done" "0 \<le> re_now ?env" "(2 :: int) = bs_rev (bundle_state ''s1'' demo_first_done) + 1"
    "fd_status (fst (fence_begin (ge_now (demo_env [])) (fence_scope demo_first_gateway) (bundle_envelope ''s1'' demo_identity 2)
       (gw_fence demo_first_gateway))) \<noteq> Stale" "gw_has_client demo_first_gateway"
    using demo_round_facts by simp_all
  have render: "fst (ge_render (demo_env []) d)" for d by (simp add: demo_env_def)
  have sys: "demo_first_done = sy_pub \<lparr>sy_pub = demo_first_done, sy_gw = demo_first_gateway\<rparr>"
    "demo_first_gateway = sy_gw \<lparr>sy_pub = demo_first_done, sy_gw = demo_first_gateway\<rparr>" by simp_all
  show ?thesis
    using changed_routes_reach_site [OF demo_reach demo_route_fresh demo_token sys _ _ st(1) xs [symmetric] _ all bp refl h st(2-5) render] by auto
qed

text \<open>
  A restarted controller's routes are dropped. Revisions live in the publisher's memory and start again at one, while the gateway
  remembers the last one it applied; under the same identity and epoch, which is what a controller without an authority has after every
  restart, the gateway acknowledges the first bundles as older ones without applying them. The publisher then takes its
  routes for acknowledged although the site still serves the old ones.
\<close>

theorem restarted_publisher_routes_dropped:
  assumes "site_token site" and "identity_ok i" and "gw_site_id gw = site" and "gw_has_client gw"
    and "fence_current (gw_fence gw) (fence_scope gw) = Some c" and "fs_controller_id c = cmi_controller_id i"
    and "fs_controller_epoch c = cmi_controller_epoch i" and "1 < gw_route_bundle_rev gw"
    and "\<And>n. route_identity env n = i" and "\<And>n. route_leader env n"
    and "xs = list_route_bundle_site_ids (rs_work store) (rs_edge store)" and "site \<in> set xs" and "list_all (collects store) xs"
    and "collect_bundle_payload store site = Inr bp" and "0 \<le> re_now env"
  shows "\<exists>d ok j ok'. PublishBundle site d ok \<in> set (rp_log (route_loop_turn env store new_publisher)) \<and>
    dict_get d ''hash'' = JStr (bundle_hash (re_sha256 env) site bp) \<and>
    gw_route_bundle_rev (snd (on_route_bundle genv (JObj d) gw)) = gw_route_bundle_rev gw \<and>
    gw_route_bundle_hash (snd (on_route_bundle genv (JObj d) gw)) = gw_route_bundle_hash gw \<and>
    (Post (hub_route_ack_subject site) j, ok') \<in> set (gw_log (snd (on_route_bundle genv (JObj d) gw))) \<and>
    bundle_acked (bundle_state site (snd (on_ack \<lparr>nm_subject = hub_route_ack_subject site, nm_reply = None, nm_data = Some j\<rparr>
      (route_loop_turn env store new_publisher))))"
proof -
  have new: "bundle_state site new_publisher = new_bundle_state" "\<not> rp_stop new_publisher"
    by (simp_all add: bundle_state_def new_publisher_def)
  define p1 where "p1 = route_loop_turn env store new_publisher"
  define h where "h = bundle_hash (re_sha256 env) site bp"
  define d where "d = build_bundle (re_generated_at env) site 1 h bp (bundle_envelope site i 1)"
  have hash: "dict_get d ''hash'' = JStr h" by (simp add: d_def build_bundle_fields)
  have num: "state_numbered [] (bundle_state site new_publisher)" and fresh: "h \<noteq> bs_hash (bundle_state site new_publisher)"
    "1 = bs_rev (bundle_state site new_publisher) + 1"
    by (simp_all add: new state_numbered_def new_bundle_state_def h_def bundle_hash_def)
  note pub = turn_publishes_change [OF num assms(9,10) new(2) assms(11-14) h_def fresh(1) assms(15) fresh(2) p1_def, folded d_def]
  obtain dec f where beg: "fence_begin (ge_now genv) (fence_scope gw) (bundle_envelope site i 1) (gw_fence gw) = (dec, f)"
    by (metis surj_pair)
  have dec: "fd_status dec \<noteq> Stale" "\<not> fd_epoch_advanced dec"
    using beg assms(5-7) by (auto simp: fence_begin_def bundle_envelope_def Let_def split: if_splits)
  define gw' where "gw' = snd (on_route_bundle genv (JObj d) gw)"
  have app: "gw_route_bundle_rev gw' = gw_route_bundle_rev gw" "gw_route_bundle_hash gw' = gw_route_bundle_hash gw"
    "\<exists>b err dup. (Post (hub_route_ack_subject site) (JObj (bundle_ack genv gw 1 (JStr h) True err dup (bundle_envelope site i 1))), b) \<in> set (gw_log gw')"
    using deliver_applies [OF d_def assms(2,1) _ assms(3,4) beg dec(1) _ _ _ gw'_def, of "gw_route_bundle_rev gw"] dec(2) assms(8) by auto
  then obtain b err dup where ack: "(Post (hub_route_ack_subject site)
      (JObj (bundle_ack genv gw 1 (JStr h) True err dup (bundle_envelope site i 1))), b) \<in> set (gw_log gw')" by blast
  have "bundle_state site (apply_ack site (JObj (bundle_ack genv gw 1 (JStr h) True err dup (bundle_envelope site i 1))) p1) =
      ack_accepted 1 (bundle_state site p1)"
    using pub assms(2) by (intro apply_ack_completes) simp_all
  with pub app ack show ?thesis
    unfolding p1_def [symmetric] gw'_def [symmetric] on_ack_site [OF assms(1)] h_def [symmetric]
    by (intro exI [of _ d] exI [of _ "JObj (bundle_ack genv gw 1 (JStr h) True err dup (bundle_envelope site i 1))"])
      (auto simp: gw'_def [symmetric] ack_accepted_def bundle_acked_def hash)
qed

theorem restarted_publisher_routes_dropped_witness:
  "let gw = demo_first_gateway\<lparr>gw_route_bundle_rev := 5, gw_route_bundle_hash := JStr ''old''\<rparr> in
   \<exists>d ok. PublishBundle ''s1'' d ok \<in> set (rp_log demo_first_turn) \<and>
     gw_route_bundle_hash (snd (on_route_bundle (demo_env []) (JObj d) gw)) = JStr ''old''"
proof -
  let ?env = "demo_route_env 5" and ?store = "demo_route_store ''80''"
  define gw where "gw = demo_first_gateway\<lparr>gw_route_bundle_rev := 5, gw_route_bundle_hash := JStr ''old''\<rparr>"
  define bp where "bp = (case collect_bundle_payload ?store ''s1'' of Inr bp \<Rightarrow> bp | Inl _ \<Rightarrow> \<lparr>bp_routes = [], bp_policies = [], bp_endpoints = []\<rparr>)"
  have xs: "list_route_bundle_site_ids (rs_work ?store) (rs_edge ?store) = [''s1'']" by code_simp
  have bp: "collect_bundle_payload ?store ''s1'' = Inr bp" unfolding bp_def by code_simp
  have all: "list_all (collects ?store) [''s1'']" "0 \<le> re_now ?env" by code_simp+
  obtain c where cur: "fence_current (gw_fence gw) (fence_scope gw) = Some c"
    and c: "fs_controller_id c = cmi_controller_id demo_identity" "fs_controller_epoch c = cmi_controller_epoch demo_identity"
    using demo_round_facts by (auto simp: gw_def fence_scope_def demo_identity_def)
  have "gw_site_id demo_first_gateway = ''s1''" "gw_has_client demo_first_gateway" using demo_round_facts by blast+
  then have gw: "gw_site_id gw = ''s1''" "gw_has_client gw" "1 < gw_route_bundle_rev gw" "gw_route_bundle_hash gw = JStr ''old''"
    by (simp_all add: gw_def)
  show ?thesis
    using restarted_publisher_routes_dropped [OF demo_token gw(1,2) cur c gw(3) _ _ xs [symmetric] _ all(1) bp all(2), of "demo_env []"] gw(4)
    unfolding demo_first_turn_def [symmetric] gw_def [symmetric] Let_def by auto
qed

section \<open>What a turn leaves out\<close>

lemma publish_sites_only:
  assumes "site \<notin> set xs"
  shows "bundle_state site (snd (publish_sites env store n xs p)) = bundle_state site p \<and>
    (PublishBundle site d ok \<in> set (rp_log (snd (publish_sites env store n xs p))) \<longrightarrow> PublishBundle site d ok \<in> set (rp_log p))"
  using assms
proof (induction xs arbitrary: n p)
  case (Cons x xs)
  obtain r p1 where one: "publish_site env store (n + 1) x p = (r, p1)" by (metis surj_pair)
  have "bundle_state site p1 = bundle_state site p" using publish_site_other [of x site env store "n + 1" p] Cons.prems one by auto
  moreover have "PublishBundle site d ok \<in> set (rp_log p1) \<Longrightarrow> PublishBundle site d ok \<in> set (rp_log p)"
    using one Cons.prems by (auto simp: publish_site_def publish_bundle_def Let_def split: sum.splits if_splits)
  ultimately show ?case
    using Cons.IH [of "n + 2" p1] Cons.prems one by (cases "route_leader env n"; cases r) simp_all
qed simp

lemma publish_sites_append:
  assumes "collect_bundle_payload store x = Inl err"
  shows "\<exists>us. set us \<subseteq> set (ys @ [x]) \<and> snd (publish_sites env store n (ys @ x # zs) p) = snd (publish_sites env store n us p)"
proof (induction ys arbitrary: n p)
  case Nil
  show ?case
    using assms by (intro exI [of _ "[x]"]) (simp add: publish_site_def)
next
  case (Cons y ys)
  obtain r p1 where one: "publish_site env store (n + 1) y p = (r, p1)" by (metis surj_pair)
  show ?case
  proof (cases "route_leader env n \<and> r = Inr ()")
    case True
    obtain us where us: "set us \<subseteq> set (ys @ [x])" "snd (publish_sites env store (n + 2) (ys @ x # zs) p1) = snd (publish_sites env store (n + 2) us p1)"
      using Cons.IH by blast
    with True one show ?thesis by (intro exI [of _ "y # us"]) auto
  next
    case False
    then have "snd (publish_sites env store n ((y # ys) @ x # zs) p) = snd (publish_sites env store n [y] p)"
      using one by (auto split: sum.splits)
    then show ?thesis by (intro exI [of _ "[y]"]) auto
  qed
qed

text \<open>The exposure in the document stored for a route, which is either a whole document with a specification in it or the specification alone.\<close>

definition stored_exposure :: "EdgeIngressRouteRecord \<Rightarrow> json" where
  "stored_exposure r = dict_get (if ''spec'' \<in> fst ` set (rr_spec r)
     then (case dict_get (rr_spec r) ''spec'' of JObj spec \<Rightarrow> spec | _ \<Rightarrow> []) else rr_spec r) ''exposure''"

definition malformed_route :: "EdgeIngressRouteRecord \<Rightarrow> bool" where
  "malformed_route r \<longleftrightarrow> truthy (stored_exposure r) \<and> as_dict (stored_exposure r) = None"

lemma normalized_exposure: "\<exists>spec. dict_get (normalize_route_doc r) ''spec'' = JObj spec \<and> dict_get spec ''exposure'' = stored_exposure r"
proof (cases "''spec'' \<in> fst ` set (rr_spec r)")
  case True
  then show ?thesis by (simp add: normalize_route_doc_def normalize_doc_def stored_exposure_def Let_def)
next
  case False
  then show ?thesis by (simp add: normalize_route_doc_def normalize_doc_def stored_exposure_def dict_get_def)
qed

lemma rendered_raises: "isl (route_is_edge_rendered (normalize_route_doc r)) \<longleftrightarrow> malformed_route r"
proof -
  obtain spec where spec: "dict_get (normalize_route_doc r) ''spec'' = JObj spec" "dict_get spec ''exposure'' = stored_exposure r"
    using normalized_exposure by blast
  show ?thesis
  proof (cases "spec = []")
    case True
    with spec have "stored_exposure r = JNull" by simp
    with True spec(1) show ?thesis by (simp add: route_is_edge_rendered_def or_empty_dict_def malformed_route_def)
  next
    case False
    then show ?thesis using spec
      by (cases "stored_exposure r") (auto simp: route_is_edge_rendered_def or_empty_dict_def malformed_route_def)
  qed
qed

lemma edge_rendered_raises: "isl (edge_rendered rs) \<longleftrightarrow> (\<exists>r \<in> set rs. malformed_route r)"
proof (induction rs)
  case (Cons r rs)
  show ?case
  proof (cases "route_is_edge_rendered (normalize_route_doc r)")
    case (Inl err)
    with rendered_raises [of r] show ?thesis by simp
  next
    case (Inr b)
    with rendered_raises [of r] Cons show ?thesis by (cases "edge_rendered rs") simp_all
  qed
qed simp

lemma collect_raises:
  "isl (collect_bundle_payload store x) \<longleftrightarrow> (\<exists>r \<in> set (list_edge_ingress_routes_for_site x (rs_edge store)). malformed_route r)"
  unfolding edge_rendered_raises [symmetric] collect_bundle_payload_def
  by (cases "edge_rendered (list_edge_ingress_routes_for_site x (rs_edge store))") simp_all

text \<open>
  (C31) One malformed route stops the bundles of other sites. The collection for a site raises exactly when a route stored for it has an exposure
  that is neither an object nor one of the values Python takes for false (null, false, 0 and the empty string, list and object, which count as an empty object).
  The turn ends at such a site, and every site that comes later in the order of names is neither published to nor looked at, in this turn
  and in every other one while the route exists. A site that no lease and no route names any more is not told either.
\<close>

theorem bad_route_blocks_later_sites:
  assumes "xs = list_route_bundle_site_ids (rs_work store) (rs_edge store)"
    and "(xs = ys @ x # zs \<and> r \<in> set (list_edge_ingress_routes_for_site x (rs_edge store)) \<and> malformed_route r \<and>
      site \<notin> set (ys @ [x])) \<or> site \<notin> set xs"
  shows "(isl (collect_bundle_payload store z) \<longleftrightarrow>
      (\<exists>r' \<in> set (list_edge_ingress_routes_for_site z (rs_edge store)). malformed_route r')) \<and>
    bundle_state site (route_loop_turn env store p) = bundle_state site p \<and>
    (PublishBundle site d ok \<in> set (rp_log (route_loop_turn env store p)) \<longrightarrow> PublishBundle site d ok \<in> set (rp_log p))"
proof -
  have "\<exists>us. site \<notin> set us \<and> snd (publish_sites env store 1 xs p) = snd (publish_sites env store 1 us p)"
    using assms(2)
  proof
    assume bad: "xs = ys @ x # zs \<and> r \<in> set (list_edge_ingress_routes_for_site x (rs_edge store)) \<and> malformed_route r \<and>
      site \<notin> set (ys @ [x])"
    then obtain err where "collect_bundle_payload store x = Inl err" using collect_raises [of store x] by (auto simp: isl_def)
    with bad publish_sites_append [of store x err ys env 1 zs p] show ?thesis by blast
  qed blast
  then show ?thesis
    using publish_sites_only [of site _ env store 1 p d ok] assms(1) collect_raises [of store z]
    by (auto simp: route_loop_turn_def route_run_once_def)
qed

text \<open>Site \<open>a\<close> has a route whose exposure is a string, site \<open>b\<close> comes after it.\<close>

definition demo_bad_store :: RouteStore where
  "demo_bad_store = \<lparr>rs_work = empty_work_store, rs_edge =
     upsert_edge_ingress_route 2 ''q'' ''d'' ''b'' None None [(''exposure'', JObj [(''mode'', JStr ''edge-local'')])] None
       (upsert_edge_ingress_route 1 ''r'' ''d'' ''a'' None None [(''exposure'', JStr ''edge-local'')] None
         \<lparr>edge_routes = [], edge_policies = []\<rparr>), rs_apps = empty_app_store\<rparr>"

theorem bad_route_blocks_later_sites_witness:
  "list_route_bundle_site_ids (rs_work demo_bad_store) (rs_edge demo_bad_store) = [''a'', ''b''] \<and>
   isl (collect_bundle_payload demo_bad_store ''a'') \<and>
   bundle_state ''b'' (route_loop_turn (demo_route_env 5) demo_bad_store new_publisher) = new_bundle_state"
proof -
  have sites: "list_route_bundle_site_ids (rs_work demo_bad_store) (rs_edge demo_bad_store) = [''a'', ''b'']" by code_simp
  have "list_ex malformed_route (list_edge_ingress_routes_for_site ''a'' (rs_edge demo_bad_store))" by code_simp
  then obtain r where r: "r \<in> set (list_edge_ingress_routes_for_site ''a'' (rs_edge demo_bad_store))" "malformed_route r"
    by (auto simp: list_ex_iff)
  have "bundle_state ''b'' (route_loop_turn (demo_route_env 5) demo_bad_store new_publisher) = bundle_state ''b'' new_publisher"
    "isl (collect_bundle_payload demo_bad_store ''a'')"
    using bad_route_blocks_later_sites [of "[''a'', ''b'']" demo_bad_store "[]" "''a''" "[''b'']" r "''b''" "''a''"] sites r by auto
  with sites show ?thesis by (simp add: bundle_state_def new_publisher_def)
qed

end
