(* ===== verification/Etcd_Kv.thy ===== *)
theory Etcd_Kv
  imports Authority "HOL-Library.AList" "HOL-Library.Sublist"
begin

text \<open>
  The key-value calls the etcd state store is built on (\<^verbatim>\<open>EtcdHttpClient\<close> and the helpers \<^verbatim>\<open>_k\<close>, \<^verbatim>\<open>_get_json\<close>, \<^verbatim>\<open>_put_json\<close>,
  \<^verbatim>\<open>_list_prefix\<close>, \<^verbatim>\<open>_create_json_if_absent\<close> of \<^verbatim>\<open>ae/controller/etcd_state.py\<close>).

  The server is an argument: a record of its calls, with the documented behaviour of etcd's key-value interface as the locale
  \<open>etcd_kv\<close>; \<open>ref_kv\<close> is a reference server that keeps it. A value is the document a key of its kind holds,
  \<^verbatim>\<open>json.loads(json.dumps(v))\<close> being \<open>v\<close>. Strings are the bytes of their UTF-8 encoding.
\<close>

section \<open>Keys and calls\<close>

definition bytes :: "string \<Rightarrow> nat list" where
  "bytes s = map of_char s"

text \<open>\<^verbatim>\<open>p.strip("/")\<close> and \<^verbatim>\<open>"/".join(parts)\<close>.\<close>

definition strip_slash :: "string \<Rightarrow> string" where
  "strip_slash p = rev (dropWhile (\<lambda>c. c = CHR ''/'') (rev (dropWhile (\<lambda>c. c = CHR ''/'') p)))"

fun join_slash :: "string list \<Rightarrow> string" where
  "join_slash [] = []"
| "join_slash [p] = p"
| "join_slash (p # q # ps) = p @ CHR ''/'' # join_slash (q # ps)"

definition etcd_key :: "string \<Rightarrow> string list \<Rightarrow> string" where
  "etcd_key pre parts = join_slash ((if pre = [] then [] else [pre]) @ map strip_slash (filter (\<lambda>p. p \<noteq> []) parts))"

record ('s, 'v) KvOps =
  ek_get :: "string \<Rightarrow> 's \<Rightarrow> 'v option"
  ek_range :: "nat list \<Rightarrow> nat list \<Rightarrow> 's \<Rightarrow> (string \<times> 'v) list"
  ek_put :: "string \<Rightarrow> 'v \<Rightarrow> 's \<Rightarrow> 's"
  ek_delete :: "string \<Rightarrow> 's \<Rightarrow> 's"
  ek_create :: "string \<Rightarrow> 'v \<Rightarrow> 's \<Rightarrow> bool \<times> 's"

definition list_prefix :: "('s, 'v) KvOps \<Rightarrow> string \<Rightarrow> 's \<Rightarrow> (string \<times> 'v) list" where
  "list_prefix ops p s = ek_range ops (bytes p) (prefix_end (bytes p)) s"

text \<open>\<^verbatim>\<open>rows[:n]\<close>: a negative bound counts from the end.\<close>

definition py_take :: "int \<Rightarrow> 'a list \<Rightarrow> 'a list" where
  "py_take n xs = (if n < 0 then take (length xs - nat (- n)) xs else take (nat n) xs)"

section \<open>Keys in parts\<close>

definition key_head :: "string \<Rightarrow> string" where
  "key_head pre = (if pre = [] then [] else pre @ ''/'')"

definition key_tail :: "string list \<Rightarrow> string" where
  "key_tail ps = concat (map (\<lambda>p. CHR ''/'' # strip_slash p) (filter (\<lambda>p. p \<noteq> []) ps))"

text \<open>A part that \<^verbatim>\<open>_k\<close> keeps as it is.\<close>

definition key_part :: "string \<Rightarrow> bool" where
  "key_part p \<longleftrightarrow> p \<noteq> [] \<and> strip_slash p = p"

lemma join_slash_Cons: "join_slash (p # ps) = p @ concat (map (\<lambda>q. CHR ''/'' # q) ps)"
  by (induction ps arbitrary: p) simp_all

lemma etcd_key_Cons: "key_part p \<Longrightarrow> etcd_key pre (p # ps) = key_head pre @ p @ key_tail ps"
  by (simp add: etcd_key_def key_part_def key_head_def key_tail_def join_slash_Cons comp_def)

lemma key_tail_Cons: "key_tail (p # ps) = (if p = [] then [] else CHR ''/'' # strip_slash p) @ key_tail ps"
  by (simp add: key_tail_def)

lemma key_tail_Nil [simp]: "key_tail [] = []"
  by (simp add: key_tail_def)

section \<open>What the server promises\<close>

text \<open>
  A key holds the value last put there until it is deleted; the transaction with the condition that the key has never been created puts
  only when there is no value; a range answers the pairs in \<open>[a, b)\<close> in the order of the keys. \<open>ok\<close> are the states the server can be in.
\<close>

locale etcd_kv =
  fixes ops :: "('s, 'v) KvOps" and ok :: "'s \<Rightarrow> bool"
  assumes ok_put: "ok s \<Longrightarrow> ok (ek_put ops k v s)"
    and ok_delete: "ok s \<Longrightarrow> ok (ek_delete ops k s)"
    and get_put: "ok s \<Longrightarrow> ek_get ops k (ek_put ops k' v s) = (if k = k' then Some v else ek_get ops k s)"
    and get_delete: "ok s \<Longrightarrow> ek_get ops k (ek_delete ops k' s) = (if k = k' then None else ek_get ops k s)"
    and create: "ok s \<Longrightarrow> ek_create ops k v s = (case ek_get ops k s of None \<Rightarrow> (True, ek_put ops k v s) | Some _ \<Rightarrow> (False, s))"
    and range_order: "ok s \<Longrightarrow> sorted (map (bytes \<circ> fst) (ek_range ops a b s)) \<and> distinct (map fst (ek_range ops a b s))"
    and range_set: "ok s \<Longrightarrow> set (ek_range ops a b s) = {(k, v). ek_get ops k s = Some v \<and> a \<le> bytes k \<and> bytes k < b}"
begin

lemma ok_create: "ok s \<Longrightarrow> ok (snd (ek_create ops k v s))"
  by (simp add: create ok_put split: option.splits)

lemma get_create:
  "ok s \<Longrightarrow> ek_get ops k (snd (ek_create ops k' v s)) =
     (if k = k' \<and> ek_get ops k' s = None then Some v else ek_get ops k s)"
  by (auto simp: create get_put split: option.splits)

end

lemma bytes_prefix: "take (length (bytes p)) (bytes k) = bytes p \<longleftrightarrow> prefix p k"
proof
  assume *: "take (length (bytes p)) (bytes k) = bytes p"
  have "map (of_char :: char \<Rightarrow> nat) (take (length p) k) = map of_char p"
    using * by (simp add: bytes_def take_map)
  moreover have "inj (of_char :: char \<Rightarrow> nat)" by (intro injI) simp
  ultimately have "take (length p) k = p" by (metis map_injective inj_map inj_eq)
  then show "prefix p k" by (metis take_is_prefix)
qed (auto simp: bytes_def prefix_def)

lemma bytes_le: "b \<in> set (bytes p) \<Longrightarrow> b \<le> 255"
proof -
  assume "b \<in> set (bytes p)"
  then obtain c where "b = of_char c" by (auto simp: bytes_def)
  moreover have "(of_char c :: nat) < 256" by (metis of_char_mod_256 mod_less_divisor zero_less_numeral)
  ultimately show ?thesis by linarith
qed

text \<open>A string with an ASCII character; all prefixes the store lists are such.\<close>

definition some_ascii :: "string \<Rightarrow> bool" where
  "some_ascii p \<longleftrightarrow> (\<exists>c \<in> set p. (of_char c :: nat) < 255)"

lemma prefix_range: "some_ascii p \<Longrightarrow> bytes p \<le> bytes k \<and> bytes k < prefix_end (bytes p) \<longleftrightarrow> prefix p k"
  using prefix_end_range [of "bytes p" "bytes k"] bytes_prefix [of p k] bytes_le
  by (simp add: some_ascii_def bytes_def)

context etcd_kv
begin

lemma list_prefix_set:
  assumes "ok s" and "some_ascii p"
  shows "set (list_prefix ops p s) = {(k, v). ek_get ops k s = Some v \<and> prefix p k}"
  using prefix_range [OF assms(2)] range_set [OF assms(1)] by (simp add: list_prefix_def)

lemma list_prefix_distinct: "ok s \<Longrightarrow> distinct (map fst (list_prefix ops p s))"
  using range_order by (simp add: list_prefix_def)

end

section \<open>A reference server\<close>

definition ref_kv :: "((string \<times> 'v) list, 'v) KvOps" where
  "ref_kv = \<lparr>ek_get = (\<lambda>k s. map_of s k),
     ek_range = (\<lambda>a b s. sort_key (bytes \<circ> fst) (filter (\<lambda>(k, v). a \<le> bytes k \<and> bytes k < b) s)),
     ek_put = AList.update, ek_delete = AList.delete,
     ek_create = (\<lambda>k v s. case map_of s k of None \<Rightarrow> (True, AList.update k v s) | Some _ \<Rightarrow> (False, s))\<rparr>"

definition ref_ok :: "(string \<times> 'v) list \<Rightarrow> bool" where
  "ref_ok s \<longleftrightarrow> distinct (map fst s)"

interpretation ref: etcd_kv ref_kv ref_ok
proof unfold_locales
  fix s :: "(string \<times> 'v) list" and a b
  assume ok: "ref_ok s"
  show "sorted (map (bytes \<circ> fst) (ek_range ref_kv a b s)) \<and> distinct (map fst (ek_range ref_kv a b s))"
    using ok by (simp add: ref_kv_def ref_ok_def distinct_map inj_on_def)
  show "set (ek_range ref_kv a b s) = {(k, v). ek_get ref_kv k s = Some v \<and> a \<le> bytes k \<and> bytes k < b}"
    using ok by (auto simp: ref_kv_def ref_ok_def)
qed (simp_all add: ref_kv_def ref_ok_def distinct_update distinct_delete update_conv' delete_conv' split: option.splits)

end
