(* ===== verification/Etcd_Work.thy ===== *)
theory Etcd_Work
  imports Etcd_Kv Hub_Ingress
begin

text \<open>
  Node leases, pull queue, outbox and work ledger of the etcd state store (\<^verbatim>\<open>EtcdStateStore\<close> in \<^verbatim>\<open>ae/controller/etcd_state.py\<close>), the store
  used when several controllers run. Each method is a sequence of the calls of \<open>Etcd_Kv\<close>, without a transaction around
  them; the rows are those of \<open>Work_Store\<close>. Shown: which of the promises of the SQL store carry over, and which do not.
\<close>

section \<open>Documents and keys\<close>

datatype work_doc = QueueDoc WorkQueueRow | OutboxDoc WorkOutboxRow | LedgerDoc WorkLedgerRow | LeaseDoc NodeLease

type_synonym 's work_ops = "('s, work_doc) KvOps"

fun queue_of :: "string \<times> work_doc \<Rightarrow> (string \<times> WorkQueueRow) option" where
  "queue_of (k, QueueDoc r) = Some (k, r)"
| "queue_of (k, _) = None"

fun outbox_of :: "string \<times> work_doc \<Rightarrow> (string \<times> WorkOutboxRow) option" where
  "outbox_of (k, OutboxDoc r) = Some (k, r)"
| "outbox_of (k, _) = None"

fun ledger_of :: "string \<times> work_doc \<Rightarrow> (string \<times> WorkLedgerRow) option" where
  "ledger_of (k, LedgerDoc r) = Some (k, r)"
| "ledger_of (k, _) = None"

fun lease_of :: "string \<times> work_doc \<Rightarrow> (string \<times> NodeLease) option" where
  "lease_of (k, LeaseDoc r) = Some (k, r)"
| "lease_of (k, _) = None"

definition queue_key :: "string \<Rightarrow> string \<Rightarrow> string \<Rightarrow> int \<Rightarrow> string" where
  "queue_key pre site_id work_id att = etcd_key pre [''work_queue'', site_id, work_id, show_int att]"

definition outbox_key :: "string \<Rightarrow> string \<Rightarrow> int \<Rightarrow> string" where
  "outbox_key pre work_id att = etcd_key pre [''outbox'', ''work'', work_id, show_int att]"

definition ledger_key :: "string \<Rightarrow> string \<Rightarrow> string" where
  "ledger_key pre work_id = etcd_key pre [''work'', ''ledger'', work_id]"

definition node_lease_key :: "string \<Rightarrow> string \<Rightarrow> string \<Rightarrow> string" where
  "node_lease_key pre site_id node_id = etcd_key pre [''node_leases'', site_id, node_id]"

definition queue_docs :: "'s work_ops \<Rightarrow> string \<Rightarrow> 's \<Rightarrow> (string \<times> WorkQueueRow) list" where
  "queue_docs ops p s = List.map_filter queue_of (list_prefix ops p s)"

definition ledger_at :: "'s work_ops \<Rightarrow> string \<Rightarrow> string \<Rightarrow> 's \<Rightarrow> WorkLedgerRow option" where
  "ledger_at ops pre work_id s = (case ek_get ops (ledger_key pre work_id) s of Some (LedgerDoc r) \<Rightarrow> Some r | _ \<Rightarrow> None)"

definition outbox_at :: "'s work_ops \<Rightarrow> string \<Rightarrow> string \<Rightarrow> int \<Rightarrow> 's \<Rightarrow> WorkOutboxRow option" where
  "outbox_at ops pre work_id att s =
     (case ek_get ops (outbox_key pre work_id att) s of Some (OutboxDoc r) \<Rightarrow> Some r | _ \<Rightarrow> None)"

section \<open>Node leases\<close>

definition etcd_acquire_lease ::
  "'s work_ops \<Rightarrow> string \<Rightarrow> time \<Rightarrow> string \<Rightarrow> string \<Rightarrow> string \<Rightarrow> string \<Rightarrow> int \<Rightarrow> int \<Rightarrow> int \<Rightarrow> 's \<Rightarrow> NodeLease \<times> 's" where
  "etcd_acquire_lease ops pre now uuid site_id node_id session_id lease_ttl_ms renew_after_ms controller_epoch s =
     (let l = \<lparr>nl_node_id = node_id, nl_site_id = site_id, nl_session_id = session_id, nl_lease_id = uuid,
            nl_controller_epoch = controller_epoch, nl_lease_ttl_ms = lease_ttl_ms, nl_renew_after_ms = renew_after_ms,
            nl_last_renew_at = now, nl_expires_at = now + lease_ttl_ms * 1000\<rparr>
      in (l, ek_put ops (node_lease_key pre site_id node_id) (LeaseDoc l) s))"

definition etcd_renew_lease ::
  "'s work_ops \<Rightarrow> string \<Rightarrow> time \<Rightarrow> string \<Rightarrow> string \<Rightarrow> string \<Rightarrow> 's \<Rightarrow> (renew_error + NodeLease) \<times> 's" where
  "etcd_renew_lease ops pre now node_id session_id lease_id s =
     (case find (\<lambda>x. nl_node_id (snd x) = node_id) (List.map_filter lease_of (list_prefix ops (etcd_key pre [''node_leases'']) s)) of
        None \<Rightarrow> (Inl UnknownLease, s)
      | Some (k, l) \<Rightarrow>
          if nl_session_id l \<noteq> session_id then (Inl InvalidSession, s)
          else if nl_lease_id l \<noteq> lease_id then (Inl UnknownLease, s)
          else if nl_expires_at l \<le> now then (Inl Expired, ek_delete ops (node_lease_key pre (nl_site_id l) node_id) s)
          else (Inr (nl_renew now l), ek_put ops (node_lease_key pre (nl_site_id l) node_id) (LeaseDoc (nl_renew now l)) s))"

section \<open>The ledger\<close>

definition etcd_upsert_work_ledger ::
  "'s work_ops \<Rightarrow> string \<Rightarrow> time \<Rightarrow> string \<Rightarrow> int \<Rightarrow> string \<Rightarrow> string \<Rightarrow> string option \<Rightarrow> int option \<Rightarrow> string option \<Rightarrow>
   int option \<Rightarrow> 's \<Rightarrow> 's" where
  "etcd_upsert_work_ledger ops pre now work_id att site_id state controller_id controller_epoch operation_id desired_generation s =
     ek_put ops (ledger_key pre work_id) (LedgerDoc
       (case ledger_at ops pre work_id s of
          Some r \<Rightarrow> lg_upsert (att, site_id, state, json_opt_str controller_id, json_opt_int controller_epoch,
            json_opt_str operation_id, desired_generation, now) r
        | None \<Rightarrow> \<lparr>lg_work_id = work_id, lg_attempt = att, lg_site_id = site_id, lg_state = state,
            lg_controller_id = json_opt_str controller_id, lg_controller_epoch = json_opt_int controller_epoch,
            lg_operation_id = json_opt_str operation_id, lg_desired_generation = desired_generation,
            lg_assigned_node_id = None, lg_observed_generation = None, lg_result = JEmpty,
            lg_created_at = now, lg_updated_at = now, lg_state_updated_at = now\<rparr>)) s"

definition str_unless_null :: "json \<Rightarrow> string option" where
  "str_unless_null v = (if v = JNull then None else Some (py_str v))"

definition etcd_ledger_entry :: "WorkLedgerRow \<Rightarrow> WorkLedgerEntry result" where
  "etcd_ledger_entry r =
     rbind (int_or_none (lg_controller_epoch r)) (\<lambda>cepoch.
       Inr \<lparr>le_work_id = lg_work_id r, le_attempt = lg_attempt r, le_site_id = lg_site_id r,
            le_state = lg_state r, le_controller_id = str_unless_null (lg_controller_id r),
            le_controller_epoch = cepoch, le_operation_id = str_unless_null (lg_operation_id r),
            le_desired_generation = lg_desired_generation r, le_assigned_node_id = lg_assigned_node_id r,
            le_observed_generation = lg_observed_generation r,
            le_result = (case lg_result r of JDump v \<Rightarrow> Some v | _ \<Rightarrow> None),
            le_created_at = lg_created_at r, le_updated_at = lg_updated_at r, le_state_updated_at = lg_state_updated_at r\<rparr>)"

definition etcd_get_work_ledger :: "'s work_ops \<Rightarrow> string \<Rightarrow> string \<Rightarrow> 's \<Rightarrow> WorkLedgerEntry option result" where
  "etcd_get_work_ledger ops pre work_id s =
     (case ledger_at ops pre work_id s of None \<Rightarrow> Inr None | Some r \<Rightarrow> rbind (etcd_ledger_entry r) (\<lambda>e. Inr (Some e)))"

definition etcd_update_work_state ::
  "'s work_ops \<Rightarrow> string \<Rightarrow> time \<Rightarrow> string \<Rightarrow> int \<Rightarrow> string \<Rightarrow> string option \<Rightarrow> int option \<Rightarrow> dict option \<Rightarrow> 's \<Rightarrow> bool \<times> 's" where
  "etcd_update_work_state ops pre now work_id att state assigned_node_id observed_generation res s =
     (case ledger_at ops pre work_id s of
        None \<Rightarrow> (False, s)
      | Some r \<Rightarrow> if lg_attempt r \<noteq> att then (False, s)
          else (True, ek_put ops (ledger_key pre work_id)
                 (LedgerDoc (lg_set_state (state, assigned_node_id, observed_generation, res, now) r)) s))"

definition etcd_list_work_state_before ::
  "'s work_ops \<Rightarrow> string \<Rightarrow> string \<Rightarrow> time \<Rightarrow> 's \<Rightarrow> WorkLedgerEntry list result" where
  "etcd_list_work_state_before ops pre state cutoff s =
     rmap (etcd_ledger_entry \<circ> snd) (filter (\<lambda>x. lg_state (snd x) = state \<and> lg_state_updated_at (snd x) < cutoff)
       (List.map_filter ledger_of (list_prefix ops (etcd_key pre [''work'', ''ledger'']) s)))"

section \<open>The pull queue\<close>

definition etcd_enqueue_work :: "'s work_ops \<Rightarrow> string \<Rightarrow> time \<Rightarrow> string \<Rightarrow> int \<Rightarrow> string \<Rightarrow> dict \<Rightarrow> 's \<Rightarrow> 's" where
  "etcd_enqueue_work ops pre now work_id att site_id payload s =
     ek_put ops (queue_key pre site_id work_id att) (QueueDoc
       \<lparr>wq_work_id = work_id, wq_attempt = att, wq_site_id = site_id, wq_payload = JDump (JObj payload),
        wq_state = QPending, wq_lease_id = None, wq_leased_at = None, wq_lease_expires_at = None, wq_acked_at = None,
        wq_created_at = now, wq_updated_at = now\<rparr>) s"

text \<open>
  \<^verbatim>\<open>pull_work\<close> in two halves, since other controllers may run between its calls: it first returns expired items to the queue and lists what is
  pending, then writes each of the listed items as it was read, leased.
\<close>

definition reset_expired :: "'s work_ops \<Rightarrow> time \<Rightarrow> (string \<times> WorkQueueRow) list \<Rightarrow> 's \<Rightarrow> 's" where
  "reset_expired ops now rows s =
     fold (\<lambda>(k, r). if lease_lapsed now r then ek_put ops k (QueueDoc (wq_release now r)) else id) rows s"

definition etcd_pull_list ::
  "'s work_ops \<Rightarrow> string \<Rightarrow> time \<Rightarrow> string \<Rightarrow> int \<Rightarrow> 's \<Rightarrow> (string \<times> WorkQueueRow) list \<times> 's" where
  "etcd_pull_list ops pre now site_id limit s =
     (let p = etcd_key pre [''work_queue'', site_id];
          s1 = reset_expired ops now (queue_docs ops p s) s
      in (py_take limit (sort_key (wq_created_at \<circ> snd) (filter (\<lambda>x. wq_state (snd x) = QPending) (queue_docs ops p s1))), s1))"

fun etcd_pull_rows ::
  "'s work_ops \<Rightarrow> string \<Rightarrow> time \<Rightarrow> time \<Rightarrow> string \<Rightarrow> (string \<times> WorkQueueRow) list \<Rightarrow> (nat \<Rightarrow> string) \<Rightarrow> 's \<Rightarrow> WorkQueueLease list \<times> 's" where
  "etcd_pull_rows ops pre now expires site_id [] uuids s = ([], s)"
| "etcd_pull_rows ops pre now expires site_id ((k, r) # rows) uuids s =
     (let s1 = ek_put ops k (QueueDoc (wq_take (uuids 0, now, expires) r)) s;
          s2 = snd (etcd_update_work_state ops pre now (wq_work_id r) (wq_attempt r) ''Dispatched'' None None None s1);
          (leases, s3) = etcd_pull_rows ops pre now expires site_id rows (\<lambda>n. uuids (Suc n)) s2
      in (\<lparr>wl_work_id = wq_work_id r, wl_attempt = wq_attempt r, wl_site_id = site_id,
           wl_payload = loads_or_empty (wq_payload r), wl_lease_id = uuids 0, wl_lease_expires_at = expires\<rparr> # leases, s3))"

definition etcd_pull_work ::
  "'s work_ops \<Rightarrow> string \<Rightarrow> time \<Rightarrow> (nat \<Rightarrow> string) \<Rightarrow> string \<Rightarrow> int \<Rightarrow> int \<Rightarrow> 's \<Rightarrow> WorkQueueLease list \<times> 's" where
  "etcd_pull_work ops pre now uuids site_id limit visibility_timeout_ms s =
     (let (rows, s1) = etcd_pull_list ops pre now site_id limit s
      in etcd_pull_rows ops pre now (now + max 0 visibility_timeout_ms * 1000) site_id rows uuids s1)"

text \<open>\<^verbatim>\<open>str(rec.get("lease_id"))\<close>: a missing lease reads \<^verbatim>\<open>None\<close>.\<close>

definition etcd_ack_work :: "'s work_ops \<Rightarrow> string \<Rightarrow> time \<Rightarrow> string list \<Rightarrow> 's \<Rightarrow> int \<times> 's" where
  "etcd_ack_work ops pre now lease_ids s =
     (if lease_ids = [] then (0, s)
      else let rows = filter (\<lambda>x. (case wq_lease_id (snd x) of None \<Rightarrow> ''None'' | Some l \<Rightarrow> l) \<in> set lease_ids)
                 (queue_docs ops (etcd_key pre [''work_queue'']) s)
        in (int (length rows), fold (\<lambda>(k, r). ek_put ops k (QueueDoc (wq_ack now r))) rows s))"

definition etcd_ack_item :: "'s work_ops \<Rightarrow> time \<Rightarrow> (string \<times> WorkQueueRow) list \<Rightarrow> json \<Rightarrow> 's \<Rightarrow> int result \<times> 's" where
  "etcd_ack_item ops now rows item s =
     (case as_dict item of
        None \<Rightarrow> (Inr 0, s)
      | Some d \<Rightarrow>
          let lease_id = strip (py_str (py_or (dict_get d ''lease_id'') (JStr [])))
          in if lease_id = [] then (Inr 0, s)
             else (case (parse_envelope item, find (\<lambda>x. map_option strip (wq_lease_id (snd x)) = Some lease_id) (rev rows)) of
               (Some e, Some (k, r)) \<Rightarrow>
                 if parse_envelope (loads_or_empty (wq_payload r)) \<noteq> Some e then (Inr 0, s)
                 else (case work_id_matches (dict_get d ''work_id'') (wq_work_id r) of
                   Inl err \<Rightarrow> (Inl err, s)
                 | Inr ok \<Rightarrow>
                     let ack_attempt = (case py_int (py_or (dict_get d ''attempt'') (JInt 0)) of None \<Rightarrow> 0 | Some i \<Rightarrow> i)
                     in if \<not> ok \<or> (ack_attempt \<noteq> 0 \<and> ack_attempt \<noteq> wq_attempt r) then (Inr 0, s)
                        else (Inr 1, ek_put ops k (QueueDoc (wq_ack now r)) s))
             | _ \<Rightarrow> (Inr 0, s)))"

fun etcd_ack_items_loop :: "'s work_ops \<Rightarrow> time \<Rightarrow> (string \<times> WorkQueueRow) list \<Rightarrow> json list \<Rightarrow> 's \<Rightarrow> int result \<times> 's" where
  "etcd_ack_items_loop ops now rows [] s = (Inr 0, s)"
| "etcd_ack_items_loop ops now rows (i # is) s =
     (case etcd_ack_item ops now rows i s of
        (Inl err, s1) \<Rightarrow> (Inl err, s1)
      | (Inr n, s1) \<Rightarrow> (case etcd_ack_items_loop ops now rows is s1 of
          (Inl err, s2) \<Rightarrow> (Inl err, s2)
        | (Inr m, s2) \<Rightarrow> (Inr (n + m), s2)))"

definition etcd_ack_work_items :: "'s work_ops \<Rightarrow> string \<Rightarrow> time \<Rightarrow> json list \<Rightarrow> 's \<Rightarrow> int result \<times> 's" where
  "etcd_ack_work_items ops pre now items s =
     (if items = [] then (Inr 0, s)
      else etcd_ack_items_loop ops now (queue_docs ops (etcd_key pre [''work_queue'']) s) items s)"

definition etcd_mark_work_done :: "'s work_ops \<Rightarrow> string \<Rightarrow> time \<Rightarrow> string \<Rightarrow> int \<Rightarrow> 's \<Rightarrow> 's" where
  "etcd_mark_work_done ops pre now work_id att s =
     (case find (\<lambda>x. wq_key (snd x) = (work_id, att)) (queue_docs ops (etcd_key pre [''work_queue'']) s) of
        None \<Rightarrow> s
      | Some (k, r) \<Rightarrow> ek_put ops k (QueueDoc (wq_done now r)) s)"

section \<open>The outbox\<close>

definition etcd_enqueue_work_outbox :: "'s work_ops \<Rightarrow> string \<Rightarrow> time \<Rightarrow> string \<Rightarrow> int \<Rightarrow> string \<Rightarrow> dict \<Rightarrow> 's \<Rightarrow> 's" where
  "etcd_enqueue_work_outbox ops pre now work_id att site_id payload s =
     ek_put ops (outbox_key pre work_id att) (OutboxDoc (new_outbox_row now work_id att site_id payload)) s"

definition etcd_outbox_entry :: "WorkOutboxRow \<Rightarrow> WorkOutboxEntry result" where
  "etcd_outbox_entry r =
     (let payload = loads_or_empty (ob_payload r);
          msg_id = (case ob_publish_msg_id r of Some (c # cs) \<Rightarrow> Inr (c # cs)
            | _ \<Rightarrow> (case as_dict payload of None \<Rightarrow> Inl AttributeError
                | Some d \<Rightarrow> Inr (outbox_publish_msg_id (ob_work_id r) (ob_attempt r) d)))
      in rbind msg_id (\<lambda>mid.
           Inr \<lparr>oe_work_id = ob_work_id r, oe_attempt = ob_attempt r, oe_site_id = ob_site_id r, oe_payload = payload,
                oe_publish_subject = (case ob_publish_subject r of Some (c # cs) \<Rightarrow> c # cs | _ \<Rightarrow> outbox_publish_subject (ob_site_id r)),
                oe_publish_msg_id = mid, oe_publish_attempts = ob_publish_attempts r,
                oe_last_publish_at = ob_last_publish_at r, oe_last_publish_error = ob_last_publish_error r\<rparr>))"

definition etcd_list_outbox_unpublished :: "'s work_ops \<Rightarrow> string \<Rightarrow> int \<Rightarrow> 's \<Rightarrow> WorkOutboxEntry list result" where
  "etcd_list_outbox_unpublished ops pre limit s =
     rbind (rmap etcd_outbox_entry
        (sort_key ob_created_at (sort_key ob_work_id (sort_key ob_attempt
          (filter (\<lambda>r. ob_state r = Unpublished) (map snd (List.map_filter outbox_of (list_prefix ops (etcd_key pre [''outbox'', ''work'']) s))))))))
       (\<lambda>es. Inr (py_take limit es))"

definition etcd_get_outbox_payload :: "'s work_ops \<Rightarrow> string \<Rightarrow> string \<Rightarrow> int \<Rightarrow> 's \<Rightarrow> json option" where
  "etcd_get_outbox_payload ops pre work_id att s =
     map_option (\<lambda>r. loads_or_empty (ob_payload r)) (outbox_at ops pre work_id att s)"

definition etcd_mark_outbox_published :: "'s work_ops \<Rightarrow> string \<Rightarrow> time \<Rightarrow> string \<Rightarrow> int \<Rightarrow> 's \<Rightarrow> 's" where
  "etcd_mark_outbox_published ops pre now work_id att s = (case outbox_at ops pre work_id att s of
     None \<Rightarrow> s | Some r \<Rightarrow> ek_put ops (outbox_key pre work_id att) (OutboxDoc (ob_published now r)) s)"

definition etcd_record_outbox_publish_attempt :: "'s work_ops \<Rightarrow> string \<Rightarrow> time \<Rightarrow> string \<Rightarrow> int \<Rightarrow> string option \<Rightarrow> 's \<Rightarrow> 's" where
  "etcd_record_outbox_publish_attempt ops pre now work_id att err s = (case outbox_at ops pre work_id att s of
     None \<Rightarrow> s | Some r \<Rightarrow> ek_put ops (outbox_key pre work_id att) (OutboxDoc (ob_attempted (err, now) r)) s)"

text \<open>
  \<^verbatim>\<open>reschedule_work\<close> writes the ledger before it works out the new identity, and does not write it again: what it puts into
  the ledger afterwards stays in memory.
\<close>

definition lg_next_attempt :: "time \<Rightarrow> int \<Rightarrow> WorkLedgerRow \<Rightarrow> WorkLedgerRow" where
  "lg_next_attempt now att r = r\<lparr>lg_attempt := att, lg_state := ''Pending'', lg_updated_at := now, lg_state_updated_at := now\<rparr>"

definition etcd_reschedule_work ::
  "'s work_ops \<Rightarrow> string \<Rightarrow> (time \<Rightarrow> string) \<Rightarrow> time \<Rightarrow> string \<Rightarrow> int \<Rightarrow> string option \<Rightarrow> int option \<Rightarrow> 's \<Rightarrow> int option result \<times> 's" where
  "etcd_reschedule_work ops pre isofmt now work_id att controller_id controller_epoch s =
     (case (outbox_at ops pre work_id att s, ledger_at ops pre work_id s) of
        (Some ob, Some lg) \<Rightarrow>
          if lg_attempt lg \<noteq> att then (Inr None, s)
          else let new_attempt = att + 1;
                   s1 = ek_put ops (ledger_key pre work_id) (LedgerDoc (lg_next_attempt now new_attempt lg)) s
            in (case as_dict (loads_or_empty (ob_payload ob)) of
                  None \<Rightarrow> (Inl TypeError, s1)
                | Some old \<Rightarrow> (Inr (Some new_attempt),
                    etcd_enqueue_work_outbox ops pre now work_id new_attempt (ob_site_id ob)
                      (reschedule_payload work_id (ob_site_id ob) new_attempt controller_id controller_epoch (isofmt now) old) s1))
      | _ \<Rightarrow> (Inr None, s))"

section \<open>Keys of the four kinds\<close>

lemma key_part_literals [simp]:
  "key_part ''work_queue''" "key_part ''work''" "key_part ''ledger''" "key_part ''outbox''" "key_part ''node_leases''"
  by (simp_all add: key_part_def strip_slash_def)

lemmas key_defs = queue_key_def outbox_key_def ledger_key_def node_lease_key_def etcd_key_Cons

lemma ledger_key_eq: "ledger_key pre w = key_head pre @ ''work/ledger'' @ key_tail [w]"
  by (simp add: ledger_key_def etcd_key_Cons key_tail_Cons strip_slash_def)

lemma outbox_key_eq: "outbox_key pre w a = key_head pre @ ''outbox'' @ key_tail [''work'', w, show_int a]"
  by (simp add: outbox_key_def etcd_key_Cons)

lemma ledger_key_not_queue [simp]: "\<not> prefix (etcd_key pre (''work_queue'' # ps)) (ledger_key pre w)"
  by (simp add: ledger_key_eq etcd_key_Cons)

lemma outbox_key_not_ledger [simp]: "outbox_key pre w a \<noteq> ledger_key pre w'"
  by (simp add: ledger_key_eq outbox_key_eq)

lemma ledger_key_inj: "key_part w \<Longrightarrow> key_part w' \<Longrightarrow> ledger_key pre w = ledger_key pre w' \<longleftrightarrow> w = w'"
  by (simp add: ledger_key_eq key_tail_Cons key_part_def)

lemma queue_prefix_ascii [simp]: "some_ascii (etcd_key pre (''work_queue'' # ps))"
  by (simp add: some_ascii_def etcd_key_Cons)

section \<open>Deliveries\<close>

text \<open>No two keys hold the same attempt of the same work; work ids are generated.\<close>

definition work_unique :: "'s work_ops \<Rightarrow> 's \<Rightarrow> bool" where
  "work_unique ops s \<longleftrightarrow> (\<forall>k k' r r'. ek_get ops k s = Some (QueueDoc r) \<longrightarrow> ek_get ops k' s = Some (QueueDoc r') \<longrightarrow>
     wq_key r = wq_key r' \<longrightarrow> k = k')"

lemma map_filter_queue_set: "(k, r) \<in> set (List.map_filter queue_of xs) \<longleftrightarrow> (k, QueueDoc r) \<in> set xs"
proof -
  have "queue_of x = Some (k, r) \<longleftrightarrow> x = (k, QueueDoc r)" for x by (cases x rule: queue_of.cases) auto
  then show ?thesis by (force simp: List.map_filter_def image_iff)
qed

lemma map_filter_queue_distinct: "distinct (map fst xs) \<Longrightarrow> distinct (map fst (List.map_filter queue_of xs))"
proof (induction xs)
  case (Cons x xs)
  then show ?case
    by (cases x rule: queue_of.cases) (force simp: List.map_filter_simps map_filter_queue_set)+
qed (simp add: List.map_filter_simps)

lemma py_take_subset: "set (py_take n xs) \<subseteq> set xs"
  by (auto simp: py_take_def dest: in_set_takeD)

lemma wq_key_kept [simp]:
  "wq_key (wq_release now r) = wq_key r" "wq_key (wq_take a r) = wq_key r"
  by (simp_all add: wq_key_def wq_release_def wq_take_def split: prod.splits)

definition pull_one :: "'s work_ops \<Rightarrow> string \<Rightarrow> time \<Rightarrow> time \<Rightarrow> string \<Rightarrow> string \<Rightarrow> WorkQueueRow \<Rightarrow> 's \<Rightarrow> 's" where
  "pull_one ops pre now expires u k r s = snd (etcd_update_work_state ops pre now (wq_work_id r) (wq_attempt r) ''Dispatched'' None None None
     (ek_put ops k (QueueDoc (wq_take (u, now, expires) r)) s))"

lemma pull_rows_Cons:
  "fst (etcd_pull_rows ops pre now expires site ((k, r) # rows) us s) =
     \<lparr>wl_work_id = wq_work_id r, wl_attempt = wq_attempt r, wl_site_id = site,
      wl_payload = loads_or_empty (wq_payload r), wl_lease_id = us 0, wl_lease_expires_at = expires\<rparr> #
     fst (etcd_pull_rows ops pre now expires site rows (\<lambda>n. us (Suc n)) (pull_one ops pre now expires (us 0) k r s))"
  "snd (etcd_pull_rows ops pre now expires site ((k, r) # rows) us s) =
     snd (etcd_pull_rows ops pre now expires site rows (\<lambda>n. us (Suc n)) (pull_one ops pre now expires (us 0) k r s))"
  by (simp_all add: Let_def pull_one_def split: prod.splits)

lemma etcd_rows_leases:
  "map (\<lambda>l. (wl_work_id l, wl_attempt l)) (fst (etcd_pull_rows ops pre now expires site rows us s)) = map (wq_key \<circ> snd) rows"
proof (induction rows arbitrary: us s)
  case (Cons x rows)
  then show ?case by (cases x) (simp add: pull_rows_Cons wq_key_def del: etcd_pull_rows.simps)
qed simp

lemma delivered_from:
  assumes "l \<in> set (fst (etcd_pull_rows ops pre now expires site rows us s))"
  obtains k r where "(k, r) \<in> set rows" and "wq_key r = (wl_work_id l, wl_attempt l)"
proof -
  have "(wl_work_id l, wl_attempt l) \<in> set (map (\<lambda>l. (wl_work_id l, wl_attempt l)) (fst (etcd_pull_rows ops pre now expires site rows us s)))"
    unfolding set_map by (rule imageI [OF assms])
  then have "(wl_work_id l, wl_attempt l) \<in> set (map (wq_key \<circ> snd) rows)" by (simp only: etcd_rows_leases)
  then show ?thesis using that by auto
qed

lemma row_delivered:
  assumes "(k, r) \<in> set rows"
  obtains l where "l \<in> set (fst (etcd_pull_rows ops pre now expires site rows us s))" and "(wl_work_id l, wl_attempt l) = wq_key r"
proof -
  have "wq_key r \<in> set (map (wq_key \<circ> snd) rows)" using assms by (simp add: image_iff) force
  then have "wq_key r \<in> set (map (\<lambda>l. (wl_work_id l, wl_attempt l)) (fst (etcd_pull_rows ops pre now expires site rows us s)))"
    by (simp only: etcd_rows_leases)
  then show ?thesis using that by auto
qed

lemma pull_rows_expiry: "l \<in> set (fst (etcd_pull_rows ops pre now expires site rows us s)) \<Longrightarrow>
    wl_lease_expires_at l = expires \<and> wl_site_id l = site"
proof (induction rows arbitrary: us s)
  case (Cons x rows)
  then show ?case by (cases x) (auto simp: pull_rows_Cons simp del: etcd_pull_rows.simps)
qed simp

locale work_kv = etcd_kv ops ok for ops :: "('s, work_doc) KvOps" and ok
begin

lemma queue_docs_set:
  assumes "ok s"
  shows "(k, r) \<in> set (queue_docs ops (etcd_key pre (''work_queue'' # ps)) s) \<longleftrightarrow>
    ek_get ops k s = Some (QueueDoc r) \<and> prefix (etcd_key pre (''work_queue'' # ps)) k"
  by (simp add: queue_docs_def map_filter_queue_set list_prefix_set [OF assms])

lemma queue_docs_distinct: "ok s \<Longrightarrow> distinct (map fst (queue_docs ops p s))"
  by (simp add: queue_docs_def map_filter_queue_distinct list_prefix_distinct)

lemma ok_reset: "ok s \<Longrightarrow> ok (reset_expired ops now rows s)"
  unfolding reset_expired_def by (induction rows arbitrary: s) (auto simp: ok_put)

lemma get_reset_other: "ok s \<Longrightarrow> k \<notin> fst ` set rows \<Longrightarrow> ek_get ops k (reset_expired ops now rows s) = ek_get ops k s"
  unfolding reset_expired_def by (induction rows arbitrary: s) (auto simp: ok_put get_put)

lemma get_reset:
  assumes "ok s" and "distinct (map fst rows)" and "(k, r) \<in> set rows"
  shows "ek_get ops k (reset_expired ops now rows s) =
    (if lease_lapsed now r then Some (QueueDoc (wq_release now r)) else ek_get ops k s)"
  using assms
proof (induction rows arbitrary: s)
  case (Cons x rows)
  obtain k' r' where x: "x = (k', r')" by (cases x)
  let ?s = "if lease_lapsed now r' then ek_put ops k' (QueueDoc (wq_release now r')) s else s"
  have step: "reset_expired ops now (x # rows) s = reset_expired ops now rows ?s" by (simp add: reset_expired_def x)
  have ok: "ok ?s" using Cons.prems(1) by (simp add: ok_put)
  show ?case
  proof (cases "(k, r) = x")
    case True
    then have "k \<notin> fst ` set rows" using Cons.prems(2) x by auto
    then show ?thesis using True x get_reset_other [OF ok] step Cons.prems(1) by (simp add: get_put)
  next
    case False
    then have mem: "(k, r) \<in> set rows" using Cons.prems(3) by simp
    then have "k \<noteq> k'" using Cons.prems(2) x by (auto simp: image_iff)
    then show ?thesis using Cons.IH [OF ok _ mem] Cons.prems(1,2) step by (simp add: get_put)
  qed
qed simp

lemma ok_update: "ok s \<Longrightarrow> ok (snd (etcd_update_work_state ops pre now w a st n g r s))"
  by (simp add: etcd_update_work_state_def ok_put split: option.splits)

lemma get_update_other:
  "ok s \<Longrightarrow> k \<noteq> ledger_key pre w \<Longrightarrow> ek_get ops k (snd (etcd_update_work_state ops pre now w a st n g r s)) = ek_get ops k s"
  by (simp add: etcd_update_work_state_def get_put split: option.splits)

lemma ok_pull_one: "ok s \<Longrightarrow> ok (pull_one ops pre now expires u k r s)"
  by (simp add: pull_one_def ok_update ok_put)

lemma get_pull_one: "ok s \<Longrightarrow> k' \<noteq> ledger_key pre (wq_work_id r) \<Longrightarrow> ek_get ops k' (pull_one ops pre now expires u k r s) =
    (if k' = k then Some (QueueDoc (wq_take (u, now, expires) r)) else ek_get ops k' s)"
  by (simp add: pull_one_def get_update_other ok_put get_put)

lemma ok_pull_rows: "ok s \<Longrightarrow> ok (snd (etcd_pull_rows ops pre now expires site rows us s))"
proof (induction rows arbitrary: us s)
  case (Cons x rows)
  then show ?case by (cases x) (simp add: pull_rows_Cons ok_pull_one del: etcd_pull_rows.simps)
qed simp

lemma get_pull_rows_other:
  assumes "ok s" and "k \<notin> fst ` set rows" and "\<And>w. k \<noteq> ledger_key pre w"
  shows "ek_get ops k (snd (etcd_pull_rows ops pre now expires site rows us s)) = ek_get ops k s"
  using assms(1,2)
proof (induction rows arbitrary: us s)
  case (Cons x rows)
  then show ?case
    by (cases x) (simp add: pull_rows_Cons ok_pull_one get_pull_one assms(3) del: etcd_pull_rows.simps)
qed simp

lemma get_pull_rows_outside:
  assumes "ok s" and "k \<notin> fst ` set rows"
  shows "ek_get ops k (snd (etcd_pull_rows ops pre now expires site rows us s)) = ek_get ops k s \<or>
    (\<exists>d. ek_get ops k (snd (etcd_pull_rows ops pre now expires site rows us s)) = Some (LedgerDoc d))"
  using assms
proof (induction rows arbitrary: us s)
  case (Cons x rows)
  obtain k' r' where x: "x = (k', r')" by (cases x)
  let ?s = "pull_one ops pre now expires (us 0) k' r' s"
  have "ek_get ops k ?s = ek_get ops k s \<or> (\<exists>d. ek_get ops k ?s = Some (LedgerDoc d))"
    using Cons.prems x by (auto simp: pull_one_def etcd_update_work_state_def get_put ok_put split: option.splits)
  moreover have "ek_get ops k (snd (etcd_pull_rows ops pre now expires site rows (\<lambda>n. us (Suc n)) ?s)) = ek_get ops k ?s \<or>
      (\<exists>d. ek_get ops k (snd (etcd_pull_rows ops pre now expires site rows (\<lambda>n. us (Suc n)) ?s)) = Some (LedgerDoc d))"
    using Cons.IH [OF ok_pull_one [OF Cons.prems(1)]] Cons.prems(2) by simp
  ultimately show ?case by (auto simp: x pull_rows_Cons simp del: etcd_pull_rows.simps)
qed simp

lemma get_pull_rows:
  assumes "ok s" and "distinct (map fst rows)" and "(k, r) \<in> set rows" and "\<And>w. k \<noteq> ledger_key pre w"
  shows "\<exists>u. ek_get ops k (snd (etcd_pull_rows ops pre now expires site rows us s)) = Some (QueueDoc (wq_take (u, now, expires) r))"
  using assms(1-3)
proof (induction rows arbitrary: us s)
  case (Cons x rows)
  obtain k' r' where x: "x = (k', r')" by (cases x)
  show ?case
  proof (cases "(k, r) = x")
    case True
    then have "k \<notin> fst ` set rows" using Cons.prems(2) x by auto
    moreover have "ek_get ops k (pull_one ops pre now expires (us 0) k' r' s) = Some (QueueDoc (wq_take (us 0, now, expires) r))"
      using get_pull_one [OF Cons.prems(1) assms(4)] True x by simp
    ultimately show ?thesis
      using get_pull_rows_other [OF ok_pull_one [OF Cons.prems(1)] _ assms(4)] x
      by (auto simp: pull_rows_Cons simp del: etcd_pull_rows.simps)
  next
    case False
    then have "(k, r) \<in> set rows" using Cons.prems(3) by simp
    then show ?thesis
      using Cons.IH [OF ok_pull_one [OF Cons.prems(1)]] Cons.prems(2) x by (simp add: pull_rows_Cons del: etcd_pull_rows.simps)
  qed
qed simp

text \<open>The listing half of a pull: it returns pending rows of the prefix as they are stored then, and touches only rows whose lease has lapsed.\<close>

lemma pull_list:
  assumes "ok s" and "etcd_pull_list ops pre now site limit s = (rows, s1)"
  shows "ok s1" and "distinct (map fst rows)"
    and "(k, r) \<in> set rows \<Longrightarrow> ek_get ops k s1 = Some (QueueDoc r) \<and> wq_state r = QPending \<and> prefix (etcd_key pre [''work_queue'', site]) k"
    and "ek_get ops k s1 = ek_get ops k s \<or> (\<exists>r. ek_get ops k s = Some (QueueDoc r) \<and> lease_lapsed now r \<and>
      ek_get ops k s1 = Some (QueueDoc (wq_release now r)))"
proof -
  let ?p = "etcd_key pre [''work_queue'', site]"
  have s1: "s1 = reset_expired ops now (queue_docs ops ?p s) s" and
    rows: "rows = py_take limit (sort_key (wq_created_at \<circ> snd) (filter (\<lambda>x. wq_state (snd x) = QPending) (queue_docs ops ?p s1)))"
    using assms(2) by (auto simp: etcd_pull_list_def Let_def)
  show ok1: "ok s1" using assms(1) by (simp add: s1 ok_reset)
  have "distinct (map fst (sort_key (wq_created_at \<circ> snd) (filter (\<lambda>x. wq_state (snd x) = QPending) (queue_docs ops ?p s1))))"
    using queue_docs_distinct [OF ok1, of ?p] unfolding distinct_map inj_on_def by (simp; blast)
  then show "distinct (map fst rows)" by (simp add: rows py_take_def take_map [symmetric])
  show "(k, r) \<in> set rows \<Longrightarrow> ek_get ops k s1 = Some (QueueDoc r) \<and> wq_state r = QPending \<and> prefix ?p k"
    using py_take_subset [of limit] queue_docs_set [OF ok1, of k r pre "[site]"] by (fastforce simp: rows)
  show "ek_get ops k s1 = ek_get ops k s \<or> (\<exists>r. ek_get ops k s = Some (QueueDoc r) \<and> lease_lapsed now r \<and>
      ek_get ops k s1 = Some (QueueDoc (wq_release now r)))"
  proof (cases "k \<in> fst ` set (queue_docs ops ?p s)")
    case True
    then obtain r where "(k, r) \<in> set (queue_docs ops ?p s)" by auto
    then show ?thesis
      using get_reset [OF assms(1) queue_docs_distinct [OF assms(1)]] queue_docs_set [OF assms(1)] by (auto simp: s1)
  next
    case False
    then show ?thesis using get_reset_other [OF assms(1)] by (simp add: s1)
  qed
qed

text \<open>An item held under a lease that has not run out is left alone by a pull.\<close>

definition held :: "time \<Rightarrow> string \<Rightarrow> WorkQueueRow \<Rightarrow> 's \<Rightarrow> bool" where
  "held t k r s \<longleftrightarrow> ok s \<and> work_unique ops s \<and> ek_get ops k s = Some (QueueDoc r) \<and> wq_state r = QLeased \<and> wq_lease_expires_at r = Some t"

lemma queue_not_ledger: "prefix (etcd_key pre (''work_queue'' # ps)) k \<Longrightarrow> k \<noteq> ledger_key pre w"
  using ledger_key_not_queue by blast

lemma pull_unique:
  assumes "ok s" and "work_unique ops s" and "etcd_pull_list ops pre now site limit s = (rows, s1)"
  shows "work_unique ops (snd (etcd_pull_rows ops pre now expires site rows us s1))" and "work_unique ops s1"
proof -
  note pl = pull_list [OF assms(1,3)]
  have step: "\<exists>r0. ek_get ops k s = Some (QueueDoc r0) \<and> wq_key r0 = wq_key r" if "ek_get ops k s1 = Some (QueueDoc r)" for k r
    using pl(4) [of k] that by (metis option.inject work_doc.inject(1) wq_key_kept(1))
  then show "work_unique ops s1" using assms(2) unfolding work_unique_def by metis
  have "\<exists>r1. ek_get ops k s1 = Some (QueueDoc r1) \<and> wq_key r1 = wq_key r"
    if g: "ek_get ops k (snd (etcd_pull_rows ops pre now expires site rows us s1)) = Some (QueueDoc r)" for k r
  proof (cases "k \<in> fst ` set rows")
    case True
    then obtain r1 where r1: "(k, r1) \<in> set rows" by auto
    then have "\<And>w. k \<noteq> ledger_key pre w" using pl(3) queue_not_ledger by blast
    from get_pull_rows [OF pl(1,2) r1 this, of now expires site us] g have "wq_key r = wq_key r1" by auto
    then show ?thesis using pl(3) [OF r1] by auto
  next
    case False
    then show ?thesis using get_pull_rows_outside [OF pl(1) False, of pre now expires site us] g
      by (metis option.inject work_doc.distinct(3))
  qed
  with \<open>work_unique ops s1\<close> show "work_unique ops (snd (etcd_pull_rows ops pre now expires site rows us s1))"
    unfolding work_unique_def by metis
qed

lemma held_pull:
  assumes "held t k r s" and "now \<le> t" and "prefix (etcd_key pre [''work_queue'']) k"
    and "etcd_pull_work ops pre now us site limit vis s = (ls, s')"
  shows "held t k r s'" and "l \<in> set ls \<Longrightarrow> (wl_work_id l, wl_attempt l) \<noteq> wq_key r"
proof -
  obtain rows s1 where pl: "etcd_pull_list ops pre now site limit s = (rows, s1)" by (metis surj_pair)
  let ?e = "now + max 0 vis * 1000"
  have run: "ls = fst (etcd_pull_rows ops pre now ?e site rows us s1)" "s' = snd (etcd_pull_rows ops pre now ?e site rows us s1)"
    using assms(4) pl by (simp_all add: etcd_pull_work_def)
  have h: "ok s" "work_unique ops s" "ek_get ops k s = Some (QueueDoc r)" "wq_state r = QLeased" "wq_lease_expires_at r = Some t"
    using assms(1) by (simp_all add: held_def)
  note pl1 = pull_list [OF h(1) pl]
  have same: "ek_get ops k s1 = Some (QueueDoc r)"
    using pl1(4) [of k] h(3,5) assms(2) by (auto simp: lease_lapsed_def)
  have out: "k \<notin> fst ` set rows" using pl1(3) same h(4) by force
  have "\<And>w. k \<noteq> ledger_key pre w" using assms(3) queue_not_ledger by blast
  then have "ek_get ops k s' = Some (QueueDoc r)"
    using get_pull_rows_other [OF pl1(1) out] same run(2) by simp
  then show "held t k r s'"
    using h pl1(1) pull_unique(1) [OF h(1,2) pl] by (simp add: held_def run(2) ok_pull_rows)
  assume "l \<in> set ls"
  then obtain k' r' where "(k', r') \<in> set rows" "(wl_work_id l, wl_attempt l) = wq_key r'"
    using delivered_from run(1) by metis
  then show "(wl_work_id l, wl_attempt l) \<noteq> wq_key r"
    using pl1(3) out same pull_unique(2) [OF h(1,2) pl] unfolding work_unique_def by (metis fst_conv image_eqI)
qed

end

interpretation wref: work_kv ref_kv ref_ok
  by unfold_locales

text \<open>Pulls one after the other, with what each delivers.\<close>

record pull_call =
  pc_now :: time
  pc_uuids :: "nat \<Rightarrow> string"
  pc_site :: string
  pc_limit :: int
  pc_timeout :: int

fun etcd_pulls :: "'s work_ops \<Rightarrow> string \<Rightarrow> pull_call list \<Rightarrow> 's \<Rightarrow> WorkQueueLease list \<times> 's" where
  "etcd_pulls ops pre [] s = ([], s)"
| "etcd_pulls ops pre (c # cs) s =
     (let (ls, s1) = etcd_pull_work ops pre (pc_now c) (pc_uuids c) (pc_site c) (pc_limit c) (pc_timeout c) s;
          (ls2, s2) = etcd_pulls ops pre cs s1
      in (ls @ ls2, s2))"

context work_kv
begin

lemma held_pulls:
  assumes "held t k r s" and "list_all (\<lambda>c. pc_now c \<le> t) cs" and "prefix (etcd_key pre [''work_queue'']) k"
    and "l \<in> set (fst (etcd_pulls ops pre cs s))"
  shows "(wl_work_id l, wl_attempt l) \<noteq> wq_key r"
  using assms(1,2,4)
proof (induction cs arbitrary: s)
  case (Cons c cs)
  obtain ls s1 where p: "etcd_pull_work ops pre (pc_now c) (pc_uuids c) (pc_site c) (pc_limit c) (pc_timeout c) s = (ls, s1)"
    by (metis surj_pair)
  then show ?case
    using held_pull [OF Cons.prems(1) _ assms(3) p] Cons.IH [of s1] Cons.prems(2,3) by (auto simp: Let_def split: prod.splits)
qed simp

lemma pulled_held:
  assumes "ok s" and "work_unique ops s" and "etcd_pull_work ops pre now us site limit vis s = (ls, s1)" and "l \<in> set ls"
  shows "\<exists>k r. held (wl_lease_expires_at l) k r s1 \<and> wq_key r = (wl_work_id l, wl_attempt l) \<and> prefix (etcd_key pre [''work_queue'']) k"
proof -
  obtain rows s0 where pl: "etcd_pull_list ops pre now site limit s = (rows, s0)" by (metis surj_pair)
  let ?e = "now + max 0 vis * 1000"
  have run: "ls = fst (etcd_pull_rows ops pre now ?e site rows us s0)" "s1 = snd (etcd_pull_rows ops pre now ?e site rows us s0)"
    using assms(3) pl by (simp_all add: etcd_pull_work_def)
  note pl1 = pull_list [OF assms(1) pl]
  obtain k r where kr: "(k, r) \<in> set rows" "wq_key r = (wl_work_id l, wl_attempt l)"
    using delivered_from assms(4) run(1) by metis
  then have pre: "prefix (etcd_key pre [''work_queue'', site]) k" using pl1(3) by blast
  then obtain u where "ek_get ops k s1 = Some (QueueDoc (wq_take (u, now, ?e) r))"
    using get_pull_rows [OF pl1(1,2) kr(1)] queue_not_ledger run(2) by blast
  moreover have "wl_lease_expires_at l = ?e"
    using pull_rows_expiry [of l ops pre now ?e site rows us s0] assms(4) run(1) by simp
  ultimately have "held (wl_lease_expires_at l) k (wq_take (u, now, ?e) r) s1"
    using pull_unique(1) [OF assms(1,2) pl] ok_pull_rows [OF pl1(1)] run(2) by (simp add: held_def wq_take_def)
  moreover have "prefix (etcd_key pre [''work_queue'']) k" by (rule prefix_order.trans [OF _ pre]) (simp add: etcd_key_Cons)
  moreover have "wq_key (wq_take (u, now, ?e) r) = (wl_work_id l, wl_attempt l)" using kr(2) by simp
  ultimately show ?thesis by blast
qed

text \<open>A pull by a site lists the rows of every site whose id continues its own.\<close>

lemma pull_lists_pending:
  assumes "ok s" and "ek_get ops k s = Some (QueueDoc r)" and "wq_state r = QPending"
    and "prefix (etcd_key pre [''work_queue'', site]) k" and "int (length (queue_docs ops (etcd_key pre [''work_queue'', site]) s)) \<le> limit"
    and "etcd_pull_list ops pre now site limit s = (rows, s1)"
  shows "(k, r) \<in> set rows"
proof -
  let ?p = "etcd_key pre [''work_queue'', site]"
  have s1: "s1 = reset_expired ops now (queue_docs ops ?p s) s" and
    rows: "rows = py_take limit (sort_key (wq_created_at \<circ> snd) (filter (\<lambda>x. wq_state (snd x) = QPending) (queue_docs ops ?p s1)))"
    using assms(6) by (auto simp: etcd_pull_list_def Let_def)
  note pl = pull_list [OF assms(1,6)]
  have same: "ek_get ops k s1 = Some (QueueDoc r)"
    using pl(4) [of k] assms(2,3) by (auto simp: lease_lapsed_def)
  have "fst ` set (queue_docs ops ?p s1) \<subseteq> fst ` set (queue_docs ops ?p s)"
  proof (rule image_subsetI, clarify)
    fix k' r' assume "(k', r') \<in> set (queue_docs ops ?p s1)"
    then have "ek_get ops k' s1 = Some (QueueDoc r')" "prefix ?p k'" using queue_docs_set [OF pl(1)] by auto
    moreover from this have "\<exists>r0. ek_get ops k' s = Some (QueueDoc r0)" using pl(4) [of k'] by metis
    ultimately show "fst (k', r') \<in> fst ` set (queue_docs ops ?p s)" using queue_docs_set [OF assms(1)] by (metis fst_conv image_eqI)
  qed
  then have "card (fst ` set (queue_docs ops ?p s1)) \<le> card (fst ` set (queue_docs ops ?p s))" by (intro card_mono) simp_all
  then have "length (queue_docs ops ?p s1) \<le> length (queue_docs ops ?p s)"
    using distinct_card [OF queue_docs_distinct [OF pl(1)], of ?p] distinct_card [OF queue_docs_distinct [OF assms(1)], of ?p] by simp
  then have "length (filter (\<lambda>x. wq_state (snd x) = QPending) (queue_docs ops ?p s1)) \<le> nat limit" "0 \<le> limit"
    using assms(5) length_filter_le [of "\<lambda>x. wq_state (snd x) = QPending" "queue_docs ops ?p s1"] by linarith+
  then have "rows = sort_key (wq_created_at \<circ> snd) (filter (\<lambda>x. wq_state (snd x) = QPending) (queue_docs ops ?p s1))"
    by (simp add: rows py_take_def)
  then show ?thesis using same assms(3,4) queue_docs_set [OF pl(1)] by simp
qed

end

lemma site_prefix:
  assumes "CHR ''/'' \<notin> set (site @ t)" and "site \<noteq> []"
  shows "prefix (etcd_key pre [''work_queue'', site]) (queue_key pre (site @ t) w a)"
proof -
  have drop: "dropWhile (\<lambda>c. c = CHR ''/'') x = x" if "CHR ''/'' \<notin> set x" for x using that by (cases x) auto
  have "strip_slash x = x" if "CHR ''/'' \<notin> set x" for x using that by (simp add: strip_slash_def drop)
  then have "strip_slash site = site" "strip_slash (site @ t) = site @ t" using assms(1) by simp_all
  then show ?thesis using assms(2) by (simp add: queue_key_def etcd_key_Cons key_tail_Cons)
qed

text \<open>Two items, of site \<open>s1\<close> and of site \<open>s10\<close>.\<close>

definition demo_etcd :: "(string \<times> work_doc) list" where
  "demo_etcd = etcd_enqueue_work ref_kv ''k'' 2 ''w2'' 1 ''s10'' [] (etcd_enqueue_work ref_kv ''k'' 1 ''w1'' 1 ''s1'' [] [])"

definition demo_call :: "time \<Rightarrow> int \<Rightarrow> pull_call" where
  "demo_call now limit = \<lparr>pc_now = now, pc_uuids = (\<lambda>n. ''u''), pc_site = ''s1'', pc_limit = limit, pc_timeout = 1000\<rparr>"

definition unique_check :: "(string \<times> work_doc) list \<Rightarrow> bool" where
  "unique_check s \<longleftrightarrow> list_all (\<lambda>x. list_all (\<lambda>y. case (queue_of x, queue_of y) of
     (Some (k, r), Some (k', r')) \<Rightarrow> wq_key r \<noteq> wq_key r' \<or> k = k' | _ \<Rightarrow> True) s) s"

lemma unique_check_sound: "unique_check s \<Longrightarrow> work_unique ref_kv s"
proof -
  assume c: "unique_check s"
  have "k = k'" if "map_of s k = Some (QueueDoc r)" "map_of s k' = Some (QueueDoc r')" "wq_key r = wq_key r'" for k k' r r'
    using c map_of_SomeD [OF that(1)] map_of_SomeD [OF that(2)] that(3) unfolding unique_check_def list_all_iff by fastforce
  then show ?thesis by (simp add: work_unique_def ref_kv_def)
qed

lemma demo_etcd_ok: "ref_ok demo_etcd" "work_unique ref_kv demo_etcd"
proof -
  show "ref_ok demo_etcd" by code_simp
  have "unique_check demo_etcd" by code_simp
  then show "work_unique ref_kv demo_etcd" by (rule unique_check_sound)
qed

definition pulled_work :: "WorkQueueLease list \<times> 's \<Rightarrow> (string \<times> int \<times> string \<times> time) list" where
  "pulled_work x = map (\<lambda>l. (wl_work_id l, wl_attempt l, wl_site_id l, wl_lease_expires_at l)) (fst x)"

definition demo_first_pull :: "WorkQueueLease list \<times> (string \<times> work_doc) list" where
  "demo_first_pull = etcd_pull_work ref_kv ''k'' 5 (\<lambda>n. ''u'') ''s1'' 1 1000 demo_etcd"

definition demo_later_pulls :: "WorkQueueLease list \<times> (string \<times> work_doc) list" where
  "demo_later_pulls = etcd_pulls ref_kv ''k'' [demo_call 6 1, demo_call 7 1] (snd demo_first_pull)"

lemma demo_pulls: "pulled_work demo_first_pull = [(''w1'', 1, ''s1'', 1000005)]" "pulled_work demo_later_pulls = [(''w2'', 1, ''s1'', 1000006)]"
proof -
  show "pulled_work demo_first_pull = [(''w1'', 1, ''s1'', 1000005)]" by code_simp
  show "pulled_work demo_later_pulls = [(''w2'', 1, ''s1'', 1000006)]" by code_simp
qed

text \<open>
  (C35) Serial pulls deliver an item once per visibility timeout. Over any server that keeps etcd's contract, an item delivered by a
  pull is not delivered by any of the pulls that follow, by whatever site and in whatever number, while their time is not past its expiry.
\<close>

theorem etcd_pull_exclusive:
  assumes "etcd_kv ops ok" and "ok s" and "work_unique ops s"
    and "etcd_pull_work ops pre now us site limit vis s = (ls, s1)" and "l \<in> set ls"
    and "list_all (\<lambda>c. pc_now c \<le> wl_lease_expires_at l) cs" and "l' \<in> set (fst (etcd_pulls ops pre cs s1))"
  shows "(wl_work_id l', wl_attempt l') \<noteq> (wl_work_id l, wl_attempt l)"
proof -
  have w: "work_kv ops ok" using assms(1) by (rule work_kv.intro)
  obtain k r where "work_kv.held ops ok (wl_lease_expires_at l) k r s1" "wq_key r = (wl_work_id l, wl_attempt l)"
    "prefix (etcd_key pre [''work_queue'']) k"
    using work_kv.pulled_held [OF w assms(2-5)] by blast
  then show ?thesis using work_kv.held_pulls [OF w _ assms(6) _ assms(7)] by metis
qed

theorem etcd_pull_exclusive_witness:
  "pulled_work demo_first_pull = [(''w1'', 1, ''s1'', 1000005)] \<and> pulled_work demo_later_pulls = [(''w2'', 1, ''s1'', 1000006)] \<and>
   (''w2'', 1) \<noteq> (''w1'', 1 :: int)"
proof -
  obtain l l' where l: "fst demo_first_pull = [l]" "wl_work_id l = ''w1''" "wl_attempt l = 1" "wl_lease_expires_at l = 1000005"
    and l': "fst demo_later_pulls = [l']" "wl_work_id l' = ''w2''" "wl_attempt l' = 1"
    using demo_pulls by (auto simp: pulled_work_def)
  have run: "etcd_pull_work ref_kv ''k'' 5 (\<lambda>n. ''u'') ''s1'' 1 1000 demo_etcd = (fst demo_first_pull, snd demo_first_pull)"
    by (simp add: demo_first_pull_def)
  have "l \<in> set (fst demo_first_pull)" "list_all (\<lambda>c. pc_now c \<le> wl_lease_expires_at l) [demo_call 6 1, demo_call 7 1]"
    using l by (simp_all add: demo_call_def)
  moreover have "l' \<in> set (fst (etcd_pulls ref_kv ''k'' [demo_call 6 1, demo_call 7 1] (snd demo_first_pull)))"
    unfolding demo_later_pulls_def [symmetric] l'(1) by simp
  ultimately
  have "(wl_work_id l', wl_attempt l') \<noteq> (wl_work_id l, wl_attempt l)"
    by (rule etcd_pull_exclusive [OF ref.etcd_kv_axioms demo_etcd_ok run])
  with l l' demo_pulls show ?thesis by simp
qed

text \<open>
  A site is given the work of another. The rows of a site are listed by a key prefix without a separator at its end: a pull by site
  \<open>s\<close> leases the pending work of every site whose id begins with \<open>s\<close>, as work of \<open>s\<close>.
\<close>

theorem etcd_pull_crosses_sites:
  assumes "etcd_kv ops ok" and "ok s" and "CHR ''/'' \<notin> set (site @ t)" and "site \<noteq> []"
    and "ek_get ops (queue_key pre (site @ t) w a) s = Some (QueueDoc r)" and "wq_state r = QPending"
    and "int (length (queue_docs ops (etcd_key pre [''work_queue'', site]) s)) \<le> limit"
    and "etcd_pull_work ops pre now us site limit vis s = (ls, s1)"
  shows "\<exists>l \<in> set ls. (wl_work_id l, wl_attempt l) = wq_key r \<and> wl_site_id l = site"
proof -
  obtain rows s0 where pl: "etcd_pull_list ops pre now site limit s = (rows, s0)" by (metis surj_pair)
  have ls: "ls = fst (etcd_pull_rows ops pre now (now + max 0 vis * 1000) site rows us s0)" (is "_ = fst ?run")
    using assms(8) pl by (simp add: etcd_pull_work_def)
  have "(queue_key pre (site @ t) w a, r) \<in> set rows"
    by (rule work_kv.pull_lists_pending [OF work_kv.intro [OF assms(1)] assms(2,5,6) site_prefix [OF assms(3,4)] assms(7) pl])
  then obtain l where "l \<in> set ls" "(wl_work_id l, wl_attempt l) = wq_key r"
    using row_delivered ls by metis
  moreover have "wl_site_id l = site"
    using pull_rows_expiry [of l ops pre now "now + max 0 vis * 1000" site rows us s0] \<open>l \<in> set ls\<close> ls by simp
  ultimately show ?thesis by (intro bexI [of _ l]) simp_all
qed

theorem etcd_pull_crosses_sites_witness:
  "\<exists>l \<in> set (fst (etcd_pull_work ref_kv ''k'' 5 (\<lambda>n. ''u'') ''s1'' 10 1000 demo_etcd)). wl_work_id l = ''w2'' \<and> wl_site_id l = ''s1''"
proof -
  let ?r = "case ek_get ref_kv (queue_key ''k'' ''s10'' ''w2'' 1) demo_etcd of Some (QueueDoc r) \<Rightarrow> r"
  have "ek_get ref_kv (queue_key ''k'' (''s1'' @ ''0'') ''w2'' 1) demo_etcd = Some (QueueDoc ?r)" "wq_state ?r = QPending"
    "int (length (queue_docs ref_kv (etcd_key ''k'' [''work_queue'', ''s1'']) demo_etcd)) \<le> 10" and w: "wq_key ?r = (''w2'', 1)" by code_simp+
  from etcd_pull_crosses_sites [OF ref.etcd_kv_axioms demo_etcd_ok(1) _ _ this(1-3) prod.collapse [symmetric], of 5 "\<lambda>n. ''u''" 1000]
  show ?thesis using w by auto
qed

text \<open>
  Two controllers deliver the same item. A pull writes the rows it has listed without comparing: when a second controller
  lists before the first has written, an item in both listings is delivered by both, and the first delivery's lease is lost.
\<close>

theorem etcd_interleaved_pulls_deliver_twice:
  assumes "etcd_kv ops ok" and "ok s" and "etcd_pull_list ops pre now site limit s = (rows, s1)"
    and "etcd_pull_list ops pre now' site' limit' s1 = (rows', s2)" and "(k, r) \<in> set rows" and "(k, r) \<in> set rows'"
    and "etcd_pull_rows ops pre now e site rows us s2 = (ls, s3)" and "etcd_pull_rows ops pre now' e' site' rows' us' s3 = (ls', s4)"
  shows "(\<exists>l \<in> set ls. (wl_work_id l, wl_attempt l) = wq_key r) \<and> (\<exists>l \<in> set ls'. (wl_work_id l, wl_attempt l) = wq_key r) \<and>
    (\<exists>u. ek_get ops k s4 = Some (QueueDoc (wq_take (u, now', e') r)))"
proof -
  have w: "work_kv ops ok" using assms(1) by (rule work_kv.intro)
  note l1 = work_kv.pull_list [OF w assms(2,3)]
  note l2 = work_kv.pull_list [OF w l1(1) assms(4)]
  have "ok s3" using work_kv.ok_pull_rows [OF w l2(1), of pre now e site rows us] assms(7) by simp
  moreover have "k \<noteq> ledger_key pre v" for v using l2(3) [OF assms(6)] work_kv.queue_not_ledger [OF w] by blast
  ultimately obtain u where "ek_get ops k s4 = Some (QueueDoc (wq_take (u, now', e') r))"
    using work_kv.get_pull_rows [OF w _ l2(2) assms(6), of s3 pre now' e' site' us'] assms(8) by auto
  moreover have "\<exists>l \<in> set ls. (wl_work_id l, wl_attempt l) = wq_key r"
    using row_delivered [OF assms(5), of ops pre now e site us s2] assms(7) by (metis fst_conv)
  moreover have "\<exists>l \<in> set ls'. (wl_work_id l, wl_attempt l) = wq_key r"
    using row_delivered [OF assms(6), of ops pre now' e' site' us' s3] assms(8) by (metis fst_conv)
  ultimately show ?thesis by blast
qed

theorem etcd_interleaved_pulls_deliver_twice_witness:
  "let (rows, s1) = etcd_pull_list ref_kv ''k'' 5 ''s1'' 1 demo_etcd; (rows', s2) = etcd_pull_list ref_kv ''k'' 6 ''s1'' 1 s1;
       (ls, s3) = etcd_pull_rows ref_kv ''k'' 5 10 ''s1'' rows (\<lambda>n. ''u'') s2; (ls', s4) = etcd_pull_rows ref_kv ''k'' 6 11 ''s1'' rows' (\<lambda>n. ''v'') s3
   in (\<exists>l \<in> set ls. wl_work_id l = ''w1'') \<and> (\<exists>l \<in> set ls'. wl_work_id l = ''w1'')"
proof -
  let ?a = "etcd_pull_list ref_kv ''k'' 5 ''s1'' 1 demo_etcd"
  let ?b = "etcd_pull_list ref_kv ''k'' 6 ''s1'' 1 (snd ?a)"
  let ?c = "etcd_pull_rows ref_kv ''k'' 5 10 ''s1'' (fst ?a) (\<lambda>n. ''u'') (snd ?b)"
  have "(fst (hd (fst ?a)), snd (hd (fst ?a))) \<in> set (fst ?a)" "(fst (hd (fst ?a)), snd (hd (fst ?a))) \<in> set (fst ?b)"
    and w: "wq_key (snd (hd (fst ?a))) = (''w1'', 1)" by code_simp+
  from etcd_interleaved_pulls_deliver_twice [OF ref.etcd_kv_axioms demo_etcd_ok(1) prod.collapse [symmetric] prod.collapse [symmetric] this(1,2)
      prod.collapse [symmetric] prod.collapse [symmetric], of 10 "\<lambda>n. ''u''" 11 "\<lambda>n. ''v''"]
  show ?thesis using w by (auto simp: case_prod_beta Let_def)
qed

section \<open>Acknowledging a lease that is not there\<close>

context work_kv
begin

lemma get_put_rows:
  assumes "ok s" and "distinct (map fst rows)" and "(k, r) \<in> set rows"
  shows "ek_get ops k (fold (\<lambda>(k, r). ek_put ops k (QueueDoc (f r))) rows s) = Some (QueueDoc (f r))"
proof -
  have other: "ok s \<Longrightarrow> k \<notin> fst ` set rows \<Longrightarrow> ek_get ops k (fold (\<lambda>(k, r). ek_put ops k (QueueDoc (f r))) rows s) = ek_get ops k s" for rows s
    by (induction rows arbitrary: s) (auto simp: get_put ok_put)
  show ?thesis
    using assms
  proof (induction rows arbitrary: s)
    case (Cons x rows)
    obtain k' r' where x: "x = (k', r')" by (cases x)
    show ?case
    proof (cases "(k, r) = x")
      case True
      then have "k \<notin> fst ` set rows" using Cons.prems(2) x by auto
      then show ?thesis using True x other [of "ek_put ops k' (QueueDoc (f r')) s" rows] Cons.prems(1) by (simp add: ok_put get_put)
    next
      case False
      then have "(k, r) \<in> set rows" using Cons.prems(3) by simp
      then show ?thesis using Cons.IH [of "ek_put ops k' (QueueDoc (f r')) s"] Cons.prems(1,2) x by (simp add: ok_put)
    qed
  qed simp
qed

lemma ack_none:
  assumes "ok s" and "ek_get ops k s = Some (QueueDoc r)" and "prefix (etcd_key pre [''work_queue'']) k" and "wq_lease_id r = None"
  shows "ek_get ops k (snd (etcd_ack_work ops pre now [''None''] s)) = Some (QueueDoc (wq_ack now r))"
proof -
  let ?rows = "filter (\<lambda>x. (case wq_lease_id (snd x) of None \<Rightarrow> ''None'' | Some l \<Rightarrow> l) \<in> set [''None'']) (queue_docs ops (etcd_key pre [''work_queue'']) s)"
  have "(k, r) \<in> set ?rows" using queue_docs_set [OF assms(1), of k r pre "[]"] assms(2-4) by simp
  moreover have "distinct (map fst ?rows)"
    using queue_docs_distinct [OF assms(1), of "etcd_key pre [''work_queue'']"] unfolding distinct_map inj_on_def by auto
  ultimately show ?thesis using get_put_rows [OF assms(1), of ?rows k r "wq_ack now"] by (simp add: etcd_ack_work_def Let_def)
qed

end

text \<open>
  A missing lease id is compared as the text \<open>None\<close>: an acknowledgement of the lease \<open>None\<close> takes every item that waits in the queues, of all sites,
  out of them without its having been delivered.
\<close>

theorem etcd_ack_none_drops_queue:
  assumes "etcd_kv ops ok" and "ok s" and "ek_get ops k s = Some (QueueDoc r)" and "prefix (etcd_key pre [''work_queue'']) k"
    and "wq_state r = QPending" and "wq_lease_id r = None"
  shows "\<exists>r'. ek_get ops k (snd (etcd_ack_work ops pre now [''None''] s)) = Some (QueueDoc r') \<and> wq_state r' = QAcked \<and> wq_lease_expires_at r' = wq_lease_expires_at r"
  using work_kv.ack_none [OF work_kv.intro [OF assms(1)] assms(2,3,4,6), of now] by (simp add: wq_ack_def)

section \<open>Rescheduled work\<close>

lemma reschedule_payload_operation:
  "dict_get (reschedule_payload w site n (Some (c # cs)) (Some ep) t old) ''operation_id'' = JStr (work_operation w n)"
  by (simp add: reschedule_payload_def Let_def)

text \<open>
  (C37) No result of a rescheduled attempt is accepted. On etcd, rescheduling advances the attempt in the ledger but leaves the operation id of the first
  attempt there, while the work goes out under the operation id of the new one. Whatever envelope the site answers with for the new attempt, the
  ingress refuses it, because the ledger does not name it; and so after every further rescheduling, since the operation id stays.
\<close>

theorem etcd_rescheduled_results_refused:
  assumes "etcd_kv ops ok" and "ok s" and "ledger_at ops pre w s = Some lg" and "lg_operation_id lg = JStr (work_operation w first)" and "first \<le> att"
    and "etcd_reschedule_work ops pre isofmt now w att (Some (c # cs)) (Some ep) s = (Inr (Some n), s1)"
  shows "(\<exists>ob d. outbox_at ops pre w n s1 = Some ob \<and> ob_payload ob = JDump (JObj d) \<and> dict_get d ''operation_id'' = JStr (work_operation w n)) \<and>
    (\<exists>lg1. ledger_at ops pre w s1 = Some lg1 \<and> lg_attempt lg1 = n \<and> lg_operation_id lg1 = JStr (work_operation w first) \<and> first \<le> n) \<and>
    (\<forall>entry envl. etcd_get_work_ledger ops pre w s1 = Inr entry \<longrightarrow> me_operation_id envl = work_operation w n \<longrightarrow>
       \<not> result_matches_ledger entry n (Some envl))"
proof -
  obtain ob old where ob: "outbox_at ops pre w att s = Some ob" "as_dict (loads_or_empty (ob_payload ob)) = Some old" and a: "lg_attempt lg = att" "n = att + 1"
    and s1: "s1 = etcd_enqueue_work_outbox ops pre now w n (ob_site_id ob)
      (reschedule_payload w (ob_site_id ob) n (Some (c # cs)) (Some ep) (isofmt now) old)
      (ek_put ops (ledger_key pre w) (LedgerDoc (lg_next_attempt now n lg)) s)"
    using assms(3,6) by (auto simp: etcd_reschedule_work_def Let_def split: option.splits if_splits)
  have l1: "ledger_at ops pre w s1 = Some (lg_next_attempt now n lg)"
    using assms(1,2) outbox_key_not_ledger [of pre w n w, symmetric]
    by (simp add: s1 ledger_at_def etcd_enqueue_work_outbox_def etcd_kv.get_put etcd_kv.ok_put)
  moreover have "outbox_at ops pre w n s1 = Some (new_outbox_row now w n (ob_site_id ob)
      (reschedule_payload w (ob_site_id ob) n (Some (c # cs)) (Some ep) (isofmt now) old))"
    using assms(1,2) by (simp add: s1 outbox_at_def etcd_enqueue_work_outbox_def etcd_kv.get_put etcd_kv.ok_put)
  moreover have "\<not> result_matches_ledger entry n (Some envl)"
    if "etcd_get_work_ledger ops pre w s1 = Inr entry" "me_operation_id envl = work_operation w n" for entry envl
    using that l1 assms(4,5) a
    by (auto simp: etcd_get_work_ledger_def etcd_ledger_entry_def rbind_def lg_next_attempt_def result_matches_ledger_def work_operation_def
        str_unless_null_def         split: sum.splits)
  ultimately show ?thesis
    using assms(4,5) a by (simp add: lg_next_attempt_def new_outbox_row_def reschedule_payload_operation)
qed

text \<open>Work \<open>w\<close> under the operation of its first attempt, in ledger and outbox.\<close>

definition demo_dispatched :: "(string \<times> work_doc) list" where
  "demo_dispatched = etcd_upsert_work_ledger ref_kv ''k'' 1 ''w'' 1 ''s1'' ''Running'' (Some ''c'') (Some 3) (Some (work_operation ''w'' 1)) None
     (etcd_enqueue_work_outbox ref_kv ''k'' 1 ''w'' 1 ''s1'' [(''operation_id'', JStr (work_operation ''w'' 1))] [])"

theorem etcd_rescheduled_results_refused_witness:
  "case etcd_reschedule_work ref_kv ''k'' (\<lambda>t. []) 9 ''w'' 1 (Some ''c'') (Some 3) demo_dispatched of (n, s1) \<Rightarrow>
     n = Inr (Some 2) \<and> (case etcd_get_work_ledger ref_kv ''k'' ''w'' s1 of Inl err \<Rightarrow> False
       | Inr entry \<Rightarrow> \<not> result_matches_ledger entry 2
           (Some \<lparr>me_controller_id = ''c'', me_controller_epoch = 3, me_operation_id = work_operation ''w'' 2\<rparr>))"
proof -
  let ?x = "etcd_reschedule_work ref_kv ''k'' (\<lambda>t. []) 9 ''w'' 1 (Some ''c'') (Some 3) demo_dispatched"
  let ?lg = "the (ledger_at ref_kv ''k'' ''w'' demo_dispatched)"
  have ok: "ref_ok demo_dispatched" by code_simp
  have "ledger_at ref_kv ''k'' ''w'' demo_dispatched = Some ?lg" "lg_operation_id ?lg = JStr (work_operation ''w'' 1)"
    and n: "fst ?x = Inr (Some 2)" and e: "isl (etcd_get_work_ledger ref_kv ''k'' ''w'' (snd ?x)) = False" by code_simp+
  moreover have "?x = (Inr (Some 2), snd ?x)" using n by (metis prod.collapse)
  ultimately show ?thesis
    using etcd_rescheduled_results_refused [OF ref.etcd_kv_axioms ok, of "''k''" "''w''" ?lg 1 1 "\<lambda>t. []" 9 "CHR ''c''" "[]" 3 2 "snd ?x"]
    by (cases "etcd_get_work_ledger ref_kv ''k'' ''w'' (snd ?x)") (auto simp: case_prod_beta)
qed

section \<open>One ledger contract for both stores\<close>

text \<open>
  What the ingress and the watchdog rely on: one record per work id, a report counts when it names the attempt of the record, and then
  changes state, node, generation and result of that record only. \<open>good\<close> are the work ids a store can keep apart.
\<close>

datatype ledger_op =
  LedgerPut time string int string string "string option" "int option" "string option" "int option"
| LedgerSet time string int string "string option" "int option" "dict option"

fun op_work :: "ledger_op \<Rightarrow> string" where
  "op_work (LedgerPut now w a site st cid ep oid gen) = w"
| "op_work (LedgerSet now w a st node gen res) = w"

definition new_ledger_row :: "time \<Rightarrow> string \<Rightarrow> int \<Rightarrow> string \<Rightarrow> string \<Rightarrow> string option \<Rightarrow> int option \<Rightarrow> string option \<Rightarrow> int option \<Rightarrow> WorkLedgerRow" where
  "new_ledger_row now w a site st cid ep oid gen =
     \<lparr>lg_work_id = w, lg_attempt = a, lg_site_id = site, lg_state = st, lg_controller_id = json_opt_str cid,
      lg_controller_epoch = json_opt_int ep, lg_operation_id = json_opt_str oid, lg_desired_generation = gen,
      lg_assigned_node_id = None, lg_observed_generation = None, lg_result = JEmpty,
      lg_created_at = now, lg_updated_at = now, lg_state_updated_at = now\<rparr>"

fun spec_ledger_op :: "ledger_op \<Rightarrow> (string \<rightharpoonup> WorkLedgerRow) \<Rightarrow> bool \<times> (string \<rightharpoonup> WorkLedgerRow)" where
  "spec_ledger_op (LedgerPut now w a site st cid ep oid gen) m = (True, m(w \<mapsto> (case m w of
     None \<Rightarrow> new_ledger_row now w a site st cid ep oid gen
   | Some r \<Rightarrow> lg_upsert (a, site, st, json_opt_str cid, json_opt_int ep, json_opt_str oid, gen, now) r)))"
| "spec_ledger_op (LedgerSet now w a st node gen res) m = (case m w of
     None \<Rightarrow> (False, m)
   | Some r \<Rightarrow> if lg_attempt r = a then (True, m(w \<mapsto> lg_set_state (st, node, gen, res, now) r)) else (False, m))"

fun run_ledger_ops :: "(ledger_op \<Rightarrow> 'st \<Rightarrow> bool \<times> 'st) \<Rightarrow> ledger_op list \<Rightarrow> 'st \<Rightarrow> bool list \<times> 'st" where
  "run_ledger_ops step [] st = ([], st)"
| "run_ledger_ops step (x # xs) st = (case step x st of (b, st1) \<Rightarrow> case run_ledger_ops step xs st1 of (bs, st2) \<Rightarrow> (b # bs, st2))"

locale attempt_ledger =
  fixes row :: "string \<Rightarrow> 'st \<Rightarrow> WorkLedgerRow option" and inv :: "'st \<Rightarrow> bool" and good :: "string \<Rightarrow> bool"
    and step :: "ledger_op \<Rightarrow> 'st \<Rightarrow> bool \<times> 'st"
  assumes inv_step: "inv st \<Longrightarrow> inv (snd (step x st))"
    and step_answer: "inv st \<Longrightarrow> good (op_work x) \<Longrightarrow> fst (step x st) = fst (spec_ledger_op x (\<lambda>w. row w st))"
    and step_row: "inv st \<Longrightarrow> good (op_work x) \<Longrightarrow> good w \<Longrightarrow> row w (snd (step x st)) = snd (spec_ledger_op x (\<lambda>w. row w st)) w"
begin

lemma run_spec:
  assumes "inv st" and "list_all (\<lambda>x. good (op_work x)) xs" and "\<And>w. good w \<Longrightarrow> row w st = m w"
  shows "fst (run_ledger_ops step xs st) = fst (run_ledger_ops spec_ledger_op xs m) \<and>
    (\<forall>w. good w \<longrightarrow> row w (snd (run_ledger_ops step xs st)) = snd (run_ledger_ops spec_ledger_op xs m) w)"
  using assms
proof (induction xs arbitrary: st m)
  case (Cons x xs)
  have loc: "fst (spec_ledger_op x (\<lambda>w. row w st)) = fst (spec_ledger_op x m)"
      "good w \<Longrightarrow> snd (spec_ledger_op x (\<lambda>w. row w st)) w = snd (spec_ledger_op x m) w" for w
    using Cons.prems(2,3) by (cases x; auto split: option.splits)+
  have g: "good (op_work x)" using Cons.prems(2) by simp
  have "inv (snd (step x st))" by (rule inv_step [OF Cons.prems(1)])
  moreover have "row w (snd (step x st)) = snd (spec_ledger_op x m) w" if "good w" for w
    using step_row [OF Cons.prems(1) g that] loc(2) [OF that] by simp
  ultimately show ?case
    using Cons.IH [of "snd (step x st)" "snd (spec_ledger_op x m)"] Cons.prems(2) step_answer [OF Cons.prems(1) g] loc(1)
    by (simp add: case_prod_beta)
qed simp

end

fun sql_ledger_step :: "ledger_op \<Rightarrow> WorkStore \<Rightarrow> bool \<times> WorkStore" where
  "sql_ledger_step (LedgerPut now w a site st cid ep oid gen) db = (True, upsert_work_ledger now w a site st cid ep oid gen db)"
| "sql_ledger_step (LedgerSet now w a st node gen res) db = update_work_state now w a st node gen res db"

fun etcd_ledger_step :: "'s work_ops \<Rightarrow> string \<Rightarrow> ledger_op \<Rightarrow> 's \<Rightarrow> bool \<times> 's" where
  "etcd_ledger_step ops pre (LedgerPut now w a site st cid ep oid gen) s = (True, etcd_upsert_work_ledger ops pre now w a site st cid ep oid gen s)"
| "etcd_ledger_step ops pre (LedgerSet now w a st node gen res) s = etcd_update_work_state ops pre now w a st node gen res s"

definition sql_ledger_row :: "string \<Rightarrow> WorkStore \<Rightarrow> WorkLedgerRow option" where
  "sql_ledger_row w db = find (\<lambda>r. lg_work_id r = w) (work_ledger db)"

definition sql_ledger_inv :: "WorkStore \<Rightarrow> bool" where
  "sql_ledger_inv db \<longleftrightarrow> primary_key lg_work_id (work_ledger db)"

lemma sql_put:
  "sql_ledger_row w' (upsert_work_ledger now w a site st cid ep oid gen db) =
     (if w' = w then Some (case sql_ledger_row w db of None \<Rightarrow> new_ledger_row now w a site st cid ep oid gen
        | Some r \<Rightarrow> lg_upsert (a, site, st, json_opt_str cid, json_opt_int ep, json_opt_str oid, gen, now) r)
      else sql_ledger_row w' db)"
proof (cases "exists_row (\<lambda>r. lg_work_id r = w) (work_ledger db)")
  case True
  then have "sql_ledger_row w db \<noteq> None" by (auto simp: sql_ledger_row_def exists_row_iff find_None_iff)
  then show ?thesis using True by (auto simp: upsert_work_ledger_def sql_ledger_row_def lg_ups.lookup_update_key)
next
  case False
  then have "find (\<lambda>r. lg_work_id r = w) (work_ledger db) = None" by (auto simp: exists_row_iff find_None_iff)
  then show ?thesis
    using False by (auto simp: upsert_work_ledger_def sql_ledger_row_def find_append new_ledger_row_def split: option.splits)
qed

lemma sql_set:
  assumes "primary_key lg_work_id (work_ledger db)"
  shows "fst (update_work_state now w a st node gen res db) \<longleftrightarrow> (\<exists>r. sql_ledger_row w db = Some r \<and> lg_attempt r = a)"
    and "sql_ledger_row w' (snd (update_work_state now w a st node gen res db)) =
      (if w' = w then map_option (\<lambda>r. if lg_attempt r = a then lg_set_state (st, node, gen, res, now) r else r) (sql_ledger_row w db)
       else sql_ledger_row w' db)"
proof -
  show "fst (update_work_state now w a st node gen res db) \<longleftrightarrow> (\<exists>r. sql_ledger_row w db = Some r \<and> lg_attempt r = a)"
    using find_key_member [OF assms] find_key_Some [of lg_work_id w "work_ledger db"]
    by (auto simp: update_work_state_def Let_def rowcount_pos_iff exists_row_iff sql_ledger_row_def)
  have *: "sql_ledger_row w' (snd (update_work_state now w a st node gen res db)) =
      map_option (\<lambda>r. if lg_work_id r = w \<and> lg_attempt r = a then lg_set_state (st, node, gen, res, now) r else r) (sql_ledger_row w' db)"
    by (simp add: update_work_state_def Let_def sql_ledger_row_def lg_state.lookup_update)
  show "sql_ledger_row w' (snd (update_work_state now w a st node gen res db)) =
      (if w' = w then map_option (\<lambda>r. if lg_attempt r = a then lg_set_state (st, node, gen, res, now) r else r) (sql_ledger_row w db)
       else sql_ledger_row w' db)"
  proof (cases "sql_ledger_row w' db")
    case (Some r)
    then have "lg_work_id r = w'" using find_key_Some [of lg_work_id w' "work_ledger db" r] by (simp add: sql_ledger_row_def)
    with * Some show ?thesis by (cases "w' = w") simp_all
  qed (use * in \<open>cases "w' = w"; simp\<close>)
qed

interpretation sql_ledger: attempt_ledger sql_ledger_row sql_ledger_inv "\<lambda>w. True" sql_ledger_step
proof unfold_locales
  fix x db w
  assume inv: "sql_ledger_inv db"
  then show "sql_ledger_inv (snd (sql_ledger_step x db))"
    by (cases x) (auto simp: sql_ledger_inv_def upsert_work_ledger_def update_work_state_def Let_def lg_ups.pk_update lg_state.pk_update
        intro: primary_key_insert)
  show "fst (sql_ledger_step x db) = fst (spec_ledger_op x (\<lambda>w. sql_ledger_row w db))"
    using sql_set(1) inv by (cases x) (auto simp: sql_ledger_inv_def split: option.splits)
  show "sql_ledger_row w (snd (sql_ledger_step x db)) = snd (spec_ledger_op x (\<lambda>w. sql_ledger_row w db)) w"
    using sql_set(2) inv by (cases x) (auto simp: sql_ledger_inv_def sql_put split: option.splits)
qed

context work_kv
begin

lemma ledger_at_put: "ok s \<Longrightarrow> key_part w \<Longrightarrow> key_part w' \<Longrightarrow>
    ledger_at ops pre w' (ek_put ops (ledger_key pre w) (LedgerDoc r) s) = (if w' = w then Some r else ledger_at ops pre w' s)"
  by (simp add: ledger_at_def get_put ledger_key_inj)

lemma attempt_ledger_etcd: "attempt_ledger (ledger_at ops pre) ok key_part (etcd_ledger_step ops pre)"
proof unfold_locales
  fix x s w
  assume ok: "ok s"
  then show "ok (snd (etcd_ledger_step ops pre x s))"
    by (cases x) (simp_all add: etcd_upsert_work_ledger_def ok_put ok_update)
  assume x: "key_part (op_work x)"
  show "fst (etcd_ledger_step ops pre x s) = fst (spec_ledger_op x (\<lambda>w. ledger_at ops pre w s))"
    by (cases x) (auto simp: etcd_update_work_state_def split: option.splits)
  assume w: "key_part w"
  show "ledger_at ops pre w (snd (etcd_ledger_step ops pre x s)) = snd (spec_ledger_op x (\<lambda>w. ledger_at ops pre w s)) w"
    using x by (cases x)
      (auto simp: etcd_upsert_work_ledger_def etcd_update_work_state_def ledger_at_put [OF ok _ w] new_ledger_row_def split: option.splits)
qed

end

interpretation etcd_ledger: attempt_ledger "ledger_at ref_kv pre" ref_ok key_part "etcd_ledger_step ref_kv pre" for pre
  by (rule wref.attempt_ledger_etcd)

text \<open>
  (C34) The two ledgers agree. Put through the same sequence of registrations and reports, the ledger of the SQL store and that of the etcd store give
  the same answers and hold the same record for every work id, over any server that keeps etcd's contract, from states in
  which they agree. (Rescheduling is where they part.)
\<close>

theorem ledgers_agree:
  assumes "etcd_kv ops ok" and "ok s" and "primary_key lg_work_id (work_ledger db)"
    and "\<And>w. key_part w \<Longrightarrow> ledger_at ops pre w s = sql_ledger_row w db"
    and "list_all (\<lambda>x. key_part (op_work x)) xs" and "key_part w"
  shows "fst (run_ledger_ops (etcd_ledger_step ops pre) xs s) = fst (run_ledger_ops sql_ledger_step xs db) \<and>
    ledger_at ops pre w (snd (run_ledger_ops (etcd_ledger_step ops pre) xs s)) = sql_ledger_row w (snd (run_ledger_ops sql_ledger_step xs db))"
proof -
  have e: "attempt_ledger (ledger_at ops pre) ok key_part (etcd_ledger_step ops pre)"
    by (rule work_kv.attempt_ledger_etcd [OF work_kv.intro [OF assms(1)]])
  let ?m = "\<lambda>w. sql_ledger_row w db"
  have "list_all (\<lambda>x. True) xs" by (simp add: list_all_iff)
  then have "fst (run_ledger_ops sql_ledger_step xs db) = fst (run_ledger_ops spec_ledger_op xs ?m) \<and>
      sql_ledger_row w (snd (run_ledger_ops sql_ledger_step xs db)) = snd (run_ledger_ops spec_ledger_op xs ?m) w"
    using sql_ledger.run_spec [of db xs ?m] assms(3) by (simp add: sql_ledger_inv_def)
  moreover have "fst (run_ledger_ops (etcd_ledger_step ops pre) xs s) = fst (run_ledger_ops spec_ledger_op xs ?m) \<and>
      ledger_at ops pre w (snd (run_ledger_ops (etcd_ledger_step ops pre) xs s)) = snd (run_ledger_ops spec_ledger_op xs ?m) w"
    using attempt_ledger.run_spec [OF e assms(2,5,4)] assms(6) by simp
  ultimately show ?thesis by simp
qed

theorem ledgers_agree_witness:
  "let xs = [LedgerPut 1 ''w'' 1 ''s'' ''Pending'' (Some ''c'') (Some 3) None None, LedgerSet 2 ''w'' 1 ''Running'' (Some ''n'') None None,
       LedgerSet 3 ''w'' 7 ''Failed'' None None None]
   in fst (run_ledger_ops (etcd_ledger_step ref_kv ''k'') xs []) = [True, True, False] \<and>
      fst (run_ledger_ops sql_ledger_step xs empty_work_store) = [True, True, False]"
proof -
  let ?xs = "[LedgerPut 1 ''w'' 1 ''s'' ''Pending'' (Some ''c'') (Some 3) None None, LedgerSet 2 ''w'' 1 ''Running'' (Some ''n'') None None,
    LedgerSet 3 ''w'' 7 ''Failed'' None None None]"
  have k: "key_part ''w''" by (simp add: key_part_def strip_slash_def)
  have "fst (run_ledger_ops (etcd_ledger_step ref_kv ''k'') ?xs []) = fst (run_ledger_ops sql_ledger_step ?xs empty_work_store)"
    using ledgers_agree [OF ref.etcd_kv_axioms, of "[]" empty_work_store "''k''" ?xs "''w''"] k
    by (simp add: ref_ok_def primary_key_def empty_work_store_def ledger_at_def ref_kv_def sql_ledger_row_def del: run_ledger_ops.simps)
  moreover have "fst (run_ledger_ops sql_ledger_step ?xs empty_work_store) = [True, True, False]" by code_simp
  ultimately show ?thesis by (simp add: Let_def)
qed

end
