(* ===== verification/Etcd_Leases.thy ===== *)
theory Etcd_Leases
  imports Etcd_Work Leases
begin

text \<open>
  GPU, port and node leases of inference cells and the core-proxy ports of sites in the etcd state store (\<^verbatim>\<open>ae/controller/etcd_state.py\<close>), with
  the rows of \<open>Leases\<close> and \<open>Site_Ports\<close>. A lease is taken by a transaction per key, a port by reading and then writing;
  shown is what becomes of both when the calls of several controllers interleave.
\<close>

section \<open>Documents and keys\<close>

datatype site_doc = GpuDoc "(string \<times> int) LeaseRow" | PortDoc "(string \<times> int) LeaseRow" | LockDoc "string LeaseRow" | SiteDoc SiteIngressRow

type_synonym 's site_ops = "('s, site_doc) KvOps"

fun doc_lease_id :: "site_doc \<Rightarrow> string option" where
  "doc_lease_id (GpuDoc r) = Some (ls_lease_id r)"
| "doc_lease_id (PortDoc r) = Some (ls_lease_id r)"
| "doc_lease_id (LockDoc r) = Some (ls_lease_id r)"
| "doc_lease_id (SiteDoc r) = None"

definition gpu_lease_key :: "string \<Rightarrow> string \<times> int \<Rightarrow> string" where
  "gpu_lease_key pre x = etcd_key pre [''inference'', ''gpu_leases'', fst x, show_int (snd x)]"

definition port_lease_key :: "string \<Rightarrow> string \<times> int \<Rightarrow> string" where
  "port_lease_key pre x = etcd_key pre [''inference'', ''port_leases'', fst x, show_int (snd x)]"

definition node_lock_key :: "string \<Rightarrow> string \<Rightarrow> string" where
  "node_lock_key pre node_id = etcd_key pre [''inference'', ''node_locks'', node_id]"

definition site_key :: "string \<Rightarrow> string \<Rightarrow> string" where
  "site_key pre site_id = etcd_key pre [''ingress'', ''sites'', site_id]"

section \<open>Leases of cells\<close>

text \<open>The loop over the keys of a request: a key that exists makes the keys created so far be deleted again.\<close>

fun create_all :: "('s, 'v) KvOps \<Rightarrow> (string \<times> 'v) list \<Rightarrow> string list \<Rightarrow> 's \<Rightarrow> bool \<times> 's" where
  "create_all ops [] created s = (True, s)"
| "create_all ops ((k, d) # ds) created s = (case ek_create ops k d s of
     (True, s1) \<Rightarrow> create_all ops ds (created @ [k]) s1
   | (False, s1) \<Rightarrow> (False, fold (ek_delete ops) created s1))"

definition gpu_docs :: "string \<Rightarrow> time \<Rightarrow> string \<Rightarrow> string \<Rightarrow> (string \<times> int) list \<Rightarrow> int \<Rightarrow> (string \<times> site_doc) list" where
  "gpu_docs pre now lease_id cell_key slots ttl = map (\<lambda>x. (gpu_lease_key pre x, GpuDoc (lease_row now lease_id cell_key ttl x))) slots"

definition etcd_acquire_inference_gpu_leases ::
  "'s site_ops \<Rightarrow> string \<Rightarrow> time \<Rightarrow> string \<Rightarrow> string \<Rightarrow> (string \<times> int) list \<Rightarrow> int \<Rightarrow> 's \<Rightarrow> bool \<times> 's" where
  "etcd_acquire_inference_gpu_leases ops pre now lease_id cell_key slots ttl s =
     create_all ops (gpu_docs pre now lease_id cell_key slots ttl) [] s"

definition release_docs :: "'s site_ops \<Rightarrow> string \<Rightarrow> string \<Rightarrow> 's \<Rightarrow> 's" where
  "release_docs ops p lease_id s =
     fold (\<lambda>(k, d). if doc_lease_id d = Some lease_id then ek_delete ops k else id) (list_prefix ops p s) s"

definition etcd_release_inference_gpu_leases :: "'s site_ops \<Rightarrow> string \<Rightarrow> string \<Rightarrow> 's \<Rightarrow> 's" where
  "etcd_release_inference_gpu_leases ops pre lease_id s = release_docs ops (etcd_key pre [''inference'', ''gpu_leases'']) lease_id s"

definition etcd_reserve_inference_port ::
  "'s site_ops \<Rightarrow> string \<Rightarrow> time \<Rightarrow> string \<Rightarrow> string \<Rightarrow> string \<Rightarrow> int \<Rightarrow> int \<Rightarrow> 's \<Rightarrow> bool \<times> 's" where
  "etcd_reserve_inference_port ops pre now lease_id cell_key node_id port ttl s =
     ek_create ops (port_lease_key pre (node_id, port)) (PortDoc (lease_row now lease_id cell_key ttl (node_id, port))) s"

fun etcd_reserve_first_port ::
  "'s site_ops \<Rightarrow> string \<Rightarrow> time \<Rightarrow> string \<Rightarrow> string \<Rightarrow> string \<Rightarrow> int list \<Rightarrow> int \<Rightarrow> 's \<Rightarrow> int option \<times> 's" where
  "etcd_reserve_first_port ops pre now lease_id cell_key node_id [] ttl s = (None, s)"
| "etcd_reserve_first_port ops pre now lease_id cell_key node_id (p # ps) ttl s =
     (case etcd_reserve_inference_port ops pre now lease_id cell_key node_id p ttl s of
        (True, s1) \<Rightarrow> (Some p, s1)
      | (False, s1) \<Rightarrow> etcd_reserve_first_port ops pre now lease_id cell_key node_id ps ttl s1)"

definition etcd_reserve_inference_port_from_range ::
  "'s site_ops \<Rightarrow> string \<Rightarrow> time \<Rightarrow> string \<Rightarrow> string \<Rightarrow> string \<Rightarrow> int \<Rightarrow> int \<Rightarrow> int \<Rightarrow> 's \<Rightarrow> int option \<times> 's" where
  "etcd_reserve_inference_port_from_range ops pre now lease_id cell_key node_id lo hi ttl s =
     etcd_reserve_first_port ops pre now lease_id cell_key node_id [min lo hi..max lo hi] ttl s"

definition etcd_release_inference_port_leases :: "'s site_ops \<Rightarrow> string \<Rightarrow> string \<Rightarrow> 's \<Rightarrow> 's" where
  "etcd_release_inference_port_leases ops pre lease_id s = release_docs ops (etcd_key pre [''inference'', ''port_leases'']) lease_id s"

definition etcd_acquire_inference_node_locks ::
  "'s site_ops \<Rightarrow> string \<Rightarrow> time \<Rightarrow> string \<Rightarrow> string \<Rightarrow> string list \<Rightarrow> int \<Rightarrow> 's \<Rightarrow> bool \<times> 's" where
  "etcd_acquire_inference_node_locks ops pre now lease_id cell_key node_ids ttl s =
     create_all ops (map (\<lambda>n. (node_lock_key pre n, LockDoc (lease_row now lease_id cell_key ttl n))) node_ids) [] s"

definition etcd_release_inference_node_locks :: "'s site_ops \<Rightarrow> string \<Rightarrow> string \<Rightarrow> 's \<Rightarrow> 's" where
  "etcd_release_inference_node_locks ops pre lease_id s = release_docs ops (etcd_key pre [''inference'', ''node_locks'']) lease_id s"

section \<open>Ports of sites\<close>

definition doc_urls :: "SiteIngressRow \<Rightarrow> json list" where
  "doc_urls r = (case loads_or_empty (si_public_urls r) of JArr l \<Rightarrow> l | _ \<Rightarrow> [])"

definition site_at :: "'s site_ops \<Rightarrow> string \<Rightarrow> string \<Rightarrow> 's \<Rightarrow> SiteIngressRow option" where
  "site_at ops pre site_id s = (case ek_get ops (site_key pre site_id) s of Some (SiteDoc r) \<Rightarrow> Some r | _ \<Rightarrow> None)"

definition site_docs :: "'s site_ops \<Rightarrow> string \<Rightarrow> 's \<Rightarrow> SiteIngressRow list" where
  "site_docs ops pre s = List.map_filter (\<lambda>x. case snd x of SiteDoc r \<Rightarrow> Some r | _ \<Rightarrow> None) (list_prefix ops (etcd_key pre [''ingress'', ''sites'']) s)"

definition etcd_get_site_ingress_endpoint :: "'s site_ops \<Rightarrow> string \<Rightarrow> string \<Rightarrow> 's \<Rightarrow> SiteIngressEndpoint option" where
  "etcd_get_site_ingress_endpoint ops pre site_id s = map_option (\<lambda>r.
     \<lparr>se_site_id = site_id, se_mode = si_mode r, se_core_proxy_port = si_core_proxy_port r, se_public_urls = doc_urls r,
      se_quarantine_until = si_quarantine_until r, se_created_at = si_created_at r, se_updated_at = si_updated_at r\<rparr>) (site_at ops pre site_id s)"

definition etcd_list_site_ingress_endpoints :: "'s site_ops \<Rightarrow> string \<Rightarrow> 's \<Rightarrow> SiteIngressListItem list" where
  "etcd_list_site_ingress_endpoints ops pre s = sort_key sl_site_id (map (\<lambda>r.
     \<lparr>sl_site_id = si_site_id r, sl_mode = si_mode r, sl_core_proxy_port = si_core_proxy_port r, sl_public_urls = doc_urls r,
      sl_quarantine_until = si_quarantine_until r\<rparr>) (site_docs ops pre s))"

text \<open>\<^verbatim>\<open>ensure_site_ingress_port\<close> in two halves: what it reads, and what it writes on that basis.\<close>

definition etcd_port_read :: "'s site_ops \<Rightarrow> string \<Rightarrow> string \<Rightarrow> 's \<Rightarrow> SiteIngressEndpoint option \<times> int list" where
  "etcd_port_read ops pre site_id s =
     (etcd_get_site_ingress_endpoint ops pre site_id s, List.map_filter si_core_proxy_port (site_docs ops pre s))"

definition etcd_port_write ::
  "'s site_ops \<Rightarrow> string \<Rightarrow> time \<Rightarrow> string \<Rightarrow> int \<Rightarrow> int \<Rightarrow> string \<Rightarrow> SiteIngressEndpoint option \<Rightarrow> int list \<Rightarrow> 's \<Rightarrow> int result \<times> 's" where
  "etcd_port_write ops pre now site_id port_min port_max mode existing used s =
     (case find (\<lambda>p. p \<notin> set used) [port_min..port_max] of
        None \<Rightarrow> (Inl (RuntimeError ''no core-proxy ports available''), s)
      | Some p \<Rightarrow> (Inr p, ek_put ops (site_key pre site_id) (SiteDoc
          \<lparr>si_site_id = site_id, si_mode = mode, si_core_proxy_port = Some p,
           si_public_urls = JDump (JArr (case existing of None \<Rightarrow> [] | Some e \<Rightarrow> se_public_urls e)),
           si_quarantine_until = Option.bind existing se_quarantine_until,
           si_created_at = (case existing of None \<Rightarrow> now | Some e \<Rightarrow> se_created_at e), si_updated_at = now\<rparr>) s))"

definition etcd_ensure_site_ingress_port ::
  "'s site_ops \<Rightarrow> string \<Rightarrow> time \<Rightarrow> string \<Rightarrow> int \<Rightarrow> int \<Rightarrow> string \<Rightarrow> 's \<Rightarrow> int result \<times> 's" where
  "etcd_ensure_site_ingress_port ops pre now site_id port_min port_max mode s =
     (if port_max < port_min then (Inl (ValueError ''port_min must be <= port_max''), s)
      else case etcd_port_read ops pre site_id s of (existing, used) \<Rightarrow>
        (case Option.bind existing se_core_proxy_port of
           Some p \<Rightarrow> (Inr p, s)
         | None \<Rightarrow> etcd_port_write ops pre now site_id port_min port_max mode existing used s))"

definition etcd_upsert_site_ingress_endpoint ::
  "'s site_ops \<Rightarrow> string \<Rightarrow> time \<Rightarrow> string \<Rightarrow> string \<Rightarrow> int option \<Rightarrow> json list option \<Rightarrow> time option \<Rightarrow> 's \<Rightarrow> 's" where
  "etcd_upsert_site_ingress_endpoint ops pre now site_id mode core_proxy_port public_urls quarantine_until s =
     (let existing = site_at ops pre site_id s
      in ek_put ops (site_key pre site_id) (SiteDoc
           \<lparr>si_site_id = site_id, si_mode = mode,
            si_core_proxy_port = (case core_proxy_port of Some p \<Rightarrow> Some p | None \<Rightarrow> Option.bind existing si_core_proxy_port),
            si_public_urls = JDump (JArr (case public_urls of None \<Rightarrow> [] | Some l \<Rightarrow> l)), si_quarantine_until = quarantine_until,
            si_created_at = (case existing of None \<Rightarrow> now | Some r \<Rightarrow> si_created_at r), si_updated_at = now\<rparr>) s)"

section \<open>Controllers side by side\<close>

text \<open>
  One request for leases as the machine of its calls: keys to create and keys created, keys to take back, or done. \<open>client_step\<close> performs one
  call to the server and takes its answer.
\<close>

datatype 'v client = Creating "(string \<times> 'v) list" "string list" | TakingBack "string list" | Granted "string list" | Refused

fun client_step :: "('s, 'v) KvOps \<Rightarrow> 'v client \<Rightarrow> 's \<Rightarrow> 'v client \<times> 's" where
  "client_step ops (Creating [] created) s = (Granted created, s)"
| "client_step ops (Creating ((k, d) # ds) created) s = (case ek_create ops k d s of
     (True, s1) \<Rightarrow> (Creating ds (created @ [k]), s1) | (False, s1) \<Rightarrow> (TakingBack created, s1))"
| "client_step ops (TakingBack []) s = (Refused, s)"
| "client_step ops (TakingBack (k # ks)) s = (TakingBack ks, ek_delete ops k s)"
| "client_step ops (Granted created) s = (Granted created, s)"
| "client_step ops Refused s = (Refused, s)"

text \<open>
  Which client makes the next call, over a schedule of any length, and whether the answer to the call is lost. \<^verbatim>\<open>_post\<close> repeats a request that
  times out: the server has carried it out, the client is where it was and makes the same call again. A client that gives up, because
  \<^verbatim>\<open>_post\<close> raised, makes no more calls. \<open>deletes_answered\<close>: only answers to calls that create are lost.
\<close>

fun run_clients :: "('s, 'v) KvOps \<Rightarrow> (nat \<times> bool) list \<Rightarrow> (nat \<Rightarrow> 'v client) \<times> 's \<Rightarrow> (nat \<Rightarrow> 'v client) \<times> 's" where
  "run_clients ops [] x = x"
| "run_clients ops ((i, lost) # is) x = (case client_step ops (fst x i) (snd x) of (c, s) \<Rightarrow>
     run_clients ops is (if lost then fst x else (fst x)(i := c), s))"

fun deletes_answered :: "('s, 'v) KvOps \<Rightarrow> (nat \<times> bool) list \<Rightarrow> (nat \<Rightarrow> 'v client) \<times> 's \<Rightarrow> bool" where
  "deletes_answered ops [] x = True"
| "deletes_answered ops ((i, lost) # is) x = (case client_step ops (fst x i) (snd x) of (c, s) \<Rightarrow>
     (case fst x i of TakingBack ks \<Rightarrow> \<not> lost | _ \<Rightarrow> True) \<and>
     deletes_answered ops is (if lost then fst x else (fst x)(i := c), s))"

lemma all_answered: "list_all (\<lambda>(i, lost). \<not> lost) sched \<Longrightarrow> deletes_answered ops sched x"
  by (induction ops sched x rule: deletes_answered.induct) (auto split: prod.splits client.splits)

fun client_keys :: "'v client \<Rightarrow> string list" where
  "client_keys (Creating ds created) = created"
| "client_keys (TakingBack ks) = ks"
| "client_keys (Granted created) = created"
| "client_keys Refused = []"

text \<open>A client left alone does what the method does.\<close>

lemma take_back_alone: "\<exists>n. ((\<lambda>(c, s). client_step ops c s) ^^ n) (TakingBack ks, s) = (Refused, fold (ek_delete ops) ks s)"
proof (induction ks arbitrary: s)
  case Nil
  show ?case by (intro exI [of _ 1]) simp
next
  case (Cons k ks)
  then obtain n where "((\<lambda>(c, s). client_step ops c s) ^^ n) (TakingBack ks, ek_delete ops k s) = (Refused, fold (ek_delete ops) ks (ek_delete ops k s))"
    by blast
  then show ?case by (intro exI [of _ "Suc n"]) (simp add: funpow_swap1)
qed

lemma client_alone:
  "\<exists>n. ((\<lambda>(c, s). client_step ops c s) ^^ n) (Creating ds created, s) =
     (if fst (create_all ops ds created s) then Granted (created @ map fst ds) else Refused, snd (create_all ops ds created s))"
proof (induction ds arbitrary: created s)
  case Nil
  show ?case by (intro exI [of _ 1]) simp
next
  case (Cons x ds)
  obtain k d where x: "x = (k, d)" by (cases x)
  obtain b s1 where c: "ek_create ops k d s = (b, s1)" by (metis surj_pair)
  show ?case
  proof (cases b)
    case True
    from Cons.IH [of "created @ [k]" s1] obtain n where "((\<lambda>(c, s). client_step ops c s) ^^ n) (Creating ds (created @ [k]), s1) =
      (if fst (create_all ops ds (created @ [k]) s1) then Granted ((created @ [k]) @ map fst ds) else Refused, snd (create_all ops ds (created @ [k]) s1))"
      by blast
    then show ?thesis using True x c by (intro exI [of _ "Suc n"]) (simp add: funpow_swap1)
  next
    case False
    from take_back_alone [of ops created s1] obtain n where
      "((\<lambda>(c, s). client_step ops c s) ^^ n) (TakingBack created, s1) = (Refused, fold (ek_delete ops) created s1)" by blast
    then show ?thesis using False x c by (intro exI [of _ "Suc n"]) (simp add: funpow_swap1)
  qed
qed

text \<open>What is true of all clients at any time: \<open>req i\<close> is what client \<open>i\<close> asks for.\<close>

fun client_of :: "(string \<times> 'v) list \<Rightarrow> 'v client \<Rightarrow> bool" where
  "client_of q (Creating ds created) \<longleftrightarrow> map fst q = created @ map fst ds \<and> set ds \<subseteq> set q"
| "client_of q (Granted created) \<longleftrightarrow> map fst q = created"
| "client_of q (TakingBack ks) \<longleftrightarrow> True"
| "client_of q Refused \<longleftrightarrow> True"

definition holds_own :: "('s, 'v) KvOps \<Rightarrow> (string \<times> 'v) list \<Rightarrow> 'v client \<Rightarrow> 's \<Rightarrow> bool" where
  "holds_own ops q c s \<longleftrightarrow> client_of q c \<and> distinct (client_keys c) \<and> list_all (\<lambda>k. \<exists>d. (k, d) \<in> set q \<and> ek_get ops k s = Some d) (client_keys c)"

definition clients_ok :: "('s, 'v) KvOps \<Rightarrow> (nat \<Rightarrow> (string \<times> 'v) list) \<Rightarrow> (nat \<Rightarrow> 'v client) \<Rightarrow> 's \<Rightarrow> bool" where
  "clients_ok ops req C s \<longleftrightarrow> (\<forall>i. holds_own ops (req i) (C i) s) \<and>
     (\<forall>i j. i \<noteq> j \<longrightarrow> set (client_keys (C i)) \<inter> set (client_keys (C j)) = {})"

context etcd_kv
begin

lemma client_step_own:
  assumes "ok s" and "holds_own ops q c s" and "client_step ops c s = (c', s')"
  shows "ok s'" and "holds_own ops q c' s'"
    and "k \<notin> set (client_keys c) \<Longrightarrow> k \<in> set (client_keys c') \<Longrightarrow> ek_get ops k s = None"
    and "ek_get ops k s \<noteq> None \<Longrightarrow> k \<notin> set (client_keys c) \<Longrightarrow> ek_get ops k s' = ek_get ops k s"
proof -
  have "ok s' \<and> holds_own ops q c' s' \<and> (k \<notin> set (client_keys c) \<longrightarrow> k \<in> set (client_keys c') \<longrightarrow> ek_get ops k s = None) \<and>
    (ek_get ops k s \<noteq> None \<longrightarrow> k \<notin> set (client_keys c) \<longrightarrow> ek_get ops k s' = ek_get ops k s)"
    using assms
  proof (cases "(ops, c, s)" rule: client_step.cases)
    case (2 ops' x d ds created s0)
    then have eq: "c = Creating ((x, d) # ds) created" by simp
    show ?thesis
    proof (cases "ek_get ops x s")
      case None
      then have step: "c' = Creating ds (created @ [x])" "s' = ek_put ops x d s"
        using assms(1,3) by (auto simp: eq create)
      have new: "x \<notin> set created" using assms(2) None by (auto simp: holds_own_def eq list_all_iff)
      have "(x, d) \<in> set q" using assms(2) by (auto simp: holds_own_def eq)
      then have "holds_own ops q c' s'"
        using assms(1,2) new by (auto simp: holds_own_def eq step get_put list_all_iff)
      then show ?thesis using assms(1) None by (auto simp: step eq ok_put get_put)
    next
      case (Some v)
      then have "c' = TakingBack created" "s' = s" using assms(1,3) by (auto simp: eq create)
      then show ?thesis using assms(1,2) by (auto simp: holds_own_def eq)
    qed
  next
    case (4 ops' x ks s0)
    then have eq: "c = TakingBack (x # ks)" by simp
    then have step: "c' = TakingBack ks" "s' = ek_delete ops x s" using assms(3) by auto
    have "list_all (\<lambda>k. \<exists>d. (k, d) \<in> set q \<and> ek_get ops k s' = Some d) ks"
      using assms(1,2) by (fastforce simp: holds_own_def eq step list_all_iff get_delete)
    then show ?thesis using assms(1,2) by (auto simp: holds_own_def eq step ok_delete get_delete)
  qed (auto simp: holds_own_def)
  then show "ok s'" "holds_own ops q c' s'" "k \<notin> set (client_keys c) \<Longrightarrow> k \<in> set (client_keys c') \<Longrightarrow> ek_get ops k s = None"
    "ek_get ops k s \<noteq> None \<Longrightarrow> k \<notin> set (client_keys c) \<Longrightarrow> ek_get ops k s' = ek_get ops k s" by blast+
qed

lemma client_step_ok:
  assumes "ok s" and "clients_ok ops req C s" and "client_step ops (C i) s = (c', s')"
  shows "clients_ok ops req (C(i := c')) s'"
proof -
  have own: "holds_own ops (req j) (C j) s" for j using assms(2) by (simp add: clients_ok_def)
  have apart: "j \<noteq> l \<Longrightarrow> k \<in> set (client_keys (C j)) \<Longrightarrow> k \<notin> set (client_keys (C l))" for j l k
    using assms(2) unfolding clients_ok_def by blast
  note st = client_step_own [OF assms(1) own assms(3)]
  have present: "k \<in> set (client_keys (C j)) \<Longrightarrow> ek_get ops k s \<noteq> None" for j k
    using own [of j] by (auto simp: holds_own_def list_all_iff)
  have "holds_own ops (req j) (C j) s'" if "j \<noteq> i" for j
    using own [of j] st(4) present apart [OF that] unfolding holds_own_def list_all_iff by metis
  moreover have "set (client_keys c') \<inter> set (client_keys (C j)) = {}" if "j \<noteq> i" for j
    using st(3) present apart [OF that] by blast
  ultimately show ?thesis using st(2) apart unfolding clients_ok_def by (simp add: disjoint_iff) blast
qed

lemma client_lost_ok:
  assumes "ok s" and "clients_ok ops req C s" and "client_step ops (C i) s = (c', s')" and "\<And>ks. C i \<noteq> TakingBack ks"
  shows "clients_ok ops req C s'"
proof -
  have own: "holds_own ops (req j) (C j) s" for j using assms(2) by (simp add: clients_ok_def)
  have kept: "ek_get ops k s' = Some d" if "ek_get ops k s = Some d" for k d
    using assms(1,3,4) that by (cases "(ops, C i, s)" rule: client_step.cases) (auto simp: create get_put split: if_splits option.splits)
  have "holds_own ops (req j) (C j) s'" for j
    using own [of j] kept unfolding holds_own_def list_all_iff by blast
  then show ?thesis using assms(2) by (simp add: clients_ok_def)
qed

lemma run_clients_ok:
  assumes "ok s" and "clients_ok ops req C s" and "deletes_answered ops sched (C, s)" and "run_clients ops sched (C, s) = (C', s')"
  shows "clients_ok ops req C' s'"
  using assms
proof (induction sched arbitrary: C s)
  case (Cons x sched)
  obtain i lost where x: "x = (i, lost)" by (cases x)
  obtain c s1 where st: "client_step ops (C i) s = (c, s1)" by (metis surj_pair)
  have "holds_own ops (req i) (C i) s" using Cons.prems(2) by (simp add: clients_ok_def)
  then have ok1: "ok s1" using client_step_own(1) [OF Cons.prems(1) _ st] by blast
  have "clients_ok ops req (if lost then C else C(i := c)) s1"
  proof (cases lost)
    case True
    then have "C i \<noteq> TakingBack ks" for ks using Cons.prems(3) st by (auto simp: x)
    with client_lost_ok [OF Cons.prems(1,2) st] True show ?thesis by simp
  next
    case False
    with client_step_ok [OF Cons.prems(1,2) st] show ?thesis by simp
  qed
  moreover have "deletes_answered ops sched (if lost then C else C(i := c), s1)"
    "run_clients ops sched (if lost then C else C(i := c), s1) = (C', s')"
    using Cons.prems(3,4) st by (simp_all add: x split: if_splits)
  ultimately show ?case by (rule Cons.IH [OF ok1])
qed simp

lemma granted_exclusive:
  assumes "ok s" and "deletes_answered ops sched (\<lambda>i. Creating (req i) [], s)"
    and "run_clients ops sched (\<lambda>i. Creating (req i) [], s) = (C, s')" and "C i = Granted ki"
  shows "(k, d) \<in> set (req i) \<Longrightarrow> ek_get ops k s' = Some d"
    and "C j = Granted kj \<Longrightarrow> i \<noteq> j \<Longrightarrow> fst ` set (req i) \<inter> fst ` set (req j) = {}"
proof -
  have "clients_ok ops req (\<lambda>i. Creating (req i) []) s" by (simp add: clients_ok_def holds_own_def)
  then have ok: "clients_ok ops req C s'" using run_clients_ok [OF assms(1) _ assms(2,3)] by blast
  have keys: "map fst (req i) = ki" "distinct ki" "list_all (\<lambda>k. \<exists>d. (k, d) \<in> set (req i) \<and> ek_get ops k s' = Some d) ki"
    using ok assms(4) by (auto simp: clients_ok_def holds_own_def dest: spec [of _ i])
  assume "(k, d) \<in> set (req i)"
  then have "k \<in> set ki" using keys(1) by force
  then obtain d' where d': "(k, d') \<in> set (req i)" "ek_get ops k s' = Some d'" using keys(3) by (auto simp: list_all_iff)
  have "distinct (map fst (req i))" using keys(1,2) by simp
  then have "d' = d" using d'(1) \<open>(k, d) \<in> set (req i)\<close> by (metis map_of_eq_Some_iff option.inject)
  then show "ek_get ops k s' = Some d" using d'(2) by simp
next
  have "clients_ok ops req (\<lambda>i. Creating (req i) []) s" by (simp add: clients_ok_def holds_own_def)
  then have ok: "clients_ok ops req C s'" using run_clients_ok [OF assms(1) _ assms(2,3)] by blast
  assume "C j = Granted kj" "i \<noteq> j"
  then have "map fst (req i) = ki" "map fst (req j) = kj" "set ki \<inter> set kj = {}"
    using ok assms(4) unfolding clients_ok_def holds_own_def by (metis client_keys.simps(3) client_of.simps(2))+
  then show "fst ` set (req i) \<inter> fst ` set (req j) = {}" by (metis list.set_map)
qed

end

text \<open>
  (C36) GPU leases exclude each other however the calls of the controllers interleave. Any number of controllers ask for any slots at the same
  time, each call to etcd being a step of its own and the calls in any order, and calls that create may lose their answer and be repeated:
  a request that has been granted holds the lease documents of all its
  slots under its own lease id, and two granted requests share no slot. With a repeated deletion it does not hold (\<open>etcd_retried_delete_frees_lease\<close>).
\<close>

theorem etcd_gpu_leases_exclusive:
  assumes "etcd_kv ops ok" and "ok s"
    and "deletes_answered ops sched (\<lambda>i. Creating (gpu_docs pre (now i) (lease i) (cell i) (slots i) (ttl i)) [], s)"
    and "run_clients ops sched (\<lambda>i. Creating (gpu_docs pre (now i) (lease i) (cell i) (slots i) (ttl i)) [], s) = (C, s')"
    and "C i = Granted ki" and "x \<in> set (slots i)"
  shows "(\<exists>r. ek_get ops (gpu_lease_key pre x) s' = Some (GpuDoc r) \<and> ls_key r = x \<and> ls_lease_id r = lease i) \<and>
    (C j = Granted kj \<longrightarrow> i \<noteq> j \<longrightarrow> x \<notin> set (slots j))"
proof -
  let ?req = "\<lambda>i. gpu_docs pre (now i) (lease i) (cell i) (slots i) (ttl i)"
  note ex = etcd_kv.granted_exclusive [where req = ?req, OF assms(1-5)]
  have mem: "x \<in> set (slots l) \<Longrightarrow> (gpu_lease_key pre x, GpuDoc (lease_row (now l) (lease l) (cell l) (ttl l) x)) \<in> set (?req l)" for l
    by (simp add: gpu_docs_def)
  have "ek_get ops (gpu_lease_key pre x) s' = Some (GpuDoc (lease_row (now i) (lease i) (cell i) (ttl i) x))"
    by (rule ex(1) [OF mem [OF assms(6)]])
  moreover have "x \<notin> set (slots j)" if "C j = Granted kj" "i \<noteq> j"
    using ex(2) [OF that] mem [OF assms(6)] mem [of j] by (metis IntI empty_iff fst_conv image_eqI)
  ultimately show ?thesis by (simp add: lease_row_def)
qed

text \<open>Requests that overlap, with their calls interleaved.\<close>

definition demo_slots :: "nat \<Rightarrow> (string \<times> int) list" where
  "demo_slots i = (if i = 0 then [(''n'', 0), (''n'', 1)] else if i = 1 then [(''n'', 1), (''m'', 0)] else [(''n'', 0)])"

definition demo_lease :: "nat \<Rightarrow> string" where
  "demo_lease i = CHR ''l'' # show_nat i"

definition demo_asking :: "(nat \<Rightarrow> site_doc client) \<times> (string \<times> site_doc) list" where
  "demo_asking = (\<lambda>i. Creating (gpu_docs ''k'' 5 (demo_lease i) ''c'' (demo_slots i) 60) [], [])"

text \<open>The answer to the first call of client 0 is lost, and the repeated call finds the key it has made itself.\<close>

definition demo_clients :: "(nat \<Rightarrow> site_doc client) \<times> (string \<times> site_doc) list" where
  "demo_clients = run_clients ref_kv [(0, True), (1, False), (0, False), (1, False), (1, False), (0, False)] demo_asking"

definition demo_outcome :: "(nat \<Rightarrow> site_doc client) \<times> 's \<Rightarrow> bool" where
  "demo_outcome x \<longleftrightarrow> fst x 0 = Refused \<and> fst x 1 = Granted (client_keys (fst x 1))"

lemma demo_outcome_holds: "demo_outcome demo_clients" by code_simp

theorem etcd_gpu_leases_exclusive_witness:
  "fst demo_clients 0 = Refused \<and> (\<exists>r. ek_get ref_kv (gpu_lease_key ''k'' (''n'', 1)) (snd demo_clients) = Some (GpuDoc r) \<and> ls_lease_id r = ''l1'')"
proof -
  have run: "run_clients ref_kv [(0, True), (1, False), (0, False), (1, False), (1, False), (0, False)]
      (\<lambda>i. Creating (gpu_docs ''k'' 5 (demo_lease i) ''c'' (demo_slots i) 60) [], []) = (fst demo_clients, snd demo_clients)"
    by (simp add: demo_clients_def demo_asking_def)
  have "deletes_answered ref_kv [(0, True), (1, False), (0, False), (1, False), (1, False), (0, False)] demo_asking" by code_simp
  note answered = this [unfolded demo_asking_def]
  have "ref_ok ([] :: (string \<times> site_doc) list)" by (simp add: ref_ok_def)
  moreover have "fst demo_clients 0 = Refused" "fst demo_clients 1 = Granted (client_keys (fst demo_clients 1))"
    using demo_outcome_holds unfolding demo_outcome_def by blast+
  moreover have "(''n'', 1) \<in> set (demo_slots 1)" by (simp add: demo_slots_def)
  moreover have "demo_lease 1 = ''l1''" by code_simp
  ultimately show ?thesis
    using etcd_gpu_leases_exclusive [OF ref.etcd_kv_axioms _ answered run, of 1 "client_keys (fst demo_clients 1)" "(''n'', 1)" 0 "[]"] by auto
qed

text \<open>
  The key whose answer was lost stays: client 0 has been refused and takes back only what it knows to have created, so the GPU it did get is
  leased to nobody who knows of it.
\<close>

theorem etcd_retried_create_leaks_lease:
  "demo_outcome demo_clients \<and> ek_get ref_kv (gpu_lease_key ''k'' (''n'', 0)) (snd demo_clients) \<noteq> None"
  by code_simp

text \<open>
  A deletion whose answer is lost is repeated without a look at what the key holds by then: client 0, refused, takes back a GPU, client 2 leases it,
  the repeated deletion removes the lease of client 2, and client 3 is granted the same GPU.
\<close>

definition retried_delete :: "(nat \<Rightarrow> site_doc client) \<times> (string \<times> site_doc) list" where
  "retried_delete = run_clients ref_kv [(1, False), (0, False), (0, False), (0, True), (2, False), (2, False), (0, False), (3, False), (3, False)] demo_asking"

theorem etcd_retried_delete_frees_lease:
  "demo_slots 2 = demo_slots 3 \<and> fst retried_delete 2 = Granted (client_keys (fst retried_delete 2)) \<and>
   fst retried_delete 3 = Granted (client_keys (fst retried_delete 3)) \<and> client_keys (fst retried_delete 2) = [gpu_lease_key ''k'' (''n'', 0)]"
  by code_simp

text \<open>
  Two sites get the same port. Assigning a core-proxy port reads the ports in use and then writes, and etcd has no unique index: when two
  controllers read before either has written, both sites are given the same first free port.
\<close>

theorem etcd_interleaved_ports_collide:
  assumes "etcd_kv ops ok" and "ok s" and "key_part a" and "key_part b" and "a \<noteq> b"
    and "etcd_port_read ops pre a s = (ea, used)" and "etcd_port_read ops pre b s = (eb, used')"
    and "etcd_port_write ops pre t a lo hi mode ea used s = (Inr p, s1)" and "etcd_port_write ops pre t' b lo hi mode eb used' s1 = (res, s2)"
  shows "res = Inr p \<and> map_option si_core_proxy_port (site_at ops pre a s2) = Some (Some p) \<and>
    map_option si_core_proxy_port (site_at ops pre b s2) = Some (Some p)"
proof -
  have used: "used' = used" using assms(6,7) by (simp add: etcd_port_read_def)
  have f: "find (\<lambda>p. p \<notin> set used) [lo..hi] = Some p" using assms(8) by (auto simp: etcd_port_write_def split: option.splits)
  have keys: "site_key pre a \<noteq> site_key pre b"
    using assms(3-5) by (simp add: site_key_def etcd_key_def key_part_def join_slash_Cons strip_slash_def)
  show ?thesis
    using assms(8,9) assms(1,2) keys by (auto simp: etcd_port_write_def used f site_at_def etcd_kv.get_put etcd_kv.ok_put)
qed

theorem etcd_interleaved_ports_collide_witness:
  "let (ea, used) = etcd_port_read ref_kv ''k'' ''a'' []; (eb, used') = etcd_port_read ref_kv ''k'' ''b'' [];
       s1 = snd (etcd_port_write ref_kv ''k'' 1 ''a'' 18080 18999 ''core-proxy'' ea used [])
   in fst (etcd_port_write ref_kv ''k'' 2 ''b'' 18080 18999 ''core-proxy'' eb used' s1) = Inr 18080"
proof -
  let ?a = "etcd_port_read ref_kv ''k'' ''a'' []" and ?b = "etcd_port_read ref_kv ''k'' ''b'' []"
  let ?w = "etcd_port_write ref_kv ''k'' 1 ''a'' 18080 18999 ''core-proxy'' (fst ?a) (snd ?a) []"
  have ok: "ref_ok ([] :: (string \<times> site_doc) list)" "key_part ''a''" "key_part ''b''" "''a'' \<noteq> ''b''"
    by (simp_all add: ref_ok_def key_part_def strip_slash_def)
  have "snd ?a = []" by code_simp
  then have "fst ?w = Inr 18080" by (simp add: etcd_port_write_def upto.simps)
  then have "?w = (Inr 18080, snd ?w)" by (metis prod.collapse)
  from etcd_interleaved_ports_collide [OF ref.etcd_kv_axioms ok prod.collapse [symmetric] prod.collapse [symmetric] this prod.collapse [symmetric], of 2]
  show ?thesis by (simp add: Let_def case_prod_beta)
qed

end
