(* ===== verification/Etcd_Versions.thy ===== *)
theory Etcd_Versions
  imports Etcd_Kv
begin

text \<open>
  The calls of the etcd key-value interface that the registry, the events and the app status of the etcd state store use beyond those of
  \<open>Etcd_Kv\<close>: modification revisions, transactions conditional on them, range deletion and ranges in either order with a limit
  (\<^verbatim>\<open>EtcdHttpClient\<close> in \<^verbatim>\<open>ae/controller/etcd_state.py\<close>). Their documented behaviour is the locale \<open>versioned_kv\<close>; \<open>vref_ops\<close> is a
  reference server.
\<close>

text \<open>The two conditions the store writes: the key was never created (or deleted since), and the revision of its last change.\<close>

datatype kv_compare = CreateIsZero | ModIs int

fun compare_holds :: "kv_compare \<Rightarrow> int \<Rightarrow> bool" where
  "compare_holds CreateIsZero n = (n = 0)"
| "compare_holds (ModIs e) n = (n = e)"

record ('s, 'v) StoreOps =
  so_kv :: "('s, 'v) KvOps"
  so_rev :: "string \<Rightarrow> 's \<Rightarrow> int"
  so_put_if :: "kv_compare \<Rightarrow> string \<Rightarrow> 'v \<Rightarrow> 's \<Rightarrow> bool \<times> 's"
  so_delete_if :: "kv_compare \<Rightarrow> string \<Rightarrow> 's \<Rightarrow> bool \<times> 's"
  so_delete_range :: "nat list \<Rightarrow> nat list \<Rightarrow> 's \<Rightarrow> 's"
  so_page :: "bool \<Rightarrow> nat \<Rightarrow> nat list \<Rightarrow> nat list \<Rightarrow> 's \<Rightarrow> (string \<times> 'v) list"

abbreviation so_get :: "('s, 'v) StoreOps \<Rightarrow> string \<Rightarrow> 's \<Rightarrow> 'v option" where
  "so_get ops \<equiv> ek_get (so_kv ops)"

abbreviation so_put :: "('s, 'v) StoreOps \<Rightarrow> string \<Rightarrow> 'v \<Rightarrow> 's \<Rightarrow> 's" where
  "so_put ops \<equiv> ek_put (so_kv ops)"

abbreviation so_delete :: "('s, 'v) StoreOps \<Rightarrow> string \<Rightarrow> 's \<Rightarrow> 's" where
  "so_delete ops \<equiv> ek_delete (so_kv ops)"

definition delete_prefix :: "('s, 'v) StoreOps \<Rightarrow> string \<Rightarrow> 's \<Rightarrow> 's" where
  "delete_prefix ops p s = so_delete_range ops (bytes p) (prefix_end (bytes p)) s"

text \<open>\<^verbatim>\<open>_get_json\<close>: the document and the revision of its last change, 0 without one.\<close>

definition get_json :: "('s, 'v) StoreOps \<Rightarrow> string \<Rightarrow> 's \<Rightarrow> 'v option \<times> int" where
  "get_json ops k s = (so_get ops k s, so_rev ops k s)"

section \<open>What the server promises\<close>

text \<open>
  Every write gives its key a revision above all earlier ones; a key without a value has revision 0; the revisions are never given
  again, whatever is deleted. A transaction is one step.
\<close>

locale versioned_kv = etcd_kv "so_kv ops" ok for ops :: "('s, 'v) StoreOps" and ok :: "'s \<Rightarrow> bool" +
  fixes head :: "'s \<Rightarrow> int"
  assumes rev_bounds: "ok s \<Longrightarrow> 0 \<le> so_rev ops k s \<and> so_rev ops k s \<le> head s"
    and rev_none: "ok s \<Longrightarrow> so_rev ops k s = 0 \<longleftrightarrow> so_get ops k s = None"
    and rev_put: "ok s \<Longrightarrow> so_rev ops k (so_put ops k' v s) = (if k = k' then head s + 1 else so_rev ops k s)"
    and head_put: "ok s \<Longrightarrow> head (so_put ops k v s) = head s + 1"
    and rev_delete: "ok s \<Longrightarrow> so_rev ops k (so_delete ops k' s) = (if k = k' then 0 else so_rev ops k s)"
    and head_delete: "ok s \<Longrightarrow> head s \<le> head (so_delete ops k s)"
    and put_if: "ok s \<Longrightarrow> so_put_if ops c k v s = (if compare_holds c (so_rev ops k s) then (True, so_put ops k v s) else (False, s))"
    and delete_if: "ok s \<Longrightarrow> so_delete_if ops c k s = (if compare_holds c (so_rev ops k s) then (True, so_delete ops k s) else (False, s))"
    and ok_delete_range: "ok s \<Longrightarrow> ok (so_delete_range ops a b s)"
    and get_delete_range: "ok s \<Longrightarrow> so_get ops k (so_delete_range ops a b s) = (if a \<le> bytes k \<and> bytes k < b then None else so_get ops k s)"
    and rev_delete_range: "ok s \<Longrightarrow> so_rev ops k (so_delete_range ops a b s) = (if a \<le> bytes k \<and> bytes k < b then 0 else so_rev ops k s)"
    and head_delete_range: "ok s \<Longrightarrow> head s \<le> head (so_delete_range ops a b s)"
    and page: "ok s \<Longrightarrow> so_page ops desc n a b s = take n ((if desc then rev else id) (ek_range (so_kv ops) a b s))"
begin

lemma ok_put_if: "ok s \<Longrightarrow> ok (snd (so_put_if ops c k v s))"
  by (simp add: put_if ok_put)

lemma ok_delete_if: "ok s \<Longrightarrow> ok (snd (so_delete_if ops c k s))"
  by (simp add: delete_if ok_delete)

lemma ok_delete_prefix: "ok s \<Longrightarrow> ok (delete_prefix ops p s)"
  by (simp add: delete_prefix_def ok_delete_range)

lemma get_delete_prefix:
  "ok s \<Longrightarrow> some_ascii p \<Longrightarrow> so_get ops k (delete_prefix ops p s) = (if prefix p k then None else so_get ops k s)"
  using prefix_range [of p k] by (simp add: delete_prefix_def get_delete_range)

lemma head_nonneg: "ok s \<Longrightarrow> 0 \<le> head s"
  using rev_bounds [of s undefined] by simp

end

section \<open>A reference server\<close>

type_synonym 'v vref = "int \<times> (string \<times> 'v \<times> int) list"

definition vref_kv :: "('v vref, 'v) KvOps" where
  "vref_kv = \<lparr>ek_get = (\<lambda>k s. map_option fst (map_of (snd s) k)),
     ek_range = (\<lambda>a b s. map (\<lambda>(k, v, n). (k, v)) (sort_key (bytes \<circ> fst) (filter (\<lambda>(k, x). a \<le> bytes k \<and> bytes k < b) (snd s)))),
     ek_put = (\<lambda>k v s. (fst s + 1, AList.update k (v, fst s + 1) (snd s))),
     ek_delete = (\<lambda>k s. (fst s + 1, AList.delete k (snd s))),
     ek_create = (\<lambda>k v s. case map_of (snd s) k of None \<Rightarrow> (True, fst s + 1, AList.update k (v, fst s + 1) (snd s)) | Some _ \<Rightarrow> (False, s))\<rparr>"

definition vref_rev :: "string \<Rightarrow> 'v vref \<Rightarrow> int" where
  "vref_rev k s = (case map_of (snd s) k of None \<Rightarrow> 0 | Some (v, n) \<Rightarrow> n)"

definition vref_ops :: "('v vref, 'v) StoreOps" where
  "vref_ops = \<lparr>so_kv = vref_kv, so_rev = vref_rev,
     so_put_if = (\<lambda>c k v s. if compare_holds c (vref_rev k s) then (True, ek_put vref_kv k v s) else (False, s)),
     so_delete_if = (\<lambda>c k s. if compare_holds c (vref_rev k s) then (True, ek_delete vref_kv k s) else (False, s)),
     so_delete_range = (\<lambda>a b s. (fst s + 1, filter (\<lambda>(k, x). \<not> (a \<le> bytes k \<and> bytes k < b)) (snd s))),
     so_page = (\<lambda>desc n a b s. take n ((if desc then rev else id) (ek_range vref_kv a b s)))\<rparr>"

definition vref_ok :: "'v vref \<Rightarrow> bool" where
  "vref_ok s \<longleftrightarrow> 0 \<le> fst s \<and> distinct (map fst (snd s)) \<and> (\<forall>(k, v, n) \<in> set (snd s). 0 < n \<and> n \<le> fst s)"

lemma vref_ok_parts:
  assumes "vref_ok s"
  shows "0 \<le> fst s" "distinct (map fst (snd s))" "map_of (snd s) k = Some (v, n) \<Longrightarrow> 0 < n \<and> n \<le> fst s"
  using assms by (auto simp: vref_ok_def dest: map_of_SomeD)

lemma vref_okI:
  "0 \<le> fst s \<Longrightarrow> distinct (map fst (snd s)) \<Longrightarrow> (\<And>k v n. map_of (snd s) k = Some (v, n) \<Longrightarrow> 0 < n \<and> n \<le> fst s) \<Longrightarrow> vref_ok s"
  by (auto simp: vref_ok_def dest!: map_of_is_SomeI [rotated])

lemma map_of_filter_keys: "map_of (filter (\<lambda>(k, x). P k) xs) k = (if P k then map_of xs k else None)"
  by (induction xs) auto

lemma distinct_filter_keys: "distinct (map fst xs) \<Longrightarrow> distinct (map fst (filter P xs))"
  by (rule distinct_map_filter)

lemmas vref_defs = vref_ops_def vref_kv_def vref_rev_def

interpretation vref: versioned_kv vref_ops vref_ok fst
proof unfold_locales
  fix s :: "'v vref" and a b k k' v
  assume ok: "vref_ok s"
  note d = vref_ok_parts(2) [OF ok] and f = vref_ok_parts(1,3) [OF ok]
  show "vref_ok (so_put vref_ops k v s)"
    using f by (intro vref_okI) (fastforce simp: vref_defs distinct_update d update_conv' split: if_splits)+
  show "vref_ok (so_delete vref_ops k s)"
    using f by (intro vref_okI) (force simp: vref_defs distinct_delete d delete_conv' split: if_splits)+
  show "vref_ok (so_delete_range vref_ops a b s)"
    using f by (intro vref_okI) (force simp: vref_defs distinct_filter_keys d map_of_filter_keys split: if_splits)+
  show "sorted (map (bytes \<circ> fst) (ek_range (so_kv vref_ops) a b s)) \<and> distinct (map fst (ek_range (so_kv vref_ops) a b s))"
    using d by (simp add: vref_defs comp_def split_def distinct_map inj_on_def)
  show "set (ek_range (so_kv vref_ops) a b s) = {(k, v). so_get vref_ops k s = Some v \<and> a \<le> bytes k \<and> bytes k < b}"
    using d by (force simp: vref_defs image_iff)
  show "0 \<le> so_rev vref_ops k s \<and> so_rev vref_ops k s \<le> fst s"
    using f by (force simp: vref_defs split: option.splits)
  show "so_rev vref_ops k s = 0 \<longleftrightarrow> so_get vref_ops k s = None"
    using f(2) by (force simp: vref_defs split: option.splits)
  show "so_get vref_ops k (so_delete_range vref_ops a b s) = (if a \<le> bytes k \<and> bytes k < b then None else so_get vref_ops k s)"
    by (simp add: vref_defs map_of_filter_keys)
  show "so_rev vref_ops k (so_delete_range vref_ops a b s) = (if a \<le> bytes k \<and> bytes k < b then 0 else so_rev vref_ops k s)"
    by (simp add: vref_defs map_of_filter_keys)
qed (simp_all add: vref_defs update_conv' delete_conv' split: option.splits)

end
