(* ===== verification/Etcd_Registry.thy ===== *)
theory Etcd_Registry
  imports Etcd_Versions App_State
begin

text \<open>
  The desired-state registry in the etcd state store (\<^verbatim>\<open>ae/controller/etcd_state.py\<close>): registered apps, authority objects,
  revisions and workload metrics, with the manifests and entries of \<open>Registry\<close>. A conditional write is one transaction on the
  revision of its key, between a read before and a read after; the calls of any number of clients may interleave.

  Documents are the dictionaries the methods write, with the times as times; validation and hash of a manifest are arguments.
\<close>

section \<open>Documents and keys\<close>

record RegistryDoc =
  rd_app_name :: string
  rd_spec :: json
  rd_spec_hash :: string
  rd_source :: string
  rd_labels :: dict
  rd_updated_at :: time

record ObjectDoc =
  od_group :: string
  od_version :: string
  od_resource :: string
  od_namespace :: string
  od_name :: string
  od_kind :: string
  od_metadata :: dict
  od_spec :: dict
  od_status :: dict
  od_updated_at :: time

record RevisionDoc =
  rn_revision :: int
  rn_spec_hash :: string
  rn_spec :: json
  rn_image :: string
  rn_status :: string
  rn_created_at :: time

record PodDoc =
  pk_pod_name :: string
  pk_ready :: bool
  pk_live :: bool
  pk_status :: string
  pk_endpoint :: "string option"
  pk_readiness_message :: string
  pk_liveness_message :: string
  pk_exit_code :: "int option"
  pk_finished_at :: "time option"
  pk_updated_at :: time

record PlacementDoc =
  pl_pod_name :: string
  pl_node_id :: string
  pl_updated_at :: time

record ProbeDoc =
  pr_pod_name :: string
  pr_check_time :: time
  pr_ready :: bool
  pr_live :: bool
  pr_readiness_message :: string
  pr_liveness_message :: string

datatype app_doc = DRegistry RegistryDoc | DObject ObjectDoc | DRevision RevisionDoc | DMetrics WorkloadMetricsSnapshot
  | DEvent AppEvent | DStatus AppStatus | DPod PodDoc | DPlacement PlacementDoc | DProbe ProbeDoc | DVolume VolumeAttachment

type_synonym 's app_ops = "('s, app_doc) StoreOps"

fun registry_of :: "app_doc \<Rightarrow> RegistryDoc option" where
  "registry_of (DRegistry d) = Some d"
| "registry_of _ = None"

fun object_of :: "app_doc \<Rightarrow> ObjectDoc option" where
  "object_of (DObject d) = Some d"
| "object_of _ = None"

fun revision_of :: "app_doc \<Rightarrow> RevisionDoc option" where
  "revision_of (DRevision d) = Some d"
| "revision_of _ = None"

fun metrics_of :: "app_doc \<Rightarrow> WorkloadMetricsSnapshot option" where
  "metrics_of (DMetrics d) = Some d"
| "metrics_of _ = None"

text \<open>The rows of a kind under a prefix, with their keys.\<close>

definition docs_under :: "('v \<Rightarrow> 'd option) \<Rightarrow> ('s, 'v) StoreOps \<Rightarrow> string \<Rightarrow> 's \<Rightarrow> (string \<times> 'd) list" where
  "docs_under f ops p s = List.map_filter (\<lambda>(k, d). map_option (Pair k) (f d)) (list_prefix (so_kv ops) p s)"

definition doc_at :: "('v \<Rightarrow> 'd option) \<Rightarrow> ('s, 'v) StoreOps \<Rightarrow> string \<Rightarrow> 's \<Rightarrow> 'd option" where
  "doc_at f ops k s = Option.bind (so_get ops k s) f"

definition registry_key :: "string \<Rightarrow> string \<Rightarrow> string" where
  "registry_key pre app_name = etcd_key pre [''apps'', app_name, ''registry'']"

definition revision_key :: "string \<Rightarrow> string \<Rightarrow> int \<Rightarrow> string" where
  "revision_key pre app_name revision = etcd_key pre [''apps'', app_name, ''revisions'', show_int revision]"

definition authority_ns_key :: "string option \<Rightarrow> string" where
  "authority_ns_key namespace = (case nonempty namespace of None \<Rightarrow> ''_cluster'' | Some n \<Rightarrow> n)"

definition authority_prefix :: "string \<Rightarrow> string \<Rightarrow> string \<Rightarrow> string \<Rightarrow> string" where
  "authority_prefix pre grp version resource =
     etcd_key pre [''apishim'', ''authority'', if grp = [] then ''_core'' else grp, version, resource]"

definition authority_key :: "string \<Rightarrow> string \<Rightarrow> string \<Rightarrow> string \<Rightarrow> string option \<Rightarrow> string \<Rightarrow> string" where
  "authority_key pre grp version resource namespace name =
     etcd_key pre [''apishim'', ''authority'', if grp = [] then ''_core'' else grp, version, resource, authority_ns_key namespace, name]"

definition workload_metrics_key :: "string \<Rightarrow> string \<Rightarrow> string" where
  "workload_metrics_key pre app_name = etcd_key pre [''hpa'', ''workload_metrics'', app_name]"

section \<open>Conditional writes\<close>

text \<open>
  The transaction of a write with or without an expected version, and what is answered after the read that follows it. Version 0 stands for
  no document.
\<close>

definition write_cas :: "('s, 'v) StoreOps \<Rightarrow> string \<Rightarrow> int option \<Rightarrow> 'v \<Rightarrow> 's \<Rightarrow> bool \<times> 's" where
  "write_cas ops k expected d s = (case expected of
     None \<Rightarrow> (True, so_put ops k d s)
   | Some e \<Rightarrow> so_put_if ops (if e = 0 then CreateIsZero else ModIs e) k d s)"

definition after_cas :: "('s, 'v) StoreOps \<Rightarrow> string \<Rightarrow> string \<Rightarrow> int option \<Rightarrow> bool \<Rightarrow> 's \<Rightarrow> int result" where
  "after_cas ops name k expected won s =
     (let rv = snd (get_json ops k s)
      in if won then Inr rv else Inl (RegistryConflictError name (the expected) rv))"

definition put_cas :: "('s, 'v) StoreOps \<Rightarrow> string \<Rightarrow> string \<Rightarrow> int option \<Rightarrow> 'v \<Rightarrow> 's \<Rightarrow> int result \<times> 's" where
  "put_cas ops name k expected d s = (case write_cas ops k expected d s of (won, s1) \<Rightarrow> (after_cas ops name k expected won s1, s1))"

definition delete_cas :: "('s, 'v) StoreOps \<Rightarrow> string \<Rightarrow> string \<Rightarrow> int option \<Rightarrow> 's \<Rightarrow> bool result \<times> 's" where
  "delete_cas ops name k expected s = (case expected of
     None \<Rightarrow> (case fst (get_json ops k s) of None \<Rightarrow> (Inr False, s) | Some _ \<Rightarrow> (Inr True, so_delete ops k s))
   | Some e \<Rightarrow> (case so_delete_if ops (ModIs e) k s of
        (True, s1) \<Rightarrow> (Inr True, s1)
      | (False, s1) \<Rightarrow> (Inl (RegistryConflictError name e (snd (get_json ops k s1))), s1)))"

section \<open>Registered apps\<close>

definition registry_doc ::
  "(AppManifest \<Rightarrow> string) \<Rightarrow> time \<Rightarrow> AppManifest \<Rightarrow> string option \<Rightarrow> dict option \<Rightarrow> RegistryDoc option \<Rightarrow> RegistryDoc" where
  "registry_doc mhash now m source labels existing =
     (let source1 = (case source of Some x \<Rightarrow> Some x | None \<Rightarrow> map_option rd_source existing);
          labels1 = (case labels of Some x \<Rightarrow> Some x | None \<Rightarrow> map_option rd_labels existing)
      in \<lparr>rd_app_name = app_key_for_manifest m, rd_spec = mf_doc m, rd_spec_hash = mhash m,
          rd_source = (case source1 of None \<Rightarrow> [] | Some x \<Rightarrow> x), rd_labels = (case labels1 of None \<Rightarrow> [] | Some x \<Rightarrow> x),
          rd_updated_at = now\<rparr>)"

definition etcd_register_app ::
  "'s app_ops \<Rightarrow> string \<Rightarrow> (AppManifest \<Rightarrow> string) \<Rightarrow> time \<Rightarrow> AppManifest \<Rightarrow> string option \<Rightarrow> dict option \<Rightarrow> int option \<Rightarrow> 's
   \<Rightarrow> int result \<times> 's" where
  "etcd_register_app ops pre mhash now m source labels expected s =
     (let app_name = app_key_for_manifest m; k = registry_key pre app_name; existing = doc_at registry_of ops k s
      in put_cas ops app_name k expected (DRegistry (registry_doc mhash now m source labels existing)) s)"

definition etcd_registry_entry :: "(json \<Rightarrow> AppManifest option) \<Rightarrow> string \<Rightarrow> int \<Rightarrow> RegistryDoc \<Rightarrow> RegistryEntry result" where
  "etcd_registry_entry validate app_name rv d = (case validate (rd_spec d) of
     None \<Rightarrow> Inl (ValueError ''validation'')
   | Some m \<Rightarrow> Inr \<lparr>re_app_name = app_name, re_manifest = m, re_spec_hash = rd_spec_hash d, re_source = rd_source d,
       re_labels = rd_labels d, re_updated_at = rd_updated_at d, re_resource_version = rv\<rparr>)"

definition registry_docs :: "'s app_ops \<Rightarrow> string \<Rightarrow> 's \<Rightarrow> (string \<times> RegistryDoc) list" where
  "registry_docs ops pre s = filter (\<lambda>(k, d). suffix ''/registry'' k) (docs_under registry_of ops (etcd_key pre [''apps'']) s)"

definition etcd_list_registered_apps :: "'s app_ops \<Rightarrow> string \<Rightarrow> (json \<Rightarrow> AppManifest option) \<Rightarrow> 's \<Rightarrow> RegistryEntry list result" where
  "etcd_list_registered_apps ops pre validate s =
     rmap (\<lambda>(k, d). etcd_registry_entry validate (rd_app_name d) (so_rev ops k s) d) (registry_docs ops pre s)"

definition etcd_list_registered_app_names :: "'s app_ops \<Rightarrow> string \<Rightarrow> 's \<Rightarrow> string list" where
  "etcd_list_registered_app_names ops pre s = filter (\<lambda>n. n \<noteq> []) (map (rd_app_name \<circ> snd) (registry_docs ops pre s))"

definition etcd_get_registered_entry :: "'s app_ops \<Rightarrow> string \<Rightarrow> (json \<Rightarrow> AppManifest option) \<Rightarrow> string \<Rightarrow> 's \<Rightarrow> RegistryEntry option result" where
  "etcd_get_registered_entry ops pre validate app_name s =
     (let k = registry_key pre app_name
      in case doc_at registry_of ops k s of
           None \<Rightarrow> Inr None
         | Some d \<Rightarrow> rbind (etcd_registry_entry validate app_name (so_rev ops k s) d) (\<lambda>e. Inr (Some e)))"

definition etcd_get_registered_manifest :: "'s app_ops \<Rightarrow> string \<Rightarrow> (json \<Rightarrow> AppManifest option) \<Rightarrow> string \<Rightarrow> 's \<Rightarrow> AppManifest option result" where
  "etcd_get_registered_manifest ops pre validate app_name s =
     rbind (etcd_get_registered_entry ops pre validate app_name s) (\<lambda>e. Inr (map_option re_manifest e))"

definition etcd_delete_registered_app :: "'s app_ops \<Rightarrow> string \<Rightarrow> string \<Rightarrow> int option \<Rightarrow> 's \<Rightarrow> bool result \<times> 's" where
  "etcd_delete_registered_app ops pre app_name expected s = delete_cas ops app_name (registry_key pre app_name) expected s"

section \<open>Authority objects\<close>

definition object_doc ::
  "time \<Rightarrow> string \<Rightarrow> string \<Rightarrow> string \<Rightarrow> string option \<Rightarrow> string \<Rightarrow> string \<Rightarrow> dict option \<Rightarrow> dict option \<Rightarrow> dict option \<Rightarrow> ObjectDoc" where
  "object_doc now grp version resource namespace name kind metadata spec status =
     \<lparr>od_group = grp, od_version = version, od_resource = resource, od_namespace = (case namespace of None \<Rightarrow> [] | Some n \<Rightarrow> n),
      od_name = name, od_kind = kind, od_metadata = (case metadata of None \<Rightarrow> [] | Some d \<Rightarrow> d),
      od_spec = (case spec of None \<Rightarrow> [] | Some d \<Rightarrow> d), od_status = (case status of None \<Rightarrow> [] | Some d \<Rightarrow> d), od_updated_at = now\<rparr>"

definition etcd_register_authority_object ::
  "'s app_ops \<Rightarrow> string \<Rightarrow> time \<Rightarrow> string \<Rightarrow> string \<Rightarrow> string \<Rightarrow> string option \<Rightarrow> string \<Rightarrow> string \<Rightarrow> dict option \<Rightarrow> dict option \<Rightarrow> dict option
   \<Rightarrow> int option \<Rightarrow> 's \<Rightarrow> int result \<times> 's" where
  "etcd_register_authority_object ops pre now grp version resource namespace name kind metadata spec status expected s =
     put_cas ops (authority_object_conflict_key (obj_key_of grp version resource namespace name))
       (authority_key pre grp version resource namespace name) expected
       (DObject (object_doc now grp version resource namespace name kind metadata spec status)) s"

definition object_entry :: "int \<Rightarrow> ObjectDoc \<Rightarrow> AuthorityObjectEntry" where
  "object_entry rv d = \<lparr>ae_group = od_group d, ae_version = od_version d, ae_resource = od_resource d,
     ae_namespace = nonempty (Some (od_namespace d)), ae_name = od_name d, ae_kind = od_kind d, ae_metadata = od_metadata d,
     ae_spec = od_spec d, ae_status = od_status d, ae_updated_at = od_updated_at d, ae_resource_version = rv\<rparr>"

text \<open>
  With a namespace the prefix of the listing is built by a second call of \<^verbatim>\<open>_k\<close> on the first one's result.
\<close>

definition etcd_list_authority_objects :: "'s app_ops \<Rightarrow> string \<Rightarrow> string \<Rightarrow> string \<Rightarrow> string \<Rightarrow> string option \<Rightarrow> 's \<Rightarrow> AuthorityObjectEntry list" where
  "etcd_list_authority_objects ops pre grp version resource namespace s =
     (let p0 = authority_prefix pre grp version resource;
          p = (case namespace of None \<Rightarrow> p0 | Some _ \<Rightarrow> etcd_key pre [p0, authority_ns_key namespace])
      in sort_key (\<lambda>e. case ae_namespace e of None \<Rightarrow> [] | Some n \<Rightarrow> n) (sort_key ae_name
           (map (\<lambda>(k, d). object_entry (so_rev ops k s) d) (docs_under object_of ops p s))))"

definition etcd_get_authority_object ::
  "'s app_ops \<Rightarrow> string \<Rightarrow> string \<Rightarrow> string \<Rightarrow> string \<Rightarrow> string option \<Rightarrow> string \<Rightarrow> 's \<Rightarrow> AuthorityObjectEntry option" where
  "etcd_get_authority_object ops pre grp version resource namespace name s =
     (let k = authority_key pre grp version resource namespace name
      in map_option (object_entry (so_rev ops k s)) (doc_at object_of ops k s))"

definition etcd_delete_authority_object ::
  "'s app_ops \<Rightarrow> string \<Rightarrow> string \<Rightarrow> string \<Rightarrow> string \<Rightarrow> string option \<Rightarrow> string \<Rightarrow> int option \<Rightarrow> 's \<Rightarrow> bool result \<times> 's" where
  "etcd_delete_authority_object ops pre grp version resource namespace name expected s =
     delete_cas ops (authority_object_conflict_key (obj_key_of grp version resource namespace name))
       (authority_key pre grp version resource namespace name) expected s"

section \<open>Revisions\<close>

definition etcd_list_revisions :: "'s app_ops \<Rightarrow> string \<Rightarrow> string \<Rightarrow> int \<Rightarrow> 's \<Rightarrow> RevisionDoc list" where
  "etcd_list_revisions ops pre app_name limit s =
     py_take limit (sort_key (\<lambda>r. - rn_revision r) (map snd (docs_under revision_of ops (etcd_key pre [''apps'', app_name, ''revisions'']) s)))"

text \<open>\<^verbatim>\<open>max(revs, key=...)\<close> of a list sorted downwards is its first element.\<close>

definition etcd_latest_revision :: "'s app_ops \<Rightarrow> string \<Rightarrow> string \<Rightarrow> 's \<Rightarrow> RevisionDoc option" where
  "etcd_latest_revision ops pre app_name s = (case etcd_list_revisions ops pre app_name 1000000 s of [] \<Rightarrow> None | r # _ \<Rightarrow> Some r)"

definition revision_doc :: "time \<Rightarrow> AppManifest \<Rightarrow> string \<Rightarrow> int \<Rightarrow> RevisionDoc" where
  "revision_doc now m spec_hash revision = \<lparr>rn_revision = revision, rn_spec_hash = spec_hash, rn_spec = mf_doc m,
     rn_image = mf_image m, rn_status = ''pending'', rn_created_at = now\<rparr>"

text \<open>The second half of \<^verbatim>\<open>prepare_revision\<close>, given the latest revision that was read.\<close>

definition etcd_prepare_write ::
  "'s app_ops \<Rightarrow> string \<Rightarrow> time \<Rightarrow> AppManifest \<Rightarrow> string \<Rightarrow> RevisionDoc option \<Rightarrow> 's \<Rightarrow> (int \<times> bool) \<times> 's" where
  "etcd_prepare_write ops pre now m spec_hash latest s =
     (if latest \<noteq> None \<and> rn_spec_hash (the latest) = spec_hash then ((rn_revision (the latest), False), s)
      else let n = (case latest of None \<Rightarrow> 1 | Some r \<Rightarrow> rn_revision r + 1)
        in ((n, True), so_put ops (revision_key pre (app_key_for_manifest m) n) (DRevision (revision_doc now m spec_hash n)) s))"

definition etcd_prepare_revision :: "'s app_ops \<Rightarrow> string \<Rightarrow> time \<Rightarrow> AppManifest \<Rightarrow> string \<Rightarrow> 's \<Rightarrow> (int \<times> bool) \<times> 's" where
  "etcd_prepare_revision ops pre now m spec_hash s =
     etcd_prepare_write ops pre now m spec_hash (etcd_latest_revision ops pre (app_key_for_manifest m) s) s"

definition etcd_get_revision_manifest ::
  "'s app_ops \<Rightarrow> string \<Rightarrow> (json \<Rightarrow> AppManifest option) \<Rightarrow> string \<Rightarrow> int \<Rightarrow> 's \<Rightarrow> AppManifest result" where
  "etcd_get_revision_manifest ops pre validate app_name revision s =
     (case doc_at revision_of ops (revision_key pre app_name revision) s of
        None \<Rightarrow> Inl (ValueError (''No revision '' @ show_int revision @ '' recorded for '' @ app_name))
      | Some r \<Rightarrow> (case validate (rn_spec r) of None \<Rightarrow> Inl (ValueError ''validation'') | Some m \<Rightarrow> Inr m))"

section \<open>Workload metrics\<close>

definition etcd_upsert_workload_metrics_snapshot :: "'s app_ops \<Rightarrow> string \<Rightarrow> WorkloadMetricsSnapshot \<Rightarrow> 's \<Rightarrow> 's" where
  "etcd_upsert_workload_metrics_snapshot ops pre n s = so_put ops (workload_metrics_key pre (ms_app_name n)) (DMetrics n) s"

definition etcd_get_workload_metrics_snapshot :: "'s app_ops \<Rightarrow> string \<Rightarrow> string \<Rightarrow> 's \<Rightarrow> WorkloadMetricsSnapshot option" where
  "etcd_get_workload_metrics_snapshot ops pre app_name s = doc_at metrics_of ops (workload_metrics_key pre app_name) s"

definition etcd_list_workload_metrics_snapshots :: "'s app_ops \<Rightarrow> string \<Rightarrow> 's \<Rightarrow> WorkloadMetricsSnapshot list" where
  "etcd_list_workload_metrics_snapshots ops pre s =
     sort_key ms_app_name (map snd (docs_under metrics_of ops (etcd_key pre [''hpa'', ''workload_metrics'']) s))"

definition etcd_delete_workload_metrics_snapshot :: "'s app_ops \<Rightarrow> string \<Rightarrow> string \<Rightarrow> 's \<Rightarrow> bool \<times> 's" where
  "etcd_delete_workload_metrics_snapshot ops pre app_name s =
     (let k = workload_metrics_key pre app_name
      in case fst (get_json ops k s) of None \<Rightarrow> (False, s) | Some _ \<Rightarrow> (True, so_delete ops k s))"

section \<open>Clients side by side\<close>

text \<open>
  A call of \<^verbatim>\<open>register_app\<close>, \<^verbatim>\<open>register_authority_object\<close> or one of the delete methods as the machine of its calls to the server: what is
  to be written may depend on what was read before. \<open>Wrote\<close> and \<open>Removed\<close> carry the answer.
\<close>

datatype 'v reg_client =
    Reading string string "int option" "'v option \<Rightarrow> 'v"
  | Writing string string "int option" 'v
  | ReadingBack string string "int option" bool
  | Wrote string "int option" "int result"
  | Deleting string string "int option"
  | Removing string
  | Refusing string string int
  | Removed string "int option" "bool result"

fun reg_step :: "('s, 'v) StoreOps \<Rightarrow> 'v reg_client \<Rightarrow> 's \<Rightarrow> 'v reg_client \<times> 's" where
  "reg_step ops (Reading name k expected f) s = (Writing name k expected (f (so_get ops k s)), s)"
| "reg_step ops (Writing name k expected d) s = (case write_cas ops k expected d s of (won, s1) \<Rightarrow> (ReadingBack name k expected won, s1))"
| "reg_step ops (ReadingBack name k expected won) s = (Wrote k expected (after_cas ops name k expected won s), s)"
| "reg_step ops (Wrote k expected r) s = (Wrote k expected r, s)"
| "reg_step ops (Deleting name k None) s =
     (case so_get ops k s of None \<Rightarrow> (Removed k None (Inr False), s) | Some _ \<Rightarrow> (Removing k, s))"
| "reg_step ops (Deleting name k (Some e)) s = (case so_delete_if ops (ModIs e) k s of
     (True, s1) \<Rightarrow> (Removed k (Some e) (Inr True), s1) | (False, s1) \<Rightarrow> (Refusing name k e, s1))"
| "reg_step ops (Removing k) s = (Removed k None (Inr True), so_delete ops k s)"
| "reg_step ops (Refusing name k e) s = (Removed k (Some e) (Inl (RegistryConflictError name e (so_rev ops k s))), s)"
| "reg_step ops (Removed k expected r) s = (Removed k expected r, s)"

text \<open>
  A schedule says which client makes the next call and whether its answer is lost. \<^verbatim>\<open>_post\<close> repeats a request that times out: the server
  has carried it out, the client is where it was and makes the same call again. A client that gives up makes no more calls.
\<close>

fun run_registry :: "('s, 'v) StoreOps \<Rightarrow> (nat \<times> bool) list \<Rightarrow> (nat \<Rightarrow> 'v reg_client) \<times> 's \<Rightarrow> (nat \<Rightarrow> 'v reg_client) \<times> 's" where
  "run_registry ops [] x = x"
| "run_registry ops ((i, lost) # is) x = (case reg_step ops (fst x i) (snd x) of (c, s) \<Rightarrow>
     run_registry ops is (if lost then fst x else (fst x)(i := c), s))"

text \<open>The key and the version on which a conditional call has succeeded, and a client that has called nothing yet.\<close>

fun won_on :: "'v reg_client \<Rightarrow> (string \<times> int) option" where
  "won_on (ReadingBack name k expected won) = (if won then map_option (Pair k) expected else None)"
| "won_on (Wrote k expected r) = (case r of Inl err \<Rightarrow> None | Inr v \<Rightarrow> map_option (Pair k) expected)"
| "won_on (Removed k expected r) = (case r of Inl err \<Rightarrow> None | Inr b \<Rightarrow> map_option (Pair k) expected)"
| "won_on _ = None"

fun fresh_client :: "'v reg_client \<Rightarrow> bool" where
  "fresh_client (Reading name k expected f) = True"
| "fresh_client (Writing name k expected d) = True"
| "fresh_client (Deleting name k expected) = True"
| "fresh_client _ = False"

text \<open>A client left alone does what the method does.\<close>

lemma register_alone:
  "run_registry ops [(i, False), (i, False), (i, False)] (cs(i := Reading (app_key_for_manifest m) (registry_key pre (app_key_for_manifest m)) expected
       (\<lambda>x. DRegistry (registry_doc mhash now m source labels (Option.bind x registry_of)))), s) =
     (cs(i := Wrote (registry_key pre (app_key_for_manifest m)) expected (fst (etcd_register_app ops pre mhash now m source labels expected s))),
      snd (etcd_register_app ops pre mhash now m source labels expected s))"
  by (simp add: etcd_register_app_def put_cas_def doc_at_def Let_def split: prod.split)

lemma delete_alone:
  "run_registry ops [(i, False), (i, False)] (cs(i := Deleting name k expected), s) =
     (cs(i := Removed k expected (fst (delete_cas ops name k expected s))), snd (delete_cas ops name k expected s))"
  by (simp add: delete_cas_def get_json_def split: option.split prod.split bool.split)

text \<open>
  Who has won on a version of a key keeps everybody else from it: the key's revision is another one, and it never comes back.
\<close>

definition winners_alone :: "('s, 'v) StoreOps \<Rightarrow> ('s \<Rightarrow> int) \<Rightarrow> (nat \<Rightarrow> 'v reg_client) \<times> 's \<Rightarrow> bool" where
  "winners_alone ops head x \<longleftrightarrow>
     (\<forall>i k e. won_on (fst x i) = Some (k, e) \<longrightarrow> e \<noteq> 0 \<longrightarrow> e \<le> head (snd x) \<and> so_rev ops k (snd x) \<noteq> e) \<and>
     (\<forall>i j k e. won_on (fst x i) = Some (k, e) \<longrightarrow> won_on (fst x j) = Some (k, e) \<longrightarrow> e \<noteq> 0 \<longrightarrow> i = j)"

context versioned_kv
begin

text \<open>What a call can do to the server: nothing, one write or one deletion; and to win on a version is to find it.\<close>

lemma reg_step_effect:
  assumes "ok s" and "reg_step ops c s = (c', s')"
  shows "ok s' \<and> head s \<le> head s' \<and> (\<forall>k. so_rev ops k s' = so_rev ops k s \<or> so_rev ops k s' = 0 \<or> so_rev ops k s' > head s)"
  using assms
  by (cases "(ops, c, s)" rule: reg_step.cases)
     (auto simp: write_cas_def put_if delete_if ok_put ok_delete head_put head_delete rev_put rev_delete
       split: option.splits if_splits)

lemma reg_step_wins:
  assumes "ok s" and "reg_step ops c s = (c', s')" and "won_on c' = Some (k, e)" and "e \<noteq> 0"
  shows "won_on c = Some (k, e) \<and> s' = s \<or> won_on c = None \<and> so_rev ops k s = e \<and> (so_rev ops k s' = 0 \<or> so_rev ops k s' = head s + 1)"
  using assms
  by (cases "(ops, c, s)" rule: reg_step.cases)
     (auto simp: write_cas_def after_cas_def Let_def put_if delete_if rev_put rev_delete
       split: option.splits if_splits bool.splits)

lemma reg_step_lost:
  assumes ok: "ok s" and inv: "winners_alone ops head (cs, s)" and st: "reg_step ops (cs i) s = (c, s')"
  shows "winners_alone ops head (cs, s')"
proof -
  have "e \<le> head s' \<and> so_rev ops k s' \<noteq> e" if "won_on (cs j) = Some (k, e)" "e \<noteq> 0" for j k e
  proof -
    from that inv have "e \<le> head s" "so_rev ops k s \<noteq> e" by (auto simp: winners_alone_def)
    with reg_step_effect [OF ok st] that(2) show ?thesis by (metis leD order_trans)
  qed
  then show ?thesis using inv unfolding winners_alone_def by simp
qed

lemma reg_step_winners:
  assumes ok: "ok s" and inv: "winners_alone ops head (cs, s)" and st: "reg_step ops (cs i) s = (c, s')"
  shows "winners_alone ops head (cs(i := c), s')"
proof -
  note eff = reg_step_effect [OF ok st]
  have old: "e \<le> head s' \<and> so_rev ops k s' \<noteq> e" if "won_on (cs j) = Some (k, e)" "e \<noteq> 0" for j k e
    using reg_step_lost [OF ok inv st] that by (simp add: winners_alone_def)
  have new: "(e \<le> head s' \<and> so_rev ops k s' \<noteq> e) \<and> (\<forall>j. j \<noteq> i \<longrightarrow> won_on (cs j) \<noteq> Some (k, e))"
    if w: "won_on c = Some (k, e)" "e \<noteq> 0" for k e
    using reg_step_wins [OF ok st w]
  proof
    assume "won_on (cs i) = Some (k, e) \<and> s' = s"
    then have c: "won_on (cs i) = Some (k, e)" ..
    then have "won_on (cs j) \<noteq> Some (k, e)" if "j \<noteq> i" for j
      using inv w(2) that unfolding winners_alone_def fst_conv by blast
    with old [OF c w(2)] show ?thesis by simp
  next
    assume a: "won_on (cs i) = None \<and> so_rev ops k s = e \<and> (so_rev ops k s' = 0 \<or> so_rev ops k s' = head s + 1)"
    then have r: "so_rev ops k s = e" by simp
    have "e \<le> head s" using rev_bounds [OF ok, of k] r by simp
    then have "e \<le> head s'" using eff by simp
    moreover have "so_rev ops k s' \<noteq> e" using a w(2) \<open>e \<le> head s\<close> by auto
    moreover have "won_on (cs j) \<noteq> Some (k, e)" for j using inv r w(2) by (auto simp: winners_alone_def)
    ultimately show ?thesis by simp
  qed
  show ?thesis unfolding winners_alone_def
  proof (intro conjI allI impI)
    fix j k e assume w: "won_on (fst (cs(i := c), s') j) = Some (k, e)" "e \<noteq> 0"
    show "e \<le> head (snd (cs(i := c), s'))" "so_rev ops k (snd (cs(i := c), s')) \<noteq> e"
      using w old [of j k e] new [of k e] by (auto split: if_splits)
  next
    fix j j' k e assume w: "won_on (fst (cs(i := c), s') j) = Some (k, e)" "won_on (fst (cs(i := c), s') j') = Some (k, e)" "e \<noteq> 0"
    show "j = j'"
    proof (cases "j = i \<or> j' = i")
      case True
      then show ?thesis using w new [of k e] by (auto split: if_splits)
    next
      case False
      then show ?thesis using w inv unfolding winners_alone_def by auto
    qed
  qed
qed

lemma run_registry_winners:
  "ok (snd x) \<Longrightarrow> winners_alone ops head x \<Longrightarrow> winners_alone ops head (run_registry ops sched x)"
proof (induction sched arbitrary: x)
  case (Cons y sched)
  obtain i lost where y: "y = (i, lost)" by (cases y)
  obtain c s where st: "reg_step ops (fst x i) (snd x) = (c, s)" by (metis surj_pair)
  have "winners_alone ops head (fst x, snd x)" using Cons.prems(2) by simp
  then have "winners_alone ops head (if lost then fst x else (fst x)(i := c), s)"
    using reg_step_winners [where cs = "fst x" and i = i, OF Cons.prems(1) _ st]
      reg_step_lost [where cs = "fst x" and i = i, OF Cons.prems(1) _ st] by simp
  with reg_step_effect [OF Cons.prems(1) st] st show ?case by (simp add: y Cons.IH)
qed simp

end

section \<open>What the registry keeps\<close>

text \<open>
  (C38) Over any interleaving of the single calls of any number of clients that register, delete and create again, any of which may lose
  its answer and be repeated, at most one
  conditional call succeeds on a version of a key other than 0, also when the key was deleted and created again in between. On the SQL
  store both can (\<open>interleaved_registration_lost\<close>, \<open>recreated_object_accepts_old_version\<close>).
\<close>

theorem etcd_one_winner_per_version:
  fixes ops :: "'s app_ops"
  assumes "versioned_kv ops ok head" and "ok s" and "\<And>i. fresh_client (cs i)"
    and "won_on (fst (run_registry ops sched (cs, s)) i) = Some (k, e)"
    and "won_on (fst (run_registry ops sched (cs, s)) j) = Some (k, e)" and "e \<noteq> 0"
  shows "i = j"
proof -
  have "won_on (cs l) = None" for l using assms(3) [of l] by (cases "cs l") auto
  then have "winners_alone ops head (cs, s)" by (simp add: winners_alone_def)
  from versioned_kv.run_registry_winners [OF assms(1) _ this, of sched] assms(2,4-6) show ?thesis
    unfolding winners_alone_def by (metis snd_conv)
qed

text \<open>A client replaces version 1, a second deletes the document, a third creates it again and a fourth writes on version 1.\<close>

definition race_clients :: "nat \<Rightarrow> app_doc reg_client" where
  "race_clients i = (if i = 0 then Reading ''web'' ''k1s/v1/apps/web/registry'' (Some 1) (\<lambda>x. the x)
     else if i = 1 then Deleting ''web'' ''k1s/v1/apps/web/registry'' None
     else Writing ''web'' ''k1s/v1/apps/web/registry'' (Some (if i = 2 then 0 else 1))
       (DRegistry (registry_doc (\<lambda>m. ''h'') 7 (demo_app ''v2'') None None None)))"

definition race_start :: "app_doc vref" where
  "race_start = (1, [(''k1s/v1/apps/web/registry'', DRegistry (registry_doc (\<lambda>m. ''h'') 5 (demo_app ''v1'') None None None), 1)])"

definition race_end :: "(nat \<Rightarrow> app_doc reg_client) \<times> app_doc vref" where
  "race_end = run_registry vref_ops [(0, False), (0, False), (1, True), (1, False), (1, True), (1, False), (2, False), (2, False),
     (3, True), (3, False), (0, False)] (race_clients, race_start)"

theorem etcd_one_winner_per_version_witness:
  "won_on (fst race_end 0) = Some (''k1s/v1/apps/web/registry'', 1) \<and> won_on (fst race_end 3) = None"
proof -
  have w: "won_on (fst race_end 0) = Some (''k1s/v1/apps/web/registry'', 1)" by code_simp
  have l: "won_on (fst race_end 3) \<in> {None, Some (''k1s/v1/apps/web/registry'', 1)}" by code_simp
  have ok: "vref_ok race_start" and f: "\<And>i. fresh_client (race_clients i)"
    by (simp_all add: vref_ok_def race_start_def race_clients_def)
  have "won_on (fst race_end 3) \<noteq> Some (''k1s/v1/apps/web/registry'', 1)"
    using etcd_one_winner_per_version [where cs = race_clients and i = 0 and j = 3, OF vref.versioned_kv_axioms ok f] w
    unfolding race_end_def by (metis zero_neq_numeral zero_neq_one)
  with w l show ?thesis by simp
qed

text \<open>
  A client whose write succeeds but whose answer is lost repeats it against the version it has made itself, and is told that there is a conflict
  although its document is stored.
\<close>

theorem etcd_lost_answer_conflicts:
  fixes ops :: "'s app_ops"
  assumes "versioned_kv ops ok head" and "ok s" and "e \<noteq> 0" and "so_rev ops k s = e"
  shows "\<exists>s'. run_registry ops [(i, True), (i, False), (i, False)] (cs(i := Writing name k (Some e) d), s) =
      (cs(i := Wrote k (Some e) (Inl (RegistryConflictError name e (so_rev ops k s')))), s') \<and> so_get ops k s' = Some d"
proof -
  define s1 where "s1 = so_put ops k d s"
  have kv: "etcd_kv (so_kv ops) ok" using assms(1) by (rule versioned_kv.axioms)
  have ok1: "ok s1" and g: "so_get ops k s1 = Some d" using kv assms(2) by (simp_all add: s1_def etcd_kv.ok_put etcd_kv.get_put)
  have r: "so_rev ops k s1 = head s + 1" using versioned_kv.rev_put [OF assms(1,2)] by (simp add: s1_def)
  have "e \<le> head s" using versioned_kv.rev_bounds [OF assms(1,2), of k] assms(4) by simp
  then have "so_put_if ops (ModIs e) k d s = (True, s1)" "so_put_if ops (ModIs e) k d s1 = (False, s1)"
    using versioned_kv.put_if [OF assms(1,2)] versioned_kv.put_if [OF assms(1) ok1] assms(3,4) r by (simp_all add: s1_def)
  then show ?thesis using assms(3) g
    by (intro exI [of _ s1]) (simp add: write_cas_def after_cas_def get_json_def)
qed

theorem etcd_lost_answer_conflicts_witness:
  "\<exists>s'. run_registry vref_ops [(3, True), (3, False), (3, False)] (race_clients, race_start) =
      (race_clients(3 := Wrote ''k1s/v1/apps/web/registry'' (Some 1) (Inl (RegistryConflictError ''web'' 1 2))), s')"
proof -
  let ?k = "''k1s/v1/apps/web/registry''"
  define d where "d = DRegistry (registry_doc (\<lambda>m. ''h'') 7 (demo_app ''v2'') None None None)"
  have c: "race_clients(3 := Writing ''web'' ?k (Some 1) d) = race_clients" by (rule ext) (simp add: race_clients_def d_def)
  have "vref_ok race_start" "so_rev vref_ops ?k race_start = 1" by (simp_all add: vref_ok_def race_start_def vref_defs)
  from etcd_lost_answer_conflicts [OF vref.versioned_kv_axioms this(1) _ this(2), of 3 race_clients "''web''" d]
  obtain s' where s': "run_registry vref_ops [(3, True), (3, False), (3, False)] (race_clients, race_start) =
      (race_clients(3 := Wrote ?k (Some 1) (Inl (RegistryConflictError ''web'' 1 (so_rev vref_ops ?k s')))), s')"
    unfolding c by auto
  have "so_rev vref_ops ?k (snd (run_registry vref_ops [(3, True), (3, False), (3, False)] (race_clients, race_start))) = 2" by code_simp
  with s' show ?thesis by auto
qed

text \<open>
  The version that a registration answers is read after its transaction: when another client writes in between, the answer is that
  client's version, and a conditional write on it replaces a document its writer has never seen.
\<close>

theorem etcd_answered_version_not_own:
  fixes ops :: "'s app_ops"
  assumes "versioned_kv ops ok head" and "ok s" and "write_cas ops k eA dA s = (True, s1)" and "write_cas ops k eB dB s1 = (True, s2)"
    and "after_cas ops name k eA True s2 = Inr v"
  shows "so_get ops k s2 = Some dB \<and> v \<noteq> so_rev ops k s1 \<and>
    (\<exists>s3. write_cas ops k (Some v) dA' s2 = (True, s3) \<and> so_get ops k s3 = Some dA')"
proof -
  have put: "ok (so_put ops k d t) \<and> so_get ops k (so_put ops k d t) = Some d \<and> so_rev ops k (so_put ops k d t) = head t + 1"
    if "ok t" for d t
    using that versioned_kv.axioms(1) [OF assms(1)] versioned_kv.rev_put [OF assms(1)]
    by (simp add: etcd_kv.get_put etcd_kv.ok_put)
  have cas: "t' = so_put ops k d t" if "ok t" "write_cas ops k e d t = (True, t')" for e d t t'
    using that versioned_kv.put_if [OF assms(1)] by (auto simp: write_cas_def split: option.splits if_splits)
  have s1: "s1 = so_put ops k dA s" using cas assms(2,3) by blast
  with put assms(2) have ok1: "ok s1" by simp
  have s2: "s2 = so_put ops k dB s1" using cas ok1 assms(4) by blast
  with put [OF ok1] have ok2: "ok s2" and r2: "so_rev ops k s2 = head s1 + 1" by simp_all
  have v: "v = so_rev ops k s2" using assms(5) by (simp add: after_cas_def get_json_def)
  have ne: "v \<noteq> 0" "v \<noteq> so_rev ops k s1"
    using r2 v versioned_kv.rev_bounds [OF assms(1) ok1, of k] by auto
  have "write_cas ops k (Some v) dA' s2 = (True, so_put ops k dA' s2)"
    using versioned_kv.put_if [OF assms(1) ok2] v ne(1) by (simp add: write_cas_def)
  with ne(2) s2 put [OF ok1] put [OF ok2] show ?thesis by simp
qed

definition demo_object :: "time \<Rightarrow> app_doc" where
  "demo_object t = DObject (object_doc t ''batch'' ''v1'' ''cronjobs'' (Some ''team'') ''nightly'' ''CronJob'' None None None)"

theorem etcd_answered_version_not_own_witness:
  "\<exists>s3. write_cas vref_ops ''k'' (Some 2) (demo_object 3) (2, [(''k'', demo_object 2, 2)]) = (True, s3) \<and>
     so_get vref_ops ''k'' s3 = Some (demo_object 3)"
  using etcd_answered_version_not_own [OF vref.versioned_kv_axioms, of "(0, [])" "''k''" None "demo_object 1"
      "(1, [(''k'', demo_object 1, 1)])" None "demo_object 2" "(2, [(''k'', demo_object 2, 2)])" "''n''" 2 "demo_object 3"]
  by (simp add: vref_ok_def write_cas_def after_cas_def get_json_def vref_defs)

section \<open>Listings\<close>

lemma key_tail_append: "key_tail (xs @ ys) = key_tail xs @ key_tail ys"
  by (simp add: key_tail_def)

lemma key_part_apps [simp]: "key_part ''apps''" "key_part ''apishim''" "key_part ''hpa''"
  by (simp_all add: key_part_def strip_slash_def)

lemma strip_slash_append:
  assumes "a \<noteq> []" "hd a \<noteq> CHR ''/''" "last a \<noteq> CHR ''/''"
  shows "\<exists>y. strip_slash (a @ x) = a @ y"
proof -
  have "dropWhile (\<lambda>c. c = CHR ''/'') (a @ x) = a @ x" using assms(1,2) by (cases a) simp_all
  moreover have "dropWhile (\<lambda>c. c = CHR ''/'') (rev a) = rev a" using assms(1,3) by (cases a rule: rev_cases) simp_all
  ultimately show ?thesis by (cases "\<forall>c \<in> set x. c = CHR ''/''") (auto simp: strip_slash_def dropWhile_append)
qed

lemma key_part_show_int [simp]: "key_part (show_int n)"
proof -
  have "CHR ''/'' \<notin> set (show_int n)"
    using show_nat_digits [of "CHR ''/''" "nat n"] show_nat_digits [of "CHR ''/''" "nat (- n)"]
    by (auto simp: show_int_def is_digit_def)
  moreover have "show_int n \<noteq> []" by (simp add: show_int_def)
  moreover have "dropWhile (\<lambda>c. c = CHR ''/'') xs = xs" if "CHR ''/'' \<notin> set xs" for xs :: string
    using that by (cases xs) auto
  ultimately show ?thesis by (simp add: key_part_def strip_slash_def)
qed

lemma apps_prefix_ascii [simp]: "key_part p \<Longrightarrow> p \<noteq> [] \<Longrightarrow> (of_char (hd p) :: nat) < 255 \<Longrightarrow> some_ascii (etcd_key pre (p # ps))"
  by (auto simp: some_ascii_def etcd_key_Cons dest: hd_in_set)

lemma set_map_filter_pairs: "(k, d) \<in> set (List.map_filter (\<lambda>(k, v). map_option (Pair k) (f v)) xs) \<longleftrightarrow> (\<exists>v. f v = Some d \<and> (k, v) \<in> set xs)"
proof (induction xs)
  case (Cons x xs)
  then show ?case by (cases x; cases "f (snd x)") (auto simp: List.map_filter_simps)
qed (simp add: List.map_filter_simps)

lemma docs_under_mem: "(k, d) \<in> set (docs_under f ops p s) \<longleftrightarrow> (\<exists>v. f v = Some d \<and> (k, v) \<in> set (list_prefix (so_kv ops) p s))"
  by (simp add: docs_under_def set_map_filter_pairs)

context versioned_kv
begin

lemma docs_under_set:
  "ok s \<Longrightarrow> some_ascii p \<Longrightarrow> (k, d) \<in> set (docs_under f ops p s) \<longleftrightarrow> prefix p k \<and> doc_at f ops k s = Some d"
  by (auto simp: docs_under_mem list_prefix_set doc_at_def bind_eq_Some_conv)

lemma put_cas_Inr:
  "ok s \<Longrightarrow> put_cas ops name k e d s = (Inr v, s') \<Longrightarrow> s' = so_put ops k d s \<and> v = head s + 1"
  by (auto simp: put_cas_def write_cas_def after_cas_def get_json_def Let_def put_if rev_put split: option.splits if_splits)

end

text \<open>
  Under the default key prefix, an object registered in a namespace is found by name and in the listing of all namespaces, and the
  listing of its own namespace is empty: its prefix contains the store's prefix twice.
\<close>

theorem etcd_namespaced_listing_empty:
  assumes "versioned_kv ops ok head" and "ok s" and "\<And>k d. so_get ops k s = Some d \<Longrightarrow> \<not> prefix ''k1s/v1/k1s/v1/'' k" and "ns \<noteq> []"
    and "etcd_register_authority_object ops ''k1s/v1'' now grp version resource (Some ns) name kind metadata spec status expected s = (Inr rv, s')"
  shows "\<exists>x. ae_namespace x = Some ns \<and> ae_resource_version x = rv \<and>
    etcd_get_authority_object ops ''k1s/v1'' grp version resource (Some ns) name s' = Some x \<and>
    x \<in> set (etcd_list_authority_objects ops ''k1s/v1'' grp version resource None s') \<and>
    etcd_list_authority_objects ops ''k1s/v1'' grp version resource (Some ns) s' = []"
proof -
  define doc where "doc = object_doc now grp version resource (Some ns) name kind metadata spec status"
  define k where "k = authority_key ''k1s/v1'' grp version resource (Some ns) name"
  define p0 where "p0 = authority_prefix ''k1s/v1'' grp version resource"
  define p where "p = etcd_key ''k1s/v1'' [p0, authority_ns_key (Some ns)]"
  from versioned_kv.put_cas_Inr [OF assms(1,2)] assms(5) have s': "s' = so_put ops k (DObject doc) s" and rv: "rv = head s + 1"
    by (auto simp: etcd_register_authority_object_def k_def doc_def)
  have kv: "etcd_kv (so_kv ops) ok" using assms(1) by (rule versioned_kv.axioms)
  have ok': "ok s'" using kv assms(2) by (simp add: s' etcd_kv.ok_put)
  have at: "doc_at object_of ops k s' = Some doc" using kv assms(2) by (simp add: s' doc_at_def etcd_kv.get_put)
  have r: "so_rev ops k s' = rv" using versioned_kv.rev_put [OF assms(1,2)] by (simp add: s' rv)
  obtain y where y: "strip_slash p0 = ''k1s/v1/apishim'' @ y"
    using strip_slash_append [of "''k1s/v1/apishim''"] by (auto simp: p0_def authority_prefix_def etcd_key_Cons key_head_def)
  have p0: "prefix p0 k" "some_ascii p0" "p0 \<noteq> []"
    by (simp_all add: p0_def k_def authority_prefix_def authority_key_def etcd_key_Cons key_tail_Cons some_ascii_def key_head_def)
  have pp: "prefix ''k1s/v1/k1s/v1/'' p" "some_ascii p"
    using y p0(3) by (simp_all add: p_def etcd_key_def some_ascii_def authority_ns_key_def nonempty_def assms(4) split: list.splits)
  have none: "\<not> prefix p k'" if "so_get ops k' s' = Some d" for k' d
  proof
    assume "prefix p k'"
    with pp(1) have dbl: "prefix ''k1s/v1/k1s/v1/'' k'" by (rule prefix_order.trans)
    then have "k' \<noteq> k" by (auto simp: k_def authority_key_def etcd_key_Cons key_head_def)
    with that kv assms(2) have "so_get ops k' s = Some d" by (simp add: s' etcd_kv.get_put)
    with dbl assms(3) show False by blast
  qed
  have "x \<notin> set (docs_under object_of ops p s')" for x
    using versioned_kv.docs_under_set [OF assms(1) ok' pp(2), of "fst x" "snd x" object_of] none [of "fst x"]
    by (cases "so_get ops (fst x) s'") (auto simp: doc_at_def)
  then have "docs_under object_of ops p s' = []" by (metis list.set_intros(1) neq_Nil_conv)
  moreover have "(k, doc) \<in> set (docs_under object_of ops p0 s')"
    using versioned_kv.docs_under_set [OF assms(1) ok' p0(2), of _ _ object_of] p0(1) at by blast
  ultimately have "etcd_list_authority_objects ops ''k1s/v1'' grp version resource (Some ns) s' = []"
    and "object_entry rv doc \<in> set (etcd_list_authority_objects ops ''k1s/v1'' grp version resource None s')"
    using r by (simp_all add: etcd_list_authority_objects_def p_def p0_def rev_image_eqI)
  moreover have "etcd_get_authority_object ops ''k1s/v1'' grp version resource (Some ns) name s' = Some (object_entry rv doc)"
    using at r by (simp add: etcd_get_authority_object_def k_def)
  moreover have "ae_namespace (object_entry rv doc) = Some ns" "ae_resource_version (object_entry rv doc) = rv"
    using assms(4) by (simp_all add: object_entry_def doc_def object_doc_def nonempty_def split: list.splits)
  ultimately show ?thesis by blast
qed

definition object_store :: "int result \<times> app_doc vref" where
  "object_store = etcd_register_authority_object vref_ops ''k1s/v1'' 1 ''batch'' ''v1'' ''cronjobs'' (Some ''team'') ''nightly'' ''CronJob''
     None None None None (0, [])"

theorem etcd_namespaced_listing_empty_witness:
  "\<exists>x. ae_namespace x = Some ''team'' \<and> ae_resource_version x = 1 \<and>
    etcd_get_authority_object vref_ops ''k1s/v1'' ''batch'' ''v1'' ''cronjobs'' (Some ''team'') ''nightly'' (snd object_store) = Some x \<and>
    x \<in> set (etcd_list_authority_objects vref_ops ''k1s/v1'' ''batch'' ''v1'' ''cronjobs'' None (snd object_store)) \<and>
    etcd_list_authority_objects vref_ops ''k1s/v1'' ''batch'' ''v1'' ''cronjobs'' (Some ''team'') (snd object_store) = []"
proof -
  have "object_store = (Inr 1, snd object_store)" by code_simp
  then show ?thesis unfolding object_store_def
    by (intro etcd_namespaced_listing_empty [OF vref.versioned_kv_axioms]) (auto simp: vref_ok_def vref_defs)
qed

section \<open>Revisions\<close>

lemma revision_key_eq: "revision_key pre app n = etcd_key pre [''apps'', app, ''revisions''] @ CHR ''/'' # show_int n"
proof -
  have "show_int n \<noteq> []" "strip_slash (show_int n) = show_int n" using key_part_show_int [of n] unfolding key_part_def by simp_all
  then show ?thesis by (simp add: revision_key_def etcd_key_Cons key_tail_Cons)
qed

lemma revision_key_inj [simp]: "revision_key pre app n = revision_key pre app n' \<longleftrightarrow> n = n'"
  by (simp add: revision_key_eq)

lemma py_take_mem: "x \<in> set (py_take l xs) \<Longrightarrow> x \<in> set xs"
  by (auto simp: py_take_def dest: in_set_takeD split: if_splits)

lemma sort_key_hd:
  fixes f :: "'a \<Rightarrow> int"
  assumes "sort_key f xs = y # ys"
  shows "y \<in> set xs \<and> (\<forall>x \<in> set xs. f y \<le> f x)"
proof -
  have "sorted (map f (y # ys))" and "set xs = set (y # ys)" using assms by (metis sorted_sort_key, metis set_sort)
  then show ?thesis by auto
qed

definition revision_docs :: "'s app_ops \<Rightarrow> string \<Rightarrow> string \<Rightarrow> 's \<Rightarrow> (string \<times> RevisionDoc) list" where
  "revision_docs ops pre app s = docs_under revision_of ops (etcd_key pre [''apps'', app, ''revisions'']) s"

lemma latest_revision_None: "etcd_latest_revision ops pre app s = None \<longleftrightarrow> revision_docs ops pre app s = []"
  by (cases "sort_key (\<lambda>r. - rn_revision r) (map snd (revision_docs ops pre app s))")
     (auto simp: etcd_latest_revision_def etcd_list_revisions_def py_take_def revision_docs_def [symmetric] take_Cons' dest: arg_cong [of _ _ set])

lemma latest_revision_Some:
  assumes "etcd_latest_revision ops pre app s = Some r"
  shows "r \<in> snd ` set (revision_docs ops pre app s) \<and> (\<forall>x \<in> snd ` set (revision_docs ops pre app s). rn_revision x \<le> rn_revision r)"
proof -
  obtain rs where "sort_key (\<lambda>r. - rn_revision r) (map snd (revision_docs ops pre app s)) = r # rs"
    using assms by (cases "sort_key (\<lambda>r. - rn_revision r) (map snd (revision_docs ops pre app s))")
      (auto simp: etcd_latest_revision_def etcd_list_revisions_def py_take_def revision_docs_def [symmetric] take_Cons')
  from sort_key_hd [OF this] show ?thesis by auto
qed

text \<open>
  (C39) A serial \<^verbatim>\<open>prepare_revision\<close> that makes a revision gives it a number above all recorded ones and makes it the latest; the
  manifests of the others stay as they were, and the same hash again gives the same revision and writes nothing.
\<close>

theorem etcd_prepare_revision_next:
  assumes "versioned_kv ops ok head" and "ok s" and "etcd_prepare_revision ops pre now m h s = ((n, True), s')"
  shows "(r \<in> set (etcd_list_revisions ops pre (app_key_for_manifest m) l s) \<longrightarrow> rn_revision r < n) \<and>
    etcd_latest_revision ops pre (app_key_for_manifest m) s' = Some (revision_doc now m h n) \<and>
    etcd_prepare_revision ops pre now' m h s' = ((n, False), s') \<and>
    (j \<noteq> n \<longrightarrow> etcd_get_revision_manifest ops pre validate (app_key_for_manifest m) j s' =
      etcd_get_revision_manifest ops pre validate (app_key_for_manifest m) j s)"
proof -
  define app where "app = app_key_for_manifest m"
  define p where "p = etcd_key pre [''apps'', app, ''revisions'']"
  have kv: "etcd_kv (so_kv ops) ok" using assms(1) by (rule versioned_kv.axioms)
  have s': "s' = so_put ops (revision_key pre app n) (DRevision (revision_doc now m h n)) s"
    and n: "n = (case etcd_latest_revision ops pre app s of None \<Rightarrow> 1 | Some r \<Rightarrow> rn_revision r + 1)"
    using assms(3) by (auto simp: etcd_prepare_revision_def etcd_prepare_write_def app_def Let_def split: if_splits)
  have ok': "ok s'" using kv assms(2) by (simp add: s' etcd_kv.ok_put)
  have p: "some_ascii p" "prefix p (revision_key pre app n)" by (simp_all add: p_def revision_key_eq)
  have below: "rn_revision x < n" if "(k, x) \<in> set (revision_docs ops pre app s)" for k x
    using that n latest_revision_None [of ops pre app s] latest_revision_Some [of ops pre app s]
    by (cases "etcd_latest_revision ops pre app s") force+
  have mem: "(k, x) \<in> set (revision_docs ops pre app s') \<longleftrightarrow> k = revision_key pre app n \<and> x = revision_doc now m h n \<or>
      k \<noteq> revision_key pre app n \<and> (k, x) \<in> set (revision_docs ops pre app s)" for k x
    using versioned_kv.docs_under_set [OF assms(1) assms(2) p(1), of k x revision_of] p(2) kv assms(2)
      versioned_kv.docs_under_set [OF assms(1) ok' p(1), of k x revision_of, unfolded s' doc_at_def]
    by (auto simp: revision_docs_def p_def [symmetric] s' doc_at_def etcd_kv.get_put)
  have newdoc: "(revision_key pre app n, revision_doc now m h n) \<in> set (revision_docs ops pre app s')" using mem by blast
  then obtain r' where r': "etcd_latest_revision ops pre app s' = Some r'"
    using latest_revision_None [of ops pre app s'] by (cases "etcd_latest_revision ops pre app s'") auto
  from latest_revision_Some [OF r'] newdoc have "n \<le> rn_revision r'" and "r' \<in> snd ` set (revision_docs ops pre app s')"
    by (force simp: revision_doc_def)+
  with mem below have latest: "r' = revision_doc now m h n" by force
  have "r \<in> set (etcd_list_revisions ops pre app l s) \<longrightarrow> rn_revision r < n"
    using below by (auto simp: etcd_list_revisions_def revision_docs_def dest!: py_take_mem)
  moreover have "etcd_prepare_revision ops pre now' m h s' = ((n, False), s')"
    using r' latest by (simp add: etcd_prepare_revision_def etcd_prepare_write_def app_def revision_doc_def)
  moreover have "j \<noteq> n \<longrightarrow> etcd_get_revision_manifest ops pre validate app j s' = etcd_get_revision_manifest ops pre validate app j s"
    using kv assms(2) by (simp add: etcd_get_revision_manifest_def doc_at_def s' etcd_kv.get_put)
  ultimately show ?thesis using r' latest by (simp add: app_def)
qed

theorem etcd_prepare_revision_next_witness:
  "\<exists>s'. etcd_prepare_revision vref_ops ''k1s/v1'' 5 (demo_app ''v1'') ''h'' (0, []) = ((1, True), s') \<and>
     etcd_prepare_revision vref_ops ''k1s/v1'' 6 (demo_app ''v1'') ''h'' s' = ((1, False), s')"
proof -
  have e: "etcd_prepare_revision vref_ops ''k1s/v1'' 5 (demo_app ''v1'') ''h'' (0, []) =
      ((1, True), snd (etcd_prepare_revision vref_ops ''k1s/v1'' 5 (demo_app ''v1'') ''h'' (0, [])))"
    by (simp add: etcd_prepare_revision_def etcd_latest_revision_def etcd_list_revisions_def docs_under_def list_prefix_def vref_defs
      List.map_filter_def py_take_def etcd_prepare_write_def Let_def)
  from etcd_prepare_revision_next [OF vref.versioned_kv_axioms _ e, where now' = 6 and r = "revision_doc 0 (demo_app []) [] 0" and l = 0 and j = 0 and validate = "\<lambda>_. None"] e
  show ?thesis by (intro exI [of _ "snd (etcd_prepare_revision vref_ops ''k1s/v1'' 5 (demo_app ''v1'') ''h'' (0, []))"]) (simp add: vref_ok_def)
qed

text \<open>
  Two controllers that read the same latest revision write the same key: both are told that they made the revision, and the manifest
  of the first is gone. The SQL store keeps the first (\<^verbatim>\<open>ON CONFLICT DO NOTHING\<close>).
\<close>

theorem etcd_interleaved_revision_overwritten:
  assumes "versioned_kv ops ok head" and "ok s" and "latest = etcd_latest_revision ops pre (app_key_for_manifest m) s"
    and "app_key_for_manifest m' = app_key_for_manifest m"
    and "etcd_prepare_write ops pre now m h latest s = ((n, True), s1)" and "etcd_prepare_write ops pre now' m' h' latest s1 = ((n', True), s2)"
  shows "n' = n \<and> etcd_get_revision_manifest ops pre validate (app_key_for_manifest m) n s1 =
      (case validate (mf_doc m) of None \<Rightarrow> Inl (ValueError ''validation'') | Some x \<Rightarrow> Inr x) \<and>
    etcd_get_revision_manifest ops pre validate (app_key_for_manifest m) n s2 =
      (case validate (mf_doc m') of None \<Rightarrow> Inl (ValueError ''validation'') | Some x \<Rightarrow> Inr x)"
proof -
  have kv: "etcd_kv (so_kv ops) ok" using assms(1) by (rule versioned_kv.axioms)
  have s1: "s1 = so_put ops (revision_key pre (app_key_for_manifest m) n) (DRevision (revision_doc now m h n)) s"
    and s2: "n' = n" "s2 = so_put ops (revision_key pre (app_key_for_manifest m) n) (DRevision (revision_doc now' m' h' n)) s1"
    using assms(4-6) by (auto simp: etcd_prepare_write_def Let_def split: if_splits)
  then have "ok s1" using kv assms(2) by (simp add: etcd_kv.ok_put)
  with kv assms(2) s1 s2 show ?thesis
    by (simp add: etcd_get_revision_manifest_def doc_at_def etcd_kv.get_put revision_doc_def)
qed

end
