(* ===== verification/Etcd_App_State.thy ===== *)
theory Etcd_App_State
  imports Etcd_Registry
begin

text \<open>
  The status, pods, placements, probe history and volume attachments of an app in the etcd state store
  (\<^verbatim>\<open>ae/controller/etcd_state.py\<close>): \<^verbatim>\<open>record_snapshot\<close> and the methods that read and remove what it writes, with the data of \<open>App_State\<close>.

  A snapshot sees one clock value; the microseconds in the keys of probes are an argument, as are the generated ids and the two times to
  live. A server call that fails is not modelled.
\<close>

section \<open>Keys and rows\<close>

fun status_of :: "app_doc \<Rightarrow> AppStatus option" where
  "status_of (DStatus d) = Some d"
| "status_of _ = None"

fun pod_of :: "app_doc \<Rightarrow> PodDoc option" where
  "pod_of (DPod d) = Some d"
| "pod_of _ = None"

fun placement_of :: "app_doc \<Rightarrow> PlacementDoc option" where
  "placement_of (DPlacement d) = Some d"
| "placement_of _ = None"

fun probe_of :: "app_doc \<Rightarrow> ProbeDoc option" where
  "probe_of (DProbe d) = Some d"
| "probe_of _ = None"

fun volume_of :: "app_doc \<Rightarrow> VolumeAttachment option" where
  "volume_of (DVolume d) = Some d"
| "volume_of _ = None"

definition status_key :: "string \<Rightarrow> string \<Rightarrow> string" where
  "status_key pre app_name = etcd_key pre [''status'', app_name]"

definition pods_prefix :: "string \<Rightarrow> string \<Rightarrow> string" where
  "pods_prefix pre app_name = etcd_key pre [''pods'', app_name]"

definition pod_key :: "string \<Rightarrow> string \<Rightarrow> string \<Rightarrow> string" where
  "pod_key pre app_name pod_name = etcd_key pre [''pods'', app_name, pod_name]"

definition placements_prefix :: "string \<Rightarrow> string \<Rightarrow> string" where
  "placements_prefix pre app_name = etcd_key pre [''pod_nodes'', app_name]"

definition placement_key :: "string \<Rightarrow> string \<Rightarrow> string \<Rightarrow> string" where
  "placement_key pre app_name pod_name = etcd_key pre [''pod_nodes'', app_name, pod_name]"

definition probes_prefix :: "string \<Rightarrow> string \<Rightarrow> string \<Rightarrow> string" where
  "probes_prefix pre app_name pod_name = etcd_key pre [''probes'', app_name, pod_name]"

definition volumes_prefix :: "string \<Rightarrow> string \<Rightarrow> string" where
  "volumes_prefix pre app_name = etcd_key pre [''storage'', ''attachments'', app_name]"

definition volume_key :: "string \<Rightarrow> string \<Rightarrow> string \<Rightarrow> string" where
  "volume_key pre app_name volume_name = etcd_key pre [''storage'', ''attachments'', app_name, volume_name]"

text \<open>\<^verbatim>\<open>key.split("/")[-1]\<close>, and \<^verbatim>\<open>f"{n:020d}"\<close>.\<close>

definition last_part :: "string \<Rightarrow> string" where
  "last_part k = rev (takeWhile (\<lambda>c. c \<noteq> CHR ''/'') (rev k))"

definition pad20 :: "nat \<Rightarrow> string" where
  "pad20 n = replicate (20 - length (show_nat n)) (CHR ''0'') @ show_nat n"

text \<open>The dictionary from pod names to rows that a listing is turned into; of two rows with one name the later stays.\<close>

definition by_pod :: "(string \<times> 'd) list \<Rightarrow> (string \<times> 'd) list" where
  "by_pod rows = fold (\<lambda>(k, d) acc. if last_part k = [] then acc else AList.update (last_part k) d acc) rows []"

section \<open>Recording a snapshot\<close>

definition pod_doc :: "time \<Rightarrow> RuntimeResult \<Rightarrow> PodHealth \<Rightarrow> PodDoc" where
  "pod_doc now res pod =
     (let state = find (\<lambda>p. ps_pod_name p = ph_pod_name pod) (rr_pod_states res)
      in \<lparr>pk_pod_name = ph_pod_name pod, pk_ready = ph_ready pod, pk_live = ph_live pod,
          pk_status = (case state of None \<Rightarrow> ''unknown'' | Some p \<Rightarrow> ps_status p), pk_endpoint = Option.bind state ps_endpoint,
          pk_readiness_message = ph_readiness_message pod, pk_liveness_message = ph_liveness_message pod,
          pk_exit_code = Option.bind state ps_exit_code, pk_finished_at = Option.bind state ps_finished_at, pk_updated_at = now\<rparr>)"

definition write_pods :: "'s app_ops \<Rightarrow> string \<Rightarrow> time \<Rightarrow> string \<Rightarrow> RuntimeResult \<Rightarrow> PodHealth list \<Rightarrow> 's \<Rightarrow> 's" where
  "write_pods ops pre now app_name res pods s =
     fold (\<lambda>pod. so_put ops (pod_key pre app_name (ph_pod_name pod)) (DPod (pod_doc now res pod))) pods s"

text \<open>
  The rows of the listing made before, less the pods of the report, that are older than the time to live.
\<close>

definition expire_rows ::
  "'s app_ops \<Rightarrow> (string \<Rightarrow> string) \<Rightarrow> ('d \<Rightarrow> time) \<Rightarrow> time \<Rightarrow> int \<Rightarrow> string list \<Rightarrow> (string \<times> 'd) list \<Rightarrow> 's \<Rightarrow> 's" where
  "expire_rows ops key updated now ttl current existing s = (if ttl > 0
     then fold (\<lambda>(pod, d). if pod \<in> set current \<or> \<not> updated d < now - ttl * 1000000 then id else so_delete ops (key pod)) existing s
     else s)"

definition placement_doc :: "time \<Rightarrow> string \<Rightarrow> string \<Rightarrow> PlacementDoc" where
  "placement_doc now pod_name node_id = \<lparr>pl_pod_name = pod_name, pl_node_id = node_id, pl_updated_at = now\<rparr>"

definition write_placements :: "'s app_ops \<Rightarrow> string \<Rightarrow> time \<Rightarrow> string \<Rightarrow> PodState list \<Rightarrow> 's \<Rightarrow> 's" where
  "write_placements ops pre now app_name states s =
     fold (\<lambda>p. case nonempty (ps_node_id p) of None \<Rightarrow> id | Some n \<Rightarrow>
       so_put ops (placement_key pre app_name (ps_pod_name p)) (DPlacement (placement_doc now (ps_pod_name p) n))) states s"

text \<open>
  The refresh of the known pods writes back the node that was read before; the pods of the report are a set, and each has its own key.
\<close>

definition refresh_placements :: "'s app_ops \<Rightarrow> string \<Rightarrow> time \<Rightarrow> string \<Rightarrow> string list \<Rightarrow> (string \<times> PlacementDoc) list \<Rightarrow> 's \<Rightarrow> 's" where
  "refresh_placements ops pre now app_name current existing s =
     fold (\<lambda>pod. case map_of existing pod of None \<Rightarrow> id | Some d \<Rightarrow>
       if pl_node_id d = [] then id
       else so_put ops (placement_key pre app_name pod) (DPlacement (placement_doc now pod (pl_node_id d)))) (remdups current) s"

definition etcd_place_pods :: "'s app_ops \<Rightarrow> string \<Rightarrow> time \<Rightarrow> int \<Rightarrow> string \<Rightarrow> RuntimeResult \<Rightarrow> PodHealth list \<Rightarrow> 's \<Rightarrow> 's" where
  "etcd_place_pods ops pre now node_ttl app_name res pods s =
     (let current = filter (\<lambda>n. n \<noteq> []) (map ph_pod_name pods);
          existing = by_pod (docs_under placement_of ops (placements_prefix pre app_name) s)
      in expire_rows ops (placement_key pre app_name) pl_updated_at now node_ttl current existing
           (refresh_placements ops pre now app_name current existing
             (write_placements ops pre now app_name (rr_pod_states res) s)))"

definition probe_doc :: "time \<Rightarrow> PodHealth \<Rightarrow> ProbeDoc" where
  "probe_doc now pod = \<lparr>pr_pod_name = ph_pod_name pod, pr_check_time = now, pr_ready = ph_ready pod, pr_live = ph_live pod,
     pr_readiness_message = ph_readiness_message pod, pr_liveness_message = ph_liveness_message pod\<rparr>"

definition newest_rows :: "(string \<times> 'd) list \<Rightarrow> (string \<times> 'd) list" where
  "newest_rows rows = rev (sort_key (bytes \<circ> fst) rows)"

definition etcd_record_probe :: "'s app_ops \<Rightarrow> string \<Rightarrow> time \<Rightarrow> nat \<Rightarrow> string \<Rightarrow> string \<Rightarrow> PodHealth \<Rightarrow> 's \<Rightarrow> 's" where
  "etcd_record_probe ops pre now us uid app_name pod s =
     (let s1 = so_put ops (etcd_key pre [''probes'', app_name, ph_pod_name pod, pad20 us, uid]) (DProbe (probe_doc now pod)) s;
          rows = newest_rows (list_prefix (so_kv ops) (probes_prefix pre app_name (ph_pod_name pod)) s1)
      in fold (\<lambda>(k, d). so_delete ops k) (drop 50 rows) s1)"

definition etcd_set_revision_status :: "'s app_ops \<Rightarrow> string \<Rightarrow> string \<Rightarrow> string \<Rightarrow> string \<Rightarrow> int \<Rightarrow> 's \<Rightarrow> 's" where
  "etcd_set_revision_status ops pre revision_status img app_name revision s =
     (case doc_at revision_of ops (revision_key pre app_name revision) s of
        None \<Rightarrow> s
      | Some r \<Rightarrow> so_put ops (revision_key pre app_name revision) (DRevision (r\<lparr>rn_status := revision_status, rn_image := img\<rparr>)) s)"

definition etcd_record_snapshot ::
  "'s app_ops \<Rightarrow> string \<Rightarrow> time \<Rightarrow> nat \<Rightarrow> (nat \<Rightarrow> string) \<Rightarrow> int \<Rightarrow> int \<Rightarrow> AppManifest \<Rightarrow> SnapshotSpec \<Rightarrow> RuntimeResult \<Rightarrow> HealthReport \<Rightarrow> int \<Rightarrow>
   string \<Rightarrow> RolloutCounts \<Rightarrow> 's \<Rightarrow> 's" where
  "etcd_record_snapshot ops pre now us uids ttl node_ttl m spec res report revision revision_status counts s =
     (let app_name = app_key_for_manifest m; pods = hr_pods report;
          s1 = so_put ops (status_key pre app_name) (DStatus (status_row m spec res report revision revision_status counts)) s;
          existing = by_pod (docs_under pod_of ops (pods_prefix pre app_name) s1);
          s2 = write_pods ops pre now app_name res pods s1;
          s3 = expire_rows ops (pod_key pre app_name) pk_updated_at now ttl (map ph_pod_name pods) existing s2;
          s4 = etcd_place_pods ops pre now node_ttl app_name res pods s3;
          s5 = fold (\<lambda>(i, pod). etcd_record_probe ops pre now us (uids i) app_name pod) (enumerate 0 pods) s4
      in etcd_set_revision_status ops pre revision_status (mf_image m) app_name revision s5)"

section \<open>Reading and removing\<close>

definition etcd_get_status :: "'s app_ops \<Rightarrow> string \<Rightarrow> string \<Rightarrow> 's \<Rightarrow> AppStatus option" where
  "etcd_get_status ops pre app_name s = doc_at status_of ops (status_key pre app_name) s"

definition etcd_list_status :: "'s app_ops \<Rightarrow> string \<Rightarrow> 's \<Rightarrow> AppStatus list" where
  "etcd_list_status ops pre s = map snd (docs_under status_of ops (etcd_key pre [''status'']) s)"

definition etcd_list_pods :: "'s app_ops \<Rightarrow> string \<Rightarrow> string \<Rightarrow> 's \<Rightarrow> PodDoc list" where
  "etcd_list_pods ops pre app_name s = sort_key pk_pod_name (map snd (docs_under pod_of ops (pods_prefix pre app_name) s))"

definition etcd_list_pod_nodes :: "'s app_ops \<Rightarrow> string \<Rightarrow> string \<Rightarrow> 's \<Rightarrow> (string \<times> string option \<times> PodDoc option) list" where
  "etcd_list_pod_nodes ops pre app_name s =
     (let pods = rev (map (\<lambda>d. (pk_pod_name d, d)) (etcd_list_pods ops pre app_name s));
          nodes = rev (map (\<lambda>(k, d). (last_part k, pl_node_id d)) (docs_under placement_of ops (placements_prefix pre app_name) s))
      in map (\<lambda>n. (n, map_of nodes n, map_of pods n)) (sort (remdups (map fst pods @ map fst nodes))))"

definition etcd_set_pod_nodes :: "'s app_ops \<Rightarrow> string \<Rightarrow> time \<Rightarrow> string \<Rightarrow> (string \<times> string) list \<Rightarrow> 's \<Rightarrow> 's" where
  "etcd_set_pod_nodes ops pre now app_name placements s =
     fold (\<lambda>(pod, n). so_put ops (placement_key pre app_name pod) (DPlacement (placement_doc now pod n))) placements
       (delete_prefix ops (placements_prefix pre app_name) s)"

definition etcd_get_probe_history :: "'s app_ops \<Rightarrow> string \<Rightarrow> string \<Rightarrow> int \<Rightarrow> 's \<Rightarrow> ProbeDoc list" where
  "etcd_get_probe_history ops pre app_name limit s =
     map snd (py_take limit (newest_rows (docs_under probe_of ops (etcd_key pre [''probes'', app_name]) s)))"

definition etcd_upsert_volume_attachment :: "'s app_ops \<Rightarrow> string \<Rightarrow> time \<Rightarrow> string \<Rightarrow> string \<Rightarrow> string \<Rightarrow> string option \<Rightarrow> 's \<Rightarrow> 's" where
  "etcd_upsert_volume_attachment ops pre now app_name volume_name node_id retention s =
     so_put ops (volume_key pre app_name volume_name) (DVolume \<lparr>va_app_name = app_name, va_volume_name = volume_name,
       va_node_id = node_id, va_retention = retention, va_created_at = now\<rparr>) s"

definition etcd_list_volume_attachments :: "'s app_ops \<Rightarrow> string \<Rightarrow> string \<Rightarrow> 's \<Rightarrow> VolumeAttachment list" where
  "etcd_list_volume_attachments ops pre app_name s = map snd (docs_under volume_of ops (volumes_prefix pre app_name) s)"

definition etcd_delete_volume_attachments :: "'s app_ops \<Rightarrow> string \<Rightarrow> string \<Rightarrow> 's \<Rightarrow> 's" where
  "etcd_delete_volume_attachments ops pre app_name s = delete_prefix ops (volumes_prefix pre app_name) s"

definition event_prefix :: "string \<Rightarrow> string \<Rightarrow> string" where
  "event_prefix pre app_name = etcd_key pre [''events'', app_name] @ ''/''"

definition etcd_delete_app_state :: "'s app_ops \<Rightarrow> string \<Rightarrow> string \<Rightarrow> bool \<Rightarrow> 's \<Rightarrow> 's" where
  "etcd_delete_app_state ops pre app_name purge s =
     (let s1 = delete_prefix ops (pods_prefix pre app_name) s;
          s2 = delete_prefix ops (placements_prefix pre app_name) s1;
          s3 = so_delete ops (status_key pre app_name) s2;
          s4 = delete_prefix ops (volumes_prefix pre app_name) s3
      in if purge then delete_prefix ops (etcd_key pre [''apps'', app_name, ''revisions'']) (delete_prefix ops (event_prefix pre app_name) s4)
         else s4)"

section \<open>Frames\<close>

lemma no_slash_key_part: "p \<noteq> [] \<Longrightarrow> CHR ''/'' \<notin> set p \<Longrightarrow> key_part p"
proof -
  have "dropWhile (\<lambda>c. c = CHR ''/'') xs = xs" if "CHR ''/'' \<notin> set xs" for xs :: string
    using that by (cases xs) auto
  then show "p \<noteq> [] \<Longrightarrow> CHR ''/'' \<notin> set p \<Longrightarrow> key_part p" by (simp add: key_part_def strip_slash_def)
qed

lemma key_part_tables [simp]:
  "key_part ''pods''" "key_part ''pod_nodes''" "key_part ''status''" "key_part ''probes''" "key_part ''storage''" "key_part ''events''"
  by (simp_all add: no_slash_key_part)

lemma strip_no_slash [simp]: "CHR ''/'' \<notin> set p \<Longrightarrow> strip_slash p = p"
  using no_slash_key_part [of p] by (cases "p = []") (auto simp: key_part_def strip_slash_def)

lemmas app_keys = pods_prefix_def pod_key_def placements_prefix_def placement_key_def probes_prefix_def volumes_prefix_def volume_key_def
  status_key_def event_prefix_def registry_key_def revision_key_def etcd_key_Cons key_tail_Cons

text \<open>A call that leaves one key alone.\<close>

definition leaves :: "('s, 'v) StoreOps \<Rightarrow> ('s \<Rightarrow> bool) \<Rightarrow> string \<Rightarrow> ('s \<Rightarrow> 's) \<Rightarrow> bool" where
  "leaves ops ok k f \<longleftrightarrow> (\<forall>s. ok s \<longrightarrow> ok (f s) \<and> so_get ops k (f s) = so_get ops k s)"

lemma leavesD: "leaves ops ok k f \<Longrightarrow> ok s \<Longrightarrow> ok (f s) \<and> so_get ops k (f s) = so_get ops k s"
  by (simp add: leaves_def)

lemma leaves_id [simp, intro]: "leaves ops ok k id" "leaves ops ok k (\<lambda>s. s)"
  by (simp_all add: leaves_def)

lemma leaves_fold: "(\<And>x. x \<in> set xs \<Longrightarrow> leaves ops ok k (f x)) \<Longrightarrow> leaves ops ok k (fold f xs)"
  by (induction xs) (auto simp: leaves_def)

context versioned_kv
begin

lemma leaves_put [intro]: "k \<noteq> k' \<Longrightarrow> leaves ops ok k (so_put ops k' v)"
  by (simp add: leaves_def ok_put get_put)

lemma leaves_delete [intro]: "k \<noteq> k' \<Longrightarrow> leaves ops ok k (so_delete ops k')"
  by (simp add: leaves_def ok_delete get_delete)

lemma leaves_delete_prefix [intro]: "some_ascii p \<Longrightarrow> \<not> prefix p k \<Longrightarrow> leaves ops ok k (delete_prefix ops p)"
  by (simp add: leaves_def ok_delete_prefix get_delete_prefix)

end

section \<open>Removing an app\<close>

text \<open>
  Removing the state of an app also removes the pods, the placements and the volume attachments of every app whose name begins with
  its name, since their prefixes end in the app's name; status, revisions and events of those apps, whose keys are named in full or end in
  a separator, stay.
\<close>

theorem etcd_delete_reaches_other_apps:
  assumes "versioned_kv ops ok head" and "ok s" and "app \<noteq> []" and "x \<noteq> []" and "CHR ''/'' \<notin> set (app @ x)"
  shows "so_get ops (pod_key pre (app @ x) pod) (etcd_delete_app_state ops pre app purge s) = None \<and>
    so_get ops (placement_key pre (app @ x) pod) (etcd_delete_app_state ops pre app purge s) = None \<and>
    so_get ops (volume_key pre (app @ x) vol) (etcd_delete_app_state ops pre app purge s) = None \<and>
    so_get ops (status_key pre (app @ x)) (etcd_delete_app_state ops pre app purge s) = so_get ops (status_key pre (app @ x)) s \<and>
    so_get ops (revision_key pre (app @ x) n) (etcd_delete_app_state ops pre app purge s) = so_get ops (revision_key pre (app @ x) n) s \<and>
    so_get ops (event_prefix pre (app @ x) @ y) (etcd_delete_app_state ops pre app purge s) = so_get ops (event_prefix pre (app @ x) @ y) s"
proof -
  have kv: "etcd_kv (so_kv ops) ok" using assms(1) by (rule versioned_kv.axioms)
  have ascii: "some_ascii (pods_prefix pre app)" "some_ascii (placements_prefix pre app)" "some_ascii (volumes_prefix pre app)"
    "some_ascii (event_prefix pre app)" "some_ascii (etcd_key pre [''apps'', app, ''revisions''])"
    by (simp_all add: app_keys some_ascii_def)
  have get: "so_get ops k (etcd_delete_app_state ops pre app purge s) =
      (if prefix (pods_prefix pre app) k \<or> prefix (placements_prefix pre app) k \<or> k = status_key pre app \<or> prefix (volumes_prefix pre app) k \<or>
          purge \<and> (prefix (event_prefix pre app) k \<or> prefix (etcd_key pre [''apps'', app, ''revisions'']) k)
       then None else so_get ops k s)" for k
    by (simp add: etcd_delete_app_state_def Let_def versioned_kv.ok_delete_prefix [OF assms(1)] versioned_kv.get_delete_prefix [OF assms(1)]
      etcd_kv.get_delete [OF kv] etcd_kv.ok_delete [OF kv] ascii assms(2))
  obtain c cs where x: "x = c # cs" "c \<noteq> CHR ''/''" using assms(4,5) by (cases x) auto
  have sl: "CHR ''/'' \<notin> set app" "strip_slash (app @ c # cs) = app @ c # cs" using assms(5) x strip_no_slash [OF assms(5)] by auto
  note keys = app_keys assms(3) sl x not_sym [OF x(2)]
  have "prefix (pods_prefix pre app) (pod_key pre (app @ x) pod)" by (simp add: keys)
  moreover have "prefix (placements_prefix pre app) (placement_key pre (app @ x) pod)" by (simp add: keys)
  moreover have "prefix (volumes_prefix pre app) (volume_key pre (app @ x) vol)" by (simp add: keys)
  ultimately have gone: "so_get ops (pod_key pre (app @ x) pod) (etcd_delete_app_state ops pre app purge s) = None"
    "so_get ops (placement_key pre (app @ x) pod) (etcd_delete_app_state ops pre app purge s) = None"
    "so_get ops (volume_key pre (app @ x) vol) (etcd_delete_app_state ops pre app purge s) = None"
    by (simp_all add: get)
  have stay: "so_get ops k (etcd_delete_app_state ops pre app purge s) = so_get ops k s"
    if "k = status_key pre (app @ x) \<or> k = revision_key pre (app @ x) n \<or> k = event_prefix pre (app @ x) @ y" for k
    using that by (elim disjE) (simp_all add: get, simp_all add: keys)
  show ?thesis using gone stay by simp
qed

definition demo_pod :: "string \<Rightarrow> app_doc" where
  "demo_pod n = DPod (pod_doc 0 \<lparr>rr_created = 0, rr_updated = 0, rr_removed = 0, rr_pod_states = []\<rparr>
     \<lparr>ph_pod_name = n, ph_ready = True, ph_live = True, ph_readiness_message = [], ph_liveness_message = []\<rparr>)"

theorem etcd_delete_reaches_other_apps_witness:
  "so_get vref_ops (pod_key ''k1s/v1'' ''web-api'' ''web-api-0'') (1, [(pod_key ''k1s/v1'' ''web-api'' ''web-api-0'', demo_pod ''web-api-0'', 1)]) =
      Some (demo_pod ''web-api-0'') \<and>
    so_get vref_ops (pod_key ''k1s/v1'' ''web-api'' ''web-api-0'') (etcd_delete_app_state vref_ops ''k1s/v1'' ''web'' False
      (1, [(pod_key ''k1s/v1'' ''web-api'' ''web-api-0'', demo_pod ''web-api-0'', 1)])) = None"
  using etcd_delete_reaches_other_apps [OF vref.versioned_kv_axioms,
      of "(1, [(pod_key ''k1s/v1'' ''web-api'' ''web-api-0'', demo_pod ''web-api-0'', 1)])" "''web''" "''-api''" "''k1s/v1''" "''web-api-0''" False "[]" 0 "[]"]
  by (simp add: vref_ok_def vref_defs)

section \<open>Placements\<close>

lemma by_pod_value:
  assumes "p \<noteq> []" and "\<And>k x. (k, x) \<in> set rows \<Longrightarrow> last_part k = p \<Longrightarrow> x = d" and "(k, d) \<in> set rows" and "last_part k = p"
  shows "map_of (by_pod rows) p = Some d"
proof -
  have "(\<exists>k x. (k, x) \<in> set rs \<and> last_part k = p) \<Longrightarrow> map_of (by_pod rs) p = Some d" if "set rs \<subseteq> set rows" for rs
    using that
  proof (induction rs rule: rev_induct)
    case (snoc r rs)
    obtain k' x' where r: "r = (k', x')" by (cases r)
    show ?case
    proof (cases "last_part k' = p")
      case True
      then have "x' = d" using assms(2) [of k' x'] snoc.prems(2) r by simp
      with True assms(1) show ?thesis by (simp add: r by_pod_def update_conv')
    next
      case False
      then have "map_of (by_pod rs) p = Some d" using snoc r by auto
      with False show ?thesis by (simp add: r by_pod_def update_conv')
    qed
  qed simp
  then show ?thesis using assms(3,4) by blast
qed

lemma placement_of_Some [simp]: "placement_of v = Some x \<longleftrightarrow> v = DPlacement x"
  by (cases v) auto

lemma last_part_no_slash: "CHR ''/'' \<notin> set (last_part k)"
  by (auto simp: last_part_def dest: set_takeWhileD)

lemma by_pod_names: "n \<in> fst ` set (by_pod rows) \<Longrightarrow> n \<noteq> [] \<and> CHR ''/'' \<notin> set n"
proof (induction rows rule: rev_induct)
  case (snoc r rows)
  then show ?case using last_part_no_slash by (cases r) (auto simp: by_pod_def dom_update split: if_splits)
qed (simp add: by_pod_def)

lemma last_part_append: "CHR ''/'' \<notin> set p \<Longrightarrow> last_part (q @ CHR ''/'' # p) = p"
  by (simp add: last_part_def takeWhile_append)

lemma placement_key_last: "p \<noteq> [] \<Longrightarrow> CHR ''/'' \<notin> set p \<Longrightarrow> last_part (placement_key pre app p) = p"
  using last_part_append [of p "key_head pre @ ''pod_nodes'' @ key_tail [app]"] by (simp add: placement_key_def etcd_key_Cons key_tail_Cons)

lemma placement_key_under: "prefix (placements_prefix pre app) (placement_key pre app p)"
  by (simp add: placement_key_def placements_prefix_def etcd_key_Cons key_tail_Cons)

lemma placement_key_inj:
  "p \<noteq> [] \<Longrightarrow> p' \<noteq> [] \<Longrightarrow> CHR ''/'' \<notin> set p \<Longrightarrow> CHR ''/'' \<notin> set p' \<Longrightarrow> placement_key pre app p = placement_key pre app p' \<longleftrightarrow> p = p'"
  using placement_key_last by metis

text \<open>A server that holds the documents of apps.\<close>

locale app_kv = versioned_kv ops ok head for ops :: "'s app_ops" and ok :: "'s \<Rightarrow> bool" and head :: "'s \<Rightarrow> int"
begin

text \<open>What precedes and what follows the placements in a snapshot leaves them alone.\<close>

lemma leaves_expire:
  "(\<And>pod. pod \<in> fst ` set existing \<Longrightarrow> pod \<notin> set current \<Longrightarrow> k \<noteq> key pod) \<Longrightarrow>
     leaves ops ok k (expire_rows ops key updated now ttl current existing)"
proof -
  assume ne: "\<And>pod. pod \<in> fst ` set existing \<Longrightarrow> pod \<notin> set current \<Longrightarrow> k \<noteq> key pod"
  define f where "f = (\<lambda>(pod, d). if pod \<in> set current \<or> \<not> updated d < now - ttl * 1000000 then id else so_delete ops (key pod))"
  have "leaves ops ok k (f x)" if "x \<in> set existing" for x
    using ne [of "fst x"] that by (cases x) (simp add: f_def leaves_delete rev_image_eqI)
  then have "leaves ops ok k (fold f existing)" by (rule leaves_fold)
  moreover have "expire_rows ops key updated now ttl current existing = (if ttl > 0 then fold f existing else id)"
    by (intro ext) (simp add: expire_rows_def f_def)
  ultimately show ?thesis by simp
qed

lemma leaves_probe:
  assumes "\<not> prefix (key_head pre @ ''probes'') k"
  shows "leaves ops ok k (etcd_record_probe ops pre now us uid app pod)"
proof -
  define s1 where "s1 s = so_put ops (etcd_key pre [''probes'', app, ph_pod_name pod, pad20 us, uid]) (DProbe (probe_doc now pod)) s" for s
  define rows where "rows s = newest_rows (list_prefix (so_kv ops) (probes_prefix pre app (ph_pod_name pod)) (s1 s))" for s
  have p: "some_ascii (probes_prefix pre app (ph_pod_name pod))" by (simp add: probes_prefix_def)
  have put: "leaves ops ok k s1" unfolding s1_def using assms by (intro leaves_put) (auto simp: etcd_key_Cons)
  have del: "leaves ops ok k (fold (\<lambda>(k, d). so_delete ops k) (drop 50 (rows s)))" if "ok s" for s
  proof (rule leaves_fold)
    fix x assume "x \<in> set (drop 50 (rows s))"
    then have "x \<in> set (rows s)" by (rule in_set_dropD)
    then have "prefix (probes_prefix pre app (ph_pod_name pod)) (fst x)"
      using list_prefix_set [OF _ p, of "s1 s"] leavesD [OF put that] by (auto simp: rows_def newest_rows_def)
    then have "k \<noteq> fst x" using assms by (auto simp: probes_prefix_def etcd_key_Cons prefix_def)
    then show "leaves ops ok k (case x of (k, d) \<Rightarrow> so_delete ops k)" by (simp add: split_def leaves_delete)
  qed
  show ?thesis unfolding leaves_def
  proof (intro allI impI)
    fix s assume ok: "ok s"
    from leavesD [OF put ok] leavesD [OF del [OF ok], of "s1 s"]
    show "ok (etcd_record_probe ops pre now us uid app pod s) \<and>
        so_get ops k (etcd_record_probe ops pre now us uid app pod s) = so_get ops k s"
      by (simp add: etcd_record_probe_def Let_def s1_def rows_def)
  qed
qed

lemma leaves_write_pods: "\<not> prefix (key_head pre @ ''pods'') k \<Longrightarrow> leaves ops ok k (write_pods ops pre now app res pods)"
  unfolding write_pods_def by (intro leaves_fold leaves_put) (auto simp: pod_key_def etcd_key_Cons)

lemma leaves_revision_status: "k \<noteq> revision_key pre app n \<Longrightarrow> leaves ops ok k (etcd_set_revision_status ops pre st img app n)"
  unfolding leaves_def etcd_set_revision_status_def by (auto simp: ok_put get_put split: option.splits)

end

context app_kv
begin

lemma write_placements_ok: "ok s \<Longrightarrow> ok (write_placements ops pre now app states s)"
  unfolding write_placements_def by (induction states arbitrary: s) (auto simp: ok_put split: option.splits)

lemma refresh_placements_get:
  assumes "ok s" and p: "p \<in> set current" "p \<noteq> []" "CHR ''/'' \<notin> set p" and ex: "map_of existing p = Some d" "pl_node_id d \<noteq> []"
    and cur: "\<And>q. q \<in> set current \<Longrightarrow> q \<noteq> [] \<and> CHR ''/'' \<notin> set q"
  shows "ok (refresh_placements ops pre now app current existing s) \<and>
    so_get ops (placement_key pre app p) (refresh_placements ops pre now app current existing s) =
      Some (DPlacement (placement_doc now p (pl_node_id d)))"
proof -
  define f where "f = (\<lambda>pod. case map_of existing pod of None \<Rightarrow> id | Some d \<Rightarrow>
       if pl_node_id d = [] then id
       else so_put ops (placement_key pre app pod) (DPlacement (placement_doc now pod (pl_node_id d))))"
  have other: "leaves ops ok (placement_key pre app p) (f q)" if "q \<in> set current" "q \<noteq> p" for q
    using that cur [of q] placement_key_inj [of p q] p by (auto simp: f_def intro!: leaves_put split: option.splits)
  have "set qs \<subseteq> set current \<Longrightarrow> distinct qs \<Longrightarrow> p \<in> set qs \<Longrightarrow> ok t \<Longrightarrow>
      ok (fold f qs t) \<and> so_get ops (placement_key pre app p) (fold f qs t) = Some (DPlacement (placement_doc now p (pl_node_id d)))" for qs t
  proof (induction qs arbitrary: t)
    case (Cons q qs)
    show ?case
    proof (cases "q = p")
      case True
      then have "leaves ops ok (placement_key pre app p) (fold f qs)" using Cons.prems by (intro leaves_fold other) auto
      from leavesD [OF this, of "f q t"] True Cons.prems(4) ex show ?thesis by (simp add: f_def ok_put get_put)
    next
      case False
      with Cons leavesD [OF other [of q], of t] show ?thesis by simp
    qed
  qed simp
  from this [of "remdups current" s] assms(1,2) show ?thesis by (simp add: refresh_placements_def f_def)
qed

lemma place_pods_keeps:
  assumes ok: "ok s" and pods: "pod \<in> set pods" "ph_pod_name pod \<noteq> []" and sl: "\<And>q. q \<in> set pods \<Longrightarrow> CHR ''/'' \<notin> set (ph_pod_name q)"
    and d: "so_get ops (placement_key pre app (ph_pod_name pod)) s = Some (DPlacement d)" "pl_node_id d \<noteq> []"
    and uniq: "\<And>k x. prefix (placements_prefix pre app) k \<Longrightarrow> so_get ops k s = Some (DPlacement x) \<Longrightarrow> last_part k = ph_pod_name pod \<Longrightarrow> x = d"
  shows "ok (etcd_place_pods ops pre now ttl app res pods s) \<and>
    so_get ops (placement_key pre app (ph_pod_name pod)) (etcd_place_pods ops pre now ttl app res pods s) =
    Some (DPlacement (placement_doc now (ph_pod_name pod) (pl_node_id d)))"
proof -
  define rows where "rows = docs_under placement_of ops (placements_prefix pre app) s"
  define cur where "cur = filter (\<lambda>n. n \<noteq> []) (map ph_pod_name pods)"
  have asc: "some_ascii (placements_prefix pre app)" by (simp add: placements_prefix_def)
  have row: "(k, x) \<in> set rows \<longleftrightarrow> prefix (placements_prefix pre app) k \<and> so_get ops k s = Some (DPlacement x)" for k x
    using docs_under_set [OF ok asc, of k x placement_of] by (simp add: rows_def doc_at_def bind_eq_Some_conv)
  have ex: "map_of (by_pod rows) (ph_pod_name pod) = Some d"
    using by_pod_value [OF pods(2), of rows d "placement_key pre app (ph_pod_name pod)"] row uniq d(1) placement_key_under
      placement_key_last [OF pods(2) sl [OF pods(1)]] by blast
  have cur: "ph_pod_name pod \<in> set cur" "\<And>q. q \<in> set cur \<Longrightarrow> q \<noteq> [] \<and> CHR ''/'' \<notin> set q" using pods sl by (auto simp: cur_def)
  note ref = refresh_placements_get [OF write_placements_ok [OF ok] cur(1) pods(2) sl [OF pods(1)] ex d(2) cur(2)]
  have "leaves ops ok (placement_key pre app (ph_pod_name pod))
      (expire_rows ops (placement_key pre app) pl_updated_at now ttl cur (by_pod rows))"
  proof (rule leaves_expire)
    fix q assume "q \<in> fst ` set (by_pod rows)" and "q \<notin> set cur"
    with by_pod_names [of q rows] placement_key_inj [of "ph_pod_name pod" q] pods(2) sl [OF pods(1)] cur(1)
    show "placement_key pre app (ph_pod_name pod) \<noteq> placement_key pre app q" by metis
  qed
  from leavesD [OF this] ref show ?thesis by (simp add: etcd_place_pods_def Let_def cur_def [symmetric] rows_def [symmetric])
qed

end

interpretation aref: app_kv vref_ops vref_ok fst
  by unfold_locales

lemma placement_frame:
  assumes "prefix (placements_prefix pre app) k"
  shows "\<not> prefix (key_head pre @ ''pods'') k" "\<not> prefix (key_head pre @ ''probes'') k" "k \<noteq> status_key pre app'" "k \<noteq> pod_key pre app' q"
    "k \<noteq> revision_key pre app' n"
  using assms by (auto simp: placements_prefix_def status_key_def pod_key_def revision_key_def etcd_key_Cons prefix_def)

text \<open>
  (C40) A pod of the report that already has a placement keeps it: the refresh that follows the new placements writes the node back that
  was read before them, so a snapshot never records that the pod is on another node, whatever the runtime says.
\<close>

theorem etcd_snapshot_pins_placement:
  assumes "versioned_kv ops ok head" and ok: "ok s" and pods: "pod \<in> set (hr_pods report)" "ph_pod_name pod \<noteq> []"
    and sl: "\<And>q. q \<in> set (hr_pods report) \<Longrightarrow> CHR ''/'' \<notin> set (ph_pod_name q)"
    and d: "so_get ops (placement_key pre (app_key_for_manifest m) (ph_pod_name pod)) s = Some (DPlacement d)" "pl_node_id d \<noteq> []"
    and uniq: "\<And>k x. prefix (placements_prefix pre (app_key_for_manifest m)) k \<Longrightarrow> so_get ops k s = Some (DPlacement x) \<Longrightarrow>
      last_part k = ph_pod_name pod \<Longrightarrow> x = d"
  shows "so_get ops (placement_key pre (app_key_for_manifest m) (ph_pod_name pod))
      (etcd_record_snapshot ops pre now us uids ttl node_ttl m spec res report revision revision_status counts s) =
    Some (DPlacement (placement_doc now (ph_pod_name pod) (pl_node_id d)))"
proof -
  have kv: "app_kv ops ok head" using assms(1) by (rule app_kv.intro)
  define app where "app = app_key_for_manifest m"
  define s1 where "s1 = so_put ops (status_key pre app) (DStatus (status_row m spec res report revision revision_status counts)) s"
  define s2 where "s2 = write_pods ops pre now app res (hr_pods report) s1"
  define s3 where "s3 = expire_rows ops (pod_key pre app) pk_updated_at now ttl (map ph_pod_name (hr_pods report))
    (by_pod (docs_under pod_of ops (pods_prefix pre app) s1)) s2"
  define s4 where "s4 = etcd_place_pods ops pre now node_ttl app res (hr_pods report) s3"
  have s3: "ok s3 \<and> so_get ops k s3 = so_get ops k s" if "prefix (placements_prefix pre app) k" for k
  proof -
    note fr = placement_frame [OF that]
    from leavesD [OF versioned_kv.leaves_put [OF assms(1) fr(3)] ok] have "ok s1 \<and> so_get ops k s1 = so_get ops k s"
      unfolding s1_def by blast
    with leavesD [OF app_kv.leaves_write_pods [OF kv fr(1)], of s1] have "ok s2 \<and> so_get ops k s2 = so_get ops k s"
      unfolding s2_def by simp
    with leavesD [OF app_kv.leaves_expire [OF kv fr(4)], of s2] show ?thesis unfolding s3_def by simp
  qed
  have ok3: "ok s3" using s3 [OF placement_key_under] by blast
  have s4: "ok s4 \<and> so_get ops (placement_key pre app (ph_pod_name pod)) s4 =
      Some (DPlacement (placement_doc now (ph_pod_name pod) (pl_node_id d)))"
    unfolding s4_def
  proof (rule app_kv.place_pods_keeps [OF kv ok3 pods sl _ d(2)])
    show "so_get ops (placement_key pre app (ph_pod_name pod)) s3 = Some (DPlacement d)"
      using s3 [OF placement_key_under] d(1) by (simp add: app_def)
    show "x = d" if "prefix (placements_prefix pre app) k" "so_get ops k s3 = Some (DPlacement x)" "last_part k = ph_pod_name pod" for k x
      using that s3 uniq by (simp add: app_def)
  qed
  note fr = placement_frame [OF placement_key_under, of pre app "ph_pod_name pod"]
  have "leaves ops ok (placement_key pre app (ph_pod_name pod))
      (fold (\<lambda>(i, pod). etcd_record_probe ops pre now us (uids i) app pod) (enumerate 0 (hr_pods report)))"
    by (rule leaves_fold) (auto intro!: app_kv.leaves_probe [OF kv fr(2)] split: prod.splits)
  from leavesD [OF this, of s4] leavesD [OF app_kv.leaves_revision_status [OF kv fr(5)]] s4
  show ?thesis
    by (simp add: etcd_record_snapshot_def Let_def app_def [symmetric] s1_def [symmetric] s2_def [symmetric] s3_def [symmetric] s4_def [symmetric])
qed

text \<open>The pod ran on node a; the runtime reports it on node b.\<close>

definition moved_pod :: "PodState" where
  "moved_pod = \<lparr>ps_pod_name = ''web-0'', ps_status = ''running'', ps_endpoint = None, ps_exit_code = None, ps_finished_at = None,
     ps_node_id = Some ''b''\<rparr>"

definition moved_report :: HealthReport where
  "moved_report = \<lparr>hr_ready_replicas = 1, hr_live_replicas = 1, hr_pods = [\<lparr>ph_pod_name = ''web-0'', ph_ready = True, ph_live = True,
     ph_readiness_message = [], ph_liveness_message = []\<rparr>]\<rparr>"

definition moved_start :: "app_doc vref" where
  "moved_start = (1, [(placement_key ''k1s/v1'' ''web'' ''web-0'', DPlacement (placement_doc 5 ''web-0'' ''a''), 1)])"

definition moved_end :: "app_doc vref" where
  "moved_end = etcd_record_snapshot vref_ops ''k1s/v1'' 9 9 (\<lambda>i. ''u'') 30 300 (demo_app ''v1'') \<lparr>ss_replicas = 1, ss_ingress = None\<rparr>
     \<lparr>rr_created = 0, rr_updated = 1, rr_removed = 0, rr_pod_states = [moved_pod]\<rparr> moved_report 1 ''ready''
     \<lparr>rc_current_ready = 1, rc_current_live = 1, rc_old_ready = 0, rc_old_live = 0, rc_overlap_ready = 0, rc_overlap_live = 0\<rparr> moved_start"

theorem etcd_snapshot_pins_placement_witness:
  "ps_node_id moved_pod = Some ''b'' \<and>
   so_get vref_ops (placement_key ''k1s/v1'' ''web'' ''web-0'') moved_end = Some (DPlacement (placement_doc 9 ''web-0'' ''a''))"
proof -
  define pod where "pod = hd (hr_pods moved_report)"
  have pod: "pod \<in> set (hr_pods moved_report)" "ph_pod_name pod = ''web-0''" by (simp_all add: pod_def moved_report_def)
  have ok: "vref_ok moved_start" by (simp add: vref_ok_def moved_start_def)
  have "so_get vref_ops (placement_key ''k1s/v1'' (app_key_for_manifest (demo_app ''v1'')) (ph_pod_name pod)) moved_end =
      Some (DPlacement (placement_doc 9 (ph_pod_name pod) (pl_node_id (placement_doc 5 ''web-0'' ''a''))))"
    unfolding moved_end_def
    by (rule etcd_snapshot_pins_placement [OF vref.versioned_kv_axioms ok pod(1)])
       (auto simp: pod(2) moved_report_def moved_start_def vref_defs placement_doc_def split: if_splits)
  then show ?thesis by (simp add: moved_pod_def pod(2) placement_doc_def)
qed

section \<open>Probe history\<close>

lemma append_less_iff: "xs @ ys < xs @ zs \<longleftrightarrow> ys < (zs :: nat list)"
  by (induction xs) simp_all

lemma above_in_take:
  fixes f :: "'a \<Rightarrow> nat list"
  assumes "sorted_wrt (\<lambda>a b. f b < f a) xs" and "x \<in> set (take n xs)" and "Y \<subseteq> {y \<in> set xs. f x < f y}"
  shows "card Y < n"
proof -
  obtain i where i: "i < n" "i < length xs" "x = xs ! i" using assms(2) by (auto simp: in_set_conv_nth)
  have "y \<in> set (take i xs)" if "y \<in> Y" for y
  proof -
    have y: "y \<in> set xs" "f x < f y" using assms(3) that by auto
    then obtain j where j: "j < length xs" "y = xs ! j" by (metis in_set_conv_nth)
    then have "j < i" using sorted_wrt_nth_less [OF assms(1), of i j] i j y(2) by (metis less_asym linorder_neqE_nat)
    then show ?thesis using i j by (auto simp: in_set_conv_nth)
  qed
  then have "card Y \<le> card (set (take i xs))" by (intro card_mono) auto
  also have "\<dots> \<le> i" using card_length [of "take i xs"] by simp
  finally show ?thesis using i by simp
qed

lemma newest_rows_sorted:
  assumes "distinct (map fst rows)"
  shows "sorted_wrt (\<lambda>a b. bytes (fst b) < bytes (fst a)) (newest_rows rows)"
proof -
  have "inj bytes" by (auto simp: inj_def bytes_def intro!: map_injective)
  then have "distinct (map (bytes \<circ> fst) (sort_key (bytes \<circ> fst) rows))"
    using assms by (metis distinct_map distinct_sort inj_on_subset map_map set_sort subset_UNIV)
  then have "sorted_wrt (<) (map (bytes \<circ> fst) (sort_key (bytes \<circ> fst) rows))"
    by (metis sorted_sort_key strict_sorted_iff)
  then show ?thesis by (simp add: newest_rows_def sorted_wrt_rev sorted_wrt_map)
qed

context app_kv
begin

lemma get_fold_delete: "ok s \<Longrightarrow> ok (fold (\<lambda>(k, d). so_delete ops k) rows s) \<and>
    so_get ops k (fold (\<lambda>(k, d). so_delete ops k) rows s) = (if k \<in> fst ` set rows then None else so_get ops k s)"
proof (induction rows arbitrary: s)
  case (Cons r rows)
  from Cons.IH [of "so_delete ops (fst r) s"] Cons.prems show ?case by (simp add: ok_delete get_delete split_def)
qed simp

end

text \<open>
  The fifty newest probes of a pod are kept by counting every key that begins with the pod's name. Those of a pod whose name continues
  it (\<^verbatim>\<open>web-10\<close> for \<^verbatim>\<open>web-1\<close>) sort above and use the count up: with fifty of them, recording a probe of the pod leaves no probe of it at all,
  the new one included.
\<close>

theorem etcd_probe_history_starved:
  assumes "versioned_kv ops ok head" and "ok s" and "50 \<le> card K" and "finite K"
    and K: "\<And>k. k \<in> K \<Longrightarrow> so_get ops k s \<noteq> None \<and>
      (\<exists>c x. k = probes_prefix pre app (ph_pod_name pod) @ c # x \<and> of_char CHR ''/'' < (of_char c :: nat))"
  shows "so_get ops (probes_prefix pre app (ph_pod_name pod) @ CHR ''/'' # y) (etcd_record_probe ops pre now us uid app pod s) = None"
proof (rule ccontr)
  have kv: "app_kv ops ok head" using assms(1) by (rule app_kv.intro)
  have ek: "etcd_kv (so_kv ops) ok" using assms(1) by (rule versioned_kv.axioms)
  define P where "P = probes_prefix pre app (ph_pod_name pod)"
  define s1 where "s1 = so_put ops (etcd_key pre [''probes'', app, ph_pod_name pod, pad20 us, uid]) (DProbe (probe_doc now pod)) s"
  define rows where "rows = list_prefix (so_kv ops) P s1"
  have ok1: "ok s1" using ek assms(2) by (simp add: s1_def etcd_kv.ok_put)
  have asc: "some_ascii P" by (simp add: P_def probes_prefix_def)
  have rows: "(k, v) \<in> set rows \<longleftrightarrow> so_get ops k s1 = Some v \<and> prefix P k" for k v
    using etcd_kv.list_prefix_set [OF ek ok1 asc] by (simp add: rows_def)
  have dist: "distinct (map fst rows)" using etcd_kv.list_prefix_distinct [OF ek ok1] by (simp add: rows_def)
  assume "so_get ops (probes_prefix pre app (ph_pod_name pod) @ CHR ''/'' # y) (etcd_record_probe ops pre now us uid app pod s) \<noteq> None"
  then have kept: "so_get ops (P @ CHR ''/'' # y) (fold (\<lambda>(k, d). so_delete ops k) (drop 50 (newest_rows rows)) s1) \<noteq> None"
    by (simp add: etcd_record_probe_def Let_def s1_def rows_def P_def)
  with app_kv.get_fold_delete [OF kv ok1, of "drop 50 (newest_rows rows)" "P @ CHR ''/'' # y"]
  have "so_get ops (P @ CHR ''/'' # y) s1 \<noteq> None" and out: "P @ CHR ''/'' # y \<notin> fst ` set (drop 50 (newest_rows rows))"
    by (simp_all split: if_splits)
  then obtain v where v: "(P @ CHR ''/'' # y, v) \<in> set rows" using rows by auto
  from out have "(P @ CHR ''/'' # y, v) \<notin> set (drop 50 (newest_rows rows))" by (metis fst_conv image_eqI)
  then have "(P @ CHR ''/'' # y, v) \<in> set (take 50 (newest_rows rows))"
    using v by (metis Un_iff append_take_drop_id newest_rows_def set_append set_rev set_sort)
  moreover have "{r \<in> set rows. fst r \<in> K} \<subseteq> {r \<in> set (newest_rows rows). bytes (fst (P @ CHR ''/'' # y, v)) < bytes (fst r)}"
  proof clarsimp
    fix k v' assume r: "(k, v') \<in> set rows" "k \<in> K"
    from K [OF r(2)] obtain c x where "k = P @ c # x" "of_char CHR ''/'' < (of_char c :: nat)" by (auto simp: P_def)
    then show "(k, v') \<in> set (newest_rows rows) \<and> bytes (P @ CHR ''/'' # y) < bytes k"
      using r(1) by (simp add: newest_rows_def bytes_def append_less_iff)
  qed
  ultimately have "card {r \<in> set rows. fst r \<in> K} < 50"
    using above_in_take [OF newest_rows_sorted [OF dist]] by blast
  moreover have "card {r \<in> set rows. fst r \<in> K} = card K"
  proof -
    have "K \<subseteq> fst ` set rows"
    proof
      fix k assume "k \<in> K"
      from K [OF this] have "prefix P k" "so_get ops k s1 \<noteq> None" using ek assms(2) by (auto simp: P_def s1_def etcd_kv.get_put)
      then show "k \<in> fst ` set rows" using rows by force
    qed
    then have "fst ` {r \<in> set rows. fst r \<in> K} = K" by auto
    moreover have "inj_on fst {r \<in> set rows. fst r \<in> K}" using dist by (auto simp: distinct_map inj_on_def)
    ultimately show ?thesis by (metis card_image)
  qed
  ultimately show False using assms(3) by simp
qed

text \<open>Fifty probes of \<^verbatim>\<open>web-10\<close>, and a first one of \<^verbatim>\<open>web-1\<close>.\<close>

definition sibling_key :: "nat \<Rightarrow> string" where
  "sibling_key i = probes_prefix ''k1s/v1'' ''web'' ''web-1'' @ CHR ''0'' # CHR ''/'' # replicate i (CHR ''x'')"

definition first_probe :: PodHealth where
  "first_probe = \<lparr>ph_pod_name = ''web-1'', ph_ready = True, ph_live = True, ph_readiness_message = [], ph_liveness_message = []\<rparr>"

definition sibling_probes :: "app_doc vref" where
  "sibling_probes = (1, map (\<lambda>i. (sibling_key i, DProbe (probe_doc 5 first_probe), 1)) [0..<50])"

theorem etcd_probe_history_starved_witness:
  "so_get vref_ops (probes_prefix ''k1s/v1'' ''web'' (ph_pod_name first_probe) @ CHR ''/'' # pad20 9 @ ''/u'')
     (etcd_record_probe vref_ops ''k1s/v1'' 9 9 ''u'' ''web'' first_probe sibling_probes) = None"
proof (rule etcd_probe_history_starved [OF vref.versioned_kv_axioms, where K = "sibling_key ` {0..<50}"])
  have inj: "inj_on sibling_key A" for A by (auto simp: inj_on_def sibling_key_def)
  show "vref_ok sibling_probes" by (auto simp: vref_ok_def sibling_probes_def comp_def distinct_map inj)
  show "50 \<le> card (sibling_key ` {0..<50})" by (simp add: card_image inj)
  show "finite (sibling_key ` {0..<50})" by simp
  fix k assume "k \<in> sibling_key ` {0..<50}"
  then obtain i where i: "i < 50" "k = sibling_key i" by auto
  then have "k \<in> fst ` set (snd sibling_probes)" by (simp add: sibling_probes_def image_image)
  then have "so_get vref_ops k sibling_probes \<noteq> None" by (simp add: vref_defs map_of_eq_None_iff)
  then show "so_get vref_ops k sibling_probes \<noteq> None \<and>
      (\<exists>c x. k = probes_prefix ''k1s/v1'' ''web'' (ph_pod_name first_probe) @ c # x \<and> of_char CHR ''/'' < (of_char c :: nat))"
    by (auto simp: i(2) sibling_key_def first_probe_def)
qed

end
