(* ===== verification/Spec2Isabelle.thy ===== *)
theory Spec2Isabelle
  imports Work_Control Gateway Registry Leases Site_Ports Authority Nodes Scheduler Cell_Sets Hub_Ingress Route_Bundles
    Etcd_Leases Etcd_App_State
begin

text \<open>
  A verification development for the control plane of k1s: the controller that keeps the desired state,
  elects a leader and hands out work, and the site gateways that carry the work out at the edge
  (Python, under \<^verbatim>\<open>src/src/ae\<close>).

  \<^bold>\<open>The program.\<close> Several controllers compete for a leader key in etcd; the revision at which the leader's record was
  written is its epoch. Whatever a controller asks of a node agent or a gateway carries an envelope of
  controller id, epoch and operation id, and the receiver keeps a fence that refuses older epochs and
  operations it has already committed. Work goes from the state store through an outbox to a
  JetStream stream, or is pulled from a queue under a visibility timeout; a watchdog reschedules what
  hangs. A gateway fences, dispatches and spools work, and replays results until the hub has them.
  The state store also holds the registry of apps with their revisions, the nodes, services and volumes, the
  leases of inference cells and the ports of sites; the scheduler places the pods of an app on nodes. An inference
  cell is a model served by a pipeline over several nodes and sites: its controller plans the stages, admits them against
  the links between the sites, reserves GPUs and ports, sets up a fabric session, starts workers and a
  leader and waits until it answers, one phase at a time; a set keeps a number of such cells. Routes for the edge are
  stored at the hub; a publisher sends each site the bundle of its routes, policies and endpoints, numbered by revision, until the site's gateway
  has acknowledged it. Each reconcile of an app leaves a snapshot of its pods and probes in the store.

  \<^bold>\<open>The theories\<close>, in the order they build on each other:
  \<^item> \<open>K1s_Prelude\<close>: Python values and conversions, errors as values, SQL tables as lists of rows in
    rowid order, and the locale \<open>keyed_update\<close> for updates that keep the primary key.
  \<^item> \<open>Fencing\<close> (\<^verbatim>\<open>ha/fencing.py\<close>, the wrapper in \<^verbatim>\<open>node/server.py\<close>): envelopes, the fence store, identities and operation
    ids; handlers side by side as the step relation \<open>fence_step\<close>; the contract \<open>mutation_fence\<close>.
  \<^item> \<open>Work_Store\<close> (\<^verbatim>\<open>controller/state.py\<close>): node leases, pull queue, outbox, work ledger.
  \<^item> \<open>Work_Control\<close> (\<^verbatim>\<open>transport/outbox_publisher.py\<close>, \<^verbatim>\<open>controller/work_watchdog.py\<close>): the two loops over those tables.
  \<^item> \<open>Gateway_Spool\<close> (\<^verbatim>\<open>gateway/spool.py\<close>): the durable spool; the contract \<open>result_spool\<close>.
  \<^item> \<open>Gateway\<close> (\<^verbatim>\<open>gateway/service.py\<close>, \<^verbatim>\<open>transport/subjects.py\<close>): the state of \<^verbatim>\<open>SiteGateway\<close>, its handlers and one turn of its
    loop, runs of it as sequences of events.
  \<^item> \<open>Registry\<close> (\<^verbatim>\<open>controller/state.py\<close>, app keys of \<^verbatim>\<open>controller/spec.py\<close>): apps, authority objects, revisions, events, metrics;
    the contract \<open>cas_registry\<close>, interpreted for apps and for objects.
  \<^item> \<open>Leases\<close> (\<^verbatim>\<open>controller/state.py\<close>, \<^verbatim>\<open>InferenceLeaseManager\<close> of \<^verbatim>\<open>controller/inference_cell.py\<close>): GPU, port and node leases; the
    contract \<open>exclusive_leases\<close>, interpreted three times.
  \<^item> \<open>Site_Ports\<close> (\<^verbatim>\<open>controller/state.py\<close>): the core-proxy ports of sites.
  \<^item> \<open>Authority\<close> (\<^verbatim>\<open>controller/authority.py\<close>): leader election; what it relies on of etcd is the locale \<open>etcd_history\<close>,
    interpreted on a reference server.
  \<^item> \<open>Nodes\<close> (\<^verbatim>\<open>controller/state.py\<close>): nodes, heartbeats, services, volume attachments, canary state.
  \<^item> \<open>Scheduler\<close> (\<^verbatim>\<open>controller/scheduler.py\<close>): the placement planner.
  \<^item> \<open>Hub_Ingress\<close> (\<^verbatim>\<open>transport/controller_ingress.py\<close>, \<^verbatim>\<open>controller/node_identity.py\<close>, on \<open>Work_Store\<close>, \<open>Nodes\<close>, \<open>Site_Ports\<close> and \<open>Authority\<close>): the
    leader's end of the site protocol, one definition per handler, and runs of messages.
  \<^item> \<open>App_State\<close> (\<^verbatim>\<open>controller/state.py\<close>, on \<open>Registry\<close> and \<open>Nodes\<close>): the snapshot a reconcile records (app status, pods, placements, probe
    history), its views and its removal.
  \<^item> \<open>Edge_Routes\<close> (\<^verbatim>\<open>controller/state.py\<close>, \<^verbatim>\<open>ingress/edge_docs.py\<close>): edge ingress routes and policies, the sites they are for, the documents sent.
  \<^item> \<open>Route_Bundles\<close> (\<^verbatim>\<open>transport/route_bundle_publisher.py\<close>, on \<open>Edge_Routes\<close>, \<open>App_State\<close> and \<open>Hub_Ingress\<close>): the publisher, and publisher and
    gateway together over a network that loses, repeats and reorders (\<open>route_step\<close>).
  \<^item> \<open>Etcd_Kv\<close>, \<open>Etcd_Work\<close>, \<open>Etcd_Leases\<close> (\<^verbatim>\<open>controller/etcd_state.py\<close>, on the rows of \<open>Work_Store\<close>, \<open>Leases\<close> and \<open>Site_Ports\<close>): the work tables, leases and
    site ports of the second state store, used when several controllers run. The server is an argument with the contract \<open>etcd_kv\<close>; the
    contract \<open>attempt_ledger\<close> is met by the ledgers of both stores.
  \<^item> \<open>Etcd_Versions\<close>, \<open>Etcd_Registry\<close>, \<open>Etcd_App_State\<close> (the same file, on the data of \<open>Registry\<close> and \<open>App_State\<close>): a server with revisions as the locale
    \<open>versioned_kv\<close> and a reference server for it; registered apps, authority objects, revisions and metrics with the calls of several clients
    interleaved as \<open>run_registry\<close>; snapshots, pods, placements, probes and volume attachments (locale \<open>app_kv\<close>).
  \<^item> \<open>Cell_Planner\<close> (\<^verbatim>\<open>StagePlanner\<close> and \<^verbatim>\<open>BoundaryBudgetAdmission\<close> of \<^verbatim>\<open>controller/inference_cell.py\<close>, on \<open>Leases\<close>): which node runs
    which stage, and whether the links allow it.
  \<^item> \<open>Cell_Store\<close> (\<^verbatim>\<open>controller/state.py\<close>, on \<open>Nodes\<close> and \<open>Registry\<close>): the tables of cells, their events, sets and fabric sessions.
  \<^item> \<open>Cell_Control\<close> (\<^verbatim>\<open>LocalFabricBroker\<close> and \<^verbatim>\<open>InferenceCellController\<close> of \<^verbatim>\<open>controller/inference_cell.py\<close>): each phase of \<^verbatim>\<open>_run_once\<close>, the
    rendered workloads, \<^verbatim>\<open>reconcile_manifest\<close> and \<^verbatim>\<open>delete_cell\<close>; what each phase may do to a record and to the leases.
  \<^item> \<open>Cell_Lifecycle\<close>: phase graph, termination, and the leases of any number of cells as the invariant of \<open>cells_reachable\<close>.
  \<^item> \<open>Cell_Progress\<close>: what one phase writes is read back by the next, the way to ready, and what is not given back.
  \<^item> \<open>Cell_Sets\<close> (\<^verbatim>\<open>InferenceCellSetController\<close>): names, reconciling, scaling and deleting of sets of cells.
  \<^item> This theory: election and fencing composed.

  A definition has the name of the method it models, without the leading underscore; a table is a
  list of records whose fields are its columns; a class is a record of its fields. Definitions that are
  part of a method (a loop, the body after a SELECT) are named after it.

  \<^bold>\<open>What is shown.\<close> Fencing: along any run with one handler per scope at a time the accepted epoch never decreases and a
  committed operation is never accepted again; with handlers side by side the second half still holds and
  the first does not. Work: a leased item is not delivered twice within its timeout, finished work never
  again, a superseded attempt changes nothing, acknowledgements need the queued envelope. Gateway:
  at most one call that dispatches an operation returns, and the node gets it once more at most for every such call that raised;
  a result is marked delivered only when it was sent or, from its handler, scheduled, which can lose it; a recorded
  result stays listed until it is delivered or the spool is cleaned up. Registry: one compare-and-swap per key on every branch of serial
  writers, and its failure under interleaving; revision histories without gaps when no purge falls into the middle of a call. Leases: all or nothing, and
  exclusive until released. Ports: unique under any interleaving. Election: no two
  self-believed leaders share an epoch, over any contract-keeping etcd that may fail any call; hence
  (here) a fence that has seen the newer leader refuses the older. Scheduler: every pod is placed
  once, only on eligible nodes, with skew at most one when spread and evenly when not. Site protocol: a follower
  changes nothing, a granted lease can be renewed over any traffic of others, a result counts only when it matches the
  ledger; and that a late progress report reopens finished work, which the watchdog then reschedules. Routes: the route table is a map under any
  sequence of operations; a bundle counts as acknowledged only when the gateway has applied exactly its content, over any
  loss, repetition and reordering, and one turn and its two messages bring a change to the site; what a restart of the publisher and a
  malformed route break. Snapshots: what was recorded is what is read, and histories stay bounded.
  The etcd store: its ledger agrees with the SQL one, serial pulls are exclusive, GPU leases are exclusive under any interleaving of calls, also when
  calls that create are repeated after a lost answer, but not when deletions are; and where
  it parts from the SQL store: results of rescheduled work are refused, a site is given the work of another, two controllers deliver one item or
  assign one port twice. Its registry lets one conditional writer through per version under any interleaving and any repetition, and numbers revisions upwards when serial;
  but the version it answers may be another writer's, the listing of a namespace is empty, a snapshot keeps a moved pod on its old node, deleting an
  app takes pods and volumes of apps whose names continue its name, and a pod can lose its probes to another's. Cells: a plan puts each
  stage on an eligible node of its own and exists exactly when the prescribed sites have enough of them;
  admission decides by the links and budgets; every step follows the phase graph, phase changes are bounded by the restarts
  left, a cell holds at most the lease it records and never touches another cell; a cell that can be
  planned, admitted and reserved becomes ready in one call, leasing exactly the GPUs of its plan; a reconciled set has exactly its expected cells. Also what the
  lane does not give back: leases of failed cells, workers started before a failing one.

  \<^bold>\<open>Conventions.\<close> Everything from outside is an argument: clocks, random jitter, generated ids, environment variables, the
  outcome of each call to agents, runtimes and networks, etcd, the API shim's objects, the iteration order of Python sets, the
  validation and hash of manifests, the normalisation of capabilities. Python integers are unbounded and are
  \<^typ>\<open>int\<close>; times and float seconds are integers of microseconds, latencies and fractions of cells are rational numbers. No
  definition needs fuel: the loops of the modelled code run over lists or ranges, the rounds of a cell are a list
  with one environment each (sixteen in the source, seven are enough), and the endless outer loops appear as sequences of turns of any length.

  A method that uses one connection is one step. \<^verbatim>\<open>prepare_revision\<close>, the registrations and the port assignments, which read and write on
  separate ones, are also modelled in halves; a theorem that speaks of the whole method then says that it is serial, or takes the halves as steps.
  The log of a gateway or publisher has the calls it made and whether they returned. Whether a message was sent is another
  matter, and \<open>reached\<close> in \<open>Gateway\<close> says how the two may differ: a call that raised on its timeout may have sent, and a call on the client's own
  thread has only scheduled. A call to etcd reaches the server once, except in \<open>run_clients\<close> and \<open>run_registry\<close>, whose schedules say which answers are
  lost, so that the HTTP client repeats the call; that a request left behind by a timeout is carried out later than its repetition is not modelled.

  \<^bold>\<open>Not modelled.\<close> The events and the edge route, node, service, fabric and cell tables of the etcd store, the reconciler and controller process, the
  API shim, container runtimes, storage, ingress renderers, networking, fabric scoring, HTTP views, metrics and
  commands: they are wiring, presentation or I/O, or use floating point throughout. A database or spool that fails in the middle of a statement is outside the model,
  except where a method catches it.
\<close>

section \<open>Election and fencing together\<close>





end
